(* ===== verification/JsString.thy ===== *)
theory JsString
  imports Prelude
begin

text \<open>
  The part of JavaScript's strings, hex digits and UTF-8 the source uses.
  A JavaScript string is represented by its UTF-8 bytes (a \<open>string\<close>, that is a
  \<open>char list\<close>); strings with unpaired surrogates have no representation.
  \<open>js_length\<close> counts UTF-16 code units, as \<open>String.length\<close> does, and \<open>utf8_decode\<close>
  is the lossy decoder behind \<open>Buffer.toString('utf8')\<close> and \<open>TextDecoder\<close>.
  Case conversion is modelled on ASCII letters.
\<close>

section \<open>Hex digits\<close>

definition hex_digit :: "nat \<Rightarrow> char" where
  "hex_digit n = (if n < 10 then char_of (48 + n) else char_of (87 + n))"

definition hex_val :: "char \<Rightarrow> nat option" where
  "hex_val c =
     (let n = of_char c :: nat in
      if 48 \<le> n \<and> n \<le> 57 then Some (n - 48)
      else if 97 \<le> n \<and> n \<le> 102 then Some (n - 87)
      else if 65 \<le> n \<and> n \<le> 70 then Some (n - 55)
      else None)"

definition is_hex :: "char \<Rightarrow> bool" where
  "is_hex c = (hex_val c \<noteq> None)"

lemma hex_val_digit [hex_simps, simp]: "n < 16 \<Longrightarrow> hex_val (hex_digit n) = Some n"
  by (auto simp: hex_val_def hex_digit_def Let_def)

lemma is_hex_digit [hex_simps, simp]: "n < 16 \<Longrightarrow> is_hex (hex_digit n)"
  by (simp add: is_hex_def)

lemma hex_val_less: "hex_val c = Some n \<Longrightarrow> n < 16"
  by (auto simp: hex_val_def Let_def split: if_splits)

lemma hex_digit_inj: "m < 16 \<Longrightarrow> n < 16 \<Longrightarrow> hex_digit m = hex_digit n \<longleftrightarrow> m = n"
  by (metis hex_val_digit option.inject)

text \<open>\<open>n.toString(16)\<close> and \<open>s.padStart(k, c)\<close>.\<close>

fun to_string16 :: "nat \<Rightarrow> string" where
  "to_string16 n = (if n < 16 then [hex_digit n] else to_string16 (n div 16) @ [hex_digit (n mod 16)])"

declare to_string16.simps [simp del]

definition pad_start :: "nat \<Rightarrow> char \<Rightarrow> string \<Rightarrow> string" where
  "pad_start k c s = replicate (k - length s) c @ s"

definition pad_end :: "nat \<Rightarrow> char \<Rightarrow> string \<Rightarrow> string" where
  "pad_end k c s = s @ replicate (k - length s) c"

definition byte_hex :: "8 word \<Rightarrow> string" where
  "byte_hex b = pad_start 2 (CHR ''0'') (to_string16 (unat b))"

lemma unat_byte_less: "unat (b :: 8 word) < 256"
proof -
  have "unat b < 2 ^ LENGTH(8)" by (rule unsigned_less)
  then show ?thesis by simp
qed

lemma char_of_48 [simp]: "char_of (48 :: nat) = CHR ''0''"
  by code_simp

lemma byte_hex_digits:
  "byte_hex b = [hex_digit (unat b div 16), hex_digit (unat b mod 16)]"
proof (cases "unat b < 16")
  case True
  then show ?thesis
    by (simp add: byte_hex_def pad_start_def to_string16.simps hex_digit_def)
next
  case False
  with unat_byte_less [of b] have "unat b div 16 < 16" by auto
  with False show ?thesis
    by (simp add: byte_hex_def pad_start_def to_string16.simps [of "unat b"]
        to_string16.simps [of "unat b div 16"])
qed

lemma length_byte_hex [hex_simps, simp]: "length (byte_hex b) = 2"
  by (simp add: byte_hex_digits)

definition bytes_hex :: "bytes \<Rightarrow> string" where
  "bytes_hex bs = concat (map byte_hex bs)"

lemma bytes_hex_Nil [hex_simps, simp]: "bytes_hex [] = []"
  by (simp add: bytes_hex_def)

lemma bytes_hex_Cons [hex_simps]:
  "bytes_hex (b # bs) = hex_digit (unat b div 16) # hex_digit (unat b mod 16) # bytes_hex bs"
  by (simp add: bytes_hex_def byte_hex_digits)

lemma length_bytes_hex [hex_simps, simp]: "length (bytes_hex bs) = 2 * length bs"
  by (induction bs) (auto simp: bytes_hex_Cons)

lemma bytes_hex_is_hex [hex_simps]: "list_all is_hex (bytes_hex bs)"
proof (induction bs)
  case (Cons b bs)
  have "unat b div 16 < 16" "unat b mod 16 < 16" using unat_byte_less [of b] by auto
  with Cons show ?case by (simp add: bytes_hex_Cons)
qed simp

text \<open>Two hex digits as a byte, and a whole string of them (\<open>None\<close> for anything else).\<close>

definition hex_pair :: "char \<Rightarrow> char \<Rightarrow> 8 word option" where
  "hex_pair c d =
     (case hex_val c of None \<Rightarrow> None
      | Some h \<Rightarrow> (case hex_val d of None \<Rightarrow> None | Some l \<Rightarrow> Some (of_nat (16 * h + l))))"

fun hex_bytes :: "string \<Rightarrow> bytes option" where
  "hex_bytes [] = Some []"
| "hex_bytes [c] = None"
| "hex_bytes (c # d # s) =
     (case hex_pair c d of None \<Rightarrow> None
      | Some b \<Rightarrow> (case hex_bytes s of None \<Rightarrow> None | Some bs \<Rightarrow> Some (b # bs)))"

lemma hex_pair_byte [hex_simps]:
  "hex_pair (hex_digit (unat b div 16)) (hex_digit (unat b mod 16)) = Some b"
proof -
  have "unat b div 16 < 16" using unat_byte_less [of b] by auto
  then show ?thesis by (simp add: hex_pair_def flip: of_nat_mult of_nat_add)
qed

lemma hex_bytes_bytes_hex [hex_simps, simp]: "hex_bytes (bytes_hex bs) = Some bs"
  by (induction bs) (simp_all add: bytes_hex_Cons hex_pair_byte)

lemma hex_bytes_Some_iff:
  "(\<exists>bs. hex_bytes s = Some bs) \<longleftrightarrow> even (length s) \<and> list_all is_hex s"
  by (induction s rule: hex_bytes.induct) (auto simp: hex_pair_def is_hex_def split: option.splits)

lemma length_hex_bytes: "hex_bytes s = Some bs \<Longrightarrow> length s = 2 * length bs"
  by (induction s arbitrary: bs rule: hex_bytes.induct) (auto split: option.splits)

lemma bytes_hex_inj: "bytes_hex as = bytes_hex bs \<longleftrightarrow> as = bs"
  by (metis hex_bytes_bytes_hex option.inject)

section \<open>Case, prefixes\<close>

definition to_lower :: "char \<Rightarrow> char" where
  "to_lower c = (let n = of_char c :: nat in if 65 \<le> n \<and> n \<le> 90 then char_of (n + 32) else c)"

definition to_upper :: "char \<Rightarrow> char" where
  "to_upper c = (let n = of_char c :: nat in if 97 \<le> n \<and> n \<le> 122 then char_of (n - 32) else c)"

abbreviation lower_case :: "string \<Rightarrow> string" where
  "lower_case \<equiv> map to_lower"

abbreviation upper_case :: "string \<Rightarrow> string" where
  "upper_case \<equiv> map to_upper"

definition starts_with :: "string \<Rightarrow> string \<Rightarrow> bool" where
  "starts_with p s = (take (length p) s = p)"

lemma starts_with_append [simp]: "starts_with p (p @ s)"
  by (simp add: starts_with_def)

lemma starts_with_iff: "starts_with p s \<longleftrightarrow> (\<exists>t. s = p @ t)"
  by (metis append_eq_conv_conj append_take_drop_id starts_with_def)

lemma to_lower_idem [simp]: "to_lower (to_lower c) = to_lower c"
  by (auto simp: to_lower_def Let_def)

lemma lower_case_idem [simp]: "lower_case (lower_case s) = lower_case s"
  by simp

lemma hex_val_to_lower [simp]: "hex_val (to_lower c) = hex_val c"
proof -
  define m where "m = (of_char c :: nat)"
  then have c: "c = char_of m" and m: "m < 256" by simp_all
  show ?thesis using m by (auto simp: hex_val_def to_lower_def Let_def c)
qed

lemma hex_val_to_upper [simp]: "hex_val (to_upper c) = hex_val c"
proof -
  define m where "m = (of_char c :: nat)"
  then have c: "c = char_of m" and m: "m < 256" by simp_all
  show ?thesis using m by (auto simp: hex_val_def to_upper_def Let_def c)
qed

lemma hex_pair_case [simp]:
  "hex_pair (to_lower c) (to_lower d) = hex_pair c d"
  "hex_pair (to_upper c) (to_upper d) = hex_pair c d"
  by (auto simp: hex_pair_def split: option.split)

lemma hex_bytes_lower_case [simp]: "hex_bytes (lower_case s) = hex_bytes s"
  by (induction s rule: hex_bytes.induct) (auto split: option.split)

lemma hex_bytes_upper_case [simp]: "hex_bytes (upper_case s) = hex_bytes s"
  by (induction s rule: hex_bytes.induct) (auto split: option.split)

text \<open>Lower-casing a hex digit gives the canonical digit of its value.\<close>

lemma to_lower_hex: "hex_val c = Some n \<Longrightarrow> to_lower c = hex_digit n"
proof -
  assume h: "hex_val c = Some n"
  define m where "m = (of_char c :: nat)"
  then have c: "c = char_of m" by simp
  from h show ?thesis
    by (auto simp: hex_val_def to_lower_def hex_digit_def Let_def c split: if_splits)
qed

lemma lower_case_hex_bytes: "hex_bytes s = Some bs \<Longrightarrow> lower_case s = bytes_hex bs"
proof (induction s arbitrary: bs rule: hex_bytes.induct)
  case (3 c d s)
  then obtain h l bs' where h: "hex_val c = Some h" "hex_val d = Some l"
    and bs: "bs = of_nat (16 * h + l) # bs'" "hex_bytes s = Some bs'"
    by (auto simp: hex_pair_def split: option.splits)
  have "h < 16" "l < 16" using h by (auto dest: hex_val_less)
  then have "unat (of_nat (16 * h + l) :: 8 word) = 16 * h + l"
    by (simp add: unat_of_nat del: of_nat_add of_nat_mult)
  with \<open>l < 16\<close> 3 h bs show ?case
    by (simp add: bytes_hex_Cons to_lower_hex hex_pair_def)
qed auto

text \<open>Two hex strings that decode to the same bytes differ in letter case only.\<close>

lemma hex_bytes_eq_lower_case:
  assumes "hex_bytes s = Some bs" "hex_bytes t = Some cs"
  shows "lower_case s = lower_case t \<longleftrightarrow> bs = cs"
  using assms by (simp add: lower_case_hex_bytes bytes_hex_inj)

section \<open>UTF-8\<close>

definition utf8_bytes :: "string \<Rightarrow> bytes" where
  "utf8_bytes s = map of_char s"

definition byte_char :: "8 word \<Rightarrow> char" where
  "byte_char b = char_of (unat b)"

lemma byte_char_of_char [simp]: "byte_char (of_char c) = c"
proof -
  have "of_char c = (of_nat (of_char c) :: 8 word)" by (simp add: of_nat_of_char)
  then have "unat (of_char c :: 8 word) = of_char c" by (simp add: unat_of_nat)
  then show ?thesis by (simp add: byte_char_def)
qed

lemma length_utf8_bytes [simp]: "length (utf8_bytes s) = length s"
  by (simp add: utf8_bytes_def)

lemma utf8_bytes_append [simp]: "utf8_bytes (s @ t) = utf8_bytes s @ utf8_bytes t"
  by (simp add: utf8_bytes_def)

lemma map_byte_char_utf8 [simp]: "map byte_char (utf8_bytes s) = s"
  by (simp add: utf8_bytes_def comp_def)

lemma utf8_bytes_inj: "utf8_bytes s = utf8_bytes t \<longleftrightarrow> s = t"
  by (metis map_byte_char_utf8)

lemma unat_of_char_byte [simp]: "unat (of_char c :: 8 word) = of_char c"
proof -
  have "(of_char (byte_char (of_char c)) :: nat) = unat (of_char c :: 8 word)"
    using unat_byte_less [of "of_char c"] by (simp add: byte_char_def del: byte_char_of_char)
  then show ?thesis by simp
qed

text \<open>
  The decoder: for a lead byte the number of continuation bytes and the range the
  first of them must lie in. An ill-formed sequence is replaced by U+FFFD (three
  bytes) up to its maximal well-formed prefix, and decoding resumes after it.
\<close>

definition utf8_lead :: "nat \<Rightarrow> (nat \<times> nat \<times> nat) option" where
  "utf8_lead b =
     (if b < 128 then Some (0, 128, 191)
      else if 194 \<le> b \<and> b \<le> 223 then Some (1, 128, 191)
      else if b = 224 then Some (2, 160, 191)
      else if b = 237 then Some (2, 128, 159)
      else if 225 \<le> b \<and> b \<le> 239 then Some (2, 128, 191)
      else if b = 240 then Some (3, 144, 191)
      else if 241 \<le> b \<and> b \<le> 243 then Some (3, 128, 191)
      else if b = 244 then Some (3, 128, 143)
      else None)"

fun utf8_tail :: "nat \<Rightarrow> nat \<Rightarrow> nat \<Rightarrow> bytes \<Rightarrow> bytes \<times> bytes \<times> bool" where
  "utf8_tail 0 lo hi bs = ([], bs, True)"
| "utf8_tail (Suc n) lo hi [] = ([], [], False)"
| "utf8_tail (Suc n) lo hi (c # cs) =
     (if lo \<le> unat c \<and> unat c \<le> hi
      then (case utf8_tail n 128 191 cs of (ds, rest, ok) \<Rightarrow> (c # ds, rest, ok))
      else ([], c # cs, False))"

lemma utf8_tail_rest_le: "utf8_tail n lo hi bs = (cs, rest, ok) \<Longrightarrow> length rest \<le> length bs"
  by (induction n lo hi bs arbitrary: cs rest ok rule: utf8_tail.induct)
    (force split: if_splits prod.splits)+

definition replacement_char :: string where
  "replacement_char = map byte_char [239, 191, 189]"

function utf8_decode :: "bytes \<Rightarrow> string" where
  "utf8_decode [] = []"
| "utf8_decode (b # bs) =
     (case utf8_lead (unat b) of
        None \<Rightarrow> replacement_char @ utf8_decode bs
      | Some (n, lo, hi) \<Rightarrow>
          (case utf8_tail n lo hi bs of (cs, rest, ok) \<Rightarrow>
             (if ok then map byte_char (b # cs) else replacement_char) @ utf8_decode rest))"
  by pat_completeness auto
termination
  by (relation "measure length") (auto simp: less_Suc_eq_le dest: utf8_tail_rest_le [OF sym])

definition ascii :: "string \<Rightarrow> bool" where
  "ascii s = list_all (\<lambda>c. of_char c < (128 :: nat)) s"

lemma ascii_simps [simp]:
  "ascii []" "ascii (c # s) \<longleftrightarrow> of_char c < (128 :: nat) \<and> ascii s"
  "ascii (s @ t) \<longleftrightarrow> ascii s \<and> ascii t"
  by (auto simp: ascii_def)

lemma utf8_decode_ascii [simp]: "ascii s \<Longrightarrow> utf8_decode (utf8_bytes s) = s"
  by (induction s) (auto simp: utf8_bytes_def utf8_lead_def)

text \<open>\<open>String.length\<close>: continuation bytes count nothing, four-byte leads count twice.\<close>

definition char_units :: "char \<Rightarrow> nat" where
  "char_units c =
     (let n = of_char c :: nat in if n < 128 then 1 else if n < 192 then 0 else if n < 240 then 1 else 2)"

definition js_length :: "string \<Rightarrow> nat" where
  "js_length s = sum_list (map char_units s)"

text \<open>\<open>s.slice(0, n)\<close>: the characters that fit in \<open>n\<close> code units.\<close>

fun js_take :: "nat \<Rightarrow> string \<Rightarrow> string" where
  "js_take n [] = []"
| "js_take n (c # s) = (if n < char_units c then [] else c # js_take (n - char_units c) s)"

lemma js_length_ascii [simp]: "ascii s \<Longrightarrow> js_length s = length s"
  by (induction s) (auto simp: js_length_def char_units_def)

section \<open>Decimal numerals\<close>

definition digit :: "nat \<Rightarrow> char" where
  "digit n = char_of (48 + n)"

definition digit_val :: "char \<Rightarrow> nat option" where
  "digit_val c = (let n = of_char c :: nat in if 48 \<le> n \<and> n \<le> 57 then Some (n - 48) else None)"

definition is_digit :: "char \<Rightarrow> bool" where
  "is_digit c = (digit_val c \<noteq> None)"

lemma digit_val_digit [simp]: "n < 10 \<Longrightarrow> digit_val (digit n) = Some n"
  by (auto simp: digit_val_def digit_def Let_def)

lemma is_digit_digit [simp]: "n < 10 \<Longrightarrow> is_digit (digit n)"
  by (simp add: is_digit_def)

fun nat_str :: "nat \<Rightarrow> string" where
  "nat_str n = (if n < 10 then [digit n] else nat_str (n div 10) @ [digit (n mod 10)])"

declare nat_str.simps [simp del]

definition int_str :: "int \<Rightarrow> string" where
  "int_str i = (if i < 0 then CHR ''-'' # nat_str (nat (- i)) else nat_str (nat i))"

definition dec_step :: "nat \<Rightarrow> char \<Rightarrow> nat" where
  "dec_step acc c = 10 * acc + (case digit_val c of None \<Rightarrow> 0 | Some d \<Rightarrow> d)"

definition dec_val :: "string \<Rightarrow> nat" where
  "dec_val s = foldl dec_step 0 s"

lemma dec_val_nat_str [simp]: "dec_val (nat_str n) = n"
proof (induction n rule: nat_str.induct)
  case (1 n)
  then show ?case
    by (cases "n < 10") (auto simp: nat_str.simps [of n] dec_val_def dec_step_def)
qed

lemma nat_str_digits [simp]: "list_all is_digit (nat_str n)"
proof (induction n rule: nat_str.induct)
  case (1 n)
  then show ?case by (cases "n < 10") (auto simp: nat_str.simps [of n])
qed

lemma nat_str_nonempty [simp]: "nat_str n \<noteq> []"
  by (subst nat_str.simps) simp

lemma digit_ascii [simp]: "is_digit c \<Longrightarrow> of_char c < (128 :: nat)"
  by (auto simp: is_digit_def digit_val_def Let_def split: if_splits)

lemma digits_ascii: "list_all is_digit s \<Longrightarrow> ascii s"
  by (induction s) auto

lemma nat_str_ascii [simp]: "ascii (nat_str n)"
  by (rule digits_ascii) simp

lemma nat_str_inj [simp]: "nat_str m = nat_str n \<longleftrightarrow> m = n"
  by (metis dec_val_nat_str)

lemma digit_0_iff: "n < 10 \<Longrightarrow> digit n = CHR ''0'' \<longleftrightarrow> n = 0"
proof -
  assume "n < 10"
  moreover have "digit 0 = CHR ''0''" by code_simp
  ultimately show ?thesis
    by (metis digit_val_digit option.inject zero_less_numeral)
qed

lemma nat_str_hd: "0 < n \<Longrightarrow> hd (nat_str n) \<noteq> CHR ''0''"
proof (induction n rule: nat_str.induct)
  case (1 n)
  show ?case
  proof (cases "n < 10")
    case True
    with 1 show ?thesis by (simp add: nat_str.simps [of n] digit_0_iff)
  next
    case False
    with 1 have "hd (nat_str (n div 10)) \<noteq> CHR ''0''" by simp
    with False show ?thesis by (simp add: nat_str.simps [of n])
  qed
qed

lemma nat_str_0 [simp]: "nat_str 0 = ''0''"
  by code_simp

section \<open>Regular expressions of the source\<close>

text \<open>\<open>/^0x[0-9a-fA-F]{40}$/\<close>, \<open>/^[1-9][0-9]*$/\<close>, \<open>/^0x[0-9a-fA-F]*$/\<close> and \<open>/^0x0+$/\<close>.\<close>

definition re_address :: "string \<Rightarrow> bool" where
  "re_address s = (length s = 42 \<and> starts_with ''0x'' s \<and> list_all is_hex (drop 2 s))"

definition re_amount :: "string \<Rightarrow> bool" where
  "re_amount s = (case s of [] \<Rightarrow> False | c # cs \<Rightarrow> is_digit c \<and> c \<noteq> CHR ''0'' \<and> list_all is_digit cs)"

definition re_hex_string :: "string \<Rightarrow> bool" where
  "re_hex_string s = (starts_with ''0x'' s \<and> list_all is_hex (drop 2 s))"

definition re_zero_hex :: "string \<Rightarrow> bool" where
  "re_zero_hex s = (starts_with ''0x'' s \<and> drop 2 s \<noteq> [] \<and> list_all (\<lambda>c. c = CHR ''0'') (drop 2 s))"

lemma re_amount_nat_str: "0 < n \<Longrightarrow> re_amount (nat_str n)"
  using nat_str_hd [of n] nat_str_digits [of n] nat_str_nonempty [of n]
  by (cases "nat_str n") (auto simp: re_amount_def)

lemma re_amount_pos: "re_amount s \<Longrightarrow> 0 < dec_val s"
proof -
  have ge: "acc \<le> foldl dec_step acc cs" for acc cs
  proof (induction cs arbitrary: acc)
    case (Cons a cs)
    have "acc \<le> dec_step acc a" by (simp add: dec_step_def)
    also have "\<dots> \<le> foldl dec_step (dec_step acc a) cs" by (rule Cons.IH)
    finally show ?case by simp
  qed simp
  assume "re_amount s"
  then obtain c cs where s: "s = c # cs" and c: "is_digit c" "c \<noteq> CHR ''0''"
    by (auto simp: re_amount_def split: list.splits)
  have "digit_val c \<noteq> Some 0"
  proof
    assume "digit_val c = Some 0"
    then have "of_char c = (48 :: nat)" by (auto simp: digit_val_def Let_def split: if_splits)
    then have "char_of (of_char c :: nat) = char_of (48 :: nat)" by (simp only:)
    with c(2) show False by simp
  qed
  with c(1) have "0 < dec_step 0 c" by (auto simp: is_digit_def dec_step_def)
  also have "\<dots> \<le> foldl dec_step (dec_step 0 c) cs" by (rule ge)
  finally show ?thesis by (simp add: s dec_val_def)
qed

section \<open>parseInt with radix 16, slices\<close>

definition js_ws :: "char \<Rightarrow> bool" where
  "js_ws c = (of_char c \<in> {9, 10, 11, 12, 13, 32 :: nat})"

definition hex_step :: "nat \<Rightarrow> char \<Rightarrow> nat" where
  "hex_step acc c = 16 * acc + (case hex_val c of None \<Rightarrow> 0 | Some d \<Rightarrow> d)"

text \<open>White space, a sign and a \<open>0x\<close> are skipped; \<open>None\<close> is \<open>NaN\<close>, for no digit at all.\<close>

definition parse_int16 :: "string \<Rightarrow> int option" where
  "parse_int16 s =
     (let t = dropWhile js_ws s;
          neg = starts_with ''-'' t;
          u = (if neg \<or> starts_with ''+'' t then tl t else t);
          v = (if starts_with ''0x'' u \<or> starts_with ''0X'' u then drop 2 u else u);
          ds = takeWhile is_hex v
      in if ds = [] then None
         else Some (if neg then - int (foldl hex_step 0 ds) else int (foldl hex_step 0 ds)))"

text \<open>Storing a number in a \<open>Uint8Array\<close>: modulo 256, \<open>NaN\<close> as 0.\<close>

definition to_uint8 :: "int option \<Rightarrow> 8 word" where
  "to_uint8 n = (case n of None \<Rightarrow> 0 | Some i \<Rightarrow> word_of_int i)"

text \<open>\<open>out[i] = parseInt(s.slice(2i, 2i + 2), 16)\<close> for every \<open>i\<close> of an array of \<open>n\<close> bytes.\<close>

definition parse_pairs :: "nat \<Rightarrow> string \<Rightarrow> bytes" where
  "parse_pairs n s = map (\<lambda>i. to_uint8 (parse_int16 (take 2 (drop (2 * i) s)))) [0..<n]"

lemma parse_int16_pair:
  assumes "hex_pair c d = Some b"
  shows "to_uint8 (parse_int16 [c, d]) = b"
proof -
  obtain h l where h: "hex_val c = Some h" "hex_val d = Some l" "b = of_nat (16 * h + l)"
    using assms by (auto simp: hex_pair_def split: option.splits)
  have ws: "\<not> js_ws c"
    using h(1) by (auto simp: js_ws_def hex_val_def Let_def split: if_splits)
  have lits: "hex_val CHR ''-'' = None" "hex_val CHR ''+'' = None" "hex_val CHR ''x'' = None"
    "hex_val CHR ''X'' = None" by code_simp+
  have ne: "c \<noteq> CHR ''-''" "c \<noteq> CHR ''+''" "d \<noteq> CHR ''x''" "d \<noteq> CHR ''X''"
    using h(1,2) lits by auto
  have "is_hex c" "is_hex d" using h by (simp_all add: is_hex_def)
  with ne ws h show ?thesis
    by (simp add: parse_int16_def starts_with_def Let_def to_uint8_def hex_step_def)
qed

lemma parse_pairs_Suc:
  "parse_pairs (Suc n) (c # d # s) = to_uint8 (parse_int16 [c, d]) # parse_pairs n s"
proof -
  have "[0..<Suc n] = 0 # map Suc [0..<n]" by (simp only: upt_rec [of 0 "Suc n"] map_Suc_upt) simp
  then show ?thesis by (simp add: parse_pairs_def comp_def del: upt_Suc map_Suc_upt)
qed

lemma parse_pairs_hex_bytes:
  "hex_bytes s = Some bs \<Longrightarrow> parse_pairs (length s div 2) s = bs"
proof (induction s arbitrary: bs rule: hex_bytes.induct)
  case (3 c d s)
  then show ?case
    by (auto simp: parse_pairs_Suc parse_int16_pair split: option.splits)
qed (auto simp: parse_pairs_def)

lemma is_hex_ascii: "is_hex c \<Longrightarrow> of_char c < (128 :: nat)"
  by (auto simp: is_hex_def hex_val_def Let_def split: if_splits)

lemma list_all_hex_ascii: "list_all is_hex s \<Longrightarrow> ascii s"
  by (induction s) (auto simp: is_hex_ascii)

section \<open>Padded decimals\<close>

lemma foldl_dec_step: "foldl dec_step a s = a * 10 ^ length s + foldl dec_step 0 s"
proof (induction s arbitrary: a)
  case (Cons c s)
  show ?case
    using Cons.IH [of "dec_step a c"] Cons.IH [of "dec_step 0 c"] by (simp add: dec_step_def algebra_simps)
qed simp

lemma dec_val_append: "dec_val (s @ t) = dec_val s * 10 ^ length t + dec_val t"
  using foldl_dec_step [of "dec_val s" t] by (simp add: dec_val_def)

lemma dec_val_zeros [simp]: "dec_val (replicate n CHR ''0'') = 0"
proof -
  have "digit_val CHR ''0'' = Some 0" by code_simp
  then show ?thesis by (induction n) (simp_all add: dec_val_def dec_step_def)
qed

lemma length_nat_str: "n < 10 ^ Suc d \<Longrightarrow> length (nat_str n) \<le> Suc d"
proof (induction d arbitrary: n)
  case (Suc d)
  then have "n div 10 < 10 ^ Suc d" by (simp add: less_mult_imp_div_less mult.commute)
  with Suc.IH [of "n div 10"] show ?case by (subst nat_str.simps) simp
qed (subst nat_str.simps, simp)

lemma zero_digit [simp]: "is_digit CHR ''0''"
  by code_simp

lemma zeros_digits [simp]: "list_all is_digit (replicate n CHR ''0'')"
  by (induction n) simp_all

lemma padded_digits [simp]: "list_all is_digit (pad_start k CHR ''0'' (nat_str n))"
  by (simp add: pad_start_def)

lemma padded_value [simp]: "dec_val (pad_start k CHR ''0'' (nat_str n)) = n"
  by (simp add: pad_start_def dec_val_append)

lemma padded_length: "n < 10 ^ Suc k \<Longrightarrow> length (pad_start (Suc k) CHR ''0'' (nat_str n)) = Suc k"
  using length_nat_str [of n k] by (simp add: pad_start_def)

end
