(* ===== verification/Codecs.thy ===== *)
theory Codecs
  imports JsString
begin

text \<open>
  The interface between code that writes a value down and code that reads it back:
  \<open>dec\<close> undoes \<open>enc\<close> on the valid values. The hex codecs of the enclave's framework
  and of the browser, the bytes32 identifiers and the JSON payload are its
  instances, and the lemmas about faithful transport are proved here once.
\<close>

locale codec =
  fixes enc :: "'a \<Rightarrow> 't" and dec :: "'t \<Rightarrow> 'a option" and valid :: "'a \<Rightarrow> bool"
  assumes dec_enc: "valid a \<Longrightarrow> dec (enc a) = Some a"
begin

lemma enc_eq_iff: "valid a \<Longrightarrow> valid b \<Longrightarrow> enc a = enc b \<longleftrightarrow> a = b"
  by (metis dec_enc option.inject)

lemma enc_inj_on: "inj_on enc (Collect valid)"
  by (auto intro!: inj_onI simp: enc_eq_iff)

lemma dec_enc_all: "list_all valid as \<Longrightarrow> traverse dec (map enc as) = Some as"
  using traverse_map [of as dec enc id] by (simp add: dec_enc list_all_iff)

end

text \<open>
  A codec whose decoder also rejects or normalises: what it accepts is, up to a
  normal form of the text, what the encoder writes.
\<close>

locale normal_codec = codec +
  fixes norm :: "'t \<Rightarrow> 't"
  assumes norm_dec: "dec t = Some a \<Longrightarrow> norm t = enc a"
    and dec_valid: "dec t = Some a \<Longrightarrow> valid a"
begin

lemma dec_eq_iff: "dec t = Some a \<Longrightarrow> dec u = Some b \<Longrightarrow> a = b \<longleftrightarrow> norm t = norm u"
  by (metis dec_valid enc_eq_iff norm_dec)

end

end
