(* ===== verification/ExtEncoding.thy ===== *)
theory ExtEncoding
  imports Codecs
begin

text \<open>
  Hex and bytes32 encodings of the enclave's TypeScript framework
  (apps/extension/typescript/src/base/encoding.ts). An exception is a value of
  \<open>js_error\<close>; \<open>error_text\<close> is what \<open>String(e)\<close> prints.
\<close>

datatype js_error = Err string | TypeErr string | RangeErr string

fun error_message :: "js_error \<Rightarrow> string" where
  "error_message (Err m) = m"
| "error_message (TypeErr m) = m"
| "error_message (RangeErr m) = m"

fun error_text :: "js_error \<Rightarrow> string" where
  "error_text (Err m) = ''Error: '' @ m"
| "error_text (TypeErr m) = ''TypeError: '' @ m"
| "error_text (RangeErr m) = ''RangeError: '' @ m"

section \<open>Operations\<close>

definition hexToBytes :: "string option \<Rightarrow> js_error + bytes" where
  "hexToBytes arg =
     (case arg of None \<Rightarrow> Inr []
      | Some h \<Rightarrow>
          let s = (if starts_with ''0x'' h \<or> starts_with ''0X'' h then drop 2 h else h) in
          if js_length s = 0 then Inr []
          else if js_length s mod 2 \<noteq> 0 then
            Inl (Err (''invalid hex: odd length ('' @ nat_str (js_length s) @ '')''))
          else if \<not> list_all is_hex s then Inl (Err ''invalid hex: non-hex characters'')
          else Inr (parse_pairs (js_length s div 2) s))"

definition bytesToHex :: "bytes \<Rightarrow> string" where
  "bytesToHex b = foldl (\<lambda>s byte. s @ byte_hex byte) ''0x'' b"

definition stringToBytes32Hex :: "string \<Rightarrow> js_error + string" where
  "stringToBytes32Hex s =
     (let encoded = utf8_bytes s in
      if length encoded > 32 then
        Inl (Err (''string too long for bytes32 ('' @ nat_str (length encoded) @ '' bytes): '' @ s))
      else Inr (bytesToHex (encoded @ replicate (32 - length encoded) 0)))"

text \<open>\<open>TextDecoder\<close> drops a leading byte order mark, then decodes.\<close>

definition text_decode :: "bytes \<Rightarrow> string" where
  "text_decode bs = utf8_decode (if take 3 bs = [239, 187, 191] then drop 3 bs else bs)"

definition strip_zeros :: "bytes \<Rightarrow> bytes" where
  "strip_zeros b = rev (dropWhile (\<lambda>x. x = 0) (rev b))"

definition bytes32HexToString :: "string option \<Rightarrow> string" where
  "bytes32HexToString h = (case hexToBytes h of Inl _ \<Rightarrow> [] | Inr b \<Rightarrow> text_decode (strip_zeros b))"

section \<open>Lemmas\<close>

lemma bytesToHex_eq: "bytesToHex b = ''0x'' @ bytes_hex b"
proof -
  have "foldl (\<lambda>s byte. s @ byte_hex byte) acc b = acc @ bytes_hex b" for acc
    by (induction b arbitrary: acc) (auto simp: bytes_hex_def)
  then show ?thesis by (simp add: bytesToHex_def)
qed

lemma length_bytesToHex [simp]: "length (bytesToHex b) = 2 + 2 * length b"
  by (simp add: bytesToHex_eq)

lemma js_length_0_iff: "list_all is_hex s \<Longrightarrow> js_length s = 0 \<longleftrightarrow> s = []"
  by (simp add: list_all_hex_ascii)

text \<open>What the decoder does on a string of hex digits, with or without its prefix.\<close>

lemma hexToBytes_hex:
  assumes "hex_bytes s = Some bs"
  shows "hexToBytes (Some (''0x'' @ s)) = Inr bs"
proof -
  have s: "even (length s)" "list_all is_hex s" using assms hex_bytes_Some_iff by blast+
  then have "js_length s = length s" by (simp add: list_all_hex_ascii)
  with s assms show ?thesis
    by (auto simp: hexToBytes_def starts_with_def parse_pairs_hex_bytes even_iff_mod_2_eq_zero)
qed

definition hex_body :: "string \<Rightarrow> string" where
  "hex_body h = (if starts_with ''0x'' h \<or> starts_with ''0X'' h then drop 2 h else h)"

lemma hexToBytes_Inr_iff:
  "hexToBytes (Some h) = Inr bs \<longleftrightarrow>
     (if js_length (hex_body h) = 0 then bs = [] else hex_bytes (hex_body h) = Some bs)"
proof (cases "list_all is_hex (hex_body h)")
  case True
  then have l: "js_length (hex_body h) = length (hex_body h)" by (simp add: list_all_hex_ascii)
  show ?thesis
  proof (cases "even (length (hex_body h))")
    case even: True
    then obtain cs where cs: "hex_bytes (hex_body h) = Some cs" using True hex_bytes_Some_iff by blast
    then have "parse_pairs (length (hex_body h) div 2) (hex_body h) = cs" by (rule parse_pairs_hex_bytes)
    with True l even cs show ?thesis
      by (simp add: hexToBytes_def flip: hex_body_def) auto
  next
    case False
    then have "hex_bytes (hex_body h) \<noteq> Some bs" using hex_bytes_Some_iff by blast
    with False True l show ?thesis
      by (auto simp: hexToBytes_def odd_iff_mod_2_eq_one simp flip: hex_body_def)
  qed
next
  case False
  then have "hex_bytes (hex_body h) \<noteq> Some bs" using hex_bytes_Some_iff by blast
  with False show ?thesis by (auto simp: hexToBytes_def Let_def simp flip: hex_body_def)
qed

lemma hexToBytes_bytesToHex [simp]: "hexToBytes (Some (bytesToHex b)) = Inr b"
  by (simp only: bytesToHex_eq hexToBytes_hex hex_bytes_bytes_hex)

definition hex_dec :: "string \<Rightarrow> bytes option" where
  "hex_dec t = (case hexToBytes (Some t) of Inl _ \<Rightarrow> None | Inr b \<Rightarrow> Some b)"

interpretation ext_hex: codec bytesToHex hex_dec "\<lambda>_. True"
  by unfold_locales (simp add: hex_dec_def)

lemma strip_zeros_padded:
  assumes "bs = [] \<or> last bs \<noteq> 0"
  shows "strip_zeros (bs @ replicate n 0) = bs"
proof -
  have "dropWhile (\<lambda>x. x = 0) (replicate n 0 @ rev bs) = rev bs"
  proof (cases bs rule: rev_cases)
    case (snoc cs c)
    with assms show ?thesis by (induction n) auto
  qed (induction n, auto)
  then show ?thesis by (simp add: strip_zeros_def)
qed

text \<open>The identifiers the registry converts: ASCII, at most 32 characters, no trailing NUL.\<close>

definition op_identifier :: "string \<Rightarrow> bool" where
  "op_identifier s = (ascii s \<and> length s \<le> 32 \<and> (s = [] \<or> last s \<noteq> CHR 0x00))"

lemma bytes32_roundtrip:
  assumes "op_identifier s" "stringToBytes32Hex s = Inr h"
  shows "bytes32HexToString (Some h) = s"
proof -
  let ?e = "utf8_bytes s"
  have h: "h = bytesToHex (?e @ replicate (32 - length ?e) 0)"
    using assms by (auto simp: stringToBytes32Hex_def op_identifier_def)
  have "?e = [] \<or> last ?e \<noteq> 0"
  proof (cases s rule: rev_cases)
    case (snoc t c)
    have z: "of_char CHR 0x00 = (0 :: nat)" by code_simp
    from snoc assms(1) have "c \<noteq> CHR 0x00" by (simp add: op_identifier_def)
    then have "of_char c \<noteq> (0 :: nat)" using z by (metis of_char_eq_iff)
    then have "(of_char c :: 8 word) \<noteq> 0" by (metis unat_of_char_byte unat_0)
    with snoc show ?thesis by (simp add: utf8_bytes_def)
  qed (simp add: utf8_bytes_def)
  moreover have "take 3 ?e \<noteq> [239, 187, 191]"
  proof
    assume "take 3 ?e = [239, 187, 191]"
    then obtain c t where s: "s = c # t" and "(of_char c :: 8 word) = 239"
      by (cases s) (auto simp: utf8_bytes_def)
    then have "unat (of_char c :: 8 word) = unat (239 :: 8 word)" by (simp only:)
    then have "of_char c = (239 :: nat)" by simp
    with assms(1) s show False by (simp add: op_identifier_def)
  qed
  ultimately show ?thesis
    using assms(1) unfolding bytes32HexToString_def h hexToBytes_bytesToHex
    by (simp add: strip_zeros_padded text_decode_def op_identifier_def)
qed

definition bytes32_enc :: "string \<Rightarrow> string" where
  "bytes32_enc s = (case stringToBytes32Hex s of Inl _ \<Rightarrow> [] | Inr h \<Rightarrow> h)"

lemma identifier_Inr: "op_identifier s \<Longrightarrow> stringToBytes32Hex s = Inr (bytes32_enc s)"
  by (simp add: op_identifier_def stringToBytes32Hex_def bytes32_enc_def Let_def)

interpretation bytes32: codec bytes32_enc "\<lambda>h. Some (bytes32HexToString (Some h))" op_identifier
  by unfold_locales (simp add: bytes32_roundtrip identifier_Inr)

end
