(* ===== verification/JsValue.thy ===== *)
theory JsValue
  imports JsString
begin

text \<open>
  JavaScript values as the source handles them when they are \<open>unknown\<close> or JSON:
  the value type, property access, truthiness, \<open>JSON.stringify\<close> and \<open>JSON.parse\<close>.
  A finite number is a rational (the source's numbers are integers far below \<open>2\<^sup>5\<^sup>3\<close>, except
  for durations, which are computed in the doubles of \<open>Doubles\<close>). An object is the list of its own
  properties in insertion order.
\<close>

section \<open>Values\<close>

datatype jsv =
    JUndef
  | JNull
  | JBool bool
  | JNum rat
  | JNonFinite bool \<comment> \<open>\<open>True\<close>: an infinity, \<open>False\<close>: NaN\<close>
  | JBig int
  | JStr string
  | JArr "jsv list"
  | JObj "(string \<times> jsv) list"

fun truthy :: "jsv \<Rightarrow> bool" where
  "truthy JUndef = False"
| "truthy JNull = False"
| "truthy (JBool b) = b"
| "truthy (JNum r) = (r \<noteq> 0)"
| "truthy (JNonFinite b) = b"
| "truthy (JBig i) = (i \<noteq> 0)"
| "truthy (JStr s) = (s \<noteq> [])"
| "truthy (JArr vs) = True"
| "truthy (JObj kvs) = True"

text \<open>Own properties: reading (\<open>undefined\<close> when absent) and writing in place.\<close>

definition get_prop :: "(string \<times> jsv) list \<Rightarrow> string \<Rightarrow> jsv" where
  "get_prop kvs k = (case map_of kvs k of None \<Rightarrow> JUndef | Some v \<Rightarrow> v)"

lemma get_prop_Nil [simp]: "get_prop [] k = JUndef"
  by (simp add: get_prop_def)

lemma get_prop_Cons [simp]: "get_prop ((k', v) # kvs) k = (if k = k' then v else get_prop kvs k)"
  by (simp add: get_prop_def)

fun put_prop :: "(string \<times> jsv) list \<Rightarrow> string \<Rightarrow> jsv \<Rightarrow> (string \<times> jsv) list" where
  "put_prop [] k v = [(k, v)]"
| "put_prop ((k', v') # kvs) k v = (if k' = k then (k, v) # kvs else (k', v') # put_prop kvs k v)"

definition from_entries :: "(string \<times> jsv) list \<Rightarrow> (string \<times> jsv) list" where
  "from_entries kvs = foldl (\<lambda>o' (k, v). put_prop o' k v) [] kvs"

lemma map_of_put_prop: "map_of (put_prop kvs k v) = (map_of kvs)(k \<mapsto> v)"
  by (induction kvs k v rule: put_prop.induct) auto

lemma put_prop_new: "k \<notin> fst ` set kvs \<Longrightarrow> put_prop kvs k v = kvs @ [(k, v)]"
  by (induction kvs k v rule: put_prop.induct) auto

lemma from_entries_distinct: "distinct (map fst kvs) \<Longrightarrow> from_entries kvs = kvs"
proof -
  have "distinct (map fst (acc @ kvs)) \<Longrightarrow>
      foldl (\<lambda>o' (k, v). put_prop o' k v) acc kvs = acc @ kvs" for acc
  proof (induction kvs arbitrary: acc)
    case (Cons kv kvs)
    then show ?case
      by (cases kv) (simp add: put_prop_new)
  qed simp
  from this [of "[]"] show "distinct (map fst kvs) \<Longrightarrow> from_entries kvs = kvs"
    by (simp add: from_entries_def)
qed

definition is_object :: "jsv \<Rightarrow> bool" where
  "is_object v = (case v of JObj _ \<Rightarrow> True | JArr _ \<Rightarrow> True | _ \<Rightarrow> False)"

text \<open>
  \<open>v.k\<close>: a \<open>TypeError\<close> on \<open>undefined\<close> and \<open>null\<close>, the own property of an object,
  and \<open>undefined\<close> for the primitives (none of the names the source reads is a
  property of a primitive or of an array).
\<close>

definition member_of :: "jsv \<Rightarrow> string \<Rightarrow> jsv option" where
  "member_of v k = (case v of JUndef \<Rightarrow> None | JNull \<Rightarrow> None | JObj kvs \<Rightarrow> Some (get_prop kvs k) | _ \<Rightarrow> Some JUndef)"

text \<open>\<open>v.k\<close> where \<open>v\<close> is known to be neither \<open>undefined\<close> nor \<open>null\<close>, and \<open>v ?? d\<close>.\<close>

definition prop_of :: "jsv \<Rightarrow> string \<Rightarrow> jsv" where
  "prop_of v k = (case member_of v k of None \<Rightarrow> JUndef | Some w \<Rightarrow> w)"

definition nullish_or :: "jsv \<Rightarrow> jsv \<Rightarrow> jsv" where
  "nullish_or v d = (case v of JUndef \<Rightarrow> d | JNull \<Rightarrow> d | _ \<Rightarrow> v)"

lemma nullish_or_str [simp]: "nullish_or (JStr x) d = JStr x"
  by (simp add: nullish_or_def)

lemma prop_of_obj [simp]: "prop_of (JObj kvs) k = get_prop kvs k"
  by (simp add: prop_of_def member_of_def)

section \<open>Numbers as text\<close>

definition is_int :: "rat \<Rightarrow> bool" where
  "is_int r = (of_int \<lfloor>r\<rfloor> = r)"

lemma is_int_of_int [simp]: "is_int (of_int i)"
  by (simp add: is_int_def)

lemma is_int_of_nat [simp]: "is_int (of_nat n)"
  using is_int_of_int [of "int n"] by simp

lemma is_int_numeral [simp]: "is_int (numeral n)" "is_int 0" "is_int 1"
  by (simp_all add: is_int_def)

text \<open>
  A number with a fractional part is printed with its exact decimal expansion, up
  to twenty digits (exact for the decimals of at most fifteen digits in the source).
\<close>

fun frac_digits :: "nat \<Rightarrow> rat \<Rightarrow> string" where
  "frac_digits 0 r = []"
| "frac_digits (Suc n) r =
     (if r = 0 then [] else (let d = \<lfloor>10 * r\<rfloor> in digit (nat d) # frac_digits n (10 * r - of_int d)))"

definition num_str :: "rat \<Rightarrow> string" where
  "num_str r =
     (if is_int r then int_str \<lfloor>r\<rfloor>
      else (if r < 0 then ''-'' else []) @ nat_str (nat \<lfloor>\<bar>r\<bar>\<rfloor>) @ ''.'' @
           frac_digits 20 (\<bar>r\<bar> - of_int \<lfloor>\<bar>r\<bar>\<rfloor>))"

lemma num_str_of_int [simp]: "num_str (of_int i) = int_str i"
  by (simp add: num_str_def)

section \<open>JSON.stringify\<close>

definition quote_char :: "char \<Rightarrow> string" where
  "quote_char c =
     (let n = of_char c :: nat in
      if c = CHR 0x22 then [CHR 0x5C, CHR 0x22]
      else if c = CHR 0x5C then [CHR 0x5C, CHR 0x5C]
      else if n = 8 then [CHR 0x5C, CHR ''b'']
      else if n = 9 then [CHR 0x5C, CHR ''t'']
      else if n = 10 then [CHR 0x5C, CHR ''n'']
      else if n = 12 then [CHR 0x5C, CHR ''f'']
      else if n = 13 then [CHR 0x5C, CHR ''r'']
      else if n < 32 then CHR 0x5C # ''u00'' @ [hex_digit (n div 16), hex_digit (n mod 16)]
      else [c])"

definition quote :: "string \<Rightarrow> string" where
  "quote s = CHR 0x22 # concat (map quote_char s) @ [CHR 0x22]"

fun join_with :: "string \<Rightarrow> string list \<Rightarrow> string" where
  "join_with sep [] = []"
| "join_with sep [s] = s"
| "join_with sep (s # t # ss) = s @ sep @ join_with sep (t # ss)"

text \<open>\<open>None\<close> is the value \<open>undefined\<close>: a property holding it is left out, an element is \<open>null\<close>.\<close>

fun json_text :: "jsv \<Rightarrow> string option" where
  "json_text JUndef = None"
| "json_text JNull = Some ''null''"
| "json_text (JBool b) = Some (if b then ''true'' else ''false'')"
| "json_text (JNum r) = Some (num_str r)"
| "json_text (JNonFinite b) = Some ''null''"
| "json_text (JBig i) = Some (int_str i)"
| "json_text (JStr s) = Some (quote s)"
| "json_text (JArr vs) =
     Some (''['' @ join_with '','' (map (\<lambda>v. case json_text v of None \<Rightarrow> ''null'' | Some t \<Rightarrow> t) vs) @ '']'')"
| "json_text (JObj kvs) =
     Some (''{'' @ join_with '','' (concat (map (\<lambda>kv. case json_text (snd kv) of None \<Rightarrow> []
             | Some t \<Rightarrow> [quote (fst kv) @ '':'' @ t]) kvs)) @ ''}'')"

fun has_big :: "jsv \<Rightarrow> bool" where
  "has_big (JBig i) = True"
| "has_big (JArr vs) = list_ex has_big vs"
| "has_big (JObj kvs) = list_ex (\<lambda>kv. has_big (snd kv)) kvs"
| "has_big v = False"

text \<open>\<open>JSON.stringify\<close>: a \<open>TypeError\<close> (\<open>Inl ()\<close>) when a BigInt occurs.\<close>

definition stringify :: "jsv \<Rightarrow> unit + string option" where
  "stringify v = (if has_big v then Inl () else Inr (json_text v))"

end
