(* ===== verification/Framework.thy ===== *)
theory Framework
  imports ExtEncoding JsValue
begin

text \<open>
  The handler registry of the enclave's TypeScript framework
  (apps/extension/typescript/src/base/types.ts): the results a handler gives, the
  registration list of \<open>Framework\<close>, and its two-pass lookup by bytes32 identifiers.
  Arguments that reach \<open>lookup\<close> come from parsed JSON, so they are \<open>jsv\<close> values:
  \<open>normalize\<close> throws on a truthy value that is not a string.
\<close>

section \<open>Types\<close>

type_synonym handler_result = "string option \<times> int \<times> string option"

text \<open>A handler: the raw \<open>originalMessage\<close>, the state, and a result or the value it throws.\<close>

type_synonym 's handler_func = "jsv \<Rightarrow> 's \<Rightarrow> (js_error + handler_result) \<times> 's"

type_synonym 's framework = "(string \<times> string \<times> 's handler_func) list"

definition EMPTY_BYTES32 :: string where
  "EMPTY_BYTES32 = (case stringToBytes32Hex [] of Inr h \<Rightarrow> h | Inl _ \<Rightarrow> [])"

text \<open>\<open>hexToBytes\<close> applied to a value read from JSON, where its argument need not be a string.\<close>

definition hexToBytes_of :: "jsv \<Rightarrow> js_error + bytes" where
  "hexToBytes_of v =
     (case v of JUndef \<Rightarrow> hexToBytes None
      | JNull \<Rightarrow> hexToBytes None
      | JStr h \<Rightarrow> hexToBytes (Some h)
      | _ \<Rightarrow> Inl (TypeErr ''s.startsWith is not a function''))"

section \<open>Registration and lookup\<close>

definition handle :: "string \<Rightarrow> string \<Rightarrow> 's handler_func \<Rightarrow> 's framework \<Rightarrow> js_error + 's framework" where
  "handle opType opCommand handler fw =
     and_then (stringToBytes32Hex opType) (\<lambda>t.
     and_then (stringToBytes32Hex opCommand) (\<lambda>c.
     Inr (fw @ [(t, c, handler)])))"

definition normalize :: "jsv \<Rightarrow> js_error + string" where
  "normalize h =
     (if \<not> truthy h then Inr EMPTY_BYTES32
      else case h of
             JStr s \<Rightarrow> (let l = lower_case s in Inr (if starts_with ''0x'' l then l else ''0x'' @ l))
           | _ \<Rightarrow> Inl (TypeErr ''h.toLowerCase is not a function''))"

definition lookup :: "'s framework \<Rightarrow> jsv \<Rightarrow> jsv \<Rightarrow> js_error + 's handler_func option" where
  "lookup fw opType opCommand =
     and_then (normalize opType) (\<lambda>t.
     and_then (normalize opCommand) (\<lambda>c.
     Inr (case find (\<lambda>(regType, regCmd, handler). regType = t \<and> regCmd = c) fw of
            Some (_, _, handler) \<Rightarrow> Some handler
          | None \<Rightarrow>
              (case find (\<lambda>(regType, regCmd, handler). regType = t \<and> regCmd = EMPTY_BYTES32) fw of
                 Some (_, _, handler) \<Rightarrow> Some handler
               | None \<Rightarrow> None))))"

section \<open>Lemmas\<close>

lemma op_identifier_Nil: "op_identifier []"
  by (simp add: op_identifier_def)

lemma EMPTY_BYTES32_eq: "EMPTY_BYTES32 = bytes32_enc []"
  by (simp add: EMPTY_BYTES32_def bytes32_enc_def)

lemma to_lower_hex_digit [simp]: "n < 16 \<Longrightarrow> to_lower (hex_digit n) = hex_digit n"
  by (metis hex_val_digit to_lower_hex)

lemma lower_case_bytes_hex [simp]: "lower_case (bytes_hex bs) = bytes_hex bs"
proof (induction bs)
  case (Cons b bs)
  have "unat b div 16 < 16" "unat b mod 16 < 16" using unat_byte_less [of b] by auto
  with Cons show ?case by (simp add: bytes_hex_Cons)
qed simp

lemma lower_case_0x [simp]: "to_lower CHR ''0'' = CHR ''0''" "to_lower CHR ''x'' = CHR ''x''"
  "to_lower CHR ''X'' = CHR ''x''"
  by code_simp+

lemma bytes_hex_eq_Nil [simp]: "bytes_hex bs = [] \<longleftrightarrow> bs = []" "[] = bytes_hex bs \<longleftrightarrow> bs = []"
  by (cases bs; simp add: bytes_hex_Cons)+

lemma utf8_bytes_eq_Nil [simp]: "utf8_bytes s = [] \<longleftrightarrow> s = []"
  by (simp add: utf8_bytes_def)

text \<open>A registered identifier is already in normal form.\<close>

lemma bytes32_enc_eq: "op_identifier s \<Longrightarrow>
    bytes32_enc s = ''0x'' @ bytes_hex (utf8_bytes s @ replicate (32 - length s) 0)"
  by (simp add: bytes32_enc_def stringToBytes32Hex_def op_identifier_def Let_def bytesToHex_eq)

lemma normalize_enc [simp]: "op_identifier s \<Longrightarrow> normalize (JStr (bytes32_enc s)) = Inr (bytes32_enc s)"
  by (simp add: bytes32_enc_eq normalize_def starts_with_def Let_def)

text \<open>
  The spellings of an identifier that reach the same handlers: the canonical hex in
  any letter case, with or without the \<open>0x\<close> prefix, and for the empty identifier
  every falsy value.
\<close>

definition spells :: "jsv \<Rightarrow> string \<Rightarrow> bool" where
  "spells v s =
     ((s = [] \<and> \<not> truthy v) \<or>
      (\<exists>h. v = JStr h \<and> (lower_case h = bytes32_enc s \<or> ''0x'' @ lower_case h = bytes32_enc s)))"

lemma bytes_hex_not_0x: "\<not> starts_with ''0x'' (bytes_hex bs)"
proof
  assume "starts_with ''0x'' (bytes_hex bs)"
  then obtain t where t: "bytes_hex bs = ''0x'' @ t" by (auto simp: starts_with_iff)
  have "list_all is_hex (''0x'' @ t)" unfolding t [symmetric] by (rule bytes_hex_is_hex)
  then have "is_hex CHR ''x''" by simp
  then show False by (simp add: is_hex_def hex_val_def)
qed

lemma normalize_spells:
  assumes "op_identifier s" "spells v s"
  shows "normalize v = Inr (bytes32_enc s)"
  using assms(2) unfolding spells_def
proof (elim disjE exE conjE)
  fix h assume "v = JStr h" "lower_case h = bytes32_enc s"
  then show ?thesis
    using assms(1) by (auto simp: normalize_def Let_def bytes32_enc_eq starts_with_def)
next
  fix h assume v: "v = JStr h" and "''0x'' @ lower_case h = bytes32_enc s"
  then have l: "lower_case h = bytes_hex (utf8_bytes s @ replicate (32 - length s) 0)"
    using assms(1) by (simp add: bytes32_enc_eq)
  have "length (lower_case h) = 64"
    using assms(1) unfolding l by (simp add: op_identifier_def)
  then have "h \<noteq> []" by auto
  with v l assms(1) show ?thesis
    by (simp add: normalize_def Let_def bytes32_enc_eq bytes_hex_not_0x)
qed (simp add: normalize_def EMPTY_BYTES32_eq)

lemma normalize_error_iff:
  "normalize v = Inl e \<longleftrightarrow>
     truthy v \<and> (\<forall>s. v \<noteq> JStr s) \<and> e = TypeErr ''h.toLowerCase is not a function''"
  by (cases v) (auto simp: normalize_def Let_def)

text \<open>What a list of registrations by identifiers gives, as the specification of \<open>lookup\<close>.\<close>

fun register_all :: "(string \<times> string \<times> 's handler_func) list \<Rightarrow> 's framework \<Rightarrow> js_error + 's framework" where
  "register_all [] fw = Inr fw"
| "register_all ((t, c, h) # rs) fw = and_then (handle t c h fw) (register_all rs)"

definition registered :: "(string \<times> string \<times> 's handler_func) list \<Rightarrow> string \<Rightarrow> string \<Rightarrow> 's handler_func option" where
  "registered rs t c =
     (case find (\<lambda>(t', c', h). t' = t \<and> c' = c) rs of
        Some (_, _, h) \<Rightarrow> Some h
      | None \<Rightarrow> map_option (\<lambda>(_, _, h). h) (find (\<lambda>(t', c', h). t' = t \<and> c' = []) rs))"

definition idents_ok :: "(string \<times> string \<times> 's handler_func) list \<Rightarrow> bool" where
  "idents_ok rs = list_all (\<lambda>(t, c, h). op_identifier t \<and> op_identifier c) rs"

lemma register_all_ok:
  "idents_ok rs \<Longrightarrow>
   register_all rs fw = Inr (fw @ map (\<lambda>(t, c, h). (bytes32_enc t, bytes32_enc c, h)) rs)"
  by (induction rs arbitrary: fw)
     (auto simp: idents_ok_def handle_def identifier_Inr)

lemma find_enc:
  assumes "idents_ok rs" "op_identifier t" "op_identifier c"
  shows "find (\<lambda>(t', c', h). t' = bytes32_enc t \<and> c' = bytes32_enc c)
           (map (\<lambda>(t, c, h). (bytes32_enc t, bytes32_enc c, h)) rs) =
         map_option (\<lambda>(t, c, h). (bytes32_enc t, bytes32_enc c, h)) (find (\<lambda>(t', c', h). t' = t \<and> c' = c) rs)"
  using assms(1)
proof (induction rs)
  case (Cons r rs)
  then show ?case
    using assms(2,3) by (cases r) (auto simp: idents_ok_def bytes32.enc_eq_iff)
qed simp

lemma lookup_registered:
  assumes "idents_ok rs" "op_identifier t" "op_identifier c" "spells v t" "spells w c"
    "register_all rs [] = Inr fw"
  shows "lookup fw v w = Inr (registered rs t c)"
proof -
  have fw: "fw = map (\<lambda>(t, c, h). (bytes32_enc t, bytes32_enc c, h)) rs"
    using register_all_ok [OF assms(1), of "[]"] assms(6) by simp
  show ?thesis
    unfolding lookup_def normalize_spells [OF assms(2,4)] normalize_spells [OF assms(3,5)] fw
      EMPTY_BYTES32_eq and_then.simps find_enc [OF assms(1-3)]
      find_enc [OF assms(1,2) op_identifier_Nil]
    by (auto simp: registered_def split: option.split)
qed

end
