(* ===== verification/Json.thy ===== *)
theory Json
  imports JsValue
begin

text \<open>
  \<open>JSON.parse\<close>, which is also what Go's \<open>encoding/json\<close> accepts of the documents the
  system exchanges, and the round trip: parsing what \<open>JSON.stringify\<close> prints gives
  the value back. The parser recurses on a fuel of the length of its input, which
  every call shortens, so the fuel never runs out (\<open>json_need\<close>).
\<close>

section \<open>Lexical level\<close>

definition is_ws :: "char \<Rightarrow> bool" where
  "is_ws c = (of_char c \<in> {9, 10, 13, 32 :: nat})"

definition skip_ws :: "string \<Rightarrow> string" where
  "skip_ws s = dropWhile is_ws s"

text \<open>A code point of the basic plane as UTF-8, for the escape \<open>\u\<close> and four hex digits.\<close>

definition utf8_of_code :: "nat \<Rightarrow> string" where
  "utf8_of_code n =
     (if n < 128 then [char_of n]
      else if n < 2048 then [char_of (192 + n div 64), char_of (128 + n mod 64)]
      else [char_of (224 + n div 4096), char_of (128 + n div 64 mod 64), char_of (128 + n mod 64)])"

definition hex4 :: "string \<Rightarrow> nat option" where
  "hex4 s = (case traverse hex_val (take 4 s) of
               Some [a, b, c, d] \<Rightarrow> Some (((16 * a + b) * 16 + c) * 16 + d) | _ \<Rightarrow> None)"

fun escape_char :: "char \<Rightarrow> string option" where
  "escape_char c =
     (if c = CHR 0x22 \<or> c = CHR 0x5C \<or> c = CHR ''/'' then Some [c]
      else if c = CHR ''b'' then Some [CHR 0x08]
      else if c = CHR ''f'' then Some [CHR 0x0C]
      else if c = CHR ''n'' then Some [CHR 0x0A]
      else if c = CHR ''r'' then Some [CHR 0x0D]
      else if c = CHR ''t'' then Some [CHR 0x09]
      else None)"

text \<open>The characters of a string literal after its opening quote, and what follows it.\<close>

function p_string :: "string \<Rightarrow> (string \<times> string) option" where
  "p_string [] = None"
| "p_string (c # s) =
     (if c = CHR 0x22 then Some ([], s)
      else if c = CHR 0x5C then
        (case s of [] \<Rightarrow> None
         | e # t \<Rightarrow>
             if e = CHR ''u'' then
               (case hex4 t of None \<Rightarrow> None
                | Some n \<Rightarrow> (case p_string (drop 4 t) of None \<Rightarrow> None
                             | Some (u, r) \<Rightarrow> Some (utf8_of_code n @ u, r)))
             else
               (case escape_char e of None \<Rightarrow> None
                | Some x \<Rightarrow> (case p_string t of None \<Rightarrow> None | Some (u, r) \<Rightarrow> Some (x @ u, r))))
      else if of_char c < (32 :: nat) then None
      else (case p_string s of None \<Rightarrow> None | Some (u, r) \<Rightarrow> Some (c # u, r)))"
  by pat_completeness auto
termination
  by (relation "measure length") auto

definition num_ends :: "string \<Rightarrow> bool" where
  "num_ends s = (case s of [] \<Rightarrow> True
     | c # _ \<Rightarrow> \<not> is_digit c \<and> c \<noteq> CHR ''.'' \<and> c \<noteq> CHR ''e'' \<and> c \<noteq> CHR ''E'')"

definition p_digits :: "string \<Rightarrow> (string \<times> string) option" where
  "p_digits s = (case takeWhile is_digit s of [] \<Rightarrow> None | ds \<Rightarrow> Some (ds, dropWhile is_digit s))"

definition p_int_part :: "string \<Rightarrow> (string \<times> string) option" where
  "p_int_part s =
     (case s of [] \<Rightarrow> None
      | c # t \<Rightarrow> if c = CHR ''0'' then Some ([c], t) else p_digits s)"

definition p_frac :: "string \<Rightarrow> (rat \<times> string) option" where
  "p_frac s =
     (case s of
        c # t \<Rightarrow> if c = CHR ''.'' then
            (case p_digits t of None \<Rightarrow> None
             | Some (ds, r) \<Rightarrow> Some (of_nat (dec_val ds) / 10 ^ length ds, r))
          else Some (0, s)
      | [] \<Rightarrow> Some (0, s))"

definition p_exp :: "string \<Rightarrow> (rat \<times> string) option" where
  "p_exp s =
     (case s of
        c # t \<Rightarrow> if c = CHR ''e'' \<or> c = CHR ''E'' then
            (case t of [] \<Rightarrow> None
             | d # u \<Rightarrow>
                 (case p_digits (if d = CHR ''+'' \<or> d = CHR ''-'' then u else t) of None \<Rightarrow> None
                  | Some (ds, r) \<Rightarrow>
                      Some (if d = CHR ''-'' then 1 / 10 ^ dec_val ds else 10 ^ dec_val ds, r)))
          else Some (1, s)
      | [] \<Rightarrow> Some (1, s))"

definition p_unsigned :: "string \<Rightarrow> (rat \<times> string) option" where
  "p_unsigned s =
     (case p_int_part s of None \<Rightarrow> None
      | Some (ds, r) \<Rightarrow>
          (case p_frac r of None \<Rightarrow> None
           | Some (f, r') \<Rightarrow>
               (case p_exp r' of None \<Rightarrow> None
                | Some (e, r'') \<Rightarrow> Some ((of_nat (dec_val ds) + f) * e, r''))))"

definition p_number :: "string \<Rightarrow> (rat \<times> string) option" where
  "p_number s =
     (case s of [] \<Rightarrow> None
      | c # t \<Rightarrow> if c = CHR ''-'' then map_option (map_prod uminus id) (p_unsigned t) else p_unsigned s)"

section \<open>Values\<close>

fun p_value :: "nat \<Rightarrow> string \<Rightarrow> (jsv \<times> string) option"
and p_elems :: "nat \<Rightarrow> string \<Rightarrow> (jsv list \<times> string) option"
and p_members :: "nat \<Rightarrow> string \<Rightarrow> ((string \<times> jsv) list \<times> string) option"
where
  "p_value 0 s = None"
| "p_value (Suc n) s =
     (case skip_ws s of [] \<Rightarrow> None
      | c # t \<Rightarrow>
          if c = CHR 0x22 then map_option (map_prod JStr id) (p_string t)
          else if c = CHR ''['' then
            (case skip_ws t of [] \<Rightarrow> None
             | d # u \<Rightarrow> if d = CHR '']'' then Some (JArr [], u)
                        else map_option (map_prod JArr id) (p_elems n t))
          else if c = CHR ''{'' then
            (case skip_ws t of [] \<Rightarrow> None
             | d # u \<Rightarrow> if d = CHR ''}'' then Some (JObj [], u)
                        else map_option (map_prod (JObj \<circ> from_entries) id) (p_members n t))
          else if starts_with ''true'' (c # t) then Some (JBool True, drop 4 (c # t))
          else if starts_with ''false'' (c # t) then Some (JBool False, drop 5 (c # t))
          else if starts_with ''null'' (c # t) then Some (JNull, drop 4 (c # t))
          else map_option (map_prod JNum id) (p_number (c # t)))"
| "p_elems 0 s = None"
| "p_elems (Suc n) s =
     (case p_value n s of None \<Rightarrow> None
      | Some (v, r) \<Rightarrow>
          (case skip_ws r of [] \<Rightarrow> None
           | c # t \<Rightarrow> if c = CHR '','' then map_option (map_prod (Cons v) id) (p_elems n t)
                      else if c = CHR '']'' then Some ([v], t) else None))"
| "p_members 0 s = None"
| "p_members (Suc n) s =
     (case skip_ws s of [] \<Rightarrow> None
      | q # s' \<Rightarrow>
          if q \<noteq> CHR 0x22 then None
          else
            (case p_string s' of None \<Rightarrow> None
             | Some (k, r) \<Rightarrow>
                 (case skip_ws r of [] \<Rightarrow> None
                  | d # u \<Rightarrow>
                      if d \<noteq> CHR '':'' then None
                      else
                        (case p_value n u of None \<Rightarrow> None
                         | Some (v, r') \<Rightarrow>
                             (case skip_ws r' of [] \<Rightarrow> None
                              | c # t \<Rightarrow>
                                  if c = CHR '','' then map_option (map_prod (Cons (k, v)) id) (p_members n t)
                                  else if c = CHR ''}'' then Some ([(k, v)], t) else None)))))"

definition json_parse :: "string \<Rightarrow> jsv option" where
  "json_parse s =
     (case p_value (Suc (length s)) s of None \<Rightarrow> None
      | Some (v, r) \<Rightarrow> if skip_ws r = [] then Some v else None)"

section \<open>The round trip\<close>

text \<open>
  The values that survive a trip through JSON text unchanged: no \<open>undefined\<close>, no
  non-finite number, integers, and no repeated key.
\<close>

fun plain :: "jsv \<Rightarrow> bool" where
  "plain (JNum r) = is_int r"
| "plain (JArr vs) = list_all plain vs"
| "plain (JObj kvs) = (distinct (map fst kvs) \<and> list_all (\<lambda>kv. plain (snd kv)) kvs)"
| "plain JNull = True"
| "plain (JBool b) = True"
| "plain (JStr s) = True"
| "plain v = False"


lemma hex4_control:
  assumes "n < 32"
  shows "hex4 (CHR ''0'' # CHR ''0'' # hex_digit (n div 16) # hex_digit (n mod 16) # r) = Some n"
proof -
  have z: "hex_val CHR ''0'' = Some 0" by code_simp
  have "n div 16 < 16" using assms by auto
  then show ?thesis by (simp add: hex4_def z)
qed

lemma p_string_control:
  assumes n: "of_char c < (32 :: nat)"
  shows "p_string (quote_char c @ t) = (case p_string t of None \<Rightarrow> None | Some (u, r) \<Rightarrow> Some (c # u, r))"
proof -
  define n where "n = (of_char c :: nat)"
  have c: "c = char_of n" and n32: "n < 32" using n by (simp_all add: n_def)
  have lits: "char_of (8::nat) = CHR 0x08" "char_of (9::nat) = CHR 0x09" "char_of (10::nat) = CHR 0x0A"
    "char_of (12::nat) = CHR 0x0C" "char_of (13::nat) = CHR 0x0D"
    by code_simp+
  have nq: "c \<noteq> CHR 0x22" "c \<noteq> CHR 0x5C" using n by auto
  show ?thesis
  proof (cases "n \<in> {8, 9, 10, 12, 13}")
    case True
    then show ?thesis
      by (auto simp: quote_char_def Let_def c lits split: option.splits)
  next
    case False
    with n32 nq show ?thesis
      by (simp add: quote_char_def n_def [symmetric] hex4_control Let_def)
        (simp add: c utf8_of_code_def split: option.splits)
  qed
qed

lemma p_string_plain_char:
  "\<not> of_char c < (32 :: nat) \<Longrightarrow>
   p_string (quote_char c @ t) = (case p_string t of None \<Rightarrow> None | Some (u, r) \<Rightarrow> Some (c # u, r))"
  by (auto simp: quote_char_def Let_def split: option.splits)

lemma p_string_quote [json_simps]:
  "p_string (concat (map quote_char s) @ CHR 0x22 # r) = Some (s, r)"
proof (induction s)
  case (Cons c s)
  then show ?case
    by (cases "of_char c < (32 :: nat)") (simp_all add: p_string_control p_string_plain_char)
qed simp

lemma takeWhile_digits:
  "list_all is_digit ds \<Longrightarrow> num_ends r \<Longrightarrow> takeWhile is_digit (ds @ r) = ds \<and> dropWhile is_digit (ds @ r) = r"
  by (induction ds) (auto simp: num_ends_def split: list.splits)

lemma p_unsigned_nat [json_simps]:
  assumes "num_ends r"
  shows "p_unsigned (nat_str n @ r) = Some (of_nat n, r)"
proof -
  have int: "p_int_part (nat_str n @ r) = Some (nat_str n, r)"
  proof (cases "n = 0")
    case True
    then show ?thesis by (simp add: p_int_part_def)
  next
    case False
    then obtain c t where s: "nat_str n = c # t" and c: "c \<noteq> CHR ''0''"
      using nat_str_hd [of n] nat_str_nonempty [of n] by (cases "nat_str n") auto
    show ?thesis
      using takeWhile_digits [OF nat_str_digits [of n] assms]
      unfolding p_int_part_def p_digits_def using c by (simp add: s)
  qed
  have "p_frac r = Some (0, r)" "p_exp r = Some (1, r)"
    using assms by (auto simp: p_frac_def p_exp_def num_ends_def split: list.splits)
  with int show ?thesis by (simp add: p_unsigned_def)
qed

lemma nat_str_not_minus: "nat_str n = c # t \<Longrightarrow> c \<noteq> CHR ''-''"
proof -
  assume "nat_str n = c # t"
  then have "is_digit c" using nat_str_digits [of n] by simp
  moreover have "\<not> is_digit CHR ''-''" by code_simp
  ultimately show ?thesis by auto
qed

lemma p_number_int [json_simps]:
  assumes "num_ends r"
  shows "p_number (int_str i @ r) = Some (of_int i, r)"
proof (cases "i < 0")
  case True
  then show ?thesis
    using p_unsigned_nat [OF assms, of "nat (- i)"] by (simp add: p_number_def int_str_def)
next
  case False
  obtain c t where s: "nat_str (nat i) = c # t" by (cases "nat_str (nat i)") auto
  have "p_number (nat_str (nat i) @ r) = p_unsigned (nat_str (nat i) @ r)"
    using nat_str_not_minus [OF s] by (simp add: p_number_def s)
  with False show ?thesis
    using p_unsigned_nat [OF assms, of "nat i"] by (simp add: int_str_def)
qed

definition parses :: "jsv \<Rightarrow> bool" where
  "parses v = (\<forall>t r n. json_text v = Some t \<longrightarrow> num_ends r \<longrightarrow> length t \<le> n \<longrightarrow>
                p_value (Suc n) (t @ r) = Some (v, r))"

lemma skip_ws_id: "\<not> is_ws c \<Longrightarrow> skip_ws (c # s) = c # s"
  by (simp add: skip_ws_def)

lemma ws_lits [simp]:
  "\<not> is_ws CHR 0x22" "\<not> is_ws CHR ''[''" "\<not> is_ws CHR ''{''" "\<not> is_ws CHR '']''"
  "\<not> is_ws CHR ''}''" "\<not> is_ws CHR '',''" "\<not> is_ws CHR '':''"  "\<not> is_ws CHR ''t''"
  "\<not> is_ws CHR ''f''" "\<not> is_ws CHR ''n''" "\<not> is_ws CHR ''-''"
  by code_simp+

lemma digit_not_ws: "is_digit c \<Longrightarrow> \<not> is_ws c"
  by (auto simp: is_digit_def digit_val_def is_ws_def Let_def split: if_splits)

lemma digit_not_lits: "is_digit c \<Longrightarrow> c \<noteq> CHR 0x22 \<and> c \<noteq> CHR ''['' \<and> c \<noteq> CHR ''{'' \<and> c \<noteq> CHR ''t'' \<and> c \<noteq> CHR ''f'' \<and> c \<noteq> CHR ''n''"
proof -
  have "\<not> is_digit CHR 0x22" "\<not> is_digit CHR ''[''" "\<not> is_digit CHR ''{''" "\<not> is_digit CHR ''t''"
    "\<not> is_digit CHR ''f''" "\<not> is_digit CHR ''n''" by code_simp+
  then show "is_digit c \<Longrightarrow> ?thesis" by blast
qed

lemma num_ends_lits [simp]:
  "num_ends []" "num_ends (CHR '','' # s)" "num_ends (CHR '']'' # s)" "num_ends (CHR ''}'' # s)"
proof -
  have "\<not> is_digit CHR '',''" "\<not> is_digit CHR '']''" "\<not> is_digit CHR ''}''" by code_simp+
  then show "num_ends []" "num_ends (CHR '','' # s)" "num_ends (CHR '']'' # s)" "num_ends (CHR ''}'' # s)"
    by (simp_all add: num_ends_def)
qed

lemma parses_num: "is_int q \<Longrightarrow> parses (JNum q)"
proof -
  assume "is_int q"
  then obtain i where q: "q = of_int i" by (metis is_int_def)
  have "\<exists>c t. int_str i = c # t \<and> (is_digit c \<or> c = CHR ''-'')"
    using nat_str_digits [of "nat i"] by (cases "nat_str (nat i)") (auto simp: int_str_def)
  then obtain c t where s: "int_str i = c # t" and c: "is_digit c \<or> c = CHR ''-''" by blast
  have ws: "\<not> is_ws c" using c digit_not_ws by auto
  have lits: "c \<noteq> CHR 0x22" "c \<noteq> CHR ''[''" "c \<noteq> CHR ''{''" "c \<noteq> CHR ''t''" "c \<noteq> CHR ''f''" "c \<noteq> CHR ''n''"
    using c digit_not_lits by auto
  show ?thesis
    unfolding parses_def
  proof (intro allI impI)
    fix u r n
    assume "json_text (JNum q) = Some u" and r: "num_ends r"
    then have u: "u = int_str i" by (simp add: q)
    have "p_value (Suc n) (u @ r) = map_option (map_prod JNum id) (p_number (u @ r))"
      using lits by (simp add: u s skip_ws_id [OF ws] starts_with_def)
    then show "p_value (Suc n) (u @ r) = Some (JNum q, r)"
      by (simp add: u q p_number_int [OF r])
  qed
qed

lemma parses_elems:
  assumes "\<And>v. v \<in> set vs \<Longrightarrow> parses v \<and> json_text v = Some (f v)" and "vs \<noteq> []"
    and "length (join_with '','' (map f vs)) + 2 \<le> n"
  shows "p_elems n (join_with '','' (map f vs) @ CHR '']'' # r) = Some (vs, r)"
  using assms
proof (induction vs arbitrary: n)
  case (Cons v vs)
  define m where "m = n - 2"
  have n: "n = Suc (Suc m)" using Cons.prems(3) by (simp add: m_def)
  have v: "parses v" "json_text v = Some (f v)" using Cons.prems(1) [of v] by auto
  show ?case
  proof (cases vs)
    case Nil
    with Cons.prems(3) n have "length (f v) \<le> m" by simp
    with v have "p_value (Suc m) (f v @ CHR '']'' # r) = Some (v, CHR '']'' # r)"
      by (simp add: parses_def del: p_value.simps)
    with Nil n show ?thesis by (simp add: skip_ws_id del: p_value.simps)
  next
    case (Cons w ws)
    let ?rest = "join_with '','' (map f vs) @ CHR '']'' # r"
    have "length (f v) \<le> m" using Cons.prems(3) n Cons by simp
    with v have 1: "p_value (Suc m) (f v @ CHR '','' # ?rest) = Some (v, CHR '','' # ?rest)"
      by (simp add: parses_def del: p_value.simps)
    have 2: "p_elems (Suc m) ?rest = Some (vs, r)"
      using Cons.prems n Cons by (intro Cons.IH) auto
    have "join_with '','' (map f (v # vs)) @ CHR '']'' # r = f v @ CHR '','' # ?rest"
      using Cons by simp
    then show ?thesis
      using 1 2 by (simp add: n skip_ws_id del: p_value.simps p_elems.simps(2))
        (simp add: skip_ws_id del: p_value.simps)
  qed
qed simp


lemma parses_members:
  assumes "\<And>kv. kv \<in> set kvs \<Longrightarrow> parses (snd kv) \<and> json_text (snd kv) = Some (f (snd kv))"
    and "kvs \<noteq> []"
    and "length (join_with '','' (map (\<lambda>kv. quote (fst kv) @ '':'' @ f (snd kv)) kvs)) + 2 \<le> n"
  shows "p_members n (join_with '','' (map (\<lambda>kv. quote (fst kv) @ '':'' @ f (snd kv)) kvs) @ CHR ''}'' # r)
    = Some (kvs, r)"
  using assms
proof (induction kvs arbitrary: n)
  case (Cons kv kvs)
  obtain k v where kv: "kv = (k, v)" by (cases kv)
  define m where "m = n - 2"
  have n: "n = Suc (Suc m)" using Cons.prems(3) by (simp add: m_def)
  let ?key = "concat (map quote_char k) @ [CHR 0x22]"
  let ?p = "\<lambda>kv. quote (fst kv) @ '':'' @ f (snd kv)"
  have v: "parses v" "json_text v = Some (f v)" using Cons.prems(1) [of kv] by (auto simp: kv)
  show ?case
  proof (cases kvs)
    case Nil
    with Cons.prems(3) n have "length (f v) \<le> m" by (simp add: kv)
    with v have "p_value (Suc m) (f v @ CHR ''}'' # r) = Some (v, CHR ''}'' # r)"
      by (simp add: parses_def del: p_value.simps)
    with Nil n show ?thesis
      by (simp add: kv quote_def skip_ws_id p_string_quote del: p_value.simps)
  next
    case (Cons kw kws)
    let ?rest = "join_with '','' (map ?p kvs) @ CHR ''}'' # r"
    have "length (f v) \<le> m" using Cons.prems(3) n Cons by (simp add: kv)
    with v have 1: "p_value (Suc m) (f v @ CHR '','' # ?rest) = Some (v, CHR '','' # ?rest)"
      by (simp add: parses_def del: p_value.simps)
    have 2: "p_members (Suc m) ?rest = Some (kvs, r)"
      using Cons.prems n Cons by (intro Cons.IH) (auto simp: kv quote_def)
    have "join_with '','' (map ?p (kv # kvs)) @ CHR ''}'' # r
        = CHR 0x22 # concat (map quote_char k) @ CHR 0x22 # CHR '':'' # f v @ CHR '','' # ?rest"
      using Cons by (simp add: kv quote_def)
    moreover have "p_members n \<dots> = Some (kv # kvs, r)"
      using 1 2 by (simp only: n p_members.simps(2) skip_ws_id ws_lits list.case p_string_quote
          option.case prod.case simp_thms if_True if_False) (simp add: kv)
    ultimately show ?thesis by simp
  qed
qed simp

lemma plain_json_text: "plain v \<Longrightarrow> \<exists>t. json_text v = Some t"
  by (cases v) auto

lemma plain_first_char:
  assumes "plain v" "json_text v = Some t"
  shows "\<exists>c u. t = c # u \<and> \<not> is_ws c \<and> c \<noteq> CHR '']''"
proof (cases v)
  case (JNum q)
  then obtain i where q: "q = of_int i" using assms by (metis is_int_def plain.simps(1))
  have n: "\<not> is_digit CHR '']''" by code_simp
  have "\<exists>c t. int_str i = c # t \<and> (is_digit c \<or> c = CHR ''-'')"
    using nat_str_digits [of "nat i"] nat_str_digits [of "nat (-i)"]
    by (cases "nat_str (nat i)") (auto simp: int_str_def)
  with n digit_not_ws show ?thesis using assms JNum q by force
next
  case (JBool b)
  with assms(2) show ?thesis by (cases b) (simp_all add: eq_commute [of _ t])
next
  case (JArr vs)
  with assms(2) show ?thesis by (simp add: eq_commute [of _ t])
next
  case (JObj kvs)
  with assms(2) show ?thesis by (simp add: eq_commute [of _ t])
next
  case (JStr s)
  with assms(2) show ?thesis by (simp add: eq_commute [of _ t] quote_def)
next
  case JNull
  with assms(2) show ?thesis by (simp add: eq_commute [of _ t])
qed (use assms(1) in simp_all)

lemma plain_parses: "plain v \<Longrightarrow> parses v"
proof (induction v)
  case (JArr vs)
  show ?case unfolding parses_def
  proof (intro allI impI)
    fix t r n
    assume t: "json_text (JArr vs) = Some t" and "num_ends r" and n: "length t \<le> n"
    let ?f = "\<lambda>v. case json_text v of None \<Rightarrow> ''null'' | Some t \<Rightarrow> t"
    have v: "parses v \<and> json_text v = Some (?f v)" if "v \<in> set vs" for v
      using JArr that plain_json_text [of v] by (auto simp: list_all_iff)
    have tx: "t = CHR ''['' # join_with '','' (map ?f vs) @ [CHR '']'']" using t by simp
    show "p_value (Suc n) (t @ r) = Some (JArr vs, r)"
    proof (cases vs)
      case Nil
      then show ?thesis by (simp add: tx skip_ws_id)
    next
      case (Cons w ws)
      have elems: "p_elems n (join_with '','' (map ?f vs) @ CHR '']'' # r) = Some (vs, r)"
        using v n Cons by (intro parses_elems) (auto simp: tx)
      have "\<exists>c u. ?f w = c # u \<and> \<not> is_ws c \<and> c \<noteq> CHR '']''"
        using v [of w] Cons JArr.prems by (intro plain_first_char [of w]) auto
      then obtain c u where cu: "join_with '','' (map ?f vs) @ CHR '']'' # r = c # u" "\<not> is_ws c" "c \<noteq> CHR '']''"
        using Cons by (cases ws) auto
      have "t @ r = CHR ''['' # join_with '','' (map ?f vs) @ CHR '']'' # r" by (simp add: tx)
      then show ?thesis using elems unfolding cu(1) using cu(2,3) by (simp add: skip_ws_id)
    qed
  qed
next
  case (JObj kvs)
  show ?case unfolding parses_def
  proof (intro allI impI)
    fix t r n
    assume t: "json_text (JObj kvs) = Some t" and "num_ends r" and n: "length t \<le> n"
    let ?f = "\<lambda>v. case json_text v of None \<Rightarrow> ''null'' | Some t \<Rightarrow> t"
    let ?p = "\<lambda>kv. quote (fst kv) @ '':'' @ ?f (snd kv)"
    have v: "parses (snd kv) \<and> json_text (snd kv) = Some (?f (snd kv))" if "kv \<in> set kvs" for kv
    proof -
      have "plain (snd kv)" using JObj.prems that by (auto simp: list_all_iff)
      moreover have "snd kv \<in> Basic_BNFs.snds kv" by (cases kv) simp
      ultimately show ?thesis using JObj.IH [OF that] plain_json_text by force
    qed
    have "concat (map (\<lambda>kv. case json_text (snd kv) of None \<Rightarrow> []
             | Some t \<Rightarrow> [quote (fst kv) @ '':'' @ t]) kvs) = map ?p kvs"
      using v by (induction kvs) (auto split: option.splits)
    then have tx: "t = CHR ''{'' # join_with '','' (map ?p kvs) @ [CHR ''}'']" using t by simp
    have d: "from_entries kvs = kvs" using JObj.prems by (simp add: from_entries_distinct)
    show "p_value (Suc n) (t @ r) = Some (JObj kvs, r)"
    proof (cases kvs)
      case Nil
      then show ?thesis by (simp add: tx skip_ws_id)
    next
      case (Cons w ws)
      have mem: "p_members n (join_with '','' (map ?p kvs) @ CHR ''}'' # r) = Some (kvs, r)"
        using v n Cons by (intro parses_members) (auto simp: tx)
      have "\<exists>u. join_with '','' (map ?p kvs) @ CHR ''}'' # r = CHR 0x22 # u"
        using Cons by (cases ws) (auto simp: quote_def)
      then obtain u where u: "join_with '','' (map ?p kvs) @ CHR ''}'' # r = CHR 0x22 # u" by blast
      have "t @ r = CHR ''{'' # join_with '','' (map ?p kvs) @ CHR ''}'' # r" by (simp add: tx)
      then show ?thesis using mem d unfolding u by (simp add: skip_ws_id del: p_members.simps)
    qed
  qed
next
  case (JStr s)
  show ?case by (simp add: parses_def quote_def skip_ws_id p_string_quote)
next
  case (JNum q)
  then show ?case by (simp add: parses_num)
qed (auto simp: parses_def skip_ws_id starts_with_def)


text \<open>Parsing the text of a plain value gives the value.\<close>

theorem json_parse_text:
  assumes "plain v" "json_text v = Some t"
  shows "json_parse t = Some v"
proof -
  have "p_value (Suc (length t)) (t @ []) = Some (v, [])"
    using plain_parses [OF assms(1)] assms(2) unfolding parses_def by (metis le_refl num_ends_lits(1))
  then show ?thesis by (simp add: json_parse_def skip_ws_def del: p_value.simps)
qed

end
