(* ===== verification/Handlers.thy ===== *)
theory Handlers
  imports Framework Json "HOL-Library.List_Lexorder"
begin

text \<open>
  The greeting extension (apps/extension/typescript/src/app/handlers.ts, abi.ts and
  config.ts): its module state, the two handlers and their registration. viem's
  ABI decoder is the parameter \<open>viem_dec\<close> (the two decoded strings, or the message
  of the exception), and \<open>se\<close> is the text of the \<open>SyntaxError\<close> of a failing
  \<open>JSON.parse\<close>.
\<close>

section \<open>Constants, state\<close>

definition OP_TYPE_GREETING :: string where "OP_TYPE_GREETING = ''GREETING''"
definition OP_COMMAND_SAY_HELLO :: string where "OP_COMMAND_SAY_HELLO = ''SAY_HELLO''"
definition OP_COMMAND_SAY_GOODBYE :: string where "OP_COMMAND_SAY_GOODBYE = ''SAY_GOODBYE''"
definition VERSION :: string where "VERSION = ''0.1.0''"

record greeting_state =
  greetingCount :: int
  lastGreeting :: string
  farewellCount :: int
  lastFarewell :: string

definition resetState :: greeting_state where
  "resetState = \<lparr> greetingCount = 0, lastGreeting = [], farewellCount = 0, lastFarewell = [] \<rparr>"

definition reportState :: "greeting_state \<Rightarrow> jsv" where
  "reportState s = JObj
     [(''greetingCount'', JNum (of_int (greetingCount s))),
      (''lastGreeting'', JStr (lastGreeting s)),
      (''farewellCount'', JNum (of_int (farewellCount s))),
      (''lastFarewell'', JStr (lastFarewell s))]"

text \<open>\<open>bytesToHex(Buffer.from(JSON.stringify(resp), "utf-8"))\<close>.\<close>

definition response_hex :: "jsv \<Rightarrow> string" where
  "response_hex v = bytesToHex (utf8_bytes (case json_text v of None \<Rightarrow> [] | Some t \<Rightarrow> t))"

section \<open>Handlers\<close>

definition sayHello_accept :: "string \<Rightarrow> greeting_state \<Rightarrow> (js_error + handler_result) \<times> greeting_state" where
  "sayHello_accept name s =
     (let n = greetingCount s + 1;
          greeting = ''Hello, '' @ name @ ''! Welcome to Flare Confidential Compute.''
      in (Inr (Some (response_hex (JObj [(''greeting'', JStr greeting), (''greetingNumber'', JNum (of_int n))])), 1, None),
          s\<lparr> greetingCount := n, lastGreeting := greeting \<rparr>))"

definition handleSayHello :: "(string \<Rightarrow> string) \<Rightarrow> greeting_state handler_func" where
  "handleSayHello se msg s =
     (case hexToBytes_of msg of
        Inl e \<Rightarrow> (Inr (None, 0, Some (''decoding request: invalid hex: '' @ error_text e)), s)
      | Inr raw \<Rightarrow>
          (case json_parse (utf8_decode raw) of
             None \<Rightarrow> (Inr (None, 0, Some (''decoding request: '' @ se (utf8_decode raw))), s)
           | Some req \<Rightarrow>
               (case req of
                  JObj kvs \<Rightarrow>
                    (let unknown = sort (filter (\<lambda>k. k \<noteq> ''name'') (map fst kvs)) in
                     if unknown \<noteq> [] then
                       (Inr (None, 0, Some (''decoding request: unknown field '' @ [CHR 0x22] @ hd unknown @ [CHR 0x22])), s)
                     else
                       (case get_prop kvs ''name'' of
                          JStr name \<Rightarrow>
                            if name = [] then (Inr (None, 0, Some ''name must not be empty''), s)
                            else sayHello_accept name s
                        | _ \<Rightarrow> (Inr (None, 0, Some ''name must not be empty''), s)))
                | _ \<Rightarrow> (Inr (None, 0, Some ''decoding request: expected a JSON object''), s))))"

definition decodeSayGoodbye :: "(string \<Rightarrow> string + string \<times> string) \<Rightarrow> string \<Rightarrow> js_error + string \<times> string" where
  "decodeSayGoodbye viem_dec data =
     (case viem_dec data of
        Inl m \<Rightarrow> Inl (Err (''ABI decode failed: '' @ m))
      | Inr (name, reason) \<Rightarrow> Inr (name, reason))"

definition handleSayGoodbye :: "(string \<Rightarrow> string + string \<times> string) \<Rightarrow> greeting_state handler_func" where
  "handleSayGoodbye viem_dec msg s =
     (case hexToBytes_of msg of
        Inl e \<Rightarrow> (Inr (None, 0, Some (''decoding request: invalid hex: '' @ error_text e)), s)
      | Inr raw \<Rightarrow>
          (case decodeSayGoodbye viem_dec (bytesToHex raw) of
             Inl e \<Rightarrow> (Inr (None, 0, Some (''decoding request: '' @ error_message e)), s)
           | Inr (name, reason) \<Rightarrow>
               if name = [] then (Inr (None, 0, Some ''name must not be empty''), s)
               else
                 (let n = farewellCount s + 1;
                      farewell = ''Goodbye, '' @ name @ ''! Reason: '' @ reason
                  in (Inr (Some (response_hex (JObj [(''farewell'', JStr farewell), (''farewellNumber'', JNum (of_int n))])), 1, None),
                      s\<lparr> farewellCount := n, lastFarewell := farewell \<rparr>))))"

definition register :: "(string \<Rightarrow> string) \<Rightarrow> (string \<Rightarrow> string + string \<times> string) \<Rightarrow>
    greeting_state framework \<Rightarrow> js_error + greeting_state framework" where
  "register se viem_dec fw =
     and_then (handle OP_TYPE_GREETING OP_COMMAND_SAY_HELLO (handleSayHello se) fw)
       (handle OP_TYPE_GREETING OP_COMMAND_SAY_GOODBYE (handleSayGoodbye viem_dec))"

section \<open>Lemmas\<close>

lemma op_constants: "op_identifier OP_TYPE_GREETING" "op_identifier OP_COMMAND_SAY_HELLO"
  "op_identifier OP_COMMAND_SAY_GOODBYE"
  by code_simp+

definition greeting_handlers :: "(string \<Rightarrow> string) \<Rightarrow> (string \<Rightarrow> string + string \<times> string) \<Rightarrow>
    (string \<times> string \<times> greeting_state handler_func) list" where
  "greeting_handlers se viem_dec =
     [(OP_TYPE_GREETING, OP_COMMAND_SAY_HELLO, handleSayHello se),
      (OP_TYPE_GREETING, OP_COMMAND_SAY_GOODBYE, handleSayGoodbye viem_dec)]"

lemma idents_ok_greeting: "idents_ok (greeting_handlers se viem_dec)"
  by (simp add: idents_ok_def greeting_handlers_def op_constants)

lemma and_then_Inr_right [simp]: "and_then r Inr = r"
  by (cases r) auto

lemma register_eq: "register se viem_dec fw = register_all (greeting_handlers se viem_dec) fw"
proof -
  have "register_all [(t, c, h)] = handle t c h" for t c and h :: "greeting_state handler_func"
  proof (rule ext)
    fix fw :: "greeting_state framework"
    have "register_all [] = (Inr :: _ \<Rightarrow> js_error + greeting_state framework)" by (rule ext) simp
    then show "register_all [(t, c, h)] fw = handle t c h fw" by simp
  qed
  then show ?thesis by (simp add: register_def greeting_handlers_def)
qed

lemma register_Inr: "\<exists>fw. register se viem_dec [] = Inr fw"
  using register_all_ok [OF idents_ok_greeting, of se viem_dec "[]"] by (simp add: register_eq)

text \<open>The response of a handler reads back as the value it printed.\<close>

lemma ascii_quote [simp]: "ascii s \<Longrightarrow> ascii (quote s)"
proof -
  have c: "ascii (quote_char c)" if "of_char c < (128 :: nat)" for c
  proof (cases "(of_char c :: nat) < 32")
    case True
    then have "is_hex (hex_digit (of_char c div 16))" "is_hex (hex_digit (of_char c mod 16))" by simp_all
    then have "of_char (hex_digit (of_char c div 16)) < (128 :: nat)"
      "of_char (hex_digit (of_char c mod 16)) < (128 :: nat)" by (simp_all only: is_hex_ascii)
    then show ?thesis using that by (simp add: quote_char_def Let_def ascii_def)
  qed (use that in \<open>simp add: quote_char_def Let_def ascii_def\<close>)
  assume "ascii s"
  then have "ascii (concat (map quote_char s))"
    by (induction s) (auto simp: ascii_def intro: c [unfolded ascii_def])
  then show ?thesis by (simp add: quote_def ascii_def)
qed

text \<open>Values whose text is ASCII.\<close>

fun ascii_jsv :: "jsv \<Rightarrow> bool" where
  "ascii_jsv (JStr s) = ascii s"
| "ascii_jsv (JArr vs) = list_all ascii_jsv vs"
| "ascii_jsv (JObj kvs) = list_all (\<lambda>kv. ascii (fst kv) \<and> ascii_jsv (snd kv)) kvs"
| "ascii_jsv v = True"

lemma ascii_join_with: "ascii sep \<Longrightarrow> \<forall>s \<in> set ss. ascii s \<Longrightarrow> ascii (join_with sep ss)"
  by (induction sep ss rule: join_with.induct) auto

lemma ascii_int_str [simp]: "ascii (int_str i)"
  by (simp add: int_str_def)

lemma ascii_json_text:
  "ascii_jsv v \<Longrightarrow> plain v \<Longrightarrow> json_text v = Some t \<Longrightarrow> ascii t"
proof (induction v arbitrary: t)
  case (JArr vs)
  have "ascii (join_with '','' (map (\<lambda>v. case json_text v of None \<Rightarrow> ''null'' | Some t \<Rightarrow> t) vs))"
    by (rule ascii_join_with)
       (use JArr in \<open>auto simp: list_all_iff split: option.splits\<close>)
  with JArr.prems show ?case by auto
next
  case (JObj kvs)
  have "ascii (join_with '','' (concat (map (\<lambda>kv. case json_text (snd kv) of None \<Rightarrow> []
             | Some t \<Rightarrow> [quote (fst kv) @ '':'' @ t]) kvs)))"
    by (rule ascii_join_with)
       (use JObj in \<open>fastforce simp: list_all_iff split: option.splits\<close>)+
  with JObj.prems show ?case by auto
qed (auto simp: num_str_def)

text \<open>The request a client sends, and what it reads from the response.\<close>

definition hello_request :: "string \<Rightarrow> jsv" where
  "hello_request name = JStr (response_hex (JObj [(''name'', JStr name)]))"

definition read_response :: "string \<Rightarrow> jsv option" where
  "read_response h = (case hexToBytes (Some h) of Inl _ \<Rightarrow> None | Inr b \<Rightarrow> json_parse (utf8_decode b))"

lemma read_response_hex:
  assumes "plain v" "json_text v = Some t" "ascii t"
  shows "read_response (response_hex v) = Some v"
  using json_parse_text [OF assms(1,2)] assms(2,3) by (simp add: read_response_def response_hex_def)

lemma sayHello_request:
  assumes "ascii name" "name \<noteq> []"
  shows "handleSayHello se (hello_request name) s = sayHello_accept name s"
proof -
  let ?v = "JObj [(''name'', JStr name)]"
  obtain t where t: "json_text ?v = Some t" "ascii t" using assms by auto
  have "json_parse t = Some ?v" by (rule json_parse_text [OF _ t(1)]) simp
  then show ?thesis
    using t assms(2) by (simp add: handleSayHello_def hello_request_def response_hex_def hexToBytes_of_def
        get_prop_def del: json_text.simps)
qed

text \<open>A handler either rejects with an error and keeps the state, or accepts a non-empty name.\<close>

lemma sayHello_cases:
  "(\<exists>m. handleSayHello se msg s = (Inr (None, 0, Some m), s)) \<or>
   (\<exists>name. name \<noteq> [] \<and> handleSayHello se msg s = sayHello_accept name s)"
proof (cases "hexToBytes_of msg")
  case (Inr raw)
  show ?thesis
  proof (cases "json_parse (utf8_decode raw)")
    case (Some req)
    show ?thesis
    proof (cases req)
      case (JObj kvs)
      with Inr Some show ?thesis
        by (cases "get_prop kvs ''name''") (auto simp: handleSayHello_def Let_def)
    qed (use Inr Some in \<open>simp_all add: handleSayHello_def\<close>)
  qed (simp add: handleSayHello_def Inr)
qed (simp add: handleSayHello_def)

lemma sayGoodbye_cases:
  "(\<exists>m. handleSayGoodbye viem_dec msg s = (Inr (None, 0, Some m), s)) \<or>
   (\<exists>name reason d. name \<noteq> [] \<and> handleSayGoodbye viem_dec msg s =
      (Inr (Some d, 1, None), s\<lparr> farewellCount := farewellCount s + 1,
         lastFarewell := ''Goodbye, '' @ name @ ''! Reason: '' @ reason \<rparr>))"
proof (cases "hexToBytes_of msg")
  case (Inr raw)
  show ?thesis
  proof (cases "decodeSayGoodbye viem_dec (bytesToHex raw)")
    case Inr': (Inr r)
    with Inr show ?thesis
      by (cases r) (auto simp: handleSayGoodbye_def Let_def)
  qed (simp add: handleSayGoodbye_def Inr)
qed (simp add: handleSayGoodbye_def)

end
