(* ===== verification/Server.thy ===== *)
theory Server
  imports Handlers
begin

text \<open>
  The enclave's HTTP server (apps/extension/typescript/src/base/server.ts): the
  decoding of an action up to the point where its handler is queued
  (\<open>prepare_action\<close>), the response built from the handler's result
  (\<open>finish_action\<close>), the routing of requests, and the promise chain of \<open>serialize\<close>
  as a step relation. \<open>se\<close> is the text \<open>String(e)\<close> of the \<open>SyntaxError\<close> of a failing
  \<open>JSON.parse\<close>. Console output is not modelled.
\<close>

section \<open>Requests and responses\<close>

datatype payload = PText string | PJson jsv

text \<open>\<open>Throws\<close>: the promise of \<open>handleRequest\<close> rejects, and no response is sent.\<close>

datatype reply = Reply int payload | Throws js_error

text \<open>A queued handler call, with what the response is built from.\<close>

record 's call =
  c_handler :: "'s handler_func"
  c_msg :: jsv
  c_data :: jsv
  c_df :: jsv

text \<open>What the constructor builds (the ports and the listening socket are not modelled).\<close>

record 's server =
  srv_version :: string
  stateVersionHex :: string
  srv_framework :: "'s framework"
  srv_reportState :: "'s \<Rightarrow> jsv"

definition new_server :: "string \<Rightarrow> ('s framework \<Rightarrow> js_error + 's framework) \<Rightarrow> ('s \<Rightarrow> jsv) \<Rightarrow> js_error + 's server" where
  "new_server version reg report =
     and_then (stringToBytes32Hex version) (\<lambda>h.
     and_then (reg []) (\<lambda>fw.
     Inr \<lparr> srv_version = version, stateVersionHex = h, srv_framework = fw, srv_reportState = report \<rparr>))"

definition error_reply :: "int \<Rightarrow> string \<Rightarrow> reply" where
  "error_reply status m = Reply status (PJson (JObj [(''error'', JStr m)]))"

definition prepare_action :: "(string \<Rightarrow> string) \<Rightarrow> 's framework \<Rightarrow> string \<Rightarrow> reply + 's call" where
  "prepare_action se fw body =
     (case json_parse body of
        None \<Rightarrow> Inl (error_reply 400 (''invalid action JSON: '' @ se body))
      | Some action \<Rightarrow>
          if \<not> truthy action \<or> \<not> is_object action \<or> \<not> truthy (prop_of action ''data'') then
            Inl (error_reply 400 ''invalid action structure: missing data'')
          else
            (let data = prop_of action ''data'' in
             case hexToBytes_of (prop_of data ''message'') of
               Inl e \<Rightarrow> Inl (error_reply 400 (''invalid hex in message: '' @ error_text e))
             | Inr msgBytes \<Rightarrow>
                 (case json_parse (utf8_decode msgBytes) of
                    None \<Rightarrow> Inl (error_reply 400 (''invalid DataFixed JSON in message: '' @ se (utf8_decode msgBytes)))
                  | Some df \<Rightarrow>
                      if \<not> truthy df \<or> \<not> is_object df \<or> \<not> truthy (prop_of df ''opType'') then
                        Inl (error_reply 400 ''invalid DataFixed: missing opType'')
                      else
                        (case lookup fw (prop_of df ''opType'') (nullish_or (prop_of df ''opCommand'') (JStr [])) of
                           Inl e \<Rightarrow> Inl (Throws e)
                         | Inr None \<Rightarrow> Inl (Reply 501 (PText ''unsupported op type''))
                         | Inr (Some handler) \<Rightarrow>
                             Inr \<lparr> c_handler = handler,
                                   c_msg = nullish_or (prop_of df ''originalMessage'') (JStr ''0x''),
                                   c_data = data, c_df = df \<rparr>))))"

definition log_text :: "int \<Rightarrow> string option \<Rightarrow> string" where
  "log_text status err =
     (if status = 0 then
        (case err of None \<Rightarrow> ''error: unknown''
         | Some e \<Rightarrow> if e = [] then ''error: unknown'' else ''error: '' @ e)
      else if status = 1 then ''ok''
      else ''pending'')"

definition action_result :: "string \<Rightarrow> 's call \<Rightarrow> handler_result \<Rightarrow> jsv" where
  "action_result version c r =
     (case r of (data, status, err) \<Rightarrow>
        JObj [(''id'', prop_of (c_data c) ''id''),
              (''submissionTag'', prop_of (c_data c) ''submissionTag''),
              (''status'', JNum (of_int status)),
              (''log'', JStr (log_text status err)),
              (''opType'', prop_of (c_df c) ''opType''),
              (''opCommand'', prop_of (c_df c) ''opCommand''),
              (''additionalResultStatus'', JStr ''0x''),
              (''version'', JStr version),
              (''data'', JStr (case data of None \<Rightarrow> ''0x'' | Some d \<Rightarrow> d))])"

definition finish_action :: "string \<Rightarrow> 's call \<Rightarrow> js_error + handler_result \<Rightarrow> reply" where
  "finish_action version c r =
     (case r of Inl e \<Rightarrow> Throws e | Inr hr \<Rightarrow> Reply 200 (PJson (action_result version c hr)))"

text \<open>\<open>processAction\<close> on an idle queue.\<close>

definition processAction :: "(string \<Rightarrow> string) \<Rightarrow> 's server \<Rightarrow> string \<Rightarrow> 's \<Rightarrow> reply \<times> 's" where
  "processAction se srv body s =
     (case prepare_action se (srv_framework srv) body of
        Inl r \<Rightarrow> (r, s)
      | Inr c \<Rightarrow>
          (case c_handler c (c_msg c) s of (r, s') \<Rightarrow> (finish_action (srv_version srv) c r, s')))"

definition processState :: "'s server \<Rightarrow> 's \<Rightarrow> reply" where
  "processState srv s =
     Reply 200 (PJson (JObj [(''stateVersion'', JStr (stateVersionHex srv)),
                             (''state'', srv_reportState srv s)]))"

definition handleRequest :: "(string \<Rightarrow> string) \<Rightarrow> 's server \<Rightarrow> string \<Rightarrow> string \<Rightarrow> string \<Rightarrow> 's \<Rightarrow> reply \<times> 's" where
  "handleRequest se srv meth path body s =
     (let clean = takeWhile (\<lambda>c. c \<noteq> CHR ''?'') path in
      if clean = ''/action'' then
        (if meth = ''POST'' then processAction se srv body s
         else (Reply 405 (PText ''method not allowed''), s))
      else if clean = ''/state'' then
        (if meth = ''GET'' then (processState srv s, s)
         else (Reply 405 (PText ''method not allowed''), s))
      else (Reply 404 (PText ''not found''), s))"

section \<open>Transport\<close>

record http_response =
  h_status :: int
  h_content_type :: string
  h_content_length :: nat
  h_body :: string

definition send :: "int \<Rightarrow> payload \<Rightarrow> http_response" where
  "send status p =
     (let body = (case p of PText t \<Rightarrow> t | PJson v \<Rightarrow> (case json_text v of None \<Rightarrow> [] | Some t \<Rightarrow> t)) in
      \<lparr> h_status = status,
        h_content_type = (case p of PText _ \<Rightarrow> ''text/plain'' | PJson _ \<Rightarrow> ''application/json''),
        h_content_length = length (utf8_bytes body),
        h_body = body \<rparr>)"

definition readBody :: "bytes list \<Rightarrow> string" where
  "readBody chunks = utf8_decode (concat chunks)"

text \<open>One request: a body that could not be read (\<open>None\<close>) is a 400, \<open>None\<close> as result is no response.\<close>

definition serve :: "(string \<Rightarrow> string) \<Rightarrow> 's server \<Rightarrow> string \<Rightarrow> string \<Rightarrow> bytes list option \<Rightarrow> 's \<Rightarrow>
    http_response option \<times> 's" where
  "serve se srv meth url chunks s =
     (case chunks of
        None \<Rightarrow> (Some (send 400 (PJson (JObj [(''error'', JStr ''failed to read body'')]))), s)
      | Some cs \<Rightarrow>
          (case handleRequest se srv meth url (readBody cs) s of
             (Reply status p, s') \<Rightarrow> (Some (send status p), s')
           | (Throws _, s') \<Rightarrow> (None, s')))"

section \<open>The promise chain of serialize\<close>

text \<open>
  Every call of \<open>serialize\<close> adds a promise whose function runs once the previous
  promise has settled, whether it was fulfilled or rejected.
\<close>

datatype 'r job_status = Waiting | Running | Settled "js_error + 'r"

fun settled :: "'r job_status \<Rightarrow> bool" where
  "settled (Settled _) = True"
| "settled _ = False"

type_synonym ('s, 'r) job = "'s \<Rightarrow> (js_error + 'r) \<times> 's"

record ('s, 'r) serial =
  jobs :: "(('s, 'r) job \<times> 'r job_status) list"
  app :: 's

inductive serialize_step :: "('s, 'r) serial \<Rightarrow> ('s, 'r) serial \<Rightarrow> bool" where
  call: "serialize_step q (q\<lparr> jobs := jobs q @ [(f, Waiting)] \<rparr>)"
| start: "i < length (jobs q) \<Longrightarrow> jobs q ! i = (f, Waiting) \<Longrightarrow>
    (i = 0 \<or> settled (snd (jobs q ! (i - 1)))) \<Longrightarrow>
    serialize_step q (q\<lparr> jobs := (jobs q)[i := (f, Running)] \<rparr>)"
| finish: "i < length (jobs q) \<Longrightarrow> jobs q ! i = (f, Running) \<Longrightarrow> f (app q) = (r, s') \<Longrightarrow>
    serialize_step q (q\<lparr> jobs := (jobs q)[i := (f, Settled r)], app := s' \<rparr>)"

inductive serialize_reachable :: "'s \<Rightarrow> ('s, 'r) serial \<Rightarrow> bool" for s0 where
  init: "serialize_reachable s0 \<lparr> jobs = [], app = s0 \<rparr>"
| step: "serialize_reachable s0 q \<Longrightarrow> serialize_step q q' \<Longrightarrow> serialize_reachable s0 q'"

inductive_cases serialize_stepE: "serialize_step q q'"

text \<open>The specification: the functions run one after the other, in the order of the calls.\<close>

fun run_in_order :: "('s, 'r) job list \<Rightarrow> 's \<Rightarrow> (js_error + 'r) list \<times> 's" where
  "run_in_order [] s = ([], s)"
| "run_in_order (f # fs) s =
     (case f s of (r, s') \<Rightarrow> (case run_in_order fs s' of (rs, s'') \<Rightarrow> (r # rs, s'')))"

lemma run_in_order_snoc:
  "run_in_order (fs @ [f]) s =
     (case run_in_order fs s of (rs, s') \<Rightarrow> (case f s' of (r, s'') \<Rightarrow> (rs @ [r], s'')))"
  by (induction fs arbitrary: s) (auto split: prod.split)

lemma run_in_order_length: "run_in_order fs s = (rs, s') \<Longrightarrow> length rs = length fs"
  by (induction fs arbitrary: s rs) (auto split: prod.splits)

text \<open>
  The shape every reachable chain has: a settled prefix whose results and state are
  those of the sequential run, then at most one running job, then waiting jobs.
\<close>

fun unsettled_tail :: "(('s, 'r) job \<times> 'r job_status) list \<Rightarrow> bool" where
  "unsettled_tail [] = True"
| "unsettled_tail (p # ps) = (\<not> settled (snd p) \<and> (\<forall>p' \<in> set ps. snd p' = Waiting))"

definition chain_shape :: "'s \<Rightarrow> ('s, 'r) serial \<Rightarrow> bool" where
  "chain_shape s0 q =
     (\<exists>fs rs rest. run_in_order fs s0 = (rs, app q) \<and>
        jobs q = zip fs (map Settled rs) @ rest \<and> unsettled_tail rest)"

lemma unsettled_tail_nth: "unsettled_tail ps \<Longrightarrow> i < length ps \<Longrightarrow> \<not> settled (snd (ps ! i))"
  by (cases ps; cases i) auto

lemma unsettled_tail_nth_pos: "unsettled_tail ps \<Longrightarrow> i < length ps \<Longrightarrow> 0 < i \<Longrightarrow> snd (ps ! i) = Waiting"
  by (cases ps; cases i) auto

lemma settled_Waiting: "st = Waiting \<Longrightarrow> \<not> settled st" by simp

lemma unsettled_tail_snoc: "unsettled_tail ps \<Longrightarrow> unsettled_tail (ps @ [(f, Waiting)])"
  by (cases ps) auto

text \<open>A job that is not settled and comes after a settled one is the first of the tail.\<close>

lemma chain_position:
  assumes "run_in_order fs s0 = (rs, s)" "js = zip fs (map Settled rs) @ rest" "unsettled_tail rest"
    and "i < length js" "\<not> settled (snd (js ! i))" "i = 0 \<or> settled (snd (js ! (i - 1))) \<or> snd (js ! i) = Running"
  shows "i = length fs \<and> rest \<noteq> [] \<and> hd rest = js ! i"
proof -
  let ?zs = "zip fs (map Settled rs)"
  have len: "length rs = length fs" using run_in_order_length [OF assms(1)] .
  then have lz: "length ?zs = length fs" by simp
  have "\<not> i < length fs"
  proof
    assume "i < length fs"
    with assms(2) len have "snd (js ! i) = Settled (rs ! i)" by (simp add: nth_append)
    with assms(5) show False by simp
  qed
  moreover have "\<not> length fs < i"
  proof
    assume i: "length fs < i"
    then have ji: "js ! i = rest ! (i - length fs)" "js ! (i - 1) = rest ! (i - 1 - length fs)"
    proof -
      have "\<not> i < length ?zs" "\<not> i - 1 < length ?zs" using i lz by auto
      then show "js ! i = rest ! (i - length fs)" "js ! (i - 1) = rest ! (i - 1 - length fs)"
        unfolding assms(2) nth_append lz by simp_all
    qed
    have r: "i - length fs < length rest" "i - 1 - length fs < length rest"
      using assms(2,4) lz i by simp_all
    have "snd (js ! i) = Waiting"
      using unsettled_tail_nth_pos [OF assms(3) r(1)] i ji by simp
    moreover have "\<not> settled (snd (js ! (i - 1)))"
      using unsettled_tail_nth [OF assms(3) r(2)] ji by simp
    ultimately show False using assms(6) i by simp
  qed
  ultimately have i: "i = length fs" by simp
  then have "rest \<noteq> []" using assms(2,4) lz by auto
  moreover have "hd rest = js ! i" using i assms(2) lz \<open>rest \<noteq> []\<close> by (simp add: nth_append hd_conv_nth)
  ultimately show ?thesis using i by simp
qed

lemma chain_shape_step:
  assumes "serialize_step q q'" "chain_shape s0 q"
  shows "chain_shape s0 q'"
proof -
  obtain fs rs rest where c: "run_in_order fs s0 = (rs, app q)"
    "jobs q = zip fs (map Settled rs) @ rest" "unsettled_tail rest"
    using assms(2) by (auto simp: chain_shape_def)
  have len: "length rs = length fs" using run_in_order_length [OF c(1)] .
  show ?thesis
    using assms(1)
  proof (cases rule: serialize_step.cases)
    case (call f)
    then have "jobs q' = zip fs (map Settled rs) @ (rest @ [(f, Waiting)])" "app q' = app q"
      using c(2) by simp_all
    with c(1) unsettled_tail_snoc [OF c(3)] show ?thesis unfolding chain_shape_def by metis
  next
    case (start i f)
    have "i = length fs \<and> rest \<noteq> [] \<and> hd rest = jobs q ! i"
      by (rule chain_position [OF c]) (use start in auto)
    then obtain ps where rest: "rest = (f, Waiting) # ps" and i: "i = length fs"
      using start(3) by (cases rest) auto
    then have "jobs q' = zip fs (map Settled rs) @ ((f, Running) # ps)" "app q' = app q"
      using start(1) c(2) len by (simp_all add: list_update_append)
    moreover have "unsettled_tail ((f, Running) # ps)" using c(3) rest by simp
    ultimately show ?thesis using c(1) unfolding chain_shape_def by metis
  next
    case (finish i f r s')
    have "i = length fs \<and> rest \<noteq> [] \<and> hd rest = jobs q ! i"
      by (rule chain_position [OF c]) (use finish in auto)
    then obtain ps where rest: "rest = (f, Running) # ps" and i: "i = length fs"
      using finish(3) by (cases rest) auto
    have "jobs q' = zip (fs @ [f]) (map Settled (rs @ [r])) @ ps" "app q' = s'"
      using finish(1) c(2) len rest i by (simp_all add: list_update_append)
    moreover have "unsettled_tail ps"
      using c(3) rest by (cases ps) auto
    moreover have "run_in_order (fs @ [f]) s0 = (rs @ [r], s')"
      using c(1) finish(4) by (simp add: run_in_order_snoc)
    ultimately show ?thesis unfolding chain_shape_def by metis
  qed
qed

lemma serialize_reachable_shape: "serialize_reachable s0 q \<Longrightarrow> chain_shape s0 q"
proof (induction rule: serialize_reachable.induct)
  case init
  show ?case unfolding chain_shape_def
    by (intro exI [of _ "[]"]) simp
next
  case (step q q')
  then show ?case by (blast intro: chain_shape_step)
qed

lemma chain_shape_running_unique:
  assumes "chain_shape s0 q" "i < length (jobs q)" "j < length (jobs q)"
    "snd (jobs q ! i) = Running" "snd (jobs q ! j) = Running"
  shows "i = j"
proof -
  obtain fs rs rest where c: "run_in_order fs s0 = (rs, app q)"
    "jobs q = zip fs (map Settled rs) @ rest" "unsettled_tail rest"
    using assms(1) by (auto simp: chain_shape_def)
  show ?thesis
  proof -
    have "i = length fs" using chain_position [OF c assms(2)] assms(4) by simp
    moreover have "j = length fs" using chain_position [OF c assms(3)] assms(5) by simp
    ultimately show ?thesis by simp
  qed
qed

text \<open>What is left to do: two steps for a waiting call, one for a running one.\<close>

fun job_work :: "'r job_status \<Rightarrow> nat" where
  "job_work Waiting = 2"
| "job_work Running = 1"
| "job_work (Settled _) = 0"

definition chain_work :: "('s, 'r) serial \<Rightarrow> nat" where
  "chain_work q = sum_list (map (\<lambda>p. job_work (snd p)) (jobs q))"

lemma chain_work_update:
  assumes "i < length (jobs q)" "jobs q ! i = (f, st)" "job_work st' < job_work st"
    "jobs q' = (jobs q)[i := (f, st')]"
  shows "chain_work q' < chain_work q" "map fst (jobs q') = map fst (jobs q)"
proof -
  let ?ws = "map (\<lambda>p. job_work (snd p)) (jobs q)"
  have "?ws ! i \<le> sum_list ?ws" using assms(1) by (intro elem_le_sum_list) simp
  with assms show "chain_work q' < chain_work q"
    by (simp add: chain_work_def map_update sum_list_update)
  show "map fst (jobs q') = map fst (jobs q)"
    using assms(1,2,4) by (simp add: map_update list_update_same_conv)
qed

text \<open>Whatever the results so far, a chain with an unsettled call can advance.\<close>

lemma chain_shape_progress:
  assumes "chain_shape s0 q" "p \<in> set (jobs q)" "\<not> settled (snd p)"
  shows "\<exists>q'. serialize_step q q' \<and> map fst (jobs q') = map fst (jobs q) \<and> chain_work q' < chain_work q"
proof -
  obtain fs rs rest where c: "run_in_order fs s0 = (rs, app q)"
    "jobs q = zip fs (map Settled rs) @ rest" "unsettled_tail rest"
    using assms(1) by (auto simp: chain_shape_def)
  have len: "length rs = length fs" using run_in_order_length [OF c(1)] .
  let ?i = "length fs"
  have "p \<notin> set (zip fs (map Settled rs))"
  proof
    assume "p \<in> set (zip fs (map Settled rs))"
    then have "snd p \<in> set (map Settled rs)" by (metis prod.collapse set_zip_rightD)
    then show False using assms(3) by auto
  qed
  with c(2) assms(2) obtain f st ps where rest: "rest = (f, st) # ps" by (cases rest) auto
  then have i: "?i < length (jobs q)" "jobs q ! ?i = (f, st)"
    using c(2) len by (simp_all add: nth_append)
  have prev: "?i = 0 \<or> settled (snd (jobs q ! (?i - 1)))"
    using c(2) len by (cases fs rule: rev_cases) (auto simp: nth_append)
  show ?thesis
  proof (cases st)
    case Waiting
    let ?q = "q\<lparr> jobs := (jobs q)[?i := (f, Running)] \<rparr>"
    have "chain_work ?q < chain_work q" "map fst (jobs ?q) = map fst (jobs q)"
      by (rule chain_work_update [OF i, of Running]; simp add: Waiting)+
    moreover have "serialize_step q ?q"
      using i Waiting prev by (intro serialize_step.start) simp_all
    ultimately show ?thesis by blast
  next
    case Running
    obtain r s' where f: "f (app q) = (r, s')" by (cases "f (app q)")
    let ?q = "q\<lparr> jobs := (jobs q)[?i := (f, Settled r)], app := s' \<rparr>"
    have "chain_work ?q < chain_work q" "map fst (jobs ?q) = map fst (jobs q)"
      by (rule chain_work_update [OF i, of "Settled r"]; simp add: Running)+
    moreover have "serialize_step q ?q"
      using i Running f by (intro serialize_step.finish) simp_all
    ultimately show ?thesis by blast
  next
    case (Settled r)
    with c(3) rest show ?thesis by simp
  qed
qed

lemma chain_drains:
  assumes "chain_shape s0 q"
  shows "\<exists>q'. serialize_step\<^sup>*\<^sup>* q q' \<and> map fst (jobs q') = map fst (jobs q) \<and>
    (\<forall>p \<in> set (jobs q'). settled (snd p)) \<and> chain_shape s0 q'"
  using assms
proof (induction "chain_work q" arbitrary: q rule: less_induct)
  case less
  show ?case
  proof (cases "\<forall>p \<in> set (jobs q). settled (snd p)")
    case True
    with less.prems show ?thesis by blast
  next
    case False
    then obtain q1 where q1: "serialize_step q q1" "map fst (jobs q1) = map fst (jobs q)"
      "chain_work q1 < chain_work q"
      using chain_shape_progress [OF less.prems] by blast
    from less.hyps [OF q1(3) chain_shape_step [OF q1(1) less.prems]] q1(1,2)
    show ?thesis by (metis converse_rtranclp_into_rtranclp)
  qed
qed

section \<open>The greeting server\<close>

definition greeting_server :: "(string \<Rightarrow> string) \<Rightarrow> (string \<Rightarrow> string + string \<times> string) \<Rightarrow> js_error + greeting_state server" where
  "greeting_server se viem_dec = new_server VERSION (register se viem_dec) reportState"

lemma version_Inr: "\<exists>h. stringToBytes32Hex VERSION = Inr h"
proof -
  have "op_identifier VERSION" by code_simp
  then show ?thesis using identifier_Inr by blast
qed

lemma greeting_server_eq:
  assumes "greeting_server se viem_dec = Inr srv"
  shows "register_all (greeting_handlers se viem_dec) [] = Inr (srv_framework srv)"
    "srv_version srv = VERSION" "srv_reportState srv = reportState"
    "stringToBytes32Hex VERSION = Inr (stateVersionHex srv)"
proof -
  obtain fw where fw: "register se viem_dec [] = Inr fw" using register_Inr by blast
  obtain h where h: "stringToBytes32Hex VERSION = Inr h" using version_Inr by blast
  show "register_all (greeting_handlers se viem_dec) [] = Inr (srv_framework srv)"
    "srv_version srv = VERSION" "srv_reportState srv = reportState"
    "stringToBytes32Hex VERSION = Inr (stateVersionHex srv)"
    using assms fw h by (auto simp: greeting_server_def new_server_def register_eq)
qed

text \<open>The action a node posts for an operation, as the contract's section 4 lays it out.\<close>

definition data_fixed :: "string \<Rightarrow> string \<Rightarrow> jsv \<Rightarrow> jsv" where
  "data_fixed opType opCommand msg =
     JObj [(''instructionId'', JStr ''0x01''), (''opType'', JStr opType), (''opCommand'', JStr opCommand),
           (''originalMessage'', msg)]"

definition action_json :: "string \<Rightarrow> string \<Rightarrow> jsv \<Rightarrow> jsv" where
  "action_json i tag df =
     JObj [(''data'', JObj [(''id'', JStr i), (''type'', JStr ''instruction''),
       (''submissionTag'', JStr tag), (''message'', JStr (response_hex df))])]"

lemma prepare_action_json:
  assumes body: "json_text (action_json i tag (data_fixed ot oc (JStr msg))) = Some body"
    and wf: "ascii i" "ascii tag" "ascii ot" "ascii oc" "ascii msg" "ot \<noteq> []"
    and l: "lookup fw (JStr ot) (JStr oc) = Inr (Some h)"
  shows "prepare_action se fw body = Inr \<lparr> c_handler = h, c_msg = JStr msg,
     c_data = prop_of (action_json i tag (data_fixed ot oc (JStr msg))) ''data'',
     c_df = data_fixed ot oc (JStr msg) \<rparr>"
proof -
  let ?df = "data_fixed ot oc (JStr msg)"
  let ?a = "action_json i tag ?df"
  have pa: "plain ?a" "plain ?df" by (simp_all add: action_json_def data_fixed_def)
  obtain t where t: "json_text ?df = Some t" using plain_json_text [OF pa(2)] by blast
  have "ascii t" by (rule ascii_json_text [OF _ pa(2) t]) (simp add: data_fixed_def wf)
  with t have m: "hexToBytes_of (JStr (response_hex ?df)) = Inr (utf8_bytes t)" "utf8_decode (utf8_bytes t) = t"
    by (simp_all add: hexToBytes_of_def response_hex_def)
  have d: "prop_of (prop_of ?a ''data'') ''message'' = JStr (response_hex ?df)"
    "truthy ?a" "is_object ?a" "truthy (prop_of ?a ''data'')"
    by (simp_all add: action_json_def is_object_def)
  have df: "truthy ?df" "is_object ?df" "prop_of ?df ''opType'' = JStr ot"
    "prop_of ?df ''opCommand'' = JStr oc" "prop_of ?df ''originalMessage'' = JStr msg"
    by (simp_all add: data_fixed_def is_object_def)
  show ?thesis
    unfolding prepare_action_def json_parse_text [OF pa(1) body] Let_def option.case
    using d df m json_parse_text [OF pa(2) t] l wf(6) by simp
qed

lemma send_json: "json_text v = Some t \<Longrightarrow> send status (PJson v) =
   \<lparr> h_status = status, h_content_type = ''application/json'', h_content_length = length t, h_body = t \<rparr>"
  by (simp add: send_def)

lemma ascii_bytesToHex [simp]: "ascii (bytesToHex b)"
  using bytes_hex_is_hex [of b] by (simp add: bytesToHex_eq list_all_hex_ascii)

lemma ascii_response_hex [simp]: "ascii (response_hex v)"
  by (simp add: response_hex_def)

lemma spells_enc: "spells (JStr (bytes32_enc s)) s" if "op_identifier s"
  using that by (simp add: spells_def bytes32_enc_eq)

lemma bytes32_enc_ascii: "op_identifier s \<Longrightarrow> ascii (bytes32_enc s)"
  using bytes_hex_is_hex by (simp add: bytes32_enc_eq list_all_hex_ascii)

lemma spells_nonempty: "op_identifier s \<Longrightarrow> s \<noteq> [] \<Longrightarrow> spells (JStr h) s \<Longrightarrow> h \<noteq> []"
  by (auto simp: spells_def bytes32_enc_eq)

lemma hello_registered:
  "registered (greeting_handlers se viem_dec) OP_TYPE_GREETING OP_COMMAND_SAY_HELLO = Some (handleSayHello se)"
  by (simp add: registered_def greeting_handlers_def)

lemma find_in_set: "find P xs = Some x \<Longrightarrow> x \<in> set xs"
  by (auto simp: find_Some_first)

lemma lookup_in_framework: "lookup fw t c = Inr (Some h) \<Longrightarrow> \<exists>t' c'. (t', c', h) \<in> set fw"
proof -
  have pick: "\<exists>t' c'. (t', c', h) \<in> set fw"
    if "(case find P fw of Some (_, _, h') \<Rightarrow> Some h'
         | None \<Rightarrow> (case find Q fw of Some (_, _, h') \<Rightarrow> Some h' | None \<Rightarrow> None)) = Some h" for P Q
    using that find_in_set [of P fw] find_in_set [of Q fw]
    by (cases "find P fw"; cases "find Q fw") fastforce+
  assume "lookup fw t c = Inr (Some h)"
  then show ?thesis
    by (cases "normalize t"; cases "normalize c") (auto simp: lookup_def intro!: pick)
qed

lemma prepare_handler: "prepare_action se fw body = Inr c \<Longrightarrow> \<exists>t' c'. (t', c', c_handler c) \<in> set fw"
  by (fastforce simp: prepare_action_def Let_def dest!: lookup_in_framework
      split: option.splits if_splits sum.splits)

lemma greeting_framework_handlers:
  assumes "greeting_server se viem_dec = Inr srv" "(t, c, h) \<in> set (srv_framework srv)"
  shows "h = handleSayHello se \<or> h = handleSayGoodbye viem_dec"
  using greeting_server_eq(1) [OF assms(1)] assms(2)
    register_all_ok [OF idents_ok_greeting, of se viem_dec "[]"]
  by (auto simp: greeting_handlers_def)

lemma greeting_server_exists: "\<exists>srv. greeting_server se viem_dec = Inr srv"
proof -
  obtain fw where fw: "register se viem_dec [] = Inr fw" using register_Inr by blast
  obtain h where h: "stringToBytes32Hex VERSION = Inr h" using version_Inr by blast
  show ?thesis by (simp add: greeting_server_def new_server_def fw h)
qed

lemma greeting_response_reads:
  assumes "ascii name"
  shows "read_response (response_hex (JObj
      [(''greeting'', JStr (''Hello, '' @ name @ ''! Welcome to Flare Confidential Compute.'')),
       (''greetingNumber'', JNum (of_int n))])) =
    Some (JObj [(''greeting'', JStr (''Hello, '' @ name @ ''! Welcome to Flare Confidential Compute.'')),
       (''greetingNumber'', JNum (of_int n))])" (is "read_response (response_hex ?v) = _")
proof -
  have v: "plain ?v" "ascii_jsv ?v" using assms by simp_all
  obtain t where t: "json_text ?v = Some t" using plain_json_text [OF v(1)] by blast
  show ?thesis by (rule read_response_hex [OF v(1) t ascii_json_text [OF v(2,1) t]])
qed

section \<open>Properties\<close>

text \<open>An action posted for GREETING/SAY_HELLO, in any spelling of its identifiers, is answered
  with a 200 whose JSON body carries the caller's id and the log text ok, whose data decodes to the
  greeting and its number, and the counter and the last greeting of the state are updated.\<close>

theorem hello_end_to_end:
  assumes "greeting_server se viem_dec = Inr srv"
    and "ascii i" "ascii tag" "ascii name" "name \<noteq> []" "ascii ot" "ascii oc"
    and "spells (JStr ot) OP_TYPE_GREETING" "spells (JStr oc) OP_COMMAND_SAY_HELLO"
    and "json_text (action_json i tag (data_fixed ot oc (hello_request name))) = Some body"
  shows "\<exists>resp v d.
    serve se srv ''POST'' ''/action'' (Some [utf8_bytes body]) s =
      (Some resp, s\<lparr> greetingCount := greetingCount s + 1,
         lastGreeting := ''Hello, '' @ name @ ''! Welcome to Flare Confidential Compute.'' \<rparr>) \<and>
    h_status resp = 200 \<and> h_content_length resp = length (h_body resp) \<and>
    json_parse (h_body resp) = Some v \<and>
    prop_of v ''id'' = JStr i \<and> prop_of v ''status'' = JNum 1 \<and> prop_of v ''log'' = JStr ''ok'' \<and>
    prop_of v ''data'' = JStr d \<and>
    read_response d = Some (JObj
      [(''greeting'', JStr (''Hello, '' @ name @ ''! Welcome to Flare Confidential Compute.'')),
       (''greetingNumber'', JNum (of_int (greetingCount s + 1)))])"
proof -
  define n where "n = greetingCount s + 1"
  let ?g = "''Hello, '' @ name @ ''! Welcome to Flare Confidential Compute.''"
  let ?v = "JObj [(''greeting'', JStr ?g), (''greetingNumber'', JNum (of_int n))]"
  let ?msg = "response_hex (JObj [(''name'', JStr name)])"
  let ?a = "action_json i tag (data_fixed ot oc (JStr ?msg))"
  let ?c = "\<lparr> c_handler = handleSayHello se, c_msg = JStr ?msg, c_data = prop_of ?a ''data'',
     c_df = data_fixed ot oc (JStr ?msg) \<rparr>"
  let ?r = "action_result VERSION ?c (Some (response_hex ?v), 1, None)"
  note srv = greeting_server_eq [OF assms(1)]
  have lk: "lookup (srv_framework srv) (JStr ot) (JStr oc) = Inr (Some (handleSayHello se))"
    using lookup_registered [OF idents_ok_greeting op_constants(1,2) assms(8,9) srv(1)]
    by (simp add: hello_registered)
  have body: "json_text ?a = Some body" using assms(10) by (simp add: hello_request_def)
  have "ot \<noteq> []" by (rule spells_nonempty [OF op_constants(1) _ assms(8)]) (simp add: OP_TYPE_GREETING_def)
  then have pr: "prepare_action se (srv_framework srv) body = Inr ?c"
    by (rule prepare_action_json [OF body assms(2,3,6,7) ascii_response_hex _ lk])
  have "ascii_jsv ?a" "plain ?a" using assms by (simp_all add: action_json_def data_fixed_def)
  then have rb: "readBody [utf8_bytes body] = body"
    using ascii_json_text [OF _ _ body] by (simp add: readBody_def)
  have run: "handleSayHello se (JStr ?msg) s = (Inr (Some (response_hex ?v), 1, None),
      s\<lparr> greetingCount := n, lastGreeting := ?g \<rparr>)"
    using sayHello_request [OF assms(4,5), of se s]
    by (simp add: hello_request_def sayHello_accept_def Let_def n_def)
  note rd = greeting_response_reads [OF assms(4), of n]
  have pr2: "plain ?r" by (simp add: action_result_def action_json_def data_fixed_def)
  then obtain t where t: "json_text ?r = Some t" using plain_json_text by blast
  have out: "serve se srv ''POST'' ''/action'' (Some [utf8_bytes body]) s =
      (Some (send 200 (PJson ?r)), s\<lparr> greetingCount := n, lastGreeting := ?g \<rparr>)"
    by (simp add: serve_def handleRequest_def processAction_def rb pr run finish_action_def srv(2))
  have resp: "h_status (send 200 (PJson ?r)) = 200" "h_body (send 200 (PJson ?r)) = t"
    "h_content_length (send 200 (PJson ?r)) = length t"
    unfolding send_json [OF t] by simp_all
  have props: "prop_of ?r ''id'' = JStr i" "prop_of ?r ''status'' = JNum 1"
    "prop_of ?r ''log'' = JStr ''ok''" "prop_of ?r ''data'' = JStr (response_hex ?v)"
    by (simp_all add: action_result_def action_json_def log_text_def)
  show ?thesis
    by (rule exI [of _ "send 200 (PJson ?r)"], rule exI [of _ ?r], rule exI [of _ "response_hex ?v"])
       (use out resp props rd json_parse_text [OF pr2 t] in \<open>simp flip: n_def\<close>)
qed

theorem hello_end_to_end_witness:
  "\<exists>srv body resp s'. greeting_server (\<lambda>_. []) (\<lambda>_. Inl []) = Inr srv \<and>
     serve (\<lambda>_. []) srv ''POST'' ''/action'' (Some [utf8_bytes body]) resetState = (Some resp, s') \<and>
     h_status resp = 200 \<and> greetingCount s' = 1"
proof -
  obtain srv where srv: "greeting_server (\<lambda>_. []) (\<lambda>_. Inl []) = Inr srv" using greeting_server_exists by blast
  let ?a = "action_json ''7'' ''submit'' (data_fixed (bytes32_enc OP_TYPE_GREETING)
     (bytes32_enc OP_COMMAND_SAY_HELLO) (hello_request ''Ann''))"
  have "plain ?a" by (simp add: action_json_def data_fixed_def hello_request_def)
  then obtain body where "json_text ?a = Some body" using plain_json_text by blast
  from hello_end_to_end [OF srv _ _ _ _ _ _ _ _ this, of resetState] show ?thesis
    using srv by (fastforce simp: resetState_def intro: spells_enc bytes32_enc_ascii op_constants)
qed

lemma greeting_call:
  assumes "greeting_server se viem_dec = Inr srv" "prepare_action se (srv_framework srv) body = Inr c"
  shows "(\<exists>m. c_handler c (c_msg c) s = (Inr (None, 0, Some m), s)) \<or>
    (\<exists>d s'. c_handler c (c_msg c) s = (Inr (Some d, 1, None), s'))"
proof -
  from prepare_handler [OF assms(2)] greeting_framework_handlers [OF assms(1)]
  have "c_handler c = handleSayHello se \<or> c_handler c = handleSayGoodbye viem_dec" by blast
  then show ?thesis
  proof
    assume h: "c_handler c = handleSayHello se"
    show ?thesis unfolding h
      using sayHello_cases [of se "c_msg c" s] by (auto simp: sayHello_accept_def Let_def)
  next
    assume h: "c_handler c = handleSayGoodbye viem_dec"
    show ?thesis unfolding h
      using sayGoodbye_cases [of viem_dec "c_msg c" s] by auto
  qed
qed

text \<open>C24: Whatever body is posted, the greeting state changes only under a 200 whose status is 1 and
  whose log is ok: no parse error, unknown operation or rejected payload touches it.\<close>

theorem state_changes_only_when_ok:
  assumes "greeting_server se viem_dec = Inr srv" "processAction se srv body s = (r, s')" "s' \<noteq> s"
  shows "\<exists>v. r = Reply 200 (PJson v) \<and> prop_of v ''status'' = JNum 1 \<and> prop_of v ''log'' = JStr ''ok'' \<and>
    prop_of v ''version'' = JStr VERSION"
proof (cases "prepare_action se (srv_framework srv) body")
  case (Inl r')
  with assms(2,3) show ?thesis by (simp add: processAction_def)
next
  case (Inr c)
  from greeting_call [OF assms(1) Inr, of s] show ?thesis
  proof (elim disjE exE)
    fix m assume "c_handler c (c_msg c) s = (Inr (None, 0, Some m), s)"
    with Inr assms(2,3) show ?thesis by (simp add: processAction_def)
  next
    fix d s'' assume "c_handler c (c_msg c) s = (Inr (Some d, 1, None), s'')"
    with Inr assms(2) greeting_server_eq(2) [OF assms(1)] show ?thesis
      by (auto simp: processAction_def finish_action_def action_result_def log_text_def)
  qed
qed

lemma processAction_hello_ex:
  "\<exists>srv body r s'. greeting_server (\<lambda>_. []) (\<lambda>_. Inl []) = Inr srv \<and>
     processAction (\<lambda>_. []) srv body resetState = (r, s') \<and> s' \<noteq> resetState"
proof -
  obtain srv where srv: "greeting_server (\<lambda>_. []) (\<lambda>_. Inl []) = Inr srv" using greeting_server_exists by blast
  let ?m = "response_hex (JObj [(''name'', JStr ''Ann'')])"
  let ?ot = "bytes32_enc OP_TYPE_GREETING" and ?oc = "bytes32_enc OP_COMMAND_SAY_HELLO"
  let ?a = "action_json ''7'' ''submit'' (data_fixed ?ot ?oc (JStr ?m))"
  have "plain ?a" by (simp add: action_json_def data_fixed_def)
  then obtain body where b: "json_text ?a = Some body" using plain_json_text by blast
  have lk: "lookup (srv_framework srv) (JStr ?ot) (JStr ?oc) = Inr (Some (handleSayHello (\<lambda>_. [])))"
    using lookup_registered [OF idents_ok_greeting op_constants(1,2) spells_enc [OF op_constants(1)]
        spells_enc [OF op_constants(2)] greeting_server_eq(1) [OF srv]]
    by (simp add: hello_registered)
  have "?ot \<noteq> []" by (rule spells_nonempty [OF op_constants(1) _ spells_enc [OF op_constants(1)]])
      (simp add: OP_TYPE_GREETING_def)
  then have "prepare_action (\<lambda>_. []) (srv_framework srv) body = Inr \<lparr> c_handler = handleSayHello (\<lambda>_. []),
      c_msg = JStr ?m, c_data = prop_of ?a ''data'', c_df = data_fixed ?ot ?oc (JStr ?m) \<rparr>"
    by (intro prepare_action_json [OF b _ _ _ _ _ _ lk]) (simp_all add: bytes32_enc_ascii op_constants)
  moreover have "handleSayHello (\<lambda>_. []) (JStr ?m) resetState = sayHello_accept ''Ann'' resetState"
    using sayHello_request [of "''Ann''" "\<lambda>_. []" resetState] by (simp add: hello_request_def)
  moreover obtain r s' where "sayHello_accept ''Ann'' resetState = (r, s')" "s' \<noteq> resetState"
    by (simp add: sayHello_accept_def Let_def resetState_def)
  ultimately have "processAction (\<lambda>_. []) srv body resetState = (finish_action (srv_version srv)
      \<lparr> c_handler = handleSayHello (\<lambda>_. []), c_msg = JStr ?m, c_data = prop_of ?a ''data'',
        c_df = data_fixed ?ot ?oc (JStr ?m) \<rparr> r, s')"
    by (simp add: processAction_def)
  with srv \<open>s' \<noteq> resetState\<close> show ?thesis by blast
qed

theorem state_changes_only_when_ok_witness:
  "\<exists>srv body v s'. greeting_server (\<lambda>_. []) (\<lambda>_. Inl []) = Inr srv \<and>
     processAction (\<lambda>_. []) srv body resetState = (Reply 200 (PJson v), s') \<and> prop_of v ''status'' = JNum 1"
  using processAction_hello_ex state_changes_only_when_ok by (metis (no_types))

text \<open>A DataFixed whose opType is a truthy value that is not a string makes the request's promise
  reject, so that no response is sent at all (instead of a 400 or a 501).\<close>

theorem non_string_opType_no_response:
  assumes "ascii i" "ascii tag" "plain v" "ascii_jsv v" "truthy v" "\<And>x. v \<noteq> JStr x"
    and "json_text (action_json i tag (JObj [(''opType'', v)])) = Some body"
  shows "serve se srv ''POST'' ''/action'' (Some [utf8_bytes body]) s = (None, s)"
proof -
  let ?df = "JObj [(''opType'', v)]"
  let ?a = "action_json i tag ?df"
  have a: "plain ?a" "ascii_jsv ?a" "plain ?df" "ascii_jsv ?df"
    using assms(1-4) by (simp_all add: action_json_def)
  obtain t where t: "json_text ?df = Some t" using plain_json_text [OF a(3)] by blast
  have "ascii t" by (rule ascii_json_text [OF a(4,3) t])
  then have m: "hexToBytes_of (prop_of (prop_of ?a ''data'') ''message'') = Inr (utf8_bytes t)"
    "utf8_decode (utf8_bytes t) = t"
    by (simp_all add: action_json_def response_hex_def hexToBytes_of_def t del: json_text.simps)
  have d: "truthy ?a" "is_object ?a" "truthy (prop_of ?a ''data'')" "prop_of ?df ''opType'' = v"
    "truthy ?df" "is_object ?df"
    by (simp_all add: action_json_def is_object_def)
  have "normalize v = Inl (TypeErr ''h.toLowerCase is not a function'')"
    using assms(5,6) normalize_error_iff by blast
  then have l: "lookup fw v w = Inl (TypeErr ''h.toLowerCase is not a function'')" for w and fw :: "'a framework"
    by (simp add: lookup_def)
  have "prepare_action se (srv_framework srv) body = Inl (Throws (TypeErr ''h.toLowerCase is not a function''))"
    unfolding prepare_action_def json_parse_text [OF a(1) assms(7)] Let_def option.case
    using d m json_parse_text [OF a(3) t] l assms(5) by simp
  moreover have "readBody [utf8_bytes body] = body"
    using ascii_json_text [OF a(2,1) assms(7)] by (simp add: readBody_def)
  ultimately show ?thesis by (simp add: serve_def handleRequest_def processAction_def)
qed

theorem non_string_opType_no_response_witness:
  "\<exists>body. json_parse body \<noteq> None \<and>
     serve (\<lambda>_. []) \<lparr> srv_version = [], stateVersionHex = [], srv_framework = [], srv_reportState = reportState \<rparr>
       ''POST'' ''/action'' (Some [utf8_bytes body]) resetState = (None, resetState)"
proof -
  let ?a = "action_json ''7'' ''submit'' (JObj [(''opType'', JNum 5)])"
  have p: "plain ?a" by (simp add: action_json_def)
  then obtain body where b: "json_text ?a = Some body" using plain_json_text by blast
  show ?thesis
    using non_string_opType_no_response [OF _ _ _ _ _ _ b] json_parse_text [OF p b] by fastforce
qed

text \<open>C25: Calls of serialize behave as if run one after the other in the order of the calls: in
  every reachable chain the settled calls are a prefix, their results and the state are those of the
  sequential run, and behind them at most the first call is running.\<close>

theorem serialize_linear:
  assumes "serialize_reachable s0 q"
  shows "\<exists>n rs. n \<le> length (jobs q) \<and> run_in_order (map fst (take n (jobs q))) s0 = (rs, app q) \<and>
    map snd (take n (jobs q)) = map Settled rs \<and>
    (\<forall>i. n \<le> i \<and> i < length (jobs q) \<longrightarrow> \<not> settled (snd (jobs q ! i))) \<and>
    (\<forall>i. n < i \<and> i < length (jobs q) \<longrightarrow> snd (jobs q ! i) = Waiting)"
proof -
  obtain fs rs rest where c: "run_in_order fs s0 = (rs, app q)"
    "jobs q = zip fs (map Settled rs) @ rest" "unsettled_tail rest"
    using serialize_reachable_shape [OF assms] by (auto simp: chain_shape_def)
  have len: "length rs = length fs" using run_in_order_length [OF c(1)] .
  have at: "jobs q ! i = rest ! (i - length fs)" if "length fs \<le> i" for i
    using that c(2) len by (simp add: nth_append)
  show ?thesis
  proof (intro exI conjI allI impI)
    show "run_in_order (map fst (take (length fs) (jobs q))) s0 = (rs, app q)"
      using c(1,2) len by simp
    show "map snd (take (length fs) (jobs q)) = map Settled rs" using c(2) len by simp
    show "\<not> settled (snd (jobs q ! i))" if i: "length fs \<le> i \<and> i < length (jobs q)" for i
    proof -
      have "i - length fs < length rest" using i c(2) len by auto
      then show ?thesis using unsettled_tail_nth [OF c(3)] at i by simp
    qed
    show "snd (jobs q ! i) = Waiting" if i: "length fs < i \<and> i < length (jobs q)" for i
    proof -
      have "i - length fs < length rest" "0 < i - length fs" using i c(2) len by auto
      then show ?thesis using unsettled_tail_nth_pos [OF c(3)] at i by simp
    qed
  qed (use c(2) len in simp)
qed

theorem serialize_linear_witness:
  "\<exists>q. serialize_reachable (0 :: int) q \<and> length (jobs q) = 1 \<and> (\<exists>n rs. run_in_order (map fst (take n (jobs q))) 0 =
     (rs :: (js_error + int) list, app q))"
proof -
  have r: "serialize_reachable (0 :: int) \<lparr> jobs = [(\<lambda>s. (Inr s, s + 1), Waiting)], app = 0 \<rparr>"
    using serialize_reachable.step [OF serialize_reachable.init serialize_step.call, of 0] by simp
  from serialize_linear [OF r] r show ?thesis by fastforce
qed

text \<open>No failing call wedges the queue: from every reachable chain, steps that add no further
  call reach one where every call has settled, with the results and the state of the sequential run
  of all calls, whatever they returned or threw.\<close>

theorem serialize_drains:
  assumes "serialize_reachable s0 q"
  shows "\<exists>q'. serialize_step\<^sup>*\<^sup>* q q' \<and> map fst (jobs q') = map fst (jobs q) \<and>
    run_in_order (map fst (jobs q)) s0 = (fst (run_in_order (map fst (jobs q)) s0), app q') \<and>
    map snd (jobs q') = map Settled (fst (run_in_order (map fst (jobs q)) s0))"
proof -
  obtain q' where q': "serialize_step\<^sup>*\<^sup>* q q'" "map fst (jobs q') = map fst (jobs q)"
    "\<forall>p \<in> set (jobs q'). settled (snd p)" "chain_shape s0 q'"
    using chain_drains [OF serialize_reachable_shape [OF assms]] by blast
  obtain fs rs rest where c: "run_in_order fs s0 = (rs, app q')"
    "jobs q' = zip fs (map Settled rs) @ rest" "unsettled_tail rest"
    using q'(4) by (auto simp: chain_shape_def)
  have len: "length rs = length fs" using run_in_order_length [OF c(1)] .
  have "rest = []"
    using c(2,3) q'(3) by (cases rest) auto
  with c(2) len q'(2) have "map fst (jobs q) = fs" "map snd (jobs q') = map Settled rs" by simp_all
  with q'(1,2) c(1) show ?thesis by auto
qed

theorem serialize_drains_witness:
  "\<exists>q' :: (int, int) serial. serialize_reachable 0 (\<lparr> jobs = [(\<lambda>s. (Inl (Err ''x''), s + 1), Waiting)], app = 0 \<rparr> :: (int, int) serial) \<and>
     app q' = 1 \<and> map snd (jobs q') = [Settled (Inl (Err ''x''))]"
proof -
  let ?q = "\<lparr> jobs = [(\<lambda>s. (Inl (Err ''x''), s + 1), Waiting)], app = 0 \<rparr> :: (int, int) serial"
  have r: "serialize_reachable 0 ?q"
    using serialize_reachable.step [OF serialize_reachable.init serialize_step.call, of 0] by simp
  from serialize_drains [OF r] r show ?thesis by auto
qed

end
