(* ===== verification/Schema.thy ===== *)
theory Schema
  imports JsValue "HOL-Library.Monad_Syntax"
begin

text \<open>
  The policy intermediate representation (packages/policy/src/schema.ts). The zod
  schemas are data of type \<open>zschema\<close>, one constructor per zod combinator the file
  uses, and \<open>policyIrSchema\<close> is the file's schema. zod itself is a parameter: a
  function from a schema and a value to the issues or the parsed value, for which
  \<open>zod_documented\<close> states the documented meaning of the combinators (\<open>z_spec\<close>).
  \<open>ir_of\<close> reads a parsed value as the typed \<open>policy_ir\<close> (\<open>z.infer\<close>).
\<close>

section \<open>Schemas\<close>

record issue =
  path :: "string list"
  message :: string

datatype zcheck = ZRegex "string \<Rightarrow> bool" string | ZMinLen nat | ZMaxLen nat
datatype znum = ZInt | ZPositive | ZMin int | ZMax int

datatype zschema =
    ZString "zcheck list"
  | ZNumber "znum list"
  | ZBoolean
  | ZLiteral jsv
  | ZArray nat zschema
  | ZObject "(string \<times> zschema) list"
  | ZUnion string "zschema list"
  | ZOptional zschema
  | ZDefault jsv zschema
  | ZRefine zschema "jsv \<Rightarrow> issue list"

definition addressSchema :: zschema where
  "addressSchema = ZString [ZRegex re_address ''must be a 20-byte hex address'']"

definition amountSchema :: zschema where
  "amountSchema = ZString [ZRegex re_amount ''must be a positive integer in the asset base unit'']"

definition manualHeartbeatTrigger :: zschema where
  "manualHeartbeatTrigger = ZObject
     [(''kind'', ZLiteral (JStr ''manualHeartbeat'')),
      (''intervalSeconds'', ZNumber [ZInt, ZPositive]),
      (''demoMode'', ZDefault (JBool False) ZBoolean)]"

definition chainProofOfLifeTrigger :: zschema where
  "chainProofOfLifeTrigger = ZObject
     [(''kind'', ZLiteral (JStr ''chainProofOfLife'')),
      (''intervalSeconds'', ZNumber [ZInt, ZPositive]),
      (''sourceId'', ZString []),
      (''destinationAddress'', ZString []),
      (''minimumAmount'', amountSchema)]"

definition timestampTrigger :: zschema where
  "timestampTrigger = ZObject
     [(''kind'', ZLiteral (JStr ''timestamp'')),
      (''executeAfter'', ZNumber [ZInt, ZPositive])]"

definition triggerSchema :: zschema where
  "triggerSchema = ZUnion ''kind'' [manualHeartbeatTrigger, chainProofOfLifeTrigger, timestampTrigger]"

definition priceAboveCondition :: zschema where
  "priceAboveCondition = ZObject
     [(''kind'', ZLiteral (JStr ''priceAbove'')),
      (''feedId'', ZString []),
      (''minimumUsd'', ZNumber [ZPositive])]"

definition conditionSchema :: zschema where
  "conditionSchema = ZUnion ''kind'' [priceAboveCondition]"

definition recipientSchema :: zschema where
  "recipientSchema = ZObject
     [(''address'', addressSchema),
      (''shareBps'', ZNumber [ZInt, ZMin 1, ZMax 10000]),
      (''label'', ZOptional (ZString [ZMaxLen 120]))]"

definition splitTransferAction :: zschema where
  "splitTransferAction = ZObject
     [(''kind'', ZLiteral (JStr ''splitTransfer'')),
      (''recipients'', ZArray 1 recipientSchema)]"

definition actionSchema :: zschema where
  "actionSchema = ZUnion ''kind'' [splitTransferAction]"

definition policyObject :: zschema where
  "policyObject = ZObject
     [(''version'', ZLiteral (JNum 1)),
      (''name'', ZString [ZMinLen 1, ZMaxLen 120]),
      (''asset'', ZString []),
      (''trigger'', triggerSchema),
      (''conditions'', ZDefault (JArr []) (ZArray 0 conditionSchema)),
      (''actions'', ZArray 1 actionSchema)]"

section \<open>The typed representation\<close>

datatype trigger =
    ManualHeartbeat int bool
  | ChainProofOfLife int string string string
  | TimestampTrigger int

datatype condition = PriceAbove string rat

record share =
  address :: string
  shareBps :: int
  label :: "string option"

datatype action = SplitTransfer "share list"

record policy_ir =
  ir_name :: string
  ir_asset :: string
  ir_trigger :: trigger
  ir_conditions :: "condition list"
  ir_actions :: "action list"

definition str_of :: "jsv \<Rightarrow> string option" where
  "str_of v = (case v of JStr s \<Rightarrow> Some s | _ \<Rightarrow> None)"

definition int_of :: "jsv \<Rightarrow> int option" where
  "int_of v = (case v of JNum r \<Rightarrow> if is_int r then Some \<lfloor>r\<rfloor> else None | _ \<Rightarrow> None)"

definition num_of :: "jsv \<Rightarrow> rat option" where
  "num_of v = (case v of JNum r \<Rightarrow> Some r | _ \<Rightarrow> None)"

definition bool_of :: "jsv \<Rightarrow> bool option" where
  "bool_of v = (case v of JBool b \<Rightarrow> Some b | _ \<Rightarrow> None)"

definition obj_of :: "jsv \<Rightarrow> (string \<times> jsv) list option" where
  "obj_of v = (case v of JObj kvs \<Rightarrow> Some kvs | _ \<Rightarrow> None)"

definition arr_of :: "jsv \<Rightarrow> jsv list option" where
  "arr_of v = (case v of JArr vs \<Rightarrow> Some vs | _ \<Rightarrow> None)"

lemmas js_readers = str_of_def int_of_def num_of_def bool_of_def obj_of_def arr_of_def

definition trigger_of :: "jsv \<Rightarrow> trigger option" where
  "trigger_of v = do {
     kvs \<leftarrow> obj_of v;
     if get_prop kvs ''kind'' = JStr ''manualHeartbeat'' then do {
       i \<leftarrow> int_of (get_prop kvs ''intervalSeconds'');
       d \<leftarrow> bool_of (get_prop kvs ''demoMode'');
       Some (ManualHeartbeat i d) }
     else if get_prop kvs ''kind'' = JStr ''chainProofOfLife'' then do {
       i \<leftarrow> int_of (get_prop kvs ''intervalSeconds'');
       s \<leftarrow> str_of (get_prop kvs ''sourceId'');
       d \<leftarrow> str_of (get_prop kvs ''destinationAddress'');
       m \<leftarrow> str_of (get_prop kvs ''minimumAmount'');
       Some (ChainProofOfLife i s d m) }
     else if get_prop kvs ''kind'' = JStr ''timestamp'' then do {
       t \<leftarrow> int_of (get_prop kvs ''executeAfter'');
       Some (TimestampTrigger t) }
     else None }"

definition condition_of :: "jsv \<Rightarrow> condition option" where
  "condition_of v = do {
     kvs \<leftarrow> obj_of v;
     f \<leftarrow> str_of (get_prop kvs ''feedId'');
     m \<leftarrow> num_of (get_prop kvs ''minimumUsd'');
     Some (PriceAbove f m) }"

definition share_of :: "jsv \<Rightarrow> share option" where
  "share_of v = do {
     kvs \<leftarrow> obj_of v;
     a \<leftarrow> str_of (get_prop kvs ''address'');
     b \<leftarrow> int_of (get_prop kvs ''shareBps'');
     Some \<lparr> address = a, shareBps = b, label = str_of (get_prop kvs ''label'') \<rparr> }"

definition action_of :: "jsv \<Rightarrow> action option" where
  "action_of v = do {
     kvs \<leftarrow> obj_of v;
     rs \<leftarrow> arr_of (get_prop kvs ''recipients'');
     shares \<leftarrow> traverse share_of rs;
     Some (SplitTransfer shares) }"

definition ir_of :: "jsv \<Rightarrow> policy_ir option" where
  "ir_of v = do {
     kvs \<leftarrow> obj_of v;
     n \<leftarrow> str_of (get_prop kvs ''name'');
     a \<leftarrow> str_of (get_prop kvs ''asset'');
     t \<leftarrow> trigger_of (get_prop kvs ''trigger'');
     cs \<leftarrow> arr_of (get_prop kvs ''conditions'');
     conditions \<leftarrow> traverse condition_of cs;
     as \<leftarrow> arr_of (get_prop kvs ''actions'');
     actions \<leftarrow> traverse action_of as;
     Some \<lparr> ir_name = n, ir_asset = a, ir_trigger = t, ir_conditions = conditions, ir_actions = actions \<rparr> }"

section \<open>The refinement\<close>

fun duplicate_issues :: "nat \<Rightarrow> nat \<Rightarrow> string set \<Rightarrow> share list \<Rightarrow> issue list" where
  "duplicate_issues i j seen [] = []"
| "duplicate_issues i j seen (r # rs) =
     (let key = lower_case (address r) in
      (if key \<in> seen then
         [\<lparr> path = [''actions'', nat_str i, ''recipients'', nat_str j, ''address''],
            message = ''duplicate recipient: combine into a single share instead'' \<rparr>]
       else []) @ duplicate_issues i (Suc j) (insert key seen) rs)"

definition share_total :: "share list \<Rightarrow> int" where
  "share_total rs = foldl (\<lambda>sum r. sum + shareBps r) 0 rs"

definition action_issues :: "nat \<Rightarrow> action \<Rightarrow> issue list" where
  "action_issues i a =
     (case a of SplitTransfer rs \<Rightarrow>
        (let total = share_total rs in
         if total \<noteq> 10000 then
           [\<lparr> path = [''actions'', nat_str i, ''recipients''],
              message = ''shares must total 100% (10000 bps), got '' @ int_str total \<rparr>]
         else []) @ duplicate_issues i 0 {} rs)"

definition superRefine :: "policy_ir \<Rightarrow> issue list" where
  "superRefine ir = concat (map (\<lambda>(i, a). action_issues i a) (List.enumerate 0 (ir_actions ir)))"

definition policyIrSchema :: zschema where
  "policyIrSchema = ZRefine policyObject (\<lambda>w. case ir_of w of None \<Rightarrow> [] | Some ir \<Rightarrow> superRefine ir)"

section \<open>What zod documents\<close>

fun z_check :: "zcheck \<Rightarrow> string \<Rightarrow> bool" where
  "z_check (ZRegex r m) s = r s"
| "z_check (ZMinLen n) s = (n \<le> js_length s)"
| "z_check (ZMaxLen n) s = (js_length s \<le> n)"

fun z_num :: "znum \<Rightarrow> rat \<Rightarrow> bool" where
  "z_num ZInt r = is_int r"
| "z_num ZPositive r = (0 < r)"
| "z_num (ZMin n) r = (of_int n \<le> r)"
| "z_num (ZMax n) r = (r \<le> of_int n)"

definition present :: "string \<times> jsv \<Rightarrow> bool" where
  "present kv = (snd kv \<noteq> JUndef)"

fun z_spec :: "zschema \<Rightarrow> jsv \<Rightarrow> jsv option" where
  "z_spec (ZString cs) v = (case v of JStr s \<Rightarrow> if list_all (\<lambda>c. z_check c s) cs then Some v else None | _ \<Rightarrow> None)"
| "z_spec (ZNumber cs) v = (case v of JNum r \<Rightarrow> if list_all (\<lambda>c. z_num c r) cs then Some v else None | _ \<Rightarrow> None)"
| "z_spec ZBoolean v = (case v of JBool b \<Rightarrow> Some v | _ \<Rightarrow> None)"
| "z_spec (ZLiteral l) v = (if v = l then Some v else None)"
| "z_spec (ZArray m s) v =
     (case v of JArr vs \<Rightarrow> if m \<le> length vs then map_option JArr (traverse (z_spec s) vs) else None | _ \<Rightarrow> None)"
| "z_spec (ZObject fs) v =
     (case v of JObj kvs \<Rightarrow>
        map_option (\<lambda>out. JObj (filter present out))
          (traverse (\<lambda>(k, s). map_option (Pair k) (z_spec s (get_prop kvs k))) fs)
      | _ \<Rightarrow> None)"
| "z_spec (ZUnion d ss) v =
     foldr (\<lambda>s rest. case z_spec s v of Some w \<Rightarrow> Some w | None \<Rightarrow> rest) ss None"
| "z_spec (ZOptional s) v = (if v = JUndef then Some JUndef else z_spec s v)"
| "z_spec (ZDefault d s) v = (if v = JUndef then Some d else z_spec s v)"
| "z_spec (ZRefine s f) v =
     (case z_spec s v of None \<Rightarrow> None | Some w \<Rightarrow> if f w = [] then Some w else None)"

fun finite_js :: "jsv \<Rightarrow> bool" where
  "finite_js (JNonFinite b) = False"
| "finite_js (JArr vs) = list_all finite_js vs"
| "finite_js (JObj kvs) = list_all (\<lambda>kv. finite_js (snd kv)) kvs"
| "finite_js v = True"

text \<open>
  Where the documented meaning says what becomes of an infinity: \<open>z.number()\<close> takes one, so it is only
  said where \<open>int()\<close> refuses it. NaN is refused by every number.
\<close>

fun z_domain :: "zschema \<Rightarrow> jsv \<Rightarrow> bool" where
  "z_domain (ZNumber cs) v = (v = JNonFinite True \<longrightarrow> ZInt \<in> set cs)"
| "z_domain (ZArray m s) v = (case v of JArr vs \<Rightarrow> list_all (z_domain s) vs | _ \<Rightarrow> True)"
| "z_domain (ZObject fs) v = (case v of JObj kvs \<Rightarrow> list_all (\<lambda>(k, s). z_domain s (get_prop kvs k)) fs | _ \<Rightarrow> True)"
| "z_domain (ZUnion d ss) v = list_all (\<lambda>s. z_domain s v) ss"
| "z_domain (ZOptional s) v = z_domain s v"
| "z_domain (ZDefault d s) v = z_domain s v"
| "z_domain (ZRefine s f) v = z_domain s v"
| "z_domain s v = True"

type_synonym zod = "zschema \<Rightarrow> jsv \<Rightarrow> issue list + jsv"

text \<open>
  \<open>safeParse\<close> succeeds with the documented value or fails with at least one issue;
  a refinement runs on a value its schema accepts and its issues are the result's.
\<close>

definition zod_documented :: "zod \<Rightarrow> bool" where
  "zod_documented zod \<longleftrightarrow>
     (\<forall>s v. z_domain s v \<longrightarrow>
        (case zod s v of Inr w \<Rightarrow> z_spec s v = Some w | Inl is \<Rightarrow> z_spec s v = None \<and> is \<noteq> [])) \<and>
     (\<forall>s f v w. z_domain s v \<and> z_spec s v = Some w \<and> f w \<noteq> [] \<longrightarrow> zod (ZRefine s f) v = Inl (f w))"

lemma finite_get_prop: "list_all (\<lambda>kv. finite_js (snd kv)) kvs \<Longrightarrow> finite_js (get_prop kvs k)"
  by (induction kvs) auto

lemma finite_domain: "finite_js v \<Longrightarrow> z_domain s v"
proof (induction s v rule: z_domain.induct)
  case (3 fs v)
  show ?case
  proof (cases v)
    case (JObj kvs)
    then have "finite_js (get_prop kvs k)" for k using 3(2) by (auto intro: finite_get_prop)
    with 3(1) [OF JObj] JObj show ?thesis by (auto simp: list_all_iff)
  qed simp_all
qed (auto simp: list_all_iff split: jsv.split)

lemma zod_Inr_domain: "zod_documented zod \<Longrightarrow> z_domain s v \<Longrightarrow> zod s v = Inr w \<Longrightarrow> z_spec s v = Some w"
  unfolding zod_documented_def by (auto dest!: spec [of _ s])

lemma zod_Inr: "zod_documented zod \<Longrightarrow> finite_js v \<Longrightarrow> zod s v = Inr w \<Longrightarrow> z_spec s v = Some w"
  using zod_Inr_domain finite_domain by blast

lemma zod_Inl: "zod_documented zod \<Longrightarrow> finite_js v \<Longrightarrow> zod s v = Inl iss \<Longrightarrow> z_spec s v = None \<and> iss \<noteq> []"
  using finite_domain [of v s] unfolding zod_documented_def by (auto dest!: spec [of _ s])

text \<open>An instance: the specification itself, with one generic issue.\<close>

fun demo_zod :: zod where
  "demo_zod (ZRefine s f) v =
     (case z_spec s v of None \<Rightarrow> Inl [\<lparr> path = [], message = ''Invalid input'' \<rparr>]
      | Some w \<Rightarrow> if f w = [] then Inr w else Inl (f w))"
| "demo_zod s v =
     (case z_spec s v of None \<Rightarrow> Inl [\<lparr> path = [], message = ''Invalid input'' \<rparr>] | Some w \<Rightarrow> Inr w)"

lemma demo_zod_documented: "zod_documented demo_zod"
proof -
  have "case demo_zod s v of Inr w \<Rightarrow> z_spec s v = Some w | Inl is \<Rightarrow> z_spec s v = None \<and> is \<noteq> []" for s v
    by (cases s; cases "z_spec s v") (auto split: option.splits if_splits)
  then show ?thesis by (auto simp: zod_documented_def)
qed

section \<open>What a parsed policy satisfies\<close>

fun wf_trigger :: "trigger \<Rightarrow> bool" where
  "wf_trigger (ManualHeartbeat i d) = (0 < i)"
| "wf_trigger (ChainProofOfLife i s d m) = (0 < i \<and> re_amount m)"
| "wf_trigger (TimestampTrigger t) = (0 < t)"

fun wf_condition :: "condition \<Rightarrow> bool" where
  "wf_condition (PriceAbove f m) = (0 < m)"

definition wf_share :: "share \<Rightarrow> bool" where
  "wf_share r \<longleftrightarrow> re_address (address r) \<and> 1 \<le> shareBps r \<and> shareBps r \<le> 10000 \<and>
     (case label r of None \<Rightarrow> True | Some l \<Rightarrow> js_length l \<le> 120)"

definition wf_shares :: "share list \<Rightarrow> bool" where
  "wf_shares rs \<longleftrightarrow> rs \<noteq> [] \<and> list_all wf_share rs \<and> share_total rs = 10000 \<and>
     distinct (map (\<lambda>r. lower_case (address r)) rs)"

fun wf_action :: "action \<Rightarrow> bool" where
  "wf_action (SplitTransfer rs) = wf_shares rs"

definition wf_ir :: "policy_ir \<Rightarrow> bool" where
  "wf_ir ir \<longleftrightarrow> ir_name ir \<noteq> [] \<and> 1 \<le> js_length (ir_name ir) \<and> js_length (ir_name ir) \<le> 120 \<and>
     wf_trigger (ir_trigger ir) \<and> list_all wf_condition (ir_conditions ir) \<and>
     ir_actions ir \<noteq> [] \<and> list_all wf_action (ir_actions ir)"

lemma get_prop_absent: "k \<notin> fst ` set kvs \<Longrightarrow> get_prop kvs k = JUndef"
  by (induction kvs) auto

lemma get_prop_present [simp]:
  "distinct (map fst kvs) \<Longrightarrow> get_prop (filter present kvs) k = get_prop kvs k"
proof (induction kvs)
  case (Cons kv kvs)
  then show ?case by (cases kv) (auto simp: present_def get_prop_absent)
qed simp

lemma z_spec_object:
  "z_spec (ZObject fs) v = Some w \<longleftrightarrow>
     (\<exists>kvs out. v = JObj kvs \<and> w = JObj (filter present out) \<and>
        list_all2 (\<lambda>f o'. fst o' = fst f \<and> z_spec (snd f) (get_prop kvs (fst f)) = Some (snd o')) fs out)"
  (is "?l \<longleftrightarrow> ?r")
proof -
  have step: "(\<lambda>x y. (case x of (k, s) \<Rightarrow> map_option (Pair k) (z_spec s (get_prop kvs k))) = Some y) =
      (\<lambda>f o'. fst o' = fst f \<and> z_spec (snd f) (get_prop kvs (fst f)) = Some (snd o'))" for kvs
    by (intro ext) (auto split: prod.splits)
  show ?thesis by (cases v) (auto simp: traverse_Some_iff step)
qed

lemma z_spec_array:
  "z_spec (ZArray m s) v = Some w \<longleftrightarrow>
     (\<exists>vs ws. v = JArr vs \<and> w = JArr ws \<and> m \<le> length vs \<and> list_all2 (\<lambda>x y. z_spec s x = Some y) vs ws)"
  by (cases v) (auto simp: traverse_Some_iff)

lemma z_spec_num: "z_spec (ZNumber cs) v = Some w \<longleftrightarrow> (\<exists>r. v = JNum r \<and> w = v \<and> list_all (\<lambda>c. z_num c r) cs)"
  by (cases v) auto

lemma z_spec_str: "z_spec (ZString cs) v = Some w \<longleftrightarrow> (\<exists>r. v = JStr r \<and> w = v \<and> list_all (\<lambda>c. z_check c r) cs)"
  by (cases v) auto

lemma z_spec_lit: "z_spec (ZLiteral l) v = Some w \<longleftrightarrow> v = l \<and> w = l"
  by auto

lemma z_spec_bool: "z_spec ZBoolean v = Some w \<longleftrightarrow> (\<exists>b. v = JBool b \<and> w = v)"
  by (cases v) auto

lemma z_spec_default: "z_spec (ZDefault d s) v = Some w \<longleftrightarrow> (if v = JUndef then w = d else z_spec s v = Some w)"
  by auto

lemma z_spec_optional: "z_spec (ZOptional s) v = Some w \<longleftrightarrow> (if v = JUndef then w = JUndef else z_spec s v = Some w)"
  by auto

lemma z_spec_union: "z_spec (ZUnion d ss) v = Some w \<Longrightarrow> \<exists>s \<in> set ss. z_spec s v = Some w"
proof -
  have "foldr (\<lambda>s rest. case z_spec s v of Some w \<Rightarrow> Some w | None \<Rightarrow> rest) ss None = Some w \<Longrightarrow>
      \<exists>s \<in> set ss. z_spec s v = Some w"
    by (induction ss) (auto split: option.splits)
  then show "z_spec (ZUnion d ss) v = Some w \<Longrightarrow> ?thesis" by simp
qed

lemmas z_iffs = z_spec_object z_spec_array z_spec_num z_spec_str z_spec_lit z_spec_bool z_spec_default z_spec_optional

declare z_spec.simps [simp del]

lemma traverse_wf:
  assumes "list_all2 (\<lambda>x y. z_spec s x = Some y) vs ws"
    and "\<And>x y. z_spec s x = Some y \<Longrightarrow> \<exists>t. f y = Some t \<and> P t"
  shows "\<exists>ts. traverse f ws = Some ts \<and> list_all P ts \<and> length ts = length vs"
  using assms(1)
proof (induction rule: list_all2_induct)
  case (Cons x xs y ys)
  then show ?case using assms(2) [OF Cons.hyps(1)] by auto
qed simp

lemma is_int_pos: "is_int r \<Longrightarrow> 0 < r \<Longrightarrow> 1 \<le> r"
  by (metis is_int_def less_floor_iff of_int_0_less_iff of_int_1_le_iff zless_imp_add1_zle add_0)

lemma trigger_sound:
  assumes "z_spec triggerSchema v = Some w"
  shows "\<exists>t. trigger_of w = Some t \<and> wf_trigger t"
proof -
  consider "z_spec manualHeartbeatTrigger v = Some w" | "z_spec chainProofOfLifeTrigger v = Some w"
    | "z_spec timestampTrigger v = Some w"
    using z_spec_union [OF assms [unfolded triggerSchema_def]] by auto
  then show ?thesis
  proof cases
    case 1
    then show ?thesis
      by (auto simp: manualHeartbeatTrigger_def z_iffs list_all2_Cons1 trigger_of_def js_readers
          present_def is_int_pos split: if_splits)
  next
    case 2
    then show ?thesis
      by (auto simp: chainProofOfLifeTrigger_def amountSchema_def z_iffs list_all2_Cons1 trigger_of_def
          js_readers present_def is_int_pos)
  next
    case 3
    then show ?thesis
      by (auto simp: timestampTrigger_def z_iffs list_all2_Cons1 trigger_of_def js_readers present_def is_int_pos)
  qed
qed

lemma condition_sound:
  assumes "z_spec conditionSchema v = Some w"
  shows "\<exists>c. condition_of w = Some c \<and> wf_condition c"
  using z_spec_union [OF assms [unfolded conditionSchema_def]]
  by (auto simp: priceAboveCondition_def z_iffs list_all2_Cons1 condition_of_def js_readers present_def)

lemma share_sound:
  assumes "z_spec recipientSchema v = Some w"
  shows "\<exists>r. share_of w = Some r \<and> wf_share r"
  using assms
  by (auto simp: recipientSchema_def addressSchema_def z_iffs list_all2_Cons1 share_of_def js_readers
      present_def wf_share_def le_floor_iff floor_le_iff is_int_def split: if_splits)

fun shaped_action :: "action \<Rightarrow> bool" where
  "shaped_action (SplitTransfer rs) = (rs \<noteq> [] \<and> list_all wf_share rs)"

lemma action_sound:
  assumes "z_spec actionSchema v = Some w"
  shows "\<exists>a. action_of w = Some a \<and> shaped_action a"
proof -
  have "z_spec splitTransferAction v = Some w"
    using z_spec_union [OF assms [unfolded actionSchema_def]] by simp
  then obtain vs ws where w: "w = JObj (filter present [(''kind'', JStr ''splitTransfer''), (''recipients'', JArr ws)])"
    and l: "1 \<le> length vs" "list_all2 (\<lambda>x y. z_spec recipientSchema x = Some y) vs ws"
    by (auto simp: splitTransferAction_def z_iffs list_all2_Cons1)
  obtain ts where "traverse share_of ws = Some ts" "list_all wf_share ts" "length ts = length vs"
    using traverse_wf [OF l(2), of share_of wf_share] share_sound by blast
  with l(1) show ?thesis
    by (auto simp: w action_of_def js_readers present_def)
qed

lemma duplicate_issues_Nil:
  "duplicate_issues i j seen rs = [] \<longleftrightarrow>
     distinct (map (\<lambda>r. lower_case (address r)) rs) \<and>
     (\<lambda>r. lower_case (address r)) ` set rs \<inter> seen = {}"
proof (induction i j seen rs rule: duplicate_issues.induct)
  case (2 i j seen r rs)
  then show ?case by (simp add: Let_def) blast
qed simp

lemma action_issues_Nil:
  "action_issues i (SplitTransfer rs) = [] \<longleftrightarrow>
     share_total rs = 10000 \<and> distinct (map (\<lambda>r. lower_case (address r)) rs)"
  by (auto simp: action_issues_def Let_def duplicate_issues_Nil)

lemma superRefine_Nil:
  "superRefine ir = [] \<longleftrightarrow>
     (\<forall>a \<in> set (ir_actions ir). case a of SplitTransfer rs \<Rightarrow>
        share_total rs = 10000 \<and> distinct (map (\<lambda>r. lower_case (address r)) rs))"
proof -
  have "concat (map (\<lambda>(i, a). action_issues i a) (List.enumerate n as)) = [] \<longleftrightarrow>
      (\<forall>a \<in> set as. case a of SplitTransfer rs \<Rightarrow>
        share_total rs = 10000 \<and> distinct (map (\<lambda>r. lower_case (address r)) rs))" for n as
    by (induction as arbitrary: n) (auto simp: action_issues_Nil split: action.splits)
  then show ?thesis by (simp add: superRefine_def)
qed

lemma policy_object_sound:
  assumes "z_spec policyObject v = Some w"
  shows "\<exists>ir. ir_of w = Some ir \<and> 1 \<le> js_length (ir_name ir) \<and> js_length (ir_name ir) \<le> 120 \<and>
     wf_trigger (ir_trigger ir) \<and> list_all wf_condition (ir_conditions ir) \<and>
     ir_actions ir \<noteq> [] \<and> list_all shaped_action (ir_actions ir)"
proof -
  let ?P = "\<lambda>kvs f o'. fst o' = fst f \<and> z_spec (snd f) (get_prop kvs (fst f)) = Some (snd o')"
  obtain kvs out where w0: "w = JObj (filter present out)"
    and l: "list_all2 (?P kvs)
      [(''version'', ZLiteral (JNum 1)), (''name'', ZString [ZMinLen 1, ZMaxLen 120]), (''asset'', ZString []),
       (''trigger'', triggerSchema), (''conditions'', ZDefault (JArr []) (ZArray 0 conditionSchema)),
       (''actions'', ZArray 1 actionSchema)] out"
    using assms unfolding policyObject_def z_spec_object by blast
  obtain ver nm ast t cs acs where out: "out = [(''version'', ver), (''name'', nm),
        (''asset'', ast), (''trigger'', t), (''conditions'', cs), (''actions'', acs)]"
    and t: "z_spec triggerSchema (get_prop kvs ''trigger'') = Some t"
    and fields: "z_spec (ZLiteral (JNum 1)) (get_prop kvs ''version'') = Some ver"
      "z_spec (ZString [ZMinLen 1, ZMaxLen 120]) (get_prop kvs ''name'') = Some nm"
      "z_spec (ZString []) (get_prop kvs ''asset'') = Some ast"
      "z_spec (ZDefault (JArr []) (ZArray 0 conditionSchema)) (get_prop kvs ''conditions'') = Some cs"
      "z_spec (ZArray 1 actionSchema) (get_prop kvs ''actions'') = Some acs"
    using l unfolding list_all2_Cons1 list_all2_Nil fst_conv snd_conv by (metis prod.collapse)
  obtain n where n: "nm = JStr n" "1 \<le> js_length n" "js_length n \<le> 120"
    using fields(2) by (auto simp: z_spec_str)
  obtain a where a: "ast = JStr a" using fields(3) by (auto simp: z_spec_str)
  obtain vs ws where as: "1 \<le> length vs" "list_all2 (\<lambda>x y. z_spec actionSchema x = Some y) vs ws" "acs = JArr ws"
    using fields(5) by (auto simp: z_spec_array)
  have ver: "ver = JNum 1" using fields(1) by (simp add: z_spec_lit)
  have cs: "if get_prop kvs ''conditions'' = JUndef then cs = JArr []
       else z_spec (ZArray 0 conditionSchema) (get_prop kvs ''conditions'') = Some cs"
    using fields(4) by (simp add: z_spec_default)
  note w = w0 [unfolded out n(1) a as(3) ver]
  obtain tr where tr: "trigger_of t = Some tr" "wf_trigger tr" using trigger_sound [OF t] by blast
  obtain cvs conds where c: "cs = JArr cvs" "traverse condition_of cvs = Some conds" "list_all wf_condition conds"
  proof (cases "get_prop kvs ''conditions'' = JUndef")
    case True
    with cs that [of "[]" "[]"] show ?thesis by simp
  next
    case False
    with cs obtain xs ys where ys: "cs = JArr ys" "list_all2 (\<lambda>x y. z_spec conditionSchema x = Some y) xs ys"
      by (auto simp: z_spec_array)
    then obtain ts where "traverse condition_of ys = Some ts" "list_all wf_condition ts"
      using traverse_wf [OF ys(2), of condition_of wf_condition] condition_sound by blast
    with that [OF ys(1)] show ?thesis by blast
  qed
  obtain acts where acts: "traverse action_of ws = Some acts" "list_all shaped_action acts" "length acts = length vs"
    using traverse_wf [OF as(2), of action_of shaped_action] action_sound by blast
  have "t \<noteq> JUndef" using tr(1) by (auto simp: trigger_of_def obj_of_def)
  then have o': "obj_of w = Some [(''version'', JNum 1), (''name'', JStr n),
        (''asset'', JStr a), (''trigger'', t), (''conditions'', JArr cvs), (''actions'', JArr ws)]"
    by (simp add: w c(1) present_def obj_of_def)
  have "ir_of w = Some \<lparr> ir_name = n, ir_asset = a, ir_trigger = tr, ir_conditions = conds, ir_actions = acts \<rparr>"
    unfolding ir_of_def o' using tr(1) c(2) acts(1) by (simp add: str_of_def arr_of_def)
  moreover have "acts \<noteq> []" using acts(3) as(1) by auto
  ultimately show ?thesis using n(2,3) tr(2) c(3) acts(2) by auto
qed

text \<open>Every parsed policy is well formed.\<close>

lemma schema_sound:
  assumes "z_spec policyIrSchema v = Some w"
  shows "\<exists>ir. ir_of w = Some ir \<and> wf_ir ir"
proof -
  let ?f = "\<lambda>w. case ir_of w of None \<Rightarrow> [] | Some ir \<Rightarrow> superRefine ir"
  have w: "z_spec policyObject v = Some w" "?f w = []"
    using assms by (auto simp: policyIrSchema_def z_spec.simps split: option.splits if_splits)
  from policy_object_sound [OF w(1)] obtain ir where ir: "ir_of w = Some ir" "1 \<le> js_length (ir_name ir)"
    "js_length (ir_name ir) \<le> 120" "wf_trigger (ir_trigger ir)" "list_all wf_condition (ir_conditions ir)"
    "ir_actions ir \<noteq> []" "list_all shaped_action (ir_actions ir)" by blast
  from w(2) ir(1) have "superRefine ir = []" by simp
  then have "wf_action a" if "a \<in> set (ir_actions ir)" for a
    using that ir(7) by (cases a) (fastforce simp: superRefine_Nil wf_shares_def list_all_iff)
  moreover have "ir_name ir \<noteq> []" using ir(2) by auto
  ultimately show ?thesis using ir by (auto simp: wf_ir_def list_all_iff)
qed

section \<open>Every well-formed policy is accepted\<close>

fun trigger_js :: "trigger \<Rightarrow> jsv" where
  "trigger_js (ManualHeartbeat i d) = JObj [(''kind'', JStr ''manualHeartbeat''),
     (''intervalSeconds'', JNum (of_int i)), (''demoMode'', JBool d)]"
| "trigger_js (ChainProofOfLife i s d m) = JObj [(''kind'', JStr ''chainProofOfLife''),
     (''intervalSeconds'', JNum (of_int i)), (''sourceId'', JStr s), (''destinationAddress'', JStr d),
     (''minimumAmount'', JStr m)]"
| "trigger_js (TimestampTrigger t) = JObj [(''kind'', JStr ''timestamp''), (''executeAfter'', JNum (of_int t))]"

fun condition_js :: "condition \<Rightarrow> jsv" where
  "condition_js (PriceAbove f m) = JObj [(''kind'', JStr ''priceAbove''), (''feedId'', JStr f), (''minimumUsd'', JNum m)]"

definition share_js :: "share \<Rightarrow> jsv" where
  "share_js r = JObj ([(''address'', JStr (address r)), (''shareBps'', JNum (of_int (shareBps r)))] @
     (case label r of None \<Rightarrow> [] | Some l \<Rightarrow> [(''label'', JStr l)]))"

fun action_js :: "action \<Rightarrow> jsv" where
  "action_js (SplitTransfer rs) = JObj [(''kind'', JStr ''splitTransfer''), (''recipients'', JArr (map share_js rs))]"

definition ir_js :: "policy_ir \<Rightarrow> jsv" where
  "ir_js ir = JObj [(''version'', JNum 1), (''name'', JStr (ir_name ir)), (''asset'', JStr (ir_asset ir)),
     (''trigger'', trigger_js (ir_trigger ir)), (''conditions'', JArr (map condition_js (ir_conditions ir))),
     (''actions'', JArr (map action_js (ir_actions ir)))]"

lemma trigger_js_spec:
  "wf_trigger t \<Longrightarrow> z_spec triggerSchema (trigger_js t) = Some (trigger_js t) \<and> trigger_of (trigger_js t) = Some t"
  by (cases t) (simp_all add: triggerSchema_def manualHeartbeatTrigger_def chainProofOfLifeTrigger_def
      timestampTrigger_def amountSchema_def z_spec.simps present_def trigger_of_def js_readers)

lemma condition_js_spec:
  "wf_condition c \<Longrightarrow> z_spec conditionSchema (condition_js c) = Some (condition_js c) \<and> condition_of (condition_js c) = Some c"
  by (cases c) (simp add: conditionSchema_def priceAboveCondition_def z_spec.simps present_def condition_of_def js_readers)

lemma share_js_spec:
  "wf_share r \<Longrightarrow> z_spec recipientSchema (share_js r) = Some (share_js r) \<and> share_of (share_js r) = Some r"
  by (cases "label r") (simp_all add: recipientSchema_def addressSchema_def share_js_def wf_share_def z_spec.simps
      present_def share_of_def js_readers)

lemma action_js_spec:
  "wf_action a \<Longrightarrow> z_spec actionSchema (action_js a) = Some (action_js a) \<and> action_of (action_js a) = Some a"
proof (cases a)
  case (SplitTransfer rs)
  assume "wf_action a"
  then have r: "\<And>r. r \<in> set rs \<Longrightarrow> wf_share r" "rs \<noteq> []"
    by (simp_all add: SplitTransfer wf_shares_def list_all_iff)
  have "traverse (z_spec recipientSchema) (map share_js rs) = Some (map share_js rs)"
    "traverse share_of (map share_js rs) = Some rs"
    using traverse_map [of rs "z_spec recipientSchema" share_js share_js]
      traverse_map [of rs share_of share_js id] r(1) share_js_spec by auto
  with r(2) show ?thesis
    by (simp add: SplitTransfer actionSchema_def splitTransferAction_def z_spec.simps present_def
        action_of_def js_readers Suc_le_eq)
qed

lemma schema_complete:
  assumes "wf_ir ir"
  shows "z_spec policyIrSchema (ir_js ir) = Some (ir_js ir) \<and> ir_of (ir_js ir) = Some ir"
proof -
  have wf: "\<And>c. c \<in> set (ir_conditions ir) \<Longrightarrow> wf_condition c" "\<And>a. a \<in> set (ir_actions ir) \<Longrightarrow> wf_action a"
    "wf_trigger (ir_trigger ir)"
    using assms by (simp_all add: wf_ir_def list_all_iff)
  have c: "traverse (z_spec conditionSchema) (map condition_js (ir_conditions ir)) = Some (map condition_js (ir_conditions ir))"
    "traverse condition_of (map condition_js (ir_conditions ir)) = Some (ir_conditions ir)"
    using traverse_map [of "ir_conditions ir" "z_spec conditionSchema" condition_js condition_js]
      traverse_map [of "ir_conditions ir" condition_of condition_js id] wf(1) condition_js_spec by auto
  have a: "traverse (z_spec actionSchema) (map action_js (ir_actions ir)) = Some (map action_js (ir_actions ir))"
    "traverse action_of (map action_js (ir_actions ir)) = Some (ir_actions ir)"
    using traverse_map [of "ir_actions ir" "z_spec actionSchema" action_js action_js]
      traverse_map [of "ir_actions ir" action_of action_js id] wf(2) action_js_spec by auto
  have t: "trigger_js (ir_trigger ir) \<noteq> JUndef" by (cases "ir_trigger ir") simp_all
  have o': "ir_of (ir_js ir) = Some ir"
    using c(2) a(2) trigger_js_spec [OF wf(3)] by (simp add: ir_js_def ir_of_def js_readers)
  have "z_spec policyObject (ir_js ir) = Some (ir_js ir)"
    using c(1) a(1) trigger_js_spec [OF wf(3)] assms t
    by (simp add: ir_js_def policyObject_def z_spec.simps present_def wf_ir_def Suc_le_eq)
  moreover have "superRefine ir = []"
    unfolding superRefine_Nil by (auto dest!: wf(2) simp: wf_shares_def split: action.split)
  ultimately show ?thesis using o' by (simp add: policyIrSchema_def z_spec.simps)
qed

end
