(* ===== verification/Abi.thy ===== *)
theory Abi
  imports ExtEncoding JsValue
begin

text \<open>
  The contract ABI encoding, which Solidity's \<open>abi.encode\<close> is defined by, and the
  functions of viem the source calls. viem is a third-party package: its functions
  are the fields of the record \<open>viem\<close>, arguments of every definition that uses
  them, and \<open>viem_documented\<close> states what its documentation promises (encoding by
  the ABI specification, exceptions on values that do not fit their type, EIP-55
  checksums on addresses of mixed case). \<open>keccak256\<close> is arbitrary up to its length.
\<close>

section \<open>Big-endian integers\<close>

fun be_bytes :: "nat \<Rightarrow> nat \<Rightarrow> bytes" where
  "be_bytes 0 n = []"
| "be_bytes (Suc k) n = be_bytes k (n div 256) @ [of_nat (n mod 256)]"

definition be_nat :: "bytes \<Rightarrow> nat" where
  "be_nat bs = foldl (\<lambda>a b. 256 * a + unat b) 0 bs"

lemma length_be_bytes [simp]: "length (be_bytes k n) = k"
  by (induction k arbitrary: n) auto

lemma be_nat_snoc [simp]: "be_nat (bs @ [b]) = 256 * be_nat bs + unat b"
  by (simp add: be_nat_def)

lemma be_nat_be_bytes: "n < 256 ^ k \<Longrightarrow> be_nat (be_bytes k n) = n"
proof (induction k arbitrary: n)
  case (Suc k)
  then have "n div 256 < 256 ^ k" by (simp add: less_mult_imp_div_less mult.commute)
  moreover have "unat (of_nat (n mod 256) :: 8 word) = n mod 256"
    by (simp add: unat_of_nat)
  ultimately show ?case using Suc.IH by simp
qed (simp add: be_nat_def)

lemma be_bytes_inj:
  "m < 256 ^ k \<Longrightarrow> n < 256 ^ k \<Longrightarrow> be_bytes k m = be_bytes k n \<longleftrightarrow> m = n"
  by (metis be_nat_be_bytes)

lemma be_nat_less: "be_nat bs < 256 ^ length bs"
proof (induction bs rule: rev_induct)
  case (snoc b bs)
  then have "be_nat bs + 1 \<le> 256 ^ length bs" by simp
  then have "256 * (be_nat bs + 1) \<le> 256 * 256 ^ length bs" by (rule mult_le_mono2)
  then show ?case using unat_byte_less [of b] by simp
qed (simp add: be_nat_def)

lemma be_bytes_be_nat: "be_bytes (length bs) (be_nat bs) = bs"
proof (induction bs rule: rev_induct)
  case (snoc b bs)
  have "(256 * be_nat bs + unat b) div 256 = be_nat bs" "(256 * be_nat bs + unat b) mod 256 = unat b"
    using unat_byte_less [of b] by simp_all
  with snoc show ?case by simp
qed simp

definition u256_bytes :: "256 word \<Rightarrow> bytes" where
  "u256_bytes w = be_bytes 32 (unat w)"

definition address_bytes :: "160 word \<Rightarrow> bytes" where
  "address_bytes a = be_bytes 20 (unat a)"

lemma length_u256_bytes [simp]: "length (u256_bytes w) = 32"
  by (simp add: u256_bytes_def)

lemma length_address_bytes [simp]: "length (address_bytes a) = 20"
  by (simp add: address_bytes_def)

lemma u256_bytes_inj [simp]: "u256_bytes v = u256_bytes w \<longleftrightarrow> v = w"
proof -
  have "unat v < 256 ^ 32" "unat w < 256 ^ 32" using unsigned_less [of v] unsigned_less [of w] by simp_all
  then show ?thesis by (simp add: u256_bytes_def be_bytes_inj word_unat_eq_iff)
qed

lemma address_bytes_inj [simp]: "address_bytes v = address_bytes w \<longleftrightarrow> v = w"
proof -
  have "unat v < 256 ^ 20" "unat w < 256 ^ 20" using unsigned_less [of v] unsigned_less [of w] by simp_all
  then show ?thesis by (simp add: address_bytes_def be_bytes_inj word_unat_eq_iff)
qed

section \<open>The encoding\<close>

datatype abi_val =
    VUint "256 word"
  | VAddress "160 word"
  | VBool bool
  | VBytes32 bytes
  | VBytes bytes
  | VTuple "abi_val list"
  | VArray "abi_val list"

fun abi_dynamic :: "abi_val \<Rightarrow> bool" where
  "abi_dynamic (VBytes b) = True"
| "abi_dynamic (VArray vs) = True"
| "abi_dynamic (VTuple vs) = list_ex abi_dynamic vs"
| "abi_dynamic v = False"

text \<open>
  A sequence of parts: the heads first, where a dynamic part leaves the offset of
  its tail from the start of the sequence, then the tails.
\<close>

definition heads_length :: "(bool \<times> bytes) list \<Rightarrow> nat" where
  "heads_length ps = sum_list (map (\<lambda>(d, b). if d then 32 else length b) ps)"

fun abi_heads :: "nat \<Rightarrow> (bool \<times> bytes) list \<Rightarrow> bytes" where
  "abi_heads off [] = []"
| "abi_heads off ((d, b) # ps) =
     (if d then be_bytes 32 off @ abi_heads (off + length b) ps else b @ abi_heads off ps)"

definition abi_seq :: "(bool \<times> bytes) list \<Rightarrow> bytes" where
  "abi_seq ps = abi_heads (heads_length ps) ps @ concat (map snd (filter fst ps))"

definition pad32 :: "bytes \<Rightarrow> bytes" where
  "pad32 b = b @ replicate ((32 - length b mod 32) mod 32) 0"

fun abi_enc :: "abi_val \<Rightarrow> bytes" where
  "abi_enc (VUint w) = u256_bytes w"
| "abi_enc (VAddress a) = replicate 12 0 @ address_bytes a"
| "abi_enc (VBool b) = u256_bytes (if b then 1 else 0)"
| "abi_enc (VBytes32 b) = b"
| "abi_enc (VBytes b) = be_bytes 32 (length b) @ pad32 b"
| "abi_enc (VTuple vs) = abi_seq (map (\<lambda>v. (abi_dynamic v, abi_enc v)) vs)"
| "abi_enc (VArray vs) = be_bytes 32 (length vs) @ abi_seq (map (\<lambda>v. (abi_dynamic v, abi_enc v)) vs)"

text \<open>\<open>abi.encode(args)\<close>.\<close>

definition abi_encode :: "abi_val list \<Rightarrow> bytes" where
  "abi_encode vs = abi_enc (VTuple vs)"

section \<open>The commitment preimage\<close>

text \<open>\<open>abi.encode(Distribution[], bytes32)\<close> written out, as the three implementations need it.\<close>

definition dist_val :: "160 word \<times> 256 word \<Rightarrow> abi_val" where
  "dist_val d = VTuple [VAddress (fst d), VUint (snd d)]"

definition dist_bytes :: "160 word \<times> 256 word \<Rightarrow> bytes" where
  "dist_bytes d = replicate 12 0 @ address_bytes (fst d) @ u256_bytes (snd d)"

definition commitment_preimage :: "(160 word \<times> 256 word) list \<Rightarrow> bytes \<Rightarrow> bytes" where
  "commitment_preimage ds salt = abi_encode [VArray (map dist_val ds), VBytes32 salt]"

lemma dist_val_enc [simp]: "abi_enc (dist_val d) = dist_bytes d" "\<not> abi_dynamic (dist_val d)"
  by (simp_all add: dist_val_def dist_bytes_def abi_seq_def)

lemma length_dist_bytes [simp]: "length (dist_bytes d) = 64"
  by (simp add: dist_bytes_def)

lemma abi_heads_static: "abi_heads off (map (\<lambda>x. (False, f x)) xs) = concat (map f xs)"
  by (induction xs) auto

lemma commitment_preimage_eq:
  assumes "length salt = 32"
  shows "commitment_preimage ds salt =
    be_bytes 32 64 @ salt @ be_bytes 32 (length ds) @ concat (map dist_bytes ds)"
proof -
  have "abi_seq (map (\<lambda>d. (False, dist_bytes d)) ds) = concat (map dist_bytes ds)"
    by (simp add: abi_seq_def abi_heads_static filter_map comp_def)
  then show ?thesis
    using assms by (simp add: commitment_preimage_def abi_encode_def abi_seq_def heads_length_def
        comp_def del: be_bytes.simps)
qed

lemma concat_dist_inj:
  "length ds = length es \<Longrightarrow> concat (map dist_bytes ds) = concat (map dist_bytes es) \<Longrightarrow> ds = es"
proof (induction ds es rule: list_induct2)
  case (Cons d ds e es)
  then have "dist_bytes d = dist_bytes e" "concat (map dist_bytes ds) = concat (map dist_bytes es)"
    by simp_all
  moreover from this(1) have "d = e" by (simp add: dist_bytes_def prod_eq_iff)
  ultimately show ?case using Cons.IH by simp
qed simp

text \<open>The preimage determines the distributions and the salt.\<close>

lemma commitment_preimage_inj:
  assumes "length salt = 32" "length salt' = 32"
    and "commitment_preimage ds salt = commitment_preimage es salt'"
  shows "ds = es \<and> salt = salt'"
proof -
  have e: "salt @ be_bytes 32 (length ds) @ concat (map dist_bytes ds) =
      salt' @ be_bytes 32 (length es) @ concat (map dist_bytes es)"
    using assms(3) by (simp add: commitment_preimage_eq assms(1,2) del: be_bytes.simps)
  then have s: "salt = salt'" and r: "be_bytes 32 (length ds) @ concat (map dist_bytes ds) =
      be_bytes 32 (length es) @ concat (map dist_bytes es)"
    using assms(1,2) by (simp_all del: be_bytes.simps)
  from r have c: "concat (map dist_bytes ds) = concat (map dist_bytes es)"
    by (simp del: be_bytes.simps)
  then have "length (concat (map dist_bytes ds)) = length (concat (map dist_bytes es))" by simp
  then have "length ds = length es" by (simp add: length_concat comp_def sum_list_triv)
  with c s show ?thesis by (simp add: concat_dist_inj)
qed

section \<open>viem\<close>

datatype abi_type =
    TAddress
  | TUint nat
  | TBool
  | TBytes32
  | TBytes
  | TTuple "(string \<times> abi_type) list"
  | TArray abi_type

record viem =
  keccak256 :: "bytes \<Rightarrow> bytes"
  encodeAbiParameters :: "abi_type list \<Rightarrow> jsv list \<Rightarrow> js_error + bytes"
  encodePacked_string_address :: "string \<Rightarrow> string \<Rightarrow> js_error + bytes"

text \<open>EIP-55: a letter is upper case where the hash of the lower-case digits has a nibble of at least 8.\<close>

definition nibble :: "bytes \<Rightarrow> nat \<Rightarrow> nat" where
  "nibble h i = (if even i then unat (h ! (i div 2)) div 16 else unat (h ! (i div 2)) mod 16)"

definition checksum_address :: "(bytes \<Rightarrow> bytes) \<Rightarrow> string \<Rightarrow> string" where
  "checksum_address keccak s =
     (let digits = lower_case (drop 2 s); h = keccak (utf8_bytes digits) in
      ''0x'' @ map (\<lambda>i. if 8 \<le> nibble h i then to_upper (digits ! i) else digits ! i) [0..<length digits])"

definition is_address :: "(bytes \<Rightarrow> bytes) \<Rightarrow> string \<Rightarrow> bool" where
  "is_address keccak s = (re_address s \<and> (lower_case s = s \<or> checksum_address keccak s = s))"

text \<open>A \<open>0x\<close>-prefixed hex string as bytes, and an address as its number.\<close>

definition hex_value :: "string \<Rightarrow> bytes option" where
  "hex_value s = (if starts_with ''0x'' s then hex_bytes (drop 2 s) else None)"

definition address_value :: "string \<Rightarrow> 160 word option" where
  "address_value s =
     (if re_address s then map_option (\<lambda>b. of_nat (be_nat b)) (hex_bytes (drop 2 s)) else None)"

text \<open>The value a JavaScript argument stands for at an ABI type; \<open>None\<close> when it does not fit.\<close>

fun abi_value :: "(bytes \<Rightarrow> bytes) \<Rightarrow> abi_type \<Rightarrow> jsv \<Rightarrow> abi_val option" where
  "abi_value keccak TAddress (JStr s) =
     (if is_address keccak s then map_option VAddress (address_value s) else None)"
| "abi_value keccak (TUint n) (JBig i) = (if 0 \<le> i \<and> i < 2 ^ n \<and> n \<le> 256 then Some (VUint (of_int i)) else None)"
| "abi_value keccak TBool (JBool b) = Some (VBool b)"
| "abi_value keccak TBytes32 (JStr s) =
     (case hex_value s of None \<Rightarrow> None | Some b \<Rightarrow> if length b = 32 then Some (VBytes32 b) else None)"
| "abi_value keccak TBytes (JStr s) = map_option VBytes (hex_value s)"
| "abi_value keccak (TTuple ts) (JObj kvs) =
     map_option VTuple (traverse (\<lambda>kt. abi_value keccak (snd kt) (get_prop kvs (fst kt))) ts)"
| "abi_value keccak (TArray t) (JArr vs) = map_option VArray (traverse (abi_value keccak t) vs)"
| "abi_value keccak t v = None"

definition abi_args :: "(bytes \<Rightarrow> bytes) \<Rightarrow> abi_type list \<Rightarrow> jsv list \<Rightarrow> abi_val list option" where
  "abi_args keccak ts vs =
     (if length ts = length vs then traverse (\<lambda>(t, v). abi_value keccak t v) (zip ts vs) else None)"

text \<open>An argument that holds, at an address position, a string that is not an address.\<close>

fun bad_address :: "(bytes \<Rightarrow> bytes) \<Rightarrow> abi_type \<Rightarrow> jsv \<Rightarrow> bool" where
  "bad_address keccak TAddress (JStr s) = (\<not> is_address keccak s)"
| "bad_address keccak (TTuple ts) (JObj kvs) =
     list_ex (\<lambda>kt. bad_address keccak (snd kt) (get_prop kvs (fst kt))) ts"
| "bad_address keccak (TArray t) (JArr vs) = list_ex (bad_address keccak t) vs"
| "bad_address keccak t v = False"

definition viem_documented :: "viem \<Rightarrow> bool" where
  "viem_documented V \<longleftrightarrow>
     (\<forall>b. length (keccak256 V b) = 32) \<and>
     (\<forall>ts vs ws. abi_args (keccak256 V) ts vs = Some ws \<longrightarrow> encodeAbiParameters V ts vs = Inr (abi_encode ws)) \<and>
     (\<forall>ts vs. length ts = length vs \<and> list_ex (\<lambda>(t, v). bad_address (keccak256 V) t v) (zip ts vs) \<longrightarrow>
        (\<exists>e. encodeAbiParameters V ts vs = Inl e)) \<and>
     (\<forall>t a w. is_address (keccak256 V) a \<and> address_value a = Some w \<longrightarrow>
        encodePacked_string_address V t a = Inr (utf8_bytes t @ address_bytes w)) \<and>
     (\<forall>t a. \<not> is_address (keccak256 V) a \<longrightarrow> (\<exists>e. encodePacked_string_address V t a = Inl e))"

text \<open>An instance: the documented functions themselves, over a stand-in hash.\<close>

definition demo_hash :: "bytes \<Rightarrow> bytes" where
  "demo_hash b = be_bytes 32 (foldl (\<lambda>a x. (31 * a + unat x + 7) mod 2 ^ 256) (length b) b)"

definition viem_with :: "(bytes \<Rightarrow> bytes) \<Rightarrow> viem" where
  "viem_with h =
     \<lparr> keccak256 = h,
       encodeAbiParameters = (\<lambda>ts vs. case abi_args h ts vs of
           None \<Rightarrow> Inl (Err ''InvalidAddressError'') | Some ws \<Rightarrow> Inr (abi_encode ws)),
       encodePacked_string_address = (\<lambda>t a. if is_address h a then
           (case address_value a of None \<Rightarrow> Inl (Err ''InvalidAddressError'')
            | Some w \<Rightarrow> Inr (utf8_bytes t @ address_bytes w))
         else Inl (Err ''InvalidAddressError'')) \<rparr>"

definition demo_viem :: viem where
  "demo_viem = viem_with demo_hash"

lemma traverse_None_iff: "traverse f xs = None \<longleftrightarrow> (\<exists>x \<in> set xs. f x = None)"
  by (induction xs) (auto split: option.splits)

lemma bad_address_None: "bad_address keccak t v \<Longrightarrow> abi_value keccak t v = None"
proof (induction keccak t v rule: bad_address.induct)
  case (2 keccak ts kvs)
  then obtain x where "x \<in> set ts" "abi_value keccak (snd x) (get_prop kvs (fst x)) = None"
    by (auto simp: list_ex_iff)
  then have "traverse (\<lambda>kt. abi_value keccak (snd kt) (get_prop kvs (fst kt))) ts = None"
    unfolding traverse_None_iff by blast
  then show ?case by simp
next
  case (3 keccak t vs)
  then obtain x where "x \<in> set vs" "abi_value keccak t x = None"
    by (auto simp: list_ex_iff)
  then have "traverse (abi_value keccak t) vs = None"
    unfolding traverse_None_iff by blast
  then show ?case by simp
qed auto

lemma viem_with_documented:
  assumes "\<And>b. length (h b) = 32"
  shows "viem_documented (viem_with h)"
proof -
  have "abi_args h ts vs = None"
    if "list_ex (\<lambda>(t, v). bad_address h t v) (zip ts vs)" for ts vs
  proof -
    from that obtain t v where tv: "(t, v) \<in> set (zip ts vs)" "bad_address h t v"
      by (auto simp: list_ex_iff)
    then have "(case (t, v) of (t, v) \<Rightarrow> abi_value h t v) = None"
      by (simp add: bad_address_None)
    with tv(1) have "traverse (\<lambda>(t, v). abi_value h t v) (zip ts vs) = None"
      unfolding traverse_None_iff by blast
    then show ?thesis by (simp add: abi_args_def)
  qed
  then show ?thesis
    using assms by (auto simp: viem_documented_def viem_with_def)
qed

lemma demo_viem_documented: "viem_documented demo_viem"
  unfolding demo_viem_def by (rule viem_with_documented) (simp add: demo_hash_def del: be_bytes.simps)

lemma viem_keccak_length: "viem_documented V \<Longrightarrow> length (keccak256 V b) = 32"
  by (simp add: viem_documented_def)

lemma viem_encode: "viem_documented V \<Longrightarrow> abi_args (keccak256 V) ts vs = Some ws \<Longrightarrow>
    encodeAbiParameters V ts vs = Inr (abi_encode ws)"
  by (simp add: viem_documented_def)

lemma viem_encode_bad: "viem_documented V \<Longrightarrow> length ts = length vs \<Longrightarrow>
    list_ex (\<lambda>(t, v). bad_address (keccak256 V) t v) (zip ts vs) \<Longrightarrow>
    \<exists>e. encodeAbiParameters V ts vs = Inl e"
  by (simp add: viem_documented_def)

lemma re_address_value: "re_address s \<longleftrightarrow> (\<exists>w. address_value s = Some w)"
proof
  assume s: "re_address s"
  then have "even (length (drop 2 s))" "list_all is_hex (drop 2 s)" by (simp_all add: re_address_def)
  then obtain b where "hex_bytes (drop 2 s) = Some b" using hex_bytes_Some_iff by blast
  with s show "\<exists>w. address_value s = Some w" by (simp add: address_value_def)
qed (auto simp: address_value_def split: if_splits)

text \<open>Two addresses with the same value differ in letter case only.\<close>

lemma address_value_eq_iff:
  assumes "address_value a = Some v" "address_value b = Some w"
  shows "v = w \<longleftrightarrow> lower_case a = lower_case b"
proof -
  obtain x y where x: "hex_bytes (drop 2 a) = Some x" "v = of_nat (be_nat x)"
    and y: "hex_bytes (drop 2 b) = Some y" "w = of_nat (be_nat y)"
    and re: "re_address a" "re_address b"
    using assms by (auto simp: address_value_def split: if_splits)
  have l: "length x = 20" "length y = 20"
    using length_hex_bytes [OF x(1)] length_hex_bytes [OF y(1)] re by (simp_all add: re_address_def)
  then have b: "be_nat x < 2 ^ 160" "be_nat y < 2 ^ 160"
    using be_nat_less [of x] be_nat_less [of y] by simp_all
  have "v = w \<longleftrightarrow> be_nat x = be_nat y"
  proof -
    have "unat v = be_nat x" "unat w = be_nat y" using b by (simp_all add: x(2) y(2) unat_of_nat)
    then show ?thesis by (metis word_unat_eq_iff)
  qed
  also have "\<dots> \<longleftrightarrow> x = y" using be_bytes_be_nat [of x] be_bytes_be_nat [of y] l by metis
  also have "\<dots> \<longleftrightarrow> lower_case (drop 2 a) = lower_case (drop 2 b)"
    using hex_bytes_eq_lower_case [OF x(1) y(1)] by simp
  also have "\<dots> \<longleftrightarrow> lower_case a = lower_case b"
  proof -
    obtain a' b' where "a = ''0x'' @ a'" "b = ''0x'' @ b'"
      using re by (auto simp: re_address_def starts_with_iff)
    then show ?thesis by simp
  qed
  finally show ?thesis .
qed

end
