(* ===== verification/Assets.thy ===== *)
theory Assets
  imports Abi
begin

text \<open>
  The asset registry (packages/policy/src/assets.ts) and the payment reference
  (packages/policy/src/chain-payments.ts). \<open>ASSETS\<close> is an object literal, so its
  lookup also finds the members every object inherits from \<open>Object.prototype\<close>.
\<close>

section \<open>Registry\<close>

datatype address_format = Xrpl | Btc | Doge

record supported_asset =
  a_symbol :: string
  a_name :: string
  assetManagerKey :: string
  onChainSymbol :: "string option"
  decimals :: int
  fdcSourceId :: string
  ftsoFeedId :: string
  addressFormat :: address_format
  minimumHeartbeat :: int
  live :: bool

definition ASSETS :: "(string \<times> supported_asset) list" where
  "ASSETS =
     [(''FXRP'', \<lparr> a_symbol = ''FXRP'', a_name = ''XRP'', assetManagerKey = ''AssetManagerFXRP'',
        onChainSymbol = Some ''FTestXRP'', decimals = 6, fdcSourceId = ''testXRP'',
        ftsoFeedId = ''0x015852502f55534400000000000000000000000000'', addressFormat = Xrpl,
        minimumHeartbeat = 100000, live = True \<rparr>),
      (''FBTC'', \<lparr> a_symbol = ''FBTC'', a_name = ''Bitcoin'', assetManagerKey = ''AssetManagerFBTC'',
        onChainSymbol = None, decimals = 8, fdcSourceId = ''testBTC'',
        ftsoFeedId = ''0x014254432f55534400000000000000000000000000'', addressFormat = Btc,
        minimumHeartbeat = 1000, live = False \<rparr>)]"

text \<open>The names every object inherits.\<close>

definition object_prototype :: "string list" where
  "object_prototype =
     [''constructor'', ''__defineGetter__'', ''__defineSetter__'', ''hasOwnProperty'',
      ''__lookupGetter__'', ''__lookupSetter__'', ''isPrototypeOf'', ''propertyIsEnumerable'',
      ''toString'', ''valueOf'', ''__proto__'', ''toLocaleString'']"

text \<open>What an index into \<open>ASSETS\<close> gives: an entry, an inherited member, or \<open>undefined\<close>.\<close>

datatype asset_lookup = Asset supported_asset | Inherited string

definition asset_index :: "string \<Rightarrow> asset_lookup option" where
  "asset_index symbol =
     (case map_of ASSETS symbol of Some a \<Rightarrow> Some (Asset a)
      | None \<Rightarrow> if symbol \<in> set object_prototype then Some (Inherited symbol) else None)"

definition getAsset :: "string \<Rightarrow> js_error + asset_lookup" where
  "getAsset symbol =
     (case asset_index symbol of
        None \<Rightarrow> Inl (Err (''Unknown asset '' @ [CHR 0x22] @ symbol @ [CHR 0x22] @ ''. Known: '' @
                  join_with '', '' (map fst ASSETS) @ ''. '' @
                  ''Adding an asset should be one entry in assets.ts and nothing else.''))
      | Some a \<Rightarrow> Inr a)"

definition liveAssets :: "supported_asset list" where
  "liveAssets = filter live (map snd ASSETS)"

lemma assets_keyed: "map_of ASSETS s = Some a \<Longrightarrow> a_symbol a = s"
  by (auto simp: ASSETS_def split: if_splits)

lemma getAsset_Inr_iff:
  "getAsset s = Inr r \<longleftrightarrow>
     (\<exists>a. r = Asset a \<and> (s, a) \<in> set ASSETS) \<or>
     (r = Inherited s \<and> s \<in> set object_prototype)"
proof -
  have d: "distinct (map fst ASSETS)" by (simp add: ASSETS_def)
  have o: "s \<in> set object_prototype \<Longrightarrow> map_of ASSETS s = None"
    by (auto simp: object_prototype_def ASSETS_def)
  show ?thesis
    using d o map_of_eq_Some_iff [OF d, of s]
    by (cases "map_of ASSETS s") (force simp: getAsset_def asset_index_def)+
qed

lemma getAsset_live: "a \<in> set liveAssets \<Longrightarrow> getAsset (a_symbol a) = Inr (Asset a)"
  by (auto simp: liveAssets_def ASSETS_def getAsset_def asset_index_def)

section \<open>Payment reference\<close>

definition POLICY_REFERENCE_TAG :: string where
  "POLICY_REFERENCE_TAG = ''flare-studio.policy-reference.v1''"

definition policyReference :: "viem \<Rightarrow> string \<Rightarrow> js_error + string" where
  "policyReference V policy =
     and_then (encodePacked_string_address V POLICY_REFERENCE_TAG policy)
       (\<lambda>b. Inr (''0x'' @ bytes_hex (keccak256 V b)))"

definition xrplMemoData :: "string \<Rightarrow> string" where
  "xrplMemoData reference = upper_case (drop 2 reference)"

text \<open>A memo carries the reference's 32 bytes.\<close>

lemma policyReference_Inr:
  assumes "viem_documented V" "is_address (keccak256 V) p" "address_value p = Some w"
  shows "policyReference V p =
    Inr (''0x'' @ bytes_hex (keccak256 V (utf8_bytes POLICY_REFERENCE_TAG @ address_bytes w)))"
  using assms by (simp add: policyReference_def viem_documented_def)

lemma xrplMemoData_bytes: "hex_bytes (xrplMemoData (''0x'' @ bytes_hex b)) = Some b"
  by (simp add: xrplMemoData_def)

end
