(* ===== verification/Commitment.thy ===== *)
theory Commitment
  imports Abi Json "HOL-Library.List_Lexorder" "HOL-Library.Multiset"
begin

text \<open>
  The commitment and the canonical JSON of the encrypted payload
  (packages/policy/src/commitment.ts).
\<close>

section \<open>Operations\<close>

record distribution =
  recipient :: string
  amount :: int

definition distribution_params :: "abi_type list" where
  "distribution_params =
     [TArray (TTuple [(''recipient'', TAddress), (''amount'', TUint 256)]), TBytes32]"

definition distribution_js :: "distribution \<Rightarrow> jsv" where
  "distribution_js d = JObj [(''recipient'', JStr (recipient d)), (''amount'', JBig (amount d))]"

definition computeCommitment :: "viem \<Rightarrow> distribution list \<Rightarrow> string \<Rightarrow> js_error + string" where
  "computeCommitment V ds salt =
     and_then (encodeAbiParameters V distribution_params [JArr (map distribution_js ds), JStr salt])
       (\<lambda>b. Inr (''0x'' @ bytes_hex (keccak256 V b)))"

fun sortKeys :: "jsv \<Rightarrow> jsv" where
  "sortKeys (JBig i) = JStr (int_str i)"
| "sortKeys (JArr vs) = JArr (map sortKeys vs)"
| "sortKeys (JObj kvs) = JObj (from_entries (sort_key fst (map (\<lambda>kv. (fst kv, sortKeys (snd kv))) kvs)))"
| "sortKeys v = v"

definition canonicalize :: "jsv \<Rightarrow> string option" where
  "canonicalize v = json_text (sortKeys v)"

section \<open>The commitment\<close>

text \<open>A distribution as the chain sees it.\<close>

definition chain_distribution :: "distribution \<Rightarrow> (160 word \<times> 256 word) option" where
  "chain_distribution d =
     (case address_value (recipient d) of None \<Rightarrow> None
      | Some w \<Rightarrow> if 0 \<le> amount d \<and> amount d < 2 ^ 256 then Some (w, of_int (amount d)) else None)"

lemma abi_value_distribution:
  assumes "is_address keccak (recipient d)" "chain_distribution d = Some c"
  shows "abi_value keccak (TTuple [(''recipient'', TAddress), (''amount'', TUint 256)]) (distribution_js d) =
    Some (dist_val c)"
  using assms by (auto simp: chain_distribution_def distribution_js_def dist_val_def get_prop_def
      split: option.splits if_splits)

text \<open>The commitment is the hash of the preimage the other two languages build.\<close>

lemma computeCommitment_Inr:
  assumes "viem_documented V" "\<forall>d \<in> set ds. is_address (keccak256 V) (recipient d)"
    and "traverse chain_distribution ds = Some cs" "hex_value salt = Some s" "length s = 32"
  shows "computeCommitment V ds salt = Inr (''0x'' @ bytes_hex (keccak256 V (commitment_preimage cs s)))"
proof -
  have "list_all2 (\<lambda>d c. chain_distribution d = Some c) ds cs"
    using assms(3) by (simp add: traverse_Some_iff)
  then have "list_all2 (\<lambda>d c. abi_value (keccak256 V)
      (TTuple [(''recipient'', TAddress), (''amount'', TUint 256)]) d = Some c)
      (map distribution_js ds) (map dist_val cs)"
    using assms(2) by (auto simp: list_all2_map1 list_all2_map2 list_all2_conv_all_nth
        intro!: abi_value_distribution)
  then have "traverse (abi_value (keccak256 V) (TTuple [(''recipient'', TAddress), (''amount'', TUint 256)]))
      (map distribution_js ds) = Some (map dist_val cs)"
    by (simp only: traverse_Some_iff)
  then have "abi_args (keccak256 V) distribution_params [JArr (map distribution_js ds), JStr salt] =
      Some [VArray (map dist_val cs), VBytes32 s]"
    using assms(4,5) by (simp add: abi_args_def distribution_params_def del: abi_value.simps(6))
      
  from viem_encode [OF assms(1) this] show ?thesis
    by (simp add: computeCommitment_def commitment_preimage_def)
qed

lemma computeCommitment_bad_address:
  assumes "viem_documented V" "d \<in> set ds" "\<not> is_address (keccak256 V) (recipient d)"
  shows "\<exists>e. computeCommitment V ds salt = Inl e"
proof -
  have "bad_address (keccak256 V) (TTuple [(''recipient'', TAddress), (''amount'', TUint 256)]) (distribution_js d)"
    using assms(3) by (simp add: distribution_js_def get_prop_def)
  then have "list_ex (\<lambda>(t, v). bad_address (keccak256 V) t v)
      (zip distribution_params [JArr (map distribution_js ds), JStr salt])"
    using assms(2) by (auto simp: distribution_params_def list_ex_iff simp del: bad_address.simps(2))
  from viem_encode_bad [OF assms(1) _ this] show ?thesis
    by (auto simp: computeCommitment_def distribution_params_def)
qed

section \<open>Canonical JSON\<close>

lemma from_entries_sorted:
  "distinct (map fst kvs) \<Longrightarrow> from_entries (sort_key fst kvs) = sort_key fst kvs"
proof (rule from_entries_distinct)
  assume "distinct (map fst kvs)"
  moreover have "mset (map fst (sort_key fst kvs)) = mset (map fst kvs)" by simp
  ultimately show "distinct (map fst (sort_key fst kvs))" by (metis mset_eq_imp_distinct_iff)
qed

text \<open>Objects with the same own properties, in whatever order, have the same canonical text.\<close>

lemma sort_key_unique:
  assumes "distinct (map fst xs)" "set xs = set ys" "distinct (map fst ys)"
  shows "sort_key fst xs = (sort_key fst ys :: (string \<times> jsv) list)"
proof (rule sort_key_inj_key_eq)
  have "distinct xs" "distinct ys" using assms by (simp_all add: distinct_map)
  then show "mset xs = mset (sort_key fst ys)"
    using assms(2) by (simp add: set_eq_iff_mset_eq_distinct)
qed (use assms(1) in \<open>simp_all add: distinct_map\<close>)

lemma canonicalize_order:
  assumes "distinct (map fst kvs)" "set kvs = set kvs'" "distinct (map fst kvs')"
  shows "canonicalize (JObj kvs) = canonicalize (JObj kvs')"
proof -
  let ?f = "\<lambda>kv. (fst kv, sortKeys (snd kv))"
  have "sort_key fst (map ?f kvs) = sort_key fst (map ?f kvs')"
    by (rule sort_key_unique) (use assms in \<open>simp_all add: comp_def\<close>)
  then show ?thesis by (simp only: canonicalize_def sortKeys.simps)
qed

text \<open>The text reads back as the value with sorted keys, and reading then printing is the identity.\<close>

lemma canonicalize_parse:
  assumes "plain (sortKeys v)" "canonicalize v = Some t"
  shows "json_parse t = Some (sortKeys v)"
  using json_parse_text assms by (simp add: canonicalize_def)

end
