(* ===== verification/Splitting.thy ===== *)
theory Splitting
  imports Prelude
begin

text \<open>
  The interface of the code that splits a balance by basis points. The compiler and
  the contract do it, each with its own loop, and give every recipient the floor of its
  share and the last one what is left over. A \<open>splitter\<close> is any
  such function; that the parts add up to the balance, that each part is within the
  remainder of its exact share, and that two splitters agree are proved here once.
\<close>

definition floor_share :: "int \<Rightarrow> int \<Rightarrow> int" where
  "floor_share amt bps = amt * bps div 10000"

definition nonneg_split :: "int \<Rightarrow> int list \<Rightarrow> bool" where
  "nonneg_split amt bs \<longleftrightarrow> 0 \<le> amt \<and> list_all (\<lambda>b. 0 \<le> b) bs"

text \<open>The parts of the first \<open>n - 1\<close> recipients are floors, the last takes the rest.\<close>

locale splitter =
  fixes split_by :: "int list \<Rightarrow> int \<Rightarrow> int list"
  assumes split_length: "length (split_by bs amt) = length bs"
    and split_floor: "nonneg_split amt bs \<Longrightarrow> Suc i < length bs \<Longrightarrow> split_by bs amt ! i = floor_share amt (bs ! i)"
    and split_last: "nonneg_split amt bs \<Longrightarrow> bs \<noteq> [] \<Longrightarrow>
      last (split_by bs amt) = amt - sum_list (map (floor_share amt) (butlast bs))"
begin

lemma split_butlast: "nonneg_split amt bs \<Longrightarrow> butlast (split_by bs amt) = map (floor_share amt) (butlast bs)"
  by (rule nth_equalityI) (auto simp: split_length nth_butlast split_floor)

lemma split_eq:
  "nonneg_split amt bs \<Longrightarrow> bs \<noteq> [] \<Longrightarrow> split_by bs amt = map (floor_share amt) (butlast bs) @
     [amt - sum_list (map (floor_share amt) (butlast bs))]"
  by (metis append_butlast_last_id length_0_conv split_butlast split_last split_length)

text \<open>No dust: the parts add up to the balance.\<close>

lemma split_total: "nonneg_split amt bs \<Longrightarrow> bs \<noteq> [] \<Longrightarrow> sum_list (split_by bs amt) = amt"
  by (simp add: split_eq)

lemma floor_sum_le:
  assumes "0 \<le> amt" "list_all (\<lambda>b. 0 \<le> b) bs"
  shows "sum_list (map (floor_share amt) bs) * 10000 \<le> amt * sum_list bs"
  using assms(2)
proof (induction bs)
  case (Cons b bs)
  have "floor_share amt b * 10000 \<le> amt * b" by (simp add: floor_share_def)
  with Cons show ?case by (simp add: distrib_left distrib_right)
qed simp

lemma floor_sum_ge:
  "amt * sum_list bs - 9999 * int (length bs) \<le> sum_list (map (floor_share amt) bs) * 10000"
proof (induction bs)
  case (Cons b bs)
  have "amt * b - 9999 \<le> floor_share amt b * 10000"
    using pos_mod_bound [of 10000 "amt * b"] by (simp add: floor_share_def minus_mod_eq_div_mult [symmetric])
  with Cons show ?case by (simp add: distrib_left distrib_right)
qed simp

text \<open>Every part is at least the floor of its share, so none is negative.\<close>

lemma split_ge_floor:
  assumes "nonneg_split amt bs" "sum_list bs = 10000" "i < length bs"
  shows "floor_share amt (bs ! i) \<le> split_by bs amt ! i"
proof (cases "Suc i < length bs")
  case True
  then show ?thesis using assms(1) by (simp add: split_floor)
next
  case False
  then have i: "i = length bs - 1" and ne: "bs \<noteq> []" using assms(3) by auto
  then have lst: "bs ! i = last bs" "split_by bs amt ! i = last (split_by bs amt)"
  proof -
    have "split_by bs amt \<noteq> []" using split_length [of bs amt] ne by (metis length_0_conv)
    then show "bs ! i = last bs" "split_by bs amt ! i = last (split_by bs amt)"
      using i ne split_length [of bs amt] by (simp_all add: last_conv_nth)
  qed
  have b: "list_all (\<lambda>b. 0 \<le> b) (butlast bs)"
    using assms(1) by (auto simp: nonneg_split_def list_all_iff dest: in_set_butlastD)
  have s: "sum_list (butlast bs) = 10000 - last bs"
    using sum_list_butlast_last [OF ne] assms(2) by simp
  have "sum_list (map (floor_share amt) (butlast bs)) * 10000 + floor_share amt (last bs) * 10000 \<le>
      amt * sum_list (butlast bs) + amt * last bs"
    using floor_sum_le [OF _ b] assms(1) by (intro add_mono) (simp_all add: floor_share_def nonneg_split_def)
  also have "\<dots> = amt * 10000" by (simp add: s algebra_simps)
  finally show ?thesis by (simp add: lst split_last [OF assms(1) ne])
qed

lemma split_nonneg:
  assumes "nonneg_split amt bs" "sum_list bs = 10000" "i < length bs"
  shows "0 \<le> split_by bs amt ! i"
proof -
  have "0 \<le> bs ! i" "0 \<le> amt" using assms(1,3) by (simp_all add: nonneg_split_def list_all_length)
  then have "0 \<le> floor_share amt (bs ! i)"
    by (simp add: floor_share_def pos_imp_zdiv_nonneg_iff)
  with split_ge_floor [OF assms] show ?thesis by simp
qed

text \<open>The last recipient gains less than one base unit per recipient over its exact share.\<close>

lemma split_last_le:
  assumes "bs \<noteq> []" "sum_list bs = 10000" "nonneg_split amt bs"
  shows "last (split_by bs amt) \<le> floor_share amt (last bs) + int (length bs)"
proof -
  have s: "sum_list (butlast bs) = 10000 - last bs"
    using sum_list_butlast_last [OF assms(1)] assms(2) by simp
  have "amt * (10000 - last bs) - 9999 * (int (length bs) - 1)
      \<le> sum_list (map (floor_share amt) (butlast bs)) * 10000"
    using floor_sum_ge [of amt "butlast bs"] assms(1) s by (simp add: of_nat_diff Suc_le_eq)
  moreover have "amt * last bs < floor_share amt (last bs) * 10000 + 10000"
    using pos_mod_bound [of 10000 "amt * last bs"] by (simp add: floor_share_def minus_mod_eq_div_mult [symmetric])
  ultimately have "(amt - sum_list (map (floor_share amt) (butlast bs))) * 10000 <
      (floor_share amt (last bs) + int (length bs) + 1) * 10000"
    by (simp add: algebra_simps)
  then show ?thesis by (simp add: split_last [OF assms(3,1)])
qed

end

text \<open>Two splitters are the same function.\<close>

lemma splitter_unique:
  assumes "splitter f" "splitter g" "bs \<noteq> []" "nonneg_split amt bs"
  shows "f bs amt = g bs amt"
  using splitter.split_eq [OF assms(1,4,3)] splitter.split_eq [OF assms(2,4,3)] by simp

end
