(* ===== verification/Compile.thy ===== *)
theory Compile
  imports Schema Assets Commitment Splitting
begin

text \<open>
  The compiler (packages/policy/src/compile.ts): from a policy and a salt to the
  public arguments, the private configuration and the payload the enclave is given.
  An exception of the compiler is \<open>PolicyCompileError\<close> with its message; any other
  exception that escapes it is \<open>Uncaught\<close>.
\<close>

section \<open>Types\<close>

record public_args =
  assetSymbol :: string
  commitment :: string
  pub_trigger :: trigger
  pub_conditions :: "condition list"

record private_config =
  config_version :: int
  config_name :: string
  recipients :: "share list"

record enclave_config =
  salt :: string
  shares :: "(string \<times> int) list"

record compiled_policy =
  ir :: policy_ir
  publicArgs :: public_args
  privateConfig :: private_config
  enclaveConfig :: enclave_config
  plaintext :: string

datatype compile_error = PolicyCompileError string | Uncaught js_error

section \<open>Operations\<close>

definition shareCommitmentSet :: "private_config \<Rightarrow> distribution list" where
  "shareCommitmentSet config = map (\<lambda>r. \<lparr> recipient = address r, amount = shareBps r \<rparr>) (recipients config)"

definition enclave_js :: "enclave_config \<Rightarrow> jsv" where
  "enclave_js c = JObj [(''salt'', JStr (salt c)),
     (''shares'', JArr (map (\<lambda>(a, b). JObj [(''recipient'', JStr a), (''shareBps'', JNum (of_int b))]) (shares c)))]"

definition issue_text :: "issue list \<Rightarrow> string" where
  "issue_text issues =
     (case issues of [] \<Rightarrow> ''policy: invalid policy''
      | first # _ \<Rightarrow> join_with ''.'' (path first) @ '': '' @ message first)"

definition compile_ir :: "viem \<Rightarrow> policy_ir \<Rightarrow> string \<Rightarrow> compile_error + compiled_policy" where
  "compile_ir V ir' slt =
     (case getAsset (ir_asset ir') of
        Inl e \<Rightarrow> Inl (Uncaught e)
      | Inr _ \<Rightarrow>
          (case find (\<lambda>a. case a of SplitTransfer _ \<Rightarrow> True) (ir_actions ir') of
             None \<Rightarrow> Inl (PolicyCompileError ''policy has no distribution action'')
           | Some (SplitTransfer rs) \<Rightarrow>
               (let config = \<lparr> config_version = 1, config_name = ir_name ir', recipients = rs \<rparr> in
                case computeCommitment V (shareCommitmentSet config) slt of
                  Inl e \<Rightarrow> Inl (Uncaught e)
                | Inr c \<Rightarrow>
                    (let enclave = \<lparr> salt = slt, shares = map (\<lambda>r. (address r, shareBps r)) (recipients config) \<rparr> in
                     Inr \<lparr> ir = ir',
                           publicArgs = \<lparr> assetSymbol = ir_asset ir', commitment = c,
                             pub_trigger = ir_trigger ir', pub_conditions = ir_conditions ir' \<rparr>,
                           privateConfig = config,
                           enclaveConfig = enclave,
                           plaintext = (case canonicalize (enclave_js enclave) of None \<Rightarrow> [] | Some t \<Rightarrow> t) \<rparr>))))"

definition compile :: "zod \<Rightarrow> viem \<Rightarrow> jsv \<Rightarrow> string \<Rightarrow> compile_error + compiled_policy" where
  "compile zod V input slt =
     (case zod policyIrSchema input of
        Inl issues \<Rightarrow> Inl (PolicyCompileError (issue_text issues))
      | Inr data \<Rightarrow>
          (case ir_of data of
             None \<Rightarrow> Inl (Uncaught (TypeErr ''not a policy''))
           | Some ir' \<Rightarrow> compile_ir V ir' slt))"

text \<open>BigInt division truncates towards zero.\<close>

definition big_div :: "int \<Rightarrow> int \<Rightarrow> int" where
  "big_div a b = (if (a < 0) \<noteq> (b < 0) then - (\<bar>a\<bar> div \<bar>b\<bar>) else \<bar>a\<bar> div \<bar>b\<bar>)"

fun resolve_from :: "nat \<Rightarrow> int \<Rightarrow> nat \<Rightarrow> int \<Rightarrow> share list \<Rightarrow> distribution list" where
  "resolve_from n balance i allocated [] = []"
| "resolve_from n balance i allocated (r # rs) =
     (let isLast = (i = n - 1);
          amt = (if isLast then balance - allocated else big_div (balance * shareBps r) 10000)
      in \<lparr> recipient = address r, amount = amt \<rparr> # resolve_from n balance (Suc i) (allocated + amt) rs)"

definition resolveDistributions :: "private_config \<Rightarrow> int \<Rightarrow> distribution list" where
  "resolveDistributions config balance =
     resolve_from (length (recipients config)) balance 0 0 (recipients config)"

section \<open>Splitting\<close>

lemma resolve_from_recipients: "map recipient (resolve_from n balance i allocated rs) = map address rs"
  by (induction rs arbitrary: i allocated) (auto simp: Let_def)

definition loop_amounts :: "int \<Rightarrow> int \<Rightarrow> int list \<Rightarrow> int list" where
  "loop_amounts balance allocated bs =
     (if bs = [] then [] else
        map (\<lambda>b. big_div (balance * b) 10000) (butlast bs) @
        [balance - allocated - sum_list (map (\<lambda>b. big_div (balance * b) 10000) (butlast bs))])"

lemma loop_amounts_Cons: "bs \<noteq> [] \<Longrightarrow> loop_amounts balance allocated (b # bs) =
   big_div (balance * b) 10000 # loop_amounts balance (allocated + big_div (balance * b) 10000) bs"
  by (simp add: loop_amounts_def)

lemma resolve_from_amounts:
  "i + length rs = n \<Longrightarrow>
   map amount (resolve_from n balance i allocated rs) = loop_amounts balance allocated (map shareBps rs)"
proof (induction rs arbitrary: i allocated)
  case (Cons r rs)
  show ?case
  proof (cases "rs = []")
    case True
    then have "i = n - 1" using Cons.prems by simp
    with True show ?thesis by (simp add: loop_amounts_def)
  next
    case False
    then have "i \<noteq> n - 1" using Cons.prems by (cases rs) auto
    with False Cons.prems Cons.IH [of "Suc i" "allocated + big_div (balance * shareBps r) 10000"]
    show ?thesis by (simp add: loop_amounts_Cons Let_def)
  qed
qed (simp add: loop_amounts_def)

definition ts_split :: "int list \<Rightarrow> int \<Rightarrow> int list" where
  "ts_split bs balance = map amount (resolveDistributions
     \<lparr> config_version = 1, config_name = [], recipients = map (\<lambda>b. \<lparr> address = [], shareBps = b, label = None \<rparr>) bs \<rparr> balance)"

lemma ts_split_eq: "ts_split bs balance = loop_amounts balance 0 bs"
  by (simp add: ts_split_def resolveDistributions_def resolve_from_amounts comp_def)

lemma big_div_floor: "0 \<le> a \<Longrightarrow> big_div a 10000 = a div 10000"
  by (simp add: big_div_def)

lemma resolve_amounts:
  "map amount (resolveDistributions config balance) = ts_split (map shareBps (recipients config)) balance"
  by (simp add: resolveDistributions_def resolve_from_amounts ts_split_eq)

lemma loop_floors:
  assumes "nonneg_split balance bs"
  shows "map (\<lambda>b. big_div (balance * b) 10000) (butlast bs) = map (floor_share balance) (butlast bs)"
  using assms by (auto simp: nonneg_split_def list_all_iff floor_share_def big_div_floor dest: in_set_butlastD)

interpretation ts_splitter: splitter ts_split
proof
  fix bs amt
  show "length (ts_split bs amt) = length bs" by (simp add: ts_split_eq loop_amounts_def)
  show "Suc i < length bs \<Longrightarrow> ts_split bs amt ! i = floor_share amt (bs ! i)"
    if "nonneg_split amt bs" for i
    by (auto simp: ts_split_eq loop_amounts_def loop_floors [OF that] nth_append nth_butlast)
  show "bs \<noteq> [] \<Longrightarrow> last (ts_split bs amt) = amt - sum_list (map (floor_share amt) (butlast bs))"
    if "nonneg_split amt bs"
    by (simp add: ts_split_eq loop_amounts_def loop_floors [OF that])
qed

lemma share_total_sum: "share_total rs = sum_list (map shareBps rs)"
proof -
  have "foldl (\<lambda>sum r. sum + shareBps r) acc rs = acc + sum_list (map shareBps rs)" for acc
    by (induction rs arbitrary: acc) auto
  then show ?thesis by (simp add: share_total_def)
qed

lemma wf_shares_split:
  "wf_shares rs \<Longrightarrow> 0 \<le> balance \<Longrightarrow>
   nonneg_split balance (map shareBps rs) \<and> sum_list (map shareBps rs) = 10000 \<and> map shareBps rs \<noteq> []"
  by (auto simp: wf_shares_def nonneg_split_def share_total_sum list_all_iff wf_share_def)

section \<open>Compilation\<close>

lemma find_split: "find (\<lambda>a. case a of SplitTransfer _ \<Rightarrow> True) as = (case as of [] \<Rightarrow> None | a # _ \<Rightarrow> Some a)"
  by (cases as) (auto split: action.split)

definition config_of :: "policy_ir \<Rightarrow> share list \<Rightarrow> private_config" where
  "config_of i rs = \<lparr> config_version = 1, config_name = ir_name i, recipients = rs \<rparr>"

definition enclave_of :: "string \<Rightarrow> share list \<Rightarrow> enclave_config" where
  "enclave_of slt rs = \<lparr> salt = slt, shares = map (\<lambda>r. (address r, shareBps r)) rs \<rparr>"

text \<open>A successful compilation, taken apart.\<close>

lemma compile_ir_Inr:
  assumes "compile_ir V i slt = Inr c"
  shows "\<exists>rs as cm a. ir_actions i = SplitTransfer rs # as \<and> getAsset (ir_asset i) = Inr a \<and>
    computeCommitment V (shareCommitmentSet (config_of i rs)) slt = Inr cm \<and>
    ir c = i \<and> privateConfig c = config_of i rs \<and> enclaveConfig c = enclave_of slt rs \<and>
    publicArgs c = \<lparr> assetSymbol = ir_asset i, commitment = cm, pub_trigger = ir_trigger i,
      pub_conditions = ir_conditions i \<rparr> \<and>
    Some (plaintext c) = canonicalize (enclave_js (enclave_of slt rs))"
proof -
  have can: "canonicalize (enclave_js e) = None \<Longrightarrow> False" for e
    by (simp add: canonicalize_def enclave_js_def)
  show ?thesis
    using assms unfolding compile_ir_def find_split config_of_def enclave_of_def Let_def
    by (auto split: sum.splits list.splits action.splits option.splits dest: can)
qed

lemma compile_ir_eq:
  assumes "ir_actions i = SplitTransfer rs # as" "getAsset (ir_asset i) = Inr a"
    and "computeCommitment V (shareCommitmentSet (config_of i rs)) slt = Inr cm"
  shows "\<exists>c. compile_ir V i slt = Inr c"
  using assms unfolding compile_ir_def find_split config_of_def Let_def by simp

lemma compile_Inr:
  assumes "zod_documented zod" "finite_js input" "compile zod V input slt = Inr c"
  shows "\<exists>i. wf_ir i \<and> compile_ir V i slt = Inr c"
proof -
  obtain data i where d: "zod policyIrSchema input = Inr data" "ir_of data = Some i" "compile_ir V i slt = Inr c"
    using assms(3) by (auto simp: compile_def split: sum.splits option.splits)
  have "z_spec policyIrSchema input = Some data"
    using zod_Inr [OF assms(1,2) d(1)] .
  from schema_sound [OF this] d(2,3) show ?thesis by auto
qed

text \<open>The share list as the chain sees it.\<close>

definition chain_shares :: "share list \<Rightarrow> (160 word \<times> 256 word) list option" where
  "chain_shares rs = traverse chain_distribution (map (\<lambda>r. \<lparr> recipient = address r, amount = shareBps r \<rparr>) rs)"

lemma wf_shares_chain: "wf_shares rs \<Longrightarrow> \<exists>cs. chain_shares rs = Some cs"
proof -
  assume wf: "wf_shares rs"
  have "\<exists>c. chain_distribution \<lparr> recipient = address r, amount = shareBps r \<rparr> = Some c" if "r \<in> set rs" for r
    using wf that re_address_value [of "address r"]
    by (auto simp: wf_shares_def list_all_iff wf_share_def chain_distribution_def)
  then have "traverse chain_distribution (map (\<lambda>r. \<lparr> recipient = address r, amount = shareBps r \<rparr>) rs) \<noteq> None"
    unfolding traverse_None_iff by fastforce
  then show ?thesis by (simp add: chain_shares_def)
qed

lemma commitment_of_shares:
  assumes "viem_documented V" "\<forall>r \<in> set rs. is_address (keccak256 V) (address r)"
    and "chain_shares rs = Some cs" "hex_value slt = Some s" "length s = 32"
  shows "computeCommitment V (shareCommitmentSet (config_of i rs)) slt =
    Inr (''0x'' @ bytes_hex (keccak256 V (commitment_preimage cs s)))"
  using assms by (intro computeCommitment_Inr) (auto simp: shareCommitmentSet_def config_of_def chain_shares_def)

lemma commitment_addresses:
  assumes "viem_documented V" "computeCommitment V (shareCommitmentSet (config_of i rs)) slt = Inr cm" "r \<in> set rs"
  shows "is_address (keccak256 V) (address r)"
proof (rule ccontr)
  assume "\<not> ?thesis"
  then have "\<exists>e. computeCommitment V (shareCommitmentSet (config_of i rs)) slt = Inl e"
    using assms(1,3) by (intro computeCommitment_bad_address [where d = "\<lparr> recipient = address r, amount = shareBps r \<rparr>"])
      (auto simp: shareCommitmentSet_def config_of_def)
  with assms(2) show False by auto
qed

lemma enclave_sorted:
  "sortKeys (enclave_js e) = JObj [(''salt'', JStr (salt e)), (''shares'', JArr (map (\<lambda>(a, b).
     JObj [(''recipient'', JStr a), (''shareBps'', JNum (of_int b))]) (shares e)))]"
proof -
  have k: "''salt'' \<le> ''shares''" "''recipient'' \<le> ''shareBps''" by code_simp+
  let ?f = "\<lambda>(a, b). JObj [(''recipient'', JStr a), (''shareBps'', JNum (of_int b))]"
  have f: "map (sortKeys \<circ> ?f) xs = map ?f xs" for xs
    using k by (auto simp: from_entries_def)
  show ?thesis using k by (simp add: enclave_js_def from_entries_def f)
qed

lemma plain_enclave: "plain (sortKeys (enclave_js e))"
  by (auto simp: enclave_sorted list_all_iff)

text \<open>What a successful compilation is.\<close>

lemma compiled_facts:
  assumes "zod_documented zod" "viem_documented V" "finite_js input"
    and "compile zod V input slt = Inr c" "hex_value slt = Some s" "length s = 32"
  shows "\<exists>rs later cs. wf_ir (ir c) \<and> ir_actions (ir c) = SplitTransfer rs # later \<and>
    recipients (privateConfig c) = rs \<and> shares (enclaveConfig c) = map (\<lambda>r. (address r, shareBps r)) rs \<and>
    salt (enclaveConfig c) = slt \<and> json_parse (plaintext c) = Some (sortKeys (enclave_js (enclaveConfig c))) \<and>
    chain_shares rs = Some cs \<and>
    commitment (publicArgs c) = ''0x'' @ bytes_hex (keccak256 V (commitment_preimage cs s))"
proof -
  obtain i where i: "wf_ir i" "compile_ir V i slt = Inr c" using compile_Inr [OF assms(1,3,4)] by blast
  obtain rs later cm where c: "ir_actions i = SplitTransfer rs # later" "ir c = i"
    "computeCommitment V (shareCommitmentSet (config_of i rs)) slt = Inr cm"
    "privateConfig c = config_of i rs" "enclaveConfig c = enclave_of slt rs"
    "commitment (publicArgs c) = cm" "Some (plaintext c) = canonicalize (enclave_js (enclave_of slt rs))"
    using compile_ir_Inr [OF i(2)] by auto
  have wf: "wf_shares rs" using i(1) c(1) by (simp add: wf_ir_def)
  obtain cs where cs: "chain_shares rs = Some cs" using wf_shares_chain [OF wf] by blast
  have "\<forall>r \<in> set rs. is_address (keccak256 V) (address r)"
    using commitment_addresses [OF assms(2) c(3)] by blast
  from commitment_of_shares [OF assms(2) this cs assms(5,6), of i] c(3)
  have cm: "cm = ''0x'' @ bytes_hex (keccak256 V (commitment_preimage cs s))" by simp
  have "json_parse (plaintext c) = Some (sortKeys (enclave_js (enclave_of slt rs)))"
    by (rule canonicalize_parse [OF plain_enclave c(7) [symmetric]])
  with wf i c cs cm show ?thesis by (simp add: config_of_def enclave_of_def)
qed

section \<open>Properties\<close>

definition demo_share :: "char \<Rightarrow> int \<Rightarrow> share" where
  "demo_share ch b = \<lparr> address = ''0x'' @ replicate 40 ch, shareBps = b, label = None \<rparr>"

definition demo_ir :: policy_ir where
  "demo_ir = \<lparr> ir_name = ''Demo'', ir_asset = ''FXRP'', ir_trigger = ManualHeartbeat 86400 False,
     ir_conditions = [], ir_actions = [SplitTransfer [demo_share CHR ''1'' 6000, demo_share CHR ''2'' 4000]] \<rparr>"

definition demo_salt :: string where
  "demo_salt = ''0x'' @ replicate 64 CHR ''a''"

lemma demo_facts: "wf_ir demo_ir" "finite_js (ir_js demo_ir)"
  "re_address (address (demo_share CHR ''1'' 6000))" "re_address (address (demo_share CHR ''2'' 4000))"
  "lower_case (address (demo_share CHR ''1'' 6000)) = address (demo_share CHR ''1'' 6000)"
  "lower_case (address (demo_share CHR ''2'' 4000)) = address (demo_share CHR ''2'' 4000)"
  by code_simp+

lemma demo_salt_bytes: "\<exists>s. hex_value demo_salt = Some s \<and> length s = 32"
proof -
  have "map_option length (hex_value demo_salt) = Some 32" by code_simp
  then show ?thesis by auto
qed

lemma compile_total:
  assumes "zod_documented zod" "viem_documented V" "wf_ir i" "finite_js (ir_js i)"
    and "ir_asset i \<in> set (map fst ASSETS)" "hex_value slt = Some s" "length s = 32"
    and "\<forall>a \<in> set (ir_actions i). case a of SplitTransfer rs \<Rightarrow> \<forall>r \<in> set rs. is_address (keccak256 V) (address r)"
  shows "\<exists>c. compile zod V (ir_js i) slt = Inr c \<and> compile_ir V i slt = Inr c \<and> ir c = i"
proof -
  have z: "z_spec policyIrSchema (ir_js i) = Some (ir_js i)" "ir_of (ir_js i) = Some i"
    using schema_complete [OF assms(3)] by auto
  have zod: "zod policyIrSchema (ir_js i) = Inr (ir_js i)"
  proof (cases "zod policyIrSchema (ir_js i)")
    case (Inl iss)
    then show ?thesis using zod_Inl [OF assms(1,4)] z(1) by auto
  next
    case (Inr w)
    then show ?thesis using zod_Inr [OF assms(1,4)] z(1) by auto
  qed
  obtain rs later where acts: "ir_actions i = SplitTransfer rs # later"
    using assms(3) by (cases "ir_actions i") (auto simp: wf_ir_def intro: action.exhaust)
  then have wf: "wf_shares rs" using assms(3) by (simp add: wf_ir_def)
  obtain cs where cs: "chain_shares rs = Some cs" using wf_shares_chain [OF wf] by blast
  have addr: "\<forall>r \<in> set rs. is_address (keccak256 V) (address r)" using assms(8) acts by auto
  obtain x where "(ir_asset i, x) \<in> set ASSETS" using assms(5) by auto
  then obtain a where a: "getAsset (ir_asset i) = Inr a" using getAsset_Inr_iff by blast
  obtain c where c: "compile_ir V i slt = Inr c"
    using compile_ir_eq [OF acts a commitment_of_shares [OF assms(2) addr cs assms(6,7)]] by blast
  moreover have "ir c = i" using compile_ir_Inr [OF c] by blast
  ultimately show ?thesis using c by (simp add: compile_def zod z(2))
qed

lemma demo_addresses: "\<forall>a \<in> set (ir_actions demo_ir). case a of SplitTransfer rs \<Rightarrow>
      \<forall>r \<in> set rs. is_address (keccak256 demo_viem) (address r)"
  using demo_facts by (simp add: demo_ir_def is_address_def)

lemma demo_compiles: "\<exists>c. compile demo_zod demo_viem (ir_js demo_ir) demo_salt = Inr c \<and>
    compile_ir demo_viem demo_ir demo_salt = Inr c"
proof -
  obtain s where s: "hex_value demo_salt = Some s" "length s = 32" using demo_salt_bytes by blast
  from compile_total [OF demo_zod_documented demo_viem_documented demo_facts(1,2) _ s demo_addresses]
  show ?thesis by (auto simp: demo_ir_def ASSETS_def)
qed

text \<open>A well-formed policy with a known asset, a 32-byte salt and addresses that pass the
  checksum compiles.\<close>

theorem compile_accepts:
  assumes "zod_documented zod" "viem_documented V" "wf_ir i" "finite_js (ir_js i)"
    and "ir_asset i \<in> set (map fst ASSETS)" "hex_value slt = Some s" "length s = 32"
    and "\<forall>a \<in> set (ir_actions i). case a of SplitTransfer rs \<Rightarrow> \<forall>r \<in> set rs. is_address (keccak256 V) (address r)"
  shows "\<exists>c. compile zod V (ir_js i) slt = Inr c \<and> ir c = i"
  using compile_total [OF assms] by blast

theorem compile_accepts_witness:
  "\<exists>c. compile demo_zod demo_viem (ir_js demo_ir) demo_salt = Inr c \<and> ir c = demo_ir"
proof -
  obtain s where s: "hex_value demo_salt = Some s" "length s = 32" using demo_salt_bytes by blast
  from compile_accepts [OF demo_zod_documented demo_viem_documented demo_facts(1,2) _ s demo_addresses]
  show ?thesis by (simp add: demo_ir_def ASSETS_def)
qed

text \<open>C15: What compiles is well formed, its private half is the recipients of the first action in order,
  the enclave payload carries the same recipients and shares with the salt, reads back from its text,
  and the on-chain commitment is the hash of the ABI encoding of exactly those recipients, shares and
  salt.\<close>

theorem compile_sound:
  assumes "zod_documented zod" "viem_documented V" "finite_js input"
    and "compile zod V input slt = Inr c" "hex_value slt = Some s" "length s = 32"
  shows "\<exists>rs later cs. wf_ir (ir c) \<and> ir_actions (ir c) = SplitTransfer rs # later \<and>
    recipients (privateConfig c) = rs \<and> shares (enclaveConfig c) = map (\<lambda>r. (address r, shareBps r)) rs \<and>
    salt (enclaveConfig c) = slt \<and> json_parse (plaintext c) = Some (sortKeys (enclave_js (enclaveConfig c))) \<and>
    chain_shares rs = Some cs \<and>
    commitment (publicArgs c) = ''0x'' @ bytes_hex (keccak256 V (commitment_preimage cs s))"
  using compiled_facts [OF assms] .

theorem compile_sound_witness:
  "\<exists>c s. compile demo_zod demo_viem (ir_js demo_ir) demo_salt = Inr c \<and> hex_value demo_salt = Some s \<and>
     (\<exists>cs. commitment (publicArgs c) = ''0x'' @ bytes_hex (keccak256 demo_viem (commitment_preimage cs s)))"
proof -
  obtain s where s: "hex_value demo_salt = Some s" "length s = 32" using demo_salt_bytes by blast
  obtain c where c: "compile demo_zod demo_viem (ir_js demo_ir) demo_salt = Inr c" using demo_compiles by blast
  from compile_sound [OF demo_zod_documented demo_viem_documented demo_facts(2) c s] c s(1)
  show ?thesis by blast
qed

text \<open>C21: Nothing private reaches the public half except through the commitment: two policies with the
  same asset, trigger and conditions, whatever their names, recipients, shares, labels and salts, have
  public arguments that differ in the commitment at most.\<close>

theorem public_args_blind:
  assumes "compile_ir V i slt = Inr c" "compile_ir V i' slt' = Inr c'"
    and "ir_asset i = ir_asset i'" "ir_trigger i = ir_trigger i'" "ir_conditions i = ir_conditions i'"
  shows "(publicArgs c)\<lparr> commitment := commitment (publicArgs c') \<rparr> = publicArgs c'"
proof -
  obtain cm cm' where "publicArgs c = \<lparr> assetSymbol = ir_asset i, commitment = cm, pub_trigger = ir_trigger i,
      pub_conditions = ir_conditions i \<rparr>"
    "publicArgs c' = \<lparr> assetSymbol = ir_asset i', commitment = cm', pub_trigger = ir_trigger i',
      pub_conditions = ir_conditions i' \<rparr>"
    using compile_ir_Inr [OF assms(1)] compile_ir_Inr [OF assms(2)] by blast
  with assms(3-5) show ?thesis by simp
qed

text \<open>C13: The commitment binds: when the hash does not collide on the two preimages, equal commitments
  mean the same chain addresses with the same shares in the same order, and the same salt.\<close>

theorem commitment_binds:
  assumes "viem_documented V" "wf_shares rs" "wf_shares rs'"
    and "computeCommitment V (shareCommitmentSet (config_of i rs)) slt = Inr cm"
    and "computeCommitment V (shareCommitmentSet (config_of i' rs')) slt' = Inr cm"
    and "hex_value slt = Some s" "length s = 32" "hex_value slt' = Some s'" "length s' = 32"
    and "\<And>cs cs'. chain_shares rs = Some cs \<Longrightarrow> chain_shares rs' = Some cs' \<Longrightarrow>
      keccak256 V (commitment_preimage cs s) = keccak256 V (commitment_preimage cs' s') \<Longrightarrow>
      commitment_preimage cs s = commitment_preimage cs' s'"
  shows "chain_shares rs = chain_shares rs' \<and> s = s'"
proof -
  obtain cs cs' where cs: "chain_shares rs = Some cs" "chain_shares rs' = Some cs'"
    using wf_shares_chain assms(2,3) by blast
  have "\<forall>r \<in> set rs. is_address (keccak256 V) (address r)" "\<forall>r \<in> set rs'. is_address (keccak256 V) (address r)"
    using commitment_addresses [OF assms(1,4)] commitment_addresses [OF assms(1,5)] by blast+
  then have "keccak256 V (commitment_preimage cs s) = keccak256 V (commitment_preimage cs' s')"
    using commitment_of_shares [OF assms(1) _ cs(1) assms(6,7), of i]
      commitment_of_shares [OF assms(1) _ cs(2) assms(8,9), of i'] assms(4,5)
    by (simp add: bytes_hex_inj)
  from assms(10) [OF cs this] have "cs = cs' \<and> s = s'"
    by (rule commitment_preimage_inj [OF assms(7,9)])
  with cs show ?thesis by simp
qed

text \<open>C11: A distribution never loses or creates a base unit: for the shares of a well-formed policy and any
  balance, the amounts go to the recipients in order, add up to the balance exactly, each is at least
  the floor of its share, and the last exceeds its own by less than one unit per recipient.\<close>

theorem resolveDistributions_exact:
  assumes "wf_shares (recipients config)" "0 \<le> balance"
  shows "map recipient (resolveDistributions config balance) = map address (recipients config) \<and>
    sum_list (map amount (resolveDistributions config balance)) = balance \<and>
    (\<forall>i < length (recipients config).
       floor_share balance (shareBps (recipients config ! i)) \<le> amount (resolveDistributions config balance ! i)) \<and>
    amount (last (resolveDistributions config balance)) \<le>
      floor_share balance (shareBps (last (recipients config))) + int (length (recipients config))"
proof -
  let ?rs = "recipients config" and ?ds = "resolveDistributions config balance"
  note w = wf_shares_split [OF assms]
  have rcp: "map recipient ?ds = map address ?rs"
    by (simp add: resolveDistributions_def resolve_from_recipients)
  then have len: "length ?ds = length ?rs" by (metis length_map)
  have ne: "?rs \<noteq> []" using w by auto
  then have dne: "?ds \<noteq> []" using len by auto
  have am: "map amount ?ds = ts_split (map shareBps ?rs) balance" by (rule resolve_amounts)
  have tot: "sum_list (map amount ?ds) = balance"
    unfolding am using w by (intro ts_splitter.split_total) auto
  have flo: "floor_share balance (shareBps (?rs ! i)) \<le> amount (?ds ! i)" if "i < length ?rs" for i
    using ts_splitter.split_ge_floor [of balance "map shareBps ?rs" i] w that len
    by (simp flip: am)
  have "amount (last ?ds) \<le> floor_share balance (shareBps (last ?rs)) + int (length ?rs)"
    using ts_splitter.split_last_le [of "map shareBps ?rs" balance] w ne dne
    by (simp add: last_map flip: am)
  with rcp tot flo show ?thesis by blast
qed

theorem resolveDistributions_exact_witness:
  "map amount (resolveDistributions \<lparr> config_version = 1, config_name = [], recipients = [demo_share CHR ''1'' 3333, demo_share CHR ''2'' 6667] \<rparr> 100)
     = [33, 67] \<and>
   sum_list (map amount (resolveDistributions
     \<lparr> config_version = 1, config_name = [], recipients = [demo_share CHR ''1'' 3333, demo_share CHR ''2'' 6667] \<rparr> 100)) = 100"
proof
  show "map amount (resolveDistributions \<lparr> config_version = 1, config_name = [], recipients = [demo_share CHR ''1'' 3333, demo_share CHR ''2'' 6667] \<rparr> 100)
     = [33, 67]" by code_simp
  have "wf_shares [demo_share CHR ''1'' 3333, demo_share CHR ''2'' 6667]" by code_simp
  then show "sum_list (map amount (resolveDistributions
     \<lparr> config_version = 1, config_name = [], recipients = [demo_share CHR ''1'' 3333, demo_share CHR ''2'' 6667] \<rparr> 100)) = 100"
    using resolveDistributions_exact [of "\<lparr> config_version = 1, config_name = [], recipients = [demo_share CHR ''1'' 3333, demo_share CHR ''2'' 6667] \<rparr>" 100]
    by (simp only: private_config.simps)
qed

text \<open>Only the first action of a policy is compiled: the schema accepts any number of them, but those
  after the first change neither the enclave payload, nor the commitment, nor whether it compiles.\<close>

theorem later_actions_dropped:
  assumes "compile_ir V i slt = Inr c" "ir_actions i = a # later"
  shows "\<exists>c'. compile_ir V (i\<lparr> ir_actions := a # later' \<rparr>) slt = Inr c' \<and>
    publicArgs c' = publicArgs c \<and> enclaveConfig c' = enclaveConfig c \<and> plaintext c' = plaintext c"
proof -
  obtain rs cm x where c: "ir_actions i = SplitTransfer rs # later" "getAsset (ir_asset i) = Inr x"
    "computeCommitment V (shareCommitmentSet (config_of i rs)) slt = Inr cm"
    "publicArgs c = \<lparr> assetSymbol = ir_asset i, commitment = cm, pub_trigger = ir_trigger i,
      pub_conditions = ir_conditions i \<rparr>"
    "enclaveConfig c = enclave_of slt rs" "Some (plaintext c) = canonicalize (enclave_js (enclave_of slt rs))"
    using compile_ir_Inr [OF assms(1)] assms(2) by auto
  let ?j = "i\<lparr> ir_actions := a # later' \<rparr>"
  have j: "ir_actions ?j = SplitTransfer rs # later'" "getAsset (ir_asset ?j) = Inr x"
    "computeCommitment V (shareCommitmentSet (config_of ?j rs)) slt = Inr cm"
    using c(1-3) assms(2) by (simp_all add: config_of_def shareCommitmentSet_def)
  obtain c' where c': "compile_ir V ?j slt = Inr c'" using compile_ir_eq [OF j] by blast
  obtain cm' where d: "computeCommitment V (shareCommitmentSet (config_of ?j rs)) slt = Inr cm'"
    "publicArgs c' = \<lparr> assetSymbol = ir_asset ?j, commitment = cm', pub_trigger = ir_trigger ?j,
      pub_conditions = ir_conditions ?j \<rparr>"
    "enclaveConfig c' = enclave_of slt rs" "Some (plaintext c') = canonicalize (enclave_js (enclave_of slt rs))"
    using compile_ir_Inr [OF c'] j(1) by auto
  then have "cm' = cm" using j(3) by simp
  with d c(4-6) have "publicArgs c' = publicArgs c" "enclaveConfig c' = enclaveConfig c"
    "Some (plaintext c') = Some (plaintext c)" by simp_all
  with c' show ?thesis by simp
qed

theorem later_actions_dropped_witness:
  "\<exists>c c'. compile_ir demo_viem demo_ir demo_salt = Inr c \<and>
     compile_ir demo_viem (demo_ir\<lparr> ir_actions := ir_actions demo_ir @ [SplitTransfer [demo_share CHR ''3'' 10000]] \<rparr>)
       demo_salt = Inr c' \<and> enclaveConfig c' = enclaveConfig c"
proof -
  obtain c where c: "compile_ir demo_viem demo_ir demo_salt = Inr c" using demo_compiles by blast
  have a: "ir_actions demo_ir = hd (ir_actions demo_ir) # tl (ir_actions demo_ir)" by (simp add: demo_ir_def)
  then have b: "ir_actions demo_ir @ xs = hd (ir_actions demo_ir) # tl (ir_actions demo_ir) @ xs" for xs
    by (metis append_Cons)
  show ?thesis
    using later_actions_dropped [OF c a, of "tl (ir_actions demo_ir) @ [SplitTransfer [demo_share CHR ''3'' 10000]]"] c
    unfolding b by blast
qed

theorem public_args_blind_witness:
  "\<exists>c c'. compile_ir demo_viem demo_ir demo_salt = Inr c \<and>
     (publicArgs c)\<lparr> commitment := commitment (publicArgs c') \<rparr> = publicArgs c' \<and>
     compile_ir demo_viem (demo_ir\<lparr> ir_name := ''Other'',
       ir_actions := [SplitTransfer [demo_share CHR ''2'' 10000]] \<rparr>) demo_salt = Inr c'"
proof -
  let ?j = "demo_ir\<lparr> ir_name := ''Other'', ir_actions := [SplitTransfer [demo_share CHR ''2'' 10000]] \<rparr>"
  obtain s where s: "hex_value demo_salt = Some s" "length s = 32" using demo_salt_bytes by blast
  obtain c where c: "compile_ir demo_viem demo_ir demo_salt = Inr c" using demo_compiles by blast
  have wf: "wf_ir ?j" "finite_js (ir_js ?j)" "lower_case (address (demo_share CHR ''2'' 10000)) = address (demo_share CHR ''2'' 10000)"
    "re_address (address (demo_share CHR ''2'' 10000))"
    by code_simp+
  have "\<forall>a \<in> set (ir_actions ?j). case a of SplitTransfer rs \<Rightarrow> \<forall>r \<in> set rs. is_address (keccak256 demo_viem) (address r)"
    using wf(3,4) by (simp add: is_address_def)
  from compile_total [OF demo_zod_documented demo_viem_documented wf(1,2) _ s this]
  obtain c' where c': "compile_ir demo_viem ?j demo_salt = Inr c'" by (auto simp: demo_ir_def ASSETS_def)
  from public_args_blind [OF c c'] c c' show ?thesis by auto
qed

theorem commitment_binds_witness:
  "\<exists>cm s. computeCommitment demo_viem (shareCommitmentSet (config_of demo_ir [demo_share CHR ''1'' 10000])) demo_salt = Inr cm \<and>
     hex_value demo_salt = Some s \<and> chain_shares [demo_share CHR ''1'' 10000] = chain_shares [demo_share CHR ''1'' 10000] \<and> s = s"
proof -
  obtain s where s: "hex_value demo_salt = Some s" "length s = 32" using demo_salt_bytes by blast
  have wf: "wf_shares [demo_share CHR ''1'' 10000]"
    "lower_case (address (demo_share CHR ''1'' 10000)) = address (demo_share CHR ''1'' 10000)"
    "re_address (address (demo_share CHR ''1'' 10000))" by code_simp+
  obtain cs where cs: "chain_shares [demo_share CHR ''1'' 10000] = Some cs" using wf_shares_chain [OF wf(1)] by blast
  have "\<forall>r \<in> set [demo_share CHR ''1'' 10000]. is_address (keccak256 demo_viem) (address r)"
    using wf(2,3) by (simp add: is_address_def)
  from commitment_of_shares [OF demo_viem_documented this cs s, of demo_ir] obtain cm where
    cm: "computeCommitment demo_viem (shareCommitmentSet (config_of demo_ir [demo_share CHR ''1'' 10000])) demo_salt = Inr cm"
    by blast
  have "chain_shares [demo_share CHR ''1'' 10000] = chain_shares [demo_share CHR ''1'' 10000] \<and> s = s"
    by (rule commitment_binds [OF demo_viem_documented wf(1,1) cm cm s s]) simp
  with cm s(1) show ?thesis by blast
qed

end
