(* ===== verification/Templates.thy ===== *)
theory Templates
  imports Compile
begin

text \<open>
  The templates (packages/policy/src/templates/): seed data that builds an ordinary
  policy value, the registry, and the grouping into gallery sections.
  \<open>localeCompare\<close> of the browser's collation is the parameter \<open>collate\<close>, and the
  clock (\<open>Date.now()\<close>, in milliseconds) the parameter \<open>now\<close>.
\<close>

section \<open>Definitions\<close>

record template_args =
  arg_name :: "string option"
  arg_recipients :: "share list"
  intervalSeconds :: "int option"
  executeAfter :: "int option"
  demoMode :: "bool option"

record template =
  t_id :: string
  title :: string
  t_section :: string
  summary :: string
  explainer :: string
  t_live :: bool
  build :: "template_args \<Rightarrow> jsv"

definition or_default :: "'a option \<Rightarrow> 'a \<Rightarrow> 'a" where
  "or_default x d = (case x of None \<Rightarrow> d | Some v \<Rightarrow> v)"

definition xrpInheritance :: "template_args \<Rightarrow> jsv" where
  "xrpInheritance args = JObj
     [(''version'', JNum 1),
      (''name'', JStr (or_default (arg_name args) ''XRP Inheritance'')),
      (''asset'', JStr ''FXRP''),
      (''trigger'', JObj
         [(''kind'', JStr ''manualHeartbeat''),
          (''intervalSeconds'', JNum (of_int (or_default (intervalSeconds args) (365 * 24 * 60 * 60)))),
          (''demoMode'', JBool (or_default (demoMode args) False))]),
      (''conditions'', JArr []),
      (''actions'', JArr [JObj
         [(''kind'', JStr ''splitTransfer''),
          (''recipients'', JArr (map share_js (arg_recipients args)))]])]"

definition scheduledDistribution :: "int \<Rightarrow> template_args \<Rightarrow> jsv" where
  "scheduledDistribution now args = JObj
     [(''version'', JNum 1),
      (''name'', JStr (or_default (arg_name args) ''Scheduled Distribution'')),
      (''asset'', JStr ''FXRP''),
      (''trigger'', JObj
         [(''kind'', JStr ''timestamp''),
          (''executeAfter'', JNum (of_int (or_default (executeAfter args) (now div 1000 + 365 * 24 * 60 * 60))))]),
      (''conditions'', JArr []),
      (''actions'', JArr [JObj
         [(''kind'', JStr ''splitTransfer''),
          (''recipients'', JArr (map share_js (arg_recipients args)))]])]"

definition xrp_inheritance_definition :: template where
  "xrp_inheritance_definition =
     \<lparr> t_id = ''xrp-inheritance'', title = ''XRP Inheritance'', t_section = ''Succession'',
       summary = ''If you stop checking in, your XRP is distributed privately to the people you choose.'',
       explainer = ''You check in periodically to show you are still here. If you stop for longer '' @
         ''than your chosen interval, the policy releases your funds according to a '' @
         ''split that only you and the secure enclave can read.'',
       t_live = True, build = xrpInheritance \<rparr>"

definition scheduled_distribution_definition :: "int \<Rightarrow> template" where
  "scheduled_distribution_definition now =
     \<lparr> t_id = ''scheduled-distribution'', title = ''Scheduled Distribution'', t_section = ''Treasury'',
       summary = ''Release funds to chosen recipients on a specific date, privately.'',
       explainer = ''Set a date. When it arrives, the policy distributes your funds according to '' @
         ''a split that stays private until the moment it executes.'',
       t_live = True, build = scheduledDistribution now \<rparr>"

definition TEMPLATES :: "int \<Rightarrow> template list" where
  "TEMPLATES now = [xrp_inheritance_definition, scheduled_distribution_definition now]"

definition getTemplate :: "int \<Rightarrow> string \<Rightarrow> js_error + template" where
  "getTemplate now i =
     (case find (\<lambda>t. t_id t = i) (TEMPLATES now) of
        None \<Rightarrow> Inl (Err (''Unknown template '' @ [CHR 0x22] @ i @ [CHR 0x22] @ ''. Known: '' @
                  join_with '', '' (map t_id (TEMPLATES now))))
      | Some t \<Rightarrow> Inr t)"

definition liveTemplates :: "int \<Rightarrow> template list" where
  "liveTemplates now = filter t_live (TEMPLATES now)"

section \<open>Gallery sections\<close>

definition SECTION_ORDER :: "string list" where
  "SECTION_ORDER = [''Succession'', ''Treasury'', ''Escrow'']"

text \<open>A \<open>Map\<close> from section to templates, in insertion order.\<close>

fun add_to_group :: "template \<Rightarrow> (string \<times> template list) list \<Rightarrow> (string \<times> template list) list" where
  "add_to_group t [] = [(t_section t, [t])]"
| "add_to_group t ((name, ts) # gs) =
     (if name = t_section t then (name, ts @ [t]) # gs else (name, ts) # add_to_group t gs)"

fun index_of :: "'a \<Rightarrow> 'a list \<Rightarrow> nat option" where
  "index_of x [] = None"
| "index_of x (y # ys) = (if x = y then Some 0 else map_option Suc (index_of x ys))"

definition rank :: "string \<Rightarrow> nat" where
  "rank name = (case index_of name SECTION_ORDER of None \<Rightarrow> length SECTION_ORDER | Some i \<Rightarrow> i)"

text \<open>The comparison, negative as in \<open>Array.sort\<close>, and a stable insertion sort by it.\<close>

definition section_compare :: "(string \<Rightarrow> string \<Rightarrow> int) \<Rightarrow> string \<times> template list \<Rightarrow> string \<times> template list \<Rightarrow> int" where
  "section_compare collate a b =
     (let d = int (rank (fst a)) - int (rank (fst b)) in if d \<noteq> 0 then d else collate (fst a) (fst b))"

fun insert_by :: "('a \<Rightarrow> 'a \<Rightarrow> int) \<Rightarrow> 'a \<Rightarrow> 'a list \<Rightarrow> 'a list" where
  "insert_by cmp x [] = [x]"
| "insert_by cmp x (y # ys) = (if 0 < cmp x y then y # insert_by cmp x ys else x # y # ys)"

definition sort_by :: "('a \<Rightarrow> 'a \<Rightarrow> int) \<Rightarrow> 'a list \<Rightarrow> 'a list" where
  "sort_by cmp xs = foldr (insert_by cmp) xs []"

definition sections_of :: "(string \<Rightarrow> string \<Rightarrow> int) \<Rightarrow> template list \<Rightarrow> (string \<times> template list) list" where
  "sections_of collate ts = sort_by (section_compare collate) (foldl (\<lambda>groups t. add_to_group t groups) [] ts)"

definition templatesBySection :: "(string \<Rightarrow> string \<Rightarrow> int) \<Rightarrow> int \<Rightarrow> (string \<times> template list) list" where
  "templatesBySection collate now = sections_of collate (TEMPLATES now)"

section \<open>Lemmas\<close>

lemma mset_insert_by: "mset (insert_by cmp x ys) = add_mset x (mset ys)"
  by (induction ys) auto

lemma mset_sort_by [simp]: "mset (sort_by cmp xs) = mset xs"
  by (induction xs) (auto simp: sort_by_def mset_insert_by)

definition group_members :: "(string \<times> template list) list \<Rightarrow> template multiset" where
  "group_members gs = sum_list (map (\<lambda>g. mset (snd g)) gs)"

lemma group_members_add: "group_members (add_to_group t gs) = add_mset t (group_members gs)"
  by (induction t gs rule: add_to_group.induct) (auto simp: group_members_def)

lemma group_members_fold:
  "group_members (foldl (\<lambda>groups t. add_to_group t groups) gs ts) = group_members gs + mset ts"
  by (induction ts arbitrary: gs) (auto simp: group_members_add)

lemma group_members_sort: "group_members (sort_by cmp gs) = group_members gs"
proof -
  have "image_mset (\<lambda>g. mset (snd g)) (mset (sort_by cmp gs)) = image_mset (\<lambda>g. mset (snd g)) (mset gs)" by simp
  then have "mset (map (\<lambda>g. mset (snd g)) (sort_by cmp gs)) = mset (map (\<lambda>g. mset (snd g)) gs)" by simp
  then show ?thesis unfolding group_members_def by (metis sum_mset_sum_list)
qed

definition grouped :: "(string \<times> template list) list \<Rightarrow> bool" where
  "grouped gs \<longleftrightarrow> distinct (map fst gs) \<and> (\<forall>(n, ts) \<in> set gs. ts \<noteq> [] \<and> (\<forall>t \<in> set ts. t_section t = n))"

lemma add_to_group_names: "fst ` set (add_to_group t gs) = insert (t_section t) (fst ` set gs)"
  by (induction t gs rule: add_to_group.induct) auto

lemma grouped_add: "grouped gs \<Longrightarrow> grouped (add_to_group t gs)"
proof (induction t gs rule: add_to_group.induct)
  case (2 t name ts gs)
  show ?case
  proof (cases "name = t_section t")
    case False
    then have "name \<notin> fst ` set (add_to_group t gs)"
      using 2 by (auto simp: grouped_def add_to_group_names)
    with False 2 show ?thesis by (auto simp: grouped_def)
  qed (use 2 in \<open>auto simp: grouped_def\<close>)
qed (simp add: grouped_def)

lemma grouped_fold: "grouped gs \<Longrightarrow> grouped (foldl (\<lambda>groups t. add_to_group t groups) gs ts)"
  by (induction ts arbitrary: gs) (auto simp: grouped_add)

lemma grouped_perm: "mset gs = mset gs' \<Longrightarrow> grouped gs \<Longrightarrow> grouped gs'"
proof -
  assume m: "mset gs = mset gs'" and g: "grouped gs"
  have "mset (map fst gs) = mset (map fst gs')" using m by simp
  then have "distinct (map fst gs) = distinct (map fst gs')" by (rule mset_eq_imp_distinct_iff)
  moreover have "set gs = set gs'" using m by (rule mset_eq_setD)
  ultimately show ?thesis using g by (simp add: grouped_def)
qed

text \<open>What a template builds is the text of a policy.\<close>

definition built_ir :: "string \<Rightarrow> trigger \<Rightarrow> share list \<Rightarrow> policy_ir" where
  "built_ir n t rs = \<lparr> ir_name = n, ir_asset = ''FXRP'', ir_trigger = t, ir_conditions = [],
     ir_actions = [SplitTransfer rs] \<rparr>"

lemma xrpInheritance_ir:
  "xrpInheritance args = ir_js (built_ir (or_default (arg_name args) ''XRP Inheritance'')
     (ManualHeartbeat (or_default (intervalSeconds args) 31536000) (or_default (demoMode args) False)) (arg_recipients args))"
  by (simp add: xrpInheritance_def ir_js_def built_ir_def)

lemma scheduledDistribution_ir:
  "scheduledDistribution now args = ir_js (built_ir (or_default (arg_name args) ''Scheduled Distribution'')
     (TimestampTrigger (or_default (executeAfter args) (now div 1000 + 31536000))) (arg_recipients args))"
  by (simp add: scheduledDistribution_def ir_js_def built_ir_def)

lemma wf_built: "wf_shares rs \<Longrightarrow> wf_trigger t \<Longrightarrow> n \<noteq> [] \<Longrightarrow> 1 \<le> js_length n \<Longrightarrow> js_length n \<le> 120 \<Longrightarrow> wf_ir (built_ir n t rs)"
  by (simp add: wf_ir_def built_ir_def)

lemma finite_built: "finite_js (ir_js (built_ir n t rs))"
  by (cases t) (auto simp: ir_js_def built_ir_def share_js_def list_all_iff split: option.split)

section \<open>Properties\<close>

text \<open>Both templates build policies the compiler accepts, with the trigger they advertise: for any
  well-formed shares, a positive interval (or date) where one is given, and the default name.\<close>

theorem templates_compile:
  assumes "zod_documented zod" "viem_documented V" "wf_shares (arg_recipients args)" "arg_name args = None"
    and "\<forall>r \<in> set (arg_recipients args). is_address (keccak256 V) (address r)"
    and "\<forall>n. intervalSeconds args = Some n \<longrightarrow> 0 < n" "\<forall>n. executeAfter args = Some n \<longrightarrow> 0 < n" "0 \<le> now"
    and "hex_value slt = Some s" "length s = 32" "t \<in> set (TEMPLATES now)"
  shows "\<exists>c. compile zod V (build t args) slt = Inr c \<and> recipients (privateConfig c) = arg_recipients args \<and>
    pub_trigger (publicArgs c) =
      (if t_id t = ''xrp-inheritance''
       then ManualHeartbeat (or_default (intervalSeconds args) 31536000) (or_default (demoMode args) False)
       else TimestampTrigger (or_default (executeAfter args) (now div 1000 + 31536000)))"
proof -
  define tr where "tr = (if t_id t = ''xrp-inheritance''
       then ManualHeartbeat (or_default (intervalSeconds args) 31536000) (or_default (demoMode args) False)
       else TimestampTrigger (or_default (executeAfter args) (now div 1000 + 31536000)))"
  obtain n where n: "build t args = ir_js (built_ir n tr (arg_recipients args))"
    "n = ''XRP Inheritance'' \<or> n = ''Scheduled Distribution''"
    using assms(4,11) by (auto simp: TEMPLATES_def xrp_inheritance_definition_def tr_def or_default_def
        scheduled_distribution_definition_def xrpInheritance_ir scheduledDistribution_ir)
  have nm: "n \<noteq> []" "1 \<le> js_length n" "js_length n \<le> 120" using n(2) by auto
  have "wf_trigger tr" using assms(6-8) by (auto simp: tr_def or_default_def split: option.split)
  from compile_total [OF assms(1,2) wf_built [OF assms(3) this nm] finite_built _ assms(9,10)]
  obtain c where c: "compile zod V (build t args) slt = Inr c"
    "compile_ir V (built_ir n tr (arg_recipients args)) slt = Inr c"
    using assms(5) by (auto simp: n(1) built_ir_def ASSETS_def)
  from compile_ir_Inr [OF c(2)] c(1) show ?thesis by (auto simp: built_ir_def config_of_def tr_def)
qed

theorem templates_compile_witness:
  "\<exists>c. compile demo_zod demo_viem (build xrp_inheritance_definition \<lparr> arg_name = None,
     arg_recipients = [demo_share CHR ''1'' 10000], intervalSeconds = Some 60, executeAfter = None, demoMode = None \<rparr>) demo_salt = Inr c \<and>
     pub_trigger (publicArgs c) = ManualHeartbeat 60 False"
proof -
  let ?a = "\<lparr> arg_name = None, arg_recipients = [demo_share CHR ''1'' 10000], intervalSeconds = Some 60,
    executeAfter = None, demoMode = None \<rparr>"
  obtain s where s: "hex_value demo_salt = Some s" "length s = 32" using demo_salt_bytes by blast
  have w: "wf_shares (arg_recipients ?a)"
    "lower_case (address (demo_share CHR ''1'' 10000)) = address (demo_share CHR ''1'' 10000)"
    "re_address (address (demo_share CHR ''1'' 10000))" by code_simp+
  have a: "\<forall>r \<in> set (arg_recipients ?a). is_address (keccak256 demo_viem) (address r)"
    using w(2,3) by (simp add: is_address_def)
  have t: "xrp_inheritance_definition \<in> set (TEMPLATES 0)" by (simp add: TEMPLATES_def)
  from templates_compile [OF demo_zod_documented demo_viem_documented w(1) _ a _ _ _ s t]
  show ?thesis by (auto simp: xrp_inheritance_definition_def or_default_def)
qed

text \<open>The gallery loses and repeats no template: whatever the templates and the collation, every
  template is in exactly one section, its own, and no section is empty or repeated.\<close>

theorem sections_partition:
  "group_members (sections_of collate ts) = mset ts \<and> grouped (sections_of collate ts)"
proof
  show "group_members (sections_of collate ts) = mset ts"
    unfolding sections_of_def group_members_sort group_members_fold by (simp add: group_members_def)
  have "grouped (foldl (\<lambda>groups t. add_to_group t groups) [] ts)"
    by (rule grouped_fold) (simp add: grouped_def)
  then show "grouped (sections_of collate ts)"
    unfolding sections_of_def by (rule grouped_perm [rotated]) simp
qed

end
