(* ===== verification/Ecies.thy ===== *)
theory Ecies
  imports Abi "HOL-Library.List_Lexorder"
begin

unbundle bit_operations_syntax

text \<open>
  ECIES in the dialect of go-ethereum (packages/policy/src/ecies.ts). The primitives
  of the noble packages are the fields of the record \<open>noble\<close>, and
  \<open>noble_documented\<close> states what the code relies on: output lengths, that AES-CTR
  decryption undoes encryption, and that the Diffie-Hellman secret is the same from
  both sides. The ephemeral private key and the IV, which the source draws at
  random, are arguments.
\<close>

record noble =
  sha256 :: "bytes \<Rightarrow> bytes"
  hmac_sha256 :: "bytes \<Rightarrow> bytes \<Rightarrow> bytes"
  ctr_encrypt :: "bytes \<Rightarrow> bytes \<Rightarrow> bytes \<Rightarrow> bytes"
  ctr_decrypt :: "bytes \<Rightarrow> bytes \<Rightarrow> bytes \<Rightarrow> bytes"
  valid_private :: "bytes \<Rightarrow> bool"
  getPublicKey :: "bytes \<Rightarrow> bytes"
  getSharedSecret :: "bytes \<Rightarrow> bytes \<Rightarrow> js_error + bytes"
  decompress :: "bytes \<Rightarrow> js_error + bytes"

definition noble_documented :: "noble \<Rightarrow> bool" where
  "noble_documented N \<longleftrightarrow>
     (\<forall>b. length (sha256 N b) = 32) \<and>
     (\<forall>k b. length (hmac_sha256 N k b) = 32) \<and>
     (\<forall>k iv m. ctr_decrypt N k iv (ctr_encrypt N k iv m) = m \<and> length (ctr_encrypt N k iv m) = length m) \<and>
     (\<forall>k. valid_private N k \<longrightarrow> length (getPublicKey N k) = 65 \<and> hd (getPublicKey N k) = 4) \<and>
     (\<forall>k l. valid_private N k \<and> valid_private N l \<longrightarrow>
        (\<exists>z. getSharedSecret N k (getPublicKey N l) = Inr z \<and> getSharedSecret N l (getPublicKey N k) = Inr z))"

section \<open>Key derivation\<close>

abbreviation "KEY_LEN \<equiv> 16 :: nat"
abbreviation "IV_LEN \<equiv> 16 :: nat"
abbreviation "TAG_LEN \<equiv> 32 :: nat"
abbreviation "PUBKEY_LEN \<equiv> 65 :: nat"

text \<open>
  The loop of \<open>concatKDF\<close>; \<open>None\<close> is running out of fuel. Every round writes at
  least one byte when the hash is not empty, so \<open>outputLen\<close> rounds are enough.
\<close>

fun kdf_loop :: "nat \<Rightarrow> noble \<Rightarrow> bytes \<Rightarrow> nat \<Rightarrow> bytes \<Rightarrow> nat \<Rightarrow> bytes option" where
  "kdf_loop fuel N z outputLen out counter =
     (if length out < outputLen then
        (case fuel of 0 \<Rightarrow> None
         | Suc fuel' \<Rightarrow>
             (let block = sha256 N (be_bytes 4 counter @ z);
                  n = min (length block) (outputLen - length out)
              in kdf_loop fuel' N z outputLen (out @ take n block) (counter + 1)))
      else Some out)"

declare kdf_loop.simps [simp del]

definition concatKDF :: "noble \<Rightarrow> bytes \<Rightarrow> nat \<Rightarrow> bytes option" where
  "concatKDF N z outputLen = kdf_loop outputLen N z outputLen [] 1"

definition deriveKeys :: "noble \<Rightarrow> bytes \<Rightarrow> bytes \<times> bytes" where
  "deriveKeys N z =
     (let derived = (case concatKDF N z (2 * KEY_LEN) of None \<Rightarrow> [] | Some d \<Rightarrow> d) in
      (take KEY_LEN derived, sha256 N (take KEY_LEN (drop KEY_LEN derived))))"

definition sharedSecretX :: "noble \<Rightarrow> bytes \<Rightarrow> bytes \<Rightarrow> js_error + bytes" where
  "sharedSecretX N privateKey publicKey =
     and_then (getSharedSecret N privateKey publicKey) (\<lambda>point. Inr (take 32 (drop 1 point)))"

section \<open>Bytes\<close>

datatype bytes_like = HexStr string | Raw bytes

definition toBytes :: "bytes_like \<Rightarrow> bytes" where
  "toBytes v =
     (case v of Raw b \<Rightarrow> b
      | HexStr s \<Rightarrow>
          (let hex = (if starts_with ''0x'' s then drop 2 s else s) in parse_pairs (length hex div 2) hex))"

definition toHex :: "bytes \<Rightarrow> string" where
  "toHex b = ''0x'' @ foldl (\<lambda>hex x. hex @ byte_hex x) [] b"

definition normalizeTeePublicKey :: "noble \<Rightarrow> bytes_like \<Rightarrow> js_error + bytes" where
  "normalizeTeePublicKey N publicKey =
     (let raw = toBytes publicKey in
      if length raw = PUBKEY_LEN \<and> hd raw = 4 then Inr raw
      else if length raw = 64 then Inr ([4] @ raw)
      else if length raw = 33 \<and> (hd raw = 2 \<or> hd raw = 3) then decompress N raw
      else Inl (Err (''unrecognised secp256k1 public key: '' @ nat_str (length raw) @ '' bytes starting 0x'' @
             (case raw of [] \<Rightarrow> ''??'' | b # _ \<Rightarrow> to_string16 (unat b)))))"

definition constantTimeEqual :: "bytes \<Rightarrow> bytes \<Rightarrow> bool" where
  "constantTimeEqual a b =
     (if length a \<noteq> length b then False
      else foldl (\<lambda>diff i. diff OR (a ! i XOR b ! i)) 0 [0..<length a] = 0)"

section \<open>Encryption\<close>

text \<open>The message is given as bytes: a string is encoded first (\<open>utf8_bytes\<close>).\<close>

definition eciesEncrypt :: "noble \<Rightarrow> bytes \<Rightarrow> bytes \<Rightarrow> bytes_like \<Rightarrow> bytes \<Rightarrow> js_error + string" where
  "eciesEncrypt N ephemeralPrivate iv teePublicKey msg =
     and_then (normalizeTeePublicKey N teePublicKey) (\<lambda>recipient.
     let ephemeralPublic = getPublicKey N ephemeralPrivate in
     and_then (sharedSecretX N ephemeralPrivate recipient) (\<lambda>z.
     case deriveKeys N z of (encryptionKey, macKey) \<Rightarrow>
       let ciphertext = ctr_encrypt N encryptionKey iv msg;
           tag = hmac_sha256 N macKey (iv @ ciphertext)
       in Inr (toHex (ephemeralPublic @ iv @ ciphertext @ tag))))"

definition eciesDecrypt :: "noble \<Rightarrow> bytes_like \<Rightarrow> bytes_like \<Rightarrow> js_error + bytes" where
  "eciesDecrypt N privateKey ciphertext =
     (let key = toBytes privateKey; data = toBytes ciphertext in
      if length data < PUBKEY_LEN + IV_LEN + TAG_LEN then
        Inl (Err (''ciphertext too short: '' @ nat_str (length data) @ '' bytes''))
      else if hd data \<noteq> 4 then
        Inl (Err ''ciphertext does not begin with an uncompressed ephemeral key'')
      else
        (let ephemeralPublic = take PUBKEY_LEN data;
             body = take (length data - TAG_LEN - PUBKEY_LEN) (drop PUBKEY_LEN data);
             tag = drop (length data - TAG_LEN) data
         in and_then (sharedSecretX N key ephemeralPublic) (\<lambda>z.
            case deriveKeys N z of (encryptionKey, macKey) \<Rightarrow>
              if \<not> constantTimeEqual (hmac_sha256 N macKey body) tag then
                Inl (Err ''ECIES tag mismatch: wrong key or tampered ciphertext'')
              else Inr (ctr_decrypt N encryptionKey (take IV_LEN body) (drop IV_LEN body)))))"

section \<open>Lemmas\<close>

lemma toHex_eq: "toHex b = ''0x'' @ bytes_hex b"
proof -
  have "foldl (\<lambda>hex x. hex @ byte_hex x) acc b = acc @ bytes_hex b" for acc
    by (induction b arbitrary: acc) (auto simp: bytes_hex_def)
  then show ?thesis by (simp add: toHex_def)
qed

lemma toBytes_hex: "hex_bytes s = Some b \<Longrightarrow> toBytes (HexStr (''0x'' @ s)) = b"
  by (simp add: toBytes_def starts_with_def parse_pairs_hex_bytes)

lemma toBytes_toHex [simp]: "toBytes (HexStr (toHex b)) = b"
  unfolding toHex_eq by (rule toBytes_hex) simp

lemma toBytes_Raw [simp]: "toBytes (Raw b) = b"
  by (simp add: toBytes_def)

lemma xor_eq_0 [simp]: "(a XOR b = 0) = (a = (b :: 8 word))"
proof
  assume "a XOR b = 0"
  then have "(a XOR b) XOR b = b" by simp
  then show "a = b" by (simp add: xor.assoc)
qed simp

lemma constantTimeEqual_iff [simp]: "constantTimeEqual a b \<longleftrightarrow> a = b"
proof -
  have "foldl (\<lambda>diff i. diff OR (a ! i XOR b ! i)) acc js = 0 \<longleftrightarrow> acc = 0 \<and> (\<forall>i \<in> set js. a ! i = b ! i)"
    for acc js
    by (induction js arbitrary: acc) (auto simp: or_eq_0_iff)
  then have "constantTimeEqual a b \<longleftrightarrow> length a = length b \<and> (\<forall>i < length a. a ! i = b ! i)"
    by (auto simp: constantTimeEqual_def)
  also have "\<dots> \<longleftrightarrow> a = b" by (rule list_eq_iff_nth_eq [symmetric])
  finally show ?thesis .
qed

text \<open>The key derivation always returns the number of bytes asked for.\<close>

lemma kdf_loop_total:
  assumes "\<And>b. sha256 N b \<noteq> []" "outputLen \<le> fuel + length out"
  shows "\<exists>d. kdf_loop fuel N z outputLen out counter = Some (out @ d) \<and> length (out @ d) = max (length out) outputLen"
  using assms(2)
proof (induction fuel arbitrary: out counter)
  case 0
  then show ?case by (simp add: kdf_loop.simps)
next
  case (Suc fuel)
  show ?case
  proof (cases "length out < outputLen")
    case True
    let ?block = "sha256 N (be_bytes 4 counter @ z)"
    let ?n = "min (length ?block) (outputLen - length out)"
    have "1 \<le> ?n" using assms(1) True by (simp add: Suc_le_eq)
    then have "outputLen \<le> fuel + length (out @ take ?n ?block)" using Suc.prems by (simp add: min_def split: if_splits)
    from Suc.IH [OF this, of "counter + 1"] obtain d where
      "kdf_loop fuel N z outputLen (out @ take ?n ?block) (counter + 1) = Some (out @ take ?n ?block @ d)"
      "length (out @ take ?n ?block @ d) = max (length (out @ take ?n ?block)) outputLen"
      by auto
    with True show ?thesis
      by (intro exI [of _ "take ?n ?block @ d"])
         (simp add: kdf_loop.simps [of "Suc fuel"] Let_def max_def min_def split: if_splits)
  qed (simp add: kdf_loop.simps)
qed

lemma concatKDF_total:
  assumes "noble_documented N"
  shows "\<exists>d. concatKDF N z n = Some d \<and> length d = n"
proof -
  have "sha256 N b \<noteq> []" for b using assms unfolding noble_documented_def by (metis length_0_conv zero_neq_numeral)
  from kdf_loop_total [OF this, of n n "[]" z 1] show ?thesis by (simp add: concatKDF_def)
qed

lemma noble_lengths:
  assumes "noble_documented N"
  shows "length (sha256 N b) = 32" "length (hmac_sha256 N k b) = 32"
    "length (ctr_encrypt N k iv m) = length m" "ctr_decrypt N k iv (ctr_encrypt N k iv m) = m"
  using assms by (simp_all add: noble_documented_def)

lemma encrypt_cases:
  assumes "noble_documented N" "valid_private N eph" "valid_private N key" "length iv = IV_LEN"
    "normalizeTeePublicKey N pub = Inr (getPublicKey N key)"
  shows "\<exists>z ek mk. sharedSecretX N eph (getPublicKey N key) = Inr z \<and>
    sharedSecretX N key (getPublicKey N eph) = Inr z \<and> deriveKeys N z = (ek, mk) \<and>
    eciesEncrypt N eph iv pub msg = Inr (toHex (getPublicKey N eph @ iv @ ctr_encrypt N ek iv msg @
      hmac_sha256 N mk (iv @ ctr_encrypt N ek iv msg)))"
proof -
  from assms(1-3) obtain p where "getSharedSecret N eph (getPublicKey N key) = Inr p"
    "getSharedSecret N key (getPublicKey N eph) = Inr p"
    unfolding noble_documented_def by blast
  then have z: "sharedSecretX N eph (getPublicKey N key) = Inr (take 32 (drop 1 p))"
    "sharedSecretX N key (getPublicKey N eph) = Inr (take 32 (drop 1 p))"
    by (simp_all add: sharedSecretX_def)
  obtain ek mk where k: "deriveKeys N (take 32 (drop 1 p)) = (ek, mk)" by fastforce
  with z assms(5) show ?thesis by (simp add: eciesEncrypt_def Let_def)
qed

lemma decrypt_encrypted:
  assumes "noble_documented N" "valid_private N eph" "valid_private N key" "length iv = IV_LEN"
    and "normalizeTeePublicKey N pub = Inr (getPublicKey N key)"
  shows "\<exists>data. eciesEncrypt N eph iv pub msg = Inr (toHex data) \<and> eciesDecrypt N (Raw key) (Raw data) = Inr msg"
proof -
  obtain z ek mk where e: "sharedSecretX N key (getPublicKey N eph) = Inr z" "deriveKeys N z = (ek, mk)"
    "eciesEncrypt N eph iv pub msg = Inr (toHex (getPublicKey N eph @ iv @ ctr_encrypt N ek iv msg @
      hmac_sha256 N mk (iv @ ctr_encrypt N ek iv msg)))"
    using encrypt_cases [OF assms] by blast
  have p: "length (getPublicKey N eph) = 65" "hd (getPublicKey N eph) = 4"
    using assms(1,2) by (simp_all add: noble_documented_def)
  then have "getPublicKey N eph \<noteq> []" by auto
  with p e noble_lengths [OF assms(1)] assms(4) show ?thesis
    by (intro exI [of _ "getPublicKey N eph @ iv @ ctr_encrypt N ek iv msg @ hmac_sha256 N mk (iv @ ctr_encrypt N ek iv msg)"])
       (simp add: eciesDecrypt_def Let_def)
qed

definition demo_noble :: noble where
  "demo_noble = \<lparr> sha256 = demo_hash, hmac_sha256 = (\<lambda>k b. demo_hash (k @ b)),
     ctr_encrypt = (\<lambda>k iv. map (\<lambda>b. b XOR hd (k @ [7]))), ctr_decrypt = (\<lambda>k iv. map (\<lambda>b. b XOR hd (k @ [7]))),
     valid_private = (\<lambda>k. length k = 32), getPublicKey = (\<lambda>k. 4 # k @ k),
     getSharedSecret = (\<lambda>k p. Inr (4 # map2 (XOR) k (take 32 (drop 1 p)) @ replicate 32 0)),
     decompress = (\<lambda>b. Inr (4 # drop 1 b @ drop 1 b)) \<rparr>"

lemma demo_noble_documented: "noble_documented demo_noble"
proof -
  have c: "map2 (XOR) k l = map2 (XOR) l k" for k l :: bytes
    by (rule nth_equalityI) (auto simp: xor.commute)
  show ?thesis
    by (auto simp: noble_documented_def demo_noble_def demo_hash_def comp_def xor.assoc c [of k l for k l]
        simp del: be_bytes.simps)
qed

section \<open>Properties\<close>

text \<open>C30: What the browser seals the machine opens: for a machine key in any of the accepted forms, a
  16-byte IV and any message, decryption with the machine's private key gives the message back.\<close>

theorem ecies_round_trip:
  assumes "noble_documented N" "valid_private N eph" "valid_private N key" "length iv = IV_LEN"
    and "normalizeTeePublicKey N pub = Inr (getPublicKey N key)"
  shows "\<exists>c. eciesEncrypt N eph iv pub msg = Inr c \<and> eciesDecrypt N (Raw key) (HexStr c) = Inr msg"
proof -
  obtain data where "eciesEncrypt N eph iv pub msg = Inr (toHex data)" "eciesDecrypt N (Raw key) (Raw data) = Inr msg"
    using decrypt_encrypted [OF assms] by blast
  then show ?thesis by (simp add: eciesDecrypt_def)
qed

theorem ecies_round_trip_witness:
  "\<exists>c. eciesEncrypt demo_noble (replicate 32 1) (replicate 16 9) (HexStr (toHex (4 # replicate 64 2))) (utf8_bytes ''hi'') = Inr c \<and>
     eciesDecrypt demo_noble (Raw (replicate 32 2)) (HexStr c) = Inr (utf8_bytes ''hi'')"
proof (rule ecies_round_trip [OF demo_noble_documented])
  show "normalizeTeePublicKey demo_noble (HexStr (toHex (4 # replicate 64 2))) = Inr (getPublicKey demo_noble (replicate 32 2))"
    by (simp add: normalizeTeePublicKey_def demo_noble_def flip: replicate_add)
qed (simp_all add: demo_noble_def)

text \<open>C12: Nothing unauthenticated is ever decrypted: whatever bytes are accepted are an uncompressed point,
  an IV and a ciphertext followed by the MAC of the IV and the ciphertext under the derived key.\<close>

theorem eciesDecrypt_authentic:
  assumes "eciesDecrypt N (Raw key) (Raw data) = Inr msg"
  shows "\<exists>R iv ct z ek mk. data = R @ iv @ ct @ hmac_sha256 N mk (iv @ ct) \<and> length R = PUBKEY_LEN \<and>
    hd R = 4 \<and> length iv = IV_LEN \<and> sharedSecretX N key R = Inr z \<and> deriveKeys N z = (ek, mk) \<and>
    msg = ctr_decrypt N ek iv ct"
proof -
  let ?R = "take 65 data" and ?body = "take (length data - 32 - 65) (drop 65 data)"
  have len: "113 \<le> length data" and hd: "hd data = 4"
    using assms by (auto simp: eciesDecrypt_def Let_def split: if_splits)
  obtain z where z: "sharedSecretX N key ?R = Inr z"
    using assms by (cases "sharedSecretX N key ?R") (auto simp: eciesDecrypt_def Let_def split: if_splits)
  obtain ek mk where k: "deriveKeys N z = (ek, mk)" by fastforce
  have tag: "hmac_sha256 N mk ?body = drop (length data - 32) data"
    and m: "msg = ctr_decrypt N ek (take 16 ?body) (drop 16 ?body)"
    using assms len hd z k by (simp_all add: eciesDecrypt_def Let_def split: if_splits)
  have "data = ?R @ drop 65 data" by simp
  also have "drop 65 data = ?body @ drop (length data - 32 - 65) (drop 65 data)"
    by (rule append_take_drop_id [symmetric])
  also have "drop (length data - 32 - 65) (drop 65 data) = drop (length data - 32) data"
    using len by simp
  finally have "data = ?R @ take 16 ?body @ drop 16 ?body @ hmac_sha256 N mk (take 16 ?body @ drop 16 ?body)"
    using tag by (metis append.assoc append_take_drop_id)
  moreover have "length ?R = 65" "hd ?R = 4" "length (take 16 ?body) = 16"
    using len hd by (simp_all add: hd_conv_nth)
  ultimately show ?thesis using z k m by blast
qed

theorem eciesDecrypt_authentic_witness:
  "\<exists>data R iv ct mk. eciesDecrypt demo_noble (Raw (replicate 32 2)) (Raw data) = Inr (utf8_bytes ''hi'') \<and>
     data = R @ iv @ ct @ hmac_sha256 demo_noble mk (iv @ ct)"
proof -
  have n: "normalizeTeePublicKey demo_noble (Raw (4 # replicate 64 2)) = Inr (getPublicKey demo_noble (replicate 32 2))"
    by (simp add: normalizeTeePublicKey_def demo_noble_def flip: replicate_add)
  have v: "valid_private demo_noble (replicate 32 1)" "valid_private demo_noble (replicate 32 2)"
    "length (replicate 16 (9 :: 8 word)) = IV_LEN" by (simp_all add: demo_noble_def)
  have "\<exists>data. eciesDecrypt demo_noble (Raw (replicate 32 2)) (Raw data) = Inr (utf8_bytes ''hi'')"
    using decrypt_encrypted [OF demo_noble_documented v n] by blast
  then show ?thesis using eciesDecrypt_authentic by metis
qed

end
