(* ===== verification/TeeInfo.thy ===== *)
theory TeeInfo
  imports Ecies Handlers
begin

text \<open>
  Reading the machine's public key out of the proxy's /info response
  (packages/policy/src/tee-info.ts).
\<close>

record tee_point =
  pt_x :: string
  pt_y :: string

definition UNCOMPRESSED :: string where
  "UNCOMPRESSED = ''04''"

text \<open>The property of an object; any other value has none of the names read here.\<close>

definition object_prop :: "jsv \<Rightarrow> string \<Rightarrow> jsv" where
  "object_prop v k = (case v of JObj kvs \<Rightarrow> get_prop kvs k | _ \<Rightarrow> JUndef)"

definition point_of :: "jsv \<Rightarrow> tee_point option" where
  "point_of candidate =
     (case (object_prop candidate ''x'', object_prop candidate ''y'') of
        (JStr x, JStr y) \<Rightarrow> Some \<lparr> pt_x = x, pt_y = y \<rparr>
      | _ \<Rightarrow> None)"

fun find_in_sections :: "jsv \<Rightarrow> string list \<Rightarrow> tee_point option" where
  "find_in_sections obj [] = None"
| "find_in_sections obj (key # keys) =
     (let section' = object_prop obj key in
      if \<not> is_object section' then find_in_sections obj keys
      else
        (case point_of (object_prop section' ''publicKey'') of
           Some p \<Rightarrow> Some p
         | None \<Rightarrow> find_in_sections obj keys))"

definition findPublicKey :: "jsv \<Rightarrow> tee_point option" where
  "findPublicKey info = (if is_object info then find_in_sections info [''machineData'', ''teeInfo''] else None)"

definition stripHex :: "string \<Rightarrow> string" where
  "stripHex value = (if starts_with ''0x'' value \<or> starts_with ''0X'' value then drop 2 value else value)"

definition teePublicKeyFromInfo :: "jsv \<Rightarrow> js_error + string" where
  "teePublicKeyFromInfo info =
     (case findPublicKey info of
        None \<Rightarrow> Inl (Err (''extension proxy /info has no machineData.publicKey -- the machine is probably '' @
                  ''not registered yet, or the proxy is serving a different extension''))
      | Some point \<Rightarrow>
          (let x = stripHex (pt_x point); y = stripHex (pt_y point) in
           if js_length x \<noteq> 64 \<or> js_length y \<noteq> 64 then
             Inl (Err (''unexpected public key coordinates: x is '' @ num_str (of_nat (js_length x) / 2) @
               '' bytes, y is '' @ num_str (of_nat (js_length y) / 2) @ '' bytes; both must be 32''))
           else Inr (''0x'' @ UNCOMPRESSED @ x @ y)))"

section \<open>Lemmas\<close>

text \<open>The response a live proxy gives for a registered machine, with either section.\<close>

definition info_response :: "(string \<times> jsv) list \<Rightarrow> string \<Rightarrow> string \<Rightarrow> string \<Rightarrow> jsv" where
  "info_response rest key x y =
     JObj ((key, JObj [(''publicKey'', JObj [(''x'', JStr x), (''y'', JStr y)])]) # rest)"

lemma find_response:
  "key \<in> {''machineData'', ''teeInfo''} \<Longrightarrow>
   key = ''teeInfo'' \<longrightarrow> get_prop rest ''machineData'' = JUndef \<Longrightarrow>
   findPublicKey (info_response rest key x y) = Some \<lparr> pt_x = x, pt_y = y \<rparr>"
  by (auto simp: findPublicKey_def info_response_def is_object_def object_prop_def point_of_def get_prop_def Let_def)

lemma hex_digit_zero: "hex_digit 0 = CHR ''0''" "hex_digit 4 = CHR ''4''"
  by code_simp+

text \<open>From the coordinates to the key that is sealed to.\<close>

lemma normalized_key:
  assumes "length X = 32" "length Y = 32" "px \<in> {[], ''0x'', ''0X''}" "py \<in> {[], ''0x'', ''0X''}"
    and "key = ''machineData'' \<or> key = ''teeInfo'' \<and> get_prop rest ''machineData'' = JUndef"
  shows "\<exists>k. teePublicKeyFromInfo (info_response rest key (px @ bytes_hex X) (py @ bytes_hex Y)) = Inr k \<and>
    normalizeTeePublicKey N (HexStr k) = Inr (4 # X @ Y)"
proof -
  have strip: "stripHex (p @ bytes_hex B) = bytes_hex B" if "p \<in> {[], ''0x'', ''0X''}" for p B
  proof -
    have "\<not> starts_with ''0X'' (bytes_hex B)"
    proof
      assume "starts_with ''0X'' (bytes_hex B)"
      then obtain t where t: "bytes_hex B = ''0X'' @ t" by (auto simp: starts_with_iff)
      have "list_all is_hex (''0X'' @ t)" unfolding t [symmetric] by (rule bytes_hex_is_hex)
      then show False by (simp add: is_hex_def hex_val_def)
    qed
    then show ?thesis using that bytes_hex_not_0x by (auto simp: stripHex_def) (simp_all add: starts_with_def)
  qed
  have find: "findPublicKey (info_response rest key (px @ bytes_hex X) (py @ bytes_hex Y)) =
      Some \<lparr> pt_x = px @ bytes_hex X, pt_y = py @ bytes_hex Y \<rparr>"
    by (rule find_response) (use assms(5) in auto)
  have hexes: "list_all is_hex (bytes_hex X)" "list_all is_hex (bytes_hex Y)" by (rule bytes_hex_is_hex)+
  then have len: "js_length (bytes_hex X) = 64" "js_length (bytes_hex Y) = 64"
    using assms(1,2) by (simp_all add: list_all_hex_ascii)
  have key: "''04'' @ bytes_hex X @ bytes_hex Y = bytes_hex (4 # X @ Y)"
    by (simp add: bytes_hex_Cons hex_digit_zero) (simp add: bytes_hex_def)
  have "toBytes (HexStr (''0x'' @ ''04'' @ bytes_hex X @ bytes_hex Y)) = 4 # X @ Y"
    unfolding key by (rule toBytes_hex) simp
  then have "normalizeTeePublicKey N (HexStr (''0x'' @ UNCOMPRESSED @ bytes_hex X @ bytes_hex Y)) = Inr (4 # X @ Y)"
    using assms(1,2) by (simp add: normalizeTeePublicKey_def UNCOMPRESSED_def)
  moreover have "teePublicKeyFromInfo (info_response rest key (px @ bytes_hex X) (py @ bytes_hex Y)) =
      Inr (''0x'' @ UNCOMPRESSED @ bytes_hex X @ bytes_hex Y)"
    by (simp add: teePublicKeyFromInfo_def find strip [OF assms(3)] strip [OF assms(4)] len)
  ultimately show ?thesis by blast
qed

section \<open>Properties\<close>

text \<open>The coordinates a proxy reports, with or without their prefixes, become a key that sealing accepts
  as the 65-byte uncompressed point 04 || X || Y, and machineData wins over teeInfo.\<close>

theorem tee_key_normalizes:
  assumes "length X = 32" "length Y = 32" "px \<in> {[], ''0x'', ''0X''}" "py \<in> {[], ''0x'', ''0X''}"
    and "key = ''machineData'' \<or> key = ''teeInfo'' \<and> get_prop rest ''machineData'' = JUndef"
  shows "\<exists>k. teePublicKeyFromInfo (info_response rest key (px @ bytes_hex X) (py @ bytes_hex Y)) = Inr k \<and>
    normalizeTeePublicKey N (HexStr k) = Inr (4 # X @ Y)"
  using normalized_key [OF assms] .

theorem tee_key_normalizes_witness:
  "\<exists>k. teePublicKeyFromInfo (info_response [] ''teeInfo'' (''0x'' @ bytes_hex (replicate 32 7)) ([] @ bytes_hex (replicate 32 8))) = Inr k \<and>
     normalizeTeePublicKey demo_noble (HexStr k) = Inr (4 # replicate 32 7 @ replicate 32 8)"
  by (rule tee_key_normalizes) (simp_all add: get_prop_def)

end
