(* ===== verification/AbiTables.thy ===== *)
theory AbiTables
  imports JsValue
begin

text \<open>
  The ABI tables of the browser (apps/web/lib/abi.ts, policies.ts), of the
  orchestrator (apps/orchestrator/src/abi.ts) and of its scripts, as data, and the
  canonical signatures they determine: the text whose hash is a function's
  selector or an event's first topic. A component's position, type and name matter
  here; the parsing of type names is by their text, as in the ABI's JSON.
\<close>

section \<open>Tables\<close>

text \<open>An input: its name, its type, whether it is indexed, and its components when it is a tuple.\<close>

datatype abi_input = Input string string bool "abi_input list"

datatype abi_item =
    AbiFunction string string "abi_input list" "abi_input list"
  | AbiEvent string "abi_input list"

subsection \<open>The browser's tables\<close>

definition policyFactoryAbi :: "abi_item list" where
  "policyFactoryAbi =
     [AbiFunction ''deploy'' ''nonpayable''
         [Input ''asset'' ''address'' False [],
          Input ''commitment'' ''bytes32'' False [],
          Input ''attestorGate'' ''address'' False [],
          Input ''trigger'' ''address'' False [],
          Input ''conditions'' ''address[]'' False []]
         [Input ''policy'' ''address'' False []],
      AbiEvent ''PolicyDeployed''
         [Input ''policy'' ''address'' True [],
          Input ''owner'' ''address'' True [],
          Input ''asset'' ''address'' True [],
          Input ''commitment'' ''bytes32'' False [],
          Input ''trigger'' ''address'' False []]]"

definition confidentialPolicyAbi :: "abi_item list" where
  "confidentialPolicyAbi =
     [AbiFunction ''deposit'' ''nonpayable''
         [Input ''amount'' ''uint256'' False []]
         [],
      AbiFunction ''withdraw'' ''nonpayable''
         [Input ''amount'' ''uint256'' False []]
         [],
      AbiFunction ''cancel'' ''nonpayable''
         []
         [],
      AbiFunction ''status'' ''view''
         []
         [Input '''' ''uint8'' False []],
      AbiFunction ''balance'' ''view''
         []
         [Input '''' ''uint256'' False []],
      AbiFunction ''owner'' ''view''
         []
         [Input '''' ''address'' False []],
      AbiFunction ''commitment'' ''view''
         []
         [Input '''' ''bytes32'' False []],
      AbiFunction ''trigger'' ''view''
         []
         [Input '''' ''address'' False []],
      AbiFunction ''triggeredAt'' ''view''
         []
         [Input '''' ''uint256'' False []]]"

definition manualHeartbeatTriggerAbi :: "abi_item list" where
  "manualHeartbeatTriggerAbi =
     [AbiFunction ''configure'' ''nonpayable''
         [Input ''policy'' ''address'' False [],
          Input ''owner'' ''address'' False [],
          Input ''interval'' ''uint64'' False [],
          Input ''demoMode'' ''bool'' False []]
         [],
      AbiFunction ''heartbeat'' ''nonpayable''
         [Input ''policy'' ''address'' False []]
         [],
      AbiFunction ''simulateInactivity'' ''nonpayable''
         [Input ''policy'' ''address'' False []]
         [],
      AbiFunction ''deadlineOf'' ''view''
         [Input ''policy'' ''address'' False []]
         [Input '''' ''uint64'' False []],
      AbiFunction ''configs'' ''view''
         [Input ''policy'' ''address'' False []]
         [Input ''owner'' ''address'' False [], Input ''interval'' ''uint64'' False [], Input ''deadline'' ''uint64'' False [], Input ''demoMode'' ''bool'' False []]]"

definition timestampTriggerAbi :: "abi_item list" where
  "timestampTriggerAbi =
     [AbiFunction ''configure'' ''nonpayable''
         [Input ''policy'' ''address'' False [],
          Input ''executeAfter'' ''uint64'' False []]
         [],
      AbiFunction ''executeAfter'' ''view''
         [Input ''policy'' ''address'' False []]
         [Input '''' ''uint64'' False []]]"

definition fdcNonexistenceTriggerAbi :: "abi_item list" where
  "fdcNonexistenceTriggerAbi =
     [AbiFunction ''configure'' ''nonpayable''
         [Input ''policy'' ''address'' False [],
          Input ''config'' ''tuple'' False [Input ''owner'' ''address'' False [], Input ''sourceId'' ''bytes32'' False [], Input ''destinationAddressHash'' ''bytes32'' False [], Input ''paymentReference'' ''bytes32'' False [], Input ''minimumAmount'' ''uint256'' False [], Input ''interval'' ''uint64'' False [], Input ''start'' ''uint64'' False []]]
         [],
      AbiFunction ''currentDeadline'' ''view''
         [Input ''policy'' ''address'' False []]
         [Input '''' ''uint64'' False []],
      AbiFunction ''policyReference'' ''pure''
         [Input ''policy'' ''address'' False []]
         [Input '''' ''bytes32'' False []]]"

definition erc20Abi :: "abi_item list" where
  "erc20Abi =
     [AbiFunction ''approve'' ''nonpayable''
         [Input ''spender'' ''address'' False [],
          Input ''amount'' ''uint256'' False []]
         [Input '''' ''bool'' False []],
      AbiFunction ''allowance'' ''view''
         [Input ''owner'' ''address'' False [],
          Input ''spender'' ''address'' False []]
         [Input '''' ''uint256'' False []],
      AbiFunction ''balanceOf'' ''view''
         [Input ''account'' ''address'' False []]
         [Input '''' ''uint256'' False []]]"

definition policyInstructionSenderAbi :: "abi_item list" where
  "policyInstructionSenderAbi =
     [AbiFunction ''sendStorePolicy'' ''payable''
         [Input ''_policy'' ''address'' False [],
          Input ''_ciphertext'' ''bytes'' False []]
         []]"

definition teeInstructionsSentAbi :: "abi_item list" where
  "teeInstructionsSentAbi =
     [AbiEvent ''TeeInstructionsSent''
         [Input ''extensionId'' ''uint256'' True [],
          Input ''instructionId'' ''bytes32'' True [],
          Input ''rewardEpochId'' ''uint32'' True [],
          Input ''teeMachines'' ''tuple[]'' False [Input ''teeId'' ''address'' False [], Input ''teeProxyId'' ''address'' False [], Input ''url'' ''string'' False []],
          Input ''opType'' ''bytes32'' False [],
          Input ''opCommand'' ''bytes32'' False [],
          Input ''message'' ''bytes'' False [],
          Input ''cosigners'' ''address[]'' False [],
          Input ''cosignersThreshold'' ''uint64'' False [],
          Input ''claimBackAddress'' ''address'' False [],
          Input ''fee'' ''uint256'' False []]]"

definition triggerKindAbi :: "abi_item list" where
  "triggerKindAbi =
     [AbiFunction ''kind'' ''pure''
         []
         [Input '''' ''string'' False []]]"

subsection \<open>The orchestrator's tables\<close>

definition orch_policyInstructionSenderAbi :: "abi_item list" where
  "orch_policyInstructionSenderAbi =
     [AbiFunction ''setExtensionId'' ''nonpayable''
         []
         [],
      AbiFunction ''sendStorePolicy'' ''payable''
         [Input ''_policy'' ''address'' False [],
          Input ''_ciphertext'' ''bytes'' False []]
         [],
      AbiFunction ''sendEvaluatePolicy'' ''payable''
         [Input ''_policy'' ''address'' False [],
          Input ''_triggeredAt'' ''uint256'' False []]
         []]"

definition orch_teeInstructionsSentAbi :: "abi_item list" where
  "orch_teeInstructionsSentAbi =
     [AbiEvent ''TeeInstructionsSent''
         [Input ''extensionId'' ''uint256'' True [],
          Input ''instructionId'' ''bytes32'' True [],
          Input ''rewardEpochId'' ''uint32'' True [],
          Input ''teeMachines'' ''tuple[]'' False [Input ''teeId'' ''address'' False [], Input ''teeProxyId'' ''address'' False [], Input ''url'' ''string'' False []],
          Input ''opType'' ''bytes32'' False [],
          Input ''opCommand'' ''bytes32'' False [],
          Input ''message'' ''bytes'' False [],
          Input ''cosigners'' ''address[]'' False [],
          Input ''cosignersThreshold'' ''uint64'' False [],
          Input ''claimBackAddress'' ''address'' False [],
          Input ''fee'' ''uint256'' False []]]"

definition orch_confidentialPolicyAbi :: "abi_item list" where
  "orch_confidentialPolicyAbi =
     [AbiFunction ''execute'' ''nonpayable''
         [Input ''shares'' ''tuple[]'' False [Input ''recipient'' ''address'' False [], Input ''shareBps'' ''uint16'' False []],
          Input ''salt'' ''bytes32'' False [],
          Input ''sig'' ''bytes'' False []]
         [],
      AbiFunction ''arm'' ''nonpayable''
         [Input ''proof'' ''bytes'' False []]
         [],
      AbiFunction ''status'' ''view''
         []
         [Input '''' ''uint8'' False []],
      AbiFunction ''triggeredAt'' ''view''
         []
         [Input '''' ''uint256'' False []],
      AbiFunction ''commitment'' ''view''
         []
         [Input '''' ''bytes32'' False []],
      AbiFunction ''balance'' ''view''
         []
         [Input '''' ''uint256'' False []]]"

subsection \<open>The tables of the scripts\<close>

definition check_factoryAbi :: "abi_item list" where
  "check_factoryAbi =
     [AbiFunction ''deploy'' ''nonpayable''
         [Input ''asset'' ''address'' False [],
          Input ''commitment'' ''bytes32'' False [],
          Input ''attestorGate'' ''address'' False [],
          Input ''trigger'' ''address'' False [],
          Input ''conditions'' ''address[]'' False []]
         [Input ''policy'' ''address'' False []],
      AbiEvent ''PolicyDeployed''
         [Input ''policy'' ''address'' True [],
          Input ''owner'' ''address'' True [],
          Input ''asset'' ''address'' True [],
          Input ''commitment'' ''bytes32'' False [],
          Input ''trigger'' ''address'' False []]]"

definition check_heartbeatAbi :: "abi_item list" where
  "check_heartbeatAbi =
     [AbiFunction ''configure'' ''nonpayable''
         [Input ''policy'' ''address'' False [],
          Input ''owner'' ''address'' False [],
          Input ''interval'' ''uint64'' False [],
          Input ''demoMode'' ''bool'' False []]
         []]"

definition demo_factoryAbi :: "abi_item list" where
  "demo_factoryAbi =
     [AbiFunction ''deploy'' ''nonpayable''
         [Input ''asset'' ''address'' False [],
          Input ''commitment'' ''bytes32'' False [],
          Input ''attestorGate'' ''address'' False [],
          Input ''trigger'' ''address'' False [],
          Input ''conditions'' ''address[]'' False []]
         [Input ''policy'' ''address'' False []],
      AbiEvent ''PolicyDeployed''
         [Input ''policy'' ''address'' True [],
          Input ''owner'' ''address'' True [],
          Input ''asset'' ''address'' True [],
          Input ''commitment'' ''bytes32'' False [],
          Input ''trigger'' ''address'' False []]]"

definition demo_heartbeatAbi :: "abi_item list" where
  "demo_heartbeatAbi =
     [AbiFunction ''configure'' ''nonpayable''
         [Input ''policy'' ''address'' False [],
          Input ''owner'' ''address'' False [],
          Input ''interval'' ''uint64'' False [],
          Input ''demoMode'' ''bool'' False []]
         [],
      AbiFunction ''heartbeat'' ''nonpayable''
         [Input ''policy'' ''address'' False []]
         [],
      AbiFunction ''simulateInactivity'' ''nonpayable''
         [Input ''policy'' ''address'' False []]
         [],
      AbiFunction ''deadlineOf'' ''view''
         [Input ''policy'' ''address'' False []]
         [Input '''' ''uint64'' False []]]"

definition demo_erc20Abi :: "abi_item list" where
  "demo_erc20Abi =
     [AbiFunction ''approve'' ''nonpayable''
         [Input ''spender'' ''address'' False [],
          Input ''amount'' ''uint256'' False []]
         [Input '''' ''bool'' False []],
      AbiFunction ''balanceOf'' ''view''
         [Input ''account'' ''address'' False []]
         [Input '''' ''uint256'' False []]]"

definition demo_depositAbi :: "abi_item list" where
  "demo_depositAbi =
     [AbiFunction ''deposit'' ''nonpayable''
         [Input ''amount'' ''uint256'' False []]
         []]"

subsection \<open>Status names and fee\<close>

definition INSTRUCTION_FEE :: int where "INSTRUCTION_FEE = 1000000"

definition orch_INSTRUCTION_FEE :: int where "orch_INSTRUCTION_FEE = 1000000"

definition PolicyStatus :: "(nat \<times> string) list" where
  "PolicyStatus = [(0, ''Active''), (1, ''Triggered''), (2, ''Executed''), (3, ''Cancelled'')]"

definition orch_PolicyStatus :: "(string \<times> nat) list" where
  "orch_PolicyStatus = [(''Active'', 0), (''Triggered'', 1), (''Executed'', 2), (''Cancelled'', 3)]"

section \<open>Canonical signatures\<close>

fun input_type :: "abi_input \<Rightarrow> string" where
  "input_type (Input n t i cs) =
     (if starts_with ''tuple'' t then ''('' @ join_with '','' (map input_type cs) @ '')'' @ drop 5 t else t)"

definition input_indexed :: "abi_input \<Rightarrow> bool" where
  "input_indexed i = (case i of Input _ _ b _ \<Rightarrow> b)"

fun item_name :: "abi_item \<Rightarrow> string" where
  "item_name (AbiFunction n m is os) = n"
| "item_name (AbiEvent n is) = n"

fun item_inputs :: "abi_item \<Rightarrow> abi_input list" where
  "item_inputs (AbiFunction n m is os) = is"
| "item_inputs (AbiEvent n is) = is"

definition signature :: "abi_item \<Rightarrow> string" where
  "signature i = item_name i @ ''('' @ join_with '','' (map input_type (item_inputs i)) @ '')''"

definition abi_event :: "string \<Rightarrow> abi_item list \<Rightarrow> abi_item option" where
  "abi_event n items = find (\<lambda>i. case i of AbiEvent m _ \<Rightarrow> m = n | _ \<Rightarrow> False) items"

definition signatures :: "abi_item list \<Rightarrow> string list" where
  "signatures items = map signature items"

end
