(* ===== verification/ChainEnv.thy ===== *)
theory ChainEnv
  imports ExtEncoding Json AbiTables
begin

text \<open>
  The outside world of the orchestrator and of the browser: the chain behind viem's
  clients, the enclave's HTTP proxy, the clock and the browser's storage. It is a
  parameter: the record \<open>env\<close> answers every request from the trace of the events so
  far, so it may change its mind between two identical requests. An asynchronous
  function is an \<open>act\<close>: from the trace to a value or the exception it throws, and
  the longer trace. Everything proved about an act holds for every environment.
\<close>

section \<open>Events, answers, exceptions\<close>

text \<open>A thrown object: its \<open>code\<close>, its \<open>shortMessage\<close>, its \<open>message\<close> and, for a \<open>DeployError\<close>, its \<open>step\<close>.\<close>

datatype thrown = Thrown (thrown_code: "int option") (thrown_short: "string option") (thrown_message: string)
  (thrown_step: "string option")

definition new_error :: "string \<Rightarrow> thrown" where
  "new_error m = Thrown None None m None"

definition thrown_of :: "js_error \<Rightarrow> thrown" where
  "thrown_of e = new_error (error_message e)"

record contract_call =
  call_to :: string
  call_fn :: string
  call_args :: "jsv list"
  call_value :: int

record log_entry =
  log_address :: string
  log_data :: string
  log_topics :: "string list"

record tx_receipt =
  receipt_status :: string
  receipt_logs :: "log_entry list"

record http_reply =
  http_ok :: bool
  http_status :: int
  http_type :: string
  http_body :: string

text \<open>A step of the deploy flow, as it is reported to the dialog.\<close>

record deploy_step =
  step_id :: string
  step_label :: string
  step_status :: string
  step_tx :: "string option"
  step_note :: "string option"

datatype event =
    Simulated contract_call
  | Written contract_call
  | Awaited string
  | ReadContract string string "jsv list"
  | Fetched string
  | Slept int
  | Stored string string
  | GotLogs string string int
  | Progress "deploy_step list"

record env =
  env_simulate :: "event list \<Rightarrow> contract_call \<Rightarrow> thrown + unit"
  env_write :: "event list \<Rightarrow> contract_call \<Rightarrow> thrown + string"
  env_receipt :: "event list \<Rightarrow> string \<Rightarrow> thrown + tx_receipt"
  env_read :: "event list \<Rightarrow> string \<Rightarrow> string \<Rightarrow> jsv list \<Rightarrow> thrown + jsv"
  env_fetch :: "event list \<Rightarrow> string \<Rightarrow> thrown + http_reply"
  env_clock :: "event list \<Rightarrow> int"
  env_storage :: "string \<Rightarrow> string option"
  env_set_item :: "event list \<Rightarrow> string \<Rightarrow> string \<Rightarrow> thrown + unit"
  env_logs :: "event list \<Rightarrow> string \<Rightarrow> string \<Rightarrow> int \<Rightarrow> thrown + jsv list"
  env_wallet :: bool \<comment> \<open>an injected wallet is present\<close>

section \<open>Acts\<close>

text \<open>
  The combinators work over any state; an \<open>act\<close> is the instance whose state is the trace.
\<close>

type_synonym ('s, 'a) step = "'s \<Rightarrow> (thrown + 'a) \<times> 's"
type_synonym 'a act = "(event list, 'a) step"

definition act_return :: "'a \<Rightarrow> ('s, 'a) step" where
  "act_return a t = (Inr a, t)"

definition act_throw :: "thrown \<Rightarrow> ('s, 'a) step" where
  "act_throw e t = (Inl e, t)"

definition act_bind :: "('s, 'a) step \<Rightarrow> ('a \<Rightarrow> ('s, 'b) step) \<Rightarrow> ('s, 'b) step" where
  "act_bind m f t = (case m t of (Inl e, t') \<Rightarrow> (Inl e, t') | (Inr a, t') \<Rightarrow> f a t')"

definition act_catch :: "('s, 'a) step \<Rightarrow> (thrown \<Rightarrow> ('s, 'a) step) \<Rightarrow> ('s, 'a) step" where
  "act_catch m h t = (case m t of (Inl e, t') \<Rightarrow> h e t' | (Inr a, t') \<Rightarrow> (Inr a, t'))"

definition act_lift :: "thrown + 'a \<Rightarrow> ('s, 'a) step" where
  "act_lift r t = (r, t)"

definition act_emit :: "event \<Rightarrow> unit act" where
  "act_emit e t = (Inr (), t @ [e])"

definition simulateContract :: "env \<Rightarrow> contract_call \<Rightarrow> unit act" where
  "simulateContract E c t = (env_simulate E t c, t @ [Simulated c])"

definition writeContract :: "env \<Rightarrow> contract_call \<Rightarrow> string act" where
  "writeContract E c t = (env_write E t c, t @ [Written c])"

definition waitForTransactionReceipt :: "env \<Rightarrow> string \<Rightarrow> tx_receipt act" where
  "waitForTransactionReceipt E h t = (env_receipt E t h, t @ [Awaited h])"

definition readContract :: "env \<Rightarrow> string \<Rightarrow> string \<Rightarrow> jsv list \<Rightarrow> jsv act" where
  "readContract E a f args t = (env_read E t a f args, t @ [ReadContract a f args])"

definition fetch :: "env \<Rightarrow> string \<Rightarrow> http_reply act" where
  "fetch E url t = (env_fetch E t url, t @ [Fetched url])"

definition sleep :: "int \<Rightarrow> unit act" where
  "sleep ms t = (Inr (), t @ [Slept ms])"

definition clock :: "env \<Rightarrow> int act" where
  "clock E t = (Inr (env_clock E t), t)"

text \<open>\<open>localStorage\<close>: the last value written in the trace, else what was there before.\<close>

definition stored_value :: "env \<Rightarrow> string \<Rightarrow> event list \<Rightarrow> string option" where
  "stored_value E k t =
     (case find (\<lambda>e. case e of Stored k' _ \<Rightarrow> k' = k | _ \<Rightarrow> False) (rev t) of
        Some (Stored _ v) \<Rightarrow> Some v
      | _ \<Rightarrow> env_storage E k)"

definition setItem :: "env \<Rightarrow> string \<Rightarrow> string \<Rightarrow> unit act" where
  "setItem E k v t = (case env_set_item E t k v of Inl e \<Rightarrow> (Inl e, t) | Inr _ \<Rightarrow> (Inr (), t @ [Stored k v]))"

text \<open>\<open>getLogs\<close> of the factory's PolicyDeployed events with a given owner, from a block on: the \<open>args\<close> of each.\<close>

definition getLogs :: "env \<Rightarrow> string \<Rightarrow> string \<Rightarrow> int \<Rightarrow> jsv list act" where
  "getLogs E a owner fromBlock t = (env_logs E t a owner fromBlock, t @ [GotLogs a owner fromBlock])"

lemmas act_defs = act_return_def act_throw_def act_bind_def act_catch_def act_lift_def act_emit_def
  simulateContract_def writeContract_def waitForTransactionReceipt_def readContract_def fetch_def
  sleep_def clock_def setItem_def getLogs_def

lemmas act_prims = act_return_def act_throw_def act_lift_def act_emit_def simulateContract_def
  writeContract_def waitForTransactionReceipt_def readContract_def fetch_def sleep_def clock_def getLogs_def

lemma act_bind_Inr:
  "act_bind m f t = (Inr b, t') \<longleftrightarrow> (\<exists>a t1. m t = (Inr a, t1) \<and> f a t1 = (Inr b, t'))"
  by (auto simp: act_bind_def split: prod.splits sum.splits)

lemma act_bind_Inl:
  "act_bind m f t = (Inl e, t') \<longleftrightarrow> m t = (Inl e, t') \<or> (\<exists>a t1. m t = (Inr a, t1) \<and> f a t1 = (Inl e, t'))"
  by (auto simp: act_bind_def split: prod.splits sum.splits)

text \<open>Acts only add to the trace.\<close>

definition extends :: "'a act \<Rightarrow> bool" where
  "extends m \<longleftrightarrow> (\<forall>t r t'. m t = (r, t') \<longrightarrow> (\<exists>u. t' = t @ u))"

lemma extends_bind: "extends m \<Longrightarrow> (\<And>a. extends (f a)) \<Longrightarrow> extends (act_bind m f)"
  unfolding extends_def act_bind_def
  by (auto split: prod.splits sum.splits) (metis append.assoc)

lemma extends_prims [simp]:
  "extends (act_return a)" "extends (act_throw e)" "extends (act_lift r)" "extends (simulateContract E c)"
  "extends (writeContract E c)" "extends (waitForTransactionReceipt E h)" "extends (readContract E x f as)"
  "extends (fetch E u)" "extends (sleep ms)" "extends (clock E)" "extends (act_emit ev)"
  "extends (setItem E k v)" "extends (getLogs E x own b)"
  by (auto simp: extends_def act_defs split: sum.splits)

section \<open>Replies and texts\<close>

text \<open>\<open>String(v)\<close> for the values a JSON number, string or literal parses to.\<close>

definition js_text :: "jsv \<Rightarrow> string" where
  "js_text v =
     (case v of JUndef \<Rightarrow> ''undefined'' | JNull \<Rightarrow> ''null'' | JBool b \<Rightarrow> (if b then ''true'' else ''false'')
      | JNum r \<Rightarrow> num_str r | JStr s \<Rightarrow> s | JBig i \<Rightarrow> int_str i | _ \<Rightarrow> ''[object Object]'')"

text \<open>\<open>url.replace(/\/$/, '')\<close>, and \<open>response.json()\<close>.\<close>

definition strip_slash :: "string \<Rightarrow> string" where
  "strip_slash url = (if url \<noteq> [] \<and> last url = CHR ''/'' then butlast url else url)"

definition parse_body :: "(string \<Rightarrow> string) \<Rightarrow> string \<Rightarrow> thrown + jsv" where
  "parse_body se body = (case json_parse body of None \<Rightarrow> Inl (new_error (se body)) | Some v \<Rightarrow> Inr v)"

section \<open>Reading an event out of a receipt\<close>

text \<open>
  The interface of the functions that scan a receipt's logs for one event: the
  first log that decodes to it gives the result, the others are skipped, and its
  absence is an exception.
\<close>

locale log_scan =
  fixes scan :: "log_entry list \<Rightarrow> thrown + 'a" and hit :: "log_entry \<Rightarrow> 'a option" and missing :: thrown
  assumes scan_Nil: "scan [] = Inl missing"
    and scan_Cons: "scan (l # ls) = (case hit l of Some a \<Rightarrow> Inr a | None \<Rightarrow> scan ls)"
begin

lemma scan_skip: "(\<And>l. l \<in> set ls \<Longrightarrow> hit l = None) \<Longrightarrow> scan (ls @ ms) = scan ms"
  by (induction ls) (auto simp: scan_Cons)

lemma scan_found: "(\<And>l. l \<in> set ls \<Longrightarrow> hit l = None) \<Longrightarrow> hit l = Some a \<Longrightarrow> scan (ls @ l # ms) = Inr a"
  by (simp add: scan_skip scan_Cons)

lemma scan_Inr_iff:
  "scan ls = Inr a \<longleftrightarrow> (\<exists>xs l ys. ls = xs @ l # ys \<and> (\<forall>x \<in> set xs. hit x = None) \<and> hit l = Some a)"
proof
  show "scan ls = Inr a \<Longrightarrow> \<exists>xs l ys. ls = xs @ l # ys \<and> (\<forall>x \<in> set xs. hit x = None) \<and> hit l = Some a"
  proof (induction ls)
    case (Cons l ls)
    show ?case
    proof (cases "hit l")
      case None
      with Cons obtain xs m ys where "ls = xs @ m # ys" "\<forall>x \<in> set xs. hit x = None" "hit m = Some a"
        by (auto simp: scan_Cons)
      with None show ?thesis by (intro exI [of _ "l # xs"] exI [of _ m] exI [of _ ys]) simp
    next
      case (Some b)
      with Cons.prems show ?thesis by (intro exI [of _ "[]"]) (simp add: scan_Cons)
    qed
  qed (simp add: scan_Nil)
qed (auto simp: scan_found)

lemma scan_error_iff: "scan ls = Inl e \<longleftrightarrow> e = missing \<and> (\<forall>l \<in> set ls. hit l = None)"
  by (induction ls) (auto simp: scan_Nil scan_Cons split: option.split)

end

text \<open>
  \<open>decodeEventLog\<close> of viem, a parameter: from the tables and a log to the event's
  name and its arguments, or an exception.
\<close>

type_synonym decoder = "abi_item list \<Rightarrow> log_entry \<Rightarrow> thrown + string \<times> (string \<times> jsv) list"

end
