(* ===== verification/Base64.thy ===== *)
theory Base64
  imports Codecs
begin

text \<open>
  Base64 as Node's \<open>Buffer\<close> reads and writes it: encoding in the standard alphabet
  with padding; decoding of the standard and the URL alphabet, which stops at the
  first padding character and skips characters outside the alphabet. The hex
  decoder of \<open>Buffer\<close> stops at the first pair that is not hex.
\<close>

definition b64_char :: "nat \<Rightarrow> char" where
  "b64_char n =
     (if n < 26 then char_of (65 + n) else if n < 52 then char_of (71 + n)
      else if n < 62 then char_of (n - 4) else if n = 62 then CHR ''+'' else CHR ''/'')"

definition b64_val :: "char \<Rightarrow> nat option" where
  "b64_val c =
     (let n = of_char c :: nat in
      if 65 \<le> n \<and> n \<le> 90 then Some (n - 65)
      else if 97 \<le> n \<and> n \<le> 122 then Some (n - 71)
      else if 48 \<le> n \<and> n \<le> 57 then Some (n + 4)
      else if n = 43 \<or> n = 45 then Some 62
      else if n = 47 \<or> n = 95 then Some 63
      else None)"

fun b64_encode :: "bytes \<Rightarrow> string" where
  "b64_encode [] = []"
| "b64_encode [a] = [b64_char (unat a div 4), b64_char (unat a mod 4 * 16), CHR ''='', CHR ''='']"
| "b64_encode [a, b] = [b64_char (unat a div 4), b64_char (unat a mod 4 * 16 + unat b div 16),
     b64_char (unat b mod 16 * 4), CHR ''='']"
| "b64_encode (a # b # c # bs) =
     b64_char (unat a div 4) # b64_char (unat a mod 4 * 16 + unat b div 16) #
     b64_char (unat b mod 16 * 4 + unat c div 64) # b64_char (unat c mod 64) # b64_encode bs"

fun b64_groups :: "nat list \<Rightarrow> bytes" where
  "b64_groups (p # q # r # s # vs) =
     of_nat (4 * p + q div 16) # of_nat (q mod 16 * 16 + r div 4) # of_nat (r mod 4 * 64 + s) # b64_groups vs"
| "b64_groups [p, q, r] = [of_nat (4 * p + q div 16), of_nat (q mod 16 * 16 + r div 4)]"
| "b64_groups [p, q] = [of_nat (4 * p + q div 16)]"
| "b64_groups _ = []"

definition b64_decode :: "string \<Rightarrow> bytes" where
  "b64_decode s = b64_groups (List.map_filter b64_val (takeWhile (\<lambda>c. c \<noteq> CHR ''='') s))"

fun buffer_hex :: "string \<Rightarrow> bytes" where
  "buffer_hex (c # d # s) = (case hex_pair c d of None \<Rightarrow> [] | Some b \<Rightarrow> b # buffer_hex s)"
| "buffer_hex _ = []"

lemma b64_val_char [simp]: "n < 64 \<Longrightarrow> b64_val (b64_char n) = Some n"
  by (auto simp: b64_val_def b64_char_def Let_def)

lemma b64_char_not_pad [simp]: "n < 64 \<Longrightarrow> b64_char n \<noteq> CHR ''=''"
proof
  assume n: "n < 64" and c: "b64_char n = CHR ''=''"
  have "b64_val CHR ''='' = None" by code_simp
  with n c show False using b64_val_char [OF n] by simp
qed

lemma byte_parts: "unat (a :: 8 word) div 4 < 64" "unat a mod 4 * 16 < 64" "unat a div 16 < 16" "unat a div 64 < 4"
  using unat_byte_less [of a] by auto

lemma sextets:
  "unat (a :: 8 word) mod 4 * 16 + unat (b :: 8 word) div 16 < 64"
  "unat b mod 16 * 4 + unat (c :: 8 word) div 64 < 64"
  "unat b mod 16 * 4 < 64" "unat c mod 64 < 64"
proof -
  have "unat a mod 4 < 4" "unat b mod 16 < 16" "unat b div 16 < 16" "unat c div 64 < 4"
    using unat_byte_less [of b] unat_byte_less [of c] by auto
  then show "unat a mod 4 * 16 + unat b div 16 < 64" "unat b mod 16 * 4 + unat c div 64 < 64"
    "unat b mod 16 * 4 < 64" "unat c mod 64 < 64" by auto
qed

lemma join_bytes:
  "of_nat (4 * (unat a div 4) + (unat a mod 4 * 16 + unat b div 16) div 16) = (a :: 8 word)"
  "of_nat ((unat a mod 4 * 16 + unat b div 16) mod 16 * 16 + (unat b mod 16 * 4 + unat c div 64) div 4) = (b :: 8 word)"
  "of_nat ((unat b mod 16 * 4 + unat c div 64) mod 4 * 64 + unat c mod 64) = (c :: 8 word)"
proof -
  have d: "unat b div 16 < 16" "unat c div 64 < 4" using unat_byte_less [of b] unat_byte_less [of c] by auto
  have "4 * (unat a div 4) + (unat a mod 4 * 16 + unat b div 16) div 16 = unat a" using d by simp
  moreover have "(unat a mod 4 * 16 + unat b div 16) mod 16 * 16 + (unat b mod 16 * 4 + unat c div 64) div 4 = unat b"
    using d by simp
  moreover have "(unat b mod 16 * 4 + unat c div 64) mod 4 * 64 + unat c mod 64 = unat c" using d by simp
  ultimately show "of_nat (4 * (unat a div 4) + (unat a mod 4 * 16 + unat b div 16) div 16) = a"
    "of_nat ((unat a mod 4 * 16 + unat b div 16) mod 16 * 16 + (unat b mod 16 * 4 + unat c div 64) div 4) = b"
    "of_nat ((unat b mod 16 * 4 + unat c div 64) mod 4 * 64 + unat c mod 64) = c"
    by (simp_all only: of_nat_unat ucast_id)
qed

lemma join_last:
  "of_nat (4 * (unat a div 4) + (unat a mod 4 * 16) div 16) = (a :: 8 word)"
  "of_nat ((unat a mod 4 * 16 + unat b div 16) mod 16 * 16 + (unat b mod 16 * 4) div 4) = (b :: 8 word)"
proof -
  have d: "unat b div 16 < 16" using unat_byte_less [of b] by auto
  have "4 * (unat a div 4) + (unat a mod 4 * 16) div 16 = unat a" by simp
  moreover have "(unat a mod 4 * 16 + unat b div 16) mod 16 * 16 + (unat b mod 16 * 4) div 4 = unat b" using d by simp
  ultimately show "of_nat (4 * (unat a div 4) + (unat a mod 4 * 16) div 16) = a"
    "of_nat ((unat a mod 4 * 16 + unat b div 16) mod 16 * 16 + (unat b mod 16 * 4) div 4) = b"
    by (simp_all only: of_nat_unat ucast_id)
qed

lemma b64_round_trip: "b64_decode (b64_encode bs) = bs"
proof (induction bs rule: b64_encode.induct)
  case (2 a)
  then show ?case
    by (simp add: b64_decode_def map_filter_simps byte_parts join_last del: of_nat_add of_nat_mult)
next
  case (3 a b)
  then show ?case
    by (simp add: b64_decode_def map_filter_simps byte_parts sextets join_last join_bytes(1) del: of_nat_add of_nat_mult)
next
  case (4 a b c bs)
  then show ?case
    by (simp add: b64_decode_def map_filter_simps byte_parts sextets join_bytes del: of_nat_add of_nat_mult)
qed (simp add: b64_decode_def map_filter_simps)

interpretation b64: codec b64_encode "\<lambda>s. Some (b64_decode s)" "\<lambda>_. True"
  by unfold_locales (simp add: b64_round_trip)

lemma buffer_hex_bytes: "hex_bytes s = Some bs \<Longrightarrow> buffer_hex s = bs"
  by (induction s arbitrary: bs rule: hex_bytes.induct) (auto split: option.splits)

text \<open>Padding keeps an encoding apart from a hex string.\<close>

lemma b64_pad: "length bs mod 3 \<noteq> 0 \<Longrightarrow> CHR ''='' \<in> set (b64_encode bs)"
proof (induction bs rule: b64_encode.induct)
  case (4 a b c bs)
  have "length (a # b # c # bs) mod 3 = length bs mod 3" by simp
  with 4 show ?case by simp
qed simp_all

lemma b64_not_hex: "length bs mod 3 \<noteq> 0 \<Longrightarrow> \<not> re_hex_string (b64_encode bs)"
proof
  assume "length bs mod 3 \<noteq> 0" and r: "re_hex_string (b64_encode bs)"
  then have "CHR ''='' \<in> set (b64_encode bs)" by (intro b64_pad)
  moreover obtain t where t: "b64_encode bs = ''0x'' @ t" "list_all is_hex t"
    using r by (auto simp: re_hex_string_def starts_with_iff)
  moreover have "\<not> is_hex CHR ''=''" by code_simp
  ultimately show False by (auto simp: list_all_iff)
qed

end
