(* ===== verification/Orchestrator.thy ===== *)
theory Orchestrator
  imports ChainEnv Handlers Base64
begin

text \<open>
  The orchestrator (apps/orchestrator/src/instructions.ts and policy.ts): sending an
  instruction to the enclave, polling the proxy for its answer, decoding the
  payload, and the evaluate-then-execute round trip. \<open>se\<close> is the text of a
  \<open>SyntaxError\<close> of \<open>JSON.parse\<close>; the JSON values that cross the proxy stay \<open>jsv\<close>.
\<close>

section \<open>Sending instructions\<close>

definition hex_arg :: "(string \<times> jsv) list \<Rightarrow> string \<Rightarrow> string" where
  "hex_arg args k = (case get_prop args k of JStr s \<Rightarrow> s | _ \<Rightarrow> [])"

definition no_instruction :: thrown where
  "no_instruction = new_error (''no TeeInstructionsSent event in the receipt -- the extension id is probably unset, '' @
     ''or the op type/command pair was rejected before dispatch'')"

fun extractInstructionId :: "decoder \<Rightarrow> log_entry list \<Rightarrow> thrown + string" where
  "extractInstructionId decode [] = Inl no_instruction"
| "extractInstructionId decode (entry # logs) =
     (case decode orch_teeInstructionsSentAbi entry of
        Inr (eventName, args) \<Rightarrow>
          if eventName = ''TeeInstructionsSent'' then Inr (hex_arg args ''instructionId'')
          else extractInstructionId decode logs
      | Inl _ \<Rightarrow> extractInstructionId decode logs)"

record instruction_receipt =
  instructionId :: string
  txHash :: string

definition instruction_call :: "string \<Rightarrow> string \<Rightarrow> jsv list \<Rightarrow> contract_call" where
  "instruction_call sender functionName args =
     \<lparr> call_to = sender, call_fn = functionName, call_args = args, call_value = orch_INSTRUCTION_FEE \<rparr>"

definition send_instruction :: "env \<Rightarrow> decoder \<Rightarrow> string option \<Rightarrow> string \<Rightarrow> string \<Rightarrow> jsv list \<Rightarrow> instruction_receipt act" where
  "send_instruction E decode account instructionSender functionName args =
     (case account of
        None \<Rightarrow> act_throw (new_error ''wallet client has no account'')
      | Some _ \<Rightarrow>
          (let request = instruction_call instructionSender functionName args in
           act_bind (simulateContract E request) (\<lambda>_.
           act_bind (writeContract E request) (\<lambda>txHash'.
           act_bind (waitForTransactionReceipt E txHash') (\<lambda>receipt.
           if receipt_status receipt \<noteq> ''success'' then
             act_throw (new_error (functionName @ '' reverted (tx '' @ txHash' @ '')''))
           else
             act_bind (act_lift (extractInstructionId decode (receipt_logs receipt))) (\<lambda>i.
             act_return \<lparr> instructionId = i, txHash = txHash' \<rparr>))))))"

definition sendStorePolicy :: "env \<Rightarrow> decoder \<Rightarrow> string option \<Rightarrow> string \<Rightarrow> string \<Rightarrow> string \<Rightarrow> instruction_receipt act" where
  "sendStorePolicy E decode account instructionSender policy ciphertext =
     send_instruction E decode account instructionSender ''sendStorePolicy'' [JStr policy, JStr ciphertext]"

definition sendEvaluatePolicy :: "env \<Rightarrow> decoder \<Rightarrow> string option \<Rightarrow> string \<Rightarrow> string \<Rightarrow> int \<Rightarrow> instruction_receipt act" where
  "sendEvaluatePolicy E decode account instructionSender policy triggeredAt =
     send_instruction E decode account instructionSender ''sendEvaluatePolicy'' [JStr policy, JBig triggeredAt]"

section \<open>Polling\<close>

definition poll_timeout :: "string \<Rightarrow> int \<Rightarrow> int \<Rightarrow> thrown" where
  "poll_timeout i timeoutMs lastStatus =
     new_error (''no result for instruction '' @ i @ '' after '' @ int_str timeoutMs @ ''ms (last HTTP '' @
       int_str lastStatus @ ''). '' @
       ''A persistent 404 means the instruction never reached the TEE: check that the URL '' @
       ''registered on-chain matches the one being served, and that tee-node and tee-proxy '' @
       ''versions have not drifted apart.'')"

text \<open>The loop; \<open>None\<close> is the value of a loop that never ends. \<open>Inr (Inl s)\<close> is leaving it by the deadline.\<close>

partial_function (option) poll_loop ::
  "env \<Rightarrow> (string \<Rightarrow> string) \<Rightarrow> string \<Rightarrow> int \<Rightarrow> int \<Rightarrow> int \<Rightarrow> event list \<Rightarrow> ((thrown + (int + jsv)) \<times> event list) option" where
  "poll_loop E se url deadline intervalMs lastStatus t =
     (if env_clock E t < deadline then
        (case fetch E url t of
           (Inr response, t1) \<Rightarrow>
             if http_ok response then
               Some (case parse_body se (http_body response) of Inl e \<Rightarrow> (Inl e, t1) | Inr v \<Rightarrow> (Inr (Inr v), t1))
             else poll_loop E se url deadline intervalMs (http_status response) (t1 @ [Slept intervalMs])
         | (Inl e, t1) \<Rightarrow> poll_loop E se url deadline intervalMs 0 (t1 @ [Slept intervalMs]))
      else Some (Inr (Inl lastStatus), t))"

definition pollActionResult ::
  "env \<Rightarrow> (string \<Rightarrow> string) \<Rightarrow> string \<Rightarrow> string \<Rightarrow> int \<Rightarrow> int \<Rightarrow> event list \<Rightarrow> ((thrown + jsv) \<times> event list) option" where
  "pollActionResult E se extProxyUrl i timeoutMs intervalMs t =
     (let deadline = env_clock E t + timeoutMs;
          url = strip_slash extProxyUrl @ ''/action/result/'' @ i
      in map_option (\<lambda>(r, t').
           (case r of Inl e \<Rightarrow> Inl e
            | Inr (Inr v) \<Rightarrow> Inr v
            | Inr (Inl lastStatus) \<Rightarrow> Inl (poll_timeout i timeoutMs lastStatus), t'))
         (poll_loop E se url deadline intervalMs 0 t))"

section \<open>Decoding\<close>

definition read_prop :: "jsv \<Rightarrow> string \<Rightarrow> thrown + jsv" where
  "read_prop v k = (case member_of v k of Some w \<Rightarrow> Inr w
     | None \<Rightarrow> Inl (new_error (''Cannot read properties of '' @ js_text v)))"

definition ellipsis :: string where
  "ellipsis = [CHR 0xE2, CHR 0x80, CHR 0xA6]"

definition payload_text :: "string \<Rightarrow> string" where
  "payload_text s = utf8_decode (if re_hex_string s then buffer_hex (drop 2 s) else b64_decode s)"

definition decodeActionData :: "jsv \<Rightarrow> thrown + jsv" where
  "decodeActionData response =
     and_then (read_prop response ''result'') (\<lambda>result.
     and_then (read_prop result ''status'') (\<lambda>status.
     if status \<noteq> JNum 1 then
       Inl (new_error (''enclave returned status '' @ js_text status @ '': '' @ js_text (prop_of result ''log'')))
     else
       (case prop_of result ''data'' of
          JStr s \<Rightarrow>
            if s = [] \<or> s = ''0x'' then Inl (new_error ''enclave returned a successful result with no data'')
            else
              (let json = payload_text s in
               case json_parse json of
                 Some v \<Rightarrow> Inr v
               | None \<Rightarrow> Inl (new_error (''enclave payload was not JSON after decoding ('' @ js_take 60 json @ ellipsis @
                           '') -- check whether the proxy changed its encoding'')))
        | v \<Rightarrow> if \<not> truthy v then Inl (new_error ''enclave returned a successful result with no data'')
               else Inl (new_error ''The first argument must be of type string''))))"

section \<open>Evaluate and execute\<close>

definition asHexBytes :: "string \<Rightarrow> thrown + string" where
  "asHexBytes value =
     (if re_hex_string value then Inr value
      else
        (let b = b64_decode value in
         if b = [] then Inl (new_error (''could not decode signature: '' @ js_take 24 value @ ellipsis))
         else Inr (''0x'' @ bytes_hex b)))"

definition with_signature :: "jsv \<Rightarrow> thrown + jsv" where
  "with_signature evaluation =
     and_then (read_prop evaluation ''signature'') (\<lambda>s.
       case (evaluation, s) of
         (JObj kvs, JStr value) \<Rightarrow>
           and_then (asHexBytes value) (\<lambda>h. Inr (JObj (put_prop kvs ''signature'' (JStr h))))
       | _ \<Rightarrow> Inl (new_error ''The first argument must be of type string''))"

definition evaluatePolicy ::
  "env \<Rightarrow> (string \<Rightarrow> string) \<Rightarrow> decoder \<Rightarrow> string option \<Rightarrow> string \<Rightarrow> string \<Rightarrow> string \<Rightarrow> int \<Rightarrow> int \<Rightarrow>
     event list \<Rightarrow> ((thrown + jsv) \<times> event list) option" where
  "evaluatePolicy E se decode account instructionSender policy extProxyUrl timeoutMs intervalMs t =
     (case readContract E policy ''triggeredAt'' [] t of
        (Inl e, t1) \<Rightarrow> Some (Inl e, t1)
      | (Inr (JBig triggeredAt), t1) \<Rightarrow>
          if triggeredAt = 0 then
            Some (Inl (new_error (''policy '' @ policy @ '' is not armed; call arm() before evaluating'')), t1)
          else
            (case sendEvaluatePolicy E decode account instructionSender policy triggeredAt t1 of
               (Inl e, t2) \<Rightarrow> Some (Inl e, t2)
             | (Inr r, t2) \<Rightarrow>
                 (case pollActionResult E se extProxyUrl (instructionId r) timeoutMs intervalMs t2 of
                    None \<Rightarrow> None
                  | Some (Inl e, t3) \<Rightarrow> Some (Inl e, t3)
                  | Some (Inr response, t3) \<Rightarrow>
                      Some (and_then (decodeActionData response) with_signature, t3)))
      | (Inr _, t1) \<Rightarrow> Some (Inl (new_error ''triggeredAt is not a bigint''), t1))"

definition execute_share :: "jsv \<Rightarrow> jsv" where
  "execute_share s = JObj [(''recipient'', prop_of s ''recipient''), (''shareBps'', prop_of s ''shareBps'')]"

definition execute_args :: "jsv \<Rightarrow> thrown + jsv list" where
  "execute_args evaluation =
     (case prop_of evaluation ''shares'' of
        JArr ss \<Rightarrow> Inr [JArr (map execute_share ss), prop_of evaluation ''salt'', prop_of evaluation ''signature'']
      | _ \<Rightarrow> Inl (new_error ''evaluation.shares.map is not a function''))"

definition executePolicy :: "env \<Rightarrow> string option \<Rightarrow> string \<Rightarrow> jsv \<Rightarrow> string act" where
  "executePolicy E account policy evaluation =
     (case account of
        None \<Rightarrow> act_throw (new_error ''wallet client has no account'')
      | Some _ \<Rightarrow>
          act_bind (act_lift (execute_args evaluation)) (\<lambda>args.
          let request = \<lparr> call_to = policy, call_fn = ''execute'', call_args = args, call_value = 0 \<rparr> in
          act_bind (simulateContract E request) (\<lambda>_.
          act_bind (writeContract E request) (\<lambda>hash.
          act_bind (waitForTransactionReceipt E hash) (\<lambda>receipt.
          if receipt_status receipt \<noteq> ''success'' then
            act_throw (new_error (''execute reverted (tx '' @ hash @ '')''))
          else act_return hash)))))"

section \<open>Lemmas\<close>

definition instruction_hit :: "decoder \<Rightarrow> log_entry \<Rightarrow> string option" where
  "instruction_hit decode l =
     (case decode orch_teeInstructionsSentAbi l of
        Inr (n, args) \<Rightarrow> if n = ''TeeInstructionsSent'' then Some (hex_arg args ''instructionId'') else None
      | Inl _ \<Rightarrow> None)"

interpretation orch_scan: log_scan "extractInstructionId decode" "instruction_hit decode" no_instruction
  for decode :: decoder
  by unfold_locales (auto simp: instruction_hit_def split: sum.split prod.split)

text \<open>What a successful send did, in order.\<close>

lemma send_instruction_Inr:
  assumes "send_instruction E decode account sender f args t = (Inr r, t')"
  shows "env_simulate E t (instruction_call sender f args) = Inr () \<and>
    env_write E (t @ [Simulated (instruction_call sender f args)]) (instruction_call sender f args) = Inr (txHash r) \<and>
    t' = t @ [Simulated (instruction_call sender f args), Written (instruction_call sender f args), Awaited (txHash r)] \<and>
    (\<exists>rc. env_receipt E (t @ [Simulated (instruction_call sender f args), Written (instruction_call sender f args)]) (txHash r) = Inr rc \<and>
       receipt_status rc = ''success'' \<and> extractInstructionId decode (receipt_logs rc) = Inr (instructionId r))"
  using assms
  by (auto simp: send_instruction_def act_bind_Inr act_prims Let_def split: option.splits if_splits)

text \<open>Whatever happens, nothing is written that was not accepted by a simulation of the same call.\<close>

lemma send_instruction_writes:
  assumes "send_instruction E decode account sender f args t = (r, t')"
  shows "\<exists>u. t' = t @ u \<and> (u = [] \<or> u = [Simulated (instruction_call sender f args)] \<or>
    (env_simulate E t (instruction_call sender f args) = Inr () \<and>
     (u = [Simulated (instruction_call sender f args), Written (instruction_call sender f args)] \<or>
      (\<exists>h. u = [Simulated (instruction_call sender f args), Written (instruction_call sender f args), Awaited h]))))"
  using assms unfolding send_instruction_def act_bind_def act_defs Let_def
  by (auto split: option.splits sum.splits if_splits)

text \<open>A clock that a sleep advances by at least its length, and that nothing turns back.\<close>

definition clock_advances :: "env \<Rightarrow> bool" where
  "clock_advances E \<longleftrightarrow> (\<forall>t u. env_clock E t \<le> env_clock E (t @ u)) \<and>
     (\<forall>t ms. env_clock E t + ms \<le> env_clock E (t @ [Slept ms]))"

text \<open>What leaving the loop means: the answer of an accepted reply fetched before the deadline, or the deadline.\<close>

definition poll_outcome :: "env \<Rightarrow> string \<Rightarrow> int \<Rightarrow> (thrown + (int + jsv)) \<times> event list \<Rightarrow> bool" where
  "poll_outcome E url deadline res \<longleftrightarrow>
     (case res of
        (Inr (Inl s), t') \<Rightarrow> deadline \<le> env_clock E t'
      | (Inr (Inr v), t') \<Rightarrow> (\<exists>u reply. env_clock E u < deadline \<and> env_fetch E u url = Inr reply \<and> http_ok reply \<and>
           json_parse (http_body reply) = Some v \<and> t' = u @ [Fetched url])
      | (Inl e, t') \<Rightarrow> (\<exists>u reply. env_clock E u < deadline \<and> env_fetch E u url = Inr reply \<and> http_ok reply \<and>
           json_parse (http_body reply) = None))"

lemma poll_loop_ends:
  assumes "clock_advances E" "0 < ms"
  shows "\<exists>r. poll_loop E se url deadline ms lastStatus t = Some r \<and> poll_outcome E url deadline r"
proof (induction "nat (deadline - env_clock E t)" arbitrary: t lastStatus rule: less_induct)
  case less
  note step = poll_loop.simps [of E se url deadline ms lastStatus t]
  show ?case
  proof (cases "env_clock E t < deadline")
    case True
    let ?t1 = "t @ [Fetched url]"
    have "env_clock E t \<le> env_clock E ?t1" "env_clock E ?t1 + ms \<le> env_clock E (?t1 @ [Slept ms])"
      using assms(1) unfolding clock_advances_def by blast+
    then have next': "nat (deadline - env_clock E (?t1 @ [Slept ms])) < nat (deadline - env_clock E t)"
      using True assms(2) by simp
    show ?thesis
    proof (cases "env_fetch E t url")
      case (Inl e)
      with step True less [OF next', of 0] show ?thesis by (simp add: fetch_def)
    next
      case (Inr reply)
      show ?thesis
      proof (cases "http_ok reply")
        case ok: True
        have "poll_outcome E url deadline (case parse_body se (http_body reply) of Inl e \<Rightarrow> (Inl e, ?t1) | Inr v \<Rightarrow> (Inr (Inr v), ?t1))"
          using True Inr ok by (auto simp: parse_body_def poll_outcome_def split: option.split)
        with step True Inr ok show ?thesis by (simp add: fetch_def)
      next
        case False
        with step True Inr less [OF next', of "http_status reply"] show ?thesis by (simp add: fetch_def)
      qed
    qed
  next
    case False
    with step show ?thesis by (simp add: poll_outcome_def)
  qed
qed

text \<open>Polling itself touches the proxy and the timer, nothing else.\<close>

definition only_polls :: "event list \<Rightarrow> bool" where
  "only_polls u = list_all (\<lambda>e. case e of Fetched _ \<Rightarrow> True | Slept _ \<Rightarrow> True | _ \<Rightarrow> False) u"

lemma only_polls_simps [simp]:
  "only_polls []" "only_polls (Fetched a # u) = only_polls u" "only_polls (Slept n # u) = only_polls u"
  "only_polls (u @ w) = (only_polls u \<and> only_polls w)"
  by (auto simp: only_polls_def)

lemma only_polls_no_write: "only_polls u \<Longrightarrow> Written c \<notin> set u"
  by (auto simp: only_polls_def list_all_iff)

lemma poll_loop_only_polls:
  assumes "poll_loop E se url deadline ms lastStatus t = Some y"
  shows "\<exists>u. snd y = t @ u \<and> only_polls u"
proof (rule poll_loop.raw_induct [where P = "\<lambda>E se url deadline ms lastStatus t y. \<exists>u. snd y = t @ u \<and> only_polls u", OF _ assms])
  fix go E se url deadline ms lastStatus t and y :: "(thrown + (int + jsv)) \<times> event list"
  assume IH: "\<And>E se url deadline ms lastStatus t y. go E se url deadline ms lastStatus t = Some y \<Longrightarrow>
      \<exists>u. snd y = t @ u \<and> only_polls u"
    and y: "(if env_clock E t < deadline then
        (case fetch E url t of
           (Inr response, t1) \<Rightarrow>
             if http_ok response then
               Some (case parse_body se (http_body response) of Inl e \<Rightarrow> (Inl e, t1) | Inr v \<Rightarrow> (Inr (Inr v), t1))
             else go E se url deadline ms (http_status response) (t1 @ [Slept ms])
         | (Inl e, t1) \<Rightarrow> go E se url deadline ms 0 (t1 @ [Slept ms]))
      else Some (Inr (Inl lastStatus), t)) = Some y"
  show "\<exists>u. snd y = t @ u \<and> only_polls u"
  proof (cases "env_clock E t < deadline")
    case True
    let ?next = "(t @ [Fetched url]) @ [Slept ms]"
    have "snd y = t @ [Fetched url] \<or> (\<exists>s. go E se url deadline ms s ?next = Some y)"
      using y True by (auto simp: fetch_def split: sum.splits if_splits)
    then show ?thesis
    proof
      assume "\<exists>s. go E se url deadline ms s ?next = Some y"
      with IH obtain u where "snd y = ?next @ u" "only_polls u" by blast
      then show ?thesis by (intro exI [of _ "Fetched url # Slept ms # u"]) simp
    qed (auto intro: exI [of _ "[Fetched url]"])
  qed (use y in auto)
qed

lemma pollActionResult_only_polls:
  "pollActionResult E se proxy i timeoutMs ms t = Some (r, t') \<Longrightarrow> \<exists>u. t' = t @ u \<and> only_polls u"
  unfolding pollActionResult_def Let_def by (auto dest: poll_loop_only_polls split: prod.splits)

lemma pollActionResult_total:
  assumes "clock_advances E" "0 < ms"
  obtains r t' where "pollActionResult E se proxy i timeoutMs ms t = Some (r, t')"
proof -
  from poll_loop_ends [OF assms, of se "strip_slash proxy @ ''/action/result/'' @ i" "env_clock E t + timeoutMs" 0 t]
  obtain y where "poll_loop E se (strip_slash proxy @ ''/action/result/'' @ i) (env_clock E t + timeoutMs) ms 0 t = Some y"
    by blast
  with that show thesis unfolding pollActionResult_def Let_def by (cases y) (simp add: case_prod_beta)
qed

text \<open>An encoding in either alphabet is read back; the first letter of the base64 of an object is an \<open>e\<close>.\<close>

lemma utf8_bytes_Cons: "utf8_bytes (c # s) = of_char c # utf8_bytes s"
  by (simp add: utf8_bytes_def)

lemma b64_object: "\<not> re_hex_string (b64_encode (utf8_bytes (CHR ''{'' # s)))"
proof -
  have e: "b64_char 30 = CHR ''e''" by code_simp
  have "\<exists>t. b64_encode (of_char CHR ''{'' # bs) = CHR ''e'' # t" for bs
    by (cases "of_char CHR ''{'' # bs :: bytes" rule: b64_encode.cases) (auto simp: e)
  then obtain t where "b64_encode (of_char CHR ''{'' # utf8_bytes s) = CHR ''e'' # t" by blast
  then show ?thesis by (simp add: utf8_bytes_Cons re_hex_string_def starts_with_iff)
qed

lemma hex_is_hex_string: "re_hex_string (''0x'' @ bytes_hex bs)"
  by (simp add: re_hex_string_def starts_with_iff bytes_hex_is_hex)

lemma payload_text_hex: "ascii t \<Longrightarrow> payload_text (''0x'' @ bytes_hex (utf8_bytes t)) = t"
  using hex_is_hex_string [of "utf8_bytes t"]
  by (simp add: payload_text_def buffer_hex_bytes)

lemma payload_text_b64: "ascii (CHR ''{'' # t) \<Longrightarrow> payload_text (b64_encode (utf8_bytes (CHR ''{'' # t))) = CHR ''{'' # t"
  by (simp only: payload_text_def b64_object if_False b64_round_trip utf8_decode_ascii)

lemma asHexBytes_cases:
  assumes "bs \<noteq> []" "length bs mod 3 \<noteq> 0 \<and> sig = b64_encode bs \<or> sig = ''0x'' @ bytes_hex bs"
  shows "asHexBytes sig = Inr (''0x'' @ bytes_hex bs)"
  using assms hex_is_hex_string [of bs] b64_not_hex [of bs]
  by (auto simp: asHexBytes_def b64_round_trip Let_def)

section \<open>A concrete world\<close>

text \<open>
  A chain that accepts everything, an armed policy, and a proxy that answers 404 until
  two seconds have passed. A log decodes when its first topic is the event's name.
\<close>

definition slept :: "event \<Rightarrow> int" where
  "slept e = (case e of Slept ms \<Rightarrow> max 0 ms | _ \<Rightarrow> 0)"

definition demo_clock :: "event list \<Rightarrow> int" where
  "demo_clock t = sum_list (map slept t)"

definition demo_action_response :: "string \<Rightarrow> jsv" where
  "demo_action_response data = JObj [(''result'', JObj [(''status'', JNum 1), (''log'', JStr ''ok''), (''data'', JStr data)])]"

definition demo_evaluation :: jsv where
  "demo_evaluation = JObj [(''policy'', JStr ''0xp''), (''shares'', JArr [JObj [(''recipient'', JStr ''0xa''), (''shareBps'', JNum 10000)]]),
     (''salt'', JStr ''0x01''), (''signature'', JStr (b64_encode [1, 2, 3, 4]))]"

definition demo_body :: string where
  "demo_body = the (json_text (demo_action_response (b64_encode (utf8_bytes (the (json_text demo_evaluation))))))"

definition demo_env :: env where
  "demo_env = \<lparr> env_simulate = (\<lambda>t c. Inr ()), env_write = (\<lambda>t c. Inr ''0xfeed''),
     env_receipt = (\<lambda>t h. Inr \<lparr> receipt_status = ''success'',
        receipt_logs = [\<lparr> log_address = ''0x1'', log_data = ''0x'', log_topics = [''Other''] \<rparr>,
                        \<lparr> log_address = ''0x2'', log_data = ''0x77'', log_topics = [''TeeInstructionsSent''] \<rparr>] \<rparr>),
     env_read = (\<lambda>t a f args. Inr (JBig 1700)),
     env_fetch = (\<lambda>t url. Inr (if demo_clock t < 2000 then \<lparr> http_ok = False, http_status = 404, http_type = [], http_body = [] \<rparr>
        else \<lparr> http_ok = True, http_status = 200, http_type = ''application/json'', http_body = demo_body \<rparr>)),
     env_clock = demo_clock, env_storage = (\<lambda>k. None),
     env_set_item = (\<lambda>t k v. Inr ()), env_logs = (\<lambda>t a w b. Inr []), env_wallet = True \<rparr>"

definition demo_decode :: decoder where
  "demo_decode abi l =
     (if log_topics l = [''TeeInstructionsSent''] then Inr (''TeeInstructionsSent'', [(''instructionId'', JStr (log_data l))])
      else Inl (new_error ''no match''))"

lemma slept_nonneg: "0 \<le> slept e"
  by (simp add: slept_def split: event.split)

lemma demo_clock_advances: "clock_advances demo_env"
proof -
  have "0 \<le> sum_list (map slept u)" for u
    by (induction u) (simp_all add: slept_nonneg)
  then show ?thesis by (simp add: clock_advances_def demo_env_def demo_clock_def slept_def)
qed

text \<open>How polling ends.\<close>

lemma poll_ends:
  assumes "clock_advances E" "0 < ms"
  shows "\<exists>r t' u. pollActionResult E se proxy i timeoutMs ms t = Some (r, t') \<and> t' = t @ u \<and> only_polls u \<and>
    (case r of
       Inr v \<Rightarrow> (\<exists>w reply. env_clock E w < env_clock E t + timeoutMs \<and>
           env_fetch E w (strip_slash proxy @ ''/action/result/'' @ i) = Inr reply \<and>
           http_ok reply \<and> json_parse (http_body reply) = Some v)
     | Inl e \<Rightarrow> (\<exists>s. e = poll_timeout i timeoutMs s \<and> env_clock E t + timeoutMs \<le> env_clock E t') \<or>
         (\<exists>w reply. env_fetch E w (strip_slash proxy @ ''/action/result/'' @ i) = Inr reply \<and>
           http_ok reply \<and> json_parse (http_body reply) = None))"
proof -
  let ?url = "strip_slash proxy @ ''/action/result/'' @ i" and ?deadline = "env_clock E t + timeoutMs"
  from poll_loop_ends [OF assms, of se ?url ?deadline 0 t] obtain y t' where
    y: "poll_loop E se ?url ?deadline ms 0 t = Some (y, t')" "poll_outcome E ?url ?deadline (y, t')" by auto
  from poll_loop_only_polls [OF y(1)] obtain u where u: "t' = t @ u" "only_polls u" by auto
  show ?thesis
  proof (cases y)
    case (Inl e)
    with y(2) have "\<exists>w reply. env_fetch E w ?url = Inr reply \<and> http_ok reply \<and> json_parse (http_body reply) = None"
      by (auto simp: poll_outcome_def)
    with y(1) u Inl show ?thesis by (simp add: pollActionResult_def Let_def)
  next
    case (Inr z)
    show ?thesis
    proof (cases z)
      case (Inl s)
      with Inr y(2) have "?deadline \<le> env_clock E t'" by (simp add: poll_outcome_def)
      with y(1) u Inr Inl show ?thesis by (auto simp: pollActionResult_def Let_def)
    next
      case (Inr v)
      with \<open>y = Inr z\<close> y(2) have "\<exists>w reply. env_clock E w < ?deadline \<and> env_fetch E w ?url = Inr reply \<and>
          http_ok reply \<and> json_parse (http_body reply) = Some v"
        by (auto simp: poll_outcome_def)
      with y(1) u \<open>y = Inr z\<close> Inr show ?thesis by (simp add: pollActionResult_def Let_def)
    qed
  qed
qed

lemma pollActionResult_answer:
  assumes "clock_advances E" "0 < ms" "pollActionResult E se proxy i timeoutMs ms t = Some (Inr v, t')"
  shows "\<exists>w reply. env_fetch E w (strip_slash proxy @ ''/action/result/'' @ i) = Inr reply \<and>
    http_ok reply \<and> json_parse (http_body reply) = Some v"
  using poll_ends [OF assms(1,2), of se proxy i timeoutMs t] assms(3) by auto

lemma decodeActionData_status:
  "decodeActionData response = Inr v \<Longrightarrow> prop_of (prop_of response ''result'') ''status'' = JNum 1"
  by (auto simp: decodeActionData_def and_then_Inr_iff read_prop_def prop_of_def split: option.splits if_splits)

text \<open>What a successful execute did.\<close>

lemma executed:
  assumes "executePolicy E account policy evaluation t = (Inr hash, t')"
  shows "\<exists>ss rc. prop_of evaluation ''shares'' = JArr ss \<and>
    (let c = \<lparr> call_to = policy, call_fn = ''execute'',
         call_args = [JArr (map (\<lambda>s. JObj [(''recipient'', prop_of s ''recipient''), (''shareBps'', prop_of s ''shareBps'')]) ss),
           prop_of evaluation ''salt'', prop_of evaluation ''signature''], call_value = 0 \<rparr> in
     t' = t @ [Simulated c, Written c, Awaited hash] \<and> env_simulate E t c = Inr () \<and>
     env_receipt E (t @ [Simulated c, Written c]) hash = Inr rc \<and> receipt_status rc = ''success'')"
proof -
  obtain ss where ss: "prop_of evaluation ''shares'' = JArr ss"
    using assms by (auto simp: executePolicy_def act_bind_Inr act_prims execute_args_def split: option.splits jsv.splits)
  have share: "(\<lambda>s. JObj [(''recipient'', prop_of s ''recipient''), (''shareBps'', prop_of s ''shareBps'')]) = execute_share"
    by (simp add: fun_eq_iff execute_share_def)
  from assms ss show ?thesis
    unfolding share
    by (auto simp: executePolicy_def act_bind_Inr act_prims execute_args_def Let_def split: option.splits if_splits)
qed

text \<open>Decoding an answer.\<close>

lemma decoded:
  assumes "prop_of response ''result'' = JObj result" "get_prop result ''data'' = JStr data"
    and "plain (JObj kvs)" "json_text (JObj kvs) = Some t" "ascii t"
    and "data = ''0x'' @ bytes_hex (utf8_bytes t) \<or> data = b64_encode (utf8_bytes t)"
  shows "decodeActionData response =
    (if get_prop result ''status'' = JNum 1 then Inr (JObj kvs)
     else Inl (new_error (''enclave returned status '' @ js_text (get_prop result ''status'') @ '': '' @
       js_text (get_prop result ''log''))))"
proof -
  from assms(4) obtain u where u: "t = CHR ''{'' # u" by auto
  have read: "read_prop response ''result'' = Inr (JObj result)" "read_prop (JObj result) ''status'' = Inr (get_prop result ''status'')"
    using assms(1) by (auto simp: read_prop_def prop_of_def member_of_def split: option.splits)
  have text': "payload_text data = t"
    using assms(5,6) payload_text_hex [of t] payload_text_b64 [of u] u by auto
  have "data \<noteq> []" using assms(6) u b64_round_trip [of "utf8_bytes t"]
    by (auto simp: b64_decode_def map_filter_simps utf8_bytes_Cons)
  moreover have "data \<noteq> ''0x''"
    using assms(6) b64_object [of u] hex_is_hex_string [of "[]"] u by (auto simp: utf8_bytes_Cons bytes_hex_Cons byte_hex_digits)
  ultimately show ?thesis
    using read assms(2) text' json_parse_text [OF assms(3,4)] by (simp add: decodeActionData_def Let_def)
qed

text \<open>Normalising the signature of an answer.\<close>

lemma normalised:
  assumes "get_prop kvs ''signature'' = JStr sig" "bs \<noteq> []"
    and "length bs mod 3 \<noteq> 0 \<and> sig = b64_encode bs \<or> sig = ''0x'' @ bytes_hex bs"
  shows "\<exists>kvs'. with_signature (JObj kvs) = Inr (JObj kvs') \<and>
    get_prop kvs' = (get_prop kvs)(''signature'' := JStr (''0x'' @ bytes_hex bs))"
proof -
  have "with_signature (JObj kvs) = Inr (JObj (put_prop kvs ''signature'' (JStr (''0x'' @ bytes_hex bs))))"
    using assms(1) asHexBytes_cases [OF assms(2,3)] by (simp add: with_signature_def read_prop_def member_of_def)
  then show ?thesis by (auto simp: fun_eq_iff get_prop_def map_of_put_prop)
qed

section \<open>Properties\<close>

text \<open>An instruction is sent exactly once, with the registry's fee and the given
  arguments, after a simulation of the same call was accepted; the id reported is
  that of the first log of the successful receipt that decodes to
  TeeInstructionsSent, whatever logs stand before it.\<close>

theorem send_instruction_first_event:
  assumes "send_instruction E decode account sender f args t = (Inr r, t')"
  shows "\<exists>rc xs l ys a. let c = \<lparr> call_to = sender, call_fn = f, call_args = args, call_value = 1000000 \<rparr> in
    t' = t @ [Simulated c, Written c, Awaited (txHash r)] \<and> env_simulate E t c = Inr () \<and>
    env_receipt E (t @ [Simulated c, Written c]) (txHash r) = Inr rc \<and> receipt_status rc = ''success'' \<and>
    receipt_logs rc = xs @ l # ys \<and> decode orch_teeInstructionsSentAbi l = Inr (''TeeInstructionsSent'', a) \<and>
    instructionId r = hex_arg a ''instructionId'' \<and> (\<forall>x \<in> set xs. instruction_hit decode x = None)"
proof -
  note sent = send_instruction_Inr [OF assms, unfolded instruction_call_def orch_INSTRUCTION_FEE_def]
  then obtain rc where rc: "extractInstructionId decode (receipt_logs rc) = Inr (instructionId r)"
    "receipt_status rc = ''success''"
    "env_receipt E (t @ [Simulated \<lparr> call_to = sender, call_fn = f, call_args = args, call_value = 1000000 \<rparr>,
        Written \<lparr> call_to = sender, call_fn = f, call_args = args, call_value = 1000000 \<rparr>]) (txHash r) = Inr rc"
    by blast
  from rc(1) obtain xs l ys where l: "receipt_logs rc = xs @ l # ys" "\<forall>x \<in> set xs. instruction_hit decode x = None"
    "instruction_hit decode l = Some (instructionId r)"
    unfolding orch_scan.scan_Inr_iff by blast
  from l(3) obtain a where "decode orch_teeInstructionsSentAbi l = Inr (''TeeInstructionsSent'', a)"
    "instructionId r = hex_arg a ''instructionId''"
    by (auto simp: instruction_hit_def split: sum.splits prod.splits if_splits)
  with sent rc l(1,2) show ?thesis unfolding Let_def by blast
qed

lemma send_instruction_first_event_witness:
  "\<exists>rc xs l ys. env_receipt demo_env [Simulated (instruction_call ''0xs'' ''sendStorePolicy'' []),
      Written (instruction_call ''0xs'' ''sendStorePolicy'' [])] ''0xfeed'' = Inr rc \<and> receipt_logs rc = xs @ l # ys \<and>
     instruction_hit demo_decode l = Some ''0x77'' \<and> (\<forall>x \<in> set xs. instruction_hit demo_decode x = None)"
proof -
  have run: "send_instruction demo_env demo_decode (Some ''0xme'') ''0xs'' ''sendStorePolicy'' [] [] =
      (Inr \<lparr> instructionId = ''0x77'', txHash = ''0xfeed'' \<rparr>,
       [Simulated (instruction_call ''0xs'' ''sendStorePolicy'' []),
        Written (instruction_call ''0xs'' ''sendStorePolicy'' []), Awaited ''0xfeed''])"
    by (simp add: send_instruction_def act_bind_def act_defs Let_def demo_env_def demo_decode_def hex_arg_def)
  show ?thesis
    using send_instruction_first_event [OF run]
    by (fastforce simp: Let_def instruction_call_def orch_INSTRUCTION_FEE_def instruction_hit_def)
qed

text \<open>C26: Polling for the enclave's answer always ends when the clock advances with every
  sleep: with the JSON of an accepted reply that was fetched before the deadline, with
  the exception of an accepted reply that is not JSON, or with the time-out error, and
  that only once the deadline has passed; meanwhile it only fetches and sleeps.\<close>

theorem pollActionResult_ends:
  assumes "clock_advances E" "0 < ms"
  shows "\<exists>r t' u. pollActionResult E se proxy i timeoutMs ms t = Some (r, t') \<and> t' = t @ u \<and> only_polls u \<and>
    (case r of
       Inr v \<Rightarrow> (\<exists>w reply. env_clock E w < env_clock E t + timeoutMs \<and>
           env_fetch E w (strip_slash proxy @ ''/action/result/'' @ i) = Inr reply \<and>
           http_ok reply \<and> json_parse (http_body reply) = Some v)
     | Inl e \<Rightarrow> (\<exists>s. e = poll_timeout i timeoutMs s \<and> env_clock E t + timeoutMs \<le> env_clock E t') \<or>
         (\<exists>w reply. env_fetch E w (strip_slash proxy @ ''/action/result/'' @ i) = Inr reply \<and>
           http_ok reply \<and> json_parse (http_body reply) = None))"
  using poll_ends [OF assms] .

lemma pollActionResult_ends_witness:
  "\<exists>r t' u. pollActionResult demo_env (\<lambda>b. []) ''http://proxy/'' ''0x77'' 180000 2000 [] = Some (r, t') \<and> t' = u \<and> only_polls u"
  using pollActionResult_ends [OF demo_clock_advances, of 2000 "\<lambda>b. []" "''http://proxy/''" "''0x77''" 180000 "[]"] by auto

text \<open>The enclave's payload is read the same whether the proxy sends it as hex or as
  base64: the JSON object printed by the enclave comes back, and with any other status
  the caller gets the error with the enclave's log line instead.\<close>

theorem decodeActionData_either_encoding:
  assumes "prop_of response ''result'' = JObj result" "get_prop result ''data'' = JStr data"
    and "plain (JObj kvs)" "json_text (JObj kvs) = Some t" "ascii t"
    and "data = ''0x'' @ bytes_hex (utf8_bytes t) \<or> data = b64_encode (utf8_bytes t)"
  shows "decodeActionData response =
    (if get_prop result ''status'' = JNum 1 then Inr (JObj kvs)
     else Inl (new_error (''enclave returned status '' @ js_text (get_prop result ''status'') @ '': '' @
       js_text (get_prop result ''log''))))"
  using decoded [OF assms] .

lemma decodeActionData_either_encoding_witness:
  "decodeActionData (demo_action_response (b64_encode (utf8_bytes (the (json_text (JObj [(''salt'', JStr ''0x01'')])))))) =
     Inr (JObj [(''salt'', JStr ''0x01'')])"
  using decodeActionData_either_encoding [of "demo_action_response (b64_encode (utf8_bytes (the (json_text (JObj [(''salt'', JStr ''0x01'')])))))"
    "[(''status'', JNum 1), (''log'', JStr ''ok''), (''data'', JStr (b64_encode (utf8_bytes (the (json_text (JObj [(''salt'', JStr ''0x01'')]))))))]"
    _ "[(''salt'', JStr ''0x01'')]"]
  by (simp add: demo_action_response_def quote_def quote_char_def)

text \<open>C27: Evaluating a policy always ends (clock advancing), and it sends at most one
  transaction: only when the policy's triggeredAt, read first, is not zero, only
  after a simulation accepted it, and carrying exactly the triggeredAt that was read,
  to which the enclave's signature is bound.\<close>

theorem evaluatePolicy_sends_when_armed:
  assumes "clock_advances E" "0 < ms"
  shows "\<exists>r u. evaluatePolicy E se decode account sender policy proxy timeoutMs ms t = Some (r, t @ u) \<and>
    (\<forall>c. Written c \<in> set u \<longrightarrow>
       (\<exists>n. env_read E t policy ''triggeredAt'' [] = Inr (JBig n) \<and> n \<noteq> 0 \<and>
          c = \<lparr> call_to = sender, call_fn = ''sendEvaluatePolicy'', call_args = [JStr policy, JBig n], call_value = 1000000 \<rparr> \<and>
          env_simulate E (t @ [ReadContract policy ''triggeredAt'' []]) c = Inr ())) \<and>
    length (filter (\<lambda>e. case e of Written _ \<Rightarrow> True | _ \<Rightarrow> False) u) \<le> 1"
proof -
  let ?read = "ReadContract policy ''triggeredAt'' []"
  have polls: "only_polls w \<Longrightarrow> filter (\<lambda>e. case e of Written _ \<Rightarrow> True | _ \<Rightarrow> False) w = []" for w
    by (auto simp: only_polls_def list_all_iff filter_empty_conv split: event.splits)
  show ?thesis
  proof (cases "\<exists>n. env_read E t policy ''triggeredAt'' [] = Inr (JBig n) \<and> n \<noteq> 0")
    case False
    then show ?thesis
      by (auto simp: evaluatePolicy_def readContract_def intro!: exI [of _ "[?read]"] split: sum.split jsv.split)
  next
    case True
    then obtain n where n: "env_read E t policy ''triggeredAt'' [] = Inr (JBig n)" "n \<noteq> 0" by blast
    let ?c = "instruction_call sender ''sendEvaluatePolicy'' [JStr policy, JBig n]"
    obtain r2 t2 where send: "send_instruction E decode account sender ''sendEvaluatePolicy'' [JStr policy, JBig n] (t @ [?read]) = (r2, t2)"
      by fastforce
    from send_instruction_writes [OF this] obtain v where v: "t2 = (t @ [?read]) @ v"
      "Written c \<in> set v \<Longrightarrow> c = ?c \<and> env_simulate E (t @ [?read]) ?c = Inr ()"
      "length (filter (\<lambda>e. case e of Written _ \<Rightarrow> True | _ \<Rightarrow> False) v) \<le> 1" for c
      by auto
    have "\<exists>r w. evaluatePolicy E se decode account sender policy proxy timeoutMs ms t = Some (r, t2 @ w) \<and> only_polls w"
    proof (cases r2)
      case (Inl e)
      with n send show ?thesis
        by (auto simp: evaluatePolicy_def readContract_def sendEvaluatePolicy_def intro!: exI [of _ "[]"])
    next
      case (Inr rc)
      obtain r3 t3 where poll: "pollActionResult E se proxy (instructionId rc) timeoutMs ms t2 = Some (r3, t3)"
        using pollActionResult_total [OF assms] .
      from pollActionResult_only_polls [OF this] obtain w where "t3 = t2 @ w" "only_polls w" by blast
      with n send Inr poll show ?thesis
        by (auto simp: evaluatePolicy_def readContract_def sendEvaluatePolicy_def split: sum.split)
    qed
    then obtain r w where "evaluatePolicy E se decode account sender policy proxy timeoutMs ms t = Some (r, t2 @ w)"
      "only_polls w" by blast
    with v n show ?thesis
      by (intro exI [of _ r] exI [of _ "?read # v @ w"])
        (auto simp: polls only_polls_no_write instruction_call_def orch_INSTRUCTION_FEE_def)
  qed
qed

lemma evaluatePolicy_sends_when_armed_witness:
  "\<exists>r u. evaluatePolicy demo_env (\<lambda>b. []) demo_decode (Some ''0xme'') ''0xs'' ''0xp'' ''http://proxy'' 180000 2000 [] = Some (r, u) \<and>
     (\<forall>c. Written c \<in> set u \<longrightarrow> call_args c = [JStr ''0xp'', JBig 1700])"
  using evaluatePolicy_sends_when_armed [OF demo_clock_advances, of 2000 "\<lambda>b. []" demo_decode "Some ''0xme''" "''0xs''" "''0xp''"
      "''http://proxy''" 180000 "[]"]
  by (fastforce simp: demo_env_def)

text \<open>The signature handed on is 0x and the hex of the bytes the enclave signed, whether
  the answer carries them as hex or as Go's base64 (for any length that is not a
  multiple of three, as the 65 bytes of a signature are); every other field of the
  answer is unchanged.\<close>

theorem signature_normalised:
  assumes "get_prop kvs ''signature'' = JStr sig" "bs \<noteq> []"
    and "length bs mod 3 \<noteq> 0 \<and> sig = b64_encode bs \<or> sig = ''0x'' @ bytes_hex bs"
  shows "\<exists>kvs'. with_signature (JObj kvs) = Inr (JObj kvs') \<and>
    get_prop kvs' = (get_prop kvs)(''signature'' := JStr (''0x'' @ bytes_hex bs))"
  using normalised [OF assms] .

lemma signature_normalised_witness:
  "\<exists>kvs'. with_signature (JObj [(''signature'', JStr (b64_encode (replicate 65 7)))]) = Inr (JObj kvs') \<and>
     get_prop kvs' ''signature'' = JStr (''0x'' @ bytes_hex (replicate 65 7))"
  using signature_normalised [of "[(''signature'', JStr (b64_encode (replicate 65 7)))]" "b64_encode (replicate 65 7)" "replicate 65 7"]
  by force

text \<open>A hash is returned only for an execute whose arguments are the enclave's answer
  unchanged (every share's recipient and basis points in order, the salt and the
  signature), that a simulation accepted and whose receipt is a success.\<close>

theorem executePolicy_submits_answer:
  assumes "executePolicy E account policy evaluation t = (Inr hash, t')"
  shows "\<exists>ss rc. prop_of evaluation ''shares'' = JArr ss \<and>
    (let c = \<lparr> call_to = policy, call_fn = ''execute'',
         call_args = [JArr (map (\<lambda>s. JObj [(''recipient'', prop_of s ''recipient''), (''shareBps'', prop_of s ''shareBps'')]) ss),
           prop_of evaluation ''salt'', prop_of evaluation ''signature''], call_value = 0 \<rparr> in
     t' = t @ [Simulated c, Written c, Awaited hash] \<and> env_simulate E t c = Inr () \<and>
     env_receipt E (t @ [Simulated c, Written c]) hash = Inr rc \<and> receipt_status rc = ''success'')"
  using executed [OF assms] .

lemma executePolicy_submits_answer_witness:
  "\<exists>rc c. executePolicy demo_env (Some ''0xme'') ''0xp'' demo_evaluation [] = (Inr ''0xfeed'', [Simulated c, Written c, Awaited ''0xfeed'']) \<and>
     env_receipt demo_env [Simulated c, Written c] ''0xfeed'' = Inr rc \<and> receipt_status rc = ''success''"
proof -
  define out where "out = snd (executePolicy demo_env (Some ''0xme'') ''0xp'' demo_evaluation [])"
  have run: "executePolicy demo_env (Some ''0xme'') ''0xp'' demo_evaluation [] = (Inr ''0xfeed'', out)"
    by (simp add: out_def executePolicy_def act_bind_def act_defs Let_def execute_args_def demo_evaluation_def demo_env_def)
  show ?thesis using executePolicy_submits_answer [OF run] run by (auto simp: Let_def)
qed

end
