(* ===== verification/BigInts.thy ===== *)
theory BigInts
  imports JsString
begin

text \<open>
  JavaScript's \<open>BigInt\<close> of a text, as the program uses it on amounts, share counts and the
  variables of the build: white space around it is dropped, an empty text is zero, and a
  text that is no integer literal is a \<open>SyntaxError\<close>. What holds: a text of digits is read as its value, and
  every integer is read back from its own text.
\<close>

section \<open>Reading an integer\<close>

text \<open>\<open>trim\<close> of ASCII text.\<close>

definition trim :: "string \<Rightarrow> string" where
  "trim s = rev (dropWhile js_ws (rev (dropWhile js_ws s)))"

text \<open>\<open>BigInt(s)\<close> of a text, \<open>None\<close> for a \<open>SyntaxError\<close>.\<close>

definition base_val :: "nat \<Rightarrow> string \<Rightarrow> nat option" where
  "base_val b s =
     (if s \<noteq> [] \<and> list_all (\<lambda>c. case hex_val c of None \<Rightarrow> False | Some v \<Rightarrow> v < b) s
      then Some (foldl (\<lambda>a c. b * a + (case hex_val c of None \<Rightarrow> 0 | Some v \<Rightarrow> v)) 0 s) else None)"

definition BigInt :: "string \<Rightarrow> int option" where
  "BigInt s =
     (let t = trim s; p = lower_case (take 2 t) in
      if t = [] then Some 0
      else if p = ''0x'' then map_option int (base_val 16 (drop 2 t))
      else if p = ''0o'' then map_option int (base_val 8 (drop 2 t))
      else if p = ''0b'' then map_option int (base_val 2 (drop 2 t))
      else
        (let d = (if hd t = CHR ''-'' \<or> hd t = CHR ''+'' then tl t else t) in
         if d \<noteq> [] \<and> list_all is_digit d
         then Some (if hd t = CHR ''-'' then - int (dec_val d) else int (dec_val d)) else None))"

section \<open>Lemmas\<close>

lemma digit_not_js_ws: "is_digit c \<Longrightarrow> \<not> js_ws c"
  by (auto simp: is_digit_def digit_val_def js_ws_def Let_def split: if_splits)

lemma trim_plain: "list_all (\<lambda>c. \<not> js_ws c) s \<Longrightarrow> trim s = s"
proof -
  assume s: "list_all (\<lambda>c. \<not> js_ws c) s"
  have drop: "list_all (\<lambda>c. \<not> js_ws c) u \<Longrightarrow> dropWhile js_ws u = u" for u by (cases u) simp_all
  from s have "list_all (\<lambda>c. \<not> js_ws c) (rev s)" by (simp add: list_all_iff)
  with s drop show ?thesis by (simp add: trim_def)
qed

lemma digit_lower: "is_digit c \<Longrightarrow> to_lower c = c"
  by (auto simp: is_digit_def digit_val_def to_lower_def Let_def split: if_splits)

lemma not_digits: "\<not> is_digit CHR ''x''" "\<not> is_digit CHR ''o''" "\<not> is_digit CHR ''b''" "\<not> is_digit CHR ''-''" "\<not> is_digit CHR ''+''"
  by code_simp+

lemma digits_prefix: "list_all is_digit s \<Longrightarrow> c \<in> {CHR ''x'', CHR ''o'', CHR ''b''} \<Longrightarrow> lower_case (take 2 s) \<noteq> [CHR ''0'', c]"
proof
  assume s: "list_all is_digit s" "c \<in> {CHR ''x'', CHR ''o'', CHR ''b''}" and p: "lower_case (take 2 s) = [CHR ''0'', c]"
  have "list_all is_digit (take 2 s)" using s(1) by (metis append_take_drop_id list_all_append)
  then have "lower_case (take 2 s) = take 2 s" by (auto simp: list_all_iff digit_lower intro!: map_idI)
  with p \<open>list_all is_digit (take 2 s)\<close> s(2) not_digits show False by auto
qed

lemma BigInt_digits: "s \<noteq> [] \<Longrightarrow> list_all is_digit s \<Longrightarrow> BigInt s = Some (int (dec_val s))"
proof -
  assume s: "s \<noteq> []" "list_all is_digit s"
  have t: "trim s = s" using s(2) by (intro trim_plain) (auto simp: list_all_iff digit_not_js_ws)
  have "hd s \<noteq> CHR ''-''" "hd s \<noteq> CHR ''+''" using s not_digits by (cases s; auto)+
  with s digits_prefix [OF s(2)] show ?thesis by (simp add: BigInt_def t Let_def)
qed

lemma BigInt_int_str [simp]: "BigInt (int_str i) = Some i"
proof (cases "i < 0")
  case True
  let ?s = "CHR ''-'' # nat_str (nat (- i))"
  have "list_all is_digit (nat_str (nat (- i)))" "\<not> js_ws CHR ''-''" by (simp, code_simp)
  then have t: "trim ?s = ?s" by (intro trim_plain) (auto simp: list_all_iff digit_not_js_ws)
  have l: "to_lower CHR ''-'' \<noteq> CHR ''0''" by code_simp
  have "BigInt ?s = Some i"
    using True l unfolding BigInt_def t Let_def by simp
  with True show ?thesis by (simp add: int_str_def)
next
  case False
  then show ?thesis using BigInt_digits [of "nat_str (nat i)"] by (simp add: int_str_def)
qed

end
