(* ===== verification/WebChain.thy ===== *)
theory WebChain
  imports ChainEnv BigInts
begin

text \<open>
  Where the browser finds its contracts (apps/web/lib/chain.ts) and how it words
  an exception (the \<open>message\<close> of apps/web/lib/deploy.ts, the
  \<open>walletErrorMessage\<close> of apps/web/lib/wallet.ts). The build's environment
  variables are a map from names to values.
\<close>

type_synonym process_env = "string \<Rightarrow> string option"

definition UNSET :: string where
  "UNSET = ''0x0000000000000000000000000000000000000000''"

definition coston2_id :: int where "coston2_id = 114"

definition coston2_name :: string where "coston2_name = ''Flare Testnet Coston2''"

definition coston2_explorer :: string where "coston2_explorer = ''https://coston2-explorer.flare.network''"

record chain_definition =
  ch_id :: int
  ch_name :: string
  ch_currency :: "string \<times> string \<times> nat" \<comment> \<open>name, symbol and decimals\<close>
  ch_rpcUrls :: "string list"
  ch_explorer :: "string \<times> string" \<comment> \<open>name and url\<close>
  ch_testnet :: bool

definition coston2 :: chain_definition where
  "coston2 =
     \<lparr> ch_id = coston2_id, ch_name = coston2_name, ch_currency = (''Coston2 Flare'', ''C2FLR'', 18),
       ch_rpcUrls = [''https://coston2-api.flare.network/ext/C/rpc''],
       ch_explorer = (''Coston2 Explorer'', coston2_explorer), ch_testnet = True \<rparr>"

definition envAddress :: "string option \<Rightarrow> string \<Rightarrow> string" where
  "envAddress value fallback = (case value of Some a \<Rightarrow> a | None \<Rightarrow> fallback)"

record addresses =
  policyFactory :: string
  teeAttestorGate :: string
  manualHeartbeatTrigger_at :: string
  timestampTrigger_at :: string
  fdcNonexistenceTrigger_at :: string
  fxrp :: string
  policyInstructionSender :: string

definition ADDRESSES :: "process_env \<Rightarrow> addresses" where
  "ADDRESSES P =
     \<lparr> policyFactory = envAddress (P ''NEXT_PUBLIC_POLICY_FACTORY'') UNSET,
       teeAttestorGate = envAddress (P ''NEXT_PUBLIC_TEE_ATTESTOR_GATE'') UNSET,
       manualHeartbeatTrigger_at = envAddress (P ''NEXT_PUBLIC_MANUAL_HEARTBEAT_TRIGGER'') UNSET,
       timestampTrigger_at = envAddress (P ''NEXT_PUBLIC_TIMESTAMP_TRIGGER'') UNSET,
       fdcNonexistenceTrigger_at = envAddress (P ''NEXT_PUBLIC_FDC_NONEXISTENCE_TRIGGER'') UNSET,
       fxrp = envAddress (P ''NEXT_PUBLIC_FXRP'') ''0x0b6A3645c240605887a5532109323A3E12273dc7'',
       policyInstructionSender = envAddress (P ''NEXT_PUBLIC_POLICY_INSTRUCTION_SENDER'') UNSET \<rparr>"

definition isSet :: "string \<Rightarrow> bool" where
  "isSet address' = (\<not> re_zero_hex address')"

definition enclaveHandoffConfigured :: "process_env \<Rightarrow> bool" where
  "enclaveHandoffConfigured P = isSet (policyInstructionSender (ADDRESSES P))"

definition contractsConfigured :: "process_env \<Rightarrow> bool" where
  "contractsConfigured P =
     (isSet (policyFactory (ADDRESSES P)) \<and> isSet (teeAttestorGate (ADDRESSES P)) \<and>
      isSet (manualHeartbeatTrigger_at (ADDRESSES P)))"

text \<open>Where the scan for a factory's events starts. \<open>None\<close> is the \<open>SyntaxError\<close> of a variable that is no
  integer, with which the module does not load.\<close>

definition FACTORY_DEPLOY_BLOCK :: "process_env \<Rightarrow> int option" where
  "FACTORY_DEPLOY_BLOCK P = BigInt (case P ''NEXT_PUBLIC_FACTORY_DEPLOY_BLOCK'' of Some b \<Rightarrow> b | None \<Rightarrow> ''0'')"

definition explorerTx :: "string \<Rightarrow> string" where
  "explorerTx hash = coston2_explorer @ ''/tx/'' @ hash"

definition explorerAddress :: "string \<Rightarrow> string" where
  "explorerAddress address' = coston2_explorer @ ''/address/'' @ address'"

section \<open>Wording of exceptions\<close>

text \<open>\<open>s.split('\n')[0]\<close>, and what \<open>String\<close> makes of an \<open>Error\<close> without a message.\<close>

definition first_line :: "string \<Rightarrow> string" where
  "first_line s = takeWhile (\<lambda>c. c \<noteq> CHR 0x0A) s"

definition message_of :: "thrown \<Rightarrow> string" where
  "message_of e =
     (if thrown_code e = Some 4001 then ''You rejected the request in your wallet.''
      else (case thrown_short e of
          Some s \<Rightarrow> if s \<noteq> [] then s
            else if thrown_message e \<noteq> [] then first_line (thrown_message e) else ''Error''
        | None \<Rightarrow> if thrown_message e \<noteq> [] then first_line (thrown_message e) else ''Error''))"

definition walletErrorMessage :: "thrown \<Rightarrow> string" where
  "walletErrorMessage e =
     (if thrown_code e = Some 4001 then ''You rejected the request in your wallet.''
      else (case thrown_short e of
          Some s \<Rightarrow> if s \<noteq> [] then s
            else if thrown_message e \<noteq> [] then first_line (thrown_message e) else ''Error''
        | None \<Rightarrow> if thrown_message e \<noteq> [] then first_line (thrown_message e) else ''Error''))"

text \<open>\<open>walletClient\<close>: there must be an injected wallet.\<close>

definition walletClient :: "env \<Rightarrow> ('s, unit) step" where
  "walletClient E = (if env_wallet E then act_return () else act_throw (new_error ''no injected wallet''))"

lemma UNSET_not_set: "\<not> isSet UNSET"
  by code_simp

lemma factory_block_default [simp]: "P ''NEXT_PUBLIC_FACTORY_DEPLOY_BLOCK'' = None \<Longrightarrow> FACTORY_DEPLOY_BLOCK P = Some 0"
  using BigInt_int_str [of 0] by (simp add: FACTORY_DEPLOY_BLOCK_def int_str_def)

lemma first_line_no_newline: "CHR 0x0A \<notin> set (first_line s)"
  by (auto simp: first_line_def dest: set_takeWhileD)

end
