(* ===== verification/Stores.thy ===== *)
theory Stores
  imports Prelude
begin

text \<open>
  The interface of a keyed store: a value replaces whatever was stored under its
  key and leaves the other keys alone. \<open>view\<close> is what a lookup shows of a stored
  value and \<open>inv\<close> the states the store can be in.
\<close>

locale keyed_store =
  fixes put :: "'v \<Rightarrow> 's \<Rightarrow> 's" and get :: "'k \<Rightarrow> 's \<Rightarrow> 'w option"
    and key :: "'v \<Rightarrow> 'k" and view :: "'v \<Rightarrow> 'w" and inv :: "'s \<Rightarrow> bool"
  assumes inv_put: "inv s \<Longrightarrow> inv (put v s)"
    and get_put: "inv s \<Longrightarrow> get k (put v s) = (if k = key v then Some (view v) else get k s)"
begin

lemma inv_puts: "inv s \<Longrightarrow> inv (foldl (\<lambda>s v. put v s) s vs)"
  by (induction vs arbitrary: s) (auto simp: inv_put)

text \<open>After a sequence of puts the last one of a key decides.\<close>

lemma get_puts:
  "inv s \<Longrightarrow> get k (foldl (\<lambda>s v. put v s) s vs) =
     (case find (\<lambda>v. key v = k) (rev vs) of Some v \<Rightarrow> Some (view v) | None \<Rightarrow> get k s)"
proof (induction vs rule: rev_induct)
  case (snoc v vs)
  then show ?case by (auto simp: get_put inv_puts)
qed simp

lemma overwrite: "inv s \<Longrightarrow> key v = key w \<Longrightarrow> get k (put v (put w s)) = get k (put v s)"
  by (simp add: get_put inv_put)

end

end
