(* ===== verification/Vault.thy ===== *)
theory Vault
  imports WebChain Compile Stores
begin

text \<open>
  The browser's vault (apps/web/lib/vault.ts): the policies' private halves in one
  \<open>localStorage\<close> item, as a JSON array. What the item holds is read as arbitrary
  JSON; an entry without a string \<open>policy\<close> makes the functions that look at it throw.
\<close>

section \<open>Entries\<close>

record handoff_result =
  h_instructionId :: string
  h_txHash :: string

record vault_entry =
  ve_policy :: string
  ve_chainId :: int
  ve_name :: string
  ve_templateId :: string
  ve_assetSymbol :: string
  ve_salt :: string
  ve_privateConfig :: private_config
  ve_ciphertext :: "string option"
  ve_triggerKind :: string
  ve_triggerAddress :: string
  ve_deployTx :: string
  ve_deployedAt :: int
  ve_handoff :: "(handoff_result \<times> int) option"

definition private_config_js :: "private_config \<Rightarrow> jsv" where
  "private_config_js c =
     JObj [(''version'', JNum (of_int (config_version c))), (''name'', JStr (config_name c)),
           (''recipients'', JArr (map share_js (recipients c)))]"

definition entry_js :: "vault_entry \<Rightarrow> jsv" where
  "entry_js e = JObj
     ([(''policy'', JStr (ve_policy e)), (''chainId'', JNum (of_int (ve_chainId e))), (''name'', JStr (ve_name e)),
       (''templateId'', JStr (ve_templateId e)), (''assetSymbol'', JStr (ve_assetSymbol e)), (''salt'', JStr (ve_salt e)),
       (''privateConfig'', private_config_js (ve_privateConfig e))] @
      (case ve_ciphertext e of None \<Rightarrow> [] | Some c \<Rightarrow> [(''ciphertext'', JStr c)]) @
      [(''triggerKind'', JStr (ve_triggerKind e)), (''triggerAddress'', JStr (ve_triggerAddress e)),
       (''deployTx'', JStr (ve_deployTx e)), (''deployedAt'', JNum (of_int (ve_deployedAt e)))] @
      (case ve_handoff e of None \<Rightarrow> []
       | Some (h, time) \<Rightarrow> [(''handoff'', JObj [(''instructionId'', JStr (h_instructionId h)),
           (''txHash'', JStr (h_txHash h)), (''at'', JNum (of_int time))])]))"

section \<open>Operations\<close>

definition KEY :: string where
  "KEY = ''flare-studio.vault.v1''"

definition vault_read :: "env \<Rightarrow> event list \<Rightarrow> jsv list" where
  "vault_read E t =
     (case stored_value E KEY t of
        None \<Rightarrow> []
      | Some raw \<Rightarrow> if raw = [] then [] else (case json_parse raw of Some (JArr entries) \<Rightarrow> entries | _ \<Rightarrow> []))"

definition vault_write :: "env \<Rightarrow> jsv list \<Rightarrow> unit act" where
  "vault_write E entries = setItem E KEY (case json_text (JArr entries) of Some s \<Rightarrow> s | None \<Rightarrow> [])"

text \<open>\<open>e.policy.toLowerCase()\<close>.\<close>

definition policy_key :: "jsv \<Rightarrow> thrown + string" where
  "policy_key e =
     (case member_of e ''policy'' of
        Some (JStr p) \<Rightarrow> Inr (lower_case p)
      | _ \<Rightarrow> Inl (new_error ''e.policy.toLowerCase is not a function''))"

fun other_entries :: "string \<Rightarrow> jsv list \<Rightarrow> thrown + jsv list" where
  "other_entries wanted [] = Inr []"
| "other_entries wanted (e # es) =
     and_then (policy_key e) (\<lambda>k. and_then (other_entries wanted es) (\<lambda>rest.
       Inr (if k \<noteq> wanted then e # rest else rest)))"

fun find_entry :: "string \<Rightarrow> jsv list \<Rightarrow> thrown + jsv option" where
  "find_entry wanted [] = Inr None"
| "find_entry wanted (e # es) =
     and_then (policy_key e) (\<lambda>k. if k = wanted then Inr (Some e) else find_entry wanted es)"

definition getEntry :: "env \<Rightarrow> string \<Rightarrow> event list \<Rightarrow> thrown + jsv option" where
  "getEntry E policy t = find_entry (lower_case policy) (vault_read E t)"

definition saveEntry :: "env \<Rightarrow> vault_entry \<Rightarrow> unit act" where
  "saveEntry E entry t =
     (case other_entries (lower_case (ve_policy entry)) (vault_read E t) of
        Inl e \<Rightarrow> (Inl e, t)
      | Inr others \<Rightarrow> vault_write E (others @ [entry_js entry]) t)"

text \<open>
  \<open>Array.prototype.sort\<close> with the comparison \<open>b.deployedAt - a.deployedAt\<close>: stable, and
  a comparison with a value that is not a number (\<open>NaN\<close>) counts as equal.
\<close>

definition deployed_before :: "jsv \<Rightarrow> jsv \<Rightarrow> bool" where
  "deployed_before a b =
     (case (prop_of a ''deployedAt'', prop_of b ''deployedAt'') of (JNum x, JNum y) \<Rightarrow> x < y | _ \<Rightarrow> False)"

fun insert_newest :: "jsv \<Rightarrow> jsv list \<Rightarrow> jsv list" where
  "insert_newest e [] = [e]"
| "insert_newest e (x # xs) = (if deployed_before e x then x # insert_newest e xs else e # x # xs)"

definition allEntries :: "env \<Rightarrow> int \<Rightarrow> event list \<Rightarrow> thrown + jsv list" where
  "allEntries E chainId t =
     (case traverse (\<lambda>e. member_of e ''chainId'') (vault_read E t) of
        None \<Rightarrow> Inl (new_error ''Cannot read properties of null'')
      | Some ids \<Rightarrow>
          Inr (foldr insert_newest (map fst (filter (\<lambda>(e, i). i = JNum (of_int chainId)) (zip (vault_read E t) ids))) []))"

definition export_name :: "vault_entry \<Rightarrow> string" where
  "export_name e = ''flare-studio-policy-'' @ take 10 (ve_policy e) @ ''.json''"

section \<open>Lemmas\<close>

lemma plain_share_js [simp]: "plain (share_js r)"
  by (cases "label r") (auto simp: share_js_def)

lemma plain_entry_js [simp]: "plain (entry_js e)"
  by (auto simp: entry_js_def private_config_js_def list_all_iff split: option.splits)

lemma entry_key [simp]: "policy_key (entry_js e) = Inr (lower_case (ve_policy e))"
  by (simp add: policy_key_def entry_js_def member_of_def)

text \<open>A well-formed item: every entry has a key and the printer's image reads back.\<close>

definition keyed :: "jsv list \<Rightarrow> bool" where
  "keyed es \<longleftrightarrow> (\<forall>e \<in> set es. \<exists>k. policy_key e = Inr k)"

lemma keyed_simps [simp]: "keyed []" "keyed (e # es) \<longleftrightarrow> (\<exists>k. policy_key e = Inr k) \<and> keyed es"
  "keyed (es @ fs) \<longleftrightarrow> keyed es \<and> keyed fs"
  by (auto simp: keyed_def)

definition put_entry :: "vault_entry \<Rightarrow> jsv list \<Rightarrow> jsv list" where
  "put_entry v es = (case other_entries (lower_case (ve_policy v)) es of Inl _ \<Rightarrow> es | Inr os \<Rightarrow> os @ [entry_js v])"

definition lookup_entry :: "string \<Rightarrow> jsv list \<Rightarrow> jsv option" where
  "lookup_entry k es = (case find_entry k es of Inl _ \<Rightarrow> None | Inr r \<Rightarrow> r)"

lemma other_entries_keyed:
  assumes "keyed es"
  obtains os where "other_entries w es = Inr os" "keyed os" "set os \<subseteq> set es"
    "\<And>k f. find_entry k (os @ [f]) = (if k = w then find_entry k [f] else
        case find_entry k es of Inr None \<Rightarrow> find_entry k [f] | r \<Rightarrow> r)"
proof -
  have "\<exists>os. other_entries w es = Inr os \<and> keyed os \<and> set os \<subseteq> set es \<and>
      (\<forall>k f. find_entry k (os @ [f]) = (if k = w then find_entry k [f] else
        case find_entry k es of Inr None \<Rightarrow> find_entry k [f] | r \<Rightarrow> r))"
    using assms
  proof (induction es)
    case (Cons e es)
    then obtain k0 where k0: "policy_key e = Inr k0" by auto
    from Cons obtain os where os: "other_entries w es = Inr os" "keyed os" "set os \<subseteq> set es"
      "\<And>k f. find_entry k (os @ [f]) = (if k = w then find_entry k [f] else
        case find_entry k es of Inr None \<Rightarrow> find_entry k [f] | r \<Rightarrow> r)" by auto
    show ?case
      by (rule exI [of _ "if k0 \<noteq> w then e # os else os"]) (use os k0 in auto)
  qed simp
  with that show thesis by blast
qed

interpretation vault: keyed_store put_entry lookup_entry "\<lambda>v. lower_case (ve_policy v)" entry_js keyed
proof
  fix es k and v :: vault_entry
  assume "keyed es"
  then obtain os where os: "other_entries (lower_case (ve_policy v)) es = Inr os" "keyed os"
    "\<And>k f. find_entry k (os @ [f]) = (if k = lower_case (ve_policy v) then find_entry k [f] else
        case find_entry k es of Inr None \<Rightarrow> find_entry k [f] | r \<Rightarrow> r)"
    by (metis other_entries_keyed [of es "lower_case (ve_policy v)"])
  then show "keyed (put_entry v es)" by (simp add: put_entry_def)
  show "lookup_entry k (put_entry v es) = (if k = lower_case (ve_policy v) then Some (entry_js v) else lookup_entry k es)"
    using os by (auto simp: put_entry_def lookup_entry_def split: sum.split option.split)
qed

text \<open>What the item holds after an event.\<close>

lemma stored_value_snoc [simp]:
  "stored_value E k (t @ [e]) = (case e of Stored k' v \<Rightarrow> if k' = k then Some v else stored_value E k t | _ \<Rightarrow> stored_value E k t)"
  by (cases e) (auto simp: stored_value_def)

definition keeps_storage :: "event list \<Rightarrow> bool" where
  "keeps_storage u = list_all (\<lambda>e. case e of Stored _ _ \<Rightarrow> False | _ \<Rightarrow> True) u"

lemma keeps_storage_read: "keeps_storage u \<Longrightarrow> vault_read E (t @ u) = vault_read E t"
proof -
  have "keeps_storage u \<Longrightarrow> stored_value E KEY (t @ u) = stored_value E KEY t"
    by (induction u rule: rev_induct) (auto simp: keeps_storage_def append_assoc [symmetric] simp del: append_assoc split: event.split)
  then show "keeps_storage u \<Longrightarrow> vault_read E (t @ u) = vault_read E t" by (simp add: vault_read_def)
qed

text \<open>A vault that only this code has written: each entry can be printed back and has a key.\<close>

definition vault_ok :: "env \<Rightarrow> event list \<Rightarrow> bool" where
  "vault_ok E t \<longleftrightarrow> keyed (vault_read E t) \<and> list_all plain (vault_read E t)"

lemma vault_ok_cong: "keeps_storage u \<Longrightarrow> vault_ok E (t @ u) = vault_ok E t"
  by (simp add: vault_ok_def keeps_storage_read)

lemma write_read:
  assumes "list_all plain es" "vault_write E es t = (Inr (), t')"
  shows "vault_read E t' = es" "\<exists>s. t' = t @ [Stored KEY s]"
proof -
  obtain s where s: "json_text (JArr es) = Some s" "s \<noteq> []" by auto
  then have t': "t' = t @ [Stored KEY s]"
    using assms(2) by (auto simp: vault_write_def setItem_def split: sum.splits)
  have "json_parse s = Some (JArr es)"
    using json_parse_text [of "JArr es" s] assms(1) s(1) by simp
  with t' s(2) show "vault_read E t' = es" by (simp add: vault_read_def)
  from t' show "\<exists>s. t' = t @ [Stored KEY s]" by blast
qed

lemma save_read:
  assumes "vault_ok E t" "saveEntry E e t = (Inr (), t')"
  shows "vault_read E t' = put_entry e (vault_read E t)" "vault_ok E t'" "\<exists>s. t' = t @ [Stored KEY s]"
proof -
  obtain os where os: "other_entries (lower_case (ve_policy e)) (vault_read E t) = Inr os" "keyed os"
    "set os \<subseteq> set (vault_read E t)"
    using other_entries_keyed [of "vault_read E t" "lower_case (ve_policy e)"] assms(1) unfolding vault_ok_def by metis
  then have plain: "list_all plain (os @ [entry_js e])"
    using assms(1) by (auto simp: vault_ok_def list_all_iff)
  have w: "vault_write E (os @ [entry_js e]) t = (Inr (), t')"
    using assms(2) os(1) by (simp add: saveEntry_def)
  note wr = write_read [OF plain w]
  then show "vault_read E t' = put_entry e (vault_read E t)" by (simp add: put_entry_def os(1))
  show "vault_ok E t'" using wr(1) os(2) plain by (simp add: vault_ok_def)
  show "\<exists>s. t' = t @ [Stored KEY s]" by (rule wr(2))
qed

lemma getEntry_lookup: "vault_ok E t \<Longrightarrow> getEntry E p t = Inr (lookup_entry (lower_case p) (vault_read E t))"
proof -
  have total: "keyed es \<Longrightarrow> \<exists>r. find_entry k es = Inr r" for k es
    by (induction es) auto
  assume "vault_ok E t"
  then have "\<exists>r. find_entry (lower_case p) (vault_read E t) = Inr r"
    by (intro total) (simp add: vault_ok_def)
  then show "getEntry E p t = Inr (lookup_entry (lower_case p) (vault_read E t))"
    by (auto simp: getEntry_def lookup_entry_def split: sum.split)
qed

lemma save_get:
  assumes "vault_ok E t" "saveEntry E e t = (Inr (), t')"
  shows "getEntry E p t' = (if lower_case p = lower_case (ve_policy e) then Inr (Some (entry_js e)) else getEntry E p t)"
proof -
  have "keyed (vault_read E t)" using assms(1) by (simp add: vault_ok_def)
  then show ?thesis
    using save_read [OF assms] getEntry_lookup [OF assms(1)] getEntry_lookup [of E t' p]
    by (simp add: vault.get_put)
qed

section \<open>Properties\<close>

text \<open>Saving an entry and looking it up gives back the whole entry, with the salt and the
  recipients that nothing else knows, in any spelling of the address; the entries of
  other policies are as before, and the vault stays well-formed.\<close>

theorem vault_save_get:
  assumes "vault_ok E t" "saveEntry E e t = (Inr (), t')" "lower_case p = lower_case (ve_policy e)"
  shows "getEntry E p t' = Inr (Some (entry_js e)) \<and> vault_ok E t' \<and>
    (\<forall>q. lower_case q \<noteq> lower_case (ve_policy e) \<longrightarrow> getEntry E q t' = getEntry E q t)"
  using save_get [OF assms(1,2)] save_read(2) [OF assms(1,2)] assms(3) by simp

definition demo_browser :: env where
  "demo_browser =
     \<lparr> env_simulate = (\<lambda>t c. Inr ()), env_write = (\<lambda>t c. Inr (''0x'' @ call_fn c)),
       env_receipt = (\<lambda>t h. Inr \<lparr> receipt_status = ''success'', receipt_logs =
          [\<lparr> log_address = ''0xFA'', log_data = ''0x0000000000000000000000000000000000000077'', log_topics = [''PolicyDeployed''] \<rparr>,
           \<lparr> log_address = ''0x2'', log_data = ''0x88'', log_topics = [''TeeInstructionsSent''] \<rparr>] \<rparr>),
       env_read = (\<lambda>t a f args. Inr (JBig 0)),
       env_fetch = (\<lambda>t url. Inl (new_error ''Failed to fetch'')),
       env_clock = (\<lambda>t. 1700000000000), env_storage = (\<lambda>k. None),
       env_set_item = (\<lambda>t k v. Inr ()), env_logs = (\<lambda>t a w b. Inr []), env_wallet = True \<rparr>"

definition demo_entry :: vault_entry where
  "demo_entry = \<lparr> ve_policy = ''0xAb'', ve_chainId = 114, ve_name = ''Mine'', ve_templateId = ''xrp'', ve_assetSymbol = ''FXRP'',
     ve_salt = ''0x01'', ve_privateConfig = \<lparr> config_version = 1, config_name = ''Mine'', recipients = [] \<rparr>, ve_ciphertext = None,
     ve_triggerKind = ''timestamp'', ve_triggerAddress = ''0x03'', ve_deployTx = ''0x04'', ve_deployedAt = 1, ve_handoff = None \<rparr>"

lemma demo_browser_storage [simp]:
  "env_storage demo_browser k = None" "env_set_item demo_browser t k v = Inr ()" "env_clock demo_browser t = 1700000000000"
  "env_wallet demo_browser"
  by (simp_all add: demo_browser_def)

lemma demo_browser_read [simp]: "vault_read demo_browser [] = []" "vault_ok demo_browser []"
  by (simp_all add: vault_ok_def vault_read_def stored_value_def)

lemma vault_save_get_witness:
  "\<exists>t'. saveEntry demo_browser demo_entry [] = (Inr (), t') \<and> getEntry demo_browser ''0xAB'' t' = Inr (Some (entry_js demo_entry))"
proof -
  obtain t' where run: "saveEntry demo_browser demo_entry [] = (Inr (), t')"
    by (simp add: saveEntry_def vault_write_def setItem_def)
  have "lower_case ''0xAB'' = lower_case (ve_policy demo_entry)"
    by (simp add: demo_entry_def) code_simp
  from vault_save_get [OF demo_browser_read(2) run this] run show ?thesis by blast
qed

end
