(* ===== verification/StorePolicy.thy ===== *)
theory StorePolicy
  imports Vault
begin

text \<open>
  Handing the sealed policy to the enclave from the browser
  (apps/web/lib/store-policy.ts).
\<close>

definition no_store_instruction :: thrown where
  "no_store_instruction = new_error (''the transaction succeeded but emitted no TeeInstructionsSent event -- the extension id '' @
     ''is probably unset, or the op type and command pair was rejected before dispatch'')"

definition log_arg :: "(string \<times> jsv) list \<Rightarrow> string \<Rightarrow> string" where
  "log_arg args k = (case get_prop args k of JStr s \<Rightarrow> s | _ \<Rightarrow> [])"

fun web_extractInstructionId :: "decoder \<Rightarrow> log_entry list \<Rightarrow> thrown + string" where
  "web_extractInstructionId decode [] = Inl no_store_instruction"
| "web_extractInstructionId decode (l # logs) =
     (case decode teeInstructionsSentAbi l of
        Inr (eventName, args) \<Rightarrow>
          if eventName = ''TeeInstructionsSent'' then Inr (log_arg args ''instructionId'')
          else web_extractInstructionId decode logs
      | Inl _ \<Rightarrow> web_extractInstructionId decode logs)"

definition store_call :: "process_env \<Rightarrow> string \<Rightarrow> string \<Rightarrow> contract_call" where
  "store_call P policy ciphertext =
     \<lparr> call_to = policyInstructionSender (ADDRESSES P), call_fn = ''sendStorePolicy'',
       call_args = [JStr policy, JStr ciphertext], call_value = INSTRUCTION_FEE \<rparr>"

definition storePolicyOnChain :: "env \<Rightarrow> process_env \<Rightarrow> decoder \<Rightarrow> string \<Rightarrow> string \<Rightarrow> handoff_result act" where
  "storePolicyOnChain E P decode policy ciphertext =
     (if \<not> enclaveHandoffConfigured P then
        act_throw (new_error ''No instruction sender is configured, so the enclave cannot be reached from this build.'')
      else
        act_bind (walletClient E) (\<lambda>_.
        let request = store_call P policy ciphertext in
        act_bind (simulateContract E request) (\<lambda>_.
        act_bind (writeContract E request) (\<lambda>txHash.
        act_bind (waitForTransactionReceipt E txHash) (\<lambda>receipt.
        if receipt_status receipt \<noteq> ''success'' then
          act_throw (new_error (''the hand-off transaction reverted ('' @ txHash @ '')''))
        else
          act_bind (act_lift (web_extractInstructionId decode (receipt_logs receipt))) (\<lambda>i.
          act_return \<lparr> h_instructionId = i, h_txHash = txHash \<rparr>))))))"

definition store_hit :: "decoder \<Rightarrow> log_entry \<Rightarrow> string option" where
  "store_hit decode l =
     (case decode teeInstructionsSentAbi l of
        Inr (n, args) \<Rightarrow> if n = ''TeeInstructionsSent'' then Some (log_arg args ''instructionId'') else None
      | Inl _ \<Rightarrow> None)"

interpretation store_scan: log_scan "web_extractInstructionId decode" "store_hit decode" no_store_instruction
  for decode :: decoder
  by unfold_locales (auto simp: store_hit_def split: sum.split prod.split)

section \<open>What a run writes\<close>

text \<open>The transactions a trace asks the wallet for, in order.\<close>

definition written :: "event list \<Rightarrow> contract_call list" where
  "written u = List.map_filter (\<lambda>e. case e of Written c \<Rightarrow> Some c | _ \<Rightarrow> None) u"

lemma written_simps [simp]:
  "written [] = []" "written (u @ w) = written u @ written w"
  "written (e # u) = (case e of Written c \<Rightarrow> [c] | _ \<Rightarrow> []) @ written u"
  by (auto simp: written_def map_filter_def split: event.split)

lemma storePolicyOnChain_trace:
  assumes "storePolicyOnChain E P decode policy ct t = (r, t')"
  shows "\<exists>u. t' = t @ u \<and> written u \<in> {[], [store_call P policy ct]} \<and> keeps_storage u \<and>
    (\<forall>h. r = Inr h \<longrightarrow> written u = [store_call P policy ct])"
proof (cases r)
  case (Inl e)
  with assms show ?thesis
    by (auto simp: storePolicyOnChain_def walletClient_def act_bind_Inl act_prims keeps_storage_def Let_def split: if_splits)
next
  case (Inr h)
  with assms show ?thesis
    by (auto simp: storePolicyOnChain_def walletClient_def act_bind_Inr act_prims keeps_storage_def Let_def split: if_splits)
qed

end
