(* ===== verification/Deploy.thy ===== *)
theory Deploy
  imports StorePolicy TeeInfo
begin

text \<open>
  The deploy flow of the browser (apps/web/lib/deploy.ts): from a compiled policy to
  a live, configured, handed-off and funded contract. Its state is the array
  \<open>steps\<close>, which \<open>update\<close> mutates and reports, beside the trace of the world. Each
  numbered section of \<open>deployPolicy\<close> is a definition here.
\<close>

section \<open>The world of a deployment\<close>

text \<open>
  The environment, the build's variables, the libraries, and the randomness of
  the one sealing of a run (\<open>eph\<close> and \<open>iv\<close>); \<open>syntax_error\<close> is the text of a
  \<open>SyntaxError\<close> of \<open>JSON.parse\<close>.
\<close>

record browser =
  br_env :: env
  br_process :: process_env
  br_viem :: viem
  br_noble :: noble
  br_decode :: decoder
  br_ephemeral :: bytes
  br_iv :: bytes
  syntax_error :: "string \<Rightarrow> string"

section \<open>Triggers\<close>

definition deploy_error :: "string \<Rightarrow> string \<Rightarrow> thrown" where
  "deploy_error m s = Thrown None None m (Some s)"

definition requireDeployed :: "string \<Rightarrow> string \<Rightarrow> thrown + string" where
  "requireDeployed address' what =
     (if re_zero_hex address' then
        Inl (deploy_error (''The '' @ what @ '' is not deployed on '' @ coston2_name @ '' yet.'') ''configure'')
      else Inr address')"

fun triggerAddress :: "process_env \<Rightarrow> trigger \<Rightarrow> thrown + string" where
  "triggerAddress P (ManualHeartbeat i d) = requireDeployed (manualHeartbeatTrigger_at (ADDRESSES P)) ''check-in trigger''"
| "triggerAddress P (TimestampTrigger t) = requireDeployed (timestampTrigger_at (ADDRESSES P)) ''scheduled-date trigger''"
| "triggerAddress P (ChainProofOfLife i s d m) =
     requireDeployed (fdcNonexistenceTrigger_at (ADDRESSES P)) ''payment proof-of-life trigger''"

fun trigger_kind :: "trigger \<Rightarrow> string" where
  "trigger_kind (ManualHeartbeat i d) = ''manualHeartbeat''"
| "trigger_kind (ChainProofOfLife i s d m) = ''chainProofOfLife''"
| "trigger_kind (TimestampTrigger t) = ''timestamp''"

definition stringToBytes32 :: "string \<Rightarrow> thrown + string" where
  "stringToBytes32 value =
     (let hex = bytes_hex (utf8_bytes value) in
      if length hex > 64 then
        Inl (deploy_error (''source id '' @ [CHR 0x22] @ value @ [CHR 0x22] @ '' exceeds 32 bytes'') ''configure'')
      else Inr (''0x'' @ pad_end 64 CHR ''0'' hex))"

definition big_of_string :: "string \<Rightarrow> thrown + int" where
  "big_of_string s =
     (case BigInt s of Some i \<Rightarrow> Inr i | None \<Rightarrow> Inl (new_error (''Cannot convert '' @ s @ '' to a BigInt'')))"

definition configureRequest :: "viem \<Rightarrow> int \<Rightarrow> trigger \<Rightarrow> string \<Rightarrow> string \<Rightarrow> thrown + abi_item list \<times> string \<times> jsv list" where
  "configureRequest V now trg owner policy =
     (case trg of
        ManualHeartbeat intervalSeconds demoMode \<Rightarrow>
          Inr (manualHeartbeatTriggerAbi, ''configure'', [JStr policy, JStr owner, JBig intervalSeconds, JBool demoMode])
      | TimestampTrigger executeAfter \<Rightarrow>
          Inr (timestampTriggerAbi, ''configure'', [JStr policy, JBig executeAfter])
      | ChainProofOfLife intervalSeconds sourceId destinationAddress minimumAmount \<Rightarrow>
          (case policyReference V policy of
             Inl e \<Rightarrow> Inl (thrown_of e)
           | Inr reference \<Rightarrow>
               and_then (stringToBytes32 sourceId) (\<lambda>source.
               and_then (big_of_string minimumAmount) (\<lambda>minimum.
               Inr (fdcNonexistenceTriggerAbi, ''configure'',
                 [JStr policy,
                  JObj [(''owner'', JStr owner), (''sourceId'', JStr source),
                    (''destinationAddressHash'', JStr (''0x'' @ bytes_hex (keccak256 V (utf8_bytes destinationAddress)))),
                    (''paymentReference'', JStr reference), (''minimumAmount'', JBig minimum),
                    (''interval'', JBig intervalSeconds), (''start'', JBig (now div 1000))]])))))"

section \<open>The receipt\<close>

definition no_policy_address :: thrown where
  "no_policy_address = new_error ''the policy was created but its address could not be read from the receipt''"

fun policyAddressFromReceipt :: "process_env \<Rightarrow> decoder \<Rightarrow> log_entry list \<Rightarrow> thrown + string" where
  "policyAddressFromReceipt P decode [] = Inl no_policy_address"
| "policyAddressFromReceipt P decode (l # logs) =
     (if lower_case (log_address l) \<noteq> lower_case (policyFactory (ADDRESSES P)) then policyAddressFromReceipt P decode logs
      else (case decode policyFactoryAbi l of
          Inr (eventName, args) \<Rightarrow>
            if eventName = ''PolicyDeployed'' then Inr (log_arg args ''policy'') else policyAddressFromReceipt P decode logs
        | Inl _ \<Rightarrow> policyAddressFromReceipt P decode logs))"

definition deployed_hit :: "process_env \<Rightarrow> decoder \<Rightarrow> log_entry \<Rightarrow> string option" where
  "deployed_hit P decode l =
     (if lower_case (log_address l) \<noteq> lower_case (policyFactory (ADDRESSES P)) then None
      else (case decode policyFactoryAbi l of
          Inr (n, args) \<Rightarrow> if n = ''PolicyDeployed'' then Some (log_arg args ''policy'') else None
        | Inl _ \<Rightarrow> None))"

interpretation deploy_scan: log_scan "policyAddressFromReceipt P decode" "deployed_hit P decode" no_policy_address
  for P :: process_env and decode :: decoder
  by unfold_locales (auto simp: deployed_hit_def split: sum.split prod.split)

section \<open>The enclave's key\<close>

text \<open>\<open>response.json().then(body => body.error).catch(() => null)\<close>.\<close>

definition error_detail :: "string \<Rightarrow> jsv" where
  "error_detail body =
     (case json_parse body of None \<Rightarrow> JNull
      | Some v \<Rightarrow> (case member_of v ''error'' of None \<Rightarrow> JNull | Some d \<Rightarrow> d))"

definition fetchTeePublicKey :: "browser \<Rightarrow> string option act" where
  "fetchTeePublicKey B =
     (if br_process B ''NEXT_PUBLIC_EXT_PROXY_URL'' \<in> {None, Some []} then act_return None
      else
        act_bind (fetch (br_env B) ''/api/enclave/info'') (\<lambda>response.
        if \<not> http_ok response then
          act_throw (new_error (js_text (nullish_or (error_detail (http_body response))
            (JStr (''the enclave could not be reached ('' @ int_str (http_status response) @ '')'')))))
        else
          act_bind (act_lift (parse_body (syntax_error B) (http_body response))) (\<lambda>info.
          (case teePublicKeyFromInfo info of
             Inl e \<Rightarrow> act_throw (thrown_of e)
           | Inr key \<Rightarrow> act_return (Some key)))))"

definition probeEnclaveKey :: "browser \<Rightarrow> (bool \<times> string option) act" where
  "probeEnclaveKey B =
     (if br_process B ''NEXT_PUBLIC_EXT_PROXY_URL'' \<in> {None, Some []} then
        act_return (False, Some ''No extension proxy is configured in this build.'')
      else
        act_catch
          (act_bind (fetchTeePublicKey B) (\<lambda>key.
             act_return (if key \<noteq> None then (True, None) else (False, Some ''The proxy returned no machine key.''))))
          (\<lambda>e. act_return (False, Some (message_of e))))"

section \<open>Steps\<close>

type_synonym 'a flow = "(deploy_step list \<times> event list, 'a) step"

definition on_trace :: "'a act \<Rightarrow> 'a flow" where
  "on_trace m s = (case m (snd s) of (r, t') \<Rightarrow> (r, (fst s, t')))"

definition pending :: "string \<Rightarrow> string \<Rightarrow> deploy_step" where
  "pending i l = \<lparr> step_id = i, step_label = l, step_status = ''pending'', step_tx = None, step_note = None \<rparr>"

definition initial_steps :: "string \<Rightarrow> deploy_step list" where
  "initial_steps asset =
     [pending ''seal'' ''Encrypt your confidential inputs'', pending ''deploy'' ''Create the policy contract'',
      pending ''configure'' ''Set the trigger'', pending ''handoff'' ''Hand the sealed policy to the enclave'',
      pending ''approve'' (''Approve '' @ asset), pending ''deposit'' (''Deposit '' @ asset)]"

fun assign_step :: "string \<Rightarrow> (deploy_step \<Rightarrow> deploy_step) \<Rightarrow> deploy_step list \<Rightarrow> deploy_step list" where
  "assign_step i patch [] = []"
| "assign_step i patch (s # ss) = (if step_id s = i then patch s # ss else s # assign_step i patch ss)"

definition update :: "string \<Rightarrow> (deploy_step \<Rightarrow> deploy_step) \<Rightarrow> unit flow" where
  "update i patch s = (let steps = assign_step i patch (fst s) in (Inr (), (steps, snd s @ [Progress steps])))"

definition status_is :: "string \<Rightarrow> deploy_step \<Rightarrow> deploy_step" where
  "status_is st s = s\<lparr> step_status := st \<rparr>"

definition status_note :: "string \<Rightarrow> string \<Rightarrow> deploy_step \<Rightarrow> deploy_step" where
  "status_note st n s = s\<lparr> step_status := st, step_note := Some n \<rparr>"

definition tx_is :: "string \<Rightarrow> deploy_step \<Rightarrow> deploy_step" where
  "tx_is h s = s\<lparr> step_tx := Some h \<rparr>"

text \<open>The handler of every fatal section: report the error on the step, then throw it as a \<open>DeployError\<close>.\<close>

definition fatal :: "string \<Rightarrow> 'a flow \<Rightarrow> 'a flow" where
  "fatal i body = act_catch body (\<lambda>e.
     act_bind (update i (status_note ''error'' (message_of e))) (\<lambda>_. act_throw (deploy_error (message_of e) i)))"

text \<open>Ask the wallet for a transaction, show its hash, wait for the receipt.\<close>

definition transact :: "env \<Rightarrow> string \<Rightarrow> contract_call \<Rightarrow> (string \<times> tx_receipt) flow" where
  "transact E i call =
     act_bind (on_trace (writeContract E call)) (\<lambda>hash.
     act_bind (update i (tx_is hash)) (\<lambda>_.
     act_bind (on_trace (waitForTransactionReceipt E hash)) (\<lambda>receipt.
     act_return (hash, receipt))))"

definition require_success :: "tx_receipt \<Rightarrow> ('s, unit) step" where
  "require_success receipt =
     (if receipt_status receipt \<noteq> ''success'' then act_throw (new_error ''the transaction reverted'') else act_return ())"

section \<open>deployPolicy\<close>

definition seal_section :: "browser \<Rightarrow> string \<Rightarrow> string option flow" where
  "seal_section B text =
     act_bind (update ''seal'' (status_is ''running'')) (\<lambda>_.
     act_catch
       (act_bind (on_trace (fetchTeePublicKey B)) (\<lambda>teeKey.
          (case teeKey of
             Some key \<Rightarrow>
               (case eciesEncrypt (br_noble B) (br_ephemeral B) (br_iv B) (HexStr key) (utf8_bytes text) of
                  Inl e \<Rightarrow> act_throw (thrown_of e)
                | Inr ciphertext \<Rightarrow>
                    act_bind (update ''seal'' (status_note ''done'' (nat_str (js_length text) @ '' bytes sealed''))) (\<lambda>_.
                    act_return (Some ciphertext)))
           | None \<Rightarrow>
               act_bind (update ''seal'' (status_note ''skipped'' ''No enclave key available. Kept in this browser only.'')) (\<lambda>_.
               act_return None))))
       (\<lambda>e. act_bind (update ''seal'' (status_note ''skipped'' (''Kept in this browser only ('' @ message_of e @ '')''))) (\<lambda>_.
            act_return None)))"

definition deploy_call :: "process_env \<Rightarrow> string \<Rightarrow> string \<Rightarrow> contract_call" where
  "deploy_call P comm trigger' =
     \<lparr> call_to = policyFactory (ADDRESSES P), call_fn = ''deploy'',
       call_args = [JStr (fxrp (ADDRESSES P)), JStr comm, JStr (teeAttestorGate (ADDRESSES P)), JStr trigger', JArr []],
       call_value = 0 \<rparr>"

definition deploy_section :: "browser \<Rightarrow> string \<Rightarrow> string \<Rightarrow> (string \<times> string) flow" where
  "deploy_section B comm trigger' =
     act_bind (update ''deploy'' (status_is ''running'')) (\<lambda>_.
     fatal ''deploy''
       (act_bind (transact (br_env B) ''deploy'' (deploy_call (br_process B) comm trigger')) (\<lambda>(deployTx, receipt).
        act_bind (require_success receipt) (\<lambda>_.
        act_bind (act_lift (policyAddressFromReceipt (br_process B) (br_decode B) (receipt_logs receipt))) (\<lambda>policy.
        act_bind (update ''deploy'' (status_note ''done'' policy)) (\<lambda>_.
        act_return (policy, deployTx)))))))"

definition configure_section :: "browser \<Rightarrow> trigger \<Rightarrow> string \<Rightarrow> string \<Rightarrow> string \<Rightarrow> unit flow" where
  "configure_section B trg trigger' account policy =
     act_bind (update ''configure'' (status_is ''running'')) (\<lambda>_.
     fatal ''configure''
       (act_bind (on_trace (clock (br_env B))) (\<lambda>now.
        act_bind (act_lift (configureRequest (br_viem B) now trg account policy)) (\<lambda>(abi, fn, args).
        act_bind (transact (br_env B) ''configure'' \<lparr> call_to = trigger', call_fn = fn, call_args = args, call_value = 0 \<rparr>)
          (\<lambda>(hash, receipt).
        act_bind (require_success receipt) (\<lambda>_.
        update ''configure'' (status_is ''done'')))))))"

definition handoff_section :: "browser \<Rightarrow> vault_entry \<Rightarrow> vault_entry flow" where
  "handoff_section B entry =
     act_bind (update ''handoff'' (status_is ''running'')) (\<lambda>_.
     case ve_ciphertext entry of
       None \<Rightarrow>
         act_bind (update ''handoff'' (status_note ''skipped''
           ''Nothing sealed to send. Configure an enclave key, then retry from the policy screen.'')) (\<lambda>_. act_return entry)
     | Some ciphertext \<Rightarrow>
         if \<not> enclaveHandoffConfigured (br_process B) then
           act_bind (update ''handoff'' (status_note ''skipped'' ''No instruction sender configured in this build.''))
             (\<lambda>_. act_return entry)
         else
           (let retry = \<lambda>entry e. act_bind (update ''handoff''
                  (status_note ''skipped'' (message_of e @ '' You can retry from the policy screen.''))) (\<lambda>_. act_return entry)
            in act_bind
                 (act_catch
                    (act_bind (on_trace (storePolicyOnChain (br_env B) (br_process B) (br_decode B) (ve_policy entry) ciphertext))
                       (\<lambda>h. act_return (Inr h)))
                    (\<lambda>e. act_return (Inl e)))
                 (\<lambda>res. case res of
                    Inl e \<Rightarrow> retry entry e
                  | Inr h \<Rightarrow>
                      act_bind (on_trace (clock (br_env B))) (\<lambda>now.
                      (let entry' = entry\<lparr> ve_handoff := Some (h, now) \<rparr> in
                       act_catch
                         (act_bind (on_trace (saveEntry (br_env B) entry')) (\<lambda>_.
                          act_bind (update ''handoff'' (\<lambda>s. s\<lparr> step_status := ''done'', step_tx := Some (h_txHash h) \<rparr>)) (\<lambda>_.
                          act_return entry')))
                         (retry entry'))))))"

definition approve_call :: "process_env \<Rightarrow> string \<Rightarrow> int \<Rightarrow> contract_call" where
  "approve_call P policy deposit =
     \<lparr> call_to = fxrp (ADDRESSES P), call_fn = ''approve'', call_args = [JStr policy, JBig deposit], call_value = 0 \<rparr>"

definition deposit_call :: "string \<Rightarrow> int \<Rightarrow> contract_call" where
  "deposit_call policy deposit =
     \<lparr> call_to = policy, call_fn = ''deposit'', call_args = [JBig deposit], call_value = 0 \<rparr>"

definition fund_section :: "browser \<Rightarrow> string \<Rightarrow> int \<Rightarrow> unit flow" where
  "fund_section B policy deposit =
     (if deposit = 0 then
        act_bind (update ''approve'' (status_note ''skipped'' ''You can deposit any time from the policy screen.'')) (\<lambda>_.
        update ''deposit'' (status_is ''skipped''))
      else
        act_bind (update ''approve'' (status_is ''running'')) (\<lambda>_.
        act_bind (fatal ''approve''
          (act_bind (transact (br_env B) ''approve'' (approve_call (br_process B) policy deposit)) (\<lambda>_.
           update ''approve'' (status_is ''done'')))) (\<lambda>_.
        act_bind (update ''deposit'' (status_is ''running'')) (\<lambda>_.
        fatal ''deposit''
          (act_bind (transact (br_env B) ''deposit'' (deposit_call policy deposit)) (\<lambda>(hash, receipt).
           act_bind (require_success receipt) (\<lambda>_.
           update ''deposit'' (status_is ''done''))))))))"

definition new_entry :: "compiled_policy \<Rightarrow> string \<Rightarrow> string \<Rightarrow> string \<Rightarrow> string \<Rightarrow> string option \<Rightarrow> string \<Rightarrow> int \<Rightarrow> vault_entry" where
  "new_entry compiled slt templateId trigger' policy ciphertext deployTx now =
     \<lparr> ve_policy = policy, ve_chainId = coston2_id, ve_name = ir_name (ir compiled), ve_templateId = templateId,
       ve_assetSymbol = ir_asset (ir compiled), ve_salt = slt, ve_privateConfig = privateConfig compiled,
       ve_ciphertext = ciphertext, ve_triggerKind = trigger_kind (ir_trigger (ir compiled)),
       ve_triggerAddress = trigger', ve_deployTx = deployTx, ve_deployedAt = now, ve_handoff = None \<rparr>"

definition finish_section ::
  "browser \<Rightarrow> compiled_policy \<Rightarrow> string \<Rightarrow> string \<Rightarrow> string \<Rightarrow> string \<Rightarrow> string \<Rightarrow> string option \<Rightarrow> int \<Rightarrow> vault_entry flow" where
  "finish_section B compiled slt templateId trigger' policy deployTx ciphertext deposit =
     act_bind (on_trace (clock (br_env B))) (\<lambda>now.
     let entry = new_entry compiled slt templateId trigger' policy ciphertext deployTx now in
     act_bind (on_trace (saveEntry (br_env B) entry)) (\<lambda>_.
     act_bind (handoff_section B entry) (\<lambda>entry'.
     act_bind (fund_section B policy deposit) (\<lambda>_.
     act_return entry'))))"

definition deploy_flow :: "browser \<Rightarrow> compiled_policy \<Rightarrow> string \<Rightarrow> string \<Rightarrow> string \<Rightarrow> int \<Rightarrow> vault_entry flow" where
  "deploy_flow B compiled slt templateId account deposit =
     act_bind (walletClient (br_env B)) (\<lambda>_.
     act_bind (act_lift (triggerAddress (br_process B) (ir_trigger (ir compiled)))) (\<lambda>trigger'.
     act_bind (seal_section B (plaintext compiled)) (\<lambda>ciphertext.
     act_bind (deploy_section B (commitment (publicArgs compiled)) trigger') (\<lambda>(policy, deployTx).
     act_bind (configure_section B (ir_trigger (ir compiled)) trigger' account policy) (\<lambda>_.
     finish_section B compiled slt templateId trigger' policy deployTx ciphertext deposit)))))"

definition deployPolicy :: "browser \<Rightarrow> compiled_policy \<Rightarrow> string \<Rightarrow> string \<Rightarrow> string \<Rightarrow> int \<Rightarrow> vault_entry act" where
  "deployPolicy B compiled slt templateId account deposit t =
     (case deploy_flow B compiled slt templateId account deposit (initial_steps (ir_asset (ir compiled)), t) of
        (r, (_, t')) \<Rightarrow> (r, t'))"

section \<open>What each section does to the trace\<close>

text \<open>
  \<open>emits m s ok bad\<close>: run from \<open>s\<close>, \<open>m\<close> extends the trace without touching the storage,
  asking the wallet for transactions that satisfy \<open>ok\<close> of its value, or \<open>bad\<close> of its exception.
\<close>

definition emits :: "'a flow \<Rightarrow> (deploy_step list \<times> event list) \<Rightarrow> ('a \<Rightarrow> contract_call list \<Rightarrow> bool) \<Rightarrow>
    (thrown \<Rightarrow> contract_call list \<Rightarrow> bool) \<Rightarrow> bool" where
  "emits m s ok bad \<longleftrightarrow> (\<exists>u. snd (snd (m s)) = snd s @ u \<and> keeps_storage u \<and>
     (case fst (m s) of Inr a \<Rightarrow> ok a (written u) | Inl e \<Rightarrow> bad e (written u)))"

lemma keeps_storage_simps [simp]:
  "keeps_storage []" "keeps_storage (u @ w) \<longleftrightarrow> keeps_storage u \<and> keeps_storage w"
  "keeps_storage (e # u) \<longleftrightarrow> (case e of Stored _ _ \<Rightarrow> False | _ \<Rightarrow> True) \<and> keeps_storage u"
  by (auto simp: keeps_storage_def split: event.split)

lemma emits_bind:
  assumes "emits m s ok bad"
    and "\<And>a w s'. ok a w \<Longrightarrow> emits (f a) s' (\<lambda>b w'. ok' b (w @ w')) (\<lambda>e w'. bad' e (w @ w'))"
    and "\<And>e w. bad e w \<Longrightarrow> bad' e w"
  shows "emits (act_bind m f) s ok' bad'"
proof -
  obtain r s1 where m: "m s = (r, s1)" by (cases "m s")
  from assms(1) m obtain u where u: "snd s1 = snd s @ u" "keeps_storage u"
    "case r of Inr a \<Rightarrow> ok a (written u) | Inl e \<Rightarrow> bad e (written u)"
    by (auto simp: emits_def)
  show ?thesis
  proof (cases r)
    case (Inl e)
    with m u assms(3) show ?thesis by (auto simp: emits_def act_bind_def)
  next
    case (Inr a)
    with u(3) have "ok a (written u)" by simp
    from assms(2) [OF this, of s1] obtain v where "snd (snd (f a s1)) = snd s1 @ v" "keeps_storage v"
      "case fst (f a s1) of Inr b \<Rightarrow> ok' b (written u @ written v) | Inl e \<Rightarrow> bad' e (written u @ written v)"
      by (auto simp: emits_def)
    with m u Inr show ?thesis by (auto simp: emits_def act_bind_def intro!: exI [of _ "u @ v"] split: sum.splits)
  qed
qed

lemma emits_catch:
  assumes "emits m s ok bad" and "\<And>e w s'. bad e w \<Longrightarrow> emits (h e) s' (\<lambda>b w'. ok b (w @ w')) (\<lambda>e w'. bad' e (w @ w'))"
  shows "emits (act_catch m h) s ok bad'"
proof -
  obtain r s1 where m: "m s = (r, s1)" by (cases "m s")
  from assms(1) m obtain u where u: "snd s1 = snd s @ u" "keeps_storage u"
    "case r of Inr a \<Rightarrow> ok a (written u) | Inl e \<Rightarrow> bad e (written u)"
    by (auto simp: emits_def)
  show ?thesis
  proof (cases r)
    case (Inr a)
    with m u show ?thesis by (auto simp: emits_def act_catch_def)
  next
    case (Inl e)
    with u(3) have "bad e (written u)" by simp
    from assms(2) [OF this, of s1] obtain v where "snd (snd (h e s1)) = snd s1 @ v" "keeps_storage v"
      "case fst (h e s1) of Inr b \<Rightarrow> ok b (written u @ written v) | Inl e \<Rightarrow> bad' e (written u @ written v)"
      by (auto simp: emits_def)
    with m u Inl show ?thesis by (auto simp: emits_def act_catch_def intro!: exI [of _ "u @ v"] split: sum.splits)
  qed
qed

lemma emits_return: "ok a [] \<Longrightarrow> emits (act_return a) s ok bad"
  by (simp add: emits_def act_return_def)

lemma emits_throw: "bad e [] \<Longrightarrow> emits (act_throw e) s ok bad"
  by (simp add: emits_def act_throw_def)

lemma emits_lift: "(\<And>a. r = Inr a \<Longrightarrow> ok a []) \<Longrightarrow> (\<And>e. r = Inl e \<Longrightarrow> bad e []) \<Longrightarrow> emits (act_lift r) s ok bad"
  by (simp add: emits_def act_lift_def split: sum.split)

lemma emits_update: "ok () [] \<Longrightarrow> emits (update i p) s ok bad"
  by (simp add: emits_def update_def Let_def)

lemma emits_clock: "(\<And>n. ok n []) \<Longrightarrow> emits (on_trace (clock E)) s ok bad"
  by (simp add: emits_def on_trace_def clock_def)

text \<open>A request for a transaction reaches the wallet whatever becomes of it.\<close>

text \<open>The receipt \<open>rc\<close> is one the chain gave for the hash it gave for a request \<open>c\<close>.\<close>

definition receipt_of :: "env \<Rightarrow> contract_call \<Rightarrow> string \<Rightarrow> tx_receipt \<Rightarrow> bool" where
  "receipt_of E c h rc \<longleftrightarrow> (\<exists>t t'. env_write E t c = Inr h \<and> env_receipt E t' h = Inr rc)"

lemma emits_transact:
  assumes "\<And>h rc. receipt_of E c h rc \<Longrightarrow> ok (h, rc) [c]" "\<And>e. bad e [c]"
  shows "emits (transact E i c) s ok bad"
  using assms
  by (auto simp: emits_def transact_def act_bind_def on_trace_def update_def act_prims Let_def receipt_of_def
      split: sum.splits prod.splits)

lemma emits_fatal:
  assumes "emits m s ok (\<lambda>e w. bad w)"
  shows "emits (fatal i m) s ok (\<lambda>e w. bad w \<and> thrown_step e = Some i)"
  unfolding fatal_def
  by (rule emits_catch [OF assms], rule emits_bind [where ok = "\<lambda>_ w. w = []" and bad = "\<lambda>_ _. False"])
    (auto intro!: emits_update emits_throw simp: deploy_error_def)

lemma emits_require: "ok () [] \<Longrightarrow> (\<And>e. bad e []) \<Longrightarrow> emits (require_success rc) s ok bad"
  by (auto simp: require_success_def intro: emits_throw emits_return)

lemma emits_weaken:
  "emits m s ok bad \<Longrightarrow> (\<And>a w. ok a w \<Longrightarrow> ok' a w) \<Longrightarrow> (\<And>e w. bad e w \<Longrightarrow> bad' e w) \<Longrightarrow> emits m s ok' bad'"
  by (auto simp: emits_def split: sum.splits)

text \<open>The rules in the form of a sequence, one per primitive.\<close>

lemma emits_update_then: "(\<And>s'. emits m s' ok bad) \<Longrightarrow> emits (act_bind (update i p) (\<lambda>_. m)) s ok bad"
  by (rule emits_bind [where ok = "\<lambda>_ w. w = []" and bad = "\<lambda>_ _. False"]) (auto intro: emits_update)

lemma emits_transact_then:
  assumes "\<And>h rc s'. receipt_of E c h rc \<Longrightarrow> emits (f (h, rc)) s' (\<lambda>a w. ok a (c # w)) (\<lambda>e w. bad e (c # w))" "\<And>e. bad e [c]"
  shows "emits (act_bind (transact E i c) f) s ok bad"
  using assms
  by (intro emits_bind [where ok = "\<lambda>a w. w = [c] \<and> receipt_of E c (fst a) (snd a)" and bad = "\<lambda>_ w. w = [c]"] emits_transact) auto

lemma emits_require_then:
  assumes "\<And>s'. receipt_status rc = ''success'' \<Longrightarrow> emits m s' ok bad" "\<And>e. bad e []"
  shows "emits (act_bind (require_success rc) (\<lambda>_. m)) s ok bad"
  using assms
  by (cases "receipt_status rc = ''success''") (auto simp: require_success_def act_bind_def act_return_def act_throw_def emits_def)

lemma emits_lift_then:
  assumes "\<And>a s'. r = Inr a \<Longrightarrow> emits (f a) s' ok bad" "\<And>e. r = Inl e \<Longrightarrow> bad e []"
  shows "emits (act_bind (act_lift r) f) s ok bad"
  using assms by (cases r) (auto simp: act_bind_def act_lift_def emits_def)

lemma emits_clock_then:
  assumes "\<And>n s'. emits (f n) s' ok bad"
  shows "emits (act_bind (on_trace (clock E)) f) s ok bad"
  using assms unfolding emits_def by (simp add: act_bind_def clock_def on_trace_def)

section \<open>What each section asks the wallet for\<close>

text \<open>A key the proxy served through the route, and a ciphertext sealed to such a key.\<close>

definition served_key :: "browser \<Rightarrow> string \<Rightarrow> bool" where
  "served_key B key \<longleftrightarrow> (\<exists>t response info. env_fetch (br_env B) t ''/api/enclave/info'' = Inr response \<and> http_ok response \<and>
     json_parse (http_body response) = Some info \<and> teePublicKeyFromInfo info = Inr key)"

definition sealed_by :: "browser \<Rightarrow> string \<Rightarrow> string \<Rightarrow> bool" where
  "sealed_by B text c \<longleftrightarrow> (\<exists>key. served_key B key \<and>
     eciesEncrypt (br_noble B) (br_ephemeral B) (br_iv B) (HexStr key) (utf8_bytes text) = Inr c)"

lemma fetchTeePublicKey_emits:
  "emits (on_trace (fetchTeePublicKey B)) s (\<lambda>k w. w = [] \<and> (\<forall>x. k = Some x \<longrightarrow> served_key B x)) (\<lambda>e w. w = [])"
proof -
  obtain u where u: "snd (fetchTeePublicKey B (snd s)) = snd s @ u" "written u = []" "keeps_storage u"
  proof -
    have "\<exists>u. snd (fetchTeePublicKey B t) = t @ u \<and> written u = [] \<and> keeps_storage u" for t
      by (auto simp: fetchTeePublicKey_def act_bind_def act_prims split: sum.splits prod.splits)
    with that show thesis by blast
  qed
  moreover have "served_key B x" if "fst (fetchTeePublicKey B t) = Inr (Some x)" for t x
    using that
    by (auto simp: fetchTeePublicKey_def act_bind_def act_prims served_key_def parse_body_def
        split: sum.splits prod.splits if_splits option.splits)
  ultimately show ?thesis
    unfolding emits_def on_trace_def case_prod_beta by (intro exI [of _ u]) (auto split: sum.split)
qed

lemma seal_emits:
  "emits (seal_section B text) s (\<lambda>ct w. w = [] \<and> (\<forall>c. ct = Some c \<longrightarrow> sealed_by B text c)) (\<lambda>e w. False)"
  unfolding seal_section_def
proof (rule emits_update_then, rule emits_catch [where bad = "\<lambda>_ w. w = []"], goal_cases)
  case 1
  show ?case
    by (rule emits_bind [OF fetchTeePublicKey_emits])
      (auto simp: sealed_by_def intro!: emits_throw emits_update_then emits_return split: option.split sum.split)
qed (auto intro!: emits_update_then emits_return)

text \<open>The policy \<open>policy\<close> is the one named by a successful receipt of the request \<open>d\<close>, whose hash is \<open>tx\<close>.\<close>

definition created :: "browser \<Rightarrow> contract_call \<Rightarrow> string \<Rightarrow> string \<Rightarrow> bool" where
  "created B d tx policy \<longleftrightarrow> (\<exists>rc. receipt_of (br_env B) d tx rc \<and> receipt_status rc = ''success'' \<and>
     policyAddressFromReceipt (br_process B) (br_decode B) (receipt_logs rc) = Inr policy)"

lemma deploy_emits:
  "emits (deploy_section B comm trg) s
     (\<lambda>(policy, tx) w. w = [deploy_call (br_process B) comm trg] \<and> created B (deploy_call (br_process B) comm trg) tx policy)
     (\<lambda>e w. w = [deploy_call (br_process B) comm trg] \<and> thrown_step e = Some ''deploy'')"
  unfolding deploy_section_def
  by (intro emits_update_then emits_fatal)
    (auto simp: created_def intro!: emits_transact_then emits_require_then emits_lift_then emits_update_then emits_return)

definition configured :: "browser \<Rightarrow> trigger \<Rightarrow> string \<Rightarrow> string \<Rightarrow> string \<Rightarrow> contract_call \<Rightarrow> bool" where
  "configured B trg trigger' account policy c \<longleftrightarrow> (\<exists>now abi fn args.
     configureRequest (br_viem B) now trg account policy = Inr (abi, fn, args) \<and>
     c = \<lparr> call_to = trigger', call_fn = fn, call_args = args, call_value = 0 \<rparr>)"

lemma configuredI:
  "configureRequest (br_viem B) now trg account policy = Inr (abi, fn, args) \<Longrightarrow>
   configured B trg trigger' account policy \<lparr> call_to = trigger', call_fn = fn, call_args = args, call_value = 0 \<rparr>"
  unfolding configured_def by blast

lemma configure_emits:
  "emits (configure_section B trg trigger' account policy) s
     (\<lambda>_ w. \<exists>c. w = [c] \<and> configured B trg trigger' account policy c)
     (\<lambda>e w. (w = [] \<or> (\<exists>c. w = [c] \<and> configured B trg trigger' account policy c)) \<and> thrown_step e = Some ''configure'')"
  unfolding configure_section_def
  by (intro emits_update_then emits_fatal emits_clock_then)
    (auto intro: configuredI intro!: emits_transact_then emits_require_then emits_lift_then emits_update)

lemma fund_emits:
  "emits (fund_section B policy deposit) s
     (\<lambda>_ w. w = (if deposit = 0 then [] else [approve_call (br_process B) policy deposit, deposit_call policy deposit]))
     (\<lambda>e w. deposit \<noteq> 0 \<and> w \<noteq> [] \<and> thrown_step e \<in> {Some ''approve'', Some ''deposit''} \<and>
        prefix w [approve_call (br_process B) policy deposit, deposit_call policy deposit])"
proof (cases "deposit = 0")
  case True
  then show ?thesis by (auto simp: fund_section_def intro!: emits_update_then emits_update)
next
  case False
  let ?a = "approve_call (br_process B) policy deposit" and ?d = "deposit_call policy deposit"
  have approve: "emits (fatal ''approve'' (act_bind (transact (br_env B) ''approve'' ?a) (\<lambda>_. update ''approve'' (status_is ''done'')))) s
      (\<lambda>_ w. w = [?a]) (\<lambda>e w. w = [?a] \<and> thrown_step e = Some ''approve'')" for s
    by (intro emits_fatal emits_transact_then emits_update) auto
  have deposit: "emits (fatal ''deposit'' (act_bind (transact (br_env B) ''deposit'' ?d)
        (\<lambda>(hash, receipt). act_bind (require_success receipt) (\<lambda>_. update ''deposit'' (status_is ''done''))))) s
      (\<lambda>_ w. w = [?d]) (\<lambda>e w. w = [?d] \<and> thrown_step e = Some ''deposit'')" for s
    by (intro emits_fatal emits_transact_then) (auto intro!: emits_require_then emits_update)
  show ?thesis
    unfolding fund_section_def if_not_P [OF False]
    by (intro emits_update_then emits_bind [OF approve] emits_weaken [OF deposit]) (use False in auto)
qed

section \<open>The hand-off and the vault\<close>

lemma emits_elim:
  assumes "emits m s ok bad" "m s = (r, s')"
  obtains u where "snd s' = snd s @ u" "keeps_storage u"
    "case r of Inr a \<Rightarrow> ok a (written u) | Inl e \<Rightarrow> bad e (written u)"
  using assms by (auto simp: emits_def)

lemma on_trace_store_emits:
  "emits (on_trace (storePolicyOnChain E P decode policy ct)) s
     (\<lambda>h w. w = [store_call P policy ct]) (\<lambda>e w. w \<in> {[], [store_call P policy ct]})"
  using storePolicyOnChain_trace [of E P decode policy ct "snd s"]
  by (cases "storePolicyOnChain E P decode policy ct (snd s)")
    (auto simp: emits_def on_trace_def split: sum.split)

lemma store_attempt_emits:
  "emits (act_catch (act_bind (on_trace (storePolicyOnChain E P decode policy ct)) (\<lambda>h. act_return (Inr h)))
       (\<lambda>e. act_return (Inl e))) s
     (\<lambda>_ w. w \<in> {[], [store_call P policy ct]}) (\<lambda>e w. False)"
  by (rule emits_catch [where bad = "\<lambda>_ w. w \<in> {[], [store_call P policy ct]}"])
    (auto intro!: emits_bind [OF on_trace_store_emits] emits_return)

definition same_but_handoff :: "vault_entry \<Rightarrow> vault_entry \<Rightarrow> bool" where
  "same_but_handoff e e' \<longleftrightarrow> (\<exists>h. e' = e\<lparr> ve_handoff := h \<rparr>)"

text \<open>The effect of the hand-off: it never throws, and the vault holds the entry before and after.\<close>

definition handed_off :: "browser \<Rightarrow> vault_entry \<Rightarrow> event list \<Rightarrow> (thrown + vault_entry) \<Rightarrow> event list \<Rightarrow> bool" where
  "handed_off B entry t r t' \<longleftrightarrow> (\<exists>e' u. r = Inr e' \<and> t' = t @ u \<and> same_but_handoff entry e' \<and>
     (written u = [] \<or> (\<exists>ct. ve_ciphertext entry = Some ct \<and> written u = [store_call (br_process B) (ve_policy entry) ct])) \<and>
     vault_ok (br_env B) t' \<and> (\<forall>p. getEntry (br_env B) p t' = getEntry (br_env B) p t \<or>
        lower_case p = lower_case (ve_policy entry) \<and> getEntry (br_env B) p t' = Inr (Some (entry_js e'))))"

lemma getEntry_cong: "keeps_storage u \<Longrightarrow> getEntry E p (t @ u) = getEntry E p t"
  by (simp add: getEntry_def keeps_storage_read)

lemma handed_off_skip:
  assumes "vault_ok (br_env B) t" "keeps_storage u" "same_but_handoff entry e'"
    and "written u = [] \<or> (\<exists>ct. ve_ciphertext entry = Some ct \<and> written u = [store_call (br_process B) (ve_policy entry) ct])"
  shows "handed_off B entry t (Inr e') (t @ u)"
  using assms unfolding handed_off_def by (auto simp: getEntry_cong vault_ok_cong)

lemma handed_off_save:
  assumes "vault_ok (br_env B) t" "keeps_storage u" "same_but_handoff entry e'"
    and "written u = [] \<or> (\<exists>ct. ve_ciphertext entry = Some ct \<and> written u = [store_call (br_process B) (ve_policy entry) ct])"
    and "saveEntry (br_env B) e' (t @ u) = (Inr (), t1)" "keeps_storage v" "written v = []"
  shows "handed_off B entry t (Inr e') (t1 @ v)"
proof -
  have ok: "vault_ok (br_env B) (t @ u)" using assms(1,2) by (simp add: vault_ok_cong)
  have p: "ve_policy e' = ve_policy entry" using assms(3) by (auto simp: same_but_handoff_def)
  obtain raw where t1: "t1 = (t @ u) @ [Stored KEY raw]" using save_read(3) [OF ok assms(5)] by blast
  have "\<forall>q. getEntry (br_env B) q (t1 @ v) = (if lower_case q = lower_case (ve_policy entry) then Inr (Some (entry_js e'))
      else getEntry (br_env B) q t)"
    using save_get [OF ok assms(5)] assms(2,6) p by (simp add: getEntry_cong)
  moreover have "vault_ok (br_env B) (t1 @ v)"
    using save_read(2) [OF ok assms(5)] assms(6) by (simp add: vault_ok_cong)
  ultimately show ?thesis
    using assms(3,4,7) t1 unfolding handed_off_def by (auto intro!: exI [of _ e'] exI [of _ "u @ Stored KEY raw # v"])
qed

lemma save_fails: "saveEntry E e t = (Inl x, t') \<Longrightarrow> t' = t"
  by (auto simp: saveEntry_def vault_write_def setItem_def split: sum.splits)

lemma update_snd: "update i p s = (Inr (), (assign_step i p (fst s), snd s @ [Progress (assign_step i p (fst s))]))"
  by (simp add: update_def Let_def)

lemma same_but_handoff_refl [simp]: "same_but_handoff e e" "same_but_handoff e (e\<lparr> ve_handoff := h \<rparr>)"
  unfolding same_but_handoff_def by (intro exI [of _ "ve_handoff e"], simp) blast

lemma handoff_handed_off:
  assumes ok: "vault_ok (br_env B) (snd s)" and run: "handoff_section B entry s = (r, s')"
  shows "handed_off B entry (snd s) r (snd s')"
proof (cases "\<exists>ct. ve_ciphertext entry = Some ct \<and> enclaveHandoffConfigured (br_process B)")
  case False
  then have "\<exists>u. r = Inr entry \<and> snd s' = snd s @ u \<and> keeps_storage u \<and> written u = []"
    using run by (auto simp: handoff_section_def act_bind_def update_snd act_return_def split: option.splits)
  then show ?thesis using ok by (auto intro!: handed_off_skip)
next
  case True
  then obtain ct where ct: "ve_ciphertext entry = Some ct" "enclaveHandoffConfigured (br_process B)" by blast
  let ?upd = "assign_step ''handoff'' (status_is ''running'') (fst s)" and ?c = "store_call (br_process B) (ve_policy entry) ct"
  let ?m = "act_catch (act_bind (on_trace (storePolicyOnChain (br_env B) (br_process B) (br_decode B) (ve_policy entry) ct))
      (\<lambda>h. act_return (Inr h))) (\<lambda>e. act_return (Inl e))"
  obtain r1 s1 where m: "?m (?upd, snd s @ [Progress ?upd]) = (r1, s1)" by (rule prod.exhaust)
  obtain u where u: "snd s1 = (snd s @ [Progress ?upd]) @ u" "keeps_storage u"
    "case r1 of Inr a \<Rightarrow> written u \<in> {[], [?c]} | Inl e \<Rightarrow> False"
    using emits_elim [OF store_attempt_emits m] by (auto split: sum.splits)
  then obtain res where res: "r1 = Inr res" "written u \<in> {[], [?c]}" by (cases r1) auto
  have s1: "snd s1 = snd s @ Progress ?upd # u" using u(1) by simp
  show ?thesis
  proof (cases res)
    case (Inl e)
    then have "\<exists>v. r = Inr entry \<and> snd s' = snd s @ v \<and> keeps_storage v \<and> written v \<in> {[], [?c]}"
      using run ct m s1 res u(2) by (auto simp: handoff_section_def act_bind_def update_snd act_return_def Let_def)
    then show ?thesis using ok ct by (auto intro!: handed_off_skip)
  next
    case (Inr h)
    define now where "now = env_clock (br_env B) (snd s1)"
    let ?e = "entry\<lparr> ve_handoff := Some (h, now) \<rparr>"
    obtain r2 t2 where save: "saveEntry (br_env B) ?e (snd s @ Progress ?upd # u) = (r2, t2)" by (rule prod.exhaust)
    show ?thesis
    proof (cases r2)
      case e: (Inl e)
      then have t2: "t2 = snd s @ Progress ?upd # u" using save_fails [of "br_env B" ?e _ e t2] save by simp
      have "\<exists>v. r = Inr ?e \<and> snd s' = snd s @ v \<and> keeps_storage v \<and> written v \<in> {[], [?c]}"
        using run ct m s1 res u(2) Inr save e t2
        by (auto simp: handoff_section_def act_bind_def act_catch_def update_snd act_return_def Let_def on_trace_def clock_def now_def)
      then show ?thesis using ok ct by (auto intro!: handed_off_skip)
    next
      case (Inr unit)
      then have "\<exists>st. r = Inr ?e \<and> snd s' = t2 @ [Progress st]"
        using run ct m s1 res u(2) \<open>res = Inr h\<close> save
        by (auto simp: handoff_section_def act_bind_def act_catch_def update_snd act_return_def Let_def on_trace_def clock_def now_def)
      then show ?thesis
        using handed_off_save [OF ok, of "Progress ?upd # u" entry ?e t2] save Inr u(2) res(2) ct by auto
    qed
  qed
qed

section \<open>The whole flow\<close>

definition funding_calls :: "browser \<Rightarrow> string \<Rightarrow> int \<Rightarrow> contract_call list" where
  "funding_calls B policy deposit =
     (if deposit = 0 then [] else [approve_call (br_process B) policy deposit, deposit_call policy deposit])"

definition handoff_calls :: "browser \<Rightarrow> string \<Rightarrow> string option \<Rightarrow> contract_call list \<Rightarrow> bool" where
  "handoff_calls B policy ciphertext ws \<longleftrightarrow>
     ws = [] \<or> (\<exists>ct. ciphertext = Some ct \<and> ws = [store_call (br_process B) policy ct])"

text \<open>What the sections after the configuration do: requests, and the vault when the flow returns.\<close>

lemma finish_effect:
  assumes ok: "vault_ok (br_env B) (snd s)"
    and run: "finish_section B compiled slt templateId trg policy tx ct deposit s = (r, s')"
  shows "\<exists>v ws. snd s' = snd s @ v \<and> handoff_calls B policy ct ws \<and> prefix (written v) (ws @ funding_calls B policy deposit) \<and>
    (\<forall>entry. r = Inr entry \<longrightarrow> written v = ws @ funding_calls B policy deposit \<and>
       (\<exists>now e. same_but_handoff (new_entry compiled slt templateId trg policy ct tx now) entry \<and>
          same_but_handoff (new_entry compiled slt templateId trg policy ct tx now) e \<and>
          getEntry (br_env B) policy (snd s') = Inr (Some (entry_js e))))"
proof -
  define e0 where "e0 = new_entry compiled slt templateId trg policy ct tx (env_clock (br_env B) (snd s))"
  have e0: "ve_policy e0 = policy" "ve_ciphertext e0 = ct" by (simp_all add: e0_def new_entry_def)
  obtain r1 t1 where save: "saveEntry (br_env B) e0 (snd s) = (r1, t1)" by (rule prod.exhaust)
  have step: "finish_section B compiled slt templateId trg policy tx ct deposit s =
     (case r1 of Inl e \<Rightarrow> (Inl e, (fst s, t1))
      | Inr _ \<Rightarrow> act_bind (handoff_section B e0) (\<lambda>entry'. act_bind (fund_section B policy deposit) (\<lambda>_. act_return entry')) (fst s, t1))"
    using save by (simp add: finish_section_def act_bind_def on_trace_def clock_def e0_def Let_def split: sum.split)
  show ?thesis
  proof (cases r1)
    case (Inl x)
    then show ?thesis
      using run step save save_fails [of "br_env B" e0 "snd s" x t1]
      by (intro exI [of _ "[]"]) (auto simp: handoff_calls_def)
  next
    case (Inr unit)
    with save have save': "saveEntry (br_env B) e0 (snd s) = (Inr (), t1)" by simp
    obtain raw where t1: "t1 = snd s @ [Stored KEY raw]" using save_read(3) [OF ok save'] by blast
    obtain r2 s2 where hand: "handoff_section B e0 (fst s, t1) = (r2, s2)" by (rule prod.exhaust)
    have "handed_off B e0 t1 r2 (snd s2)"
      using handoff_handed_off [of B "(fst s, t1)" e0 r2 s2] hand save_read(2) [OF ok save'] by simp
    then obtain e1 u where e1: "r2 = Inr e1" "snd s2 = t1 @ u" "same_but_handoff e0 e1"
      "handoff_calls B policy ct (written u)" "vault_ok (br_env B) (snd s2)"
      "getEntry (br_env B) policy (snd s2) = Inr (Some (entry_js e0)) \<or> getEntry (br_env B) policy (snd s2) = Inr (Some (entry_js e1))"
      using save_get [OF ok save', of policy] e0 unfolding handed_off_def handoff_calls_def by force
    obtain r3 s3 where fund: "fund_section B policy deposit s2 = (r3, s3)" by (rule prod.exhaust)
    obtain w where w: "snd s3 = snd s2 @ w" "keeps_storage w" "prefix (written w) (funding_calls B policy deposit)"
      "\<And>a. r3 = Inr a \<Longrightarrow> written w = funding_calls B policy deposit"
      by (rule emits_elim [OF fund_emits fund]) (auto simp: funding_calls_def split: sum.splits if_splits)
    have res: "r = (case r3 of Inl x \<Rightarrow> Inl x | Inr _ \<Rightarrow> Inr e1)" "s' = s3"
      using run step Inr hand e1(1) fund by (auto simp: act_bind_def act_return_def split: sum.splits)
    have "getEntry (br_env B) policy (snd s3) = getEntry (br_env B) policy (snd s2)"
      using w by (simp add: getEntry_cong)
    then have get: "\<exists>e. same_but_handoff e0 e \<and> getEntry (br_env B) policy (snd s3) = Inr (Some (entry_js e))"
      using e1(3,6) by (metis same_but_handoff_refl(1))
    have "snd s' = snd s @ (Stored KEY raw # u @ w)" using res w(1) e1(2) t1 by simp
    moreover have "prefix (written (Stored KEY raw # u @ w)) (written u @ funding_calls B policy deposit)" using w(3) by simp
    moreover have "written (Stored KEY raw # u @ w) = written u @ funding_calls B policy deposit \<and> entry = e1" if "r = Inr entry" for entry
      using that res w(4) by (auto split: sum.splits)
    ultimately show ?thesis
      using res(2) e1(3,4) get unfolding e0_def by (intro exI [of _ "Stored KEY raw # u @ w"] exI [of _ "written u"]) blast
  qed
qed

text \<open>
  The requests of a run: in this order, each only when the ones before it were made,
  to the policy the factory's event names, with what was compiled, and funded last.
\<close>

definition deploy_order :: "browser \<Rightarrow> compiled_policy \<Rightarrow> string \<Rightarrow> int \<Rightarrow> contract_call list \<Rightarrow> bool" where
  "deploy_order B compiled account deposit ws \<longleftrightarrow>
     ws = [] \<or>
     (\<exists>trg. triggerAddress (br_process B) (ir_trigger (ir compiled)) = Inr trg \<and>
       (let d = deploy_call (br_process B) (commitment (publicArgs compiled)) trg in
        ws = [d] \<or>
        (\<exists>policy tx c ct hs. created B d tx policy \<and> configured B (ir_trigger (ir compiled)) trg account policy c \<and>
           (\<forall>x. ct = Some x \<longrightarrow> sealed_by B (plaintext compiled) x) \<and> handoff_calls B policy ct hs \<and>
           prefix ws ([d, c] @ hs @ funding_calls B policy deposit))))"

definition deploy_done :: "browser \<Rightarrow> compiled_policy \<Rightarrow> string \<Rightarrow> string \<Rightarrow> string \<Rightarrow> int \<Rightarrow> contract_call list \<Rightarrow>
    vault_entry \<Rightarrow> event list \<Rightarrow> bool" where
  "deploy_done B compiled slt templateId account deposit ws entry t' \<longleftrightarrow>
     (\<exists>trg policy c ct hs tx now e. ws = [deploy_call (br_process B) (commitment (publicArgs compiled)) trg, c] @ hs @ funding_calls B policy deposit \<and>
        created B (deploy_call (br_process B) (commitment (publicArgs compiled)) trg) tx policy \<and>
        configured B (ir_trigger (ir compiled)) trg account policy c \<and>
        (\<forall>x. ct = Some x \<longrightarrow> sealed_by B (plaintext compiled) x) \<and> handoff_calls B policy ct hs \<and>
        same_but_handoff (new_entry compiled slt templateId trg policy ct tx now) entry \<and>
        same_but_handoff (new_entry compiled slt templateId trg policy ct tx now) e \<and>
        getEntry (br_env B) policy t' = Inr (Some (entry_js e)))"

lemma deploy_orderI:
  assumes "triggerAddress (br_process B) (ir_trigger (ir compiled)) = Inr trg" "created B (deploy_call (br_process B) (commitment (publicArgs compiled)) trg) tx policy"
    and "configured B (ir_trigger (ir compiled)) trg account policy c" "\<And>x. ct = Some x \<Longrightarrow> sealed_by B (plaintext compiled) x"
    and "handoff_calls B policy ct hs"
    and "prefix ws ([deploy_call (br_process B) (commitment (publicArgs compiled)) trg, c] @ hs @ funding_calls B policy deposit)"
  shows "deploy_order B compiled account deposit ws"
  using assms unfolding deploy_order_def Let_def by blast

lemma deploy_doneI:
  assumes "created B (deploy_call (br_process B) (commitment (publicArgs compiled)) trg) tx policy" "configured B (ir_trigger (ir compiled)) trg account policy c"
    and "\<And>x. ct = Some x \<Longrightarrow> sealed_by B (plaintext compiled) x" "handoff_calls B policy ct hs"
    and "\<exists>now e. same_but_handoff (new_entry compiled slt templateId trg policy ct tx now) entry \<and>
      same_but_handoff (new_entry compiled slt templateId trg policy ct tx now) e \<and>
      getEntry (br_env B) policy t' = Inr (Some (entry_js e))"
    and "ws = [deploy_call (br_process B) (commitment (publicArgs compiled)) trg, c] @ hs @ funding_calls B policy deposit"
  shows "deploy_done B compiled slt templateId account deposit ws entry t'"
  using assms unfolding deploy_done_def by blast

lemma act_bind_cases:
  assumes "act_bind m f s = (r, s')"
  obtains (threw) e where "m s = (Inl e, s')" "r = Inl e" | (gave) a s1 where "m s = (Inr a, s1)" "f a s1 = (r, s')"
  using assms by (auto simp: act_bind_def split: prod.splits sum.splits)

lemma act_lift_eq: "act_lift x s = (r, s') \<longleftrightarrow> r = x \<and> s' = s"
  by (auto simp: act_lift_def)

lemma configured_steps:
  assumes ok: "vault_ok (br_env B) (snd s)"
    and "created B (deploy_call (br_process B) (commitment (publicArgs compiled)) trg) tx policy" "\<And>x. ct = Some x \<Longrightarrow> sealed_by B (plaintext compiled) x"
    and trg: "triggerAddress (br_process B) (ir_trigger (ir compiled)) = Inr trg"
    and run: "act_bind (configure_section B (ir_trigger (ir compiled)) trg account policy)
       (\<lambda>_. finish_section B compiled slt templateId trg policy tx ct deposit) s = (r, s')"
  shows "\<exists>u. snd s' = snd s @ u \<and>
     deploy_order B compiled account deposit (deploy_call (br_process B) (commitment (publicArgs compiled)) trg # written u) \<and>
     (\<forall>entry. r = Inr entry \<longrightarrow> deploy_done B compiled slt templateId account deposit
        (deploy_call (br_process B) (commitment (publicArgs compiled)) trg # written u) entry (snd s'))"
  using run
proof (cases rule: act_bind_cases)
  case (threw e)
  obtain u where u: "snd s' = snd s @ u" "written u = [] \<or> (\<exists>c. written u = [c] \<and> configured B (ir_trigger (ir compiled)) trg account policy c)"
    by (rule emits_elim [OF configure_emits threw(1)]) auto
  from u(2) have "deploy_order B compiled account deposit (deploy_call (br_process B) (commitment (publicArgs compiled)) trg # written u)"
  proof
    assume "written u = []"
    with trg show ?thesis by (auto simp: deploy_order_def)
  next
    assume "\<exists>c. written u = [c] \<and> configured B (ir_trigger (ir compiled)) trg account policy c"
    then obtain c where c: "written u = [c]" "configured B (ir_trigger (ir compiled)) trg account policy c" by blast
    show ?thesis
      by (rule deploy_orderI [OF trg assms(2) c(2), of None "[]"]) (auto simp: c(1) handoff_calls_def)
  qed
  with u(1) threw(2) show ?thesis by auto
next
  case (gave a s1)
  obtain u c where u: "snd s1 = snd s @ u" "keeps_storage u" "written u = [c]"
    "configured B (ir_trigger (ir compiled)) trg account policy c"
    by (rule emits_elim [OF configure_emits gave(1)]) auto
  have ok1: "vault_ok (br_env B) (snd s1)" using ok u(1,2) by (simp add: vault_ok_cong)
  from finish_effect [OF ok1 gave(2)] obtain v hs where v: "snd s' = snd s1 @ v" "handoff_calls B policy ct hs"
    "prefix (written v) (hs @ funding_calls B policy deposit)"
    "\<And>entry. r = Inr entry \<Longrightarrow> written v = hs @ funding_calls B policy deposit \<and>
       (\<exists>now e. same_but_handoff (new_entry compiled slt templateId trg policy ct tx now) entry \<and>
          same_but_handoff (new_entry compiled slt templateId trg policy ct tx now) e \<and>
          getEntry (br_env B) policy (snd s') = Inr (Some (entry_js e)))"
    by blast
  have "deploy_order B compiled account deposit (deploy_call (br_process B) (commitment (publicArgs compiled)) trg # written (u @ v))"
    by (rule deploy_orderI [OF trg assms(2) u(4) assms(3) v(2)]) (use u(3) v(3) in auto)
  moreover have "deploy_done B compiled slt templateId account deposit
        (deploy_call (br_process B) (commitment (publicArgs compiled)) trg # written (u @ v)) entry (snd s')" if "r = Inr entry" for entry
    by (rule deploy_doneI [OF assms(2) u(4) assms(3) v(2) conjunct2 [OF v(4) [OF that]]]) (use v(4) [OF that] u(3) in auto)
  ultimately show ?thesis using u(1) v(1) by (intro exI [of _ "u @ v"]) auto
qed

lemma deploy_steps:
  assumes ok: "vault_ok (br_env B) (snd s)" and ct: "\<And>x. ct = Some x \<Longrightarrow> sealed_by B (plaintext compiled) x"
    and trg: "triggerAddress (br_process B) (ir_trigger (ir compiled)) = Inr trg"
    and run: "act_bind (deploy_section B (commitment (publicArgs compiled)) trg) (\<lambda>(policy, deployTx).
        act_bind (configure_section B (ir_trigger (ir compiled)) trg account policy) (\<lambda>_.
        finish_section B compiled slt templateId trg policy deployTx ct deposit)) s = (r, s')"
  shows "\<exists>u. snd s' = snd s @ u \<and> deploy_order B compiled account deposit (written u) \<and>
    (\<forall>entry. r = Inr entry \<longrightarrow> deploy_done B compiled slt templateId account deposit (written u) entry (snd s'))"
  using run
proof (cases rule: act_bind_cases)
  case (threw e)
  obtain u where "snd s' = snd s @ u" "written u = [deploy_call (br_process B) (commitment (publicArgs compiled)) trg]"
    by (rule emits_elim [OF deploy_emits threw(1)]) auto
  with threw(2) trg show ?thesis by (auto simp: deploy_order_def Let_def)
next
  case (gave pt s2)
  obtain policy tx where pt: "pt = (policy, tx)" by (rule prod.exhaust)
  obtain u where u: "snd s2 = snd s @ u" "keeps_storage u" "created B (deploy_call (br_process B) (commitment (publicArgs compiled)) trg) tx policy"
    "written u = [deploy_call (br_process B) (commitment (publicArgs compiled)) trg]"
    by (rule emits_elim [OF deploy_emits gave(1)]) (auto simp: pt)
  have ok2: "vault_ok (br_env B) (snd s2)" using ok u(1,2) by (simp add: vault_ok_cong)
  have "act_bind (configure_section B (ir_trigger (ir compiled)) trg account policy)
      (\<lambda>_. finish_section B compiled slt templateId trg policy tx ct deposit) s2 = (r, s')"
    using gave(2) pt by simp
  from configured_steps [OF ok2 u(3) ct trg this] obtain v where "snd s' = snd s2 @ v"
    "deploy_order B compiled account deposit (written (u @ v))"
    "\<forall>entry. r = Inr entry \<longrightarrow> deploy_done B compiled slt templateId account deposit (written (u @ v)) entry (snd s')"
    using u(4) by auto
  with u(1) show ?thesis by (intro exI [of _ "u @ v"]) simp
qed

lemma deployPolicy_effect:
  assumes ok: "vault_ok (br_env B) t" and run: "deployPolicy B compiled slt templateId account deposit t = (r, t')"
  shows "\<exists>u. t' = t @ u \<and> deploy_order B compiled account deposit (written u) \<and>
    (\<forall>entry. r = Inr entry \<longrightarrow> deploy_done B compiled slt templateId account deposit (written u) entry t')"
proof -
  let ?s = "(initial_steps (ir_asset (ir compiled)), t)"
  obtain s' where flow: "deploy_flow B compiled slt templateId account deposit ?s = (r, s')" "t' = snd s'"
    using run by (auto simp: deployPolicy_def split: prod.splits)
  show ?thesis
  proof (cases "\<exists>trg. env_wallet (br_env B) \<and> triggerAddress (br_process B) (ir_trigger (ir compiled)) = Inr trg")
    case False
    then obtain e where "r = Inl e" "t' = t"
      using flow by (auto simp: deploy_flow_def walletClient_def act_bind_def act_throw_def act_return_def act_lift_def split: if_splits sum.splits)
    then show ?thesis by (auto simp: deploy_order_def)
  next
    case True
    then obtain trg where trg: "triggerAddress (br_process B) (ir_trigger (ir compiled)) = Inr trg" by blast
    have "act_bind (seal_section B (plaintext compiled)) (\<lambda>ciphertext.
        act_bind (deploy_section B (commitment (publicArgs compiled)) trg) (\<lambda>(policy, deployTx).
        act_bind (configure_section B (ir_trigger (ir compiled)) trg account policy) (\<lambda>_.
        finish_section B compiled slt templateId trg policy deployTx ciphertext deposit))) ?s = (r, s')"
      using flow(1) True trg
      by (simp add: deploy_flow_def walletClient_def act_bind_def [of "act_return ()"] act_bind_def [of "act_lift _"] act_return_def act_lift_def)
    then show ?thesis
    proof (cases rule: act_bind_cases)
      case (threw e)
      have False by (rule emits_elim [OF seal_emits threw(1)]) simp
      then show ?thesis ..
    next
      case (gave ct s1)
      obtain u where u: "snd s1 = t @ u" "keeps_storage u" "written u = []" "\<And>x. ct = Some x \<Longrightarrow> sealed_by B (plaintext compiled) x"
        by (rule emits_elim [OF seal_emits gave(1)]) auto
      have ok1: "vault_ok (br_env B) (snd s1)" using ok u(1,2) by (simp add: vault_ok_cong)
      from deploy_steps [OF ok1 u(4) trg gave(2)] obtain v where "snd s' = snd s1 @ v"
        "deploy_order B compiled account deposit (written (u @ v))"
        "\<forall>entry. r = Inr entry \<longrightarrow> deploy_done B compiled slt templateId account deposit (written (u @ v)) entry (snd s')"
        using u(3) by auto
      with u(1) flow(2) show ?thesis by (intro exI [of _ "u @ v"]) simp
    qed
  qed
qed

section \<open>A chain that accepts the transactions of a deployment\<close>

text \<open>
  The transactions a deployment cannot do without: the two that create the policy and, when there is
  a deposit, the two that fund it. The hand-off is not among them.
\<close>

definition needed :: "int \<Rightarrow> string set" where
  "needed dep = {''deploy'', ''configure''} \<union> (if dep = 0 then {} else {''approve'', ''deposit''})"

text \<open>
  \<open>h t c\<close> is the hash of a request \<open>c\<close> made at \<open>t\<close>, \<open>rc t c\<close> its receipt, and the receipt of a
  deployment names the policy \<open>p t c\<close>. Nothing is said of any other request or service.
\<close>

definition chain_accepts :: "browser \<Rightarrow> int \<Rightarrow> (event list \<Rightarrow> contract_call \<Rightarrow> string) \<Rightarrow> (event list \<Rightarrow> contract_call \<Rightarrow> tx_receipt) \<Rightarrow>
    (event list \<Rightarrow> contract_call \<Rightarrow> string) \<Rightarrow> bool" where
  "chain_accepts B dep h rc p \<longleftrightarrow>
     (\<forall>t c. call_fn c \<in> needed dep \<longrightarrow>
        env_write (br_env B) t c = Inr (h t c) \<and> (\<forall>t'. env_receipt (br_env B) t' (h t c) = Inr (rc t c)) \<and>
        receipt_status (rc t c) = ''success'' \<and>
        (call_fn c = ''deploy'' \<longrightarrow> policyAddressFromReceipt (br_process B) (br_decode B) (receipt_logs (rc t c)) = Inr (p t c)))"

lemma transact_accepted:
  assumes "chain_accepts B dep h rc p" "call_fn c \<in> needed dep"
  shows "\<exists>t s'. transact (br_env B) i c s = (Inr (h t c, rc t c), s')"
proof -
  have w: "env_write (br_env B) (snd s) c = Inr (h (snd s) c)"
    and r: "\<And>t'. env_receipt (br_env B) t' (h (snd s) c) = Inr (rc (snd s) c)"
    using assms unfolding chain_accepts_def by blast+
  have "\<exists>s'. transact (br_env B) i c s = (Inr (h (snd s) c, rc (snd s) c), s')"
    by (simp add: transact_def act_bind_def on_trace_def update_snd act_prims w r)
  then show ?thesis by blast
qed

text \<open>Running on after a value, and after a value inside a section.\<close>

lemma bind_value: "m s = (Inr a, s1) \<Longrightarrow> act_bind m f s = f a s1"
  by (simp add: act_bind_def)

lemma update_then: "act_bind (update i p) f s = f () (snd (update i p s))"
  by (simp add: act_bind_def update_snd)

lemma fatal_eq:
  "fatal i m s = (case m s of (Inr a, s') \<Rightarrow> (Inr a, s')
     | (Inl e, s') \<Rightarrow> (Inl (deploy_error (message_of e) i), snd (update i (status_note ''error'' (message_of e)) s')))"
  by (simp add: fatal_def act_catch_def update_then act_throw_def split: prod.split sum.split)

lemma fatal_value: "m s = (Inr a, s') \<Longrightarrow> fatal i m s = (Inr a, s')"
  by (simp add: fatal_def act_catch_def)

lemma deploy_section_accepted:
  assumes "chain_accepts B dep h rc p"
  shows "\<exists>policy tx s'. deploy_section B comm trg s = (Inr (policy, tx), s')"
proof -
  let ?c = "deploy_call (br_process B) comm trg"
  obtain s1 where s1: "update ''deploy'' (status_is ''running'') s = (Inr (), s1)" by (simp add: update_snd)
  have fn: "call_fn ?c \<in> needed dep" by (simp add: deploy_call_def needed_def)
  from transact_accepted [OF assms fn, of "''deploy''" s1] obtain t s2 where
    t: "transact (br_env B) ''deploy'' ?c s1 = (Inr (h t ?c, rc t ?c), s2)" by blast
  have "receipt_status (rc t ?c) = ''success''"
    "policyAddressFromReceipt (br_process B) (br_decode B) (receipt_logs (rc t ?c)) = Inr (p t ?c)"
    using assms by (simp_all add: chain_accepts_def deploy_call_def needed_def)
  then have "\<exists>tx s'. act_bind (transact (br_env B) ''deploy'' ?c) (\<lambda>(deployTx, receipt).
        act_bind (require_success receipt) (\<lambda>_.
        act_bind (act_lift (policyAddressFromReceipt (br_process B) (br_decode B) (receipt_logs receipt))) (\<lambda>policy.
        act_bind (update ''deploy'' (status_note ''done'' policy)) (\<lambda>_.
        act_return (policy, deployTx))))) s1 = (Inr (p t ?c, tx), s')"
    unfolding bind_value [where m = "transact _ _ _", OF t]
    by (simp add: act_bind_def require_success_def act_return_def act_lift_def update_snd)
  then show ?thesis
    using s1 by (auto simp: deploy_section_def update_then fatal_eq update_snd)
qed

lemma configure_section_accepted:
  assumes "chain_accepts B dep h rc p" "\<And>now. \<exists>abi args. configureRequest (br_viem B) now trg account policy = Inr (abi, ''configure'', args)"
  shows "\<exists>s'. configure_section B trg trg' account policy s = (Inr (), s')"
proof -
  obtain s1 where s1: "update ''configure'' (status_is ''running'') s = (Inr (), s1)" by (simp add: update_snd)
  obtain abi args where req: "configureRequest (br_viem B) (env_clock (br_env B) (snd s1)) trg account policy = Inr (abi, ''configure'', args)"
    using assms(2) by blast
  let ?c = "\<lparr> call_to = trg', call_fn = ''configure'', call_args = args, call_value = 0 \<rparr>"
  from transact_accepted [OF assms(1), of ?c "''configure''" s1] obtain t s2 where
    t: "transact (br_env B) ''configure'' ?c s1 = (Inr (h t ?c, rc t ?c), s2)" by (auto simp: needed_def)
  have "receipt_status (rc t ?c) = ''success''" using assms(1) by (simp add: chain_accepts_def needed_def)
  then have "\<exists>s'. act_bind (on_trace (clock (br_env B))) (\<lambda>now.
        act_bind (act_lift (configureRequest (br_viem B) now trg account policy)) (\<lambda>(abi, fn, args).
        act_bind (transact (br_env B) ''configure'' \<lparr> call_to = trg', call_fn = fn, call_args = args, call_value = 0 \<rparr>)
          (\<lambda>(hash, receipt). act_bind (require_success receipt) (\<lambda>_. update ''configure'' (status_is ''done''))))) s1 = (Inr (), s')"
    using req t by (simp add: act_bind_def on_trace_def clock_def act_lift_def require_success_def act_return_def update_snd)
  then show ?thesis
    using s1 by (auto simp: configure_section_def update_then fatal_eq update_snd)
qed

lemma fund_section_accepted:
  assumes "chain_accepts B dep h rc p"
  shows "\<exists>s'. fund_section B policy dep s = (Inr (), s')"
proof (cases "dep = 0")
  case True
  then show ?thesis by (simp add: fund_section_def act_bind_def update_snd)
next
  case False
  have sent: "\<exists>t s'. transact (br_env B) i c s = (Inr (h t c, rc t c), s') \<and> receipt_status (rc t c) = ''success''"
    if "call_fn c \<in> {''approve'', ''deposit''}" for i c s
  proof -
    have fn: "call_fn c \<in> needed dep" using that False by (auto simp: needed_def)
    with assms have "receipt_status (rc t c) = ''success''" for t by (simp add: chain_accepts_def)
    with transact_accepted [OF assms fn, of i s] show ?thesis by blast
  qed
  let ?a = "approve_call (br_process B) policy dep" and ?d = "deposit_call policy dep"
  have fns: "call_fn ?a \<in> {''approve'', ''deposit''}" "call_fn ?d \<in> {''approve'', ''deposit''}"
    by (simp_all add: approve_call_def deposit_call_def)
  have approve: "\<exists>s'. fatal ''approve'' (act_bind (transact (br_env B) ''approve'' ?a) (\<lambda>_. update ''approve'' (status_is ''done''))) s1
      = (Inr (), s')" for s1
    using sent [OF fns(1), of "''approve''" s1] by (auto simp: fatal_eq bind_value [where m = "transact _ _ _"] update_snd)
  have deposit: "\<exists>s'. fatal ''deposit'' (act_bind (transact (br_env B) ''deposit'' ?d) (\<lambda>(hash, receipt).
      act_bind (require_success receipt) (\<lambda>_. update ''deposit'' (status_is ''done'')))) s1 = (Inr (), s')" for s1
    using sent [OF fns(2), of "''deposit''" s1]
    by (auto simp: fatal_eq bind_value [where m = "transact _ _ _"] require_success_def act_return_def act_bind_def update_snd)
  obtain s1 where s1: "fatal ''approve'' (act_bind (transact (br_env B) ''approve'' ?a) (\<lambda>_. update ''approve'' (status_is ''done'')))
      (snd (update ''approve'' (status_is ''running'') s)) = (Inr (), s1)" using approve by blast
  obtain s2 where "fatal ''deposit'' (act_bind (transact (br_env B) ''deposit'' ?d) (\<lambda>(hash, receipt).
      act_bind (require_success receipt) (\<lambda>_. update ''deposit'' (status_is ''done''))))
      (snd (update ''deposit'' (status_is ''running'') s1)) = (Inr (), s2)" using deposit by blast
  with s1 False show ?thesis by (simp add: fund_section_def update_then bind_value [where m = "fatal _ _", OF s1])
qed

lemma save_accepted:
  assumes "\<And>t k v. env_set_item E t k v = Inr ()" "vault_ok E t"
  shows "\<exists>t'. saveEntry E e t = (Inr (), t')"
proof -
  obtain os where "other_entries (lower_case (ve_policy e)) (vault_read E t) = Inr os"
    using assms(2) other_entries_keyed unfolding vault_ok_def by metis
  then show ?thesis by (simp add: saveEntry_def vault_write_def setItem_def assms(1))
qed

lemma finish_accepted:
  assumes "\<And>t k v. env_set_item (br_env B) t k v = Inr ()" "vault_ok (br_env B) (snd s)" "chain_accepts B dep h rc p"
  shows "\<exists>entry s'. finish_section B compiled slt templateId trg policy tx ct dep s = (Inr entry, s')"
proof -
  define e0 where "e0 = new_entry compiled slt templateId trg policy ct tx (env_clock (br_env B) (snd s))"
  obtain t1 where save: "saveEntry (br_env B) e0 (snd s) = (Inr (), t1)" using save_accepted [OF assms(1,2)] by blast
  obtain r2 s2 where hand: "handoff_section B e0 (fst s, t1) = (r2, s2)" by (rule prod.exhaust)
  have "handed_off B e0 t1 r2 (snd s2)"
    using handoff_handed_off [of B "(fst s, t1)" e0 r2 s2] hand save_read(2) [OF assms(2) save] by simp
  then obtain e1 where "r2 = Inr e1" by (auto simp: handed_off_def)
  moreover obtain s3 where "fund_section B policy dep s2 = (Inr (), s3)" using fund_section_accepted [OF assms(3)] by blast
  ultimately show ?thesis
    using save hand by (simp add: finish_section_def act_bind_def on_trace_def clock_def Let_def act_return_def e0_def [symmetric])
qed

lemma deploy_returns:
  assumes "env_wallet (br_env B)" "triggerAddress (br_process B) (ir_trigger (ir compiled)) = Inr trg"
    and "chain_accepts B dep h rc p"
    and "\<And>now policy. \<exists>abi args. configureRequest (br_viem B) now (ir_trigger (ir compiled)) account policy = Inr (abi, ''configure'', args)"
    and "\<And>t k v. env_set_item (br_env B) t k v = Inr ()" "vault_ok (br_env B) t"
  shows "\<exists>entry t'. deployPolicy B compiled slt templateId account dep t = (Inr entry, t')"
proof -
  let ?s = "(initial_steps (ir_asset (ir compiled)), t)" and ?comm = "commitment (publicArgs compiled)"
  obtain r1 s1 where seal: "seal_section B (plaintext compiled) ?s = (r1, s1)" by (rule prod.exhaust)
  obtain u1 where u1: "snd s1 = t @ u1" "keeps_storage u1" "\<exists>ct. r1 = Inr ct"
    by (rule emits_elim [OF seal_emits seal]) (auto split: sum.splits)
  then obtain ct where ct: "r1 = Inr ct" by blast
  obtain policy tx s2 where dep: "deploy_section B ?comm trg s1 = (Inr (policy, tx), s2)"
    using deploy_section_accepted [OF assms(3)] by blast
  obtain u2 where u2: "snd s2 = snd s1 @ u2" "keeps_storage u2"
    by (rule emits_elim [OF deploy_emits dep]) auto
  obtain s3 where conf: "configure_section B (ir_trigger (ir compiled)) trg account policy s2 = (Inr (), s3)"
    using configure_section_accepted [OF assms(3,4)] by blast
  obtain u3 where u3: "snd s3 = snd s2 @ u3" "keeps_storage u3"
    by (rule emits_elim [OF configure_emits conf]) auto
  have "vault_ok (br_env B) (snd s3)" using assms(6) u1 u2 u3 by (simp add: vault_ok_cong)
  from finish_accepted [OF assms(5) this assms(3)] obtain entry s4 where
    "finish_section B compiled slt templateId trg policy tx ct dep s3 = (Inr entry, s4)" by blast
  with seal ct dep conf assms(1,2) show ?thesis
    by (simp add: deployPolicy_def deploy_flow_def walletClient_def act_bind_def act_return_def act_lift_def case_prod_beta)
qed

section \<open>A concrete deployment\<close>

definition demo_process :: process_env where
  "demo_process k =
     (if k = ''NEXT_PUBLIC_POLICY_FACTORY'' then Some ''0xfa''
      else if k = ''NEXT_PUBLIC_TIMESTAMP_TRIGGER'' then Some ''0x71''
      else None)"

definition demo_web_decode :: decoder where
  "demo_web_decode abi l =
     (if log_topics l = [''PolicyDeployed''] then Inr (''PolicyDeployed'', [(''policy'', JStr (log_data l))])
      else Inl (new_error ''no match''))"

definition demo_web :: browser where
  "demo_web = \<lparr> br_env = demo_browser, br_process = demo_process, br_viem = demo_viem, br_noble = demo_noble,
     br_decode = demo_web_decode, br_ephemeral = [], br_iv = [], syntax_error = (\<lambda>b. []) \<rparr>"

definition demo_compiled :: compiled_policy where
  "demo_compiled = \<lparr> ir = \<lparr> ir_name = ''Mine'', ir_asset = ''FXRP'', ir_trigger = TimestampTrigger 1800000000,
       ir_conditions = [], ir_actions = [] \<rparr>,
     publicArgs = \<lparr> assetSymbol = ''FXRP'', commitment = ''0x05'', pub_trigger = TimestampTrigger 1800000000, pub_conditions = [] \<rparr>,
     privateConfig = \<lparr> config_version = 1, config_name = ''Mine'', recipients = [] \<rparr>, enclaveConfig = \<lparr> salt = ''0x01'', shares = [] \<rparr>,
     plaintext = ''{}'' \<rparr>"

lemma demo_web_simps [simp]:
  "br_env demo_web = demo_browser" "br_process demo_web = demo_process" "br_viem demo_web = demo_viem" "br_decode demo_web = demo_web_decode"
  "ir_trigger (ir demo_compiled) = TimestampTrigger 1800000000"
  by (simp_all add: demo_web_def demo_compiled_def)

lemma demo_trigger: "requireDeployed (timestampTrigger_at (ADDRESSES demo_process)) what = Inr ''0x71''"
proof -
  have "\<not> re_zero_hex ''0x71''" by code_simp
  then show ?thesis by (simp add: requireDeployed_def ADDRESSES_def envAddress_def demo_process_def)
qed

lemma demo_accepts: "\<exists>h rc p. chain_accepts demo_web dep h rc p"
proof -
  have eq: "to_lower CHR ''F'' = to_lower CHR ''f''" "to_lower CHR ''A'' = to_lower CHR ''a''" by code_simp+
  show ?thesis
    unfolding chain_accepts_def
    by (rule exI [of _ "\<lambda>t c. ''0x'' @ call_fn c"], rule exI [of _ "\<lambda>t c. case env_receipt demo_browser [] [] of Inr rc \<Rightarrow> rc"],
        rule exI [of _ "\<lambda>t c. ''0x0000000000000000000000000000000000000077''"])
      (simp add: demo_browser_def demo_web_decode_def eq ADDRESSES_def envAddress_def demo_process_def log_arg_def)
qed

lemma demo_configure: "\<exists>abi args. configureRequest V now (TimestampTrigger n) account policy = Inr (abi, ''configure'', args)"
  by (simp add: configureRequest_def)

lemma demo_deploys:
  "\<exists>entry t'. deployPolicy demo_web demo_compiled ''0x01'' ''xrp'' ''0xme'' dep [] = (Inr entry, t')"
proof -
  obtain h rc p where "chain_accepts demo_web dep h rc p" using demo_accepts by blast
  from deploy_returns [OF _ _ this, of demo_compiled "''0x71''" "''0xme''" "[]" "''0x01''" "''xrp''"] show ?thesis
    by (simp add: demo_trigger demo_configure)
qed

section \<open>Properties\<close>

text \<open>C19: Whatever the chain, the proxy and the wallet answer, a deployment asks for its
  transactions in one order: the factory's deploy with the compiled commitment, the
  configuration of the trigger for the policy that the factory's own event names, the
  hand-off of a ciphertext of the compiled plaintext for that policy, the approval of
  exactly the deposit for it, the deposit; each only after the ones before it, and no
  funding when the deposit is zero.\<close>

theorem deploy_requests_in_order:
  assumes "vault_ok (br_env B) t" "deployPolicy B compiled slt templateId account deposit t = (r, t')"
  shows "\<exists>u. t' = t @ u \<and> deploy_order B compiled account deposit (written u)"
  using deployPolicy_effect [OF assms] by blast

text \<open>C20: When a deployment returns, every request of its order was made, and the vault holds
  for the new policy an entry with its salt, its recipients and its ciphertext (its
  hand-off alone may be missing): the private half is never lost by a deployment that
  succeeded, whether or not the enclave took it.\<close>

theorem deploy_keeps_private_half:
  assumes "vault_ok (br_env B) t" "deployPolicy B compiled slt templateId account deposit t = (Inr entry, t')"
  shows "\<exists>u e. t' = t @ u \<and> deploy_done B compiled slt templateId account deposit (written u) entry t' \<and>
     getEntry (br_env B) (ve_policy entry) t' = Inr (Some (entry_js e)) \<and> ve_salt e = slt \<and> ve_privateConfig e = privateConfig compiled \<and>
     ve_ciphertext e = ve_ciphertext entry"
proof -
  obtain u where u: "t' = t @ u" "deploy_done B compiled slt templateId account deposit (written u) entry t'"
    using deployPolicy_effect [OF assms] by blast
  from u(2) obtain trg policy ct tx now e where
    "same_but_handoff (new_entry compiled slt templateId trg policy ct tx now) entry"
    "same_but_handoff (new_entry compiled slt templateId trg policy ct tx now) e"
    "getEntry (br_env B) policy t' = Inr (Some (entry_js e))"
    unfolding deploy_done_def by blast
  then have "getEntry (br_env B) (ve_policy entry) t' = Inr (Some (entry_js e)) \<and> ve_salt e = slt \<and>
      ve_privateConfig e = privateConfig compiled \<and> ve_ciphertext e = ve_ciphertext entry"
    by (auto simp: same_but_handoff_def new_entry_def)
  with u show ?thesis by blast
qed


lemma deploy_requests_in_order_witness:
  "\<exists>r t'. deployPolicy demo_web demo_compiled ''0x01'' ''xrp'' ''0xme'' 5 [] = (r, t') \<and>
     deploy_order demo_web demo_compiled ''0xme'' 5 (written t')"
proof -
  obtain r t' where run: "deployPolicy demo_web demo_compiled ''0x01'' ''xrp'' ''0xme'' 5 [] = (r, t')" by (rule prod.exhaust)
  from deploy_requests_in_order [OF _ run] run show ?thesis by auto
qed

lemma deploy_keeps_private_half_witness:
  "\<exists>entry t' e. deployPolicy demo_web demo_compiled ''0x01'' ''xrp'' ''0xme'' 0 [] = (Inr entry, t') \<and>
     getEntry demo_browser (ve_policy entry) t' = Inr (Some (entry_js e)) \<and> ve_salt e = ''0x01''"
proof -
  obtain entry t' where run: "deployPolicy demo_web demo_compiled ''0x01'' ''xrp'' ''0xme'' 0 [] = (Inr entry, t')"
    using demo_deploys by blast
  from deploy_keeps_private_half [OF _ run] run show ?thesis by auto
qed


end
