(* ===== verification/Doubles.thy ===== *)
theory Doubles
  imports JsValue "HOL-Library.Log_Nat"
begin

text \<open>
  JavaScript's numbers where their rounding matters: a number is finite (a rational), an infinity or
  NaN, and the product or quotient of finite numbers is their exact value rounded to the nearest
  double, ties to the even one (IEEE 754), which is an infinity when it is too large. What holds:
  integers below \<open>2\<^sup>5\<^sup>3\<close> are exact, larger ones round to integers no smaller than that,
  or overflow, and rounding never more than doubles a number of at least one.
\<close>

section \<open>Rounding\<close>

datatype jsnum = Fin rat | PosInf | NegInf | NaN

definition round_half_even :: "rat \<Rightarrow> int" where
  "round_half_even q =
     (let f = \<lfloor>q\<rfloor>; d = q - of_int f in
      if d < 1 / 2 then f else if 1 / 2 < d then f + 1 else if even f then f else f + 1)"

text \<open>Every double is a multiple of \<open>2\<^sup>-\<^sup>1\<^sup>0\<^sup>7\<^sup>4\<close>; of that multiple only the 53 leading bits are kept.\<close>

definition lost_bits :: "rat \<Rightarrow> nat" where
  "lost_bits y = nat (bitlen \<lfloor>y\<rfloor> - 53)"

definition units_per_one :: rat where "units_per_one = 2 ^ 1074"
definition double_limit :: rat where "double_limit = 2 ^ 1024"

definition rounded :: "rat \<Rightarrow> rat" where
  "rounded x =
     (let y = x * units_per_one; k = lost_bits y in of_int (round_half_even (y / 2 ^ k)) * 2 ^ k / units_per_one)"

definition to_double :: "rat \<Rightarrow> jsnum" where
  "to_double r =
     (let a = rounded \<bar>r\<bar> in
      if double_limit \<le> a then (if r < 0 then NegInf else PosInf) else Fin (if r < 0 then - a else a))"

section \<open>Operations\<close>

text \<open>Times and over a positive constant.\<close>

definition num_times :: "jsnum \<Rightarrow> nat \<Rightarrow> jsnum" where
  "num_times v n = (case v of Fin r \<Rightarrow> to_double (r * of_nat n) | _ \<Rightarrow> v)"

definition num_over :: "jsnum \<Rightarrow> nat \<Rightarrow> jsnum" where
  "num_over v n = (case v of Fin r \<Rightarrow> to_double (r / of_nat n) | _ \<Rightarrow> v)"

text \<open>\<open>Math.round\<close>: to the nearest integer, halves up; and \<open>Math.max(1, Math.round(v))\<close>.\<close>

definition js_round :: "rat \<Rightarrow> int" where
  "js_round r = \<lfloor>r + 1/2\<rfloor>"

definition round_at_least_1 :: "jsnum \<Rightarrow> jsnum" where
  "round_at_least_1 v =
     (case v of Fin r \<Rightarrow> Fin (of_int (max 1 (js_round r))) | PosInf \<Rightarrow> PosInf | NegInf \<Rightarrow> Fin 1 | NaN \<Rightarrow> NaN)"

definition num_js :: "jsnum \<Rightarrow> jsv" where
  "num_js v = (case v of Fin r \<Rightarrow> JNum r | PosInf \<Rightarrow> JNonFinite True | NegInf \<Rightarrow> JNonFinite True | NaN \<Rightarrow> JNonFinite False)"

section \<open>Lemmas\<close>

lemma js_round_of_int [simp]: "js_round (of_int i) = i"
  unfolding js_round_def by linarith

lemma js_round_numeral_mult [simp]: "js_round (of_int i * numeral n) = i * numeral n"
  using js_round_of_int [of "i * numeral n"] by (simp del: js_round_of_int)

lemma round_half_even_int [simp]: "round_half_even (of_int i) = i"
  by (simp add: round_half_even_def)

lemma round_half_even_upper: "of_int (round_half_even q) \<le> q + 1 / 2"
proof -
  define d where "d = q - of_int \<lfloor>q\<rfloor>"
  have q: "of_int \<lfloor>q\<rfloor> = q - d" "0 \<le> d" by (simp_all add: d_def)
  show ?thesis
  proof (cases "d < 1 / 2")
    case True
    then have "round_half_even q = \<lfloor>q\<rfloor>" unfolding round_half_even_def Let_def d_def [symmetric] by (simp only: if_True)
    with q show ?thesis by simp
  next
    case False
    have "round_half_even q \<le> \<lfloor>q\<rfloor> + 1" by (simp add: round_half_even_def Let_def)
    then have "(of_int (round_half_even q) :: rat) \<le> of_int (\<lfloor>q\<rfloor> + 1)" by (simp only: of_int_le_iff)
    with q False show ?thesis by simp
  qed
qed

lemma round_half_even_least: "of_int i \<le> q \<Longrightarrow> i \<le> round_half_even q"
proof -
  assume "of_int i \<le> q"
  then have "i \<le> \<lfloor>q\<rfloor>" by (simp add: le_floor_iff)
  moreover have "\<lfloor>q\<rfloor> \<le> round_half_even q" by (simp add: round_half_even_def Let_def)
  ultimately show ?thesis by linarith
qed

text \<open>An integer as a multiple of the smallest double, and the bits that are lost of it.\<close>

lemma units_split: "k \<le> 1074 \<Longrightarrow> units_per_one = 2 ^ (1074 - k) * 2 ^ k"
  unfolding units_per_one_def by (simp only: power_add [symmetric] le_add_diff_inverse2)

lemma units_pos [simp]: "0 < units_per_one" "units_per_one \<noteq> 0"
proof -
  show "0 < units_per_one" unfolding units_per_one_def by (rule zero_less_power) simp
  then show "units_per_one \<noteq> 0" by simp
qed

lemma lost_bits_floorlog: "lost_bits y = floorlog 2 (nat \<lfloor>y\<rfloor>) - 53"
  by (simp add: lost_bits_def bitlen_def)

lemma lost_bits_nat:
  assumes "0 < n"
  shows "lost_bits (of_nat n * units_per_one) = floorlog 2 n + 1074 - 53"
proof -
  have "(of_nat n * units_per_one :: rat) = of_nat (n * 2 ^ 1074)"
    unfolding units_per_one_def by (simp only: of_nat_mult of_nat_power of_nat_numeral)
  then have "nat \<lfloor>of_nat n * units_per_one\<rfloor> = n * 2 ^ 1074" by (simp only: floor_of_nat nat_int)
  with assms show ?thesis unfolding lost_bits_floorlog by (simp only: floorlog_power numeral_less_iff one_less_numeral_iff semiring_norm)
qed

lemma rounded_small:
  assumes "n < 2 ^ 53"
  shows "rounded (of_nat n) = of_nat n"
proof (cases "n = 0")
  case True
  then show ?thesis by (simp add: rounded_def round_half_even_def)
next
  case False
  let ?y = "of_nat n * units_per_one :: rat"
  define k where "k = lost_bits ?y"
  have "floorlog 2 n \<le> 53" using assms by (intro floorlog_leI) simp_all
  then have k: "k \<le> 1074" unfolding k_def using lost_bits_nat [of n] False by simp
  have y: "?y / 2 ^ k = of_int (int n * 2 ^ (1074 - k))"
    unfolding units_split [OF k] by simp
  have "of_int (round_half_even (?y / 2 ^ k)) * 2 ^ k / units_per_one = (of_nat n :: rat)"
    unfolding y round_half_even_int unfolding y [symmetric] by simp
  then show ?thesis unfolding rounded_def Let_def k_def .
qed

lemma limit_large: "n < 2 ^ 53 \<Longrightarrow> (of_nat n :: rat) < double_limit"
proof -
  assume "n < 2 ^ 53"
  also have "(2 :: nat) ^ 53 \<le> 2 ^ 1024" by (rule power_increasing) simp_all
  finally have "(of_nat n :: rat) < of_nat (2 ^ 1024)" by (simp only: of_nat_less_iff)
  then show ?thesis unfolding double_limit_def by (simp only: of_nat_power of_nat_numeral)
qed

lemma to_double_exact: "0 \<le> i \<Longrightarrow> i < 2 ^ 53 \<Longrightarrow> to_double (of_int i) = Fin (of_int i)"
proof -
  assume i: "0 \<le> i" "i < 2 ^ 53"
  define n where "n = nat i"
  have n: "n < 2 ^ 53" "(of_int i :: rat) = of_nat n" using i by (simp_all add: n_def nat_less_iff)
  show ?thesis unfolding n(2) to_double_def using rounded_small [OF n(1)] limit_large [OF n(1)] by (simp add: Let_def not_le)
qed

text \<open>From \<open>2\<^sup>5\<^sup>3\<close> on a rounded integer is an integer no smaller than that.\<close>

lemma rounded_large:
  assumes "2 ^ 53 \<le> n"
  shows "\<exists>m. rounded (of_nat n) = of_int m \<and> 2 ^ 53 \<le> m"
proof -
  let ?y = "of_nat n * units_per_one :: rat"
  define l where "l = floorlog 2 n"
  have n: "0 < n" using assms by (cases n) simp_all
  have l: "54 \<le> l" unfolding l_def using assms by (intro floorlog_geI) simp_all
  have k: "lost_bits ?y = 1074 + (l - 53)" unfolding lost_bits_nat [OF n] l_def [symmetric] using l by simp
  have pow: "(2 :: rat) ^ (1074 + (l - 53)) = units_per_one * 2 ^ (l - 53)" unfolding units_per_one_def by (rule power_add)
  define q where "q = ?y / 2 ^ lost_bits ?y"
  have q: "q = of_nat n / 2 ^ (l - 53)" unfolding q_def k pow using units_pos by simp
  have r: "rounded (of_nat n) = of_int (round_half_even q * 2 ^ (l - 53))"
    unfolding rounded_def Let_def q_def [symmetric] unfolding k pow using units_pos by simp
  have "2 ^ (l - 1) \<le> n" using floorlog_bounds [of n 2] n unfolding l_def by simp
  then have "(of_nat (2 ^ (l - 1)) :: rat) \<le> of_nat n" by (simp only: of_nat_le_iff)
  moreover have "(of_nat (2 ^ (l - 1)) :: rat) = 2 ^ 52 * 2 ^ (l - 53)"
    using l by (simp only: of_nat_power of_nat_numeral power_add [symmetric]) (rule arg_cong [where f = "\<lambda>x. 2 ^ x"], simp)
  ultimately have "2 ^ 52 * 2 ^ (l - 53) \<le> (of_nat n :: rat)" by (simp only:)
  then have "of_int (2 ^ 52) \<le> q" unfolding q by (simp add: pos_le_divide_eq)
  then have "2 ^ 52 \<le> round_half_even q" by (rule round_half_even_least)
  moreover have "(2 :: int) ^ 1 \<le> 2 ^ (l - 53)" using l by (intro power_increasing) simp_all
  ultimately have "2 ^ 52 * 2 ^ 1 \<le> round_half_even q * 2 ^ (l - 53)" by (intro mult_mono) simp_all
  then show ?thesis using r by (intro exI [of _ "round_half_even q * 2 ^ (l - 53)"]) simp
qed

lemma to_double_int:
  assumes "0 \<le> i"
  shows "to_double (of_int i) = PosInf \<or> (\<exists>m. to_double (of_int i) = Fin (of_int m) \<and> (if i < 2 ^ 53 then m = i else 2 ^ 53 \<le> m))"
proof (cases "i < 2 ^ 53")
  case True
  with assms to_double_exact show ?thesis by auto
next
  case False
  define n where "n = nat i"
  have n: "2 ^ 53 \<le> n" "(of_int i :: rat) = of_nat n" using assms False by (simp_all add: n_def le_nat_iff)
  obtain m where "rounded (of_nat n) = of_int m" "2 ^ 53 \<le> m" using rounded_large [OF n(1)] by blast
  with False show ?thesis unfolding n(2) to_double_def by (auto simp: Let_def)
qed

text \<open>A number of at least one is at most doubled.\<close>

lemma rounded_twice:
  assumes "1 \<le> r"
  shows "rounded r \<le> 2 * r" "0 \<le> rounded r"
proof -
  let ?y = "r * units_per_one"
  define k where "k = lost_bits ?y"
  have "1 * 1 \<le> r * units_per_one"
    using assms unfolding units_per_one_def by (intro mult_mono one_le_power) simp_all
  then have y: "1 \<le> ?y" by simp
  then have n: "0 < nat \<lfloor>?y\<rfloor>" by simp
  have "2 ^ k \<le> nat \<lfloor>?y\<rfloor>"
  proof -
    have "(2 :: nat) ^ k \<le> 2 ^ (floorlog 2 (nat \<lfloor>?y\<rfloor>) - 1)" unfolding k_def lost_bits_floorlog by (rule power_increasing) simp_all
    also have "\<dots> \<le> nat \<lfloor>?y\<rfloor>" using floorlog_bounds [OF n, of 2] by simp
    finally show ?thesis .
  qed
  then have "(of_nat (2 ^ k) :: rat) \<le> of_nat (nat \<lfloor>?y\<rfloor>)" by (simp only: of_nat_le_iff)
  also have "\<dots> \<le> ?y" using y by simp
  finally have "1 \<le> ?y / 2 ^ k" by (simp add: pos_le_divide_eq)
  then have u: "of_int (round_half_even (?y / 2 ^ k)) \<le> 2 * (?y / 2 ^ k)" "1 \<le> round_half_even (?y / 2 ^ k)"
    using round_half_even_upper [of "?y / 2 ^ k"] round_half_even_least [of 1 "?y / 2 ^ k"] by simp_all
  have "of_int (round_half_even (?y / 2 ^ k)) * 2 ^ k \<le> 2 * (?y / 2 ^ k) * 2 ^ k" using u(1) by (rule mult_right_mono) simp
  then have "of_int (round_half_even (?y / 2 ^ k)) * 2 ^ k / units_per_one \<le> 2 * r" by (simp add: pos_divide_le_eq)
  then show "rounded r \<le> 2 * r" by (simp add: rounded_def Let_def k_def)
  have "0 \<le> (of_int (round_half_even (?y / 2 ^ k)) :: rat)" using u(2) by simp
  then show "0 \<le> rounded r" unfolding rounded_def Let_def k_def [symmetric] using units_pos(1)
    by (intro divide_nonneg_pos mult_nonneg_nonneg) simp_all
qed

lemma to_double_twice:
  assumes "1 \<le> r" "r < 2 ^ 52"
  shows "\<exists>x. to_double r = Fin x \<and> x \<le> 2 * r"
proof -
  have "(2 :: rat) * r < of_nat (2 ^ 53 - 1) + 1" using assms(2) by simp
  moreover have "of_nat (2 ^ 53 - 1) + 1 \<le> double_limit"
  proof -
    have "(2 :: rat) ^ 53 \<le> 2 ^ 1024" by (rule power_increasing) simp_all
    then show ?thesis unfolding double_limit_def by simp
  qed
  ultimately have "\<not> double_limit \<le> rounded r" using rounded_twice(1) [OF assms(1)] by linarith
  then show ?thesis using rounded_twice(1) [OF assms(1)] assms(1) by (simp add: to_double_def)
qed

end
