(* ===== verification/WebTriggers.thy ===== *)
theory WebTriggers
  imports ChainEnv Assets Doubles
begin

text \<open>
  The trigger kinds a user may choose (apps/web/lib/triggers.ts): the registry that
  drives the editor, switching a draft's trigger, and the durations it edits. A
  draft is a JavaScript object; \<open>now\<close> is \<open>Date.now()\<close>.
\<close>

section \<open>The registry\<close>

datatype field_input = Duration | Date | TextField | Amount | Toggle

record trigger_field =
  f_key :: string
  f_label :: string
  f_input :: field_input
  f_placeholder :: "string option"
  f_help :: "string option"

record trigger_kind_spec =
  k_kind :: string
  k_label :: string
  k_summary :: string
  k_fields :: "trigger_field list"
  k_defaults :: "int \<Rightarrow> asset_lookup \<Rightarrow> js_error + (string \<times> jsv) list"
  k_unavailable :: "string option"

definition YEAR :: int where "YEAR = 365 * 86400"

text \<open>The typographic characters of the labels, as UTF-8.\<close>

definition rsquo :: string where "rsquo = [CHR 0xE2, CHR 0x80, CHR 0x99]"
definition hellip :: string where "hellip = [CHR 0xE2, CHR 0x80, CHR 0xA6]"
definition mdash :: string where "mdash = [CHR 0xE2, CHR 0x80, CHR 0x94]"

definition field :: "string \<Rightarrow> string \<Rightarrow> field_input \<Rightarrow> string option \<Rightarrow> string option \<Rightarrow> trigger_field" where
  "field k l i p h = \<lparr> f_key = k, f_label = l, f_input = i, f_placeholder = p, f_help = h \<rparr>"

definition heartbeat_spec :: trigger_kind_spec where
  "heartbeat_spec =
     \<lparr> k_kind = ''manualHeartbeat'', k_label = ''If you stop checking in'',
       k_summary = ''You check in on this site. Missing a deadline runs the policy.'',
       k_fields =
         [field ''intervalSeconds'' ''Check in every'' Duration None
            (Some ''How long you may go without checking in before the policy can run.''),
          field ''demoMode'' ''Demo control'' Toggle None
            (Some (''Allows the deadline to be pulled into the past so the policy can be demonstrated without waiting. '' @
              ''Leave this off for a policy holding funds you care about.''))],
       k_defaults = (\<lambda>now asset. Inr [(''kind'', JStr ''manualHeartbeat''), (''intervalSeconds'', JNum (of_int YEAR)), (''demoMode'', JBool False)]),
       k_unavailable = None \<rparr>"

definition proof_of_life_spec :: trigger_kind_spec where
  "proof_of_life_spec =
     \<lparr> k_kind = ''chainProofOfLife'', k_label = ''If you stop sending a payment'',
       k_summary = ''You send a small payment on the asset'' @ rsquo @ ''s own chain. The protocol proves the absence of one.'',
       k_fields =
         [field ''intervalSeconds'' ''Pay every'' Duration None None,
          field ''destinationAddress'' ''Pay to'' TextField (Some (''r'' @ hellip @ '' (an address on the source chain)''))
            (Some (''Where your proof-of-life payment is sent. It can be your own wallet '' @ mdash @ '' only the payment'' @ rsquo @
              ''s existence matters.'')),
          field ''minimumAmount'' ''At least'' Amount None (Some ''Large enough to be unambiguous, small enough not to matter.'')],
       k_defaults = (\<lambda>now asset.
         case asset of
           Asset a \<Rightarrow> Inr [(''kind'', JStr ''chainProofOfLife''), (''intervalSeconds'', JNum (of_int YEAR)), (''sourceId'', JStr (fdcSourceId a)),
             (''destinationAddress'', JStr []), (''minimumAmount'', JStr (int_str (minimumHeartbeat a)))]
         | Inherited _ \<Rightarrow> Inl (TypeErr ''Cannot read properties of undefined (reading 'toString')'')),
       k_unavailable = None \<rparr>"

definition timestamp_spec :: trigger_kind_spec where
  "timestamp_spec =
     \<lparr> k_kind = ''timestamp'', k_label = ''On a specific date'', k_summary = ''The policy runs once that date has passed.'',
       k_fields = [field ''executeAfter'' ''Runs on'' Date None None],
       k_defaults = (\<lambda>now asset. Inr [(''kind'', JStr ''timestamp''), (''executeAfter'', JNum (of_int (now div 1000 + YEAR)))]),
       k_unavailable = None \<rparr>"

definition TRIGGER_KINDS :: "trigger_kind_spec list" where
  "TRIGGER_KINDS = [heartbeat_spec, proof_of_life_spec, timestamp_spec]"

definition triggerSpec :: "string \<Rightarrow> trigger_kind_spec option" where
  "triggerSpec kind = find (\<lambda>t. k_kind t = kind) TRIGGER_KINDS"

section \<open>Switching\<close>

text \<open>\<open>current?.[key]\<close>.\<close>

definition carried :: "jsv \<Rightarrow> string \<Rightarrow> jsv" where
  "carried current key = prop_of current key"

fun carry_fields :: "jsv \<Rightarrow> trigger_field list \<Rightarrow> (string \<times> jsv) list \<Rightarrow> (string \<times> jsv) list" where
  "carry_fields current [] next = next"
| "carry_fields current (f # fs) next =
     (let v = carried current (f_key f) in
      carry_fields current fs
        (if v \<noteq> JUndef \<and> v \<noteq> JStr [] \<and> f_key f \<noteq> ''kind'' then put_prop next (f_key f) v else next))"

definition switchTriggerKind :: "int \<Rightarrow> jsv \<Rightarrow> string \<Rightarrow> string \<Rightarrow> js_error + jsv" where
  "switchTriggerKind now current kind assetSymbol =
     (case triggerSpec kind of
        None \<Rightarrow> Inr current
      | Some spec \<Rightarrow>
          and_then (getAsset assetSymbol) (\<lambda>asset.
          and_then (k_defaults spec now asset) (\<lambda>defaults.
          Inr (JObj (carry_fields current (k_fields spec) defaults)))))"

section \<open>Durations\<close>

datatype duration_unit = Days | Months | Years

text \<open>The remainders and the exact quotients of integers are doubles again; an infinite or undefined number
  of days leaves the remainder NaN, so it is shown in days.\<close>

definition splitDuration :: "jsnum \<Rightarrow> jsnum \<times> duration_unit" where
  "splitDuration seconds =
     (case round_at_least_1 (num_over seconds 86400) of
        Fin d \<Rightarrow>
          (let days = \<lfloor>d\<rfloor> in
           if days mod 365 = 0 then (Fin (of_int (days div 365)), Years)
           else if days mod 30 = 0 then (Fin (of_int (days div 30)), Months)
           else (Fin d, Days))
      | days \<Rightarrow> (days, Days))"

definition joinDuration :: "jsnum \<Rightarrow> duration_unit \<Rightarrow> jsnum" where
  "joinDuration v u =
     (let days = (case u of Years \<Rightarrow> num_times v 365 | Months \<Rightarrow> num_times v 30 | Days \<Rightarrow> v) in
      num_times (round_at_least_1 days) 86400)"

section \<open>Lemmas\<close>

text \<open>Whole days, as a number of seconds that a double holds exactly.\<close>

definition coarsest :: "int \<Rightarrow> int \<times> duration_unit" where
  "coarsest days =
     (if days mod 365 = 0 then (days div 365, Years) else if days mod 30 = 0 then (days div 30, Months) else (days, Days))"

lemma split_days:
  assumes "1 \<le> d" "d * 86400 < 2 ^ 53"
  shows "splitDuration (Fin (of_int (d * 86400))) = (Fin (of_int (fst (coarsest d))), snd (coarsest d))"
proof -
  have "num_over (Fin (of_int (d * 86400))) 86400 = Fin (of_int d)"
    using assms to_double_exact [of d] by (simp add: num_over_def)
  then have "round_at_least_1 (num_over (Fin (of_int (d * 86400))) 86400) = Fin (of_int d)"
    using assms(1) by (simp add: round_at_least_1_def)
  then show ?thesis by (simp add: splitDuration_def coarsest_def)
qed

fun unit_days :: "duration_unit \<Rightarrow> int" where
  "unit_days Years = 365"
| "unit_days Months = 30"
| "unit_days Days = 1"

lemma join_days:
  assumes "1 \<le> v" "v * unit_days u * 86400 < 2 ^ 53"
  shows "joinDuration (Fin (of_int v)) u = Fin (of_int (v * unit_days u * 86400))"
proof -
  have times: "num_times (Fin (of_int i)) n = Fin (of_int (i * int n))" if "0 \<le> i * int n" "i * int n < 2 ^ 53" for i n
    using to_double_exact [OF that] by (simp add: num_times_def)
  have u: "v * unit_days u < 2 ^ 53" "1 \<le> v * unit_days u"
    using assms by (cases u; simp)+
  have "(case u of Years \<Rightarrow> num_times (Fin (of_int v)) 365 | Months \<Rightarrow> num_times (Fin (of_int v)) 30 | Days \<Rightarrow> Fin (of_int v)) =
      Fin (of_int (v * unit_days u))"
    using u times [of v 365] times [of v 30] by (cases u) simp_all
  moreover have "round_at_least_1 (Fin (of_int (v * unit_days u))) = Fin (of_int (v * unit_days u))"
    using u(2) unfolding round_at_least_1_def by (simp del: of_int_mult)
  moreover have "num_times (Fin (of_int (v * unit_days u))) 86400 = Fin (of_int (v * unit_days u * 86400))"
    using times [of "v * unit_days u" 86400] assms(2) u(2) by simp
  ultimately show ?thesis by (simp only: joinDuration_def Let_def)
qed

lemma coarsest_exact: "fst (coarsest d) * unit_days (snd (coarsest d)) = d"
  by (auto simp: coarsest_def)

lemma coarsest_bound: "1 \<le> d \<Longrightarrow> 1 \<le> fst (coarsest d) \<and> fst (coarsest d) \<le> d"
proof -
  assume d: "1 \<le> d"
  have "1 \<le> d div n \<and> d div n \<le> d" if "d mod n = 0" "0 < n" for n
  proof -
    from that(1) obtain k where k: "d = n * k" by (auto simp: mod_eq_0_iff_dvd)
    with that(2) d have "0 < k" using zero_less_mult_iff [of n k] by simp
    with k that(2) show ?thesis by (simp add: mult_le_cancel_right2)
  qed
  with d show ?thesis by (auto simp: coarsest_def)
qed

text \<open>Carrying writes only keys that are there, so the keys are those of the defaults.\<close>

lemma put_prop_keys: "k \<in> fst ` set kvs \<Longrightarrow> map fst (put_prop kvs k v) = map fst kvs"
  by (induction kvs k v rule: put_prop.induct) auto

lemma get_put_prop: "get_prop (put_prop kvs k v) j = (if j = k then v else get_prop kvs j)"
  by (simp add: get_prop_def map_of_put_prop)

lemma carry_fields_keys:
  "f_key ` set fs \<subseteq> fst ` set kvs \<Longrightarrow> map fst (carry_fields current fs kvs) = map fst kvs"
proof (induction fs arbitrary: kvs)
  case (Cons f fs)
  have k: "map fst (put_prop kvs (f_key f) v) = map fst kvs" for v
    using Cons.prems by (intro put_prop_keys) simp
  have keys: "fst ` set (put_prop kvs (f_key f) v) = fst ` set kvs" for v
    using arg_cong [OF k [of v], of set] by simp
  let ?next = "let v = carried current (f_key f) in
      if v \<noteq> JUndef \<and> v \<noteq> JStr [] \<and> f_key f \<noteq> ''kind'' then put_prop kvs (f_key f) v else kvs"
  have "map fst (carry_fields current fs ?next) = map fst ?next"
    using Cons.prems keys by (intro Cons.IH) (auto simp: Let_def)
  moreover have "map fst ?next = map fst kvs" by (simp add: Let_def k)
  ultimately show ?case by (simp add: Let_def)
qed simp

lemma carry_fields_get:
  "distinct (map f_key fs) \<Longrightarrow>
   get_prop (carry_fields current fs kvs) k =
     (if k \<in> f_key ` set fs \<and> carried current k \<noteq> JUndef \<and> carried current k \<noteq> JStr [] \<and> k \<noteq> ''kind'' then carried current k
      else get_prop kvs k)"
proof (induction fs arbitrary: kvs)
  case (Cons f fs)
  then show ?case by (auto simp: Let_def get_put_prop)
qed simp

lemma triggerSpec_cases:
  assumes "triggerSpec kind = Some spec"
  shows "spec \<in> {heartbeat_spec, proof_of_life_spec, timestamp_spec} \<and> k_kind spec = kind"
proof -
  have "spec \<in> set TRIGGER_KINDS \<and> k_kind spec = kind"
    using assms unfolding triggerSpec_def find_Some_iff by (auto simp: nth_mem)
  then show ?thesis by (simp add: TRIGGER_KINDS_def)
qed

definition shaped :: "trigger_kind_spec \<Rightarrow> (string \<times> jsv) list \<Rightarrow> bool" where
  "shaped spec defaults \<longleftrightarrow>
   distinct (map f_key (k_fields spec)) \<and> f_key ` set (k_fields spec) \<subseteq> fst ` set defaults \<and>
   ''kind'' \<notin> f_key ` set (k_fields spec) \<and> get_prop defaults ''kind'' = JStr (k_kind spec)"

lemma heartbeat_shaped: "k_defaults heartbeat_spec now asset = Inr defaults \<Longrightarrow> shaped heartbeat_spec defaults"
  by (auto simp: shaped_def heartbeat_spec_def field_def)

lemma proof_of_life_shaped: "k_defaults proof_of_life_spec now asset = Inr defaults \<Longrightarrow> shaped proof_of_life_spec defaults"
  by (cases asset) (auto simp: shaped_def proof_of_life_spec_def field_def)

lemma timestamp_shaped: "k_defaults timestamp_spec now asset = Inr defaults \<Longrightarrow> shaped timestamp_spec defaults"
  by (auto simp: shaped_def timestamp_spec_def field_def)

lemma spec_shape:
  assumes "triggerSpec kind = Some spec" "k_defaults spec now asset = Inr defaults"
  shows "shaped spec defaults \<and> k_kind spec = kind"
  using triggerSpec_cases [OF assms(1)] assms(2) heartbeat_shaped proof_of_life_shaped timestamp_shaped by blast

section \<open>Properties\<close>

text \<open>Switching a draft to another trigger kind gives exactly the properties that kind has,
  in its order and with its kind: a property the editor shows for the new kind keeps the
  draft's value when it had one that is not empty, every other is the default, and
  nothing else of the old trigger rides along.\<close>

theorem switch_carries_exactly:
  assumes "triggerSpec kind = Some spec" "getAsset symbol = Inr asset" "k_defaults spec now asset = Inr defaults"
  shows "\<exists>next. switchTriggerKind now current kind symbol = Inr (JObj next) \<and> map fst next = map fst defaults \<and>
    get_prop next ''kind'' = JStr kind \<and>
    (\<forall>k. get_prop next k =
       (if k \<in> f_key ` set (k_fields spec) \<and> prop_of current k \<notin> {JUndef, JStr []} then prop_of current k else get_prop defaults k))"
proof -
  note shape = spec_shape [OF assms(1,3), unfolded shaped_def]
  then have "get_prop (carry_fields current (k_fields spec) defaults) k =
      (if k \<in> f_key ` set (k_fields spec) \<and> prop_of current k \<notin> {JUndef, JStr []} then prop_of current k else get_prop defaults k)" for k
    using carry_fields_get [of "k_fields spec" current defaults k] by (auto simp: carried_def)
  with shape assms show ?thesis
    by (simp add: switchTriggerKind_def carry_fields_keys)
qed

lemma switch_carries_exactly_witness:
  "\<exists>next. switchTriggerKind 0 (JObj [(''kind'', JStr ''manualHeartbeat''), (''intervalSeconds'', JNum 5), (''demoMode'', JBool True)])
       ''timestamp'' ''FXRP'' = Inr (JObj next) \<and> map fst next = [''kind'', ''executeAfter'']"
proof -
  have spec: "triggerSpec ''timestamp'' = Some timestamp_spec"
    by (simp add: triggerSpec_def TRIGGER_KINDS_def heartbeat_spec_def proof_of_life_spec_def timestamp_spec_def)
  obtain a where asset: "getAsset ''FXRP'' = Inr a" by (simp add: getAsset_def asset_index_def ASSETS_def)
  show ?thesis
    using switch_carries_exactly [OF spec asset, of 0 _ "JObj [(''kind'', JStr ''manualHeartbeat''), (''intervalSeconds'', JNum 5), (''demoMode'', JBool True)]"]
    by (force simp: timestamp_spec_def)
qed

text \<open>A duration that is a whole number of days, at least one, and below \<open>2\<^sup>5\<^sup>3\<close> seconds survives the
  editor: it is split into the coarsest exact unit and joined back to the same number of seconds.\<close>

theorem duration_round_trip:
  assumes "1 \<le> d" "d * 86400 < 2 ^ 53"
  shows "(case splitDuration (Fin (of_int (d * 86400))) of (v, u) \<Rightarrow>
      joinDuration v u = Fin (of_int (d * 86400)) \<and> (\<exists>n. v = Fin (of_int n) \<and> 1 \<le> n) \<and>
      (u = Years \<longleftrightarrow> d mod 365 = 0) \<and> (u = Months \<longleftrightarrow> d mod 365 \<noteq> 0 \<and> d mod 30 = 0))"
proof -
  have j: "joinDuration (Fin (of_int (fst (coarsest d)))) (snd (coarsest d)) = Fin (of_int (d * 86400))"
    using join_days [of "fst (coarsest d)" "snd (coarsest d)"] coarsest_bound [OF assms(1)] assms(2) by (simp add: coarsest_exact)
  have "(snd (coarsest d) = Years \<longleftrightarrow> d mod 365 = 0) \<and> (snd (coarsest d) = Months \<longleftrightarrow> d mod 365 \<noteq> 0 \<and> d mod 30 = 0)"
    by (simp add: coarsest_def)
  with j coarsest_bound [OF assms(1)] show ?thesis unfolding split_days [OF assms] by auto
qed

lemma duration_round_trip_witness:
  "(case splitDuration (Fin (of_int (730 * 86400))) of (v, u) \<Rightarrow> joinDuration v u = Fin (of_int (730 * 86400)) \<and> u = Years)"
  using duration_round_trip [of 730] by auto

end
