(* ===== verification/Canvas.thy ===== *)
theory Canvas
  imports WebTriggers
begin

text \<open>
  The diagram of a draft policy (apps/web/lib/canvas.ts). A draft is an object of
  arbitrary values; an operation JavaScript refuses on one of them is a
  \<open>TypeError\<close>. The browser's date format is a parameter \<open>fmt\<close> of the functions
  that show a date.
\<close>

section \<open>Diagrams\<close>

record diagram_node =
  n_id :: string
  n_type :: string
  n_data :: "(string \<times> jsv) list"

record diagram_edge =
  e_id :: string
  e_source :: string
  e_target :: string

record description =
  d_title :: string
  d_summary :: string

text \<open>A number for arithmetic: \<open>None\<close> is \<open>NaN\<close>. Drafts hold numbers where the source computes with them.\<close>

definition js_number :: "jsv \<Rightarrow> rat option" where
  "js_number v = (case v of JNum r \<Rightarrow> Some r | JNull \<Rightarrow> Some 0 | JBool b \<Rightarrow> Some (if b then 1 else 0) | _ \<Rightarrow> None)"

definition formatInterval :: "jsv \<Rightarrow> string" where
  "formatInterval seconds =
     (case js_number seconds of
        None \<Rightarrow> if seconds = JNonFinite True then ''Infinity days'' else ''NaN days''
      | Some s \<Rightarrow>
          (let days = js_round (s / 86400) in
           if 365 \<le> days \<and> days mod 365 = 0 then
             (let years = days div 365 in if years = 1 then ''1 year'' else int_str years @ '' years'')
           else if 30 \<le> days \<and> days mod 30 = 0 then
             (let months = days div 30 in if months = 1 then ''1 month'' else int_str months @ '' months'')
           else if days = 1 then ''1 day'' else int_str days @ '' days''))"

text \<open>\<open>x?.length ?? 0\<close>.\<close>

definition js_count :: "jsv \<Rightarrow> nat" where
  "js_count v = (case v of JArr vs \<Rightarrow> length vs | JStr s \<Rightarrow> js_length s | _ \<Rightarrow> 0)"

definition describeTrigger :: "(jsv \<Rightarrow> string) \<Rightarrow> jsv \<Rightarrow> description" where
  "describeTrigger fmt trigger' =
     (if prop_of trigger' ''kind'' = JStr ''manualHeartbeat'' \<or> prop_of trigger' ''kind'' = JStr ''chainProofOfLife'' then
        \<lparr> d_title = ''If you stop checking in'',
          d_summary = ''After '' @ formatInterval (prop_of trigger' ''intervalSeconds'') @ '' without a check-in'' \<rparr>
      else if prop_of trigger' ''kind'' = JStr ''timestamp'' then
        \<lparr> d_title = ''On a specific date'', d_summary = fmt (prop_of trigger' ''executeAfter'') \<rparr>
      else \<lparr> d_title = ''Trigger'', d_summary = [] \<rparr>)"

definition describeCondition :: "jsv \<Rightarrow> description" where
  "describeCondition condition' =
     (if prop_of condition' ''kind'' = JStr ''priceAbove'' then
        \<lparr> d_title = ''Only above a price'',
          d_summary = ''Runs only while the price is over $'' @ js_text (prop_of condition' ''minimumUsd'') \<rparr>
      else \<lparr> d_title = ''Condition'', d_summary = [] \<rparr>)"

definition describeAction :: "jsv \<Rightarrow> description" where
  "describeAction action' =
     (if prop_of action' ''kind'' = JStr ''splitTransfer'' then
        (let n = js_count (prop_of action' ''recipients'') in
         \<lparr> d_title = ''Split transfer'',
           d_summary = ''Distribute the full balance across '' @ nat_str n @ '' recipient'' @ (if n = 1 then [] else ''s'') \<rparr>)
      else \<lparr> d_title = ''Action'', d_summary = [] \<rparr>)"

text \<open>\<open>action.kind\<close> of \<open>undefined\<close> or \<open>null\<close> throws.\<close>

definition confidentialInputCount :: "jsv \<Rightarrow> js_error + nat" where
  "confidentialInputCount action' =
     (case member_of action' ''kind'' of
        None \<Rightarrow> Inl (TypeErr ''Cannot read properties of undefined (reading 'kind')'')
      | Some k \<Rightarrow> Inr (if k = JStr ''splitTransfer'' then js_count (prop_of action' ''recipients'') else 0))"

text \<open>\<open>v ?? []\<close> where an array is then walked: another value has no \<open>forEach\<close>.\<close>

definition array_or_empty :: "jsv \<Rightarrow> js_error + jsv list" where
  "array_or_empty v =
     (case v of JUndef \<Rightarrow> Inr [] | JNull \<Rightarrow> Inr [] | JArr vs \<Rightarrow> Inr vs | _ \<Rightarrow> Inl (TypeErr ''not a function''))"

fun sum_counts :: "nat \<Rightarrow> jsv list \<Rightarrow> js_error + nat" where
  "sum_counts acc [] = Inr acc"
| "sum_counts acc (a # as) = and_then (confidentialInputCount a) (\<lambda>n. sum_counts (acc + n) as)"

text \<open>The name and the symbol of what \<open>getAsset\<close> returned, inherited members included.\<close>

definition asset_symbol :: "asset_lookup \<Rightarrow> jsv" where
  "asset_symbol l = (case l of Asset a \<Rightarrow> JStr (a_symbol a) | Inherited _ \<Rightarrow> JUndef)"

definition asset_name :: "asset_lookup \<Rightarrow> jsv" where
  "asset_name l =
     (case l of Asset a \<Rightarrow> JStr (a_name a)
      | Inherited s \<Rightarrow> if s = ''__proto__'' then JUndef else if s = ''constructor'' then JStr ''Object'' else JStr s)"

definition described :: "description \<Rightarrow> (string \<times> jsv) list" where
  "described d = [(''title'', JStr (d_title d)), (''summary'', JStr (d_summary d))]"

section \<open>The graph\<close>

definition condition_id :: "nat \<Rightarrow> string" where "condition_id i = ''condition-'' @ nat_str i"
definition action_id :: "nat \<Rightarrow> string" where "action_id i = ''action-'' @ nat_str i"

definition edge :: "string \<Rightarrow> string \<Rightarrow> diagram_edge" where
  "edge s t = \<lparr> e_id = s @ ''-'' @ t, e_source = s, e_target = t \<rparr>"

fun condition_chain :: "nat \<Rightarrow> string \<Rightarrow> jsv list \<Rightarrow> diagram_node list \<times> diagram_edge list \<times> string" where
  "condition_chain i upstream [] = ([], [], upstream)"
| "condition_chain i upstream (c # cs) =
     (let i' = condition_id i in
      case condition_chain (Suc i) i' cs of (ns, es, up) \<Rightarrow>
        (\<lparr> n_id = i', n_type = ''condition'', n_data = described (describeCondition c) \<rparr> # ns, edge upstream i' # es, up))"

fun action_row :: "nat \<Rightarrow> string \<Rightarrow> jsv list \<Rightarrow> diagram_node list \<times> diagram_edge list" where
  "action_row i upstream [] = ([], [])"
| "action_row i upstream (a # as) =
     (case action_row (Suc i) upstream as of (ns, es) \<Rightarrow>
        (\<lparr> n_id = action_id i, n_type = ''action'', n_data = described (describeAction a) \<rparr> # ns, edge upstream (action_id i) # es))"

definition graphFromIr :: "(jsv \<Rightarrow> string) \<Rightarrow> jsv \<Rightarrow> js_error + diagram_node list \<times> diagram_edge list" where
  "graphFromIr fmt ir =
     and_then (getAsset (js_text (prop_of ir ''asset''))) (\<lambda>asset.
     and_then (array_or_empty (prop_of ir ''conditions'')) (\<lambda>conditions.
     and_then (array_or_empty (prop_of ir ''actions'')) (\<lambda>actions.
     and_then (sum_counts 0 actions) (\<lambda>confidentialCount.
     case condition_chain 0 ''trigger'' conditions of (cns, ces, upstream) \<Rightarrow>
     case action_row 0 upstream actions of (ans, aes) \<Rightarrow>
       Inr ([\<lparr> n_id = ''asset'', n_type = ''asset'', n_data = [(''symbol'', asset_symbol asset), (''name'', asset_name asset)] \<rparr>,
             \<lparr> n_id = ''trigger'', n_type = ''trigger'', n_data = described (describeTrigger fmt (prop_of ir ''trigger'')) \<rparr>] @ cns @
            (if 0 < confidentialCount then
               [\<lparr> n_id = ''confidential'', n_type = ''confidential'', n_data = [(''count'', JNum (of_nat confidentialCount))] \<rparr>]
             else []) @ ans,
            [edge ''asset'' ''trigger''] @ ces @
            (if 0 < confidentialCount then [edge upstream ''confidential''] else []) @ aes)))))"

section \<open>Trees\<close>

text \<open>
  Edges listed so that each one's source is already there and its target is new:
  the graph is a tree, every node is reached from the root by exactly one path.
\<close>

fun grows :: "string list \<Rightarrow> diagram_edge list \<Rightarrow> bool" where
  "grows known [] = True"
| "grows known (e # es) = (e_source e \<in> set known \<and> e_target e \<notin> set known \<and> grows (known @ [e_target e]) es)"

lemma grows_append: "grows known (es @ fs) \<longleftrightarrow> grows known es \<and> grows (known @ map e_target es) fs"
  by (induction es arbitrary: known) auto

lemma edge_simps [simp]: "e_source (edge s t) = s" "e_target (edge s t) = t"
  by (simp_all add: edge_def)

lemma condition_chain_shape:
  "condition_chain i up cs = (ns, es, up') \<Longrightarrow>
     map n_id ns = map condition_id [i..<i + length cs] \<and> map e_target es = map n_id ns \<and>
     up' = (if cs = [] then up else condition_id (i + length cs - 1)) \<and> (\<forall>n \<in> set ns. n_type n = ''condition'')"
proof (induction i up cs arbitrary: ns es up' rule: condition_chain.induct)
  case (2 i up c cs)
  obtain ns1 es1 up1 where rest: "condition_chain (Suc i) (condition_id i) cs = (ns1, es1, up1)" by (metis prod_cases3)
  with 2 show ?case by (auto simp: Let_def upt_conv_Cons simp del: upt_Suc)
qed simp

lemma action_row_shape:
  "action_row i up as = (ns, es) \<Longrightarrow>
     map n_id ns = map action_id [i..<i + length as] \<and> map e_target es = map n_id ns \<and>
     (\<forall>e \<in> set es. e_source e = up) \<and> (\<forall>n \<in> set ns. n_type n = ''action'')"
proof (induction i up as arbitrary: ns es rule: action_row.induct)
  case (2 i up a as)
  obtain ns1 es1 where "action_row (Suc i) up as = (ns1, es1)" by (rule prod.exhaust)
  with 2 show ?case by (auto simp: upt_conv_Cons simp del: upt_Suc)
qed simp

lemma id_inj [simp]: "condition_id i = condition_id j \<longleftrightarrow> i = j" "action_id i = action_id j \<longleftrightarrow> i = j"
  by (simp_all add: condition_id_def action_id_def)

lemma id_neq [simp]: "condition_id i \<noteq> action_id j" "action_id j \<noteq> condition_id i"
  "condition_id i \<noteq> ''asset''" "condition_id i \<noteq> ''trigger''" "condition_id i \<noteq> ''confidential''"
  "action_id i \<noteq> ''asset''" "action_id i \<noteq> ''trigger''" "action_id i \<noteq> ''confidential''"
  "''asset'' \<noteq> condition_id i" "''trigger'' \<noteq> condition_id i" "''confidential'' \<noteq> condition_id i"
  "''asset'' \<noteq> action_id i" "''trigger'' \<noteq> action_id i" "''confidential'' \<noteq> action_id i"
  by (simp_all add: condition_id_def action_id_def)

lemma condition_chain_grows:
  "condition_chain i up cs = (ns, es, up') \<Longrightarrow> up \<in> set known \<Longrightarrow> (\<And>j. i \<le> j \<Longrightarrow> condition_id j \<notin> set known) \<Longrightarrow> grows known es"
proof (induction i up cs arbitrary: ns es up' known rule: condition_chain.induct)
  case (2 i up c cs)
  obtain ns1 es1 up1 where rest: "condition_chain (Suc i) (condition_id i) cs = (ns1, es1, up1)" by (metis prod_cases3)
  have "grows (known @ [condition_id i]) es1"
    by (rule "2.IH" [OF refl rest]) (use "2.prems"(3) in auto)
  with 2 rest show ?case by (auto simp: Let_def)
qed simp

lemma grows_star:
  "distinct (map e_target es) \<Longrightarrow> (\<And>e. e \<in> set es \<Longrightarrow> e_source e \<in> set known \<and> e_target e \<notin> set known) \<Longrightarrow> grows known es"
proof (induction es arbitrary: known)
  case (Cons e es)
  have "grows (known @ [e_target e]) es"
    using Cons.prems by (intro Cons.IH) (auto simp: image_iff)
  with Cons.prems show ?case by simp
qed simp

lemma graphFromIr_parts:
  assumes "graphFromIr fmt ir = Inr (ns, es)"
  obtains cs as count asset cns ces up ans aes where
    "getAsset (js_text (prop_of ir ''asset'')) = Inr asset"
    "array_or_empty (prop_of ir ''conditions'') = Inr cs" "array_or_empty (prop_of ir ''actions'') = Inr as"
    "sum_counts 0 as = Inr count" "condition_chain 0 ''trigger'' cs = (cns, ces, up)" "action_row 0 up as = (ans, aes)"
    "ns = [\<lparr> n_id = ''asset'', n_type = ''asset'', n_data = [(''symbol'', asset_symbol asset), (''name'', asset_name asset)] \<rparr>,
        \<lparr> n_id = ''trigger'', n_type = ''trigger'', n_data = described (describeTrigger fmt (prop_of ir ''trigger'')) \<rparr>] @ cns @
      (if 0 < count then [\<lparr> n_id = ''confidential'', n_type = ''confidential'', n_data = [(''count'', JNum (of_nat count))] \<rparr>] else []) @ ans"
    "es = [edge ''asset'' ''trigger''] @ ces @ (if 0 < count then [edge up ''confidential''] else []) @ aes"
proof -
  from assms obtain asset cs as count where p: "getAsset (js_text (prop_of ir ''asset'')) = Inr asset"
    "array_or_empty (prop_of ir ''conditions'') = Inr cs" "array_or_empty (prop_of ir ''actions'') = Inr as" "sum_counts 0 as = Inr count"
    by (auto simp: graphFromIr_def and_then_Inr_iff)
  obtain cns ces up where chain: "condition_chain 0 ''trigger'' cs = (cns, ces, up)" by (rule prod_cases3)
  obtain ans aes where row: "action_row 0 up as = (ans, aes)" by (rule prod.exhaust)
  show thesis
    by (rule that [OF p chain row]) (use assms p chain row in \<open>simp_all add: graphFromIr_def\<close>)
qed

lemma types_replicate: "\<forall>n \<in> set ns. n_type n = t \<Longrightarrow> length ns = k \<Longrightarrow> map n_type ns = replicate k t"
  by (induction ns arbitrary: k) auto

lemma ids_length: "map n_id ns = map f [i..<i + k] \<Longrightarrow> length ns = k"
  by (drule arg_cong [of _ _ length]) simp

lemma graph_grows:
  assumes chain: "condition_chain 0 ''trigger'' cs = (cns, ces, up)" and row: "action_row 0 up as = (ans, aes)"
  shows "grows [''asset''] ([edge ''asset'' ''trigger''] @ ces @ (if c then [edge up ''confidential''] else []) @ aes)"
proof -
  note cshape = condition_chain_shape [OF chain] and ashape = action_row_shape [OF row]
  let ?k1 = "[''asset'', ''trigger''] @ map e_target ces"
  have up: "up \<in> set ?k1" using cshape by (cases cs) auto
  have conds: "set (map e_target ces) = condition_id ` {0..<length cs}" using cshape by simp
  have acts: "set (map e_target aes) = action_id ` {0..<length as}" "distinct (map e_target aes)"
    using ashape by (auto simp: distinct_map intro: inj_onI)
  have "grows [''asset'', ''trigger''] ces" by (rule condition_chain_grows [OF chain]) auto
  moreover have "grows (?k1 @ map e_target (if c then [edge up ''confidential''] else [])) aes"
  proof (rule grows_star [OF acts(2)])
    fix e assume "e \<in> set aes"
    then have "e_target e \<in> set (map e_target aes)" unfolding set_map by (rule imageI)
    then have "e_target e \<in> action_id ` {0..<length as}" "e_source e = up" using \<open>e \<in> set aes\<close> ashape unfolding acts(1) by blast+
    with up conds show "e_source e \<in> set (?k1 @ map e_target (if c then [edge up ''confidential''] else [])) \<and>
        e_target e \<notin> set (?k1 @ map e_target (if c then [edge up ''confidential''] else []))" by auto
  qed
  moreover have "''confidential'' \<notin> set ?k1" using conds by auto
  ultimately show ?thesis using up by (auto simp: grows_append)
qed

section \<open>Properties\<close>

text \<open>The diagram of a draft has one node per primitive, in policy order: the asset, the
  trigger, every condition, the confidential inputs when there are any, every action;
  and its edges make it a tree rooted at the asset, whatever the numbers of conditions
  and actions: each node but the asset is the target of exactly one edge, from a node
  that is already connected.\<close>

theorem graph_is_tree:
  assumes "graphFromIr fmt ir = Inr (ns, es)"
  shows "\<exists>cs as count. array_or_empty (prop_of ir ''conditions'') = Inr cs \<and> array_or_empty (prop_of ir ''actions'') = Inr as \<and>
    sum_counts 0 as = Inr count \<and>
    map n_type ns = [''asset'', ''trigger''] @ replicate (length cs) ''condition'' @
      (if 0 < count then [''confidential''] else []) @ replicate (length as) ''action'' \<and>
    map n_id ns = ''asset'' # map e_target es \<and> distinct (map n_id ns) \<and> grows [''asset''] es"
proof -
  from assms obtain cs as count asset cns ces up ans aes where parts:
    "array_or_empty (prop_of ir ''conditions'') = Inr cs" "array_or_empty (prop_of ir ''actions'') = Inr as" "sum_counts 0 as = Inr count"
    and chain: "condition_chain 0 ''trigger'' cs = (cns, ces, up)" and row: "action_row 0 up as = (ans, aes)"
    and ns: "ns = [\<lparr> n_id = ''asset'', n_type = ''asset'', n_data = [(''symbol'', asset_symbol asset), (''name'', asset_name asset)] \<rparr>,
        \<lparr> n_id = ''trigger'', n_type = ''trigger'', n_data = described (describeTrigger fmt (prop_of ir ''trigger'')) \<rparr>] @ cns @
      (if 0 < count then [\<lparr> n_id = ''confidential'', n_type = ''confidential'', n_data = [(''count'', JNum (of_nat count))] \<rparr>] else []) @ ans"
    and es: "es = [edge ''asset'' ''trigger''] @ ces @ (if 0 < count then [edge up ''confidential''] else []) @ aes"
    by (rule graphFromIr_parts)
  note cshape = condition_chain_shape [OF chain] and ashape = action_row_shape [OF row]
  have types: "map n_type cns = replicate (length cs) ''condition''" "map n_type ans = replicate (length as) ''action''"
    using cshape ashape ids_length [of cns condition_id 0 "length cs"] ids_length [of ans action_id 0 "length as"]
    by (auto intro!: types_replicate)
  have ids: "map n_id ns = ''asset'' # map e_target es" using cshape ashape by (simp add: ns es)
  have "distinct (map n_id ns)"
    using cshape ashape by (auto simp: ns distinct_map intro!: inj_onI)
  with parts types ids graph_grows [OF chain row, of "0 < count"] show ?thesis by (simp add: ns es)
qed

lemma graph_is_tree_witness:
  "\<exists>ns es. graphFromIr (\<lambda>v. []) (JObj [(''asset'', JStr ''FXRP''), (''trigger'', JObj [(''kind'', JStr ''timestamp'')]),
      (''actions'', JArr [JObj [(''kind'', JStr ''splitTransfer''), (''recipients'', JArr [JNull])], JObj []])]) = Inr (ns, es) \<and>
    map n_type ns = [''asset'', ''trigger'', ''confidential'', ''action'', ''action'']"
proof -
  let ?ir = "JObj [(''asset'', JStr ''FXRP''), (''trigger'', JObj [(''kind'', JStr ''timestamp'')]),
      (''actions'', JArr [JObj [(''kind'', JStr ''splitTransfer''), (''recipients'', JArr [JNull])], JObj []])]"
  obtain ns es where run: "graphFromIr (\<lambda>v. []) ?ir = Inr (ns, es)"
    by (simp add: graphFromIr_def js_text_def getAsset_def asset_index_def ASSETS_def array_or_empty_def
        confidentialInputCount_def member_of_def js_count_def)
  from graph_is_tree [OF run] run show ?thesis
    by (auto simp: array_or_empty_def confidentialInputCount_def member_of_def js_count_def numeral_2_eq_2)
qed

end
