(* ===== verification/Inspector.thy ===== *)
theory Inspector
  imports Canvas
begin

text \<open>
  The inspector of the studio (apps/web/lib/inspector.ts): from the id of a selected
  node back to the slice of the draft it stands for, as a panel of rows and the
  name of an editor.
\<close>

section \<open>Panels\<close>

record inspector_panel =
  p_label :: string
  p_title :: string
  p_rows :: "(string \<times> jsv) list"
  p_editor :: "string option"
  p_help :: string

text \<open>\<open>Number(s)\<close> for the empty string and for decimal digits; the ids of nodes end in digits.\<close>

definition number_of_string :: "string \<Rightarrow> nat option" where
  "number_of_string s = (if list_all is_digit s then Some (dec_val s) else None)"

definition indexOf :: "string option \<Rightarrow> string \<Rightarrow> nat option" where
  "indexOf nodeId pre =
     (case nodeId of
        None \<Rightarrow> None
      | Some s \<Rightarrow> if starts_with pre s then number_of_string (drop (length pre) s) else None)"

definition policyPanel :: "(jsv \<Rightarrow> string) \<Rightarrow> jsv \<Rightarrow> inspector_panel" where
  "policyPanel fmt ir =
     (let conditions = nullish_or (prop_of ir ''conditions'') (JArr []); actions = nullish_or (prop_of ir ''actions'') (JArr []) in
      \<lparr> p_label = ''Policy'', p_title = ''Policy'',
        p_rows = [(''Name'', nullish_or (prop_of ir ''name'') (JStr [])), (''Asset'', nullish_or (prop_of ir ''asset'') (JStr [])),
            (''Trigger'', JStr (d_title (describeTrigger fmt (prop_of ir ''trigger''))))] @
          (if js_count conditions \<noteq> 0 then [(''Conditions'', JStr (nat_str (js_count conditions)))] else []) @
          [(''Actions'', JStr (nat_str (js_count actions)))],
        p_editor = None, p_help = ''An overview of everything this policy does.'' \<rparr>)"

definition asset_decimals :: "asset_lookup \<Rightarrow> string" where
  "asset_decimals l = (case l of Asset a \<Rightarrow> int_str (decimals a) | Inherited _ \<Rightarrow> ''undefined'')"

definition assetPanel :: "jsv \<Rightarrow> js_error + inspector_panel" where
  "assetPanel ir =
     and_then (getAsset (js_text (prop_of ir ''asset''))) (\<lambda>asset.
     Inr \<lparr> p_label = ''Asset'', p_title = ''What it governs'',
           p_rows = [(''Symbol'', asset_symbol asset), (''Underlying'', asset_name asset), (''Decimals'', JStr (asset_decimals asset))],
           p_editor = None,
           p_help = ''Your '' @ js_text (asset_name asset) @ '' is held by the policy contract itself '' @ mdash @ '' not by us, and not by '' @
             ''anyone who could spend it. It stays yours, and you can withdraw it or cancel the '' @
             ''policy at any time before it runs.'' \<rparr>)"

definition triggerPanel :: "(jsv \<Rightarrow> string) \<Rightarrow> jsv \<Rightarrow> inspector_panel" where
  "triggerPanel fmt ir =
     (let trigger' = nullish_or (prop_of ir ''trigger'') (JObj []); kind = prop_of trigger' ''kind'' in
      \<lparr> p_label = ''Trigger'', p_title = ''What starts it'',
        p_rows = [(''Condition'', JStr (d_title (describeTrigger fmt trigger')))] @
          (if kind = JStr ''manualHeartbeat'' then
             [(''Check in every'', JStr (formatInterval (prop_of trigger' ''intervalSeconds'')))] @
             (if truthy (prop_of trigger' ''demoMode'') then [(''Demo mode'', JStr ''On'')] else [])
           else if kind = JStr ''chainProofOfLife'' then
             [(''Check in every'', JStr (formatInterval (prop_of trigger' ''intervalSeconds''))), (''Chain'', prop_of trigger' ''sourceId'')]
           else if kind = JStr ''timestamp'' then [(''Runs on'', JStr (fmt (prop_of trigger' ''executeAfter'')))]
           else []),
        p_editor = Some ''trigger'',
        p_help = ''Nothing moves until this happens. Once it does, the policy runs on its own '' @ mdash @
          '' including when you cannot act, which is usually the whole point of having one.'' \<rparr>)"

text \<open>\<open>(v ?? [])[index]\<close>, \<open>undefined\<close> past the end.\<close>

definition element_of :: "jsv \<Rightarrow> nat \<Rightarrow> jsv" where
  "element_of v i = (case v of JArr vs \<Rightarrow> if i < length vs then vs ! i else JUndef | _ \<Rightarrow> JUndef)"

definition conditionPanel :: "(jsv \<Rightarrow> string) \<Rightarrow> jsv \<Rightarrow> nat \<Rightarrow> inspector_panel" where
  "conditionPanel fmt ir index =
     (let condition' = element_of (prop_of ir ''conditions'') index in
      if \<not> truthy condition' then policyPanel fmt ir
      else
        (let d = describeCondition condition' in
         \<lparr> p_label = ''Condition'', p_title = ''What must also hold'',
           p_rows = [(''Type'', JStr (d_title d)), (''Detail'', JStr (d_summary d))], p_editor = None,
           p_help = ''Checked at the moment the trigger fires. If it does not hold, the policy waits '' @
             ''rather than running '' @ mdash @ '' the trigger alone is not enough.'' \<rparr>))"

definition actionPanel :: "(jsv \<Rightarrow> string) \<Rightarrow> jsv \<Rightarrow> nat \<Rightarrow> inspector_panel" where
  "actionPanel fmt ir index =
     (let action' = element_of (prop_of ir ''actions'') index in
      if \<not> truthy action' then policyPanel fmt ir
      else
        \<lparr> p_label = ''Action'', p_title = ''What happens'',
          p_rows = [(''Type'', JStr (d_title (describeAction action')))] @
            (if prop_of action' ''kind'' = JStr ''splitTransfer'' then
               [(''Recipients'', JStr (nat_str (js_count (prop_of action' ''recipients''))))] else []),
          p_editor = None,
          p_help = ''The whole balance is distributed by the shares you set, in one transaction. '' @
            ''The remainder from any uneven split goes to the last recipient, so nothing is '' @
            ''ever left stranded '' @ mdash @ '' once a policy has run it can never run again.'' \<rparr>)"

definition confidentialPanel :: "jsv \<Rightarrow> js_error + inspector_panel" where
  "confidentialPanel ir =
     and_then (array_or_empty (prop_of ir ''actions'')) (\<lambda>actions.
     and_then (sum_counts 0 actions) (\<lambda>count.
     let editable = list_ex (\<lambda>a. prop_of a ''kind'' = JStr ''splitTransfer'') actions in
     Inr \<lparr> p_label = ''Confidential inputs'', p_title = (if editable then ''Who receives what'' else ''Confidential inputs''),
           p_rows = (if editable then [] else [(''Private values'', JStr (nat_str count))]),
           p_editor = (if editable then Some ''recipients'' else None),
           p_help = (if editable then
               ''This list is encrypted in your browser before anything is sent. Only a '' @
               ''fingerprint of it goes on chain '' @ mdash @ '' enough to prove later that nobody '' @
               ''substituted a different recipient, not enough for anyone to read who they '' @
               ''are. Not us, not a data provider, not someone reading the chain.''
             else ''These values are encrypted to the enclave and never appear on chain.'') \<rparr>))"

definition inspectorFor :: "(jsv \<Rightarrow> string) \<Rightarrow> string option \<Rightarrow> jsv \<Rightarrow> js_error + inspector_panel" where
  "inspectorFor fmt nodeId ir =
     (if nodeId = Some ''asset'' then assetPanel ir
      else if nodeId = Some ''trigger'' then Inr (triggerPanel fmt ir)
      else if nodeId = Some ''confidential'' then confidentialPanel ir
      else (case indexOf nodeId ''condition-'' of
          Some i \<Rightarrow> Inr (conditionPanel fmt ir i)
        | None \<Rightarrow>
            (case indexOf nodeId ''action-'' of
               Some i \<Rightarrow> Inr (actionPanel fmt ir i)
             | None \<Rightarrow> Inr (policyPanel fmt ir))))"

section \<open>Lemmas\<close>

lemma index_condition: "indexOf (Some (condition_id i)) ''condition-'' = Some i"
  by (simp add: indexOf_def condition_id_def number_of_string_def starts_with_def)

lemma index_action: "indexOf (Some (action_id i)) ''action-'' = Some i" "indexOf (Some (action_id i)) ''condition-'' = None"
  by (simp_all add: indexOf_def action_id_def number_of_string_def starts_with_def)

lemma inspect_condition: "inspectorFor fmt (Some (condition_id i)) ir = Inr (conditionPanel fmt ir i)"
  by (simp add: inspectorFor_def index_condition)

lemma inspect_action: "inspectorFor fmt (Some (action_id i)) ir = Inr (actionPanel fmt ir i)"
  by (simp add: inspectorFor_def index_action)

text \<open>The label a panel should have for a type of node.\<close>

definition label_for :: "string \<Rightarrow> string" where
  "label_for t =
     (if t = ''asset'' then ''Asset'' else if t = ''trigger'' then ''Trigger'' else if t = ''condition'' then ''Condition''
      else if t = ''confidential'' then ''Confidential inputs'' else if t = ''action'' then ''Action'' else ''Policy'')"

lemma array_or_empty_element:
  "array_or_empty v = Inr vs \<Longrightarrow> i < length vs \<Longrightarrow> element_of v i = vs ! i"
  by (cases v) (auto simp: array_or_empty_def element_of_def)

section \<open>Properties\<close>

text \<open>Every node of the diagram opens the panel of its own primitive: for a draft whose
  conditions and actions are objects, the node's id leads the inspector to a panel whose
  label is that of the node's type, never to the fallback overview, however many
  conditions and actions there are.\<close>

theorem every_node_has_its_panel:
  assumes "graphFromIr fmt ir = Inr (ns, es)" "n \<in> set ns"
    and "\<And>cs. array_or_empty (prop_of ir ''conditions'') = Inr cs \<Longrightarrow> list_all is_object cs"
    and "\<And>as. array_or_empty (prop_of ir ''actions'') = Inr as \<Longrightarrow> list_all is_object as"
  shows "\<exists>panel. inspectorFor fmt (Some (n_id n)) ir = Inr panel \<and> p_label panel = label_for (n_type n)"
proof -
  have obj: "is_object v \<Longrightarrow> truthy v" for v by (cases v) (simp_all add: is_object_def)
  from assms(1) obtain cs as count asset cns ces up ans aes where parts: "getAsset (js_text (prop_of ir ''asset'')) = Inr asset"
    "array_or_empty (prop_of ir ''conditions'') = Inr cs" "array_or_empty (prop_of ir ''actions'') = Inr as" "sum_counts 0 as = Inr count"
    and chain: "condition_chain 0 ''trigger'' cs = (cns, ces, up)" and row: "action_row 0 up as = (ans, aes)"
    and ns: "ns = [\<lparr> n_id = ''asset'', n_type = ''asset'', n_data = [(''symbol'', asset_symbol asset), (''name'', asset_name asset)] \<rparr>,
        \<lparr> n_id = ''trigger'', n_type = ''trigger'', n_data = described (describeTrigger fmt (prop_of ir ''trigger'')) \<rparr>] @ cns @
      (if 0 < count then [\<lparr> n_id = ''confidential'', n_type = ''confidential'', n_data = [(''count'', JNum (of_nat count))] \<rparr>] else []) @ ans"
    by (rule graphFromIr_parts)
  note cshape = condition_chain_shape [OF chain] and ashape = action_row_shape [OF row]
  consider "n_id n = ''asset'' \<and> n_type n = ''asset''" | "n_id n = ''trigger'' \<and> n_type n = ''trigger''"
    | "n_id n = ''confidential'' \<and> n_type n = ''confidential''" | "n \<in> set cns" | "n \<in> set ans"
    using assms(2) by (auto simp: ns split: if_splits)
  then show ?thesis
  proof cases
    case 4
    then have "n_id n \<in> set (map n_id cns)" unfolding set_map by (rule imageI)
    moreover have "set (map n_id cns) = condition_id ` {0..<length cs}" using cshape by simp
    ultimately obtain i where i: "i < length cs" "n_id n = condition_id i" "n_type n = ''condition''" using cshape \<open>n \<in> set cns\<close> by auto
    with parts(2) assms(3) have "truthy (element_of (prop_of ir ''conditions'') i)"
      by (simp add: array_or_empty_element obj list_all_length)
    with i show ?thesis by (simp add: inspect_condition conditionPanel_def label_for_def Let_def)
  next
    case 5
    then have "n_id n \<in> set (map n_id ans)" unfolding set_map by (rule imageI)
    moreover have "set (map n_id ans) = action_id ` {0..<length as}" using ashape by simp
    ultimately obtain i where i: "i < length as" "n_id n = action_id i" "n_type n = ''action''" using ashape \<open>n \<in> set ans\<close> by auto
    with parts(3) assms(4) have "truthy (element_of (prop_of ir ''actions'') i)"
      by (simp add: array_or_empty_element obj list_all_length)
    with i show ?thesis by (simp add: inspect_action actionPanel_def label_for_def Let_def)
  qed (use parts in \<open>simp_all add: inspectorFor_def assetPanel_def triggerPanel_def confidentialPanel_def label_for_def Let_def\<close>)
qed

lemma every_node_has_its_panel_witness:
  "\<exists>panel. inspectorFor (\<lambda>v. []) (Some ''action-0'') (JObj [(''asset'', JStr ''FXRP''), (''actions'', JArr [JObj []])]) = Inr panel \<and>
     p_label panel = ''Action''"
proof -
  let ?ir = "JObj [(''asset'', JStr ''FXRP''), (''actions'', JArr [JObj []])]"
  obtain a where "getAsset ''FXRP'' = Inr a" by (simp add: getAsset_def asset_index_def ASSETS_def)
  then obtain ns es where run: "graphFromIr (\<lambda>v. []) ?ir = Inr (ns, es)"
    "\<lparr> n_id = ''action-0'', n_type = ''action'', n_data = described (describeAction (JObj [])) \<rparr> \<in> set ns"
    by (auto simp: graphFromIr_def js_text_def array_or_empty_def confidentialInputCount_def member_of_def action_id_def)
  show ?thesis
    using every_node_has_its_panel [OF run] by (simp add: array_or_empty_def is_object_def label_for_def)
qed

end
