(* ===== verification/EnclaveInfo.thy ===== *)
theory EnclaveInfo
  imports Deploy
begin

text \<open>
  The same-origin route that forwards the proxy's /info document
  (apps/web/app/api/enclave/info/route.ts).
\<close>

section \<open>The route\<close>

text \<open>\<open>NextResponse.json(data, { status })\<close> as the client receives it.\<close>

definition json_response :: "int \<Rightarrow> jsv \<Rightarrow> http_reply" where
  "json_response status v =
     \<lparr> http_ok = (200 \<le> status \<and> status < 300), http_status = status, http_type = ''application/json'',
       http_body = (case json_text v of Some s \<Rightarrow> s | None \<Rightarrow> []) \<rparr>"

definition error_response :: "int \<Rightarrow> string \<Rightarrow> http_reply" where
  "error_response status m = json_response status (JObj [(''error'', JStr m)])"

definition route_message :: "thrown \<Rightarrow> string" where
  "route_message e = first_line (thrown_message e)"

definition GET :: "env \<Rightarrow> process_env \<Rightarrow> (string \<Rightarrow> string) \<Rightarrow> http_reply act" where
  "GET E P se =
     (case P ''NEXT_PUBLIC_EXT_PROXY_URL'' of
        None \<Rightarrow> act_return (error_response 503 ''No extension proxy is configured in this build.'')
      | Some base \<Rightarrow>
          if base = [] then act_return (error_response 503 ''No extension proxy is configured in this build.'')
          else
            (\<lambda>t. case fetch E (strip_slash base @ ''/info'') t of
               (Inl e, t1) \<Rightarrow>
                 (Inr (error_response 502 (''the extension proxy at '' @ base @ '' could not be reached ('' @ route_message e @ '')'')), t1)
             | (Inr response, t1) \<Rightarrow>
                 if \<not> http_ok response then
                   (Inr (error_response 502 (''the extension proxy returned '' @ int_str (http_status response))), t1)
                 else if \<not> sublist ''json'' (http_type response) then
                   (Inr (error_response 502
                      (''the extension proxy returned '' @
                       (if http_type response = [] then ''an unknown content type'' else http_type response) @ '' '' @
                       ''instead of JSON -- the tunnel is probably serving a warning or error page '' @
                       ''rather than the enclave'')), t1)
                 else
                   (case parse_body se (http_body response) of
                      Inl e \<Rightarrow> (Inl e, t1)
                    | Inr v \<Rightarrow> (Inr (json_response 200 v), t1))))"

section \<open>Lemmas\<close>

lemma parse_after_print: "plain v \<Longrightarrow> json_text v = Some s \<Longrightarrow> parse_body se s = Inr v"
  by (simp add: parse_body_def json_parse_text)

lemma error_round_trip: "error_detail (http_body (error_response status m)) = JStr m"
proof -
  obtain s where s: "json_text (JObj [(''error'', JStr m)]) = Some s" by simp
  then have "json_parse s = Some (JObj [(''error'', JStr m)])" by (rule json_parse_text [rotated]) simp
  with s show ?thesis by (simp add: error_detail_def error_response_def json_response_def member_of_def)
qed

section \<open>Properties\<close>

text \<open>Sealing through the same-origin route reads the proxy's own document: when the
  browser's request is answered by the route, the key it gets is exactly the one the
  proxy's JSON holds; when the proxy cannot be reached, the deployment is told so in
  the route's words.\<close>

theorem route_forwards_key:
  assumes "br_process B ''NEXT_PUBLIC_EXT_PROXY_URL'' = Some base" "base \<noteq> []"
    and "GET E (br_process B) se t = (Inr reply, t')" "env_fetch (br_env B) w ''/api/enclave/info'' = Inr reply"
  shows "case env_fetch E t (strip_slash base @ ''/info'') of
      Inl e \<Rightarrow> fst (fetchTeePublicKey B w) =
        Inl (new_error (''the extension proxy at '' @ base @ '' could not be reached ('' @ first_line (thrown_message e) @ '')''))
    | Inr response \<Rightarrow> (\<forall>v. http_ok response \<and> sublist ''json'' (http_type response) \<and> json_parse (http_body response) = Some v \<and> plain v \<longrightarrow>
        fst (fetchTeePublicKey B w) = (case teePublicKeyFromInfo v of Inl e \<Rightarrow> Inl (thrown_of e) | Inr key \<Rightarrow> Inr (Some key)))"
proof (cases "env_fetch E t (strip_slash base @ ''/info'')")
  case (Inl e)
  with assms have "reply = error_response 502 (''the extension proxy at '' @ base @ '' could not be reached ('' @ route_message e @ '')'')"
    by (simp add: GET_def fetch_def)
  with Inl assms error_round_trip show ?thesis
    by (simp add: fetchTeePublicKey_def act_bind_def fetch_def act_throw_def error_response_def json_response_def route_message_def js_text_def)
next
  case (Inr response)
  have "fst (fetchTeePublicKey B w) = (case teePublicKeyFromInfo v of Inl e \<Rightarrow> Inl (thrown_of e) | Inr key \<Rightarrow> Inr (Some key))"
    if v: "http_ok response" "sublist ''json'' (http_type response)" "json_parse (http_body response) = Some v" "plain v" for v
  proof -
    obtain s where s: "json_text v = Some s" using plain_json_text [OF v(4)] by blast
    have "reply = json_response 200 v" using assms Inr v by (simp add: GET_def fetch_def parse_body_def)
    with assms s parse_after_print [OF v(4) s, of "syntax_error B"] show ?thesis
      by (simp add: fetchTeePublicKey_def act_bind_def fetch_def act_lift_def act_throw_def act_return_def json_response_def split: sum.split)
  qed
  with Inr show ?thesis by simp
qed

definition demo_info :: jsv where
  "demo_info = info_response [] ''machineData'' (replicate 64 CHR ''a'') (replicate 64 CHR ''b'')"

definition proxy_env :: env where
  "proxy_env = demo_browser \<lparr> env_fetch := (\<lambda>t url. Inr \<lparr> http_ok = True, http_status = 200, http_type = ''application/json'',
     http_body = the (json_text demo_info) \<rparr>) \<rparr>"

definition proxied_web :: browser where
  "proxied_web = demo_web \<lparr> br_process := (\<lambda>k. Some ''https://proxy/''), br_env := proxy_env \<rparr>"

lemma route_forwards_key_witness:
  "fst (fetchTeePublicKey proxied_web []) = (case teePublicKeyFromInfo demo_info of Inl e \<Rightarrow> Inl (thrown_of e) | Inr key \<Rightarrow> Inr (Some key))"
proof -
  have plain: "plain demo_info" by (simp add: demo_info_def info_response_def)
  obtain s where s: "json_text demo_info = Some s" using plain_json_text [OF plain] by blast
  have parsed: "json_parse s = Some demo_info" by (rule json_parse_text [OF plain s])
  have j: "sublist ''json'' ''application/json''" by code_simp
  have "\<exists>t'. GET proxy_env (br_process proxied_web) (\<lambda>b. []) [] = (Inr (json_response 200 demo_info), t')"
    by (simp add: GET_def fetch_def proxied_web_def proxy_env_def j s parse_body_def parsed)
  then obtain t' where g: "GET proxy_env (br_process proxied_web) (\<lambda>b. []) [] = (Inr (json_response 200 demo_info), t')" by blast
  have f: "env_fetch (br_env proxied_web) [] ''/api/enclave/info'' = Inr (json_response 200 demo_info)"
    by (simp add: proxied_web_def proxy_env_def json_response_def s)
  from route_forwards_key [OF _ _ g f, of "''https://proxy/''"] show ?thesis
    by (simp add: proxied_web_def proxy_env_def s parsed plain j)
qed

end
