(* ===== verification/Wallet.thy ===== *)
theory Wallet
  imports WebChain
begin

text \<open>
  The wallet connection hook (apps/web/lib/wallet.ts) and its button
  (apps/web/components/wallet-button.tsx): the flows as they run on their own, and
  the hook as a machine in which they interleave at their \<open>await\<close>s with the wallet's
  events, the clicks and the life of the effect.
\<close>

section \<open>The wallet hook\<close>

record wallet_state =
  w_account :: jsv
  w_chainId :: "int option"
  w_connecting :: bool
  w_error :: "string option"

text \<open>An injected provider answers a request from the methods requested so far.\<close>

type_synonym provider = "(string \<times> jsv) list \<Rightarrow> string \<Rightarrow> jsv \<Rightarrow> thrown + jsv"
type_synonym 'a hook = "(wallet_state \<times> (string \<times> jsv) list, 'a) step"

definition request :: "provider \<Rightarrow> string \<Rightarrow> jsv \<Rightarrow> jsv hook" where
  "request pr m params s = (pr (snd s) m params, (fst s, snd s @ [(m, params)]))"

definition set_state :: "(wallet_state \<Rightarrow> wallet_state) \<Rightarrow> unit hook" where
  "set_state f s = (Inr (), (f (fst s), snd s))"

definition onCoston2 :: "wallet_state \<Rightarrow> bool" where
  "onCoston2 w = (w_chainId w = Some coston2_id)"

definition coston2_hex :: string where "coston2_hex = ''0x72''"

definition add_chain_params :: jsv where
  "add_chain_params = JArr [JObj [(''chainId'', JStr coston2_hex), (''chainName'', JStr (ch_name coston2)),
     (''nativeCurrency'', (case ch_currency coston2 of (n, s, d) \<Rightarrow>
        JObj [(''name'', JStr n), (''symbol'', JStr s), (''decimals'', JNum (of_nat d))])),
     (''rpcUrls'', JArr (map JStr (ch_rpcUrls coston2))),
     (''blockExplorerUrls'', JArr [JStr (snd (ch_explorer coston2))])]]"

definition switchToCoston2 :: "provider option \<Rightarrow> unit hook" where
  "switchToCoston2 provider =
     (case provider of
        None \<Rightarrow> act_throw (new_error ''no injected wallet'')
      | Some pr \<Rightarrow>
          act_bind
            (act_catch (request pr ''wallet_switchEthereumChain'' (JArr [JObj [(''chainId'', JStr coston2_hex)]]))
               (\<lambda>e. if thrown_code e \<noteq> Some 4902 then act_throw e
                    else request pr ''wallet_addEthereumChain'' add_chain_params))
            (\<lambda>_. set_state (\<lambda>w. w\<lparr> w_chainId := Some coston2_id \<rparr>)))"

text \<open>\<open>accounts[0] ?? null\<close>: a \<open>TypeError\<close> on \<open>undefined\<close> and \<open>null\<close>.\<close>

definition first_account :: "jsv \<Rightarrow> thrown + jsv" where
  "first_account v =
     (case v of
        JArr (a # _) \<Rightarrow> Inr (nullish_or a JNull)
      | JObj kvs \<Rightarrow> Inr (nullish_or (get_prop kvs ''0'') JNull)
      | JStr (c # _) \<Rightarrow> Inr (JStr [c])
      | JUndef \<Rightarrow> Inl (new_error ''Cannot read properties of undefined (reading '0')'')
      | JNull \<Rightarrow> Inl (new_error ''Cannot read properties of null (reading '0')'')
      | _ \<Rightarrow> Inr JNull)"

definition connect_body :: "provider \<Rightarrow> unit hook" where
  "connect_body pr =
     act_bind (request pr ''eth_requestAccounts'' JUndef) (\<lambda>accounts.
     act_bind (act_lift (first_account accounts)) (\<lambda>a.
     act_bind (set_state (\<lambda>w. w\<lparr> w_account := a \<rparr>)) (\<lambda>_.
     act_bind (request pr ''eth_chainId'' JUndef) (\<lambda>i.
     if parse_int16 (js_text i) \<noteq> Some coston2_id then switchToCoston2 (Some pr)
     else set_state (\<lambda>w. w\<lparr> w_chainId := Some coston2_id \<rparr>)))))"

definition connect :: "provider option \<Rightarrow> unit hook" where
  "connect provider =
     (case provider of
        None \<Rightarrow> set_state (\<lambda>w. w\<lparr> w_error := Some ''No wallet found. Install MetaMask or another EVM wallet to continue.'' \<rparr>)
      | Some pr \<Rightarrow>
          act_bind (set_state (\<lambda>w. w\<lparr> w_connecting := True, w_error := None \<rparr>)) (\<lambda>_.
          act_bind (act_catch (connect_body pr) (\<lambda>e. set_state (\<lambda>w. w\<lparr> w_error := Some (walletErrorMessage e) \<rparr>))) (\<lambda>_.
          set_state (\<lambda>w. w\<lparr> w_connecting := False \<rparr>))))"

section \<open>The flows on their own\<close>

lemma walletErrorMessage_nonempty: "walletErrorMessage e \<noteq> [] \<or> (\<exists>m. thrown_message e = CHR 0x0A # m)"
  by (cases "thrown_message e") (auto simp: walletErrorMessage_def first_line_def split: option.splits)

text \<open>Where the flow of \<open>connect_body\<close> can end.\<close>

lemma switch_outcome:
  assumes "switchToCoston2 (Some pr) s = (r, s')"
  shows "w_connecting (fst s') = w_connecting (fst s) \<and> w_error (fst s') = w_error (fst s) \<and> w_account (fst s') = w_account (fst s) \<and>
    (r = Inr () \<longrightarrow> onCoston2 (fst s')) \<and>
    (\<exists>ps. snd s' = snd s @ (''wallet_switchEthereumChain'', JArr [JObj [(''chainId'', JStr coston2_hex)]]) # ps \<and>
      (ps \<noteq> [] \<longrightarrow> ps = [(''wallet_addEthereumChain'', add_chain_params)] \<and>
         (\<exists>e. pr (snd s) ''wallet_switchEthereumChain'' (JArr [JObj [(''chainId'', JStr coston2_hex)]]) = Inl e \<and> thrown_code e = Some 4902)))"
  using assms
  by (auto simp: switchToCoston2_def act_bind_def act_catch_def act_throw_def request_def set_state_def onCoston2_def
      split: sum.splits if_splits)

definition only_adds_unknown :: "provider \<Rightarrow> (string \<times> jsv) list \<Rightarrow> bool" where
  "only_adds_unknown pr qs \<longleftrightarrow> (\<forall>p. (''wallet_addEthereumChain'', p) \<in> set qs \<longrightarrow> p = add_chain_params \<and>
     (\<exists>before e. pr before ''wallet_switchEthereumChain'' (JArr [JObj [(''chainId'', JStr coston2_hex)]]) = Inl e \<and> thrown_code e = Some 4902))"

lemma switch_adds:
  assumes "switchToCoston2 (Some pr) s = (r, s')"
  shows "\<exists>qs. snd s' = snd s @ qs \<and> only_adds_unknown pr qs"
proof -
  from switch_outcome [OF assms] obtain ps where
    ps: "snd s' = snd s @ (''wallet_switchEthereumChain'', JArr [JObj [(''chainId'', JStr coston2_hex)]]) # ps"
    "ps \<noteq> [] \<longrightarrow> ps = [(''wallet_addEthereumChain'', add_chain_params)] \<and>
       (\<exists>e. pr (snd s) ''wallet_switchEthereumChain'' (JArr [JObj [(''chainId'', JStr coston2_hex)]]) = Inl e \<and> thrown_code e = Some 4902)"
    by blast
  then have "only_adds_unknown pr ((''wallet_switchEthereumChain'', JArr [JObj [(''chainId'', JStr coston2_hex)]]) # ps)"
    unfolding only_adds_unknown_def by (cases "ps = []") auto
  with ps(1) show ?thesis by blast
qed

lemma only_adds_simps [simp]: "only_adds_unknown pr []"
  "m \<noteq> ''wallet_addEthereumChain'' \<Longrightarrow> only_adds_unknown pr ((m, p) # qs) \<longleftrightarrow> only_adds_unknown pr qs"
  by (auto simp: only_adds_unknown_def)

lemma connect_body_outcome:
  assumes run: "connect_body pr s = (r, s')"
  shows "w_connecting (fst s') = w_connecting (fst s) \<and> w_error (fst s') = w_error (fst s) \<and> (r = Inr () \<longrightarrow> onCoston2 (fst s')) \<and>
    (\<exists>qs. snd s' = snd s @ qs \<and> only_adds_unknown pr qs)"
proof (cases "\<exists>t. connect_body pr s = switchToCoston2 (Some pr) t \<and> w_connecting (fst t) = w_connecting (fst s) \<and>
    w_error (fst t) = w_error (fst s) \<and> snd t = snd s @ [(''eth_requestAccounts'', JUndef), (''eth_chainId'', JUndef)]")
  case True
  then obtain t where t: "switchToCoston2 (Some pr) t = (r, s')" "w_connecting (fst t) = w_connecting (fst s)"
    "w_error (fst t) = w_error (fst s)" "snd t = snd s @ [(''eth_requestAccounts'', JUndef), (''eth_chainId'', JUndef)]"
    using run by auto
  obtain qs where "snd s' = snd t @ qs" "only_adds_unknown pr qs" using switch_adds [OF t(1)] by blast
  with switch_outcome [OF t(1)] t show ?thesis
    by (intro conjI exI [of _ "[(''eth_requestAccounts'', JUndef), (''eth_chainId'', JUndef)] @ qs"]) simp_all
next
  case False
  then have no: "switchToCoston2 (Some pr)
      ((fst s)\<lparr> w_account := a \<rparr>, snd s @ [(''eth_requestAccounts'', JUndef), (''eth_chainId'', JUndef)]) \<noteq> (r, s')" for a
    using run by (auto dest: spec [of _ "(fst s)\<lparr> w_account := a \<rparr>"])
  from run no show ?thesis
    by (auto simp: connect_body_def act_bind_def act_lift_def request_def set_state_def onCoston2_def split: sum.splits if_splits)
qed

text \<open>Connecting always ends with the hook no longer connecting, and with Coston2 selected or
  an error to show, whatever the wallet answers; the wallet is asked to add the chain
  only after it said that it does not know it (4902), and with Coston2's own parameters.\<close>

theorem connect_ends:
  assumes "connect (Some pr) s = (r, s')"
  shows "r = Inr () \<and> \<not> w_connecting (fst s') \<and> (w_error (fst s') = None \<longrightarrow> onCoston2 (fst s')) \<and>
    (\<exists>qs. snd s' = snd s @ qs \<and> only_adds_unknown pr qs)"
proof -
  let ?s = "((fst s)\<lparr> w_connecting := True, w_error := None \<rparr>, snd s)"
  obtain r1 s1 where body: "connect_body pr ?s = (r1, s1)" by (rule prod.exhaust)
  show ?thesis
    using assms body connect_body_outcome [OF body]
    by (cases r1) (auto simp: connect_def act_bind_def act_catch_def set_state_def onCoston2_def)
qed

lemma connect_ends_witness:
  "\<exists>r s'. connect (Some (\<lambda>qs m p. if m = ''eth_chainId'' then Inr (JStr ''0x1'')
       else if m = ''wallet_switchEthereumChain'' then Inl (Thrown (Some 4001) None ''no'' None) else Inr (JArr [JStr ''0xme''])))
     (\<lparr> w_account = JNull, w_chainId = None, w_connecting = False, w_error = None \<rparr>, []) = (r, s') \<and>
     r = Inr () \<and> \<not> w_connecting (fst s')"
proof -
  let ?pr = "\<lambda>qs m p. if m = ''eth_chainId'' then Inr (JStr ''0x1'')
       else if m = ''wallet_switchEthereumChain'' then Inl (Thrown (Some 4001) None ''no'' None) else Inr (JArr [JStr ''0xme''])"
  let ?s = "(\<lparr> w_account = JNull, w_chainId = None, w_connecting = False, w_error = None \<rparr>, [])"
  obtain r s' where run: "connect (Some ?pr) ?s = (r, s')" by (rule prod.exhaust)
  from connect_ends [OF run] run show ?thesis by blast
qed

section \<open>The hook as a machine\<close>

text \<open>
  An asynchronous function that has reached an \<open>await\<close> is the request it waits for,
  with what it has kept: the instance of the effect (whose cleanup sets that instance's
  \<open>cancelled\<close>), the accounts already answered, and whether the switch was called by
  \<open>connect\<close> (whose \<open>catch\<close> and \<open>finally\<close> then run) or by the button.
\<close>

datatype awaiting =
    Reconnect_accounts nat
  | Reconnect_chain nat jsv
  | Connect_accounts
  | Connect_chain
  | Switch bool
  | Add bool

fun asked :: "awaiting \<Rightarrow> string \<times> jsv" where
  "asked (Reconnect_accounts n) = (''eth_accounts'', JUndef)"
| "asked (Reconnect_chain n v) = (''eth_chainId'', JUndef)"
| "asked Connect_accounts = (''eth_requestAccounts'', JUndef)"
| "asked Connect_chain = (''eth_chainId'', JUndef)"
| "asked (Switch c) = (''wallet_switchEthereumChain'', JArr [JObj [(''chainId'', JStr coston2_hex)]])"
| "asked (Add c) = (''wallet_addEthereumChain'', add_chain_params)"

text \<open>The \<open>catch\<close> and the \<open>finally\<close> of \<open>connect\<close>, and the end of a switch.\<close>

definition connect_fails :: "thrown \<Rightarrow> wallet_state \<Rightarrow> wallet_state" where
  "connect_fails e w = w\<lparr> w_error := Some (walletErrorMessage e), w_connecting := False \<rparr>"

definition switched :: "bool \<Rightarrow> wallet_state \<Rightarrow> wallet_state" where
  "switched c w = (if c then w\<lparr> w_chainId := Some coston2_id, w_connecting := False \<rparr> else w\<lparr> w_chainId := Some coston2_id \<rparr>)"

definition switch_fails :: "bool \<Rightarrow> thrown \<Rightarrow> wallet_state \<Rightarrow> wallet_state \<times> (thrown + awaiting option)" where
  "switch_fails c e w = (if c then (connect_fails e w, Inr None) else (w, Inl e))"

text \<open>
  What a function does from the answer to its request up to its next request, its end
  (\<open>Inr None\<close>) or the rejection of its promise (\<open>Inl\<close>). \<open>live\<close> is the effect instance
  that has not been cleaned up.
\<close>

fun resume :: "nat option \<Rightarrow> awaiting \<Rightarrow> thrown + jsv \<Rightarrow> wallet_state \<Rightarrow> wallet_state \<times> (thrown + awaiting option)" where
  "resume live (Reconnect_accounts n) (Inl e) w = (w, Inl e)"
| "resume live (Reconnect_accounts n) (Inr v) w = (w, Inr (Some (Reconnect_chain n v)))"
| "resume live (Reconnect_chain n v) (Inl e) w = (w, Inl e)"
| "resume live (Reconnect_chain n v) (Inr i) w =
     (if live \<noteq> Some n then (w, Inr None)
      else (case first_account v of
          Inl e \<Rightarrow> (w, Inl e)
        | Inr a \<Rightarrow> (w\<lparr> w_account := a, w_chainId := parse_int16 (js_text i) \<rparr>, Inr None)))"
| "resume live Connect_accounts (Inl e) w = (connect_fails e w, Inr None)"
| "resume live Connect_accounts (Inr v) w =
     (case first_account v of
        Inl e \<Rightarrow> (connect_fails e w, Inr None)
      | Inr a \<Rightarrow> (w\<lparr> w_account := a \<rparr>, Inr (Some Connect_chain)))"
| "resume live Connect_chain (Inl e) w = (connect_fails e w, Inr None)"
| "resume live Connect_chain (Inr i) w =
     (if parse_int16 (js_text i) \<noteq> Some coston2_id then (w, Inr (Some (Switch True)))
      else (switched True w, Inr None))"
| "resume live (Switch c) (Inr v) w = (switched c w, Inr None)"
| "resume live (Switch c) (Inl e) w =
     (if thrown_code e \<noteq> Some 4902 then switch_fails c e w else (w, Inr (Some (Add c))))"
| "resume live (Add c) (Inr v) w = (switched c w, Inr None)"
| "resume live (Add c) (Inl e) w = switch_fails c e w"

text \<open>The hook: its state, the effect's life and the functions that wait.\<close>

record hook_state =
  k_wallet :: wallet_state
  k_available :: bool
  k_live :: "nat option"
  k_instances :: nat
  k_waiting :: "awaiting list"

definition initial_hook :: hook_state where
  "initial_hook = \<lparr> k_wallet = \<lparr> w_account = JNull, w_chainId = None, w_connecting = False, w_error = None \<rparr>,
     k_available = False, k_live = None, k_instances = 0, k_waiting = [] \<rparr>"

text \<open>
  What can happen: the effect runs and is cleaned up (a strict renderer does both twice),
  the wallet reports other accounts or another chain, a button is clicked, a request is
  answered. The flags say whether \<open>window.ethereum\<close> is there at that moment. The
  listeners exist while an instance of the effect is live.
\<close>

datatype happening =
    Mounts bool
  | Unmounts
  | Accounts_changed jsv
  | Chain_changed
  | Connect_click bool
  | Switch_click bool
  | Answers nat "thrown + jsv"

definition without :: "nat \<Rightarrow> 'a list \<Rightarrow> 'a list" where
  "without i xs = take i xs @ drop (Suc i) xs"

fun hook_step :: "happening \<Rightarrow> hook_state \<Rightarrow> hook_state option" where
  "hook_step (Mounts present) s =
     (if k_live s \<noteq> None then None
      else if \<not> present then Some s
      else Some (s\<lparr> k_available := True, k_live := Some (k_instances s), k_instances := Suc (k_instances s),
                    k_waiting := k_waiting s @ [Reconnect_accounts (k_instances s)] \<rparr>))"
| "hook_step Unmounts s = Some (s\<lparr> k_live := None \<rparr>)"
| "hook_step (Accounts_changed v) s =
     (if k_live s = None then None
      else (case first_account v of
          Inl e \<Rightarrow> Some s
        | Inr a \<Rightarrow> Some (s\<lparr> k_wallet := (k_wallet s)\<lparr> w_account := a \<rparr> \<rparr>)))"
| "hook_step Chain_changed s = (if k_live s = None then None else Some initial_hook)"
| "hook_step (Connect_click present) s =
     (if \<not> present then
        Some (s\<lparr> k_wallet := (k_wallet s)\<lparr> w_error := Some ''No wallet found. Install MetaMask or another EVM wallet to continue.'' \<rparr> \<rparr>)
      else Some (s\<lparr> k_wallet := (k_wallet s)\<lparr> w_connecting := True, w_error := None \<rparr>, k_waiting := k_waiting s @ [Connect_accounts] \<rparr>))"
| "hook_step (Switch_click present) s =
     (if \<not> present then Some s else Some (s\<lparr> k_waiting := k_waiting s @ [Switch False] \<rparr>))"
| "hook_step (Answers i r) s =
     (if length (k_waiting s) \<le> i then None
      else (case resume (k_live s) (k_waiting s ! i) r (k_wallet s) of
          (w, Inr (Some p)) \<Rightarrow> Some (s\<lparr> k_wallet := w, k_waiting := (k_waiting s)[i := p] \<rparr>)
        | (w, _) \<Rightarrow> Some (s\<lparr> k_wallet := w, k_waiting := without i (k_waiting s) \<rparr>)))"

section \<open>The button\<close>

text \<open>\<open>a.slice(0, 6)\<close> and \<open>a.slice(-4)\<close> of an address.\<close>

datatype wallet_button =
    Install_link string
  | Connect_button bool string
  | Switch_button string
  | Account_shown string

definition WalletButton :: "bool \<Rightarrow> wallet_state \<Rightarrow> wallet_button" where
  "WalletButton available w =
     (if \<not> available then Install_link ''https://metamask.io/download/''
      else if \<not> truthy (w_account w) then
        Connect_button (w_connecting w) (if w_connecting w then ''Connecting'' @ [CHR 0xE2, CHR 0x80, CHR 0xA6] else ''Connect wallet'')
      else if \<not> onCoston2 w then Switch_button (''Switch to '' @ coston2_name)
      else (let a = js_text (w_account w) in
        Account_shown (take 6 a @ [CHR 0xE2, CHR 0x80, CHR 0xA6] @ drop (length a - 4) a)))"

section \<open>Running one flow alone\<close>

text \<open>How many more requests a function can make.\<close>

fun rank :: "awaiting \<Rightarrow> nat" where
  "rank (Reconnect_accounts n) = 2"
| "rank (Reconnect_chain n v) = 1"
| "rank Connect_accounts = 4"
| "rank Connect_chain = 3"
| "rank (Switch c) = 2"
| "rank (Add c) = 1"

lemma resume_rank: "resume live p r w = (w', Inr (Some q)) \<Longrightarrow> rank q < rank p"
  by (induction live p r w rule: resume.induct) (auto simp: switch_fails_def split: sum.splits if_splits)

function drive :: "provider \<Rightarrow> nat option \<Rightarrow> awaiting \<Rightarrow> unit hook" where
  "drive pr live p s =
     (case resume live p (pr (snd s) (fst (asked p)) (snd (asked p))) (fst s) of
        (w, Inl e) \<Rightarrow> (Inl e, (w, snd s @ [asked p]))
      | (w, Inr None) \<Rightarrow> (Inr (), (w, snd s @ [asked p]))
      | (w, Inr (Some q)) \<Rightarrow> drive pr live q (w, snd s @ [asked p]))"
  by pat_completeness auto
termination
  by (relation "measure (\<lambda>(pr, live, p, s). rank p)") (auto dest: resume_rank [OF sym])

declare drive.simps [simp del]

text \<open>The button's switch, alone, is \<open>switchToCoston2\<close>; \<open>connect\<close>'s is its body with the \<open>catch\<close> and \<open>finally\<close>.\<close>

definition switch_params :: jsv where
  "switch_params = JArr [JObj [(''chainId'', JStr coston2_hex)]]"

lemma asked_switch: "asked (Switch c) = (''wallet_switchEthereumChain'', switch_params)"
  by (simp add: switch_params_def)

lemma switch_runs: "switchToCoston2 (Some pr) s =
   (let qs = snd s @ [asked (Switch False)] in
    case pr (snd s) ''wallet_switchEthereumChain'' switch_params of
      Inr v \<Rightarrow> (Inr (), (switched False (fst s), qs))
    | Inl e \<Rightarrow>
        if thrown_code e \<noteq> Some 4902 then (Inl e, (fst s, qs))
        else (case pr qs ''wallet_addEthereumChain'' add_chain_params of
            Inl e \<Rightarrow> (Inl e, (fst s, qs @ [asked (Add False)]))
          | Inr v \<Rightarrow> (Inr (), (switched False (fst s), qs @ [asked (Add False)]))))"
  by (cases "pr (snd s) ''wallet_switchEthereumChain'' switch_params")
    (simp_all add: switchToCoston2_def act_bind_def act_catch_def act_throw_def request_def set_state_def
      switched_def switch_params_def Let_def split: sum.split)

lemma drive_add_unfolded: "drive pr live (Add c) s =
   (case pr (snd s) ''wallet_addEthereumChain'' add_chain_params of
      Inl e \<Rightarrow> (if c then (Inr (), (connect_fails e (fst s), snd s @ [asked (Add c)])) else (Inl e, (fst s, snd s @ [asked (Add c)])))
    | Inr v \<Rightarrow> (Inr (), (switched c (fst s), snd s @ [asked (Add c)])))"
  by (cases "pr (snd s) ''wallet_addEthereumChain'' add_chain_params")
    (simp_all add: drive.simps [of pr live "Add c" s] switch_fails_def)

lemma drive_switch_unfolded: "drive pr live (Switch c) s =
   (let qs = snd s @ [asked (Switch c)] in
    case pr (snd s) ''wallet_switchEthereumChain'' switch_params of
      Inr v \<Rightarrow> (Inr (), (switched c (fst s), qs))
    | Inl e \<Rightarrow>
        if thrown_code e \<noteq> Some 4902 then
          (if c then (Inr (), (connect_fails e (fst s), qs)) else (Inl e, (fst s, qs)))
        else drive pr live (Add c) (fst s, qs))"
  by (cases "pr (snd s) ''wallet_switchEthereumChain'' switch_params")
    (simp_all add: drive.simps [of pr live "Switch c" s] asked_switch switch_fails_def Let_def del: asked.simps)

lemma drive_switch: "drive pr live (Switch False) s = switchToCoston2 (Some pr) s"
  by (simp add: drive_switch_unfolded switch_runs drive_add_unfolded Let_def split: sum.split del: asked.simps)

definition closing :: "(thrown + unit) \<times> wallet_state \<times> (string \<times> jsv) list \<Rightarrow> (thrown + unit) \<times> wallet_state \<times> (string \<times> jsv) list" where
  "closing x = (case fst x of
     Inl e \<Rightarrow> (Inr (), (connect_fails e (fst (snd x)), snd (snd x)))
   | Inr _ \<Rightarrow> (Inr (), ((fst (snd x))\<lparr> w_connecting := False \<rparr>, snd (snd x))))"

lemma drive_connect_switch: "drive pr live (Switch True) s = closing (switchToCoston2 (Some pr) s)"
  by (simp add: drive_switch_unfolded switch_runs drive_add_unfolded Let_def closing_def switched_def split: sum.split)

lemma drive_chain: "drive pr live Connect_chain s =
   closing (act_bind (request pr ''eth_chainId'' JUndef) (\<lambda>i.
     if parse_int16 (js_text i) \<noteq> Some coston2_id then switchToCoston2 (Some pr)
     else set_state (\<lambda>w. w\<lparr> w_chainId := Some coston2_id \<rparr>)) s)"
  by (cases "pr (snd s) ''eth_chainId'' JUndef")
    (simp_all add: drive.simps [of pr live "Connect_chain" s] act_bind_def request_def closing_def [of "(_, _)"] set_state_def
      switched_def drive_connect_switch)

lemma drive_body: "drive pr live Connect_accounts s = closing (connect_body pr s)"
proof (cases "pr (snd s) ''eth_requestAccounts'' JUndef")
  case (Inl e)
  then show ?thesis
    by (simp add: drive.simps [of pr live "Connect_accounts" s] connect_body_def act_bind_def request_def closing_def)
next
  case (Inr v)
  then show ?thesis
    by (cases "first_account v")
      (simp_all add: drive.simps [of pr live "Connect_accounts" s] connect_body_def act_bind_def [of "request pr ''eth_requestAccounts'' JUndef"]
        act_bind_def [of "act_lift _"] act_bind_def [of "set_state _"] act_lift_def request_def [of _ "''eth_requestAccounts''"]
        closing_def [of "(Inl _, _)"] drive_chain set_state_def [of "\<lambda>w. w\<lparr> w_account := _ \<rparr>"])
qed

lemma connect_closing:
  "connect (Some pr) (w, qs) = closing (connect_body pr (w\<lparr> w_connecting := True, w_error := None \<rparr>, qs))"
proof -
  obtain r t where "connect_body pr (w\<lparr> w_connecting := True, w_error := None \<rparr>, qs) = (r, t)" by (rule prod.exhaust)
  then show ?thesis
    by (cases r) (simp_all add: connect_def act_bind_def act_catch_def set_state_def closing_def connect_fails_def)
qed

text \<open>Run without interleaving, the machine's functions are the flows: a click on connect
  followed by its answers is the connect flow, a click on switch is the switch flow.\<close>

theorem flows_alone:
  "connect (Some pr) (w, qs) = drive pr live Connect_accounts (w\<lparr> w_connecting := True, w_error := None \<rparr>, qs) \<and>
   switchToCoston2 (Some pr) s = drive pr live (Switch False) s"
  by (simp add: connect_closing drive_body drive_switch)

section \<open>What a page can have seen\<close>

text \<open>The accounts and chains that the wallet has reported since the page was loaded, the answers to an
  effect instance that was cleaned up in the meantime (which the hook ignores) among them.\<close>

datatype report = Accounts_are jsv | Chain_is int

fun reported :: "happening \<Rightarrow> hook_state \<Rightarrow> report list" where
  "reported (Accounts_changed v) s = [Accounts_are v]"
| "reported (Answers i (Inr v)) s =
     (case k_waiting s ! i of
        Reconnect_accounts n \<Rightarrow> [Accounts_are v]
      | Connect_accounts \<Rightarrow> [Accounts_are v]
      | Switch c \<Rightarrow> [Chain_is coston2_id]
      | Add c \<Rightarrow> [Chain_is coston2_id]
      | _ \<Rightarrow> (case parse_int16 (js_text v) of None \<Rightarrow> [] | Some c \<Rightarrow> [Chain_is c]))"
| "reported _ s = []"

inductive hook_run :: "report list \<Rightarrow> hook_state \<Rightarrow> bool" where
  loaded: "hook_run [] initial_hook"
| happens: "hook_run told s \<Longrightarrow> hook_step h s = Some s' \<Longrightarrow>
    hook_run (if h = Chain_changed then [] else told @ reported h s) s'"

definition in_connect :: "awaiting \<Rightarrow> bool" where
  "in_connect p = (case p of Connect_accounts \<Rightarrow> True | Connect_chain \<Rightarrow> True | Switch c \<Rightarrow> c | Add c \<Rightarrow> c | _ \<Rightarrow> False)"

definition account_told :: "report list \<Rightarrow> jsv \<Rightarrow> bool" where
  "account_told told a = (a = JNull \<or> (\<exists>v. Accounts_are v \<in> set told \<and> first_account v = Inr a))"

definition hook_ok :: "report list \<Rightarrow> hook_state \<Rightarrow> bool" where
  "hook_ok told s \<longleftrightarrow>
     account_told told (w_account (k_wallet s)) \<and>
     (\<forall>c. w_chainId (k_wallet s) = Some c \<longrightarrow> Chain_is c \<in> set told) \<and>
     (w_connecting (k_wallet s) \<longrightarrow> (\<exists>p \<in> set (k_waiting s). in_connect p)) \<and>
     (\<forall>n v. Reconnect_chain n v \<in> set (k_waiting s) \<longrightarrow> Accounts_are v \<in> set told) \<and>
     (k_live s \<noteq> None \<longrightarrow> k_available s)"

lemma account_told_mono: "account_told told a \<Longrightarrow> account_told (told @ rs) a"
  by (auto simp: account_told_def)

lemma set_without: "set (without i xs) \<subseteq> set xs"
  by (auto simp: without_def dest: in_set_takeD in_set_dropD)

lemma in_without: "p \<in> set xs \<Longrightarrow> p \<noteq> xs ! i \<Longrightarrow> p \<in> set (without i xs)"
proof -
  assume p: "p \<in> set xs" "p \<noteq> xs ! i"
  then obtain j where j: "j < length xs" "xs ! j = p" "j \<noteq> i" by (auto simp: in_set_conv_nth)
  show ?thesis
  proof (cases "j < i")
    case True
    then have "take i xs ! j = p" "j < length (take i xs)" using j by simp_all
    then show ?thesis unfolding without_def by (metis UnI1 nth_mem set_append)
  next
    case False
    then have "drop (Suc i) xs ! (j - Suc i) = p" "j - Suc i < length (drop (Suc i) xs)" using j by simp_all
    then show ?thesis unfolding without_def by (metis UnI2 nth_mem set_append)
  qed
qed

lemma in_updated: "p \<in> set xs \<Longrightarrow> p \<noteq> xs ! i \<Longrightarrow> p \<in> set (xs[i := q])"
  by (metis in_set_conv_nth length_list_update nth_list_update_neq)

text \<open>What one answer does to the hook's state and to what waits.\<close>

lemma resume_keeps:
  assumes "resume live p r w = (w', k)"
  shows "(w_account w' = w_account w \<or>
      (\<exists>v. first_account v = Inr (w_account w') \<and> (p = Connect_accounts \<and> r = Inr v \<or> (\<exists>n. p = Reconnect_chain n v)))) \<and>
    (w_chainId w' = w_chainId w \<or> (\<exists>v. r = Inr v \<and> w_chainId w' =
        (case p of Switch c \<Rightarrow> Some coston2_id | Add c \<Rightarrow> Some coston2_id | _ \<Rightarrow> parse_int16 (js_text v)))) \<and>
    (w_connecting w' \<longrightarrow> w_connecting w \<and> (in_connect p \<longrightarrow> (\<exists>q. k = Inr (Some q) \<and> in_connect q))) \<and>
    (\<forall>n v. k = Inr (Some (Reconnect_chain n v)) \<longrightarrow> p = Reconnect_accounts n \<and> r = Inr v)"
  using assms
  by (induction live p r w rule: resume.induct)
    (auto simp: connect_fails_def switched_def switch_fails_def in_connect_def split: sum.splits if_splits)

lemma resume_chain:
  assumes "resume live p r w = (w', k)" "w_chainId w' \<noteq> w_chainId w"
  shows "(\<forall>n. p \<noteq> Reconnect_accounts n) \<and> p \<noteq> Connect_accounts"
  using assms
  by (induction live p r w rule: resume.induct) (auto simp: connect_fails_def split: sum.splits)

text \<open>One answer keeps the invariant.\<close>

lemma answer_keeps:
  assumes ok: "hook_ok told s" and i: "i < length (k_waiting s)"
    and r: "resume (k_live s) (k_waiting s ! i) r (k_wallet s) = (w, k)"
    and ps: "ps = (case k of Inr (Some q) \<Rightarrow> (k_waiting s)[i := q] | _ \<Rightarrow> without i (k_waiting s))"
  shows "hook_ok (told @ reported (Answers i r) s) (s\<lparr> k_wallet := w, k_waiting := ps \<rparr>)"
proof -
  let ?p = "k_waiting s ! i" let ?told = "told @ reported (Answers i r) s"
  note keeps = resume_keeps [OF r]
  have p: "?p \<in> set (k_waiting s)" using i by simp
  have sub: "set ps \<subseteq> set (k_waiting s) \<union> {q. k = Inr (Some q)}"
    using set_without [of i "k_waiting s"] set_update_subset_insert [of "k_waiting s" i]
    by (auto simp: ps split: sum.splits option.splits)
  have acc: "account_told ?told (w_account w)"
  proof (cases "w_account w = w_account (k_wallet s)")
    case True
    with ok show ?thesis by (simp add: hook_ok_def account_told_mono)
  next
    case False
    with keeps obtain v where v: "first_account v = Inr (w_account w)"
      and from': "?p = Connect_accounts \<and> r = Inr v \<or> (\<exists>n. ?p = Reconnect_chain n v)" by blast
    from from' ok p have "Accounts_are v \<in> set ?told" by (auto simp: hook_ok_def)
    with v show ?thesis by (auto simp: account_told_def)
  qed
  have chain: "Chain_is c \<in> set ?told" if c: "w_chainId w = Some c" for c
  proof (cases "w_chainId w = w_chainId (k_wallet s)")
    case True
    with ok c show ?thesis by (simp add: hook_ok_def)
  next
    case False
    with keeps obtain v where "r = Inr v" "w_chainId w =
        (case ?p of Switch c \<Rightarrow> Some coston2_id | Add c \<Rightarrow> Some coston2_id | _ \<Rightarrow> parse_int16 (js_text v))" by blast
    with resume_chain [OF r] c False show ?thesis by (cases ?p) auto
  qed
  have conn: "\<exists>q \<in> set ps. in_connect q" if "w_connecting w"
  proof -
    from keeps that have was: "w_connecting (k_wallet s)"
      and cont: "in_connect ?p \<longrightarrow> (\<exists>q. k = Inr (Some q) \<and> in_connect q)" by blast+
    from ok was obtain q where q: "q \<in> set (k_waiting s)" "in_connect q" by (auto simp: hook_ok_def)
    show ?thesis
    proof (cases "in_connect ?p")
      case True
      with cont i show ?thesis by (auto simp: ps intro!: bexI [OF _ set_update_memI])
    next
      case False
      with q have "q \<noteq> ?p" by auto
      with q have "q \<in> set ps" by (simp add: ps in_without in_updated split: sum.split option.split)
      with q show ?thesis by blast
    qed
  qed
  have rec: "Accounts_are v \<in> set ?told" if "Reconnect_chain n v \<in> set ps" for n v
    using that sub keeps ok by (auto simp: hook_ok_def)
  from acc chain conn rec ok show ?thesis by (simp add: hook_ok_def)
qed

lemma initial_hook_ok: "hook_ok [] initial_hook"
  by (simp add: hook_ok_def account_told_def initial_hook_def)

lemma hook_step_keeps:
  assumes ok: "hook_ok told s" and st: "hook_step h s = Some s'"
  shows "hook_ok (if h = Chain_changed then [] else told @ reported h s) s'"
proof (cases h)
  case (Answers i r)
  obtain w k where r: "resume (k_live s) (k_waiting s ! i) r (k_wallet s) = (w, k)" by (rule prod.exhaust)
  from st Answers have i: "i < length (k_waiting s)" by (auto split: if_splits)
  from st Answers r i have "s' = s\<lparr> k_wallet := w,
      k_waiting := (case k of Inr (Some q) \<Rightarrow> (k_waiting s)[i := q] | _ \<Rightarrow> without i (k_waiting s)) \<rparr>"
    by (auto split: sum.splits option.splits)
  with answer_keeps [OF ok i r refl] Answers show ?thesis by simp
next
  case (Accounts_changed v)
  with ok st show ?thesis
    by (auto simp: hook_ok_def account_told_def split: if_splits sum.splits)
qed (use ok st in \<open>auto simp: hook_ok_def account_told_def initial_hook_def in_connect_def split: if_splits\<close>)

lemma run_ok: "hook_run told s \<Longrightarrow> hook_ok told s"
proof (induction rule: hook_run.induct)
  case loaded
  show ?case by (rule initial_hook_ok)
next
  case (happens told s h s')
  from hook_step_keeps [OF happens.IH happens.hyps(2)] show ?case .
qed

lemma run_connecting: "hook_run told s \<Longrightarrow> k_waiting s = [] \<Longrightarrow> \<not> w_connecting (k_wallet s)"
  by (auto dest!: run_ok simp: hook_ok_def)

text \<open>On every page, whatever happens in whatever order: the account and the chain that
  the hook shows are ones that the wallet has reported since the page was loaded; it is
  connecting only while a function called by the connect flow still waits for the wallet, so
  it is never left connecting; and the listeners exist only where a wallet was found.\<close>

theorem hook_shows_reports:
  assumes "hook_run told s"
  shows "account_told told (w_account (k_wallet s)) \<and>
    (onCoston2 (k_wallet s) \<longrightarrow> Chain_is coston2_id \<in> set told) \<and>
    (w_connecting (k_wallet s) \<longrightarrow> (\<exists>p \<in> set (k_waiting s). in_connect p)) \<and>
    (k_live s \<noteq> None \<longrightarrow> k_available s)"
  using run_ok [OF assms] by (auto simp: hook_ok_def onCoston2_def)

section \<open>Which account is shown\<close>

definition last_account :: "report list \<Rightarrow> jsv" where
  "last_account told = fold (\<lambda>r a. case r of Accounts_are v \<Rightarrow> (case first_account v of Inr a' \<Rightarrow> a' | Inl _ \<Rightarrow> a) | _ \<Rightarrow> a) told JNull"

lemma last_account_simps [simp]: "last_account [] = JNull" "last_account (told @ [Chain_is c]) = last_account told"
  "last_account (told @ [Accounts_are v]) = (case first_account v of Inr a \<Rightarrow> a | Inl _ \<Rightarrow> last_account told)"
  by (simp_all add: last_account_def split: sum.split)

text \<open>A page is calm when its effect is not cleaned up, the wallet reports accounts
  only while no silent reconnection has the answer to its first request only.\<close>

definition half_reconnected :: "hook_state \<Rightarrow> bool" where
  "half_reconnected s \<longleftrightarrow> (\<exists>n v. Reconnect_chain n v \<in> set (k_waiting s))"

definition calm :: "happening \<Rightarrow> hook_state \<Rightarrow> bool" where
  "calm h s \<longleftrightarrow> h \<noteq> Unmounts \<and> (half_reconnected s \<longrightarrow> (\<forall>v. Accounts_are v \<notin> set (reported h s))) \<and>
     (\<forall>i e n v. h = Answers i (Inl e) \<longrightarrow> k_waiting s ! i \<noteq> Reconnect_chain n v)"

inductive calm_run :: "report list \<Rightarrow> hook_state \<Rightarrow> bool" where
  calm_loaded: "calm_run [] initial_hook"
| calm_happens: "calm_run told s \<Longrightarrow> hook_step h s = Some s' \<Longrightarrow> calm h s \<Longrightarrow>
    calm_run (if h = Chain_changed then [] else told @ reported h s) s'"

definition calm_ok :: "report list \<Rightarrow> hook_state \<Rightarrow> bool" where
  "calm_ok told s \<longleftrightarrow>
     (\<not> half_reconnected s \<longrightarrow> w_account (k_wallet s) = last_account told) \<and>
     (\<forall>n v. Reconnect_chain n v \<in> set (k_waiting s) \<longrightarrow> k_live s = Some n \<and>
        last_account told = (case first_account v of Inr a \<Rightarrow> a | Inl _ \<Rightarrow> w_account (k_wallet s))) \<and>
     (\<forall>n. Reconnect_accounts n \<in> set (k_waiting s) \<longrightarrow> k_live s = Some n)"

lemma resume_account:
  "resume live p r w = (w', k) \<Longrightarrow> (\<forall>n. p \<noteq> Reconnect_accounts n) \<Longrightarrow> (\<forall>n v. p \<noteq> Reconnect_chain n v) \<Longrightarrow> p \<noteq> Connect_accounts \<Longrightarrow>
   w_account w' = w_account w \<and> (\<forall>q. k = Inr (Some q) \<longrightarrow> (\<forall>n. q \<noteq> Reconnect_accounts n) \<and> (\<forall>n v. q \<noteq> Reconnect_chain n v))"
  by (induction live p r w rule: resume.induct) (auto simp: connect_fails_def switched_def switch_fails_def split: if_splits)

lemma reported_chain:
  "\<forall>n. k_waiting s ! i \<noteq> Reconnect_accounts n \<Longrightarrow> k_waiting s ! i \<noteq> Connect_accounts \<Longrightarrow>
   last_account (told @ reported (Answers i r) s) = last_account told"
  by (cases r; cases "k_waiting s ! i") (auto split: option.split)

text \<open>One answer on a calm page, by the function it is for.\<close>

definition after :: "nat \<Rightarrow> thrown + awaiting option \<Rightarrow> awaiting list \<Rightarrow> awaiting list \<Rightarrow> bool" where
  "after i k ps ps' \<longleftrightarrow> set ps' \<subseteq> set ps \<union> {q. k = Inr (Some q)} \<and> {q. k = Inr (Some q)} \<subseteq> set ps' \<and>
     (\<forall>p \<in> set ps. p \<noteq> ps ! i \<longrightarrow> p \<in> set ps')"

lemma after_answer: "i < length ps \<Longrightarrow> after i k ps (case k of Inr (Some q) \<Rightarrow> ps[i := q] | _ \<Rightarrow> without i ps)"
  using set_without [of i ps] set_update_subset_insert [of ps i]
  by (auto simp: after_def in_without in_updated set_update_memI split: sum.split option.split)

text \<open>What leaves the account, what has been told and the half reconnections alone keeps it.\<close>

lemma calm_frame:
  assumes ok: "calm_ok told s" and acc: "w_account (k_wallet s') = w_account (k_wallet s)"
    and told: "last_account told' = last_account told"
    and chains: "\<And>n v. Reconnect_chain n v \<in> set (k_waiting s') \<longleftrightarrow> Reconnect_chain n v \<in> set (k_waiting s)"
    and live: "\<And>n v. Reconnect_chain n v \<in> set (k_waiting s) \<Longrightarrow> k_live s' = k_live s"
    and accs: "\<And>n. Reconnect_accounts n \<in> set (k_waiting s') \<Longrightarrow> k_live s' = Some n"
  shows "calm_ok told' s'"
  using ok unfolding calm_ok_def half_reconnected_def acc told by (simp add: chains live accs)

lemma calm_same:
  assumes ok: "calm_ok told s" and ps: "after i k (k_waiting s) ps" and p: "\<forall>n v. k_waiting s ! i \<noteq> Reconnect_chain n v"
    and w: "w_account w = w_account (k_wallet s)"
    and k: "\<And>q n v. k = Inr (Some q) \<Longrightarrow> q \<noteq> Reconnect_accounts n \<and> q \<noteq> Reconnect_chain n v"
    and told: "last_account told' = last_account told"
  shows "calm_ok told' (s\<lparr> k_wallet := w, k_waiting := ps \<rparr>)"
proof -
  have "Reconnect_chain n v \<in> set ps" if "Reconnect_chain n v \<in> set (k_waiting s)" for n v
    using ps p that unfolding after_def by metis
  then have chains: "Reconnect_chain n v \<in> set ps \<longleftrightarrow> Reconnect_chain n v \<in> set (k_waiting s)" for n v
    using ps k [of "Reconnect_chain n v" n v] unfolding after_def by auto
  have accs: "Reconnect_accounts n \<in> set ps \<Longrightarrow> Reconnect_accounts n \<in> set (k_waiting s)" for n
    using ps k [of "Reconnect_accounts n" n] unfolding after_def by auto
  show ?thesis
    by (rule calm_frame [OF ok]) (use ok accs in \<open>auto simp: w told chains calm_ok_def\<close>)
qed

lemma calm_reconnect_accounts:
  assumes ok: "calm_ok told s" and c: "calm (Answers i r) s" and i: "i < length (k_waiting s)"
    and p: "k_waiting s ! i = Reconnect_accounts n"
    and r: "resume (k_live s) (k_waiting s ! i) r (k_wallet s) = (w, k)" and ps: "after i k (k_waiting s) ps"
  shows "calm_ok (told @ reported (Answers i r) s) (s\<lparr> k_wallet := w, k_waiting := ps \<rparr>)"
proof (cases r)
  case (Inl e)
  with r p have w: "w = k_wallet s" "k = Inl e" by simp_all
  show ?thesis by (rule calm_same [OF ok ps]) (simp_all add: p w Inl)
next
  case (Inr v)
  with r p have k: "w = k_wallet s" "k = Inr (Some (Reconnect_chain n v))" by simp_all
  from c Inr p have half: "\<not> half_reconnected s" by (auto simp: calm_def)
  from i p have "Reconnect_accounts n \<in> set (k_waiting s)" by (metis nth_mem)
  with ok have live: "k_live s = Some n" by (simp add: calm_ok_def)
  have "half_reconnected (s\<lparr> k_wallet := w, k_waiting := ps \<rparr>)" using ps k by (auto simp: after_def half_reconnected_def)
  moreover have "m = n \<and> u = v" if "Reconnect_chain m u \<in> set ps" for m u
    using that ps k half by (auto simp: after_def half_reconnected_def)
  moreover have "k_live s = Some m" if "Reconnect_accounts m \<in> set ps" for m
    using that ps k ok by (auto simp: after_def calm_ok_def)
  moreover have "w_account (k_wallet s) = last_account told" using ok half by (simp add: calm_ok_def)
  moreover have "last_account (told @ reported (Answers i r) s) = (case first_account v of Inr a \<Rightarrow> a | Inl _ \<Rightarrow> last_account told)"
    using Inr p by simp
  ultimately show ?thesis using k(1) live unfolding calm_ok_def by (auto simp del: reported.simps split: sum.split)
qed

lemma calm_reconnect_chain:
  assumes ok: "calm_ok told s" and c: "calm (Answers i r) s" and i: "i < length (k_waiting s)"
    and p: "k_waiting s ! i = Reconnect_chain n v"
    and r: "resume (k_live s) (k_waiting s ! i) r (k_wallet s) = (w, k)" and ps: "after i k (k_waiting s) ps"
  shows "calm_ok (told @ reported (Answers i r) s) (s\<lparr> k_wallet := w, k_waiting := ps \<rparr>)"
proof -
  from i p have "Reconnect_chain n v \<in> set (k_waiting s)" by (metis nth_mem)
  with ok have live: "k_live s = Some n"
    "last_account told = (case first_account v of Inr a \<Rightarrow> a | Inl _ \<Rightarrow> w_account (k_wallet s))" by (simp_all add: calm_ok_def)
  from c p obtain x where x: "r = Inr x" by (cases r) (auto simp: calm_def)
  with r p live have w: "w_account w = last_account told" "\<forall>q. k \<noteq> Inr (Some q)" by (auto split: sum.splits)
  have sub: "set ps \<subseteq> set (k_waiting s)" using ps w(2) by (auto simp: after_def)
  have told: "last_account (told @ reported (Answers i r) s) = last_account told" by (rule reported_chain) (simp_all add: p)
  have chains: "k_live s = Some m \<and> (\<forall>a. first_account u = Inr a \<longrightarrow> w_account w = a)" if "Reconnect_chain m u \<in> set ps" for m u
  proof -
    from that sub ok have "k_live s = Some m"
      "last_account told = (case first_account u of Inr a \<Rightarrow> a | Inl _ \<Rightarrow> w_account (k_wallet s))" by (auto simp: calm_ok_def)
    with w(1) show ?thesis by simp
  qed
  have accs: "k_live s = Some m" if "Reconnect_accounts m \<in> set ps" for m
    using that sub ok by (auto simp: calm_ok_def)
  show ?thesis unfolding calm_ok_def told w(1) [symmetric] by (auto simp: accs chains split: sum.split)
qed

lemma calm_connect_accounts:
  assumes ok: "calm_ok told s" and c: "calm (Answers i r) s" and p: "k_waiting s ! i = Connect_accounts"
    and r: "resume (k_live s) (k_waiting s ! i) r (k_wallet s) = (w, k)" and ps: "after i k (k_waiting s) ps"
  shows "calm_ok (told @ reported (Answers i r) s) (s\<lparr> k_wallet := w, k_waiting := ps \<rparr>)"
proof (cases r)
  case (Inl e)
  with r p have w: "w_account w = w_account (k_wallet s)" "k = Inr None" by (auto simp: connect_fails_def)
  show ?thesis by (rule calm_same [OF ok ps]) (simp_all add: p w Inl)
next
  case (Inr v)
  from c Inr p have half: "\<not> half_reconnected s" by (auto simp: calm_def)
  from r p Inr have w: "w_account w = (case first_account v of Inr a \<Rightarrow> a | Inl _ \<Rightarrow> w_account (k_wallet s))"
    "\<forall>q. k = Inr (Some q) \<longrightarrow> q = Connect_chain" by (auto simp: connect_fails_def split: sum.splits)
  have "\<not> half_reconnected (s\<lparr> k_wallet := w, k_waiting := ps \<rparr>)" using half ps w(2) by (auto simp: half_reconnected_def after_def)
  moreover have "w_account (k_wallet s) = last_account told" using ok half by (simp add: calm_ok_def)
  ultimately show ?thesis
    using ok ps w Inr p by (auto simp: calm_ok_def after_def half_reconnected_def split: sum.splits)
qed

lemma calm_other:
  assumes ok: "calm_ok told s" and p: "\<forall>n. k_waiting s ! i \<noteq> Reconnect_accounts n" "\<forall>n v. k_waiting s ! i \<noteq> Reconnect_chain n v"
      "k_waiting s ! i \<noteq> Connect_accounts"
    and r: "resume (k_live s) (k_waiting s ! i) r (k_wallet s) = (w, k)" and ps: "after i k (k_waiting s) ps"
  shows "calm_ok (told @ reported (Answers i r) s) (s\<lparr> k_wallet := w, k_waiting := ps \<rparr>)"
proof -
  from resume_account [OF r p] have w: "w_account w = w_account (k_wallet s)"
    "\<And>q n v. k = Inr (Some q) \<Longrightarrow> q \<noteq> Reconnect_accounts n \<and> q \<noteq> Reconnect_chain n v" by auto
  show ?thesis by (rule calm_same [OF ok ps p(2) w(1)]) (use w(2) p in \<open>simp_all add: reported_chain del: reported.simps\<close>)
qed

lemma calm_step:
  assumes ok: "calm_ok told s" and c: "calm h s" and st: "hook_step h s = Some s'"
  shows "calm_ok (if h = Chain_changed then [] else told @ reported h s) s'"
proof (cases h)
  case (Answers i r)
  obtain w k where r: "resume (k_live s) (k_waiting s ! i) r (k_wallet s) = (w, k)" by (rule prod.exhaust)
  let ?ps = "case k of Inr (Some q) \<Rightarrow> (k_waiting s)[i := q] | _ \<Rightarrow> without i (k_waiting s)"
  from st Answers have i: "i < length (k_waiting s)" by (auto split: if_splits)
  from st Answers r i have s': "s' = s\<lparr> k_wallet := w, k_waiting := ?ps \<rparr>" by (auto split: sum.splits option.splits)
  note ps = after_answer [OF i, of k] and c' = c [unfolded Answers]
  have "calm_ok (told @ reported (Answers i r) s) (s\<lparr> k_wallet := w, k_waiting := ?ps \<rparr>)"
  proof (cases "k_waiting s ! i")
    case (Reconnect_accounts n)
    from calm_reconnect_accounts [OF ok c' i this r ps] show ?thesis .
  next
    case (Reconnect_chain n v)
    from calm_reconnect_chain [OF ok c' i this r ps] show ?thesis .
  next
    case Connect_accounts
    from calm_connect_accounts [OF ok c' this r ps] show ?thesis .
  qed (rule calm_other [OF ok _ _ _ r ps]; simp)+
  with s' Answers show ?thesis by simp
next
  case (Accounts_changed v)
  with c have "\<not> half_reconnected s" by (auto simp: calm_def)
  with ok Accounts_changed st show ?thesis
    by (auto simp: calm_ok_def half_reconnected_def split: if_splits sum.splits)
next
  case (Mounts present)
  from st Mounts have live: "k_live s = None" by (auto split: if_splits)
  with ok have none: "Reconnect_accounts n \<notin> set (k_waiting s)" "Reconnect_chain n v \<notin> set (k_waiting s)" for n v
    by (auto simp: calm_ok_def)
  show ?thesis
    by (rule calm_frame [OF ok]) (use st Mounts live none in \<open>auto split: if_splits\<close>)
next
  case Unmounts
  with c show ?thesis by (simp add: calm_def)
next
  case Chain_changed
  with st show ?thesis by (auto simp: calm_ok_def initial_hook_def half_reconnected_def split: if_splits)
next
  case (Connect_click present)
  show ?thesis
    by (rule calm_frame [OF ok]) (use st Connect_click ok in \<open>auto simp: calm_ok_def split: if_splits\<close>)
next
  case (Switch_click present)
  show ?thesis
    by (rule calm_frame [OF ok]) (use st Switch_click ok in \<open>auto simp: calm_ok_def split: if_splits\<close>)
qed

text \<open>C17: on a calm page, whatever else is clicked and answered in whatever order, the account
  that the hook shows is the one that the wallet reported last, except while the silent
  reconnection still waits for the chain.\<close>

theorem calm_page_is_current:
  assumes "calm_run told s" "\<not> half_reconnected s"
  shows "w_account (k_wallet s) = last_account told"
proof -
  from assms(1) have "calm_ok told s"
  proof (induction rule: calm_run.induct)
    case calm_loaded
    show ?case by (simp add: calm_ok_def initial_hook_def half_reconnected_def)
  next
    case (calm_happens told s h s')
    from calm_step [OF calm_happens.IH calm_happens.hyps(3,2)] show ?case .
  qed
  with assms(2) show ?thesis by (simp add: calm_ok_def)
qed

fun hook_steps :: "happening list \<Rightarrow> report list \<times> hook_state \<Rightarrow> (report list \<times> hook_state) option" where
  "hook_steps [] x = Some x"
| "hook_steps (h # hs) x =
     (case hook_step h (snd x) of
        None \<Rightarrow> None
      | Some s' \<Rightarrow> hook_steps hs ((if h = Chain_changed then [] else fst x @ reported h (snd x)), s'))"

definition quiet_page :: "nat \<Rightarrow> hook_state" where
  "quiet_page n = snd (the (hook_steps (take n [Mounts True, Answers 0 (Inr (JArr [JStr ''0xme''])), Answers 0 (Inr (JStr ''0x72'')),
     Accounts_changed (JArr [JStr ''0xnew''])]) ([], initial_hook)))"

lemma quiet_pages:
  "quiet_page (Suc 0) = initial_hook\<lparr> k_available := True, k_live := Some 0, k_instances := 1, k_waiting := [Reconnect_accounts 0] \<rparr>"
  "quiet_page 2 = (quiet_page (Suc 0))\<lparr> k_waiting := [Reconnect_chain 0 (JArr [JStr ''0xme''])] \<rparr>"
  "quiet_page 3 = (quiet_page (Suc 0))\<lparr> k_wallet := \<lparr> w_account = JStr ''0xme'', w_chainId = Some 114, w_connecting = False, w_error = None \<rparr>, k_waiting := [] \<rparr>"
  "quiet_page 4 = (quiet_page 3)\<lparr> k_wallet := (k_wallet (quiet_page 3))\<lparr> w_account := JStr ''0xnew'' \<rparr> \<rparr>"
  by code_simp+

lemma quiet_page_runs: "calm_run [Accounts_are (JArr [JStr ''0xme'']), Chain_is 114, Accounts_are (JArr [JStr ''0xnew''])] (quiet_page 4)"
proof -
  have chain: "parse_int16 (js_text (JStr ''0x72'')) = Some 114" by code_simp
  note pages = quiet_pages initial_hook_def calm_def half_reconnected_def first_account_def nullish_or_def chain
  have "calm_run [] (quiet_page (Suc 0))"
    using calm_happens [OF calm_loaded, of "Mounts True" "quiet_page (Suc 0)"] by (simp add: pages)
  then have "calm_run [Accounts_are (JArr [JStr ''0xme''])] (quiet_page 2)"
    using calm_happens [of "[]" "quiet_page (Suc 0)" "Answers 0 (Inr (JArr [JStr ''0xme'']))" "quiet_page 2"] by (simp add: pages)
  then have "calm_run [Accounts_are (JArr [JStr ''0xme'']), Chain_is 114] (quiet_page 3)"
    using calm_happens [of _ "quiet_page 2" "Answers 0 (Inr (JStr ''0x72''))" "quiet_page 3"] by (fastforce simp: pages without_def)
  then show ?thesis
    using calm_happens [of _ "quiet_page 3" "Accounts_changed (JArr [JStr ''0xnew''])" "quiet_page 4"] by (fastforce simp: pages)
qed

lemma calm_page_is_current_witness:
  "w_account (k_wallet (quiet_page 4)) = last_account [Accounts_are (JArr [JStr ''0xme'']), Chain_is 114, Accounts_are (JArr [JStr ''0xnew''])]"
  by (rule calm_page_is_current [OF quiet_page_runs]) (simp add: half_reconnected_def quiet_pages)

text \<open>The race of the silent reconnection: it asks for the accounts and then for the chain,
  and writes both only after the second answer.\<close>

definition race :: "happening list" where
  "race = [Mounts True, Answers 0 (Inr (JArr [JStr ''0xold''])), Accounts_changed (JArr [JStr ''0xnew'']), Answers 0 (Inr (JStr ''0x72''))]"

lemma hook_steps_run: "hook_run (fst x) (snd x) \<Longrightarrow> hook_steps hs x = Some y \<Longrightarrow> hook_run (fst y) (snd y)"
proof (induction hs arbitrary: x)
  case (Cons h hs)
  then obtain s' where s': "hook_step h (snd x) = Some s'"
    "hook_steps hs ((if h = Chain_changed then [] else fst x @ reported h (snd x)), s') = Some y" by (auto split: option.splits)
  show ?case by (rule Cons.IH [OF _ s'(2)]) (use happens [OF Cons.prems(1) s'(1)] in simp)
qed simp

lemma race_runs: "hook_steps race ([], initial_hook) =
   Some ([Accounts_are (JArr [JStr ''0xold'']), Accounts_are (JArr [JStr ''0xnew'']), Chain_is 114],
     initial_hook\<lparr> k_wallet := \<lparr> w_account = JStr ''0xold'', w_chainId = Some 114, w_connecting = False, w_error = None \<rparr>,
       k_available := True, k_live := Some 0, k_instances := 1 \<rparr>)"
  by code_simp

text \<open>C18: the silent reconnection overwrites a newer account. Whenever the wallet has answered it with
  its accounts and not yet with its chain, and reports a change of account in between, the page shows the
  new account and then, with the chain's answer, the account that the user has left, on the chain just
  answered, which it shows as usable if the chain is Coston2. The reconnection has then ended, so it does
  not correct the account.\<close>

theorem reconnect_shows_stale_account:
  assumes "hook_run told s" "k_live s = Some n"
    and "i < length (k_waiting s)" "k_waiting s ! i = Reconnect_chain n v"
    and "first_account v = Inr old" "first_account v' = Inr new" "old \<noteq> new"
  shows "\<exists>s1 s2 told'. hook_step (Accounts_changed v') s = Some s1 \<and> w_account (k_wallet s1) = new \<and>
     hook_step (Answers i (Inr chain)) s1 = Some s2 \<and> hook_run told' s2 \<and>
     last_account told' = new \<and> w_account (k_wallet s2) = old \<and>
     w_chainId (k_wallet s2) = parse_int16 (js_text chain) \<and> k_waiting s2 = without i (k_waiting s) \<and>
     (truthy old \<and> parse_int16 (js_text chain) = Some coston2_id \<longrightarrow>
        WalletButton (k_available s2) (k_wallet s2) = (let a = js_text old in
          Account_shown (take 6 a @ [CHR 0xE2, CHR 0x80, CHR 0xA6] @ drop (length a - 4) a)))"
proof -
  define s1 where "s1 = s\<lparr> k_wallet := (k_wallet s)\<lparr> w_account := new \<rparr> \<rparr>"
  define s2 where "s2 = s1\<lparr> k_wallet := (k_wallet s1)\<lparr> w_account := old, w_chainId := parse_int16 (js_text chain) \<rparr>,
    k_waiting := without i (k_waiting s) \<rparr>"
  let ?told = "told @ [Accounts_are v']"
  have 1: "hook_step (Accounts_changed v') s = Some s1" using assms(2,6) by (simp add: s1_def)
  have 2: "hook_step (Answers i (Inr chain)) s1 = Some s2" using assms(2-5) by (simp add: s1_def s2_def)
  have "hook_run ?told s1" using happens [OF assms(1) 1] by simp
  from happens [OF this 2] have run: "hook_run (?told @ reported (Answers i (Inr chain)) s1) s2" by simp
  have "last_account (?told @ reported (Answers i (Inr chain)) s1) = new"
    using assms(4,6) by (auto simp: s1_def last_account_def split: option.split)
  moreover have "k_available s" using run_ok [OF assms(1)] assms(2) by (simp add: hook_ok_def)
  ultimately show ?thesis
    using 1 2 run by (intro exI [of _ s1] exI [of _ s2] exI conjI) (auto simp: s1_def s2_def WalletButton_def onCoston2_def)
qed

definition half_way :: hook_state where
  "half_way = initial_hook\<lparr> k_available := True, k_live := Some 0, k_instances := 1,
     k_waiting := [Reconnect_chain 0 (JArr [JStr ''0xold''])] \<rparr>"

lemma reconnect_shows_stale_account_witness:
  "\<exists>s1 s2. hook_steps (take 2 race) ([], initial_hook) = Some ([Accounts_are (JArr [JStr ''0xold''])], half_way) \<and>
     hook_step (race ! 2) half_way = Some s1 \<and> w_account (k_wallet s1) = JStr ''0xnew'' \<and>
     hook_step (race ! 3) s1 = Some s2 \<and> k_waiting s2 = [] \<and>
     WalletButton (k_available s2) (k_wallet s2) = Account_shown (''0xold'' @ [CHR 0xE2, CHR 0x80, CHR 0xA6] @ ''xold'')"
proof -
  have half: "hook_steps (take 2 race) ([], initial_hook) = Some ([Accounts_are (JArr [JStr ''0xold''])], half_way)"
    by code_simp
  have run: "hook_run [Accounts_are (JArr [JStr ''0xold''])] half_way"
    using hook_steps_run [OF _ half] hook_run.loaded by simp
  have waits: "k_live half_way = Some 0" "0 < length (k_waiting half_way)"
    "k_waiting half_way ! 0 = Reconnect_chain 0 (JArr [JStr ''0xold''])"
    "first_account (JArr [JStr ''0xold'']) = Inr (JStr ''0xold'')"
    "first_account (JArr [JStr ''0xnew'']) = Inr (JStr ''0xnew'')" "JStr ''0xold'' \<noteq> JStr ''0xnew''"
    by (simp_all add: half_way_def first_account_def nullish_or_def)
  obtain s1 s2 where s: "hook_step (Accounts_changed (JArr [JStr ''0xnew''])) half_way = Some s1"
    "w_account (k_wallet s1) = JStr ''0xnew''" "hook_step (Answers 0 (Inr (JStr ''0x72''))) s1 = Some s2"
    "k_waiting s2 = without 0 (k_waiting half_way)"
    "truthy (JStr ''0xold'') \<and> parse_int16 (js_text (JStr ''0x72'')) = Some coston2_id \<longrightarrow>
       WalletButton (k_available s2) (k_wallet s2) = (let a = js_text (JStr ''0xold'') in
         Account_shown (take 6 a @ [CHR 0xE2, CHR 0x80, CHR 0xA6] @ drop (length a - 4) a))"
    using reconnect_shows_stale_account [OF run waits, of "JStr ''0x72''"] by blast
  have shown: "truthy (JStr ''0xold'')" "parse_int16 (js_text (JStr ''0x72'')) = Some coston2_id" "js_text (JStr ''0xold'') = ''0xold''"
    by code_simp+
  show ?thesis
    using half s(1-4) s(5) [unfolded shown] by (simp add: race_def half_way_def without_def)
qed

lemma hook_shows_reports_witness:
  "\<exists>told s. hook_steps race ([], initial_hook) = Some (told, s) \<and> account_told told (w_account (k_wallet s)) \<and> Chain_is coston2_id \<in> set told"
  using hook_shows_reports [OF hook_steps_run [OF _ race_runs, simplified]] race_runs hook_run.loaded
  by (auto simp: onCoston2_def coston2_id_def)

section \<open>Every flow ends\<close>

text \<open>Every answer brings its function nearer to its end, so that an unattended page is at rest
  after at most as many answers as its functions have requests left; none is then connecting.\<close>

definition to_go :: "hook_state \<Rightarrow> nat" where
  "to_go s = sum_list (map rank (k_waiting s))"

lemma sum_without: "i < length xs \<Longrightarrow> sum_list (map f (without i xs)) + f (xs ! i) = (sum_list (map f xs) :: nat)"
proof -
  assume "i < length xs"
  then have "xs = take i xs @ xs ! i # drop (Suc i) xs" by (rule id_take_nth_drop)
  then have "map f xs = map f (take i xs) @ f (xs ! i) # map f (drop (Suc i) xs)" by (metis list.map(2) map_append)
  then show ?thesis by (simp add: without_def)
qed

lemma sum_updated: "i < length xs \<Longrightarrow> sum_list (map f (xs[i := q])) + f (xs ! i) = (sum_list (map f xs) + f q :: nat)"
  using sum_without [of i xs f] by (simp add: without_def upd_conv_take_nth_drop)

lemma rank_bound: "rank p \<le> 4"
  by (cases p) simp_all

lemma to_go_bound: "sum_list (map rank ps) \<le> 4 * length ps"
proof (induction ps)
  case (Cons p ps)
  with rank_bound [of p] show ?case by simp
qed simp

lemma answer_nearer:
  assumes "hook_step (Answers i r) s = Some s'"
  shows "to_go s' < to_go s"
proof -
  obtain w k where r: "resume (k_live s) (k_waiting s ! i) r (k_wallet s) = (w, k)" by (rule prod.exhaust)
  from assms have i: "i < length (k_waiting s)" by (auto split: if_splits)
  have pos: "0 < rank (k_waiting s ! i)" by (cases "k_waiting s ! i") simp_all
  show ?thesis
  proof (cases "\<exists>q. k = Inr (Some q)")
    case True
    then obtain q where q: "k = Inr (Some q)" by blast
    have less: "rank q < rank (k_waiting s ! i)" using resume_rank r q by blast
    from sum_updated [OF i, of rank q] less assms r q i show ?thesis by (auto simp: to_go_def)
  next
    case False
    with assms r i have "s' = s\<lparr> k_wallet := w, k_waiting := without i (k_waiting s) \<rparr>" by (auto split: sum.splits option.splits)
    with pos sum_without [OF i, of rank] show ?thesis by (simp add: to_go_def)
  qed
qed

text \<open>A wallet that answers, in whatever way, the request that waits longest.\<close>

fun attend :: "nat \<Rightarrow> (hook_state \<Rightarrow> thrown + jsv) \<Rightarrow> hook_state \<Rightarrow> hook_state" where
  "attend 0 ans s = s"
| "attend (Suc n) ans s = (case hook_step (Answers 0 (ans s)) s of None \<Rightarrow> s | Some s' \<Rightarrow> attend n ans s')"

lemma attend_rests: "to_go s \<le> n \<Longrightarrow> k_waiting (attend n ans s) = []"
proof (induction n arbitrary: s)
  case 0
  have "rank p \<noteq> 0" for p by (cases p) simp_all
  with 0 show ?case by (cases "k_waiting s") (auto simp: to_go_def)
next
  case (Suc n)
  show ?case
  proof (cases "hook_step (Answers 0 (ans s)) s")
    case None
    then have "k_waiting s = []" by (auto split: if_splits prod.splits sum.splits option.splits)
    with None show ?thesis by simp
  next
    case (Some s')
    with answer_nearer [OF Some] Suc show ?thesis by simp
  qed
qed

lemma attend_run: "hook_run told s \<Longrightarrow> \<exists>told'. hook_run told' (attend n ans s)"
proof (induction n arbitrary: told s)
  case (Suc n)
  show ?case
  proof (cases "hook_step (Answers 0 (ans s)) s")
    case None
    with Suc.prems show ?thesis by auto
  next
    case (Some s')
    with Suc.IH [OF happens [OF Suc.prems Some]] show ?thesis by simp
  qed
qed auto

text \<open>Whatever has happened on a page and whatever the wallet answers: after at most as many
  answers as its functions have requests left (at most four each) nothing waits, and the
  hook is no longer connecting, so that its button is enabled again.\<close>

theorem attended_page_rests:
  assumes "hook_run told s"
  shows "k_waiting (attend (to_go s) ans s) = [] \<and> \<not> w_connecting (k_wallet (attend (to_go s) ans s)) \<and>
    to_go s \<le> 4 * length (k_waiting s)"
proof -
  obtain told' where run: "hook_run told' (attend (to_go s) ans s)" using attend_run [OF assms] by blast
  have rest: "k_waiting (attend (to_go s) ans s) = []" by (rule attend_rests) simp
  from rest run_connecting [OF run] to_go_bound [of "k_waiting s"] show ?thesis by (simp add: to_go_def)
qed

lemma attended_page_rests_witness:
  "\<exists>s. hook_steps [Mounts True, Connect_click True] ([], initial_hook) = Some ([], s) \<and> w_connecting (k_wallet s) \<and>
     \<not> w_connecting (k_wallet (attend (to_go s) (\<lambda>_. Inl (new_error ''denied'')) s))"
proof -
  let ?s = "initial_hook\<lparr> k_wallet := \<lparr> w_account = JNull, w_chainId = None, w_connecting = True, w_error = None \<rparr>, k_available := True,
    k_live := Some 0, k_instances := 1, k_waiting := [Reconnect_accounts 0, Connect_accounts] \<rparr>"
  have steps: "hook_steps [Mounts True, Connect_click True] ([], initial_hook) = Some ([], ?s)" by code_simp
  from hook_steps_run [OF _ this] hook_run.loaded have "hook_run [] ?s" by simp
  from attended_page_rests [OF this, of "\<lambda>_. Inl (new_error ''denied'')"] steps show ?thesis by auto
qed

end
