(* ===== verification/NodeClient.thy ===== *)
theory NodeClient
  imports ChainEnv Base64 Ecies
begin

text \<open>
  The client of the node's signing API (apps/extension/typescript/src/base/node.ts).
  The node is a parameter: a step that answers a POST of a body to a URL, over any
  state of its own. A thrown \<open>AbortError\<close> is told apart by \<open>aborted\<close>.
\<close>

section \<open>The client\<close>

record node_client =
  signPort :: jsv
  nc_timeoutMs :: int

definition DEFAULT_TIMEOUT_MS :: int where
  "DEFAULT_TIMEOUT_MS = 30000"

text \<open>\<open>Number(signPort)\<close>, where a string that is not of decimal digits counts as NaN.\<close>

definition port_number :: "jsv \<Rightarrow> jsv" where
  "port_number p =
     (case p of JNum r \<Rightarrow> JNum r
      | JStr s \<Rightarrow> if list_all is_digit s then JNum (of_nat (dec_val s)) else JNonFinite False
      | _ \<Rightarrow> JNonFinite False)"

definition new_node_client :: "jsv \<Rightarrow> int option \<Rightarrow> node_client" where
  "new_node_client port timeoutMs =
     \<lparr> signPort = port_number port,
       nc_timeoutMs = (case timeoutMs of None \<Rightarrow> DEFAULT_TIMEOUT_MS | Some ms \<Rightarrow> ms) \<rparr>"

definition port_text :: "jsv \<Rightarrow> string" where
  "port_text p = (case p of JNum r \<Rightarrow> num_str r | _ \<Rightarrow> ''NaN'')"

definition baseUrl :: "node_client \<Rightarrow> string" where
  "baseUrl c = ''http://localhost:'' @ port_text (signPort c)"

record 's node_world =
  post_fetch :: "string \<Rightarrow> string \<Rightarrow> ('s, http_reply) step"
  aborted :: "thrown \<Rightarrow> bool"
  body_error :: "string \<Rightarrow> string"

text \<open>The private \<open>post\<close>: the body is the JSON text of the payload.\<close>

definition post :: "'s node_world \<Rightarrow> node_client \<Rightarrow> string \<Rightarrow> jsv \<Rightarrow> ('s, jsv) step" where
  "post W c url_path payload =
     act_catch
       (act_bind (post_fetch W (baseUrl c @ url_path) (case json_text payload of None \<Rightarrow> [] | Some b \<Rightarrow> b)) (\<lambda>res.
        if \<not> http_ok res then
          act_throw (new_error (''node returned '' @ int_str (http_status res) @ '' for '' @ url_path @ '': '' @ http_body res))
        else act_lift (parse_body (body_error W) (http_body res))))
       (\<lambda>e. if aborted W e then
              act_throw (new_error (''node request to '' @ url_path @ '' timed out after '' @ int_str (nc_timeoutMs c) @ ''ms''))
            else act_throw e)"

text \<open>\<open>Buffer.from(encoded, "base64")\<close> of a value that is not a string is counted as a \<open>TypeError\<close>.\<close>

definition decrypted_bytes :: "jsv \<Rightarrow> thrown + bytes" where
  "decrypted_bytes resp =
     (case member_of resp ''decryptedMessage'' of
        None \<Rightarrow> Inl (new_error (''Cannot read properties of '' @ js_text resp))
      | Some JUndef \<Rightarrow> Inl (new_error ''node response missing decryptedMessage'')
      | Some (JStr s) \<Rightarrow> Inr (b64_decode s)
      | Some _ \<Rightarrow> Inl (new_error ''The first argument must be of type string''))"

definition decrypt :: "'s node_world \<Rightarrow> node_client \<Rightarrow> bytes \<Rightarrow> ('s, bytes) step" where
  "decrypt W c ciphertext =
     act_bind (post W c ''/decrypt'' (JObj [(''encryptedMessage'', JStr (b64_encode ciphertext))])) (\<lambda>resp.
     act_lift (decrypted_bytes resp))"

section \<open>A node\<close>

text \<open>
  The documented endpoint: a request body with the base64 of a ciphertext is answered
  with the base64 of what \<open>f\<close> opens it to, and a ciphertext \<open>f\<close> rejects with a 400.
\<close>

definition node_reply :: "(bytes \<Rightarrow> 'e + bytes) \<Rightarrow> string \<Rightarrow> http_reply" where
  "node_reply f body =
     (case json_parse body of
        Some (JObj kvs) \<Rightarrow>
          (case get_prop kvs ''encryptedMessage'' of
             JStr s \<Rightarrow>
               (case f (b64_decode s) of
                  Inr m \<Rightarrow> \<lparr> http_ok = True, http_status = 200, http_type = ''application/json'',
                      http_body = the (json_text (JObj [(''decryptedMessage'', JStr (b64_encode m))])) \<rparr>
                | Inl _ \<Rightarrow> \<lparr> http_ok = False, http_status = 400, http_type = ''text/plain'', http_body = ''decryption failed'' \<rparr>)
           | _ \<Rightarrow> \<lparr> http_ok = False, http_status = 400, http_type = ''text/plain'', http_body = ''bad request'' \<rparr>)
      | _ \<Rightarrow> \<lparr> http_ok = False, http_status = 400, http_type = ''text/plain'', http_body = ''bad request'' \<rparr>)"

lemma json_trip: "json_parse (the (json_text (JObj [(k, JStr s)]))) = Some (JObj [(k, JStr s)])"
  using json_parse_text [of "JObj [(k, JStr s)]"] by auto

lemma post_answered:
  assumes "post_fetch W (baseUrl c @ p) (the (json_text payload)) s = (Inr res, s')" "http_ok res"
    and "json_parse (http_body res) = Some v" "json_text payload \<noteq> None"
  shows "post W c p payload s = (Inr v, s')"
  using assms by (auto simp: post_def act_bind_def act_catch_def act_lift_def parse_body_def)

lemma post_refused:
  assumes "post_fetch W (baseUrl c @ p) (the (json_text payload)) s = (Inr res, s')" "\<not> http_ok res"
    and "json_text payload \<noteq> None"
  shows "\<exists>e. post W c p payload s = (Inl e, s')"
  using assms by (auto simp: post_def act_bind_def act_catch_def act_throw_def)

text \<open>Decrypting through the node is decrypting with the machine's key: what the browser
  sealed for the machine comes back as the sealed bytes, the base64 in both directions
  cancelling, and a ciphertext the key does not open, tampered with or not meant for
  it, is an exception, never a value.\<close>

theorem node_decrypts:
  assumes "\<And>body s. post_fetch W (baseUrl c @ ''/decrypt'') body s =
      (Inr (node_reply (\<lambda>ct. eciesDecrypt N (Raw key) (Raw ct)) body), s)"
  shows "case eciesDecrypt N (Raw key) (Raw ct) of
      Inr m \<Rightarrow> decrypt W c ct s = (Inr m, s)
    | Inl _ \<Rightarrow> \<exists>e. decrypt W c ct s = (Inl e, s)"
proof -
  let ?req = "JObj [(''encryptedMessage'', JStr (b64_encode ct))]"
  have req: "json_text ?req \<noteq> None" by simp
  show ?thesis
  proof (cases "eciesDecrypt N (Raw key) (Raw ct)")
    case (Inl x)
    have "\<exists>e. post W c ''/decrypt'' ?req s = (Inl e, s)"
      by (rule post_refused [OF assms _ req]) (simp only: node_reply_def json_trip, simp add: b64_round_trip Inl)
    with Inl show ?thesis by (auto simp: decrypt_def act_bind_def)
  next
    case (Inr m)
    have reply: "node_reply (\<lambda>ct. eciesDecrypt N (Raw key) (Raw ct)) (the (json_text ?req)) =
        \<lparr> http_ok = True, http_status = 200, http_type = ''application/json'',
          http_body = the (json_text (JObj [(''decryptedMessage'', JStr (b64_encode m))])) \<rparr>"
      unfolding node_reply_def json_trip by (simp add: b64_round_trip Inr del: json_text.simps)
    have "post W c ''/decrypt'' ?req s = (Inr (JObj [(''decryptedMessage'', JStr (b64_encode m))]), s)"
      by (rule post_answered [OF assms _ _ req]) (simp_all only: reply http_reply.simps json_trip)
    with Inr show ?thesis
      by (simp add: decrypt_def act_bind_def act_lift_def decrypted_bytes_def member_of_def b64_round_trip)
  qed
qed

definition demo_node :: "unit node_world" where
  "demo_node = \<lparr> post_fetch = (\<lambda>url body s. (Inr (node_reply (\<lambda>ct. eciesDecrypt demo_noble (Raw (replicate 32 2)) (Raw ct)) body), s)),
     aborted = (\<lambda>_. False), body_error = (\<lambda>b. b) \<rparr>"

lemma node_decrypts_witness:
  "\<exists>data. eciesEncrypt demo_noble (replicate 32 1) (replicate 16 9) (Raw (4 # replicate 64 2)) (utf8_bytes ''hi'') = Inr (toHex data) \<and>
     decrypt demo_node (new_node_client (JStr ''6677'') None) data () = (Inr (utf8_bytes ''hi''), ())"
proof -
  have n: "normalizeTeePublicKey demo_noble (Raw (4 # replicate 64 2)) = Inr (getPublicKey demo_noble (replicate 32 2))"
    by (simp add: normalizeTeePublicKey_def demo_noble_def flip: replicate_add)
  have v: "valid_private demo_noble (replicate 32 1)" "valid_private demo_noble (replicate 32 2)"
    "length (replicate 16 (9 :: 8 word)) = IV_LEN" by (simp_all add: demo_noble_def)
  obtain data where d: "eciesEncrypt demo_noble (replicate 32 1) (replicate 16 9) (Raw (4 # replicate 64 2)) (utf8_bytes ''hi'') = Inr (toHex data)"
    "eciesDecrypt demo_noble (Raw (replicate 32 2)) (Raw data) = Inr (utf8_bytes ''hi'')"
    using decrypt_encrypted [OF demo_noble_documented v n] by blast
  then show ?thesis
    using node_decrypts [of demo_node "new_node_client (JStr ''6677'') None" demo_noble "replicate 32 2" data "()"]
    by (auto simp: demo_node_def)
qed

end
