(* ===== verification/Scripts.thy ===== *)
theory Scripts
  imports Orchestrator StorePolicy TeeInfo
begin

text \<open>
  What the scripts of the orchestrator share: the world they run in, the reading of
  their environment, of the machine's key and of a deployment's receipt; and the
  hand-off check (apps/orchestrator/scripts/handoff-check.ts), which seals a fixed
  policy to the machine's key, deploys it empty, submits the ciphertext and waits
  for the enclave's answer. Printing is left out.
\<close>

section \<open>The world of a script\<close>

text \<open>
  The environment, the process's variables, the libraries, the address of a private
  key (\<open>privateKeyToAccount\<close>) and the randomness of the run: the salt, the ephemeral
  key and the IV.
\<close>

record script =
  sc_env :: env
  sc_process :: process_env
  sc_zod :: zod
  sc_viem :: viem
  sc_noble :: noble
  sc_decode :: decoder
  sc_account :: "string \<Rightarrow> thrown + string"
  sc_salt :: bytes
  sc_ephemeral :: bytes
  sc_iv :: bytes
  sc_syntax_error :: "string \<Rightarrow> string"

definition thrown_lift :: "js_error + 'a \<Rightarrow> thrown + 'a" where
  "thrown_lift r = (case r of Inl e \<Rightarrow> Inl (thrown_of e) | Inr a \<Rightarrow> Inr a)"

definition compile_lift :: "compile_error + 'a \<Rightarrow> thrown + 'a" where
  "compile_lift r = (case r of Inl (PolicyCompileError m) \<Rightarrow> Inl (new_error m) | Inl (Uncaught e) \<Rightarrow> Inl (thrown_of e) | Inr a \<Rightarrow> Inr a)"

definition need :: "process_env \<Rightarrow> string \<Rightarrow> thrown + string" where
  "need P variable = (case P variable of None \<Rightarrow> Inl (new_error (variable @ '' is not set''))
     | Some v \<Rightarrow> if v = [] then Inl (new_error (variable @ '' is not set'')) else Inr v)"

definition salt_text :: "script \<Rightarrow> string" where
  "salt_text S = ''0x'' @ bytes_hex (sc_salt S)"

text \<open>The loop over the receipt's logs: the last PolicyDeployed that decodes is the policy.\<close>

fun last_policy :: "decoder \<Rightarrow> abi_item list \<Rightarrow> string option \<Rightarrow> log_entry list \<Rightarrow> string option" where
  "last_policy decode abi policy [] = policy"
| "last_policy decode abi policy (l # ls) =
     last_policy decode abi
       (case decode abi l of
          Inr (eventName, args) \<Rightarrow> if eventName = ''PolicyDeployed'' then Some (log_arg args ''policy'') else policy
        | Inl _ \<Rightarrow> policy) ls"

definition deployed_policy :: "string \<Rightarrow> string option \<Rightarrow> thrown + string" where
  "deployed_policy msg policy = (case policy of None \<Rightarrow> Inl (new_error msg) | Some p \<Rightarrow> if p = [] then Inl (new_error msg) else Inr p)"

text \<open>The machine's key, read from the proxy, and the plaintext sealed to it.\<close>

definition machine_key :: "script \<Rightarrow> string \<Rightarrow> string act" where
  "machine_key S extProxyUrl =
     act_bind (fetch (sc_env S) (strip_slash extProxyUrl @ ''/info'')) (\<lambda>response.
     act_bind (act_lift (parse_body (sc_syntax_error S) (http_body response))) (\<lambda>info.
     act_lift (thrown_lift (teePublicKeyFromInfo info))))"

definition seal_to :: "script \<Rightarrow> string \<Rightarrow> string \<Rightarrow> thrown + string" where
  "seal_to S teeKey text = thrown_lift (eciesEncrypt (sc_noble S) (sc_ephemeral S) (sc_iv S) (HexStr teeKey) (utf8_bytes text))"

section \<open>The hand-off check\<close>

definition check_recipient :: "char \<Rightarrow> int \<Rightarrow> jsv" where
  "check_recipient c bps = JObj [(''address'', JStr (''0x'' @ replicate 40 c)), (''shareBps'', JNum (of_int bps))]"

definition check_input :: jsv where
  "check_input = JObj
     [(''version'', JNum 1), (''name'', JStr ''Hand-off check''), (''asset'', JStr ''FXRP''),
      (''trigger'', JObj [(''kind'', JStr ''manualHeartbeat''), (''intervalSeconds'', JNum 3600), (''demoMode'', JBool True)]),
      (''conditions'', JArr []),
      (''actions'', JArr [JObj [(''kind'', JStr ''splitTransfer''),
         (''recipients'', JArr [check_recipient CHR ''1'' 6000, check_recipient CHR ''2'' 4000])]])]"

text \<open>Part 1: the machine's key, the compiled policy and its sealed plaintext.\<close>

definition check_seal :: "script \<Rightarrow> string \<Rightarrow> (compiled_policy \<times> string) act" where
  "check_seal S extProxyUrl =
     act_bind (machine_key S extProxyUrl) (\<lambda>teeKey.
     act_bind (act_lift (compile_lift (compile (sc_zod S) (sc_viem S) check_input (salt_text S)))) (\<lambda>compiled.
     act_bind (act_lift (seal_to S teeKey (plaintext compiled))) (\<lambda>ciphertext.
     act_return (compiled, ciphertext))))"

definition check_deploy_call :: "string \<Rightarrow> string \<Rightarrow> string \<Rightarrow> string \<Rightarrow> string \<Rightarrow> contract_call" where
  "check_deploy_call factory fxrp' comm gate trigger' =
     \<lparr> call_to = factory, call_fn = ''deploy'',
       call_args = [JStr fxrp', JStr comm, JStr gate, JStr trigger', JArr []], call_value = 0 \<rparr>"

definition heartbeat_configure_call :: "string \<Rightarrow> string \<Rightarrow> string \<Rightarrow> contract_call" where
  "heartbeat_configure_call trigger' policy owner =
     \<lparr> call_to = trigger', call_fn = ''configure'',
       call_args = [JStr policy, JStr owner, JBig 3600, JBool True], call_value = 0 \<rparr>"

text \<open>Part 2: deploy and configure; neither receipt's status is looked at.\<close>

definition check_deploy :: "script \<Rightarrow> string \<Rightarrow> compiled_policy \<Rightarrow> string act" where
  "check_deploy S account compiled =
     (let E = sc_env S; P = sc_process S in
      act_bind (act_lift (need P ''POLICY_FACTORY'')) (\<lambda>factory.
      act_bind (act_lift (need P ''FXRP'')) (\<lambda>fxrp'.
      act_bind (act_lift (need P ''TEE_ATTESTOR_GATE'')) (\<lambda>gate.
      act_bind (act_lift (need P ''HEARTBEAT_TRIGGER'')) (\<lambda>trigger'.
      act_bind (writeContract E (check_deploy_call factory fxrp' (commitment (publicArgs compiled)) gate trigger')) (\<lambda>hash.
      act_bind (waitForTransactionReceipt E hash) (\<lambda>receipt.
      act_bind (act_lift (deployed_policy ''no PolicyDeployed in the receipt''
          (last_policy (sc_decode S) check_factoryAbi None (receipt_logs receipt)))) (\<lambda>policy.
      act_bind (writeContract E (heartbeat_configure_call trigger' policy account)) (\<lambda>hash'.
      act_bind (waitForTransactionReceipt E hash') (\<lambda>_.
      act_return policy))))))))))"

text \<open>Parts 1 to 3: up to the instruction that carries the ciphertext.\<close>

definition check_submit :: "script \<Rightarrow> (string \<times> instruction_receipt) act" where
  "check_submit S =
     act_bind (act_lift (need (sc_process S) ''DEPLOYER_PRIVATE_KEY'')) (\<lambda>key.
     act_bind (act_lift (sc_account S key)) (\<lambda>account.
     act_bind (act_lift (need (sc_process S) ''EXT_PROXY_URL'')) (\<lambda>extProxyUrl.
     act_bind (act_lift (need (sc_process S) ''INSTRUCTION_SENDER'')) (\<lambda>instructionSender.
     act_bind (check_seal S extProxyUrl) (\<lambda>(compiled, ciphertext).
     act_bind (check_deploy S account compiled) (\<lambda>policy.
     act_bind (sendStorePolicy (sc_env S) (sc_decode S) (Some account) instructionSender policy ciphertext) (\<lambda>sent.
     act_return (extProxyUrl, sent))))))))"

text \<open>Part 4: wait, and read the answer. \<open>None\<close> is a run that never ends.\<close>

definition check_main :: "script \<Rightarrow> event list \<Rightarrow> ((thrown + jsv) \<times> event list) option" where
  "check_main S t =
     (case check_submit S t of
        (Inl e, t1) \<Rightarrow> Some (Inl e, t1)
      | (Inr (extProxyUrl, sent), t1) \<Rightarrow>
          map_option (\<lambda>(r, t2). (and_then r decodeActionData, t2))
            (pollActionResult (sc_env S) (sc_syntax_error S) extProxyUrl (instructionId sent) 240000 2000 t1))"

section \<open>Lemmas\<close>

lemma thrown_lift_Inr [simp]: "thrown_lift r = Inr a \<longleftrightarrow> r = Inr a"
  by (simp add: thrown_lift_def split: sum.split)

lemma compile_lift_Inr [simp]: "compile_lift r = Inr a \<longleftrightarrow> r = Inr a"
  by (simp add: compile_lift_def split: sum.split compile_error.split)

lemma need_Inr [simp]: "need P n = Inr v \<longleftrightarrow> P n = Some v \<and> v \<noteq> []"
  by (auto simp: need_def split: option.split)

lemma seal_to_Inr:
  "seal_to S k text = Inr c \<longleftrightarrow> eciesEncrypt (sc_noble S) (sc_ephemeral S) (sc_iv S) (HexStr k) (utf8_bytes text) = Inr c"
  by (simp add: seal_to_def)

lemma salt_text_value: "hex_value (salt_text S) = Some (sc_salt S)"
  by (simp add: hex_value_def salt_text_def starts_with_def)

text \<open>The policy of the check, as the compiler types it.\<close>

definition check_ir :: policy_ir where
  "check_ir = \<lparr> ir_name = ''Hand-off check'', ir_asset = ''FXRP'', ir_trigger = ManualHeartbeat 3600 True,
     ir_conditions = [], ir_actions = [SplitTransfer [demo_share CHR ''1'' 6000, demo_share CHR ''2'' 4000]] \<rparr>"

lemma check_input_ir: "check_input = ir_js check_ir"
  by (simp add: check_input_def check_recipient_def ir_js_def check_ir_def demo_share_def share_js_def)

lemma check_facts: "wf_ir check_ir" "finite_js (ir_js check_ir)" "ir_asset check_ir \<in> set (map fst ASSETS)"
  by (code_simp, code_simp, simp add: check_ir_def ASSETS_def)

text \<open>The check always compiles, whatever the salt of 32 bytes.\<close>

lemma check_compiles:
  assumes "zod_documented zod" "viem_documented V" "hex_value slt = Some s" "length s = 32"
  shows "\<exists>c. compile zod V check_input slt = Inr c \<and> ir c = check_ir"
proof -
  have "\<forall>a \<in> set (ir_actions check_ir). case a of SplitTransfer rs \<Rightarrow> \<forall>r \<in> set rs. is_address (keccak256 V) (address r)"
    using demo_facts by (simp add: check_ir_def is_address_def)
  from compile_total [OF assms(1,2) check_facts assms(3,4) this] show ?thesis
    unfolding check_input_ir by blast
qed

text \<open>A submission that returns, taken apart.\<close>

lemma check_submit_steps:
  assumes "check_submit S t = (Inr (proxy, sent), t')"
  obtains account sender reply info teeKey c ciphertext factory fxrp' gate trigger' policy h1 h2 where
    "sc_process S ''EXT_PROXY_URL'' = Some proxy" "sc_process S ''INSTRUCTION_SENDER'' = Some sender"
    "sc_process S ''POLICY_FACTORY'' = Some factory" "sc_process S ''TEE_ATTESTOR_GATE'' = Some gate"
    "sc_process S ''FXRP'' = Some fxrp'" "sc_process S ''HEARTBEAT_TRIGGER'' = Some trigger'"
    "env_fetch (sc_env S) t (strip_slash proxy @ ''/info'') = Inr reply"
    "parse_body (sc_syntax_error S) (http_body reply) = Inr info" "teePublicKeyFromInfo info = Inr teeKey"
    "compile (sc_zod S) (sc_viem S) check_input (salt_text S) = Inr c"
    "eciesEncrypt (sc_noble S) (sc_ephemeral S) (sc_iv S) (HexStr teeKey) (utf8_bytes (plaintext c)) = Inr ciphertext"
    "t' = t @ [Fetched (strip_slash proxy @ ''/info''),
       Written (check_deploy_call factory fxrp' (commitment (publicArgs c)) gate trigger'), Awaited h1,
       Written (heartbeat_configure_call trigger' policy account), Awaited h2,
       Simulated (instruction_call sender ''sendStorePolicy'' [JStr policy, JStr ciphertext]),
       Written (instruction_call sender ''sendStorePolicy'' [JStr policy, JStr ciphertext]), Awaited (txHash sent)]"
proof -
  obtain account sender c ciphertext policy t1 t2 where a:
    "sc_process S ''EXT_PROXY_URL'' = Some proxy" "sc_process S ''INSTRUCTION_SENDER'' = Some sender"
    and seal: "check_seal S proxy t = (Inr (c, ciphertext), t1)" and dep: "check_deploy S account c t1 = (Inr policy, t2)"
    and send: "send_instruction (sc_env S) (sc_decode S) (Some account) sender ''sendStorePolicy''
      [JStr policy, JStr ciphertext] t2 = (Inr sent, t')"
    using assms by (auto simp: check_submit_def act_bind_Inr act_return_def act_lift_def sendStorePolicy_def)
  from seal obtain reply info teeKey where b: "env_fetch (sc_env S) t (strip_slash proxy @ ''/info'') = Inr reply"
    "parse_body (sc_syntax_error S) (http_body reply) = Inr info" "teePublicKeyFromInfo info = Inr teeKey"
    "compile (sc_zod S) (sc_viem S) check_input (salt_text S) = Inr c"
    "eciesEncrypt (sc_noble S) (sc_ephemeral S) (sc_iv S) (HexStr teeKey) (utf8_bytes (plaintext c)) = Inr ciphertext"
    "t1 = t @ [Fetched (strip_slash proxy @ ''/info'')]"
    by (auto simp: check_seal_def machine_key_def act_bind_Inr act_prims seal_to_Inr)
  from dep obtain factory fxrp' gate trigger' h1 h2 where d:
    "sc_process S ''POLICY_FACTORY'' = Some factory" "sc_process S ''FXRP'' = Some fxrp'"
    "sc_process S ''TEE_ATTESTOR_GATE'' = Some gate" "sc_process S ''HEARTBEAT_TRIGGER'' = Some trigger'"
    "t2 = t1 @ [Written (check_deploy_call factory fxrp' (commitment (publicArgs c)) gate trigger'), Awaited h1,
       Written (heartbeat_configure_call trigger' policy account), Awaited h2]"
    by (auto simp: check_deploy_def act_bind_Inr act_prims Let_def)
  show thesis
    by (rule that [OF a d(1,3,2,4) b(1-5)]) (use send_instruction_Inr [OF send] b(6) d(5) in simp)
qed

text \<open>What the proxy answers at \<open>/info\<close> names the public half of \<open>key\<close>.\<close>

definition publishes_key :: "script \<Rightarrow> event list \<Rightarrow> string \<Rightarrow> bytes \<Rightarrow> bool" where
  "publishes_key S t proxy key \<longleftrightarrow>
     (\<forall>reply info k. env_fetch (sc_env S) t (strip_slash proxy @ ''/info'') = Inr reply \<and>
        json_parse (http_body reply) = Some info \<and> teePublicKeyFromInfo info = Inr k \<longrightarrow>
        normalizeTeePublicKey (sc_noble S) (HexStr k) = Inr (getPublicKey (sc_noble S) key))"

section \<open>A concrete run\<close>

text \<open>A machine that answers, a factory that deploys, and a registry that dispatches.\<close>

definition demo_machine :: jsv where
  "demo_machine = info_response [] ''machineData'' (''0x'' @ bytes_hex (replicate 32 2)) (''0x'' @ bytes_hex (replicate 32 2))"

definition demo_script_env :: env where
  "demo_script_env = demo_env
     \<lparr> env_fetch := (\<lambda>t url. Inr \<lparr> http_ok = True, http_status = 200, http_type = ''application/json'',
         http_body = (if url = ''http://proxy/info'' then the (json_text demo_machine) else demo_body) \<rparr>),
       env_receipt := (\<lambda>t h. Inr \<lparr> receipt_status = ''success'',
         receipt_logs = [\<lparr> log_address = ''0x1'', log_data = ''0x99'', log_topics = [''PolicyDeployed''] \<rparr>,
                         \<lparr> log_address = ''0x2'', log_data = ''0x77'', log_topics = [''TeeInstructionsSent''] \<rparr>] \<rparr>) \<rparr>"

definition demo_script_decode :: decoder where
  "demo_script_decode abi l =
     (if log_topics l = [''PolicyDeployed''] then Inr (''PolicyDeployed'', [(''policy'', JStr (log_data l))])
      else Inr (''TeeInstructionsSent'', [(''instructionId'', JStr (log_data l))]))"

definition demo_script :: script where
  "demo_script = \<lparr> sc_env = demo_script_env, sc_process = (\<lambda>k. if k = ''EXT_PROXY_URL'' then Some ''http://proxy/'' else Some ''0xab''),
     sc_zod = demo_zod, sc_viem = demo_viem, sc_noble = demo_noble, sc_decode = demo_script_decode, sc_account = (\<lambda>k. Inr ''0xme''),
     sc_salt = replicate 32 5, sc_ephemeral = replicate 32 1, sc_iv = replicate 16 9, sc_syntax_error = (\<lambda>b. []) \<rparr>"

lemma demo_script_simps:
  "sc_process demo_script = (\<lambda>k. if k = ''EXT_PROXY_URL'' then Some ''http://proxy/'' else Some ''0xab'')"
  "sc_env demo_script = demo_script_env" "sc_decode demo_script = demo_script_decode" "sc_account demo_script = (\<lambda>k. Inr ''0xme'')"
  "sc_zod demo_script = demo_zod" "sc_viem demo_script = demo_viem" "sc_noble demo_script = demo_noble"
  "sc_salt demo_script = replicate 32 5" "sc_iv demo_script = replicate 16 9" "sc_ephemeral demo_script = replicate 32 1"
  by (simp_all add: demo_script_def)

lemma demo_machine_parsed: "json_parse (the (json_text demo_machine)) = Some demo_machine"
proof -
  have "plain demo_machine" by (simp add: demo_machine_def info_response_def)
  with plain_json_text [OF this] json_parse_text [OF this] show ?thesis by auto
qed

lemma demo_machine_key: "\<exists>k. teePublicKeyFromInfo demo_machine = Inr k \<and>
  normalizeTeePublicKey demo_noble (HexStr k) = Inr (getPublicKey demo_noble (replicate 32 2))"
  using normalized_key [of "replicate 32 2" "replicate 32 2" "''0x''" "''0x''" "''machineData''" "[]" demo_noble]
  by (simp add: demo_machine_def demo_noble_def)

lemma demo_noble_valid: "length k = 32 \<Longrightarrow> valid_private demo_noble k"
  by (simp add: demo_noble_def)

lemma demo_seals:
  "\<exists>k ct. machine_key demo_script ''http://proxy/'' t = (Inr k, t @ [Fetched ''http://proxy/info'']) \<and> seal_to demo_script k text = Inr ct"
proof -
  obtain k where k: "teePublicKeyFromInfo demo_machine = Inr k"
    "normalizeTeePublicKey demo_noble (HexStr k) = Inr (getPublicKey demo_noble (replicate 32 2))"
    using demo_machine_key by blast
  have "machine_key demo_script ''http://proxy/'' t = (Inr k, t @ [Fetched ''http://proxy/info''])"
    using k(1) by (simp add: machine_key_def act_bind_def act_prims demo_script_def demo_script_env_def strip_slash_def
        parse_body_def demo_machine_parsed thrown_lift_def)
  moreover have "\<exists>ct. seal_to demo_script k text = Inr ct"
    using decrypt_encrypted [OF demo_noble_documented _ _ _ k(2), of "replicate 32 1" "replicate 16 9" "utf8_bytes text"]
    by (auto simp: seal_to_Inr demo_noble_valid demo_script_def)
  ultimately show ?thesis by blast
qed

lemma demo_check_submits: "\<exists>sent u. check_submit demo_script [] = (Inr (''http://proxy/'', sent), u) \<and> instructionId sent = ''0x77''"
proof -
  obtain c where c: "compile demo_zod demo_viem check_input (salt_text demo_script) = Inr c"
    using check_compiles [OF demo_zod_documented demo_viem_documented salt_text_value, of demo_script] by (auto simp: demo_script_def)
  obtain k ct where k: "machine_key demo_script ''http://proxy/'' [] = (Inr k, [Fetched ''http://proxy/info''])"
    "seal_to demo_script k (plaintext c) = Inr ct"
    using demo_seals [of "[]" "plaintext c"] by auto
  have seal: "check_seal demo_script ''http://proxy/'' [] = (Inr (c, ct), [Fetched ''http://proxy/info''])"
    using c k by (simp add: check_seal_def act_bind_def act_prims compile_lift_def demo_script_simps)
  show ?thesis
    by (simp add: check_submit_def seal act_bind_def act_prims demo_script_simps need_def check_deploy_def Let_def demo_script_env_def demo_env_def
        demo_script_decode_def log_arg_def hex_arg_def deployed_policy_def sendStorePolicy_def send_instruction_def)
qed

section \<open>Properties\<close>

text \<open>C23: What the hand-off check claims when it submits: the three transactions it asked for are the
  factory's deploy, the trigger's configure and the STORE instruction, in that order and
  for one policy; the machine's private key opens the submitted bytes to a JSON text
  with the run's salt and the two recipients with their basis points; and hashing
  exactly those reproduces the commitment the factory was given.\<close>

theorem check_reaches_machine:
  assumes "zod_documented (sc_zod S)" "viem_documented (sc_viem S)" "noble_documented (sc_noble S)"
    and "length (sc_salt S) = 32" "length (sc_iv S) = 16"
    and "valid_private (sc_noble S) (sc_ephemeral S)" "valid_private (sc_noble S) key"
    and "publishes_key S t proxy key"
    and "check_submit S t = (Inr (proxy, sent), t @ u)"
  shows "\<exists>factory fxrp' gate trigger' sender owner policy cm data text cs. written u =
      [check_deploy_call factory fxrp' cm gate trigger', heartbeat_configure_call trigger' policy owner,
       instruction_call sender ''sendStorePolicy'' [JStr policy, JStr (toHex data)]] \<and>
    eciesDecrypt (sc_noble S) (Raw key) (Raw data) = Inr (utf8_bytes text) \<and>
    json_parse text = Some (JObj [(''salt'', JStr (salt_text S)),
      (''shares'', JArr (map (\<lambda>(c, b). JObj [(''recipient'', JStr (''0x'' @ replicate 40 c)), (''shareBps'', JNum (of_int b))])
         [(CHR ''1'', 6000), (CHR ''2'', 4000)]))]) \<and>
    chain_shares [demo_share CHR ''1'' 6000, demo_share CHR ''2'' 4000] = Some cs \<and>
    cm = ''0x'' @ bytes_hex (keccak256 (sc_viem S) (commitment_preimage cs (sc_salt S)))"
proof -
  obtain account sender reply info k c ciphertext factory fxrp' gate trigger' policy h1 h2 where
    r: "env_fetch (sc_env S) t (strip_slash proxy @ ''/info'') = Inr reply"
    "parse_body (sc_syntax_error S) (http_body reply) = Inr info" "teePublicKeyFromInfo info = Inr k"
    and c: "compile (sc_zod S) (sc_viem S) check_input (salt_text S) = Inr c"
    and e: "eciesEncrypt (sc_noble S) (sc_ephemeral S) (sc_iv S) (HexStr k) (utf8_bytes (plaintext c)) = Inr ciphertext"
    and t': "t @ u = t @ [Fetched (strip_slash proxy @ ''/info''),
       Written (check_deploy_call factory fxrp' (commitment (publicArgs c)) gate trigger'), Awaited h1,
       Written (heartbeat_configure_call trigger' policy account), Awaited h2,
       Simulated (instruction_call sender ''sendStorePolicy'' [JStr policy, JStr ciphertext]),
       Written (instruction_call sender ''sendStorePolicy'' [JStr policy, JStr ciphertext]), Awaited (txHash sent)]"
    by (rule check_submit_steps [OF assms(9)])
  from r(2) have "json_parse (http_body reply) = Some info" by (simp add: parse_body_def split: option.splits)
  with assms(8) r(1,3) have "normalizeTeePublicKey (sc_noble S) (HexStr k) = Inr (getPublicKey (sc_noble S) key)"
    unfolding publishes_key_def by blast
  from decrypt_encrypted [OF assms(3,6,7,5) this, of "utf8_bytes (plaintext c)"] e
  obtain data where data: "ciphertext = toHex data"
    "eciesDecrypt (sc_noble S) (Raw key) (Raw data) = Inr (utf8_bytes (plaintext c))" by auto
  have f: "finite_js check_input" using check_facts check_input_ir by simp
  have ir: "ir c = check_ir" using check_compiles [OF assms(1,2) salt_text_value assms(4)] c by auto
  from compiled_facts [OF assms(1,2) f c salt_text_value assms(4)] obtain rs later cs where
    s: "ir_actions (ir c) = SplitTransfer rs # later" "shares (enclaveConfig c) = map (\<lambda>r. (address r, shareBps r)) rs"
    "salt (enclaveConfig c) = salt_text S" "json_parse (plaintext c) = Some (sortKeys (enclave_js (enclaveConfig c)))"
    "chain_shares rs = Some cs"
    "commitment (publicArgs c) = ''0x'' @ bytes_hex (keccak256 (sc_viem S) (commitment_preimage cs (sc_salt S)))"
    by blast
  have rs: "rs = [demo_share CHR ''1'' 6000, demo_share CHR ''2'' 4000]" using s(1) ir by (simp add: check_ir_def)
  have u: "written u = [check_deploy_call factory fxrp' (commitment (publicArgs c)) gate trigger', heartbeat_configure_call trigger' policy account,
      instruction_call sender ''sendStorePolicy'' [JStr policy, JStr (toHex data)]]"
    using t' data(1) by simp
  have json: "json_parse (plaintext c) = Some (JObj [(''salt'', JStr (salt_text S)),
      (''shares'', JArr (map (\<lambda>(c, b). JObj [(''recipient'', JStr (''0x'' @ replicate 40 c)), (''shareBps'', JNum (of_int b))])
         [(CHR ''1'', 6000), (CHR ''2'', 4000)]))])"
    unfolding s(4) enclave_sorted s(2,3) rs demo_share_def by simp
  have cs: "chain_shares [demo_share CHR ''1'' 6000, demo_share CHR ''2'' 4000] = Some cs" using s(5) unfolding rs .
  show ?thesis by (intro exI conjI) (rule u, rule data(2), rule json, rule cs, rule s(6))
qed

lemma check_reaches_machine_witness:
  "\<exists>sent u cm data text. check_submit demo_script [] = (Inr (''http://proxy/'', sent), [] @ u) \<and>
     eciesDecrypt demo_noble (Raw (replicate 32 2)) (Raw data) = Inr (utf8_bytes text) \<and> length (written u) = 3 \<and>
     (\<exists>cs. cm = ''0x'' @ bytes_hex (keccak256 demo_viem (commitment_preimage cs (replicate 32 5))))"
proof -
  obtain sent u where r: "check_submit demo_script [] = (Inr (''http://proxy/'', sent), [] @ u)" using demo_check_submits by auto
  have key: "publishes_key demo_script [] ''http://proxy/'' (replicate 32 2)"
    using demo_machine_key by (auto simp: publishes_key_def demo_script_simps demo_script_env_def strip_slash_def demo_machine_parsed)
  from check_reaches_machine [of demo_script "replicate 32 2" "[]" "''http://proxy/''" sent u, unfolded demo_script_simps,
      OF demo_zod_documented demo_viem_documented demo_noble_documented length_replicate length_replicate
        demo_noble_valid [OF length_replicate] demo_noble_valid [OF length_replicate] key r]
  obtain factory fxrp' gate trigger' sender owner policy cm data pt cs where
    "written u = [check_deploy_call factory fxrp' cm gate trigger', heartbeat_configure_call trigger' policy owner,
       instruction_call sender ''sendStorePolicy'' [JStr policy, JStr (toHex data)]]"
    "eciesDecrypt demo_noble (Raw (replicate 32 2)) (Raw data) = Inr (utf8_bytes pt)"
    "cm = ''0x'' @ bytes_hex (keccak256 demo_viem (commitment_preimage cs (replicate 32 5)))"
    by (elim exE conjE) (rule that; assumption)
  with r show ?thesis by (intro exI [of _ sent] exI [of _ u] exI [of _ cm] exI [of _ data] exI [of _ pt]) auto
qed

text \<open>The hand-off check always ends (clock advancing), with the enclave's payload or an
  exception: it has the payload only when the proxy answered for the instruction of the
  receipt, with status 1 and a JSON text as its data.\<close>

theorem check_main_ends:
  assumes "clock_advances (sc_env S)"
  shows "\<exists>r t'. check_main S t = Some (r, t') \<and>
    (\<forall>data. r = Inr data \<longrightarrow> (\<exists>proxy sent t1 u reply response result.
       check_submit S t = (Inr (proxy, sent), t1) \<and>
       env_fetch (sc_env S) u (strip_slash proxy @ ''/action/result/'' @ instructionId sent) = Inr reply \<and> http_ok reply \<and>
       json_parse (http_body reply) = Some response \<and> prop_of response ''result'' = result \<and>
       prop_of result ''status'' = JNum 1))"
proof (cases "check_submit S t")
  case (Pair r1 t1)
  show ?thesis
  proof (cases r1)
    case (Inl e)
    with Pair show ?thesis by (simp add: check_main_def)
  next
    case (Inr a)
    obtain proxy sent where a: "a = (proxy, sent)" by fastforce
    let ?poll = "pollActionResult (sc_env S) (sc_syntax_error S) proxy (instructionId sent) 240000 2000 t1"
    obtain r2 t2 where poll: "?poll = Some (r2, t2)" using pollActionResult_total [OF assms] by (metis zero_less_numeral)
    have "check_main S t = Some (and_then r2 decodeActionData, t2)"
      using Pair Inr a poll by (simp add: check_main_def)
    moreover have "\<exists>u reply. env_fetch (sc_env S) u (strip_slash proxy @ ''/action/result/'' @ instructionId sent) = Inr reply \<and>
        http_ok reply \<and> json_parse (http_body reply) = Some response" if "r2 = Inr response" for response
      using pollActionResult_answer [OF assms _ poll [unfolded that]] by simp
    moreover have "prop_of (prop_of response ''result'') ''status'' = JNum 1" if "decodeActionData response = Inr data" for response data
      using decodeActionData_status [OF that] .
    ultimately show ?thesis using Pair Inr a by (auto simp: and_then_Inr_iff) blast
  qed
qed

lemma check_main_ends_witness:
  "\<exists>r t'. check_main demo_script [] = Some (r, t')"
proof -
  have "clock_advances (sc_env demo_script)"
    using demo_clock_advances by (simp add: clock_advances_def demo_script_def demo_script_env_def)
  from check_main_ends [OF this, of "[]"] show ?thesis by blast
qed

end
