(* ===== verification/Policies.thy ===== *)
theory Policies
  imports Vault
begin

text \<open>
  Reading the policies of an owner (apps/web/lib/policies.ts): the factory's events and
  the browser's vault merged, each policy read from the chain. The reads of one
  \<open>Promise.all\<close> are all made, in order, before the first failure counts.
\<close>

section \<open>One policy\<close>

record policy_summary =
  s_address :: jsv
  s_name :: "jsv option"
  s_status :: jsv
  s_balance :: jsv
  s_trigger :: jsv
  s_triggerKind :: jsv
  s_deadline :: "jsv option"
  s_commitment :: jsv
  s_hasPrivateHalf :: bool

text \<open>\<open>Number(v)\<close> of a bigint or a number, as the clients return them.\<close>

definition js_Number :: "jsv \<Rightarrow> jsv" where
  "js_Number v = (case v of JBig i \<Rightarrow> JNum (of_int i) | JNum r \<Rightarrow> JNum r | _ \<Rightarrow> JNonFinite False)"

fun read_each :: "env \<Rightarrow> string \<Rightarrow> string list \<Rightarrow> event list \<Rightarrow> (thrown + jsv) list \<times> event list" where
  "read_each E a [] t = ([], t)"
| "read_each E a (f # fs) t =
     (case readContract E a f [] t of (r, t1) \<Rightarrow> case read_each E a fs t1 of (rs, t2) \<Rightarrow> (r # rs, t2))"

fun collect :: "(thrown + jsv) list \<Rightarrow> thrown + jsv list" where
  "collect [] = Inr []"
| "collect (r # rs) = and_then r (\<lambda>v. and_then (collect rs) (\<lambda>vs. Inr (v # vs)))"

definition read_all :: "env \<Rightarrow> string \<Rightarrow> string list \<Rightarrow> jsv list act" where
  "read_all E a fs t = (case read_each E a fs t of (rs, t') \<Rightarrow> (collect rs, t'))"

definition readDeadline :: "env \<Rightarrow> string \<Rightarrow> jsv \<Rightarrow> string \<Rightarrow> jsv option act" where
  "readDeadline E trigger' kind policy =
     act_catch
       (if kind = JStr ''manual-heartbeat'' then
          act_bind (readContract E trigger' ''deadlineOf'' [JStr policy]) (\<lambda>deadline. act_return (Some (js_Number deadline)))
        else if kind = JStr ''timestamp'' then
          act_bind (readContract E trigger' ''executeAfter'' [JStr policy]) (\<lambda>target. act_return (Some (js_Number target)))
        else act_return None)
       (\<lambda>_. act_return None)"

text \<open>\<open>getEntry(p)\<close> inside an asynchronous function.\<close>

definition get_entry :: "env \<Rightarrow> string \<Rightarrow> jsv option act" where
  "get_entry E p t = (getEntry E p t, t)"

definition readPolicy :: "env \<Rightarrow> string \<Rightarrow> policy_summary act" where
  "readPolicy E address' =
     act_bind (read_all E address' [''status'', ''balance'', ''commitment'', ''trigger'']) (\<lambda>vs.
     (let status = vs ! 0; balance = vs ! 1; commitment' = vs ! 2; trigger' = vs ! 3 in
      act_bind (act_catch (readContract E (js_text trigger') ''kind'' []) (\<lambda>_. act_return (JStr ''unknown''))) (\<lambda>triggerKind.
      act_bind (get_entry E address') (\<lambda>entry.
      act_bind (readDeadline E (js_text trigger') triggerKind address') (\<lambda>deadline.
      act_return
        \<lparr> s_address = JStr address',
          s_name = (case entry of None \<Rightarrow> None | Some e \<Rightarrow> if truthy (prop_of e ''name'') then Some (prop_of e ''name'') else None),
          s_status = js_Number status, s_balance = balance, s_trigger = trigger', s_triggerKind = triggerKind,
          s_deadline = deadline, s_commitment = commitment', s_hasPrivateHalf = (entry \<noteq> None) \<rparr>)))))"

definition readHeartbeatConfig :: "env \<Rightarrow> string \<Rightarrow> string \<Rightarrow> (jsv \<times> jsv \<times> jsv \<times> jsv) option act" where
  "readHeartbeatConfig E trigger' policy =
     act_catch
       (act_bind (readContract E trigger' ''configs'' [JStr policy]) (\<lambda>r.
        case r of
          JArr [owner, interval, deadline, demoMode] \<Rightarrow>
            act_return (Some (owner, js_Number interval, js_Number deadline, demoMode))
        | _ \<Rightarrow> act_throw (new_error ''object is not iterable'')))
       (\<lambda>_. act_return None)"

section \<open>All policies\<close>

text \<open>Adding to a \<open>Set\<close>, which keeps the order of first insertion.\<close>

definition set_add :: "'a list \<Rightarrow> 'a \<Rightarrow> 'a list" where
  "set_add xs x = (if x \<in> set xs then xs else xs @ [x])"

definition log_policies :: "jsv list \<Rightarrow> string list" where
  "log_policies logs = map js_text (filter truthy (map (\<lambda>args. prop_of args ''policy'') logs))"

definition deployedAt :: "env \<Rightarrow> string \<Rightarrow> event list \<Rightarrow> jsv" where
  "deployedAt E policy t =
     (case getEntry E policy t of
        Inr (Some e) \<Rightarrow> nullish_or (prop_of e ''deployedAt'') (JNum 0)
      | _ \<Rightarrow> JNum 0)"

fun read_policies :: "env \<Rightarrow> string list \<Rightarrow> event list \<Rightarrow> (thrown + policy_summary) list \<times> event list" where
  "read_policies E [] t = ([], t)"
| "read_policies E (a # as) t =
     (case readPolicy E a t of (r, t1) \<Rightarrow> case read_policies E as t1 of (rs, t2) \<Rightarrow> (r # rs, t2))"

definition older :: "env \<Rightarrow> event list \<Rightarrow> policy_summary \<Rightarrow> policy_summary \<Rightarrow> bool" where
  "older E t a b =
     (case (deployedAt E (js_text (s_address a)) t, deployedAt E (js_text (s_address b)) t) of
        (JNum x, JNum y) \<Rightarrow> x < y
      | _ \<Rightarrow> False)"

fun insert_summary :: "env \<Rightarrow> event list \<Rightarrow> policy_summary \<Rightarrow> policy_summary list \<Rightarrow> policy_summary list" where
  "insert_summary E t s [] = [s]"
| "insert_summary E t s (x # xs) = (if older E t s x then x # insert_summary E t s xs else s # x # xs)"

text \<open>A build whose deploy block is no integer has no page to call this: its modules do not load.\<close>

definition listPolicies :: "env \<Rightarrow> process_env \<Rightarrow> string \<Rightarrow> policy_summary list act" where
  "listPolicies E P owner t =
     (case (allEntries E coston2_id t, FACTORY_DEPLOY_BLOCK P) of
        (Inl e, _) \<Rightarrow> (Inl e, t)
      | (Inr _, None) \<Rightarrow> (Inl (new_error ''Cannot convert the deploy block to a BigInt''), t)
      | (Inr entries, Some fromBlock) \<Rightarrow>
          (let known = foldl set_add [] (map (\<lambda>e. js_text (prop_of e ''policy'')) entries) in
           case getLogs E (policyFactory (ADDRESSES P)) owner fromBlock t of
             (logs, t1) \<Rightarrow>
               (let addresses = foldl set_add known (case logs of Inr ls \<Rightarrow> log_policies ls | Inl _ \<Rightarrow> []) in
                case read_policies E addresses t1 of
                  (rs, t2) \<Rightarrow>
                    (Inr (foldr (insert_summary E t2) (List.map_filter (\<lambda>r. case r of Inr s \<Rightarrow> Some s | Inl _ \<Rightarrow> None) rs) []), t2))))"

section \<open>Lemmas\<close>

text \<open>A chain whose state does not change while the page is read.\<close>

definition steady :: "env \<Rightarrow> bool" where
  "steady E \<longleftrightarrow> (\<exists>R. env_read E = (\<lambda>t. R))"

definition only_reads :: "event list \<Rightarrow> bool" where
  "only_reads u = list_all (\<lambda>e. case e of ReadContract _ _ _ \<Rightarrow> True | _ \<Rightarrow> False) u"

lemma only_reads_simps [simp]: "only_reads []" "only_reads (u @ w) \<longleftrightarrow> only_reads u \<and> only_reads w"
  "only_reads (ReadContract a f as # u) = only_reads u"
  by (simp_all add: only_reads_def)

lemma only_reads_storage: "only_reads u \<Longrightarrow> keeps_storage u"
  by (induction u) (auto simp: only_reads_def keeps_storage_def split: event.splits)

text \<open>What a read makes: only reads of contracts, and the same answer at any moment.\<close>

definition reading :: "env \<Rightarrow> 'a act \<Rightarrow> bool" where
  "reading E m \<longleftrightarrow> (\<forall>t. \<exists>u. snd (m t) = t @ u \<and> only_reads u) \<and> (\<forall>t u. keeps_storage u \<longrightarrow> fst (m (t @ u)) = fst (m t))"

lemma reading_bind:
  assumes "reading E m" "\<And>a. reading E (f a)"
  shows "reading E (act_bind m f)"
proof -
  have step: "\<exists>u. snd (act_bind m f t) = t @ u \<and> only_reads u" for t
  proof -
    obtain u where u: "snd (m t) = t @ u" "only_reads u" using assms(1) unfolding reading_def by blast
    show ?thesis
    proof (cases "fst (m t)")
      case (Inl e)
      with u show ?thesis by (cases "m t") (auto simp: act_bind_def)
    next
      case (Inr a)
      obtain v where "snd (f a (t @ u)) = (t @ u) @ v" "only_reads v" using assms(2) [of a] unfolding reading_def by blast
      with u Inr show ?thesis by (cases "m t") (auto simp: act_bind_def)
    qed
  qed
  have same: "fst (act_bind m f (t @ u)) = fst (act_bind m f t)" if k: "keeps_storage u" for t u
  proof -
    have m: "fst (m (t @ u)) = fst (m t)" using assms(1) k unfolding reading_def by blast
    obtain v where v: "snd (m t) = t @ v" "only_reads v" using assms(1) unfolding reading_def by blast
    obtain w where w: "snd (m (t @ u)) = (t @ u) @ w" "only_reads w" using assms(1) unfolding reading_def by blast
    have "fst (f a (t @ (u @ w))) = fst (f a (t @ v))" for a
    proof -
      have "keeps_storage (u @ w)" "keeps_storage v" using k only_reads_storage v(2) w(2) by (auto simp: keeps_storage_def)
      then show ?thesis using assms(2) [of a] unfolding reading_def by metis
    qed
    with m v(1) w(1) show ?thesis by (cases "m t"; cases "m (t @ u)") (auto simp: act_bind_def split: sum.split)
  qed
  show ?thesis unfolding reading_def using step same by blast
qed

lemma reading_return: "reading E (act_return a)" "reading E (act_throw e)"
  by (simp_all add: reading_def act_return_def act_throw_def)

lemma reading_catch:
  assumes "reading E m" "\<And>e. reading E (h e)"
  shows "reading E (act_catch m h)"
proof -
  define f where "f = (\<lambda>r. case r of Inl e \<Rightarrow> h e | Inr a \<Rightarrow> act_return a)"
  have m: "reading E (\<lambda>t. case m t of (r, t') \<Rightarrow> (Inr r, t'))"
    using assms(1) unfolding reading_def by (simp add: case_prod_beta)
  have f: "reading E (f r)" for r
    using assms(2) reading_return(1) by (cases r) (simp_all add: f_def)
  have "act_catch m h = act_bind (\<lambda>t. case m t of (r, t') \<Rightarrow> (Inr r, t')) f"
    by (auto simp: act_catch_def act_bind_def f_def act_return_def fun_eq_iff split: prod.split sum.split)
  with reading_bind [OF m f] show ?thesis by simp
qed

lemma reading_contract: "steady E \<Longrightarrow> reading E (readContract E a f args)"
  by (auto simp: reading_def steady_def readContract_def)

lemma reading_each:
  assumes "steady E"
  shows "(\<exists>u. snd (read_each E a fs t) = t @ u \<and> only_reads u) \<and> fst (read_each E a fs t) = fst (read_each E a fs [])"
proof -
  obtain R where R: "env_read E = (\<lambda>t. R)" using assms by (auto simp: steady_def)
  have "read_each E a fs t = (map (\<lambda>f. R a f []) fs, t @ map (\<lambda>f. ReadContract a f []) fs)" for t
    by (induction fs arbitrary: t) (simp_all add: readContract_def R)
  moreover have "only_reads (map (\<lambda>f. ReadContract a f []) fs)" by (induction fs) simp_all
  ultimately show ?thesis by simp
qed

lemma reading_all: "steady E \<Longrightarrow> reading E (read_all E a fs)"
  unfolding reading_def read_all_def case_prod_beta
  using reading_each [of E a fs] by (metis fst_conv snd_conv)

lemma reading_entry: "reading E (get_entry E p)"
  by (auto simp: reading_def get_entry_def getEntry_def keeps_storage_read)

lemma reading_policy: "steady E \<Longrightarrow> reading E (readPolicy E a)"
  unfolding readPolicy_def readDeadline_def Let_def
  by (intro reading_bind reading_catch reading_all reading_entry reading_contract reading_return)
    (auto intro!: reading_bind reading_return reading_contract)

lemma readPolicy_address: "fst (readPolicy E a t) = Inr s \<Longrightarrow> s_address s = JStr a"
  by (cases "readPolicy E a t") (auto simp: readPolicy_def Let_def act_bind_Inr act_return_def)

lemma read_policies_steady:
  assumes "steady E" "keeps_storage w"
  shows "fst (read_policies E as (t @ w)) = map (\<lambda>a. fst (readPolicy E a t)) as \<and>
    (\<exists>u. snd (read_policies E as (t @ w)) = t @ w @ u \<and> only_reads u)"
  using assms(2)
proof (induction as arbitrary: w)
  case (Cons a as)
  obtain u where u: "snd (readPolicy E a (t @ w)) = (t @ w) @ u" "only_reads u" "fst (readPolicy E a (t @ w)) = fst (readPolicy E a t)"
    using reading_policy [OF assms(1), of a] Cons.prems unfolding reading_def by metis
  have "keeps_storage (w @ u)" using Cons.prems u(2) only_reads_storage by (auto simp: keeps_storage_def)
  from Cons.IH [OF this] u show ?case
    by (cases "readPolicy E a (t @ w)") (auto simp: case_prod_beta)
qed simp

lemma set_foldl_add: "set (foldl set_add xs ys) = set xs \<union> set ys"
  by (induction ys arbitrary: xs) (auto simp: set_add_def)

lemma distinct_foldl_add: "distinct xs \<Longrightarrow> distinct (foldl set_add xs ys)"
  by (induction ys arbitrary: xs) (auto simp: set_add_def)

lemma mset_insert_summary: "mset (foldr (insert_summary E t) ss []) = mset ss"
proof -
  have one: "mset (insert_summary E t s xs) = add_mset s (mset xs)" for s xs
    by (induction xs) auto
  show ?thesis by (induction ss) (simp_all add: one)
qed

text \<open>Newest first, when every policy's deployment time is a number (0 for one the vault does not know).\<close>

definition timed :: "env \<Rightarrow> event list \<Rightarrow> bool" where
  "timed E t \<longleftrightarrow> (\<forall>p. \<exists>x. deployedAt E p t = JNum x)"

definition time_of :: "env \<Rightarrow> event list \<Rightarrow> policy_summary \<Rightarrow> rat" where
  "time_of E t s = (case deployedAt E (js_text (s_address s)) t of JNum x \<Rightarrow> x | _ \<Rightarrow> 0)"

lemma older_time: "timed E t \<Longrightarrow> older E t a b \<longleftrightarrow> time_of E t a < time_of E t b"
proof -
  assume "timed E t"
  then obtain x y where "deployedAt E (js_text (s_address a)) t = JNum x" "deployedAt E (js_text (s_address b)) t = JNum y"
    unfolding timed_def by meson
  then show ?thesis by (simp add: older_def time_of_def)
qed

lemma sorted_insert_summary:
  assumes "timed E t"
  shows "sorted_wrt (\<lambda>a b. time_of E t b \<le> time_of E t a) (foldr (insert_summary E t) ss [])"
proof -
  let ?R = "\<lambda>a b. time_of E t b \<le> time_of E t a"
  have elems: "set (insert_summary E t s xs) = insert s (set xs)" for s xs
    by (induction xs) auto
  have "sorted_wrt ?R xs \<Longrightarrow> sorted_wrt ?R (insert_summary E t s xs)" for s xs
    by (induction xs) (auto simp: older_time [OF assms] elems intro: order_trans)
  then show ?thesis by (induction ss) auto
qed

section \<open>Properties\<close>

text \<open>Listing an owner's policies merges the vault and the factory's events: it shows each
  policy that either knows and that can be read, once, and no other; when the events
  cannot be had it still shows those of the vault, and a policy that cannot be read
  does not hide the rest. Newest first, and nothing is written.\<close>

theorem listing_complete:
  assumes "steady E" "allEntries E coston2_id t = Inr entries" "timed E t" "FACTORY_DEPLOY_BLOCK P = Some b"
  shows "\<exists>ss u. listPolicies E P owner t = (Inr ss, t @ u) \<and>
    s_address ` set ss = JStr ` {a. (a \<in> set (map (\<lambda>e. js_text (prop_of e ''policy'')) entries) \<or>
        (\<exists>ls. env_logs E t (policyFactory (ADDRESSES P)) owner b = Inr ls \<and> a \<in> set (log_policies ls))) \<and>
      (\<exists>s. fst (readPolicy E a t) = Inr s)} \<and>
    distinct (map s_address ss) \<and> sorted_wrt (\<lambda>a b. time_of E t b \<le> time_of E t a) ss \<and>
    (\<forall>e \<in> set u. case e of ReadContract _ _ _ \<Rightarrow> True | GotLogs _ _ start \<Rightarrow> start = b | _ \<Rightarrow> False)"
proof -
  define known where "known = foldl set_add [] (map (\<lambda>e. js_text (prop_of e ''policy'')) entries)"
  define addrs where "addrs = foldl set_add known
    (case env_logs E t (policyFactory (ADDRESSES P)) owner b of Inr ls \<Rightarrow> log_policies ls | Inl _ \<Rightarrow> [])"
  let ?ev = "GotLogs (policyFactory (ADDRESSES P)) owner b" and ?read = "\<lambda>a. fst (readPolicy E a t)"
  define found where "found = List.map_filter (\<lambda>r. case r of Inr s \<Rightarrow> Some s | Inl _ \<Rightarrow> None) (map ?read addrs)"
  obtain u where u: "read_policies E addrs (t @ [?ev]) = (map ?read addrs, t @ [?ev] @ u)" "only_reads u"
    using read_policies_steady [OF assms(1), of "[?ev]" addrs t] by (cases "read_policies E addrs (t @ [?ev])") (auto simp: keeps_storage_def)
  have k: "keeps_storage (?ev # u)" using only_reads_storage [OF u(2)] by (simp add: keeps_storage_def)
  define ss where "ss = foldr (insert_summary E (t @ ?ev # u)) found []"
  have run: "listPolicies E P owner t = (Inr ss, t @ ?ev # u)"
    using u(1) assms(2,4) by (simp add: listPolicies_def getLogs_def Let_def known_def [symmetric] addrs_def [symmetric] found_def ss_def)
  have same: "deployedAt E p (t @ ?ev # u) = deployedAt E p t" for p
    using k by (simp add: deployedAt_def getEntry_def keeps_storage_read)
  then have "timed E (t @ ?ev # u)" "time_of E (t @ ?ev # u) = time_of E t"
    using assms(3) by (auto simp: timed_def time_of_def fun_eq_iff)
  then have sorted: "sorted_wrt (\<lambda>a b. time_of E t b \<le> time_of E t a) ss"
    using sorted_insert_summary [of E "t @ ?ev # u" found] by (simp add: ss_def)
  have ss: "mset ss = mset found" by (simp add: ss_def mset_insert_summary)
  have addresses: "map s_address found = map JStr (filter (\<lambda>a. \<exists>s. ?read a = Inr s) addrs)"
    unfolding found_def by (induction addrs) (auto simp: List.map_filter_simps readPolicy_address split: sum.split)
  have "distinct (map s_address found)"
    unfolding addresses by (simp add: addrs_def known_def distinct_foldl_add distinct_map inj_on_def)
  moreover have "mset (map s_address ss) = mset (map s_address found)" using ss by simp
  ultimately have "distinct (map s_address ss)" using mset_eq_imp_distinct_iff by blast
  moreover have "s_address ` set ss = JStr ` {a \<in> set addrs. \<exists>s. ?read a = Inr s}"
    using arg_cong [OF addresses, of set] mset_eq_setD [OF ss] by simp
  moreover have "set addrs = set (map (\<lambda>e. js_text (prop_of e ''policy'')) entries) \<union>
      {a. \<exists>ls. env_logs E t (policyFactory (ADDRESSES P)) owner b = Inr ls \<and> a \<in> set (log_policies ls)}"
    by (auto simp: addrs_def known_def set_foldl_add split: sum.split)
  moreover have "\<forall>e \<in> set (?ev # u). case e of ReadContract _ _ _ \<Rightarrow> True | GotLogs _ _ start \<Rightarrow> start = b | _ \<Rightarrow> False"
    using u(2) by (auto simp: only_reads_def list_all_iff split: event.splits)
  ultimately show ?thesis
    using run sorted by (intro exI [of _ ss] exI [of _ "?ev # u"]) (auto simp: image_iff)
qed

lemma listing_complete_witness:
  "\<exists>ss u. listPolicies demo_browser (\<lambda>k. None) ''0xme'' [] = (Inr ss, u) \<and> ss = []"
proof -
  have "steady demo_browser" by (auto simp: steady_def demo_browser_def)
  moreover have "allEntries demo_browser coston2_id [] = Inr []" by (simp add: allEntries_def)
  moreover have "timed demo_browser []" by (simp add: timed_def deployedAt_def getEntry_def)
  ultimately show ?thesis
    using listing_complete [of demo_browser "[]" "[]" "\<lambda>k. None" 0 "''0xme''"]
    by (auto simp: demo_browser_def log_policies_def)
qed

end
