(* ===== verification/Demo.thy ===== *)
theory Demo
  imports Scripts Policies
begin

text \<open>
  The end-to-end run (apps/orchestrator/scripts/demo.ts): the numbered parts of
  \<open>main\<close>, each an act, and the assertions between them as exceptions. Printing is left
  out; \<open>fmt\<close> is viem's \<open>formatUnits\<close>, which only error texts use.
\<close>

section \<open>Harness\<close>

definition assert_that :: "bool \<Rightarrow> string \<Rightarrow> thrown + unit" where
  "assert_that condition claim = (if \<not> condition then Inl (new_error (''FAILED: '' @ claim)) else Inr ())"

definition required :: "process_env \<Rightarrow> string \<Rightarrow> thrown + string" where
  "required P variable =
     (let missing = new_error (variable @ '' is not set. See the header of this script for the full list -- '' @
        ''the addresses come from packages/contracts/deployments/coston2.json and '' @
        ''apps/extension/config/extension.env.'')
      in case P variable of None \<Rightarrow> Inl missing | Some v \<Rightarrow> if v = [] then Inl missing else Inr v)"

definition confirm :: "env \<Rightarrow> string \<Rightarrow> unit act" where
  "confirm E hash =
     act_bind (waitForTransactionReceipt E hash) (\<lambda>receipt.
     if receipt_status receipt \<noteq> ''success'' then act_throw (new_error (''transaction reverted: '' @ hash)) else act_return ())"

text \<open>\<open>await confirm(pub, await wallet.writeContract(...))\<close>.\<close>

definition confirmed :: "env \<Rightarrow> contract_call \<Rightarrow> unit act" where
  "confirmed E call = act_bind (writeContract E call) (confirm E)"

definition call :: "string \<Rightarrow> string \<Rightarrow> jsv list \<Rightarrow> contract_call" where
  "call a f args = \<lparr> call_to = a, call_fn = f, call_args = args, call_value = 0 \<rparr>"

text \<open>A read whose output the ABI types as a wide integer; viem returns a bigint.\<close>

definition big_of :: "jsv \<Rightarrow> thrown + int" where
  "big_of v = (case v of JBig i \<Rightarrow> Inr i | _ \<Rightarrow> Inl (new_error ''not a bigint''))"

definition read_big :: "env \<Rightarrow> string \<Rightarrow> string \<Rightarrow> jsv list \<Rightarrow> int act" where
  "read_big E a f args = act_bind (readContract E a f args) (\<lambda>v. act_lift (big_of v))"

section \<open>The policy of the run\<close>

definition demo_recipients :: "share list" where
  "demo_recipients =
     [\<lparr> address = ''0x'' @ replicate 40 CHR ''1'', shareBps = 6001, label = Some ''A'' \<rparr>,
      \<lparr> address = ''0x'' @ replicate 40 CHR ''2'', shareBps = 3999, label = Some ''B'' \<rparr>]"

definition demo_input :: jsv where
  "demo_input = JObj
     [(''version'', JNum 1), (''name'', JStr ''Demo policy''), (''asset'', JStr ''FXRP''),
      (''trigger'', JObj [(''kind'', JStr ''manualHeartbeat''), (''intervalSeconds'', JNum 3600), (''demoMode'', JBool True)]),
      (''conditions'', JArr []),
      (''actions'', JArr [JObj [(''kind'', JStr ''splitTransfer''), (''recipients'', JArr (map share_js demo_recipients))]])]"

definition public_js :: "public_args \<Rightarrow> jsv" where
  "public_js p = JObj [(''assetSymbol'', JStr (assetSymbol p)), (''commitment'', JStr (commitment p)),
     (''trigger'', trigger_js (pub_trigger p)), (''conditions'', JArr (map condition_js (pub_conditions p)))]"

definition demo_compile :: "script \<Rightarrow> thrown + compiled_policy" where
  "demo_compile S =
     and_then (compile_lift (compile (sc_zod S) (sc_viem S) demo_input (salt_text S))) (\<lambda>compiled.
     and_then (assert_that
         (case json_text (public_js (publicArgs compiled)) of None \<Rightarrow> True
          | Some t \<Rightarrow> \<not> sublist (replicate 40 CHR ''1'') (lower_case t))
         ''no recipient address appears anywhere in the public half'') (\<lambda>_.
     Inr compiled))"

text \<open>\<open>/^0x04[0-9a-f]{128}$/\<close>.\<close>

definition re_machine_key :: "string \<Rightarrow> bool" where
  "re_machine_key s \<longleftrightarrow> starts_with ''0x04'' s \<and> length s = 132 \<and> list_all (\<lambda>c. is_hex c \<and> to_lower c = c) (drop 4 s)"

definition demo_seal :: "script \<Rightarrow> string \<Rightarrow> string \<Rightarrow> string act" where
  "demo_seal S extProxyUrl pt =
     act_bind (machine_key S extProxyUrl) (\<lambda>teeKey.
     act_bind (act_lift (assert_that (re_machine_key teeKey) ''the proxy reports a usable machine public key'')) (\<lambda>_.
     act_lift (seal_to S teeKey pt)))"

section \<open>The run, up to the armed policy\<close>

record demo_setup =
  d_account :: string
  d_proxy :: string
  d_sender :: string
  d_factory :: string
  d_gate :: string
  d_trigger :: string
  d_fxrp :: string
  d_asset :: asset_lookup

definition demo_environment :: "script \<Rightarrow> thrown + demo_setup" where
  "demo_environment S =
     (let P = sc_process S in
      and_then (required P ''DEPLOYER_PRIVATE_KEY'') (\<lambda>key.
      and_then (sc_account S key) (\<lambda>account.
      and_then (required P ''EXT_PROXY_URL'') (\<lambda>extProxyUrl.
      and_then (required P ''INSTRUCTION_SENDER'') (\<lambda>instructionSender.
      and_then (required P ''POLICY_FACTORY'') (\<lambda>factory.
      and_then (required P ''TEE_ATTESTOR_GATE'') (\<lambda>attestorGate.
      and_then (required P ''HEARTBEAT_TRIGGER'') (\<lambda>heartbeatTrigger.
      and_then (required P ''FXRP'') (\<lambda>fxrp'.
      and_then (thrown_lift (getAsset ''FXRP'')) (\<lambda>asset.
      Inr \<lparr> d_account = account, d_proxy = extProxyUrl, d_sender = instructionSender, d_factory = factory,
            d_gate = attestorGate, d_trigger = heartbeatTrigger, d_fxrp = fxrp', d_asset = asset \<rparr>))))))))))"

definition demo_deploy :: "script \<Rightarrow> demo_setup \<Rightarrow> string \<Rightarrow> string act" where
  "demo_deploy S d comm =
     (let E = sc_env S in
      act_bind (writeContract E (check_deploy_call (d_factory d) (d_fxrp d) comm (d_gate d) (d_trigger d))) (\<lambda>deployHash.
      act_bind (waitForTransactionReceipt E deployHash) (\<lambda>receipt.
      act_bind (act_lift (assert_that (receipt_status receipt = ''success'') ''the factory deployed a policy clone'')) (\<lambda>_.
      act_bind (act_lift (deployed_policy ''PolicyDeployed was not in the receipt''
          (last_policy (sc_decode S) demo_factoryAbi None (receipt_logs receipt)))) (\<lambda>policy.
      act_bind (confirmed E (heartbeat_configure_call (d_trigger d) policy (d_account d))) (\<lambda>_.
      act_return policy))))))"

text \<open>\<open>parseUnits('1', asset.decimals)\<close>, as viem documents it.\<close>

definition funding_of :: "asset_lookup \<Rightarrow> thrown + int" where
  "funding_of l = (case l of Asset a \<Rightarrow> Inr (10 ^ nat (decimals a)) | Inherited _ \<Rightarrow> Inl (new_error ''no decimals''))"

definition demo_fund :: "script \<Rightarrow> (int \<Rightarrow> asset_lookup \<Rightarrow> string) \<Rightarrow> demo_setup \<Rightarrow> string \<Rightarrow> int act" where
  "demo_fund S fmt d policy =
     (let E = sc_env S in
      act_bind (act_lift (funding_of (d_asset d))) (\<lambda>funding.
      act_bind (read_big E (d_fxrp d) ''balanceOf'' [JStr (d_account d)]) (\<lambda>walletBalance.
      if walletBalance < funding then
        act_throw (new_error (''deployer holds '' @ fmt walletBalance (d_asset d) @ '' FXRP, needs at least 1. '' @
          ''Mint some at https://faucet.flare.network/coston2 and swap, or lower `funding` here.''))
      else
        act_bind (confirmed E (call (d_fxrp d) ''approve'' [JStr policy, JBig funding])) (\<lambda>_.
        act_bind (confirmed E (call policy ''deposit'' [JBig funding])) (\<lambda>_.
        act_bind (readContract E policy ''balance'' []) (\<lambda>deposited.
        act_bind (act_lift (assert_that (deposited = JBig funding) (''the policy holds '' @ fmt funding (d_asset d) @ '' FXRP''))) (\<lambda>_.
        act_return funding)))))))"

definition demo_check_in :: "script \<Rightarrow> demo_setup \<Rightarrow> string \<Rightarrow> unit act" where
  "demo_check_in S d policy =
     (let E = sc_env S; trigger' = d_trigger d in
      act_bind (read_big E trigger' ''deadlineOf'' [JStr policy]) (\<lambda>before.
      act_bind (confirmed E (call trigger' ''heartbeat'' [JStr policy])) (\<lambda>_.
      act_bind (read_big E trigger' ''deadlineOf'' [JStr policy]) (\<lambda>after.
      act_bind (act_lift (assert_that (after > before) ''a check-in pushes the deadline out'')) (\<lambda>_.
      act_bind (confirmed E (call trigger' ''simulateInactivity'' [JStr policy])) (\<lambda>_.
      act_bind (confirmed E (call policy ''arm'' [JStr ''0x''])) (\<lambda>_.
      act_bind (readContract E policy ''status'' []) (\<lambda>status.
      act_lift (assert_that (status = JNum 1) ''the missed deadline armed the policy'')))))))))"

definition demo_arm :: "script \<Rightarrow> (int \<Rightarrow> asset_lookup \<Rightarrow> string) \<Rightarrow> (demo_setup \<times> compiled_policy \<times> string \<times> int) act" where
  "demo_arm S fmt =
     act_bind (act_lift (demo_environment S)) (\<lambda>d.
     act_bind (act_lift (demo_compile S)) (\<lambda>compiled.
     act_bind (demo_seal S (d_proxy d) (plaintext compiled)) (\<lambda>ciphertext.
     act_bind (demo_deploy S d (commitment (publicArgs compiled))) (\<lambda>policy.
     act_bind (demo_fund S fmt d policy) (\<lambda>funding.
     act_bind (sendStorePolicy (sc_env S) (sc_decode S) (Some (d_account d)) (d_sender d) policy ciphertext) (\<lambda>_.
     act_bind (demo_check_in S d policy) (\<lambda>_.
     act_return (d, compiled, policy, funding))))))))"

section \<open>The enclave's answer and the payout\<close>

text \<open>An answer whose \<open>shares\<close> are not an array fails too, with whatever error its use raises.\<close>

definition demo_shares_match :: "jsv \<Rightarrow> thrown + unit" where
  "demo_shares_match evaluation =
     (case prop_of evaluation ''shares'' of
        JArr ss \<Rightarrow>
          and_then (assert_that (length ss = length demo_recipients) ''the enclave returned one share per recipient'') (\<lambda>_.
          assert_that (list_all (\<lambda>(s, r). prop_of s ''shareBps'' = JNum (of_int (shareBps r))) (zip ss demo_recipients))
            ''the enclave returned exactly the split fixed at deploy time'')
      | _ \<Rightarrow> Inl (new_error ''evaluation.shares is not an array''))"

text \<open>The balances of the recipients: all the reads are made before the first failure counts.\<close>

fun read_balances :: "env \<Rightarrow> string \<Rightarrow> share list \<Rightarrow> event list \<Rightarrow> (thrown + jsv) list \<times> event list" where
  "read_balances E token [] t = ([], t)"
| "read_balances E token (r # rs) t =
     (case readContract E token ''balanceOf'' [JStr (address r)] t of
        (b, t1) \<Rightarrow> case read_balances E token rs t1 of (bs, t2) \<Rightarrow> (b # bs, t2))"

definition balances :: "env \<Rightarrow> string \<Rightarrow> jsv list act" where
  "balances E token t = (case read_balances E token demo_recipients t of (bs, t') \<Rightarrow> (collect bs, t'))"

definition gain_claim :: "(int \<Rightarrow> asset_lookup \<Rightarrow> string) \<Rightarrow> asset_lookup \<Rightarrow> share \<Rightarrow> int \<Rightarrow> string" where
  "gain_claim fmt asset r gained =
     (case label r of None \<Rightarrow> ''undefined'' | Some l \<Rightarrow> l) @ '' received '' @ fmt gained asset @ '' FXRP, exactly their '' @
       num_str (of_int (shareBps r) / 100) @ ''%''"

fun check_gains :: "(int \<Rightarrow> asset_lookup \<Rightarrow> string) \<Rightarrow> asset_lookup \<Rightarrow> share list \<Rightarrow> jsv list \<Rightarrow> jsv list \<Rightarrow> distribution list \<Rightarrow> thrown + unit" where
  "check_gains fmt asset (r # rs) (b # bs) (a # as) (e # es) =
     and_then (big_of a) (\<lambda>after. and_then (big_of b) (\<lambda>before.
     and_then (assert_that (after - before = amount e) (gain_claim fmt asset r (after - before))) (\<lambda>_.
     check_gains fmt asset rs bs as es)))"
| "check_gains fmt asset rs bs as es = Inr ()"

definition demo_settle :: "script \<Rightarrow> (int \<Rightarrow> asset_lookup \<Rightarrow> string) \<Rightarrow> demo_setup \<Rightarrow> compiled_policy \<Rightarrow> string \<Rightarrow> int \<Rightarrow> jsv \<Rightarrow> unit act" where
  "demo_settle S fmt d compiled policy funding evaluation =
     (let E = sc_env S in
      act_bind (act_lift (demo_shares_match evaluation)) (\<lambda>_.
      act_bind (balances E (d_fxrp d)) (\<lambda>balancesBefore.
      act_bind (executePolicy E (Some (d_account d)) policy evaluation) (\<lambda>executeTx.
      let expected = resolveDistributions (privateConfig compiled) funding in
      act_bind (balances E (d_fxrp d)) (\<lambda>balancesAfter.
      act_bind (act_lift (check_gains fmt (d_asset d) demo_recipients balancesBefore balancesAfter expected)) (\<lambda>_.
      act_bind (readContract E policy ''balance'' []) (\<lambda>remaining.
      act_bind (act_lift (assert_that (remaining = JBig 0) ''no dust was left stranded in the policy'')) (\<lambda>_.
      act_bind (readContract E policy ''status'' []) (\<lambda>finalStatus.
      act_lift (assert_that (finalStatus = JNum 2) ''the policy is Executed and can never fire again'')))))))))) "

definition demo_main :: "script \<Rightarrow> (int \<Rightarrow> asset_lookup \<Rightarrow> string) \<Rightarrow> event list \<Rightarrow> ((thrown + unit) \<times> event list) option" where
  "demo_main S fmt t =
     (case demo_arm S fmt t of
        (Inl e, t1) \<Rightarrow> Some (Inl e, t1)
      | (Inr (d, compiled, policy, funding), t1) \<Rightarrow>
          (case evaluatePolicy (sc_env S) (sc_syntax_error S) (sc_decode S) (Some (d_account d)) (d_sender d) policy (d_proxy d) 180000 2000 t1 of
             None \<Rightarrow> None
           | Some (Inl e, t2) \<Rightarrow> Some (Inl e, t2)
           | Some (Inr evaluation, t2) \<Rightarrow> Some (demo_settle S fmt d compiled policy funding evaluation t2)))"

section \<open>What a run that passes did\<close>

lemma assert_that_Inr [simp]: "assert_that b c = Inr u \<longleftrightarrow> b"
  by (simp add: assert_that_def)

lemma big_of_Inr [simp]: "big_of v = Inr i \<longleftrightarrow> v = JBig i"
  by (simp add: big_of_def split: jsv.split)

lemma required_Inr [simp]: "required P n = Inr v \<longleftrightarrow> P n = Some v \<and> v \<noteq> []"
  by (auto simp: required_def Let_def split: option.split)

lemma confirmed_Inr:
  "confirmed E c t = (Inr u, t') \<longleftrightarrow> (\<exists>h rc. env_write E t c = Inr h \<and> env_receipt E (t @ [Written c]) h = Inr rc \<and>
     receipt_status rc = ''success'' \<and> t' = t @ [Written c, Awaited h])"
  by (auto simp: confirmed_def confirm_def act_bind_Inr act_prims split: if_splits)

lemma read_big_Inr:
  "read_big E a f args t = (Inr n, t') \<longleftrightarrow> env_read E t a f args = Inr (JBig n) \<and> t' = t @ [ReadContract a f args]"
  by (auto simp: read_big_def act_bind_Inr act_prims)

definition demo_policy :: policy_ir where
  "demo_policy = \<lparr> ir_name = ''Demo policy'', ir_asset = ''FXRP'', ir_trigger = ManualHeartbeat 3600 True,
     ir_conditions = [], ir_actions = [SplitTransfer demo_recipients] \<rparr>"

lemma demo_input_ir: "demo_input = ir_js demo_policy"
  by (simp add: demo_input_def ir_js_def demo_policy_def)

lemma demo_policy_facts: "wf_ir demo_policy" "finite_js (ir_js demo_policy)" "ir_asset demo_policy \<in> set (map fst ASSETS)"
  by (code_simp, code_simp, simp add: demo_policy_def ASSETS_def)

lemma demo_recipient_addresses: "\<forall>r \<in> set demo_recipients. is_address k (address r)"
proof -
  have "list_all (\<lambda>r. re_address (address r) \<and> lower_case (address r) = address r) demo_recipients" by code_simp
  then show ?thesis by (auto simp: list_all_iff is_address_def)
qed

lemma demo_compiled_recipients:
  assumes "zod_documented zod" "viem_documented V" "hex_value slt = Some s" "length s = 32"
  shows "\<exists>c. compile zod V demo_input slt = Inr c \<and> recipients (privateConfig c) = demo_recipients"
proof -
  have a: "\<forall>a \<in> set (ir_actions demo_policy). case a of SplitTransfer rs \<Rightarrow> \<forall>r \<in> set rs. is_address (keccak256 V) (address r)"
    using demo_recipient_addresses by (simp add: demo_policy_def)
  from compile_total [OF assms(1,2) demo_policy_facts assms(3,4) a] obtain c where
    c: "compile zod V demo_input slt = Inr c" "ir c = demo_policy" unfolding demo_input_ir by blast
  have "finite_js demo_input" unfolding demo_input_ir by (rule demo_policy_facts)
  from compiled_facts [OF assms(1,2) this c(1) assms(3,4)] c show ?thesis
    by (auto simp: demo_policy_def)
qed

lemma demo_split: "resolveDistributions \<lparr> config_version = vr, config_name = nm, recipients = demo_recipients \<rparr> 1000000 =
  [\<lparr> recipient = ''0x'' @ replicate 40 CHR ''1'', amount = 600100 \<rparr>, \<lparr> recipient = ''0x'' @ replicate 40 CHR ''2'', amount = 399900 \<rparr>]"
  by (simp add: resolveDistributions_def demo_recipients_def big_div_def)

lemma demo_amounts:
  assumes "recipients c = demo_recipients"
  shows "resolveDistributions c 1000000 = [\<lparr> recipient = ''0x'' @ replicate 40 CHR ''1'', amount = 600100 \<rparr>,
    \<lparr> recipient = ''0x'' @ replicate 40 CHR ''2'', amount = 399900 \<rparr>]"
proof -
  have "c = \<lparr> config_version = config_version c, config_name = config_name c, recipients = demo_recipients \<rparr>" using assms by simp
  then show ?thesis using demo_split by metis
qed

text \<open>The arming half.\<close>

lemma demo_arm_steps:
  assumes "demo_arm S fmt t = (Inr (d, compiled, policy, funding), t')"
  obtains ct u where "compile (sc_zod S) (sc_viem S) demo_input (salt_text S) = Inr compiled" "funding = 1000000" "t' = t @ u"
    "written u = [check_deploy_call (d_factory d) (d_fxrp d) (commitment (publicArgs compiled)) (d_gate d) (d_trigger d),
       heartbeat_configure_call (d_trigger d) policy (d_account d), call (d_fxrp d) ''approve'' [JStr policy, JBig 1000000],
       call policy ''deposit'' [JBig 1000000], instruction_call (d_sender d) ''sendStorePolicy'' [JStr policy, JStr ct],
       call (d_trigger d) ''heartbeat'' [JStr policy], call (d_trigger d) ''simulateInactivity'' [JStr policy],
       call policy ''arm'' [JStr ''0x'']]"
proof -
  obtain ct sent t1 t2 t3 t4 where env: "demo_environment S = Inr d" and c: "demo_compile S = Inr compiled"
    and seal: "demo_seal S (d_proxy d) (plaintext compiled) t = (Inr ct, t1)"
    and dep: "demo_deploy S d (commitment (publicArgs compiled)) t1 = (Inr policy, t2)"
    and fund: "demo_fund S fmt d policy t2 = (Inr funding, t3)"
    and send: "send_instruction (sc_env S) (sc_decode S) (Some (d_account d)) (d_sender d) ''sendStorePolicy'' [JStr policy, JStr ct] t3 = (Inr sent, t4)"
    and chk: "demo_check_in S d policy t4 = (Inr (), t')"
    using assms by (auto simp: demo_arm_def act_bind_Inr act_return_def act_lift_def sendStorePolicy_def)
  from env have asset: "getAsset ''FXRP'' = Inr (d_asset d)"
    by (auto simp: demo_environment_def and_then_Inr_iff Let_def)
  have "funding_of (d_asset d) = Inr 1000000"
    using asset by (auto simp: getAsset_def asset_index_def ASSETS_def funding_of_def dest: sym)
  from seal obtain url where 1: "t1 = t @ [Fetched url]"
    by (auto simp: demo_seal_def machine_key_def act_bind_Inr act_prims)
  from dep obtain h1 h2 where 2: "t2 = t1 @ [Written (check_deploy_call (d_factory d) (d_fxrp d) (commitment (publicArgs compiled)) (d_gate d) (d_trigger d)), Awaited h1,
      Written (heartbeat_configure_call (d_trigger d) policy (d_account d)), Awaited h2]"
    by (auto simp: demo_deploy_def act_bind_Inr act_prims confirmed_Inr Let_def)
  from fund obtain r1 r2 h3 h4 where 3: "funding_of (d_asset d) = Inr funding"
    "t3 = t2 @ [ReadContract (d_fxrp d) ''balanceOf'' r1, Written (call (d_fxrp d) ''approve'' [JStr policy, JBig funding]), Awaited h3,
      Written (call policy ''deposit'' [JBig funding]), Awaited h4, ReadContract policy ''balance'' r2]"
    by (auto simp: demo_fund_def act_bind_Inr act_prims confirmed_Inr read_big_Inr Let_def split: if_splits)
  from send_instruction_Inr [OF send] have 4: "\<exists>w. t4 = t3 @ w \<and> written w = [instruction_call (d_sender d) ''sendStorePolicy'' [JStr policy, JStr ct]]"
    by (intro exI) auto
  from chk obtain r3 h5 r4 h6 h7 r5 where 5: "t' = t4 @ [ReadContract (d_trigger d) ''deadlineOf'' r3,
      Written (call (d_trigger d) ''heartbeat'' [JStr policy]), Awaited h5, ReadContract (d_trigger d) ''deadlineOf'' r4,
      Written (call (d_trigger d) ''simulateInactivity'' [JStr policy]), Awaited h6,
      Written (call policy ''arm'' [JStr ''0x'']), Awaited h7, ReadContract policy ''status'' r5]"
    by (auto simp: demo_check_in_def act_bind_Inr act_prims confirmed_Inr read_big_Inr Let_def)
  have "compile (sc_zod S) (sc_viem S) demo_input (salt_text S) = Inr compiled" using c by (auto simp: demo_compile_def and_then_Inr_iff)
  moreover have "funding = 1000000" using \<open>funding_of (d_asset d) = Inr 1000000\<close> 3(1) by simp
  ultimately show thesis using that 1 2 3(2) 4 5 by auto
qed

text \<open>The evaluation.\<close>

lemma evaluated:
  assumes "evaluatePolicy E se decode account sender policy proxy ms iv t = Some (Inr v, t')"
  obtains n u where "t' = t @ u" "written u = [instruction_call sender ''sendEvaluatePolicy'' [JStr policy, JBig n]]"
    "env_read E t policy ''triggeredAt'' [] = Inr (JBig n)" "n \<noteq> 0"
proof -
  obtain n r t1 x t2 where n: "env_read E t policy ''triggeredAt'' [] = Inr (JBig n)" "n \<noteq> 0"
    and send: "send_instruction E decode account sender ''sendEvaluatePolicy'' [JStr policy, JBig n] (t @ [ReadContract policy ''triggeredAt'' []]) = (Inr r, t1)"
    and poll: "pollActionResult E se proxy (instructionId r) ms iv t1 = Some (x, t')"
    using assms unfolding evaluatePolicy_def readContract_def sendEvaluatePolicy_def
    by (auto split: sum.splits jsv.splits if_splits prod.splits option.splits)
  from pollActionResult_only_polls [OF poll] obtain w where w: "t' = t1 @ w" "only_polls w" by blast
  have "written w = []"
    using w(2) by (auto simp: only_polls_def list_all_iff written_def map_filter_def filter_empty_conv split: event.splits)
  with send_instruction_Inr [OF send] w(1) show thesis by (intro that [OF _ _ n]) auto
qed

text \<open>The payout.\<close>

definition gain_reads :: "string \<Rightarrow> event list" where
  "gain_reads token = map (\<lambda>r. ReadContract token ''balanceOf'' [JStr (address r)]) demo_recipients"

text \<open>The balances of the two recipients, as the two reads find them from \<open>t\<close> on.\<close>

definition holds :: "env \<Rightarrow> string \<Rightarrow> event list \<Rightarrow> int \<Rightarrow> int \<Rightarrow> bool" where
  "holds E token t m n \<longleftrightarrow>
     env_read E t token ''balanceOf'' [JStr (''0x'' @ replicate 40 CHR ''1'')] = Inr (JBig m) \<and>
     env_read E (t @ [ReadContract token ''balanceOf'' [JStr (''0x'' @ replicate 40 CHR ''1'')]]) token ''balanceOf''
       [JStr (''0x'' @ replicate 40 CHR ''2'')] = Inr (JBig n)"

lemma balances_Inr:
  assumes "balances E token t = (Inr vs, t')"
  obtains v w where "vs = [v, w]" "t' = t @ gain_reads token" "\<forall>m n. v = JBig m \<and> w = JBig n \<longrightarrow> holds E token t m n"
proof -
  from assms obtain v w where "vs = [v, w]" "t' = t @ gain_reads token"
    "env_read E t token ''balanceOf'' [JStr (''0x'' @ replicate 40 CHR ''1'')] = Inr v"
    "env_read E (t @ [ReadContract token ''balanceOf'' [JStr (''0x'' @ replicate 40 CHR ''1'')]]) token ''balanceOf''
       [JStr (''0x'' @ replicate 40 CHR ''2'')] = Inr w"
    by (auto simp: balances_def demo_recipients_def gain_reads_def readContract_def and_then_Inr_iff)
  then show thesis by (intro that) (auto simp: holds_def)
qed

lemma demo_settle_steps:
  assumes "demo_settle S fmt d compiled policy 1000000 evaluation t = (Inr (), t')"
    and "recipients (privateConfig compiled) = demo_recipients"
  obtains ss m n ex where "prop_of evaluation ''shares'' = JArr ss" "map (\<lambda>s. prop_of s ''shareBps'') ss = [JNum 6001, JNum 3999]"
    "holds (sc_env S) (d_fxrp d) t m n" "written ex = [call policy ''execute'' [JArr (map execute_share ss),
       prop_of evaluation ''salt'', prop_of evaluation ''signature'']]"
    "holds (sc_env S) (d_fxrp d) (t @ gain_reads (d_fxrp d) @ ex) (m + 600100) (n + 399900)"
    "t' = t @ gain_reads (d_fxrp d) @ ex @ gain_reads (d_fxrp d) @ [ReadContract policy ''balance'' [], ReadContract policy ''status'' []]"
    "env_read (sc_env S) (t @ gain_reads (d_fxrp d) @ ex @ gain_reads (d_fxrp d)) policy ''balance'' [] = Inr (JBig 0)"
    "env_read (sc_env S) (t @ gain_reads (d_fxrp d) @ ex @ gain_reads (d_fxrp d) @ [ReadContract policy ''balance'' []]) policy ''status'' [] = Inr (JNum 2)"
proof -
  obtain bs as h t1 t2 t3 where m: "demo_shares_match evaluation = Inr ()"
    and before: "balances (sc_env S) (d_fxrp d) t = (Inr bs, t1)"
    and exec: "executePolicy (sc_env S) (Some (d_account d)) policy evaluation t1 = (Inr h, t2)"
    and after: "balances (sc_env S) (d_fxrp d) t2 = (Inr as, t3)"
    and gains: "check_gains fmt (d_asset d) demo_recipients bs as (resolveDistributions (privateConfig compiled) 1000000) = Inr ()"
    and rest: "env_read (sc_env S) t3 policy ''balance'' [] = Inr (JBig 0)"
      "env_read (sc_env S) (t3 @ [ReadContract policy ''balance'' []]) policy ''status'' [] = Inr (JNum 2)"
      "t' = t3 @ [ReadContract policy ''balance'' [], ReadContract policy ''status'' []]"
    using assms(1) by (auto simp: demo_settle_def act_bind_Inr act_prims Let_def)
  obtain ss where ss: "prop_of evaluation ''shares'' = JArr ss" "map (\<lambda>s. prop_of s ''shareBps'') ss = [JNum 6001, JNum 3999]"
    using m by (auto simp: demo_shares_match_def and_then_Inr_iff demo_recipients_def length_Suc_conv numeral_2_eq_2 split: jsv.splits)
  obtain b1 b2 where b: "bs = [b1, b2]" "t1 = t @ gain_reads (d_fxrp d)" "\<forall>m n. b1 = JBig m \<and> b2 = JBig n \<longrightarrow> holds (sc_env S) (d_fxrp d) t m n"
    by (rule balances_Inr [OF before])
  obtain a1 a2 where a: "as = [a1, a2]" "t3 = t2 @ gain_reads (d_fxrp d)" "\<forall>m n. a1 = JBig m \<and> a2 = JBig n \<longrightarrow> holds (sc_env S) (d_fxrp d) t2 m n"
    by (rule balances_Inr [OF after])
  have "\<exists>m n. b1 = JBig m \<and> b2 = JBig n \<and> a1 = JBig (m + 600100) \<and> a2 = JBig (n + 399900)"
    using gains unfolding demo_amounts [OF assms(2)] a(1) b(1)
    by (auto simp: demo_recipients_def and_then_Inr_iff algebra_simps)
  then obtain m n where mn: "b1 = JBig m" "b2 = JBig n" "a1 = JBig (m + 600100)" "a2 = JBig (n + 399900)" by blast
  let ?c = "call policy ''execute'' [JArr (map execute_share ss), prop_of evaluation ''salt'', prop_of evaluation ''signature'']"
  have "t2 = t1 @ [Simulated ?c, Written ?c, Awaited h]"
    using executed [OF exec] ss(1) by (auto simp: Let_def call_def execute_share_def [abs_def])
  with mn a b rest show thesis by (intro that [OF ss, of m n "[Simulated ?c, Written ?c, Awaited h]"]) auto
qed

section \<open>A concrete run\<close>

text \<open>A chain on which every transaction succeeds and an execute pays the two recipients out.\<close>

definition paid :: "event list \<Rightarrow> bool" where
  "paid t = list_ex (\<lambda>e. case e of Written c \<Rightarrow> call_fn c = ''execute'' | _ \<Rightarrow> False) t"

definition paid_read :: "event list \<Rightarrow> string \<Rightarrow> jsv list \<Rightarrow> jsv" where
  "paid_read t f args =
     (if f = ''balanceOf'' then
        (if args = [JStr ''0xme''] then JBig 5000000
         else if args = [JStr (''0x'' @ replicate 40 CHR ''1'')] then JBig (if paid t then 600100 else 0)
         else JBig (if paid t then 399900 else 0))
      else if f = ''balance'' then JBig (if paid t then 0 else 1000000)
      else if f = ''deadlineOf'' then JBig (int (length t))
      else if f = ''status'' then JNum (if paid t then 2 else 1)
      else JBig 1700)"

definition paid_share :: "char \<Rightarrow> int \<Rightarrow> jsv" where
  "paid_share ch bps = JObj [(''recipient'', JStr [CHR ''0'', CHR ''x'', ch]), (''shareBps'', JNum (of_int bps))]"

definition paid_answer :: "(string \<times> jsv) list" where
  "paid_answer = [(''shares'', JArr [paid_share CHR ''1'' 6001, paid_share CHR ''2'' 3999]), (''salt'', JStr ''0x05''), (''signature'', JStr ''0x01'')]"

definition paid_reply :: jsv where
  "paid_reply = demo_action_response (''0x'' @ bytes_hex (utf8_bytes (the (json_text (JObj paid_answer)))))"

definition paid_env :: env where
  "paid_env = demo_script_env
     \<lparr> env_read := (\<lambda>t a f args. Inr (paid_read t f args)), env_clock := (\<lambda>t. 0),
       env_fetch := (\<lambda>t url. Inr \<lparr> http_ok = True, http_status = 200, http_type = ''application/json'',
         http_body = the (json_text (if url = ''http://proxy/info'' then demo_machine else paid_reply)) \<rparr>) \<rparr>"

definition paid_script :: script where
  "paid_script = demo_script \<lparr> sc_env := paid_env, sc_viem := viem_with (\<lambda>b. replicate 32 170) \<rparr>"

lemma paid_script_simps:
  "sc_process paid_script = (\<lambda>k. if k = ''EXT_PROXY_URL'' then Some ''http://proxy/'' else Some ''0xab'')"
  "sc_env paid_script = paid_env" "sc_decode paid_script = demo_script_decode" "sc_account paid_script = (\<lambda>k. Inr ''0xme'')"
  "sc_zod paid_script = demo_zod" "sc_viem paid_script = viem_with (\<lambda>b. replicate 32 170)" "sc_noble paid_script = demo_noble"
  "sc_salt paid_script = replicate 32 5" "sc_iv paid_script = replicate 16 9" "sc_ephemeral paid_script = replicate 32 1"
  by (simp_all add: paid_script_def demo_script_def)

lemma paid_viem_documented: "viem_documented (viem_with (\<lambda>b. replicate 32 170))"
  by (rule viem_with_documented) simp

lemma paid_compiles: "\<exists>c. demo_compile paid_script = Inr c"
proof -
  let ?V = "viem_with (\<lambda>b. replicate 32 170)"
  have a: "\<forall>a \<in> set (ir_actions demo_policy). case a of SplitTransfer rs \<Rightarrow> \<forall>r \<in> set rs. is_address (keccak256 ?V) (address r)"
    using demo_recipient_addresses by (simp add: demo_policy_def)
  have salt: "hex_value (salt_text paid_script) = Some (replicate 32 5)" "length (replicate 32 (5 :: 8 word)) = 32"
    using salt_text_value [of paid_script] by (simp_all add: paid_script_simps)
  from compile_total [OF demo_zod_documented paid_viem_documented demo_policy_facts salt a] obtain c where
    c: "compile demo_zod ?V demo_input (salt_text paid_script) = Inr c" "compile_ir ?V demo_policy (salt_text paid_script) = Inr c"
    unfolding demo_input_ir by blast
  have f: "finite_js demo_input" unfolding demo_input_ir by (rule demo_policy_facts)
  have pub: "publicArgs c = \<lparr> assetSymbol = ''FXRP'', commitment = ''0x'' @ bytes_hex (replicate 32 170),
      pub_trigger = ManualHeartbeat 3600 True, pub_conditions = [] \<rparr>"
    using compile_ir_Inr [OF c(2)] compiled_facts [OF demo_zod_documented paid_viem_documented f c(1) salt]
    by (auto simp: demo_policy_def viem_with_def)
  have "case json_text (public_js \<lparr> assetSymbol = ''FXRP'', commitment = ''0x'' @ bytes_hex (replicate 32 170),
      pub_trigger = ManualHeartbeat 3600 True, pub_conditions = [] \<rparr>) of None \<Rightarrow> True
    | Some t \<Rightarrow> \<not> sublist (replicate 40 CHR ''1'') (lower_case t)" by code_simp
  with c(1) pub show ?thesis by (simp add: demo_compile_def paid_script_simps compile_lift_def assert_that_def del: json_text.simps)
qed

lemma paid_seals: "\<exists>ct. demo_seal paid_script ''http://proxy/'' pt [] = (Inr ct, [Fetched ''http://proxy/info''])"
proof -
  obtain k where k: "teePublicKeyFromInfo demo_machine = Inr k"
    "normalizeTeePublicKey demo_noble (HexStr k) = Inr (getPublicKey demo_noble (replicate 32 2))"
    using demo_machine_key by blast
  have "case teePublicKeyFromInfo demo_machine of Inl e \<Rightarrow> False | Inr k \<Rightarrow> re_machine_key k" by code_simp
  with k(1) have re: "re_machine_key k" by simp
  obtain ct where "seal_to paid_script k pt = Inr ct"
    using decrypt_encrypted [OF demo_noble_documented _ _ _ k(2), of "replicate 32 1" "replicate 16 9" "utf8_bytes pt"]
    by (auto simp: seal_to_Inr demo_noble_valid paid_script_simps)
  then show ?thesis
    using k(1) re by (simp add: demo_seal_def machine_key_def act_bind_def act_prims paid_script_simps paid_env_def strip_slash_def
        parse_body_def demo_machine_parsed thrown_lift_def assert_that_def)
qed

definition paid_setup :: demo_setup where
  "paid_setup = \<lparr> d_account = ''0xme'', d_proxy = ''http://proxy/'', d_sender = ''0xab'', d_factory = ''0xab'', d_gate = ''0xab'',
     d_trigger = ''0xab'', d_fxrp = ''0xab'', d_asset = Asset (the (map_of ASSETS ''FXRP'')) \<rparr>"

lemma paid_environment: "demo_environment paid_script = Inr paid_setup"
  by (simp add: demo_environment_def paid_script_simps required_def Let_def thrown_lift_def getAsset_def asset_index_def ASSETS_def paid_setup_def)

lemma paid_env_simps:
  "env_simulate paid_env t c = Inr ()" "env_write paid_env t c = Inr ''0xfeed''"
  "env_receipt paid_env t h = Inr \<lparr> receipt_status = ''success'',
     receipt_logs = [\<lparr> log_address = ''0x1'', log_data = ''0x99'', log_topics = [''PolicyDeployed''] \<rparr>,
                     \<lparr> log_address = ''0x2'', log_data = ''0x77'', log_topics = [''TeeInstructionsSent''] \<rparr>] \<rparr>"
  "env_read paid_env t a f args = Inr (paid_read t f args)" "env_clock paid_env t = 0"
  by (simp_all add: paid_env_def demo_script_env_def demo_env_def)

lemma paid_simps: "paid [] = False" "paid (e # t) = ((case e of Written c \<Rightarrow> call_fn c = ''execute'' | _ \<Rightarrow> False) \<or> paid t)"
  "paid (t @ u) = (paid t \<or> paid u)"
  by (simp_all add: paid_def)

lemma paid_arms:
  "\<exists>c t. demo_arm paid_script (\<lambda>_ _. []) [] = (Inr (paid_setup, c, ''0x99'', 1000000), t) \<and> \<not> paid t \<and>
     recipients (privateConfig c) = demo_recipients"
proof -
  obtain c where c: "demo_compile paid_script = Inr c" using paid_compiles by blast
  obtain ct where ct: "demo_seal paid_script ''http://proxy/'' (plaintext c) [] = (Inr ct, [Fetched ''http://proxy/info''])"
    using paid_seals by blast
  have ps: "d_account paid_setup = ''0xme''" "d_proxy paid_setup = ''http://proxy/''" "d_sender paid_setup = ''0xab''"
    "d_factory paid_setup = ''0xab''" "d_gate paid_setup = ''0xab''" "d_trigger paid_setup = ''0xab''" "d_fxrp paid_setup = ''0xab''"
    "funding_of (d_asset paid_setup) = Inr 1000000"
    by (simp_all add: paid_setup_def funding_of_def ASSETS_def)
  have "recipients (privateConfig c) = demo_recipients"
    using demo_compiled_recipients [OF demo_zod_documented paid_viem_documented salt_text_value, of paid_script] c
    by (auto simp: demo_compile_def and_then_Inr_iff paid_script_simps)
  moreover have "\<exists>t. demo_arm paid_script (\<lambda>_ _. []) [] = (Inr (paid_setup, c, ''0x99'', 1000000), t) \<and> \<not> paid t"
    by (simp add: demo_arm_def act_bind_def act_prims paid_environment c ct ps demo_deploy_def demo_fund_def demo_check_in_def Let_def
        paid_script_simps paid_env_simps assert_that_def demo_script_decode_def log_arg_def hex_arg_def deployed_policy_def
        confirmed_def confirm_def read_big_def paid_read_def big_of_def call_def heartbeat_configure_call_def check_deploy_call_def
        sendStorePolicy_def send_instruction_def instruction_call_def paid_simps)
  ultimately show ?thesis by blast
qed

lemma paid_reply_parsed: "json_parse (the (json_text paid_reply)) = Some paid_reply"
proof -
  have "plain paid_reply" by (simp add: paid_reply_def demo_action_response_def)
  with plain_json_text [OF this] json_parse_text [OF this] show ?thesis by auto
qed

lemma paid_decodes: "decodeActionData paid_reply = Inr (JObj paid_answer)"
proof -
  have p: "plain (JObj paid_answer)" by (simp add: paid_answer_def paid_share_def)
  obtain t where t: "json_text (JObj paid_answer) = Some t" using plain_json_text [OF p] by blast
  have n: "num_str 6001 = nat_str 6001" "num_str 3999 = nat_str 3999"
    using num_str_of_int [of 6001] num_str_of_int [of 3999] by (simp_all add: int_str_def)
  have a: "ascii t" using t by (auto simp: paid_answer_def paid_share_def quote_def quote_char_def n simp del: nat_str.simps)
  from decoded [of paid_reply "[(''status'', JNum 1), (''log'', JStr ''ok''), (''data'', JStr (''0x'' @ bytes_hex (utf8_bytes t)))]", OF _ _ p t a]
  show ?thesis by (simp add: paid_reply_def demo_action_response_def t del: json_text.simps)
qed

lemma paid_evaluates:
  assumes "\<not> paid t"
  shows "\<exists>u. evaluatePolicy paid_env (\<lambda>b. []) demo_script_decode (Some ''0xme'') ''0xab'' ''0x99'' ''http://proxy/'' 180000 2000 t =
    Some (Inr (JObj paid_answer), t @ u) \<and> \<not> paid (t @ u)"
proof -
  have url: "env_fetch paid_env u (strip_slash ''http://proxy/'' @ ''/action/result/0x77'') =
      Inr \<lparr> http_ok = True, http_status = 200, http_type = ''application/json'', http_body = the (json_text paid_reply) \<rparr>" for u
    by (simp add: paid_env_def strip_slash_def)
  have poll: "pollActionResult paid_env se ''http://proxy/'' ''0x77'' 180000 2000 u = Some (Inr paid_reply, u @ [Fetched (strip_slash ''http://proxy/'' @ ''/action/result/0x77'')])" for se u
    unfolding pollActionResult_def Let_def
    by (subst poll_loop.simps) (simp add: url [simplified] paid_env_simps fetch_def parse_body_def paid_reply_parsed)
  have sig: "with_signature (JObj paid_answer) = Inr (JObj paid_answer)"
    by (simp add: with_signature_def read_prop_def member_of_def paid_answer_def asHexBytes_def re_hex_string_def starts_with_def is_hex_def hex_val_def)
  show ?thesis
    using assms by (simp add: evaluatePolicy_def readContract_def paid_env_simps paid_read_def sendEvaluatePolicy_def send_instruction_def
        act_bind_def act_prims Let_def demo_script_decode_def hex_arg_def poll paid_decodes sig instruction_call_def paid_simps)
qed

lemma paid_settles:
  assumes "\<not> paid t" "recipients (privateConfig c) = demo_recipients"
  shows "\<exists>t'. demo_settle paid_script (\<lambda>_ _. []) paid_setup c ''0x99'' 1000000 (JObj paid_answer) t = (Inr (), t')"
proof -
  have a: "replicate 40 CHR ''1'' \<noteq> ''me''" "replicate 40 CHR ''2'' \<noteq> ''me''" "replicate 40 CHR ''2'' \<noteq> replicate 40 CHR ''1''" by code_simp+
  show ?thesis using assms a
    by (simp add: demo_settle_def act_bind_def act_prims Let_def paid_script_simps paid_env_simps demo_shares_match_def paid_answer_def paid_share_def
      demo_recipients_def assert_that_def balances_def paid_read_def executePolicy_def execute_args_def demo_amounts [unfolded demo_recipients_def]
      big_of_def paid_simps paid_setup_def)
qed

lemma paid_runs: "\<exists>t. demo_main paid_script (\<lambda>_ _. []) [] = Some (Inr (), t)"
proof -
  obtain c t where a: "demo_arm paid_script (\<lambda>_ _. []) [] = (Inr (paid_setup, c, ''0x99'', 1000000), t)" "\<not> paid t"
    "recipients (privateConfig c) = demo_recipients" using paid_arms by blast
  obtain u where e: "evaluatePolicy paid_env (\<lambda>b. []) demo_script_decode (Some ''0xme'') ''0xab'' ''0x99'' ''http://proxy/'' 180000 2000 t =
    Some (Inr (JObj paid_answer), t @ u)" "\<not> paid (t @ u)" using paid_evaluates [OF a(2)] by blast
  have "sc_syntax_error paid_script = (\<lambda>b. [])" by (simp add: paid_script_def demo_script_def)
  with a(1) e(1) paid_settles [OF e(2) a(3)] show ?thesis
    by (simp add: demo_main_def paid_script_simps paid_setup_def)
qed

section \<open>Properties\<close>

text \<open>C6: A demo run that passes has done what it claims: it asked for the nine transactions of
  the set-up and the evaluation in order, all for one policy, holding one FXRP and
  committed to the compiled recipients; then for one execute, with the enclave's two
  shares of 6001 and 3999 basis points; across it the recipients gained exactly 600100
  and 399900 units, the two amounts that make up the whole deposit, and the policy was
  left with nothing and with status Executed.\<close>

theorem demo_moves_the_money:
  assumes "zod_documented (sc_zod S)" "viem_documented (sc_viem S)" "length (sc_salt S) = 32"
    and "demo_main S fmt t = Some (Inr (), t')"
  shows "\<exists>(d :: demo_setup) policy compiled ct count p ex ss sal sig m n.
    compile (sc_zod S) (sc_viem S) demo_input (salt_text S) = Inr compiled \<and>
    written p = [check_deploy_call (d_factory d) (d_fxrp d) (commitment (publicArgs compiled)) (d_gate d) (d_trigger d),
       heartbeat_configure_call (d_trigger d) policy (d_account d), call (d_fxrp d) ''approve'' [JStr policy, JBig 1000000],
       call policy ''deposit'' [JBig 1000000], instruction_call (d_sender d) ''sendStorePolicy'' [JStr policy, JStr ct],
       call (d_trigger d) ''heartbeat'' [JStr policy], call (d_trigger d) ''simulateInactivity'' [JStr policy],
       call policy ''arm'' [JStr ''0x''], instruction_call (d_sender d) ''sendEvaluatePolicy'' [JStr policy, JBig count]] \<and>
    written ex = [call policy ''execute'' [JArr (map execute_share ss), sal, sig]] \<and>
    map (\<lambda>s. prop_of s ''shareBps'') ss = [JNum 6001, JNum 3999] \<and>
    holds (sc_env S) (d_fxrp d) (t @ p) m n \<and>
    holds (sc_env S) (d_fxrp d) (t @ p @ gain_reads (d_fxrp d) @ ex) (m + 600100) (n + 399900) \<and>
    t' = t @ p @ gain_reads (d_fxrp d) @ ex @ gain_reads (d_fxrp d) @ [ReadContract policy ''balance'' [], ReadContract policy ''status'' []] \<and>
    env_read (sc_env S) (t @ p @ gain_reads (d_fxrp d) @ ex @ gain_reads (d_fxrp d)) policy ''balance'' [] = Inr (JBig 0) \<and>
    env_read (sc_env S) (t @ p @ gain_reads (d_fxrp d) @ ex @ gain_reads (d_fxrp d) @ [ReadContract policy ''balance'' []]) policy ''status'' [] = Inr (JNum 2)"
proof -
  obtain d compiled policy funding evaluation t1 t2 where arm: "demo_arm S fmt t = (Inr (d, compiled, policy, funding), t1)"
    and ev: "evaluatePolicy (sc_env S) (sc_syntax_error S) (sc_decode S) (Some (d_account d)) (d_sender d) policy (d_proxy d) 180000 2000 t1 =
      Some (Inr evaluation, t2)"
    and settle: "demo_settle S fmt d compiled policy funding evaluation t2 = (Inr (), t')"
    using assms(4) by (auto simp: demo_main_def split: prod.splits sum.splits option.splits)
  from demo_arm_steps [OF arm] obtain ct u where a: "compile (sc_zod S) (sc_viem S) demo_input (salt_text S) = Inr compiled"
    "funding = 1000000" "t1 = t @ u"
    "written u = [check_deploy_call (d_factory d) (d_fxrp d) (commitment (publicArgs compiled)) (d_gate d) (d_trigger d),
       heartbeat_configure_call (d_trigger d) policy (d_account d), call (d_fxrp d) ''approve'' [JStr policy, JBig 1000000],
       call policy ''deposit'' [JBig 1000000], instruction_call (d_sender d) ''sendStorePolicy'' [JStr policy, JStr ct],
       call (d_trigger d) ''heartbeat'' [JStr policy], call (d_trigger d) ''simulateInactivity'' [JStr policy],
       call policy ''arm'' [JStr ''0x'']]" .
  from evaluated [OF ev] obtain n w where w: "t2 = t1 @ w"
    "written w = [instruction_call (d_sender d) ''sendEvaluatePolicy'' [JStr policy, JBig n]]" .
  have config: "recipients (privateConfig compiled) = demo_recipients"
    using demo_compiled_recipients [OF assms(1,2) salt_text_value assms(3)] a(1) by auto
  obtain ss m k ex where "prop_of evaluation ''shares'' = JArr ss"
    and settled: "map (\<lambda>s. prop_of s ''shareBps'') ss = [JNum 6001, JNum 3999]"
    "holds (sc_env S) (d_fxrp d) t2 m k" "written ex = [call policy ''execute'' [JArr (map execute_share ss),
       prop_of evaluation ''salt'', prop_of evaluation ''signature'']]"
    "holds (sc_env S) (d_fxrp d) (t2 @ gain_reads (d_fxrp d) @ ex) (m + 600100) (k + 399900)"
    "t' = t2 @ gain_reads (d_fxrp d) @ ex @ gain_reads (d_fxrp d) @ [ReadContract policy ''balance'' [], ReadContract policy ''status'' []]"
    "env_read (sc_env S) (t2 @ gain_reads (d_fxrp d) @ ex @ gain_reads (d_fxrp d)) policy ''balance'' [] = Inr (JBig 0)"
    "env_read (sc_env S) (t2 @ gain_reads (d_fxrp d) @ ex @ gain_reads (d_fxrp d) @ [ReadContract policy ''balance'' []]) policy ''status'' [] = Inr (JNum 2)"
    by (rule demo_settle_steps [OF settle [unfolded a(2)] config])
  show ?thesis
    by (rule exI [of _ d], rule exI [of _ policy], rule exI [of _ compiled], rule exI [of _ ct], rule exI [of _ n], rule exI [of _ "u @ w"],
        rule exI [of _ ex], rule exI [of _ ss], rule exI [of _ "prop_of evaluation ''salt''"], rule exI [of _ "prop_of evaluation ''signature''"],
        rule exI [of _ m], rule exI [of _ k], intro conjI)
      (use settled a(1) in \<open>simp_all add: a(3,4) w\<close>)
qed

lemma demo_moves_the_money_witness:
  "\<exists>t p. demo_main paid_script (\<lambda>_ _. []) [] = Some (Inr (), t) \<and> (\<exists>cs. written p = cs \<and> length cs = 9) \<and>
     (\<exists>token ex m n. holds paid_env token ([] @ p) m n \<and>
        holds paid_env token ([] @ p @ gain_reads token @ ex) (m + 600100) (n + 399900))"
proof -
  obtain t where t: "demo_main paid_script (\<lambda>_ _. []) [] = Some (Inr (), t)" using paid_runs by blast
  have "zod_documented (sc_zod paid_script)" "viem_documented (sc_viem paid_script)" "length (sc_salt paid_script) = 32"
    by (simp_all add: paid_script_simps demo_zod_documented paid_viem_documented)
  from demo_moves_the_money [OF this t] t show ?thesis unfolding paid_script_simps
    by (elim exE conjE) (intro exI conjI, assumption, assumption, simp, assumption, assumption)
qed

end
