(* ===== verification/Builder.thy ===== *)
theory Builder
  imports BigInts Inspector WebTriggers Templates
begin

text \<open>
  The policy builder: the recipients editor (apps/web/components/recipients-editor.tsx),
  the trigger editor (trigger-editor.tsx), the form with its step strip
  (policy-form.tsx) and the page that holds the draft
  (app/studio/[templateId]/page.tsx). A React component is modelled as the state it
  keeps, what it shows of that state, and the transitions its controls make; markup
  and styling are left out.
\<close>

section \<open>The recipients editor\<close>

definition total_bps :: "share list \<Rightarrow> int" where
  "total_bps rs = foldl (\<lambda>sum r. sum + shareBps r) 0 rs"

definition balanced :: "share list \<Rightarrow> bool" where
  "balanced rs = (total_bps rs = 10000)"

datatype recipient_patch = PatchLabel string | PatchAddress string | PatchShare int

fun apply_patch :: "recipient_patch \<Rightarrow> share \<Rightarrow> share" where
  "apply_patch (PatchLabel v) r = r\<lparr> label := Some v \<rparr>"
| "apply_patch (PatchAddress v) r = r\<lparr> address := v \<rparr>"
| "apply_patch (PatchShare bps) r = r\<lparr> shareBps := bps \<rparr>"

definition update_recipient :: "nat \<Rightarrow> recipient_patch \<Rightarrow> share list \<Rightarrow> share list" where
  "update_recipient index patch rs = map (\<lambda>(i, r). if i = index then apply_patch patch r else r) (List.enumerate 0 rs)"

definition remove_recipient :: "nat \<Rightarrow> share list \<Rightarrow> share list" where
  "remove_recipient index rs = map snd (filter (\<lambda>(i, _). i \<noteq> index) (List.enumerate 0 rs))"

definition add_recipient :: "share list \<Rightarrow> share list" where
  "add_recipient rs = rs @ [\<lparr> address = [], shareBps = 0, label = Some [] \<rparr>]"

definition rebalance :: "share list \<Rightarrow> share list" where
  "rebalance rs =
     (let n = length rs; each = 10000 div int n in
      map (\<lambda>(i, r). r\<lparr> shareBps := (if i = n - 1 then 10000 - each * (int n - 1) else each) \<rparr>) (List.enumerate 0 rs))"

text \<open>\<open>PercentField\<close>: the number \<open>parseFloat\<close> reads (\<open>None\<close> when it is not finite) as basis points.\<close>

definition percent_bps :: "rat option \<Rightarrow> int" where
  "percent_bps pct = (case pct of None \<Rightarrow> 0 | Some p \<Rightarrow> js_round (p * 100))"

definition invalid_address :: "share \<Rightarrow> bool" where
  "invalid_address r = (address r \<noteq> [] \<and> \<not> re_address (address r))"

definition offers_even_split :: "share list \<Rightarrow> bool" where
  "offers_even_split rs = (\<not> balanced rs \<and> rs \<noteq> [])"

section \<open>The trigger editor\<close>

text \<open>\<open>{ ...trigger, [key]: value }\<close>, and what each kind of field passes on.\<close>

definition set_field :: "jsv \<Rightarrow> string \<Rightarrow> jsv \<Rightarrow> jsv" where
  "set_field trigger' key v = (case trigger' of JObj kvs \<Rightarrow> JObj (put_prop kvs key v) | _ \<Rightarrow> JObj [(key, v)])"

text \<open>\<open>DurationInput\<close>: a new amount (if finite and at least one) or a new unit, joined with the other half.\<close>

definition duration_amount :: "jsnum \<Rightarrow> rat option \<Rightarrow> jsnum option" where
  "duration_amount seconds n =
     (case n of None \<Rightarrow> None | Some v \<Rightarrow> if 1 \<le> v then Some (joinDuration (Fin v) (snd (splitDuration seconds))) else None)"

definition duration_unit_change :: "jsnum \<Rightarrow> duration_unit \<Rightarrow> jsnum" where
  "duration_unit_change seconds u = joinDuration (fst (splitDuration seconds)) u"

text \<open>The pattern of a decimal, and the amount field over viem's \<open>parseUnits\<close>.\<close>

definition re_decimal :: "string \<Rightarrow> bool" where
  "re_decimal s =
     (let r = dropWhile is_digit s in r = [] \<or> hd r = CHR ''.'' \<and> list_all is_digit (tl r))"

definition safeParse :: "(string \<Rightarrow> 'd \<Rightarrow> 'e + int) \<Rightarrow> string \<Rightarrow> 'd \<Rightarrow> string option" where
  "safeParse parseUnits input decimals' =
     (let trimmed = trim input in
      if trimmed = [] then Some ''0''
      else if \<not> re_decimal trimmed then None
      else (case parseUnits trimmed decimals' of Inl _ \<Rightarrow> None | Inr v \<Rightarrow> Some (int_str v)))"

section \<open>The draft\<close>

record builder =
  b_recipients :: "share list"
  b_trigger :: jsv
  b_step :: string
  b_reviewing :: bool
  b_deploying :: "compiled_policy option"
  b_deployed :: bool

definition initial_recipients :: "share list" where
  "initial_recipients =
     [\<lparr> address = ''0x'' @ replicate 40 CHR ''1'', shareBps = 6000, label = Some ''Partner'' \<rparr>,
      \<lparr> address = ''0x'' @ replicate 40 CHR ''2'', shareBps = 4000, label = Some ''Child'' \<rparr>]"

definition initial_builder :: builder where
  "initial_builder = \<lparr> b_recipients = initial_recipients, b_trigger = JNull, b_step = ''trigger'',
     b_reviewing = False, b_deploying = None, b_deployed = False \<rparr>"

definition seeded :: "template \<Rightarrow> share list \<Rightarrow> jsv" where
  "seeded T rs = build T \<lparr> arg_name = None, arg_recipients = rs, intervalSeconds = None, executeAfter = None, demoMode = Some True \<rparr>"

definition draft :: "template \<Rightarrow> builder \<Rightarrow> jsv" where
  "draft T b =
     (let s = seeded T (b_recipients b) in
      set_field s ''trigger'' (nullish_or (b_trigger b) (prop_of s ''trigger'')))"

section \<open>The form\<close>

definition step_index :: "diagram_node list \<Rightarrow> string \<Rightarrow> nat" where
  "step_index steps step = (case index_of step (map n_id steps) of None \<Rightarrow> 0 | Some i \<Rightarrow> i)"

definition current_step :: "diagram_node list \<Rightarrow> string \<Rightarrow> diagram_node option" where
  "current_step steps step = (if steps = [] then None else Some (steps ! step_index steps step))"

definition is_last :: "diagram_node list \<Rightarrow> string \<Rightarrow> bool" where
  "is_last steps step = (Suc (step_index steps step) = length steps)"

definition back_step :: "diagram_node list \<Rightarrow> string \<Rightarrow> string option" where
  "back_step steps step =
     (let i = step_index steps step in if i = 0 then None else Some (n_id (steps ! (i - 1))))"

definition next_step :: "diagram_node list \<Rightarrow> string \<Rightarrow> string option" where
  "next_step steps step =
     (let i = step_index steps step in if is_last steps step then None else Some (n_id (steps ! Suc i)))"

text \<open>The editor the form mounts for a builder's current step.\<close>

definition mounted :: "(jsv \<Rightarrow> string) \<Rightarrow> template \<Rightarrow> builder \<Rightarrow> string option" where
  "mounted fmt T b =
     (case graphFromIr fmt (draft T b) of
        Inl _ \<Rightarrow> None
      | Inr (steps, _) \<Rightarrow>
          (case current_step steps (b_step b) of
             None \<Rightarrow> None
           | Some n \<Rightarrow> (case inspectorFor fmt (Some (n_id n)) (draft T b) of Inl _ \<Rightarrow> None | Inr p \<Rightarrow> p_editor p)))"

definition strip :: "(jsv \<Rightarrow> string) \<Rightarrow> template \<Rightarrow> builder \<Rightarrow> string list" where
  "strip fmt T b = (case graphFromIr fmt (draft T b) of Inl _ \<Rightarrow> [] | Inr (steps, _) \<Rightarrow> map n_id steps)"

section \<open>What the page can do\<close>

text \<open>
  One action of the user. The editors act only while they are mounted; the trigger
  editor passes on some object, here any (which ones it makes is in TriggerFields). A review
  shows what \<open>comp\<close> makes of the draft, and its Deploy hands exactly that on.
\<close>

inductive builder_step ::
  "(jsv \<Rightarrow> string) \<Rightarrow> template \<Rightarrow> (jsv \<Rightarrow> compile_error + compiled_policy) \<Rightarrow> builder \<Rightarrow> builder \<Rightarrow> bool"
  for fmt T comp where
  edit_recipient: "mounted fmt T b = Some ''recipients'' \<Longrightarrow>
    builder_step fmt T comp b (b\<lparr> b_recipients := update_recipient i patch (b_recipients b) \<rparr>)"
| remove: "mounted fmt T b = Some ''recipients'' \<Longrightarrow>
    builder_step fmt T comp b (b\<lparr> b_recipients := remove_recipient i (b_recipients b) \<rparr>)"
| add: "mounted fmt T b = Some ''recipients'' \<Longrightarrow>
    builder_step fmt T comp b (b\<lparr> b_recipients := add_recipient (b_recipients b) \<rparr>)"
| even: "mounted fmt T b = Some ''recipients'' \<Longrightarrow> offers_even_split (b_recipients b) \<Longrightarrow>
    builder_step fmt T comp b (b\<lparr> b_recipients := rebalance (b_recipients b) \<rparr>)"
| set_trigger: "mounted fmt T b = Some ''trigger'' \<Longrightarrow>
    builder_step fmt T comp b (b\<lparr> b_trigger := JObj kvs \<rparr>)"
| go: "i \<in> set (strip fmt T b) \<Longrightarrow> builder_step fmt T comp b (b\<lparr> b_step := i \<rparr>)"
| backward: "graphFromIr fmt (draft T b) = Inr (steps, es) \<Longrightarrow> back_step steps (b_step b) = Some i \<Longrightarrow>
    builder_step fmt T comp b (b\<lparr> b_step := i \<rparr>)"
| forward: "graphFromIr fmt (draft T b) = Inr (steps, es) \<Longrightarrow> next_step steps (b_step b) = Some i \<Longrightarrow>
    builder_step fmt T comp b (b\<lparr> b_step := i \<rparr>)"
| review: "builder_step fmt T comp b (b\<lparr> b_reviewing := True \<rparr>)"
| close_review: "b_reviewing b \<Longrightarrow> builder_step fmt T comp b (b\<lparr> b_reviewing := False \<rparr>)"
| deploy: "b_reviewing b \<Longrightarrow> comp (draft T b) = Inr c \<Longrightarrow>
    builder_step fmt T comp b (b\<lparr> b_deploying := Some c, b_reviewing := False \<rparr>)"
| close_deploy: "builder_step fmt T comp b (b\<lparr> b_deploying := None \<rparr>)"
| deployed: "b_deploying b = Some c \<Longrightarrow> builder_step fmt T comp b (b\<lparr> b_deployed := True \<rparr>)"

section \<open>Lemmas\<close>

text \<open>What any draft of the two templates is.\<close>

definition draft_of :: "jsv \<Rightarrow> share list \<Rightarrow> jsv \<Rightarrow> bool" where
  "draft_of pol rs trigger' \<longleftrightarrow> (\<exists>kvs. pol = JObj kvs \<and> get_prop kvs ''asset'' = JStr ''FXRP'' \<and>
     get_prop kvs ''conditions'' = JArr [] \<and> get_prop kvs ''trigger'' = trigger' \<and>
     get_prop kvs ''actions'' = JArr [JObj [(''kind'', JStr ''splitTransfer''), (''recipients'', JArr (map share_js rs))]] \<and>
     (finite_js trigger' \<longrightarrow> finite_js pol))"

lemma finite_put_prop: "list_all (\<lambda>kv. finite_js (snd kv)) kvs \<Longrightarrow> finite_js v \<Longrightarrow> list_all (\<lambda>kv. finite_js (snd kv)) (put_prop kvs k v)"
  by (induction kvs k v rule: put_prop.induct) auto

lemma finite_shares: "list_all finite_js (map share_js rs)"
  by (auto simp: list_all_iff share_js_def split: option.split)

lemma draft_shape:
  assumes "T \<in> set (TEMPLATES now)"
  shows "\<exists>t. draft_of (draft T b) (b_recipients b) (nullish_or (b_trigger b) t) \<and> finite_js t"
proof -
  obtain kvs where s: "seeded T (b_recipients b) = JObj kvs" "get_prop kvs ''asset'' = JStr ''FXRP''" "get_prop kvs ''conditions'' = JArr []"
    "get_prop kvs ''actions'' = JArr [JObj [(''kind'', JStr ''splitTransfer''), (''recipients'', JArr (map share_js (b_recipients b)))]]"
    "list_all (\<lambda>kv. finite_js (snd kv)) kvs" "finite_js (get_prop kvs ''trigger'')"
    using assms finite_shares
    by (auto simp: TEMPLATES_def seeded_def xrp_inheritance_definition_def scheduled_distribution_definition_def
        xrpInheritance_def scheduledDistribution_def)
  show ?thesis
    by (rule exI [of _ "get_prop kvs ''trigger''"])
      (use s in \<open>auto simp: draft_of_def draft_def set_field_def get_put_prop finite_put_prop\<close>)
qed

lemma draft_graph:
  assumes "draft_of pol rs t"
  shows "\<exists>ns es. graphFromIr fmt pol = Inr (ns, es) \<and>
    map n_id ns = [''asset'', ''trigger''] @ (if rs = [] then [] else [''confidential'']) @ [''action-0'']"
  using assms
  by (auto simp: draft_of_def graphFromIr_def js_text_def getAsset_def asset_index_def ASSETS_def array_or_empty_def
      confidentialInputCount_def member_of_def js_count_def action_id_def)

lemma index_of_nth: "index_of x xs = Some i \<Longrightarrow> i < length xs \<and> xs ! i = x"
  by (induction xs arbitrary: i) (auto split: if_splits)

lemma index_of_None: "index_of x xs = None \<longleftrightarrow> x \<notin> set xs"
  by (induction xs) auto

lemma current_id:
  assumes "steps \<noteq> []"
  shows "\<exists>n. current_step steps i = Some n \<and> n_id n = (if i \<in> n_id ` set steps then i else n_id (hd steps))"
proof (cases "index_of i (map n_id steps)")
  case None
  moreover from None have "i \<notin> n_id ` set steps" unfolding index_of_None by simp
  ultimately show ?thesis using assms by (simp add: current_step_def step_index_def hd_conv_nth)
next
  case (Some k)
  from index_of_nth [OF this] have k: "k < length steps" "n_id (steps ! k) = i" by auto
  then have "i \<in> n_id ` set steps" by (metis image_eqI nth_mem)
  with Some k assms show ?thesis by (simp add: current_step_def step_index_def)
qed

text \<open>The recipients editor is mounted on the confidential step, and that step exists only while there are recipients.\<close>

lemma panel_editors:
  assumes "draft_of pol rs t"
  shows "inspectorFor fmt (Some ''confidential'') pol = Inr p \<Longrightarrow> p_editor p = Some ''recipients''"
    "inspectorFor fmt (Some ''asset'') pol = Inr p \<Longrightarrow> p_editor p = None"
    "inspectorFor fmt (Some ''trigger'') pol = Inr p \<Longrightarrow> p_editor p = Some ''trigger''"
    "inspectorFor fmt (Some ''action-0'') pol = Inr p \<Longrightarrow> p_editor p = None"
    "\<exists>q. inspectorFor fmt (Some ''confidential'') pol = Inr q"
proof -
  obtain kvs where "pol = JObj kvs" "get_prop kvs ''actions'' = JArr [JObj [(''kind'', JStr ''splitTransfer''), (''recipients'', JArr (map share_js rs))]]"
    using assms by (auto simp: draft_of_def)
  note d = this
  show "inspectorFor fmt (Some ''confidential'') pol = Inr p \<Longrightarrow> p_editor p = Some ''recipients''"
    "\<exists>q. inspectorFor fmt (Some ''confidential'') pol = Inr q"
    by (auto simp: d inspectorFor_def confidentialPanel_def array_or_empty_def confidentialInputCount_def member_of_def Let_def)
  show "inspectorFor fmt (Some ''asset'') pol = Inr p \<Longrightarrow> p_editor p = None"
    by (auto simp: inspectorFor_def assetPanel_def and_then_Inr_iff)
  show "inspectorFor fmt (Some ''trigger'') pol = Inr p \<Longrightarrow> p_editor p = Some ''trigger''"
    by (auto simp: inspectorFor_def triggerPanel_def Let_def)
  show "inspectorFor fmt (Some ''action-0'') pol = Inr p \<Longrightarrow> p_editor p = None"
    using inspect_action [of fmt 0 pol] by (auto simp: action_id_def actionPanel_def policyPanel_def Let_def split: if_splits)
qed

lemma mounted_recipients:
  assumes "T \<in> set (TEMPLATES now)"
  shows "mounted fmt T b = Some ''recipients'' \<longleftrightarrow> b_recipients b \<noteq> [] \<and> b_step b = ''confidential''"
proof -
  obtain t where d: "draft_of (draft T b) (b_recipients b) t" using draft_shape [OF assms] by blast
  obtain ns es where g: "graphFromIr fmt (draft T b) = Inr (ns, es)"
    "map n_id ns = [''asset'', ''trigger''] @ (if b_recipients b = [] then [] else [''confidential'']) @ [''action-0'']"
    using draft_graph [OF d] by blast
  then have ne: "ns \<noteq> []" and hd: "n_id (hd ns) = ''asset''" by (cases ns; simp)+
  have ids: "n_id ` set ns = {''asset'', ''trigger'', ''action-0''} \<union> (if b_recipients b = [] then {} else {''confidential''})"
    using arg_cong [OF g(2), of set] by (auto split: if_splits)
  obtain n where n: "current_step ns (b_step b) = Some n" "n_id n = (if b_step b \<in> n_id ` set ns then b_step b else ''asset'')"
    using current_id [OF ne, of "b_step b"] hd by auto
  obtain q where q: "inspectorFor fmt (Some ''confidential'') (draft T b) = Inr q" using panel_editors(5) [OF d] by blast
  note pe = panel_editors(1-4) [OF d, of fmt]
  show ?thesis
    using n(2) unfolding mounted_def g(1) ids
    by (auto simp: n(1) q pe(1) [OF q] split: sum.split if_splits dest: pe)
qed

text \<open>A draft without recipients does not compile.\<close>

lemma trigger_domain: "z_domain triggerSchema v"
  by (cases v) (simp_all add: triggerSchema_def manualHeartbeatTrigger_def chainProofOfLifeTrigger_def timestampTrigger_def amountSchema_def)

lemma draft_domain: "draft_of pol rs t \<Longrightarrow> z_domain policyIrSchema pol"
proof -
  have "z_domain recipientSchema (share_js r)" for r by (simp add: recipientSchema_def addressSchema_def share_js_def split: option.split)
  then show "draft_of pol rs t \<Longrightarrow> z_domain policyIrSchema pol"
    using trigger_domain [of t]
    by (auto simp: draft_of_def policyIrSchema_def policyObject_def actionSchema_def splitTransferAction_def list_all_iff)
qed

lemma no_recipients_not_compiled:
  assumes "zod_documented zod" "draft_of pol [] t"
  shows "compile zod V pol slt \<noteq> Inr c"
proof
  assume "compile zod V pol slt = Inr c"
  then obtain data where "zod policyIrSchema pol = Inr data" by (auto simp: compile_def split: sum.splits)
  from zod_Inr_domain [OF assms(1) draft_domain [OF assms(2)] this] obtain w where w: "z_spec policyObject pol = Some w"
    by (auto simp: policyIrSchema_def z_spec.simps split: option.splits)
  obtain kvs where kvs: "pol = JObj kvs" "get_prop kvs ''actions'' = JArr [JObj [(''kind'', JStr ''splitTransfer''), (''recipients'', JArr [])]]"
    using assms(2) by (auto simp: draft_of_def)
  from w kvs obtain acs where "z_spec (ZArray 1 actionSchema) (get_prop kvs ''actions'') = Some acs"
    unfolding policyObject_def z_spec_object list_all2_Cons1 by auto
  then obtain x where "z_spec actionSchema (JObj [(''kind'', JStr ''splitTransfer''), (''recipients'', JArr [])]) = Some x"
    by (auto simp: kvs z_spec_array list_all2_Cons1)
  then have "z_spec splitTransferAction (JObj [(''kind'', JStr ''splitTransfer''), (''recipients'', JArr [])]) = Some x"
    using z_spec_union unfolding actionSchema_def by fastforce
  then show False by (auto simp: splitTransferAction_def z_iffs list_all2_Cons1)
qed

text \<open>From an empty list on, nothing an action does brings a recipient back.\<close>

definition stuck :: "builder \<Rightarrow> bool" where
  "stuck b \<longleftrightarrow> b_recipients b = [] \<and> b_deploying b = None"

lemma stuck_step:
  assumes "T \<in> set (TEMPLATES now)" "zod_documented zod" "builder_step fmt T (\<lambda>pol. compile zod V pol slt) b b'"
    and "stuck b"
  shows "stuck b'"
proof -
  have m: "mounted fmt T b \<noteq> Some ''recipients''" using mounted_recipients [OF assms(1)] assms(4) by (simp add: stuck_def)
  obtain t where "draft_of (draft T b) (b_recipients b) t" using draft_shape [OF assms(1)] by blast
  then have c: "compile zod V (draft T b) slt \<noteq> Inr c" for c
    using no_recipients_not_compiled [OF assms(2)] assms(4) by (metis stuck_def)
  from assms(3) show ?thesis by cases (use m c assms(4) in \<open>auto simp: stuck_def\<close>)
qed

lemma stuck_forever:
  assumes "T \<in> set (TEMPLATES now)" "zod_documented zod" "(builder_step fmt T (\<lambda>pol. compile zod V pol slt))\<^sup>*\<^sup>* b b'"
    and "stuck b"
  shows "stuck b'"
  using assms(3) by (induction rule: rtranclp_induct) (use assms(4) stuck_step [OF assms(1,2)] in blast)+

text \<open>The confidential step is in the strip while there are recipients.\<close>

lemma strip_confidential:
  assumes "T \<in> set (TEMPLATES now)" "b_recipients b \<noteq> []"
  shows "''confidential'' \<in> set (strip fmt T b)"
proof -
  obtain t where d: "draft_of (draft T b) (b_recipients b) t" using draft_shape [OF assms(1)] by blast
  from draft_graph [OF d, of fmt] assms(2) show ?thesis by (auto simp: strip_def)
qed

text \<open>Splitting evenly.\<close>

lemma enumerate_map: "map (\<lambda>(i, r). f i r) (List.enumerate n xs) = map (\<lambda>i. f i (xs ! (i - n))) [n..<n + length xs]"
  by (rule nth_equalityI) (simp_all add: nth_enumerate_eq)

lemma sum_last: "sum_list (map (\<lambda>i. if i = m then v else e) [0..<Suc m]) = e * int m + (v :: int)"
proof -
  have "map (\<lambda>i. if i = m then v else e) [0..<m] = replicate m e" by (rule nth_equalityI) auto
  then show ?thesis by (simp add: sum_list_replicate)
qed

lemma sum_even: "n \<noteq> 0 \<Longrightarrow> sum_list (map (\<lambda>i. if i = n - 1 then 10000 - e * (int n - 1) else e) [0..<n]) = 10000"
  by (cases n) (simp_all add: sum_last del: upt_Suc)

lemma rebalance_bps:
  "map shareBps (rebalance rs) = map (\<lambda>i. if i = length rs - 1 then 10000 - 10000 div int (length rs) * (int (length rs) - 1)
     else 10000 div int (length rs)) [0..<length rs]"
  by (simp add: rebalance_def Let_def enumerate_map comp_def)

lemma rebalance_rest: "map address (rebalance rs) = map address rs" "map label (rebalance rs) = map label rs"
  by (rule nth_equalityI; simp add: rebalance_def Let_def enumerate_map)+

lemma rebalance_nth: "i < length rs \<Longrightarrow> shareBps (rebalance rs ! i) =
    (if i = length rs - 1 then 10000 - 10000 div int (length rs) * (int (length rs) - 1) else 10000 div int (length rs))"
  by (simp add: rebalance_def Let_def enumerate_map)

lemma length_rebalance [simp]: "length (rebalance rs) = length rs"
  by (simp add: rebalance_def Let_def)

lemma total_rebalance: "rs \<noteq> [] \<Longrightarrow> total_bps (rebalance rs) = 10000"
  using share_total_sum [of "rebalance rs"] sum_even [of "length rs" "10000 div int (length rs)"]
  by (simp add: total_bps_def share_total_def rebalance_bps)

text \<open>The bounds of the shares.\<close>

lemma even_bounds:
  assumes "0 < (n :: int)"
  shows "10000 div n \<le> 10000 - 10000 div n * (n - 1)" "10000 - 10000 div n * (n - 1) < 10000 div n + n"
    "n \<le> 10000 \<Longrightarrow> 1 \<le> 10000 div n" "10000 div n \<le> 10000"
proof -
  obtain q r where q: "10000 div n = q" and r: "0 \<le> r" "r < n" and m: "q * n + r = 10000"
    using assms by (metis div_mult_mod_eq pos_mod_bound pos_mod_sign)
  have "10000 - q * (n - 1) = r + q" unfolding right_diff_distrib using m by linarith
  with r show "10000 div n \<le> 10000 - 10000 div n * (n - 1)" "10000 - 10000 div n * (n - 1) < 10000 div n + n"
    unfolding q by linarith+
  show "n \<le> 10000 \<Longrightarrow> 1 \<le> 10000 div n" using div_int_pos_iff [of 10000 n] zdiv_mono2 [of 10000 n 10000] assms by simp
  show "10000 div n \<le> 10000" using zdiv_mono2 [of 10000 1 n] assms by simp
qed

section \<open>Properties\<close>

text \<open>The recipients of a draft can be edited exactly while there are some: with at least one
  recipient one click in the step strip mounts their editor; but once the last one has
  been removed no sequence of actions on the page, on either template, brings a
  recipient back, and none leads to a deployment.\<close>

theorem recipients_editor_reachable:
  assumes "T \<in> set (TEMPLATES now)" "zod_documented zod"
  shows "(b_recipients b \<noteq> [] \<longrightarrow> (\<exists>b'. builder_step fmt T (\<lambda>pol. compile zod V pol slt) b b' \<and>
      mounted fmt T b' = Some ''recipients'' \<and> b_recipients b' = b_recipients b)) \<and>
    (b_recipients b = [] \<and> b_deploying b = None \<longrightarrow>
      (\<forall>b'. (builder_step fmt T (\<lambda>pol. compile zod V pol slt))\<^sup>*\<^sup>* b b' \<longrightarrow> b_recipients b' = [] \<and> b_deploying b' = None))"
proof (intro conjI impI allI)
  assume ne: "b_recipients b \<noteq> []"
  have "builder_step fmt T (\<lambda>pol. compile zod V pol slt) b (b\<lparr> b_step := ''confidential'' \<rparr>)"
    by (rule go) (rule strip_confidential [OF assms(1) ne])
  then show "\<exists>b'. builder_step fmt T (\<lambda>pol. compile zod V pol slt) b b' \<and>
      mounted fmt T b' = Some ''recipients'' \<and> b_recipients b' = b_recipients b"
    using ne by (intro exI [of _ "b\<lparr> b_step := ''confidential'' \<rparr>"]) (simp add: mounted_recipients [OF assms(1)])
next
  fix b' assume "b_recipients b = [] \<and> b_deploying b = None"
    and run: "(builder_step fmt T (\<lambda>pol. compile zod V pol slt))\<^sup>*\<^sup>* b b'"
  then have "stuck b'" using stuck_forever [OF assms run] by (simp add: stuck_def)
  then show "b_recipients b' = []" "b_deploying b' = None" by (simp_all add: stuck_def)
qed

lemma recipients_editor_reachable_witness:
  "(\<exists>b'. mounted (\<lambda>v. []) xrp_inheritance_definition b' = Some ''recipients'' \<and> b_recipients b' = initial_recipients) \<and>
   b_recipients ` {b'. (builder_step (\<lambda>v. []) xrp_inheritance_definition (\<lambda>pol. compile demo_zod demo_viem pol demo_salt))\<^sup>*\<^sup>*
     (initial_builder\<lparr> b_recipients := [] \<rparr>) b'} = {[]}"
proof -
  have T: "xrp_inheritance_definition \<in> set (TEMPLATES 0)" by (simp add: TEMPLATES_def)
  note th = recipients_editor_reachable [OF T demo_zod_documented, where fmt = "\<lambda>v. []" and V = demo_viem and slt = demo_salt]
  from th [of initial_builder] have "\<exists>b'. mounted (\<lambda>v. []) xrp_inheritance_definition b' = Some ''recipients'' \<and> b_recipients b' = initial_recipients"
    by (auto simp: initial_builder_def initial_recipients_def)
  moreover from th [of "initial_builder\<lparr> b_recipients := [] \<rparr>"]
  have "b_recipients ` {b'. (builder_step (\<lambda>v. []) xrp_inheritance_definition (\<lambda>pol. compile demo_zod demo_viem pol demo_salt))\<^sup>*\<^sup>*
     (initial_builder\<lparr> b_recipients := [] \<rparr>) b'} = {[]}"
    by (auto simp: initial_builder_def image_iff intro!: exI [of _ "initial_builder\<lparr> b_recipients := [] \<rparr>"])
  ultimately show ?thesis ..
qed

text \<open>Splitting evenly makes the recipients compile: whatever the shares were, they now total
  exactly 10000 basis points, the last one takes the remainder, which is less than the
  number of recipients, addresses and names are untouched, and with valid distinct
  addresses and at most 10000 recipients the list is one the schema accepts.\<close>

theorem split_evenly_is_valid:
  assumes "rs \<noteq> []"
  shows "total_bps (rebalance rs) = 10000 \<and> balanced (rebalance rs) \<and>
    map address (rebalance rs) = map address rs \<and> map label (rebalance rs) = map label rs \<and>
    (\<forall>i < length rs - 1. shareBps (rebalance rs ! i) = 10000 div int (length rs)) \<and>
    10000 div int (length rs) \<le> shareBps (last (rebalance rs)) \<and>
    shareBps (last (rebalance rs)) < 10000 div int (length rs) + int (length rs) \<and>
    (length rs \<le> 10000 \<and> distinct (map (\<lambda>r. lower_case (address r)) rs) \<and>
       (\<forall>r \<in> set rs. re_address (address r) \<and> (case label r of None \<Rightarrow> True | Some l \<Rightarrow> js_length l \<le> 120)) \<longrightarrow>
     wf_shares (rebalance rs))"
proof -
  let ?n = "int (length rs)" and ?r = "rebalance rs"
  have n: "0 < ?n" using assms by simp
  have ne: "?r \<noteq> []" using assms by (metis length_0_conv length_rebalance)
  have last: "shareBps (last ?r) = 10000 - 10000 div ?n * (?n - 1)"
    unfolding last_conv_nth [OF ne] length_rebalance using assms by (subst rebalance_nth) simp_all
  have wf: "wf_shares ?r" if ok: "length rs \<le> 10000" "distinct (map (\<lambda>r. lower_case (address r)) rs)"
    "\<forall>r \<in> set rs. re_address (address r) \<and> (case label r of None \<Rightarrow> True | Some l \<Rightarrow> js_length l \<le> 120)"
  proof -
    have fields: "address (?r ! i) = address (rs ! i)" "label (?r ! i) = label (rs ! i)" if "i < length rs" for i
      using that arg_cong [OF rebalance_rest(1), of "\<lambda>l. l ! i" rs] arg_cong [OF rebalance_rest(2), of "\<lambda>l. l ! i" rs] by simp_all
    have "wf_share (?r ! i)" if i: "i < length rs" for i
    proof -
      have "1 \<le> shareBps (?r ! i) \<and> shareBps (?r ! i) \<le> 10000"
        using rebalance_nth [OF i] even_bounds [OF n] ok(1) mult_nonneg_nonneg [of "10000 div ?n" "?n - 1"] n by auto
      with ok(3) i fields [OF i] show ?thesis by (simp add: wf_share_def)
    qed
    then have "list_all wf_share ?r" by (simp add: list_all_length)
    moreover have "map (\<lambda>r. lower_case (address r)) ?r = map (\<lambda>r. lower_case (address r)) rs"
      using arg_cong [OF rebalance_rest(1) [of rs], of "map lower_case"] by (simp add: comp_def)
    ultimately show ?thesis using total_rebalance [OF assms] ok(2) ne by (simp add: wf_shares_def share_total_def total_bps_def)
  qed
  have firsts: "\<forall>i < length rs - 1. shareBps (?r ! i) = 10000 div ?n" using rebalance_nth [of _ rs] by auto
  have bounds: "10000 div ?n \<le> shareBps (last ?r)" "shareBps (last ?r) < 10000 div ?n + ?n"
    unfolding last by (rule even_bounds [OF n])+
  have total: "total_bps ?r = 10000" "balanced ?r" using total_rebalance [OF assms] by (simp_all only: balanced_def)
  show ?thesis
    by (rule conjI, rule total, rule conjI, rule total, rule conjI, rule rebalance_rest, rule conjI, rule rebalance_rest,
        rule conjI, rule firsts, rule conjI, rule bounds, rule conjI, rule bounds, rule impI, elim conjE, rule wf; assumption)
qed

lemma split_evenly_is_valid_witness:
  "wf_shares (rebalance [demo_share CHR ''1'' 7, demo_share CHR ''2'' 0, demo_share CHR ''3'' 0]) \<and>
   shareBps (last (rebalance [demo_share CHR ''1'' 7, demo_share CHR ''2'' 0, demo_share CHR ''3'' 0])) < 3336"
proof -
  let ?rs = "[demo_share CHR ''1'' 7, demo_share CHR ''2'' 0, demo_share CHR ''3'' 0]"
  have "distinct (map (\<lambda>r. lower_case (address r)) ?rs)"
    "list_all (\<lambda>r. re_address (address r) \<and> (case label r of None \<Rightarrow> True | Some l \<Rightarrow> js_length l \<le> 120)) ?rs" by code_simp+
  with split_evenly_is_valid [of ?rs] show ?thesis by (auto simp: list_all_iff)
qed

end
