(* ===== verification/Display.thy ===== *)
theory Display
  imports Builder Policies
begin

text \<open>
  What the browser shows of numbers, addresses and states, and how it reads an amount
  back: \<open>Amount\<close>, \<open>Share\<close>, \<open>Address\<close> and \<open>Duration\<close> of
  apps/web/components/primitives.tsx, the two \<open>parseAmount\<close> functions
  (components/deploy-dialog.tsx and app/policies/[address]/page.tsx), the wording of
  the review (components/review-drawer.tsx), and the list of policies
  (app/policies/page.tsx). A component is its text; the markup around it is left out.
\<close>

section \<open>Amounts\<close>

text \<open>\<open>whole.toString().replace(/\B(?=(\d{3})+(?!\d))/g, ',')\<close>.\<close>

function group_thousands :: "string \<Rightarrow> string" where
  "group_thousands s =
     (if length s \<le> 3 then s
      else group_thousands (take (length s - 3) s) @ '','' @ drop (length s - 3) s)"
  by auto
termination by (relation "measure length") auto

declare group_thousands.simps [simp del]

definition grouped_whole :: "int \<Rightarrow> nat \<Rightarrow> string" where
  "grouped_whole v d = group_thousands (nat_str (nat (\<bar>v\<bar> div 10 ^ d)))"

definition fraction_str :: "int \<Rightarrow> nat \<Rightarrow> string" where
  "fraction_str v d = pad_start d CHR ''0'' (nat_str (nat (\<bar>v\<bar> mod 10 ^ d)))"

definition amount_exact :: "int \<Rightarrow> nat \<Rightarrow> string" where
  "amount_exact v d =
     (if v < 0 then ''-'' else []) @ grouped_whole v d @ (if 0 < d then ''.'' @ fraction_str v d else [])"

definition amount_title :: "int \<Rightarrow> nat \<Rightarrow> string option \<Rightarrow> string" where
  "amount_title v d symbol' =
     amount_exact v d @ (case symbol' of None \<Rightarrow> [] | Some s \<Rightarrow> if s = [] then [] else '' '' @ s)"

definition amount_shown :: "int \<Rightarrow> nat \<Rightarrow> nat \<Rightarrow> string" where
  "amount_shown v d precision =
     (let shown = (if 0 < precision then take precision (fraction_str v d) else []) in
      (if v < 0 then ''-'' else []) @ grouped_whole v d @ (if shown = [] then [] else ''.'' @ shown))"

section \<open>Shares, addresses, durations\<close>

text \<open>\<open>Share\<close>: whole percents as they are, others with \<open>toFixed(2)\<close>.\<close>

definition share_text :: "int \<Rightarrow> string" where
  "share_text bps =
     (if bps mod 100 = 0 then int_str (bps div 100)
      else (if bps < 0 then ''-'' else []) @ nat_str (nat (\<bar>bps\<bar> div 100)) @ ''.'' @
        pad_start 2 CHR ''0'' (nat_str (nat (\<bar>bps\<bar> mod 100)))) @ ''%''"

text \<open>\<open>Address\<close>, on ASCII text; \<open>slice(-0)\<close> is the whole string.\<close>

definition truncated :: "string \<Rightarrow> nat \<Rightarrow> string" where
  "truncated v chars =
     (if chars * 2 + 4 < length v
      then take (chars + 2) v @ [CHR 0xE2, CHR 0x80, CHR 0xA6] @ (if chars = 0 then v else drop (length v - chars) v)
      else v)"

definition address_text :: "string \<Rightarrow> nat \<Rightarrow> string option \<Rightarrow> string" where
  "address_text v chars label' = (case label' of Some l \<Rightarrow> l | None \<Rightarrow> truncated v chars)"

definition duration_units :: "(nat \<times> char) list" where
  "duration_units = [(86400, CHR ''d''), (3600, CHR ''h''), (60, CHR ''m''), (1, CHR ''s'')]"

text \<open>The remainder \<open>abs % sz\<close> of numbers that are not negative.\<close>

definition rat_mod :: "rat \<Rightarrow> nat \<Rightarrow> rat" where
  "rat_mod a sz = a - of_nat sz * of_int \<lfloor>a / of_nat sz\<rfloor>"

text \<open>The units the loop picks: those of the largest that fits and of the next one, if it shows anything.\<close>

fun duration_parts :: "(nat \<times> char) list \<Rightarrow> rat \<Rightarrow> (nat \<times> (nat \<times> char)) list" where
  "duration_parts [] abs' = []"
| "duration_parts ((sz, sfx) # us) abs' =
     (if abs' < of_nat sz then duration_parts us abs'
      else
        (let major = nat \<lfloor>abs' / of_nat sz\<rfloor> in
         case us of
           [] \<Rightarrow> [(major, (sz, sfx))]
         | (sz', sfx') # _ \<Rightarrow>
             (let minor = nat \<lfloor>rat_mod abs' sz / of_nat sz'\<rfloor> in
              if 0 < minor then [(major, (sz, sfx)), (minor, (sz', sfx'))] else [(major, (sz, sfx))])))"

definition part_text :: "nat \<times> (nat \<times> char) \<Rightarrow> string" where
  "part_text p = nat_str (fst p) @ [snd (snd p)]"

definition duration_text :: "rat \<Rightarrow> string" where
  "duration_text seconds =
     (let overdue = (seconds < 0);
          shown = (case duration_parts duration_units \<bar>seconds\<bar> of
              [] \<Rightarrow> ''0s''
            | p # ps \<Rightarrow> part_text p @ concat (map (\<lambda>q. '' '' @ part_text q) ps))
      in if overdue then ''overdue by '' @ shown else shown)"

section \<open>Amounts a user types\<close>

text \<open>viem's \<open>parseUnits\<close> is a parameter; its documented behaviour on a plain decimal of no more than the token's digits.\<close>

type_synonym 'e parse_units = "string \<Rightarrow> int \<Rightarrow> 'e + int"

definition parseUnits_documented :: "'e parse_units \<Rightarrow> bool" where
  "parseUnits_documented PU \<longleftrightarrow>
     (\<forall>ds fs d. ds \<noteq> [] \<and> list_all is_digit ds \<and> list_all is_digit fs \<and> length fs \<le> d \<longrightarrow>
        PU (ds @ ''.'' @ fs) (int d) = Inr (int (dec_val (ds @ fs) * 10 ^ (d - length fs))) \<and>
        PU ds (int d) = Inr (int (dec_val ds * 10 ^ d)))"

definition read_amount :: "'e parse_units \<Rightarrow> int option \<Rightarrow> string \<Rightarrow> int \<Rightarrow> int option" where
  "read_amount PU blank input d =
     (let trimmed = trim input in
      if trimmed = [] then blank
      else if \<not> re_decimal trimmed \<or> trimmed = ''.'' then None
      else (case PU trimmed d of Inl _ \<Rightarrow> None | Inr v \<Rightarrow> if v < 0 then None else Some v))"

definition dialog_parseAmount :: "'e parse_units \<Rightarrow> string \<Rightarrow> int \<Rightarrow> int option" where
  "dialog_parseAmount PU = read_amount PU (Some 0)"

definition monitor_parseAmount :: "'e parse_units \<Rightarrow> string \<Rightarrow> int \<Rightarrow> int option" where
  "monitor_parseAmount PU = read_amount PU None"

section \<open>The review\<close>

definition review_interval :: "int \<Rightarrow> string" where
  "review_interval seconds =
     (let days = js_round (of_int seconds / 86400) in
      if 365 \<le> days \<and> days mod 365 = 0 then
        (let years = days div 365 in if years = 1 then ''one year'' else int_str years @ '' years'')
      else if 30 \<le> days \<and> days mod 30 = 0 then
        (let months = days div 30 in if months = 1 then ''one month'' else int_str months @ '' months'')
      else if days = 1 then ''one day'' else int_str days @ '' days'')"

text \<open>Which of the two is shown: the compiled policy, or the message of what \<open>compile\<close> threw; and whether Deploy is enabled.\<close>

definition review_of :: "(jsv \<Rightarrow> compile_error + compiled_policy) \<Rightarrow> (compile_error \<Rightarrow> string) \<Rightarrow> jsv \<Rightarrow> string option \<times> compiled_policy option" where
  "review_of cmp msg pol = (case cmp pol of Inl e \<Rightarrow> (Some (msg e), None) | Inr c \<Rightarrow> (None, Some c))"

definition review_when :: "(int \<Rightarrow> string) \<Rightarrow> trigger \<Rightarrow> string" where
  "review_when fmt t =
     (case t of
        TimestampTrigger e \<Rightarrow> ''On '' @ fmt e @ '', it will run automatically.''
      | ManualHeartbeat i _ \<Rightarrow> ''If you stop checking in for '' @ review_interval i @ '', it will run automatically.''
      | ChainProofOfLife i _ _ _ \<Rightarrow> ''If you stop checking in for '' @ review_interval i @ '', it will run automatically.'')"

definition review_rows :: "compiled_policy \<Rightarrow> (string \<times> string \<times> string) list" where
  "review_rows c =
     map (\<lambda>r. (case label r of Some l \<Rightarrow> if l = [] then ''Recipient'' else l | None \<Rightarrow> ''Recipient'',
               truncated (address r) 4, share_text (shareBps r)))
       (recipients (privateConfig c))"

section \<open>The list of policies\<close>

text \<open>\<open>PolicyStatus[policy.status] ?? 'Unknown'\<close>, and the badge a status gets: its tone and its text.\<close>

definition status_name :: "jsv \<Rightarrow> string" where
  "status_name v =
     (case find (\<lambda>(k, _). v = JNum (of_nat k)) PolicyStatus of None \<Rightarrow> ''Unknown'' | Some (_, n) \<Rightarrow> n)"

definition StatusBadge :: "string \<Rightarrow> string \<times> string" where
  "StatusBadge status =
     (if status = ''Active'' then (''success'', ''Active'')
      else if status = ''Triggered'' then (''warning'', ''Ready to distribute'')
      else if status = ''Executed'' then (''info'', ''Distributed'')
      else if status = ''Cancelled'' then (''neutral'', ''Cancelled'')
      else (''neutral'', status))"

text \<open>The countdown of an active policy with a deadline.\<close>

definition countdown :: "policy_summary \<Rightarrow> int \<Rightarrow> string option" where
  "countdown s nowSeconds =
     (case s_deadline s of
        None \<Rightarrow> None
      | Some dl \<Rightarrow>
          if s_status s \<noteq> JNum 0 then None
          else (case dl of JNum r \<Rightarrow> Some (duration_text (r - of_int nowSeconds)) | _ \<Rightarrow> Some ''NaNd''))"

record policy_card =
  c_name :: string
  c_badge :: "string \<times> string"
  c_no_copy :: bool
  c_address :: string
  c_countdown :: "string option"

definition PolicyCard :: "int \<Rightarrow> policy_summary \<Rightarrow> policy_card" where
  "PolicyCard nowMs s =
     \<lparr> c_name = (case s_name s of None \<Rightarrow> ''Untitled policy'' | Some n \<Rightarrow> js_text n),
       c_badge = StatusBadge (status_name (s_status s)),
       c_no_copy = (\<not> s_hasPrivateHalf s),
       c_address = truncated (js_text (s_address s)) 6,
       c_countdown = countdown s (nowMs div 1000) \<rparr>"

text \<open>The page's own state, and its one action.\<close>

record policies_page =
  pp_policies :: "policy_summary list option"
  pp_error :: "string option"

definition initial_policies_page :: policies_page where
  "initial_policies_page = \<lparr> pp_policies = None, pp_error = None \<rparr>"

definition load_policies :: "env \<Rightarrow> process_env \<Rightarrow> string option \<Rightarrow> (policies_page \<times> event list, unit) step" where
  "load_policies E P account s =
     (case account of
        None \<Rightarrow> (Inr (), s)
      | Some a \<Rightarrow>
          (let p = (fst s)\<lparr> pp_error := None \<rparr> in
           case listPolicies E P a (snd s) of
             (Inr ss, t') \<Rightarrow> (Inr (), (p\<lparr> pp_policies := Some ss \<rparr>, t'))
           | (Inl e, t') \<Rightarrow> (Inr (), (p\<lparr> pp_error := Some (thrown_message e), pp_policies := Some [] \<rparr>, t'))))"

datatype policies_view = ConnectWallet | Skeleton | NoPoliciesYet | PolicyRows "string option" "policy_card list"

definition policies_view_of :: "string option \<Rightarrow> int \<Rightarrow> policies_page \<Rightarrow> policies_view" where
  "policies_view_of account nowMs p =
     (if account = None then ConnectWallet
      else (case pp_policies p of
          None \<Rightarrow> Skeleton
        | Some ss \<Rightarrow> if ss = [] then NoPoliciesYet else PolicyRows (pp_error p) (map (PolicyCard nowMs) ss)))"

section \<open>Lemmas on amounts\<close>

lemma group_commas: "filter (\<lambda>c. c \<noteq> CHR '','') (group_thousands s) = filter (\<lambda>c. c \<noteq> CHR '','') s"
proof (induction s rule: group_thousands.induct)
  case (1 s)
  have "filter P (take n s) @ filter P (drop n s) = filter P s" for P and n
    by (simp flip: filter_append)
  with 1 show ?case by (cases "length s \<le> 3") (simp_all add: group_thousands.simps [of s])
qed

lemma group_comma_iff: "CHR '','' \<notin> set s \<Longrightarrow> CHR '','' \<in> set (group_thousands s) \<longleftrightarrow> 3 < length s"
  by (subst group_thousands.simps) auto

lemma digits_no_comma: "list_all is_digit s \<Longrightarrow> CHR '','' \<notin> set s"
proof
  assume "list_all is_digit s" "CHR '','' \<in> set s"
  then have "is_digit CHR '',''" by (simp add: list_all_iff)
  moreover have "\<not> is_digit CHR '',''" by code_simp
  ultimately show False by simp
qed

lemma fraction_digits: "list_all is_digit (fraction_str v d)"
  by (simp add: fraction_str_def pad_start_def)

lemma fraction_value: "dec_val (fraction_str v d) = nat (\<bar>v\<bar> mod 10 ^ d)"
  by (simp add: fraction_str_def pad_start_def dec_val_append)

lemma fraction_length: "0 < d \<Longrightarrow> length (fraction_str v d) = d"
proof -
  assume d: "0 < d"
  then obtain k where k: "d = Suc k" using gr0_implies_Suc by blast
  have "nat (\<bar>v\<bar> mod 10 ^ d) < 10 ^ Suc k"
    unfolding k by (simp add: nat_less_iff)
  from length_nat_str [OF this] k show ?thesis by (simp add: fraction_str_def pad_start_def)
qed

lemma dot_facts: "\<not> is_digit CHR ''.''" "\<not> js_ws CHR ''.''"
  by code_simp+

lemma re_decimal_parts:
  assumes "list_all is_digit ds" "list_all is_digit fs"
  shows "re_decimal ds" "re_decimal (ds @ ''.'' @ fs)"
proof -
  have "dropWhile is_digit ds = []" using assms(1) by (simp add: list_all_iff)
  moreover from assms(1) have "dropWhile is_digit (ds @ ''.'' @ fs) = dropWhile is_digit (''.'' @ fs)"
    by (simp add: dropWhile_append list_all_iff)
  ultimately show "re_decimal ds" "re_decimal (ds @ ''.'' @ fs)"
    using assms(2) by (simp_all add: re_decimal_def dot_facts)
qed

text \<open>What the functions that read an amount make of a plain decimal.\<close>

lemma read_plain:
  assumes "list_all (\<lambda>c. \<not> js_ws c) s" "s \<noteq> []" "re_decimal s" "s \<noteq> ''.''" "PU s d = Inr v" "0 \<le> v"
  shows "read_amount PU blank s d = Some v"
  using assms by (simp add: read_amount_def trim_plain)

lemma read_decimal:
  assumes "parseUnits_documented PU" "ds \<noteq> []" "list_all is_digit ds" "list_all is_digit fs" "length fs \<le> d"
  shows "read_amount PU blank (ds @ ''.'' @ fs) (int d) = Some (int (dec_val (ds @ fs) * 10 ^ (d - length fs)))"
    "read_amount PU blank ds (int d) = Some (int (dec_val ds * 10 ^ d))"
proof -
  have ws: "list_all (\<lambda>c. \<not> js_ws c) (ds @ ''.'' @ fs)" "list_all (\<lambda>c. \<not> js_ws c) ds"
    using assms(3,4) dot_facts(2) by (auto simp: list_all_iff digit_not_js_ws)
  have ne: "ds \<noteq> ''.''" "ds @ ''.'' @ fs \<noteq> ''.''" using assms(2,3) dot_facts(1) by (auto simp: append_eq_Cons_conv)
  note doc = assms(1) [unfolded parseUnits_documented_def, rule_format, of ds fs d]
  show "read_amount PU blank (ds @ ''.'' @ fs) (int d) = Some (int (dec_val (ds @ fs) * 10 ^ (d - length fs)))"
    by (rule read_plain [OF ws(1) _ re_decimal_parts(2) [OF assms(3,4)] ne(2)]) (use doc assms(2-) in auto)
  show "read_amount PU blank ds (int d) = Some (int (dec_val ds * 10 ^ d))"
    by (rule read_plain [OF ws(2) assms(2) re_decimal_parts(1) [OF assms(3,4)] ne(1)]) (use doc assms(2-) in auto)
qed

text \<open>A text that stands for a decimal, with the digits before and after its point.\<close>

definition decimal_text :: "string \<Rightarrow> string \<Rightarrow> string \<Rightarrow> bool" where
  "decimal_text s ds fs \<longleftrightarrow> ds \<noteq> [] \<and> list_all is_digit ds \<and> list_all is_digit fs \<and>
     (s = ds @ ''.'' @ fs \<or> s = ds \<and> fs = [])"

lemma read_trim: "list_all (\<lambda>c. \<not> js_ws c) (trim s) \<Longrightarrow> read_amount PU blank (trim s) d = read_amount PU blank s d"
  by (simp add: read_amount_def trim_plain)

lemma read_decimal_text:
  assumes "parseUnits_documented PU" "decimal_text (trim s) ds fs" "length fs \<le> d"
  shows "read_amount PU blank s (int d) = Some (int (dec_val (ds @ fs) * 10 ^ (d - length fs)))"
proof -
  have parts: "ds \<noteq> []" "list_all is_digit ds" "list_all is_digit fs"
    "trim s = ds @ ''.'' @ fs \<or> trim s = ds \<and> fs = []" using assms(2) by (simp_all add: decimal_text_def)
  then have "list_all (\<lambda>c. \<not> js_ws c) (trim s)" using dot_facts(2) by (auto simp: list_all_iff digit_not_js_ws)
  moreover have "read_amount PU blank (trim s) (int d) = Some (int (dec_val (ds @ fs) * 10 ^ (d - length fs)))"
    using read_decimal [OF assms(1) parts(1-3) assms(3)] parts(4) by auto
  ultimately show ?thesis by (simp add: read_trim)
qed

text \<open>A text with a comma is not an amount.\<close>

lemma re_decimal_chars: "re_decimal s \<Longrightarrow> c \<in> set s \<Longrightarrow> is_digit c \<or> c = CHR ''.''"
proof -
  assume r: "re_decimal s" "c \<in> set s"
  have s: "s = takeWhile is_digit s @ dropWhile is_digit s" by simp
  from r(2) have "c \<in> set (takeWhile is_digit s) \<or> c \<in> set (dropWhile is_digit s)" by (metis Un_iff s set_append)
  with r(1) show ?thesis
    by (cases "dropWhile is_digit s") (auto simp: re_decimal_def list_all_iff dest: set_takeWhileD)
qed

lemma set_dropWhile: "c \<in> set s \<Longrightarrow> \<not> P c \<Longrightarrow> c \<in> set (dropWhile P s)"
  by (induction s) auto

lemma comma_refused: "CHR '','' \<in> set s \<Longrightarrow> read_amount PU blank s d = None"
proof -
  assume s: "CHR '','' \<in> set s"
  have c: "\<not> js_ws CHR '',''" "\<not> is_digit CHR '',''" by code_simp+
  have "CHR '','' \<in> set (trim s)" using s set_dropWhile [where P = js_ws, OF _ c(1)] by (simp add: trim_def)
  with re_decimal_chars [of "trim s" "CHR '',''"] c(2) show ?thesis by (auto simp: read_amount_def Let_def)
qed

section \<open>Lemmas on durations\<close>

text \<open>The time a shown text stands for, and the size of its smallest unit.\<close>

definition parts_value :: "(nat \<times> (nat \<times> char)) list \<Rightarrow> rat" where
  "parts_value ps = sum_list (map (\<lambda>(n, (sz, _)). of_nat n * of_nat sz) ps)"

fun unit_below :: "(nat \<times> (nat \<times> char)) list \<Rightarrow> nat" where
  "unit_below [] = 1"
| "unit_below ((n, (sz, _)) # ps) = (case dropWhile (\<lambda>u. sz \<le> fst u) duration_units of [] \<Rightarrow> 1 | u # _ \<Rightarrow> fst u)"

lemma floor_div:
  assumes "0 \<le> (a :: rat)" "0 < sz"
  shows "of_nat (nat \<lfloor>a / of_nat sz\<rfloor>) * of_nat sz \<le> a" "a < of_nat (nat \<lfloor>a / of_nat sz\<rfloor>) * of_nat sz + of_nat sz"
    "of_nat sz \<le> a \<Longrightarrow> 0 < nat \<lfloor>a / of_nat sz\<rfloor>" "rat_mod a sz = a - of_nat (nat \<lfloor>a / of_nat sz\<rfloor>) * of_nat sz"
proof -
  have f: "0 \<le> \<lfloor>a / of_nat sz\<rfloor>" using assms by simp
  have b: "of_int \<lfloor>a / of_nat sz\<rfloor> \<le> a / of_nat sz" "a / of_nat sz < of_int \<lfloor>a / of_nat sz\<rfloor> + 1" by linarith+
  have n: "of_nat (nat \<lfloor>a / of_nat sz\<rfloor>) = (of_int \<lfloor>a / of_nat sz\<rfloor> :: rat)" using f by simp
  have z: "(0 :: rat) < of_nat sz" using assms(2) by simp
  show "of_nat (nat \<lfloor>a / of_nat sz\<rfloor>) * of_nat sz \<le> a"
    unfolding n using b(1) pos_le_divide_eq [OF z] by blast
  show "a < of_nat (nat \<lfloor>a / of_nat sz\<rfloor>) * of_nat sz + of_nat sz"
    unfolding n using b(2) pos_divide_less_eq [OF z] by (simp add: distrib_right)
  show "of_nat sz \<le> a \<Longrightarrow> 0 < nat \<lfloor>a / of_nat sz\<rfloor>" using assms(2) by (simp add: le_floor_iff)
  show "rat_mod a sz = a - of_nat (nat \<lfloor>a / of_nat sz\<rfloor>) * of_nat sz" unfolding rat_mod_def n by simp
qed

lemma two_parts:
  assumes "of_nat sz \<le> (a :: rat)" "0 < sz" "0 < sz'"
  defines "M \<equiv> nat \<lfloor>a / of_nat sz\<rfloor>" and "m \<equiv> nat \<lfloor>rat_mod a sz / of_nat sz'\<rfloor>"
  shows "0 < M" "of_nat M * of_nat sz + of_nat m * of_nat sz' \<le> a"
    "a < of_nat M * of_nat sz + of_nat m * of_nat sz' + of_nat sz'" "m * sz' < sz"
proof -
  have a: "0 \<le> a" using assms(1) by (meson of_nat_0_le_iff order_trans)
  note f = floor_div [OF a assms(2), folded M_def]
  have r: "0 \<le> rat_mod a sz" "rat_mod a sz < of_nat sz" using f(1,2,4) by simp_all
  note g = floor_div [OF r(1) assms(3), folded m_def]
  show "0 < M" by (rule f(3) [OF assms(1)])
  show "of_nat M * of_nat sz + of_nat m * of_nat sz' \<le> a" "a < of_nat M * of_nat sz + of_nat m * of_nat sz' + of_nat sz'"
    using g(1,2) f(4) by simp_all
  have "of_nat (m * sz') < (of_nat sz :: rat)" using g(1) r(2) by simp
  then show "m * sz' < sz" by (simp only: of_nat_less_iff)
qed

text \<open>What is shown of a duration in whole or fractional seconds.\<close>

definition shows_duration :: "rat \<Rightarrow> (nat \<times> (nat \<times> char)) list \<Rightarrow> bool" where
  "shows_duration a ps \<longleftrightarrow> parts_value ps \<le> a \<and> a < parts_value ps + of_nat (unit_below ps) \<and>
     list_all (\<lambda>p. 0 < fst p) ps \<and> length ps \<le> 2 \<and>
     (\<forall>p q. ps = [p, q] \<longrightarrow> fst q * fst (snd q) < fst (snd p) \<and> fst (snd q) = unit_below ps)"

lemma duration_parts_shows:
  assumes "0 \<le> a"
  shows "shows_duration a (duration_parts duration_units a)"
proof -
  consider "a < 1" | "1 \<le> a" "a < 60" | "60 \<le> a" "a < 3600" | "3600 \<le> a" "a < 86400" | "86400 \<le> a" by linarith
  then show ?thesis
  proof cases
    case 1
    with assms show ?thesis by (simp add: duration_units_def shows_duration_def parts_value_def)
  next
    case 2
    with floor_div [OF assms, of 1] show ?thesis
      by (simp add: duration_units_def shows_duration_def parts_value_def Let_def)
  next
    case 3
    with two_parts [of 60 a 1] show ?thesis
      by (auto simp: duration_units_def shows_duration_def parts_value_def Let_def)
  next
    case 4
    with two_parts [of 3600 a 60] show ?thesis
      by (auto simp: duration_units_def shows_duration_def parts_value_def Let_def)
  next
    case 5
    with two_parts [of 86400 a 3600] show ?thesis
      by (auto simp: duration_units_def shows_duration_def parts_value_def Let_def)
  qed
qed

lemma dec_val_less: "dec_val s < 10 ^ length s"
proof (induction s rule: rev_induct)
  case (snoc c s)
  have "(case digit_val c of None \<Rightarrow> 0 | Some k \<Rightarrow> k) < 10"
    by (auto simp: digit_val_def Let_def split: option.split if_splits)
  with snoc show ?case by (simp add: dec_val_def dec_step_def)
qed (simp add: dec_val_def)

lemma long_nat_str: "1000 \<le> n \<Longrightarrow> 3 < length (nat_str n)"
proof (rule ccontr)
  assume "1000 \<le> n" "\<not> 3 < length (nat_str n)"
  moreover have "n < 10 ^ length (nat_str n)" using dec_val_less [of "nat_str n"] by simp
  moreover have "10 ^ length (nat_str n) \<le> (10 :: nat) ^ 3" if "length (nat_str n) \<le> 3"
    using that by (intro power_increasing) simp_all
  ultimately show False by simp
qed

text \<open>A browser whose vault holds a list with no entry in it.\<close>

definition broken_browser :: env where
  "broken_browser = demo_browser\<lparr> env_storage := (\<lambda>k. if k = KEY then Some ''[null]'' else None) \<rparr>"

text \<open>The states of the list page: it starts empty and only \<open>load_policies\<close> changes it.\<close>

inductive page_reachable :: "env \<Rightarrow> process_env \<Rightarrow> policies_page \<Rightarrow> bool" for E P where
  fresh: "page_reachable E P initial_policies_page"
| loaded: "page_reachable E P p \<Longrightarrow> load_policies E P account (p, t) = (r, (p', t')) \<Longrightarrow> page_reachable E P p'"

lemma error_hidden: "page_reachable E P p \<Longrightarrow> pp_error p = None \<or> pp_policies p = Some []"
proof (induction rule: page_reachable.induct)
  case (loaded p account t r p' t')
  from loaded.hyps(2) loaded.IH show ?case
    by (auto simp: load_policies_def Let_def split: option.splits prod.splits sum.splits)
qed (simp add: initial_policies_page_def)

section \<open>Properties\<close>

text \<open>The exact amount in the title of an Amount is the value itself: without the commas, either
  amount field reads it back to the same number of base units; the digits on screen are
  its beginning, cut off and never rounded; and with the commas, from a thousand whole
  tokens on, the fields refuse it rather than read something else.\<close>

theorem amount_round_trip:
  assumes "parseUnits_documented PU" "0 \<le> v"
  shows "monitor_parseAmount PU (filter (\<lambda>c. c \<noteq> CHR '','') (amount_exact v d)) (int d) = Some v \<and>
    dialog_parseAmount PU (filter (\<lambda>c. c \<noteq> CHR '','') (amount_exact v d)) (int d) = Some v \<and>
    (0 < d \<longrightarrow> starts_with (amount_shown v d precision) (amount_exact v d)) \<and>
    (1000 * 10 ^ d \<le> v \<longrightarrow> monitor_parseAmount PU (amount_exact v d) (int d) = None)"
proof (intro conjI impI)
  let ?w = "nat_str (nat (v div 10 ^ d))" and ?f = "fraction_str v d"
  have no_comma: "filter (\<lambda>c. c \<noteq> CHR '','') s = s" if "list_all is_digit s" for s
    using digits_no_comma [OF that] by (auto simp: filter_id_conv)
  have shown: "filter (\<lambda>c. c \<noteq> CHR '','') (amount_exact v d) = ?w @ (if 0 < d then ''.'' @ ?f else [])"
    using assms(2) by (simp add: amount_exact_def grouped_whole_def group_commas no_comma fraction_digits)
  have val: "nat (v div 10 ^ d) * 10 ^ d + nat (v mod 10 ^ d) = nat v"
    using assms(2) div_mult_mod_eq [of "nat v" "10 ^ d"] by (simp only: nat_div_distrib nat_mod_distrib nat_power_eq zero_le_power zero_le_numeral nat_numeral)
  have read: "read_amount PU blank (filter (\<lambda>c. c \<noteq> CHR '','') (amount_exact v d)) (int d) = Some v" for blank
  proof (cases "d = 0")
    case True
    with read_decimal(2) [OF assms(1), of ?w "[]" d] shown assms(2) show ?thesis by simp
  next
    case False
    then have "dec_val (?w @ ?f) = nat v"
      using val assms(2) by (simp add: dec_val_append fraction_length fraction_value)
    with False read_decimal(1) [OF assms(1), of ?w ?f d] shown assms(2) show ?thesis
      by (simp add: fraction_digits fraction_length)
  qed
  show "monitor_parseAmount PU (filter (\<lambda>c. c \<noteq> CHR '','') (amount_exact v d)) (int d) = Some v"
    "dialog_parseAmount PU (filter (\<lambda>c. c \<noteq> CHR '','') (amount_exact v d)) (int d) = Some v"
    unfolding monitor_parseAmount_def dialog_parseAmount_def by (rule read)+
  show "starts_with (amount_shown v d precision) (amount_exact v d)" if "0 < d"
    using that exI [of "\<lambda>r. ?f = take precision ?f @ r", OF append_take_drop_id [symmetric]]
    unfolding starts_with_iff by (auto simp: amount_shown_def amount_exact_def Let_def)
  show "monitor_parseAmount PU (amount_exact v d) (int d) = None" if "1000 * 10 ^ d \<le> v"
  proof -
    have "1000 \<le> v div 10 ^ d" using that zdiv_mono1 [of "1000 * 10 ^ d" v "10 ^ d"] by simp
    then have "1000 \<le> nat (v div 10 ^ d)" by linarith
    then have comma: "CHR '','' \<in> set (amount_exact v d)"
      using group_comma_iff [OF digits_no_comma [OF nat_str_digits]] long_nat_str assms(2)
      by (simp add: amount_exact_def grouped_whole_def)
    then show ?thesis unfolding monitor_parseAmount_def by (rule comma_refused)
  qed
qed

text \<open>viem's \<open>parseUnits\<close> on plain decimals, as documented; on other text an exception.\<close>

definition demo_parseUnits :: "unit parse_units" where
  "demo_parseUnits s d =
     (let ds = takeWhile is_digit s; fs = drop 1 (dropWhile is_digit s) in
      if list_all is_digit fs \<and> length fs \<le> nat d then Inr (int (dec_val (ds @ fs) * 10 ^ (nat d - length fs))) else Inl ())"

lemma demo_parseUnits_documented: "parseUnits_documented demo_parseUnits"
proof -
  have "demo_parseUnits (ds @ ''.'' @ fs) (int d) = Inr (int (dec_val (ds @ fs) * 10 ^ (d - length fs))) \<and>
      demo_parseUnits ds (int d) = Inr (int (dec_val ds * 10 ^ d))"
    if "list_all is_digit ds" "list_all is_digit fs" "length fs \<le> d" for ds fs d
  proof -
    have tk: "takeWhile is_digit (ds @ ''.'' @ fs) = ds" "takeWhile is_digit ds = ds"
      and dp: "dropWhile is_digit (ds @ ''.'' @ fs) = ''.'' @ fs" "dropWhile is_digit ds = []"
      using that(1) dot_facts(1) by (auto simp: list_all_iff)
    show ?thesis unfolding demo_parseUnits_def Let_def tk dp using that(2,3) by simp
  qed
  then show ?thesis by (simp only: parseUnits_documented_def) blast
qed

lemma amount_round_trip_witness:
  "monitor_parseAmount demo_parseUnits ''1234567.000001'' 6 = Some 1234567000001 \<and>
   starts_with ''1,234,567.00'' ''1,234,567.000001''"
proof -
  have digits: "digit 0 = CHR ''0''" "digit (Suc 0) = CHR ''1''" "digit 2 = CHR ''2''" "digit 3 = CHR ''3''" "digit 4 = CHR ''4''"
    "digit 5 = CHR ''5''" "digit 6 = CHR ''6''" "digit 7 = CHR ''7''" by code_simp+
  have n: "nat_str 1234567 = ''1234567''" "nat_str (Suc 0) = ''1''" by (simp_all add: nat_str.simps digits)
  have w: "grouped_whole 1234567000001 6 = group_thousands ''1234567''" by (simp add: grouped_whole_def n)
  have g: "group_thousands ''1234567'' = ''1,234,567''" by code_simp
  have f: "fraction_str 1234567000001 6 = pad_start 6 CHR ''0'' ''1''" by (simp add: fraction_str_def n)
  have z: "pad_start 6 CHR ''0'' ''1'' = ''000001''" by code_simp
  have "amount_exact 1234567000001 6 = ''1,234,567.000001''" "amount_shown 1234567000001 6 2 = ''1,234,567.00''"
    by (simp_all add: amount_exact_def amount_shown_def w g f z)
  with amount_round_trip [OF demo_parseUnits_documented, of 1234567000001 6 2] show ?thesis by simp
qed

text \<open>A countdown shows at most two units, a larger one and the next below it: their value is
  the time that is left rounded down to the smaller of the two, so nothing more than that
  unit is lost, no count is zero and the second stays below one of the first; exactly a
  time that has passed reads overdue.\<close>

theorem duration_shown:
  "\<exists>ps. duration_text seconds = (if seconds < 0 then ''overdue by '' else []) @
       (case ps of [] \<Rightarrow> ''0s'' | p # qs \<Rightarrow> part_text p @ concat (map (\<lambda>q. '' '' @ part_text q) qs)) \<and>
     parts_value ps \<le> \<bar>seconds\<bar> \<and> \<bar>seconds\<bar> < parts_value ps + of_nat (unit_below ps) \<and>
     list_all (\<lambda>p. 0 < fst p) ps \<and> length ps \<le> 2 \<and>
     (\<forall>p q. ps = [p, q] \<longrightarrow> fst q * fst (snd q) < fst (snd p) \<and> fst (snd q) = unit_below ps)"
  using duration_parts_shows [of "\<bar>seconds\<bar>"]
  by (intro exI [of _ "duration_parts duration_units \<bar>seconds\<bar>"]) (simp add: duration_text_def shows_duration_def Let_def)

text \<open>The list page shows one card per policy of its last successful load, in its order; but a
  failed load always reads as having no policies: the error it keeps is never shown.\<close>

theorem failed_load_reads_as_no_policies:
  assumes "page_reachable E P p"
  shows "(\<forall>ss t'. listPolicies E P a t = (Inr ss, t') \<longrightarrow>
      policies_view_of (Some a) now (fst (snd (load_policies E P (Some a) (p, t)))) =
        (if ss = [] then NoPoliciesYet else PolicyRows None (map (PolicyCard now) ss))) \<and>
    (\<forall>e t'. listPolicies E P a t = (Inl e, t') \<longrightarrow>
      policies_view_of (Some a) now (fst (snd (load_policies E P (Some a) (p, t)))) = NoPoliciesYet) \<and>
    (\<forall>e cards. policies_view_of account now p \<noteq> PolicyRows (Some e) cards)"
  using error_hidden [OF assms] by (auto simp: load_policies_def policies_view_of_def split: option.splits if_splits)

lemma failed_load_reads_as_no_policies_witness:
  "\<exists>e t'. listPolicies broken_browser (\<lambda>k. None) ''0xme'' [] = (Inl e, t') \<and>
     policies_view_of (Some ''0xme'') 0 (fst (snd (load_policies broken_browser (\<lambda>k. None) (Some ''0xme'') (initial_policies_page, [])))) = NoPoliciesYet"
proof -
  have "listPolicies broken_browser (\<lambda>k. None) ''0xme'' [] = (Inl (new_error ''Cannot read properties of null''), [])"
    by code_simp
  with failed_load_reads_as_no_policies [OF page_reachable.fresh, where E = broken_browser] show ?thesis by blast
qed

end
