(* ===== verification/DeployDialog.thy ===== *)
theory DeployDialog
  imports Display Deploy Wallet
begin

text \<open>
  The dialog around a deployment (apps/web/components/deploy-dialog.tsx): the state it
  keeps, the two checks it makes when a wallet is connected, when Deploy is enabled and
  what a click on it does. Here each check runs alone; how they interleave, and which answers
  are dropped, is DialogChecks.
\<close>

record deploy_dialog =
  g_amount :: string
  g_held :: "int option"
  g_steps :: "deploy_step list option"
  g_running :: bool
  g_failure :: "string option"
  g_entry :: "vault_entry option"
  g_enclave :: "(bool \<times> string option) option"

type_synonym dialog_step = "(deploy_dialog \<times> event list, unit) step"

definition initial_dialog :: deploy_dialog where
  "initial_dialog = \<lparr> g_amount = [], g_held = None, g_steps = None, g_running = False, g_failure = None, g_entry = None, g_enclave = None \<rparr>"

section \<open>The two checks\<close>

text \<open>The wallet's balance of the token, \<open>null\<close> when it cannot be read.\<close>

definition read_held :: "browser \<Rightarrow> wallet_state \<Rightarrow> dialog_step" where
  "read_held B w s =
     (if \<not> truthy (w_account w) \<or> \<not> onCoston2 w then (Inr (), s)
      else (case readContract (br_env B) (fxrp (ADDRESSES (br_process B))) ''balanceOf'' [w_account w] (snd s) of
          (Inr (JBig b), t') \<Rightarrow> (Inr (), ((fst s)\<lparr> g_held := Some b \<rparr>, t'))
        | (_, t') \<Rightarrow> (Inr (), ((fst s)\<lparr> g_held := None \<rparr>, t'))))"

definition probe_enclave :: "browser \<Rightarrow> wallet_state \<Rightarrow> dialog_step" where
  "probe_enclave B w s =
     (if \<not> truthy (w_account w) \<or> \<not> onCoston2 w then (Inr (), s)
      else (case probeEnclaveKey B (snd s) of
          (Inr a, t') \<Rightarrow> (Inr (), ((fst s)\<lparr> g_enclave := Some a \<rparr>, t'))
        | (Inl e, t') \<Rightarrow> (Inr (), (fst s, t'))))"

section \<open>The amount\<close>

text \<open>The amount as it is parsed; a dialog whose asset is unknown does not render.\<close>

definition dialog_decimals :: "compiled_policy \<Rightarrow> int option" where
  "dialog_decimals compiled = (case getAsset (ir_asset (ir compiled)) of Inr (Asset a) \<Rightarrow> Some (decimals a) | _ \<Rightarrow> None)"

definition parsed_amount :: "'e parse_units \<Rightarrow> compiled_policy \<Rightarrow> deploy_dialog \<Rightarrow> int option" where
  "parsed_amount PU compiled g =
     (case dialog_decimals compiled of None \<Rightarrow> None | Some d \<Rightarrow> dialog_parseAmount PU (g_amount g) d)"

definition over_balance :: "'e parse_units \<Rightarrow> compiled_policy \<Rightarrow> deploy_dialog \<Rightarrow> bool" where
  "over_balance PU compiled g =
     (case (parsed_amount PU compiled g, g_held g) of (Some v, Some h) \<Rightarrow> h < v | _ \<Rightarrow> False)"

definition amount_invalid :: "'e parse_units \<Rightarrow> compiled_policy \<Rightarrow> deploy_dialog \<Rightarrow> bool" where
  "amount_invalid PU compiled g = (trim (g_amount g) \<noteq> [] \<and> parsed_amount PU compiled g = None)"

definition max_amount :: "(int \<Rightarrow> int \<Rightarrow> string) \<Rightarrow> compiled_policy \<Rightarrow> deploy_dialog \<Rightarrow> deploy_dialog" where
  "max_amount formatUnits compiled g =
     (case (g_held g, dialog_decimals compiled) of (Some h, Some d) \<Rightarrow> g\<lparr> g_amount := formatUnits h d \<rparr> | _ \<Rightarrow> g)"

text \<open>The line under the amount.\<close>

definition amount_line :: "(int \<Rightarrow> int \<Rightarrow> string) \<Rightarrow> 'e parse_units \<Rightarrow> compiled_policy \<Rightarrow> string \<Rightarrow> deploy_dialog \<Rightarrow> string" where
  "amount_line formatUnits PU compiled symbol' g =
     (if over_balance PU compiled g then ''That is more than your wallet holds.''
      else (case g_held g of
          None \<Rightarrow> ''Balance unavailable''
        | Some h \<Rightarrow> ''You hold '' @ formatUnits h (case dialog_decimals compiled of None \<Rightarrow> 0 | Some d \<Rightarrow> d) @ '' '' @ symbol'))"

section \<open>The run\<close>

definition deploy_enabled :: "process_env \<Rightarrow> 'e parse_units \<Rightarrow> compiled_policy \<Rightarrow> wallet_state \<Rightarrow> deploy_dialog \<Rightarrow> bool" where
  "deploy_enabled P PU compiled w g =
     (dialog_decimals compiled \<noteq> None \<and> g_entry g = None \<and>
      \<not> (g_running g \<or> \<not> contractsConfigured P \<or> \<not> truthy (w_account w) \<or> \<not> onCoston2 w \<or>
         amount_invalid PU compiled g \<or> over_balance PU compiled g))"

definition deploy_label :: "deploy_dialog \<Rightarrow> string" where
  "deploy_label g =
     (if g_running g then ''Deploying'' @ [CHR 0xE2, CHR 0x80, CHR 0xA6] else if g_failure g \<noteq> None then ''Try again'' else ''Deploy'')"

definition can_dismiss :: "deploy_dialog \<Rightarrow> bool" where
  "can_dismiss g = (\<not> g_running g)"

text \<open>\<open>setSteps\<close> is the progress callback: the steps on screen are the last that were reported.\<close>

definition reported_steps :: "event list \<Rightarrow> deploy_step list option \<Rightarrow> deploy_step list option" where
  "reported_steps u old = foldl (\<lambda>s e. case e of Progress st \<Rightarrow> Some st | _ \<Rightarrow> s) old u"

definition dialog_run :: "browser \<Rightarrow> 'e parse_units \<Rightarrow> compiled_policy \<Rightarrow> string \<Rightarrow> string \<Rightarrow> wallet_state \<Rightarrow> dialog_step" where
  "dialog_run B PU compiled slt templateId w s =
     (if \<not> truthy (w_account w) then (Inr (), s)
      else
        (let g = (fst s)\<lparr> g_running := True, g_failure := None \<rparr>;
             dep = (case parsed_amount PU compiled (fst s) of None \<Rightarrow> 0 | Some v \<Rightarrow> v);
             (r, t') = deployPolicy B compiled slt templateId (js_text (w_account w)) dep (snd s);
             g1 = g\<lparr> g_steps := reported_steps (drop (length (snd s)) t') (g_steps g) \<rparr>
         in (Inr (),
             ((case r of Inr entry \<Rightarrow> g1\<lparr> g_entry := Some entry \<rparr> | Inl e \<Rightarrow> g1\<lparr> g_failure := Some (thrown_message e) \<rparr>)\<lparr> g_running := False \<rparr>,
              t'))))"

text \<open>The mark of a step on the list.\<close>

definition StepMarker :: "string \<Rightarrow> string" where
  "StepMarker status =
     (if status = ''done'' then ''check''
      else if status = ''error'' then ''cross''
      else if status = ''running'' then ''spinner''
      else if status = ''skipped'' then ''dash''
      else ''circle'')"

section \<open>Lemmas\<close>

lemma read_amount_nonneg: "read_amount PU (Some 0) s d = Some v \<Longrightarrow> 0 \<le> v"
  by (auto simp: read_amount_def Let_def split: if_splits sum.splits)

text \<open>With Deploy enabled the amount is read, and it is neither negative nor above a known balance.\<close>

lemma enabled_amount:
  assumes "deploy_enabled P PU compiled w g"
  shows "\<exists>v. parsed_amount PU compiled g = Some v \<and> 0 \<le> v \<and> (\<forall>h. g_held g = Some h \<longrightarrow> v \<le> h)"
proof -
  obtain d where d: "dialog_decimals compiled = Some d" using assms by (auto simp: deploy_enabled_def)
  have "\<exists>v. dialog_parseAmount PU (g_amount g) d = Some v"
  proof (cases "trim (g_amount g) = []")
    case True
    then show ?thesis by (simp add: dialog_parseAmount_def read_amount_def)
  next
    case False
    with assms show ?thesis by (auto simp: deploy_enabled_def amount_invalid_def parsed_amount_def d)
  qed
  then obtain v where v: "dialog_parseAmount PU (g_amount g) d = Some v" ..
  then have p: "parsed_amount PU compiled g = Some v" by (simp add: parsed_amount_def d)
  moreover have "0 \<le> v" using v by (auto simp: dialog_parseAmount_def intro: read_amount_nonneg)
  moreover have "\<forall>h. g_held g = Some h \<longrightarrow> v \<le> h"
    using assms p by (auto simp: deploy_enabled_def over_balance_def)
  ultimately show ?thesis by blast
qed

text \<open>The amount that was read is the decimal on screen, in units of the policy's asset.\<close>

lemma decimals_natural: "dialog_decimals compiled = Some d \<Longrightarrow> d = int (nat d)"
  by (auto simp: dialog_decimals_def getAsset_Inr_iff ASSETS_def split: sum.splits asset_lookup.splits)

lemma parsed_blank: "parsed_amount PU compiled g = Some v \<Longrightarrow> trim (g_amount g) = [] \<Longrightarrow> v = 0"
  by (auto simp: parsed_amount_def dialog_parseAmount_def read_amount_def split: option.splits)

lemma parsed_decimal:
  assumes "parseUnits_documented PU" "parsed_amount PU compiled g = Some v" "dialog_decimals compiled = Some (int d)"
    and "decimal_text (trim (g_amount g)) ds fs" "length fs \<le> d"
  shows "v = int (dec_val (ds @ fs) * 10 ^ (d - length fs))"
  using assms(2) read_decimal_text [OF assms(1,4,5), of "Some 0"]
  by (simp add: parsed_amount_def assms(3) dialog_parseAmount_def)

section \<open>A concrete dialog\<close>

definition demo_wallet :: wallet_state where
  "demo_wallet = \<lparr> w_account = JStr ''0xme'', w_chainId = Some 114, w_connecting = False, w_error = None \<rparr>"

definition dialog_process :: process_env where
  "dialog_process k =
     (if k \<in> {''NEXT_PUBLIC_POLICY_FACTORY'', ''NEXT_PUBLIC_TEE_ATTESTOR_GATE'', ''NEXT_PUBLIC_MANUAL_HEARTBEAT_TRIGGER''} then Some ''0xfa''
      else None)"

definition dialog_web :: browser where
  "dialog_web = demo_web\<lparr> br_process := dialog_process \<rparr>"

lemma demo_read_amount: "read_amount demo_parseUnits blank ''1.5'' 6 = Some 1500000"
proof -
  have d: "is_digit CHR ''1''" "is_digit CHR ''5''" "dec_val ''15'' = 15" by code_simp+
  show ?thesis
    using read_decimal(1) [OF demo_parseUnits_documented, of "''1''" "''5''" 6 blank] by (simp add: d)
qed

lemma demo_parsed: "parsed_amount demo_parseUnits demo_compiled (initial_dialog\<lparr> g_amount := ''1.5'' \<rparr>) = Some 1500000"
proof -
  have "dialog_decimals demo_compiled = Some 6" by code_simp
  then show ?thesis by (simp add: parsed_amount_def dialog_parseAmount_def initial_dialog_def demo_read_amount)
qed

lemma demo_deploy_enabled: "deploy_enabled (br_process dialog_web) demo_parseUnits demo_compiled demo_wallet (initial_dialog\<lparr> g_amount := ''1.5'' \<rparr>)"
proof -
  have "dialog_decimals demo_compiled = Some 6" by code_simp
  moreover have "contractsConfigured dialog_process" by code_simp
  ultimately show ?thesis
    using demo_parsed
    by (simp add: deploy_enabled_def amount_invalid_def over_balance_def initial_dialog_def demo_wallet_def onCoston2_def
        coston2_id_def dialog_web_def)
qed

section \<open>Properties\<close>

text \<open>C33: A click on an enabled Deploy ends with the dialog not running, having asked for the
  transactions of one deployment of the amount on screen: nothing for a blank field, and for a decimal
  with no more digits after the point than the policy's asset has decimals exactly that decimal of the
  asset. (A longer fraction is rounded by the library that parses it, of which nothing is assumed.) The
  amount is not negative and, if the dialog has read a balance, at most that balance. Either the entry
  is shown, and it is a completed deployment's, or a message is, no entry, and Deploy is enabled again;
  that click starts another deployment from its first transaction.\<close>

theorem dialog_deploys_what_is_shown:
  assumes "deploy_enabled (br_process B) PU compiled w g" "vault_ok (br_env B) t"
    and "dialog_run B PU compiled slt templateId w (g, t) = (r, (g', t'))"
    and "parseUnits_documented PU"
  shows "\<exists>u v d. t' = t @ u \<and> r = Inr () \<and> \<not> g_running g' \<and>
    dialog_decimals compiled = Some (int d) \<and> (trim (g_amount g) = [] \<longrightarrow> v = 0) \<and>
    (\<forall>ds fs. decimal_text (trim (g_amount g)) ds fs \<and> length fs \<le> d \<longrightarrow>
       v = int (dec_val (ds @ fs) * 10 ^ (d - length fs))) \<and>
    parsed_amount PU compiled g = Some v \<and> 0 \<le> v \<and>
    (\<forall>h. g_held g = Some h \<longrightarrow> v \<le> h) \<and> deploy_order B compiled (js_text (w_account w)) v (written u) \<and>
    (case g_entry g' of
       Some entry \<Rightarrow> g_failure g' = None \<and> deploy_done B compiled slt templateId (js_text (w_account w)) v (written u) entry t'
     | None \<Rightarrow> g_failure g' \<noteq> None \<and> deploy_enabled (br_process B) PU compiled w g')"
proof -
  obtain v where v: "parsed_amount PU compiled g = Some v" "0 \<le> v" "\<forall>h. g_held g = Some h \<longrightarrow> v \<le> h"
    using enabled_amount [OF assms(1)] by blast
  obtain z where z: "dialog_decimals compiled = Some z" using assms(1) by (auto simp: deploy_enabled_def)
  obtain d where d: "dialog_decimals compiled = Some (int d)" using z decimals_natural [OF z] by metis
  note amount = parsed_blank [OF v(1)] parsed_decimal [OF assms(4) v(1) d]
  obtain r0 t0 where run: "deployPolicy B compiled slt templateId (js_text (w_account w)) v t = (r0, t0)" by (rule prod.exhaust)
  obtain u where u: "t0 = t @ u" "deploy_order B compiled (js_text (w_account w)) v (written u)"
    "\<And>entry. r0 = Inr entry \<Longrightarrow> deploy_done B compiled slt templateId (js_text (w_account w)) v (written u) entry t0"
    using deployPolicy_effect [OF assms(2) run] by blast
  have acc: "truthy (w_account w)" "g_entry g = None" using assms(1) by (simp_all add: deploy_enabled_def)
  have "parsed_amount PU compiled (g\<lparr> g_failure := f, g_steps := st, g_running := False \<rparr>) = parsed_amount PU compiled g" for f st
    by (simp add: parsed_amount_def split: option.split)
  then have again: "deploy_enabled (br_process B) PU compiled w (g\<lparr> g_failure := f, g_steps := st, g_running := False \<rparr>)" for f st
    using assms(1) by (simp add: deploy_enabled_def amount_invalid_def over_balance_def)
  show ?thesis
  proof (cases r0)
    case (Inl e)
    then have "g' = g\<lparr> g_failure := Some (thrown_message e), g_steps := reported_steps u (g_steps g), g_running := False \<rparr>"
      "r = Inr ()" "t' = t @ u" using assms(3) acc v(1) run u(1) by (auto simp: dialog_run_def Let_def)
    with again acc(2) u(2) v d amount show ?thesis by (intro exI [of _ u] exI [of _ v] exI [of _ d]) simp
  next
    case (Inr entry)
    then have "g_entry g' = Some entry" "g_failure g' = None" "\<not> g_running g'" "r = Inr ()" "t' = t @ u"
      using assms(3) acc v(1) run u(1) by (auto simp: dialog_run_def Let_def)
    with u(1,2) u(3) [OF Inr] v d amount show ?thesis by (intro exI [of _ u] exI [of _ v] exI [of _ d]) simp
  qed
qed

lemma dialog_deploys_what_is_shown_witness:
  "\<exists>r g' t'. dialog_run dialog_web demo_parseUnits demo_compiled ''0x01'' ''xrp'' demo_wallet (initial_dialog\<lparr> g_amount := ''1.5'' \<rparr>, []) = (r, (g', t')) \<and>
     \<not> g_running g' \<and> deploy_order dialog_web demo_compiled ''0xme'' 1500000 (written t')"
proof -
  have ok: "vault_ok (br_env dialog_web) []" by (simp add: dialog_web_def)
  obtain r g' t' where run: "dialog_run dialog_web demo_parseUnits demo_compiled ''0x01'' ''xrp'' demo_wallet
      (initial_dialog\<lparr> g_amount := ''1.5'' \<rparr>, []) = (r, (g', t'))" by (rule prod_cases3)
  have "js_text (w_account demo_wallet) = ''0xme''" by (simp add: demo_wallet_def js_text_def)
  moreover have "dialog_decimals demo_compiled = Some 6" by code_simp
  moreover have "decimal_text (trim (g_amount (initial_dialog\<lparr> g_amount := ''1.5'' \<rparr>))) ''1'' ''5''" "dec_val (''1'' @ ''5'') = 15"
    by code_simp+
  ultimately show ?thesis
    using dialog_deploys_what_is_shown [OF demo_deploy_enabled ok run demo_parseUnits_documented] run by fastforce
qed

end
