(* ===== verification/Monitor.thy ===== *)
theory Monitor
  imports DeployDialog
begin

text \<open>
  The Monitor (apps/web/app/policies/[address]/page.tsx): the page of one policy, its
  reading of the chain, and every button on it. An action runs from the state of the
  page and the trace of the world to the next of both; what a button needs to be shown
  and enabled is a predicate. The ticking clock and the markup are left out.
\<close>

section \<open>The page\<close>

record monitor =
  m_policy :: "policy_summary option"
  m_entry :: "jsv option"
  m_demo :: bool
  m_error :: "string option"
  m_busy :: "string option"
  m_lastTx :: "string option"
  m_amount :: string

type_synonym 'a screen = "(monitor \<times> event list, 'a) step"

definition initial_monitor :: monitor where
  "initial_monitor = \<lparr> m_policy = None, m_entry = None, m_demo = False, m_error = None, m_busy = None,
     m_lastTx = None, m_amount = [] \<rparr>"

definition show_that :: "(monitor \<Rightarrow> monitor) \<Rightarrow> unit screen" where
  "show_that f s = (Inr (), (f (fst s), snd s))"

definition on_world :: "'a act \<Rightarrow> 'a screen" where
  "on_world m s = (case m (snd s) of (r, t') \<Rightarrow> (r, (fst s, t')))"

definition refresh :: "env \<Rightarrow> string \<Rightarrow> unit screen" where
  "refresh E address' =
     act_catch
       (act_bind (on_world (readPolicy E address')) (\<lambda>summary.
        act_bind (show_that (\<lambda>m. m\<lparr> m_policy := Some summary \<rparr>)) (\<lambda>_.
        if s_triggerKind summary = JStr ''manual-heartbeat'' then
          act_bind (on_world (readHeartbeatConfig E (js_text (s_trigger summary)) address')) (\<lambda>config.
          show_that (\<lambda>m. m\<lparr> m_demo := (case config of Some (_, _, _, demo) \<Rightarrow> truthy demo | None \<Rightarrow> False) \<rparr>))
        else act_return ())))
       (\<lambda>e. show_that (\<lambda>m. m\<lparr> m_error := Some (thrown_message e) \<rparr>))"

text \<open>The effect that runs when the page opens; an exception of \<open>getEntry\<close> leaves it.\<close>

definition open_page :: "env \<Rightarrow> string \<Rightarrow> unit screen" where
  "open_page E address' =
     act_bind (on_world (get_entry E address')) (\<lambda>entry.
     act_bind (show_that (\<lambda>m. m\<lparr> m_entry := entry \<rparr>)) (\<lambda>_.
     refresh E address'))"

text \<open>Every write goes through \<open>send\<close>.\<close>

definition page_send :: "env \<Rightarrow> string \<Rightarrow> string \<Rightarrow> string screen \<Rightarrow> unit screen" where
  "page_send E address' lbl run =
     act_bind (show_that (\<lambda>m. m\<lparr> m_busy := Some lbl, m_error := None \<rparr>)) (\<lambda>_.
     act_bind
       (act_catch
          (act_bind run (\<lambda>hash.
           act_bind (show_that (\<lambda>m. m\<lparr> m_lastTx := Some hash \<rparr>)) (\<lambda>_.
           act_bind (on_world (waitForTransactionReceipt E hash)) (\<lambda>_.
           refresh E address'))))
          (\<lambda>e. show_that (\<lambda>m. m\<lparr> m_error := Some (walletErrorMessage e) \<rparr>))) (\<lambda>_.
     show_that (\<lambda>m. m\<lparr> m_busy := None \<rparr>)))"

section \<open>The actions\<close>

definition plain_call :: "string \<Rightarrow> string \<Rightarrow> jsv list \<Rightarrow> contract_call" where
  "plain_call a f args = \<lparr> call_to = a, call_fn = f, call_args = args, call_value = 0 \<rparr>"

definition wallet_write :: "env \<Rightarrow> contract_call \<Rightarrow> string screen" where
  "wallet_write E c = act_bind (walletClient E) (\<lambda>_. on_world (writeContract E c))"

definition checkIn :: "env \<Rightarrow> string \<Rightarrow> wallet_state \<Rightarrow> unit screen" where
  "checkIn E address' w s =
     (case m_policy (fst s) of
        Some p \<Rightarrow>
          if \<not> truthy (w_account w) then (Inr (), s)
          else page_send E address' ''check-in'' (wallet_write E (plain_call (js_text (s_trigger p)) ''heartbeat'' [JStr address'])) s
      | None \<Rightarrow> (Inr (), s))"

definition simulateInactivity :: "env \<Rightarrow> string \<Rightarrow> wallet_state \<Rightarrow> unit screen" where
  "simulateInactivity E address' w s =
     (case m_policy (fst s) of
        Some p \<Rightarrow>
          if \<not> truthy (w_account w) then (Inr (), s)
          else page_send E address' ''simulate'' (wallet_write E (plain_call (js_text (s_trigger p)) ''simulateInactivity'' [JStr address'])) s
      | None \<Rightarrow> (Inr (), s))"

text \<open>
  \<open>saveEntry({ ...entry, handoff: ... })\<close> on an entry as the vault holds it, which
  has a string \<open>policy\<close> because \<open>getEntry\<close> found it.
\<close>

definition save_raw :: "env \<Rightarrow> jsv \<Rightarrow> unit act" where
  "save_raw E e t =
     (case policy_key e of
        Inl x \<Rightarrow> (Inl x, t)
      | Inr k \<Rightarrow> (case other_entries k (vault_read E t) of Inl x \<Rightarrow> (Inl x, t) | Inr others \<Rightarrow> vault_write E (others @ [e]) t))"

definition handoff_js :: "handoff_result \<Rightarrow> int \<Rightarrow> jsv" where
  "handoff_js h now = JObj [(''instructionId'', JStr (h_instructionId h)), (''txHash'', JStr (h_txHash h)), (''at'', JNum (of_int now))]"

definition handoff_run :: "env \<Rightarrow> process_env \<Rightarrow> decoder \<Rightarrow> string \<Rightarrow> jsv \<Rightarrow> string screen" where
  "handoff_run E P decode address' entry =
     act_bind (on_world (storePolicyOnChain E P decode (js_text (prop_of entry ''policy'')) (js_text (prop_of entry ''ciphertext'')))) (\<lambda>result.
     act_bind (on_world (clock E)) (\<lambda>now.
     act_bind (on_world (save_raw E (set_field entry ''handoff'' (handoff_js result now)))) (\<lambda>_.
     act_bind (on_world (get_entry E address')) (\<lambda>entry'.
     act_bind (show_that (\<lambda>m. m\<lparr> m_entry := entry' \<rparr>)) (\<lambda>_.
     act_return (h_txHash result))))))"

definition sendToEnclave :: "env \<Rightarrow> process_env \<Rightarrow> decoder \<Rightarrow> string \<Rightarrow> wallet_state \<Rightarrow> unit screen" where
  "sendToEnclave E P decode address' w s =
     (case m_entry (fst s) of
        Some entry \<Rightarrow>
          if w_account w = JNull \<or> m_busy (fst s) \<noteq> None then (Inr (), s)
          else page_send E address' ''handoff'' (handoff_run E P decode address' entry) s
      | None \<Rightarrow> (Inr (), s))"

definition allowance_args :: "wallet_state \<Rightarrow> policy_summary \<Rightarrow> jsv list" where
  "allowance_args w p = [w_account w, s_address p]"

text \<open>\<open>allowance < amount\<close>; the ABI types the allowance as a wide integer.\<close>

definition deposit :: "env \<Rightarrow> process_env \<Rightarrow> wallet_state \<Rightarrow> policy_summary \<Rightarrow> int \<Rightarrow> string screen" where
  "deposit E P w p amt =
     act_bind (walletClient E) (\<lambda>_.
     act_bind (on_world (readContract E (fxrp (ADDRESSES P)) ''allowance'' (allowance_args w p))) (\<lambda>allowance.
     act_bind
       (case allowance of
          JBig al \<Rightarrow>
            if al < amt then
              act_bind (on_world (writeContract E (approve_call P (js_text (s_address p)) amt))) (\<lambda>approval.
              act_bind (on_world (waitForTransactionReceipt E approval)) (\<lambda>_. act_return ()))
            else act_return ()
        | _ \<Rightarrow> act_throw (new_error ''allowance is not a bigint'')) (\<lambda>_.
     on_world (writeContract E (deposit_call (js_text (s_address p)) amt)))))"

definition withdraw :: "env \<Rightarrow> policy_summary \<Rightarrow> int \<Rightarrow> string screen" where
  "withdraw E p amt = wallet_write E (plain_call (js_text (s_address p)) ''withdraw'' [JBig amt])"

definition cancel :: "env \<Rightarrow> policy_summary \<Rightarrow> string screen" where
  "cancel E p = wallet_write E (plain_call (js_text (s_address p)) ''cancel'' [])"

section \<open>The buttons\<close>

datatype monitor_action = CheckIn | Simulate | SendToEnclave | Deposit | Withdraw | Cancel

text \<open>The asset's decimals; a page whose asset is unknown does not render, so it offers nothing.\<close>

definition page_decimals :: "monitor \<Rightarrow> int option" where
  "page_decimals m =
     (case getAsset (js_text (nullish_or (case m_entry m of None \<Rightarrow> JUndef | Some e \<Rightarrow> prop_of e ''assetSymbol'') (JStr ''FXRP''))) of
        Inr (Asset a) \<Rightarrow> Some (decimals a)
      | _ \<Rightarrow> None)"

definition typed_amount :: "'e parse_units \<Rightarrow> monitor \<Rightarrow> int option" where
  "typed_amount PU m = (case page_decimals m of None \<Rightarrow> None | Some d \<Rightarrow> monitor_parseAmount PU (m_amount m) d)"

definition usable :: "'e parse_units \<Rightarrow> wallet_state \<Rightarrow> monitor \<Rightarrow> bool" where
  "usable PU w m =
     (w_account w \<noteq> JNull \<and> (case typed_amount PU m of None \<Rightarrow> False | Some v \<Rightarrow> 0 < v) \<and> m_busy m = None)"

definition connected :: "wallet_state \<Rightarrow> monitor \<Rightarrow> bool" where
  "connected w m = (\<not> (m_busy m \<noteq> None \<or> \<not> truthy (w_account w) \<or> \<not> onCoston2 w))"

text \<open>A button is on the screen and enabled.\<close>

definition offered :: "process_env \<Rightarrow> 'e parse_units \<Rightarrow> wallet_state \<Rightarrow> monitor \<Rightarrow> monitor_action \<Rightarrow> bool" where
  "offered P PU w m a =
     (page_decimals m \<noteq> None \<and>
      (case m_policy m of
         None \<Rightarrow> False
       | Some p \<Rightarrow>
           (case a of
              CheckIn \<Rightarrow> s_status p = JNum 0 \<and> s_triggerKind p = JStr ''manual-heartbeat'' \<and> connected w m
            | Simulate \<Rightarrow> m_demo m \<and> s_status p = JNum 0 \<and> connected w m
            | SendToEnclave \<Rightarrow>
                (case m_entry m of
                   None \<Rightarrow> False
                 | Some e \<Rightarrow> \<not> truthy (prop_of e ''handoff'') \<and> truthy (prop_of e ''ciphertext'') \<and>
                     enclaveHandoffConfigured P \<and> \<not> (w_account w = JNull \<or> m_busy m \<noteq> None))
            | Deposit \<Rightarrow> s_status p = JNum 0 \<and> usable PU w m
            | Withdraw \<Rightarrow> s_status p = JNum 0 \<and> usable PU w m \<and>
                (case (typed_amount PU m, s_balance p) of (Some v, JBig b) \<Rightarrow> \<not> b < v | _ \<Rightarrow> False)
            | Cancel \<Rightarrow> s_status p = JNum 0 \<and> \<not> (w_account w = JNull \<or> m_busy m \<noteq> None))))"

text \<open>What a click runs: the handler of the button, with what follows it.\<close>

definition funding_click :: "env \<Rightarrow> string \<Rightarrow> 'e parse_units \<Rightarrow> wallet_state \<Rightarrow> string \<Rightarrow> (policy_summary \<Rightarrow> int \<Rightarrow> string screen) \<Rightarrow> unit screen" where
  "funding_click E address' PU w lbl run s =
     (case (m_policy (fst s), typed_amount PU (fst s)) of
        (Some p, Some v) \<Rightarrow>
          if \<not> usable PU w (fst s) then (Inr (), s)
          else act_bind (page_send E address' lbl (run p v)) (\<lambda>_. show_that (\<lambda>m. m\<lparr> m_amount := [] \<rparr>)) s
      | _ \<Rightarrow> (Inr (), s))"

definition cancel_click :: "env \<Rightarrow> string \<Rightarrow> wallet_state \<Rightarrow> unit screen" where
  "cancel_click E address' w s =
     (case m_policy (fst s) of
        Some p \<Rightarrow>
          if w_account w = JNull \<or> m_busy (fst s) \<noteq> None then (Inr (), s)
          else act_bind (page_send E address' ''cancel'' (cancel E p)) (\<lambda>_. refresh E address') s
      | None \<Rightarrow> (Inr (), s))"

definition click :: "env \<Rightarrow> process_env \<Rightarrow> decoder \<Rightarrow> 'e parse_units \<Rightarrow> string \<Rightarrow> wallet_state \<Rightarrow> monitor_action \<Rightarrow> unit screen" where
  "click E P decode PU address' w a =
     (case a of
        CheckIn \<Rightarrow> checkIn E address' w
      | Simulate \<Rightarrow> simulateInactivity E address' w
      | SendToEnclave \<Rightarrow> sendToEnclave E P decode address' w
      | Deposit \<Rightarrow> funding_click E address' PU w ''deposit'' (deposit E P w)
      | Withdraw \<Rightarrow> funding_click E address' PU w ''withdraw'' (withdraw E)
      | Cancel \<Rightarrow> cancel_click E address' w)"

section \<open>What an action does\<close>

text \<open>\<open>runs m s Q\<close>: run from \<open>s\<close>, \<open>m\<close> extends the trace, and \<open>Q\<close> holds of its result, the page after it and the new events.\<close>

definition runs :: "'a screen \<Rightarrow> monitor \<times> event list \<Rightarrow> (thrown + 'a \<Rightarrow> monitor \<Rightarrow> event list \<Rightarrow> bool) \<Rightarrow> bool" where
  "runs m s Q \<longleftrightarrow> (\<exists>u. snd (snd (m s)) = snd s @ u \<and> Q (fst (m s)) (fst (snd (m s))) u)"

lemma runsE: "runs m s Q \<Longrightarrow> (\<And>u. m s = (fst (m s), (fst (snd (m s)), snd s @ u)) \<Longrightarrow> Q (fst (m s)) (fst (snd (m s))) u \<Longrightarrow> R) \<Longrightarrow> R"
  by (auto simp: runs_def) (metis prod.collapse)

lemma runs_eq: "m s = (r, (m', snd s @ u)) \<Longrightarrow> Q r m' u \<Longrightarrow> runs m s Q"
  by (auto simp: runs_def)

lemma runs_mono: "runs m s Q \<Longrightarrow> (\<And>r m' u. Q r m' u \<Longrightarrow> Q' r m' u) \<Longrightarrow> runs m s Q'"
  by (auto simp: runs_def)

lemma runs_bind:
  assumes "runs m s (\<lambda>r m' u. case r of Inl e \<Rightarrow> Q (Inl e) m' u | Inr a \<Rightarrow> runs (f a) (m', snd s @ u) (\<lambda>r' m'' u'. Q r' m'' (u @ u')))"
  shows "runs (act_bind m f) s Q"
  using assms by (cases "m s"; cases "fst (m s)") (auto simp: runs_def act_bind_def)

lemma runs_catch:
  assumes "runs m s (\<lambda>r m' u. case r of Inl e \<Rightarrow> runs (h e) (m', snd s @ u) (\<lambda>r' m'' u'. Q r' m'' (u @ u')) | Inr a \<Rightarrow> Q (Inr a) m' u)"
  shows "runs (act_catch m h) s Q"
  using assms by (cases "m s"; cases "fst (m s)") (auto simp: runs_def act_catch_def)

lemma runs_return: "Q (Inr a) (fst s) [] \<Longrightarrow> runs (act_return a) s Q"
  by (simp add: runs_def act_return_def)

lemma runs_throw: "Q (Inl e) (fst s) [] \<Longrightarrow> runs (act_throw e) s Q"
  by (simp add: runs_def act_throw_def)

lemma runs_show: "Q (Inr ()) (f (fst s)) [] \<Longrightarrow> runs (show_that f) s Q"
  by (simp add: runs_def show_that_def)

lemma runs_world:
  assumes "\<And>r u. a (snd s) = (r, snd s @ u) \<Longrightarrow> Q r (fst s) u" "\<exists>u. snd (a (snd s)) = snd s @ u"
  shows "runs (on_world a) s Q"
  using assms by (cases "a (snd s)") (auto simp: runs_def on_world_def)

lemma runs_wallet: "(env_wallet E \<Longrightarrow> Q (Inr ()) (fst s) []) \<Longrightarrow> (\<And>e. Q (Inl e) (fst s) []) \<Longrightarrow> runs (walletClient E) s Q"
  by (auto simp: walletClient_def intro: runs_return runs_throw)

section \<open>Looking at the chain\<close>

definition looks :: "'a act \<Rightarrow> bool" where
  "looks m \<longleftrightarrow> (\<forall>t. \<exists>u. snd (m t) = t @ u \<and> only_reads u)"

lemma looks_bind: "looks m \<Longrightarrow> (\<And>a. looks (f a)) \<Longrightarrow> looks (act_bind m f)"
proof -
  assume m: "looks m" and f: "\<And>a. looks (f a)"
  show "looks (act_bind m f)" unfolding looks_def
  proof
    fix t
    obtain u where u: "snd (m t) = t @ u" "only_reads u" using m by (auto simp: looks_def)
    obtain r where r: "m t = (r, t @ u)" using u(1) by (metis prod.collapse)
    show "\<exists>u. snd (act_bind m f t) = t @ u \<and> only_reads u"
    proof (cases r)
      case (Inl e)
      with r u show ?thesis by (simp add: act_bind_def)
    next
      case (Inr a)
      obtain v where "snd (f a (t @ u)) = (t @ u) @ v" "only_reads v" using f [of a] unfolding looks_def by blast
      with r u Inr show ?thesis by (intro exI [of _ "u @ v"]) (simp add: act_bind_def)
    qed
  qed
qed

lemma looks_catch: "looks m \<Longrightarrow> (\<And>e. looks (h e)) \<Longrightarrow> looks (act_catch m h)"
proof -
  assume m: "looks m" and h: "\<And>e. looks (h e)"
  have "looks (\<lambda>t. (Inr (fst (m t)), snd (m t)))" using m by (simp add: looks_def)
  moreover have "looks (case r of Inl e \<Rightarrow> h e | Inr a \<Rightarrow> act_return a)" for r
    using h by (cases r) (simp_all add: looks_def act_return_def)
  ultimately have "looks (act_bind (\<lambda>t. (Inr (fst (m t)), snd (m t))) (\<lambda>r. case r of Inl e \<Rightarrow> h e | Inr a \<Rightarrow> act_return a))"
    by (rule looks_bind)
  moreover have "act_bind (\<lambda>t. (Inr (fst (m t)), snd (m t))) (\<lambda>r. case r of Inl e \<Rightarrow> h e | Inr a \<Rightarrow> act_return a) = act_catch m h"
    by (auto simp: fun_eq_iff act_bind_def act_catch_def act_return_def split: prod.split sum.split)
  ultimately show ?thesis by simp
qed

lemma looks_prims: "looks (act_return a)" "looks (act_throw e)" "looks (readContract E x f args)" "looks (get_entry E p)"
  by (auto simp: looks_def act_prims get_entry_def)

lemma looks_all: "looks (read_all E a fs)"
proof -
  have "\<exists>u. snd (read_each E a fs t) = t @ u \<and> only_reads u" for t
  proof (induction fs arbitrary: t)
    case (Cons f fs)
    obtain u where "snd (read_each E a fs (t @ [ReadContract a f []])) = (t @ [ReadContract a f []]) @ u" "only_reads u"
      using Cons.IH by blast
    then show ?case by (auto simp: readContract_def split: prod.splits)
  qed simp
  then show ?thesis by (simp add: looks_def read_all_def case_prod_beta)
qed

lemma looks_policy: "looks (readPolicy E a)"
  unfolding readPolicy_def readDeadline_def Let_def
  by (intro looks_bind looks_catch looks_all looks_prims) (auto intro!: looks_bind looks_prims)

lemma looks_config: "looks (readHeartbeatConfig E x p)"
  unfolding readHeartbeatConfig_def
  by (intro looks_catch looks_bind looks_prims) (auto intro!: looks_prims split: jsv.split list.split)

lemma runs_looks:
  assumes "looks a" "\<And>r u. a (snd s) = (r, snd s @ u) \<Longrightarrow> only_reads u \<Longrightarrow> Q r (fst s) u"
  shows "runs (on_world a) s Q"
proof -
  obtain u where u: "snd (a (snd s)) = snd s @ u" "only_reads u" using assms(1) by (auto simp: looks_def)
  show ?thesis
  proof (rule runs_world)
    show "\<exists>u. snd (a (snd s)) = snd s @ u" using u(1) by blast
    fix r v assume "a (snd s) = (r, snd s @ v)"
    with u assms(2) show "Q r (fst s) v" by simp
  qed
qed

section \<open>Refreshing and sending\<close>

lemma refresh_runs:
  "runs (refresh E a) s (\<lambda>r m' u. r = Inr () \<and> only_reads u \<and> m_busy m' = m_busy (fst s) \<and> m_lastTx m' = m_lastTx (fst s) \<and>
     (m_error m' = None \<longrightarrow> m_error (fst s) = None \<and> (\<exists>p. fst (readPolicy E a (snd s)) = Inr p \<and> m_policy m' = Some p)))"
  unfolding refresh_def
  by (intro runs_catch runs_bind runs_looks [OF looks_policy])
    (auto split: sum.split intro!: runs_bind runs_show runs_return runs_looks [OF looks_config])

text \<open>Events that neither ask for a transaction nor touch the storage.\<close>

definition quiet :: "event list \<Rightarrow> bool" where
  "quiet u = list_all (\<lambda>e. case e of Awaited _ \<Rightarrow> True | ReadContract _ _ _ \<Rightarrow> True | _ \<Rightarrow> False) u"

lemma quiet_simps [simp]: "quiet []" "quiet (u @ w) \<longleftrightarrow> quiet u \<and> quiet w" "quiet (Awaited h # u) = quiet u"
  "quiet (ReadContract x f args # u) = quiet u"
  by (simp_all add: quiet_def)

lemma only_reads_quiet: "only_reads u \<Longrightarrow> quiet u"
  by (induction u) (auto simp: only_reads_def quiet_def split: event.splits)

lemma quiet_silent: "quiet u \<Longrightarrow> written u = [] \<and> keeps_storage u"
  by (induction u) (auto simp: quiet_def split: event.splits)

text \<open>The page after an action: if it shows no error, the transaction was made and awaited, and the policy was read after that.\<close>

definition settled_page :: "env \<Rightarrow> string \<Rightarrow> event list \<Rightarrow> string \<Rightarrow> monitor \<Rightarrow> event list \<Rightarrow> bool" where
  "settled_page E a t h m' u \<longleftrightarrow> m_lastTx m' = Some h \<and> (\<exists>x y p. u = x @ y \<and> Awaited h \<in> set x \<and>
     fst (readPolicy E a (t @ x)) = Inr p \<and> m_policy m' = Some p)"

definition sent :: "env \<Rightarrow> string \<Rightarrow> event list \<Rightarrow> (thrown + string \<Rightarrow> event list \<Rightarrow> bool) \<Rightarrow> thrown + unit \<Rightarrow> monitor \<Rightarrow> event list \<Rightarrow> bool" where
  "sent E a t S r m' u \<longleftrightarrow> r = Inr () \<and> m_busy m' = None \<and> (\<exists>rr v w. u = v @ w \<and> S rr v \<and> quiet w \<and>
     (m_error m' = None \<longrightarrow> (\<exists>h. rr = Inr h \<and> settled_page E a t h m' u)))"

lemma sentI: "S rr v \<Longrightarrow> quiet w \<Longrightarrow> m_busy m' = None \<Longrightarrow>
    (m_error m' = None \<Longrightarrow> \<exists>h. rr = Inr h \<and> settled_page E a t h m' (v @ w)) \<Longrightarrow> sent E a t S (Inr ()) m' (v @ w)"
  unfolding sent_def by (intro conjI exI [of _ rr] exI [of _ v] exI [of _ w]) auto

lemma sent_failed: "S rr v \<Longrightarrow> sent E a t S (Inr ()) (m\<lparr> m_error := Some e, m_busy := None \<rparr>) v"
  unfolding sent_def by (intro conjI exI [of _ rr] exI [of _ v] exI [of _ "[]"]) auto

lemma sent_unconfirmed: "S rr v \<Longrightarrow> sent E a t S (Inr ()) (m\<lparr> m_error := Some e, m_busy := None \<rparr>) (v @ [Awaited h])"
  by (rule sentI) auto

lemma page_send_runs:
  assumes "runs run ((fst s)\<lparr> m_busy := Some lbl, m_error := None \<rparr>, snd s) (\<lambda>r m' u. m_error m' = None \<and> S r u)"
  shows "runs (page_send E a lbl run) s (sent E a (snd s) S)"
proof -
  obtain rr m1 v where run: "run ((fst s)\<lparr> m_busy := Some lbl, m_error := None \<rparr>, snd s) = (rr, (m1, snd s @ v))"
    and m1: "m_error m1 = None" "S rr v" using assms by (rule runsE) auto
  show ?thesis
  proof (cases rr)
    case (Inl e)
    have "page_send E a lbl run s = (Inr (), (m1\<lparr> m_error := Some (walletErrorMessage e), m_busy := None \<rparr>, snd s @ v))"
      by (simp add: page_send_def act_bind_def act_catch_def show_that_def run Inl)
    then show ?thesis by (rule runs_eq) (rule sent_failed, rule m1)
  next
    case (Inr h)
    let ?m2 = "m1\<lparr> m_lastTx := Some h \<rparr>" and ?t2 = "snd s @ v @ [Awaited h]"
    show ?thesis
    proof (cases "env_receipt E (snd s @ v) h")
      case e: (Inl e)
      have "page_send E a lbl run s = (Inr (), (?m2\<lparr> m_error := Some (walletErrorMessage e), m_busy := None \<rparr>, snd s @ v @ [Awaited h]))"
        by (simp add: page_send_def act_bind_def act_catch_def show_that_def run Inr on_world_def waitForTransactionReceipt_def e)
      then show ?thesis by (rule runs_eq) (rule sent_unconfirmed, rule m1)
    next
      case rc: (Inr rc)
      obtain m3 w where ref: "refresh E a (?m2, ?t2) = (Inr (), (m3, ?t2 @ w))" "only_reads w" "m_lastTx m3 = Some h"
        "m_error m3 = None \<longrightarrow> (\<exists>p. fst (readPolicy E a ?t2) = Inr p \<and> m_policy m3 = Some p)"
        using refresh_runs [of E a "(?m2, ?t2)"] by (rule runsE) auto
      have res: "page_send E a lbl run s = (Inr (), (m3\<lparr> m_busy := None \<rparr>, snd s @ v @ Awaited h # w))"
        using ref(1) by (simp add: page_send_def act_bind_def act_catch_def show_that_def run Inr on_world_def waitForTransactionReceipt_def rc)
      have "quiet (Awaited h # w)" using only_reads_quiet [OF ref(2)] by simp
      moreover have "\<exists>h. rr = Inr h \<and> settled_page E a (snd s) h (m3\<lparr> m_busy := None \<rparr>) (v @ Awaited h # w)"
        if "m_error (m3\<lparr> m_busy := None \<rparr>) = None"
        using ref(3,4) Inr that unfolding settled_page_def by (intro exI [of _ h] conjI exI [of _ "v @ [Awaited h]"] exI [of _ w]) auto
      ultimately have "sent E a (snd s) S (Inr ()) (m3\<lparr> m_busy := None \<rparr>) (v @ Awaited h # w)"
        by (intro sentI [of S rr v "Awaited h # w"]) (use m1(2) Inr in auto)
      with res show ?thesis by (rule runs_eq)
    qed
  qed
qed

section \<open>The transactions of each action\<close>

text \<open>What a run asks the wallet for: nothing else, all of it when it ends well; and, but for a hand-off, it leaves the storage alone.\<close>

definition only_asks :: "contract_call list \<Rightarrow> thrown + string \<Rightarrow> event list \<Rightarrow> bool" where
  "only_asks cs r u \<longleftrightarrow> prefix (written u) cs \<and> keeps_storage u \<and> (\<forall>h. r = Inr h \<longrightarrow> written u = cs)"

lemma wallet_write_runs: "runs (wallet_write E c) s (\<lambda>r m' u. m' = fst s \<and> only_asks [c] r u)"
  by (auto simp: wallet_write_def walletClient_def act_bind_def act_return_def act_throw_def on_world_def writeContract_def runs_def only_asks_def)

text \<open>A deposit asks for an approval exactly when the allowance it reads is below the amount.\<close>

definition deposit_asks :: "env \<Rightarrow> process_env \<Rightarrow> wallet_state \<Rightarrow> policy_summary \<Rightarrow> int \<Rightarrow> event list \<Rightarrow> contract_call list" where
  "deposit_asks E P w p amt t =
     (case env_read E t (fxrp (ADDRESSES P)) ''allowance'' (allowance_args w p) of
        Inr (JBig al) \<Rightarrow>
          (if al < amt then [approve_call P (js_text (s_address p)) amt] else []) @ [deposit_call (js_text (s_address p)) amt]
      | _ \<Rightarrow> [])"

lemma deposit_runs:
  "runs (deposit E P w p amt) s (\<lambda>r m' u. m' = fst s \<and> only_asks (deposit_asks E P w p amt (snd s)) r u)"
  by (auto simp: deposit_def walletClient_def act_bind_def act_return_def act_throw_def on_world_def writeContract_def
      waitForTransactionReceipt_def readContract_def runs_def only_asks_def deposit_asks_def split: sum.split jsv.split)

section \<open>Saving a hand-off\<close>

lemma save_raw_entry: "save_raw E (entry_js v) = saveEntry E v"
  by (rule ext) (simp add: save_raw_def saveEntry_def)

lemma save_raw_effect:
  assumes "vault_ok E t" "policy_key e = Inr k" "plain e" "save_raw E e t = (Inr (), t')"
  shows "vault_ok E t'" "getEntry E p t' = (if lower_case p = k then Inr (Some e) else getEntry E p t)"
proof -
  have keyed: "keyed (vault_read E t)" using assms(1) by (simp add: vault_ok_def)
  obtain os where os: "other_entries k (vault_read E t) = Inr os" "keyed os" "set os \<subseteq> set (vault_read E t)"
    "\<And>j f. find_entry j (os @ [f]) = (if j = k then find_entry j [f] else
        case find_entry j (vault_read E t) of Inr None \<Rightarrow> find_entry j [f] | r \<Rightarrow> r)"
    using other_entries_keyed [OF keyed, of k] by blast
  have plain: "list_all plain (os @ [e])" using assms(1,3) os(3) by (auto simp: vault_ok_def list_all_iff)
  have read: "vault_read E t' = os @ [e]"
    by (rule write_read(1) [OF plain]) (use assms(2,4) os(1) in \<open>simp add: save_raw_def\<close>)
  then show ok: "vault_ok E t'" using os(2) plain assms(2) by (simp add: vault_ok_def)
  show "getEntry E p t' = (if lower_case p = k then Inr (Some e) else getEntry E p t)"
    using getEntry_lookup [OF assms(1), of p] assms(2)
    by (auto simp: getEntry_def read os(4) split: sum.splits option.splits)
qed

lemma save_raw_trace: "save_raw E e t = (r, t') \<Longrightarrow> case r of Inl x \<Rightarrow> t' = t | Inr _ \<Rightarrow> \<exists>raw. t' = t @ [Stored KEY raw]"
  by (auto simp: save_raw_def vault_write_def setItem_def split: sum.splits)

text \<open>The entry with its hand-off noted keeps its key and stays printable.\<close>

lemma plain_put_prop:
  "distinct (map fst kvs) \<Longrightarrow> list_all (\<lambda>kv. plain (snd kv)) kvs \<Longrightarrow> plain v \<Longrightarrow> plain (JObj (put_prop kvs k v))"
proof (induction kvs k v rule: put_prop.induct)
  case (2 k' v' kvs k v)
  have "fst ` set (put_prop kvs k v) \<subseteq> insert k (fst ` set kvs)"
    by (induction kvs k v rule: put_prop.induct) auto
  with 2 show ?case by auto
qed simp

lemma plain_handoff [simp]: "plain (handoff_js h now)"
  by (simp add: handoff_js_def)

lemma noted_entry:
  assumes "policy_key e = Inr k" "plain e"
  shows "policy_key (set_field e ''handoff'' (handoff_js h now)) = Inr k" "plain (set_field e ''handoff'' (handoff_js h now))"
proof -
  obtain kvs where e: "e = JObj kvs" using assms(1) by (cases e) (simp_all add: policy_key_def member_of_def)
  show "policy_key (set_field e ''handoff'' (handoff_js h now)) = Inr k"
    using assms(1) by (simp add: e set_field_def policy_key_def member_of_def get_put_prop)
  show "plain (set_field e ''handoff'' (handoff_js h now))"
    using assms(2) plain_put_prop [of kvs] by (simp add: e set_field_def)
qed

text \<open>What a hand-off may do to the vault.\<close>

definition notes_handoff :: "env \<Rightarrow> string \<Rightarrow> jsv \<Rightarrow> event list \<Rightarrow> event list \<Rightarrow> bool" where
  "notes_handoff E a e t t' \<longleftrightarrow> (\<exists>h now. getEntry E a t' = Inr (Some (set_field e ''handoff'' (handoff_js h now))))"

definition keeps_vault :: "env \<Rightarrow> string \<Rightarrow> jsv \<Rightarrow> event list \<Rightarrow> event list \<Rightarrow> bool" where
  "keeps_vault E a e t t' \<longleftrightarrow> vault_ok E t' \<and> (\<forall>q. lower_case q \<noteq> lower_case a \<longrightarrow> getEntry E q t' = getEntry E q t) \<and>
     (getEntry E a t' = getEntry E a t \<or> notes_handoff E a e t t')"

lemma keeps_vault_silent: "vault_ok E t \<Longrightarrow> keeps_storage u \<Longrightarrow> keeps_vault E a e t (t @ u)"
  by (simp add: keeps_vault_def vault_ok_cong getEntry_cong)

definition hands_off :: "env \<Rightarrow> process_env \<Rightarrow> string \<Rightarrow> jsv \<Rightarrow> event list \<Rightarrow> thrown + string \<Rightarrow> event list \<Rightarrow> bool" where
  "hands_off E P a e t r u \<longleftrightarrow>
     (let c = store_call P (js_text (prop_of e ''policy'')) (js_text (prop_of e ''ciphertext'')) in
      prefix (written u) [c] \<and> (\<forall>h. r = Inr h \<longrightarrow> written u = [c]) \<and>
      (vault_ok E t \<and> policy_key e = Inr (lower_case a) \<and> plain e \<longrightarrow>
         keeps_vault E a e t (t @ u) \<and> (\<forall>h. r = Inr h \<longrightarrow> notes_handoff E a e t (t @ u))))"

lemma handoff_run_runs:
  "runs (handoff_run E P decode a e) s (\<lambda>r m' u. m_error m' = m_error (fst s) \<and> hands_off E P a e (snd s) r u)"
proof -
  let ?c = "store_call P (js_text (prop_of e ''policy'')) (js_text (prop_of e ''ciphertext''))"
  obtain r1 u1 where store: "storePolicyOnChain E P decode (js_text (prop_of e ''policy'')) (js_text (prop_of e ''ciphertext'')) (snd s)
      = (r1, snd s @ u1)" and u1: "written u1 \<in> {[], [?c]}" "keeps_storage u1" "\<forall>h. r1 = Inr h \<longrightarrow> written u1 = [?c]"
    using storePolicyOnChain_trace by (metis surj_pair)
  show ?thesis
  proof (cases r1)
    case (Inl x)
    have "handoff_run E P decode a e s = (Inl x, (fst s, snd s @ u1))"
      by (simp add: handoff_run_def act_bind_def on_world_def store Inl)
    then show ?thesis
      by (rule runs_eq) (use u1 keeps_vault_silent in \<open>auto simp: hands_off_def Let_def\<close>)
  next
    case (Inr h)
    let ?t = "snd s @ u1" and ?e = "set_field e ''handoff'' (handoff_js h (env_clock E (snd s @ u1)))"
    obtain r2 t2 where save: "save_raw E ?e ?t = (r2, t2)" by (rule prod.exhaust)
    show ?thesis
    proof (cases r2)
      case x: (Inl x)
      then have "t2 = ?t" using save_raw_trace [OF save] by simp
      then have "handoff_run E P decode a e s = (Inl x, (fst s, snd s @ u1))"
        by (simp add: handoff_run_def act_bind_def on_world_def store Inr clock_def save x)
      then show ?thesis
        by (rule runs_eq) (use u1 keeps_vault_silent in \<open>auto simp: hands_off_def Let_def\<close>)
    next
      case ok: (Inr unit)
      then obtain raw where t2: "t2 = snd s @ u1 @ [Stored KEY raw]" using save_raw_trace [OF save] by auto
      have res: "runs (handoff_run E P decode a e) s (\<lambda>r m' u. u = u1 @ [Stored KEY raw] \<and> m_error m' = m_error (fst s))"
        by (cases "getEntry E a t2")
          (auto simp: runs_def handoff_run_def act_bind_def on_world_def store Inr clock_def save ok get_entry_def show_that_def
            act_return_def t2)
      have "keeps_vault E a e (snd s) t2 \<and> notes_handoff E a e (snd s) t2"
        if v: "vault_ok E (snd s)" "policy_key e = Inr (lower_case a)" "plain e"
      proof -
        have "save_raw E ?e ?t = (Inr (), t2)" using save ok by simp
        note eff = save_raw_effect [OF _ noted_entry [OF v(2,3)] this]
        show ?thesis
          using eff v(1) u1(2) by (auto simp: keeps_vault_def notes_handoff_def vault_ok_cong getEntry_cong)
      qed
      then show ?thesis
        by (intro runs_mono [OF res]) (use u1 Inr t2 in \<open>auto simp: hands_off_def Let_def\<close>)
    qed
  qed
qed

section \<open>What a click does\<close>

definition action_calls ::
  "env \<Rightarrow> process_env \<Rightarrow> 'e parse_units \<Rightarrow> string \<Rightarrow> wallet_state \<Rightarrow> monitor \<Rightarrow> event list \<Rightarrow> monitor_action \<Rightarrow> contract_call list" where
  "action_calls E P PU a w m t act =
     (case (m_policy m, act, typed_amount PU m, m_entry m) of
        (Some p, CheckIn, _, _) \<Rightarrow> [plain_call (js_text (s_trigger p)) ''heartbeat'' [JStr a]]
      | (Some p, Simulate, _, _) \<Rightarrow> [plain_call (js_text (s_trigger p)) ''simulateInactivity'' [JStr a]]
      | (Some p, SendToEnclave, _, Some e) \<Rightarrow> [store_call P (js_text (prop_of e ''policy'')) (js_text (prop_of e ''ciphertext''))]
      | (Some p, Deposit, Some v, _) \<Rightarrow> deposit_asks E P w p v t
      | (Some p, Withdraw, Some v, _) \<Rightarrow> [plain_call (js_text (s_address p)) ''withdraw'' [JBig v]]
      | (Some p, Cancel, _, _) \<Rightarrow> [plain_call (js_text (s_address p)) ''cancel'' []]
      | _ \<Rightarrow> [])"

text \<open>The outcome of an action that asks for \<open>cs\<close>.\<close>

definition settles :: "env \<Rightarrow> string \<Rightarrow> event list \<Rightarrow> contract_call list \<Rightarrow> thrown + unit \<Rightarrow> monitor \<Rightarrow> event list \<Rightarrow> bool" where
  "settles E a t cs r m' u \<longleftrightarrow> r = Inr () \<and> m_busy m' = None \<and> prefix (written u) cs \<and>
     (m_error m' = None \<longrightarrow> written u = cs \<and> (\<exists>h. settled_page E a t h m' u))"

lemma sent_settles:
  assumes "sent E a t S r m' u" "\<And>rr v. S rr v \<Longrightarrow> prefix (written v) cs \<and> (\<forall>h. rr = Inr h \<longrightarrow> written v = cs)"
  shows "settles E a t cs r m' u"
proof -
  from assms(1) obtain rr v q where u: "u = v @ q" "quiet q" "S rr v" and r: "r = Inr ()" "m_busy m' = None"
    "m_error m' = None \<longrightarrow> (\<exists>h. rr = Inr h \<and> settled_page E a t h m' u)" by (auto simp: sent_def)
  have "written u = written v" using quiet_silent [OF u(2)] u(1) by simp
  with assms(2) [OF u(3)] r show ?thesis by (auto simp: settles_def)
qed

lemma sent_keeps:
  assumes "sent E a t S r m' u" "\<And>rr v. S rr v \<Longrightarrow> keeps_storage v"
  shows "keeps_storage u"
  using assms quiet_silent by (auto simp: sent_def)

lemma settled_page_later:
  assumes "settled_page E a t h m u" "m_lastTx m' = m_lastTx m" "fst (readPolicy E a (t @ u)) = Inr p" "m_policy m' = Some p"
  shows "settled_page E a t h m' (u @ v)"
proof -
  have "Awaited h \<in> set u" "m_lastTx m = Some h" using assms(1) by (auto simp: settled_page_def)
  with assms(2-) show ?thesis unfolding settled_page_def by (intro conjI exI [of _ u] exI [of _ v]) auto
qed

definition outcome :: "env \<Rightarrow> string \<Rightarrow> event list \<Rightarrow> contract_call list \<Rightarrow> thrown + unit \<Rightarrow> monitor \<Rightarrow> event list \<Rightarrow> bool" where
  "outcome E a t cs r m' u \<longleftrightarrow> settles E a t cs r m' u \<and> keeps_storage u"

lemma asking_send:
  assumes "\<And>s. runs run s (\<lambda>r m' u. m' = fst s \<and> only_asks (cs (snd s)) r u)"
  shows "runs (page_send E a lbl run) s (outcome E a (snd s) (cs (snd s)))"
proof -
  have "runs (page_send E a lbl run) s (sent E a (snd s) (only_asks (cs (snd s))))"
    by (rule page_send_runs, rule runs_mono, rule assms) simp
  then show ?thesis
    by (rule runs_mono) (auto simp: outcome_def only_asks_def intro: sent_settles sent_keeps)
qed

lemma refresh_after:
  assumes "runs run s (outcome E a (snd s) cs)"
  shows "runs (act_bind run (\<lambda>_. refresh E a)) s (outcome E a (snd s) cs)"
proof -
  obtain m1 u where run: "run s = (Inr (), (m1, snd s @ u))" and o1: "outcome E a (snd s) cs (Inr ()) m1 u"
    using assms by (rule runsE) (auto simp: outcome_def settles_def)
  obtain m2 v where ref: "refresh E a (m1, snd s @ u) = (Inr (), (m2, (snd s @ u) @ v))" "only_reads v" "m_busy m2 = m_busy m1"
    "m_lastTx m2 = m_lastTx m1" "m_error m2 = None \<longrightarrow> m_error m1 = None \<and> (\<exists>p. fst (readPolicy E a (snd s @ u)) = Inr p \<and> m_policy m2 = Some p)"
    using refresh_runs [of E a "(m1, snd s @ u)"] by (rule runsE) auto
  have quiet: "written v = []" "keeps_storage v" using quiet_silent only_reads_quiet ref(2) by blast+
  have settled: "\<exists>h. settled_page E a (snd s) h m2 (u @ v)" if none: "m_error m2 = None"
  proof -
    obtain h where "settled_page E a (snd s) h m1 u" using o1 ref(5) none by (auto simp: outcome_def settles_def)
    with settled_page_later [OF this ref(4)] ref(5) none show ?thesis by blast
  qed
  have "act_bind run (\<lambda>_. refresh E a) s = (Inr (), (m2, snd s @ (u @ v)))" by (simp add: act_bind_def run ref(1))
  then show ?thesis
    by (rule runs_eq) (use o1 ref quiet settled in \<open>auto simp: outcome_def settles_def\<close>)
qed

lemma settled_page_amount [simp]: "settled_page E a t h (m\<lparr> m_amount := x \<rparr>) u = settled_page E a t h m u"
  by (simp add: settled_page_def)

lemma show_after:
  assumes "runs run s (outcome E a (snd s) cs)"
  shows "runs (act_bind run (\<lambda>_. show_that (\<lambda>m. m\<lparr> m_amount := x \<rparr>))) s (outcome E a (snd s) cs)"
proof (rule runs_bind, rule runs_mono [OF assms])
  fix r m' u assume "outcome E a (snd s) cs r m' u"
  then show "case r of Inl e \<Rightarrow> outcome E a (snd s) cs (Inl e) m' u
    | Inr b \<Rightarrow> runs (show_that (\<lambda>m. m\<lparr> m_amount := x \<rparr>)) (m', snd s @ u) (\<lambda>r' m'' u'. outcome E a (snd s) cs r' m'' (u @ u'))"
    by (cases r) (auto intro!: runs_show simp: outcome_def settles_def)
qed

text \<open>Every action but the hand-off.\<close>

lemma click_outcome:
  assumes "offered P PU w m act" "act \<noteq> SendToEnclave"
  shows "runs (click E P decode PU a w act) (m, t) (outcome E a t (action_calls E P PU a w m t act))"
proof -
  obtain p where p: "m_policy m = Some p" using assms(1) by (auto simp: offered_def split: option.splits)
  note wr = asking_send [OF wallet_write_runs, where s = "(m, t)", simplified]
  have funding: "runs (funding_click E a PU w lbl run) (m, t) (outcome E a t (cs v))"
    if "usable PU w m" "typed_amount PU m = Some v"
      and "runs (page_send E a lbl (run p v)) (m, t) (outcome E a t (cs v))" for lbl run cs v
    using show_after [where s = "(m, t)", simplified, OF that(3)] that(1,2) p by (simp add: runs_def funding_click_def)
  have dep: "runs (page_send E a lbl (deposit E P w p v)) (m, t) (outcome E a t (deposit_asks E P w p v t))" for lbl v
    using asking_send [OF deposit_runs, where s = "(m, t)"] by simp
  have amount: "\<exists>v. typed_amount PU m = Some v" if "usable PU w m"
    using that by (auto simp: usable_def split: option.splits)
  show ?thesis
  proof (cases act)
    case CheckIn
    with assms(1) p wr show ?thesis by (simp add: offered_def connected_def click_def checkIn_def action_calls_def runs_def)
  next
    case Simulate
    with assms(1) p wr show ?thesis
      by (simp add: offered_def connected_def click_def simulateInactivity_def action_calls_def runs_def)
  next
    case SendToEnclave
    with assms(2) show ?thesis by simp
  next
    case Deposit
    with assms(1) p have u: "usable PU w m" by (simp add: offered_def)
    from amount [OF u] obtain v where v: "typed_amount PU m = Some v" by blast
    show ?thesis
      using funding [OF u v, of "''deposit''" "deposit E P w" "\<lambda>v. deposit_asks E P w p v t"] dep [of "''deposit''" v] Deposit p v
      by (simp add: click_def action_calls_def)
  next
    case Withdraw
    with assms(1) p have u: "usable PU w m" by (simp add: offered_def)
    from amount [OF u] obtain v where v: "typed_amount PU m = Some v" by blast
    show ?thesis
      using funding [OF u v, of _ "withdraw E" "\<lambda>v. [plain_call (js_text (s_address p)) ''withdraw'' [JBig v]]"] wr Withdraw p v
      by (simp add: click_def action_calls_def withdraw_def)
  next
    case Cancel
    with assms(1) p refresh_after [where s = "(m, t)", simplified, OF wr] show ?thesis
      by (simp add: offered_def click_def cancel_click_def action_calls_def runs_def cancel_def)
  qed
qed

lemma handoff_sent:
  assumes "m_entry m = Some e" "offered P PU w m SendToEnclave"
  shows "runs (click E P decode PU a w SendToEnclave) (m, t) (sent E a t (hands_off E P a e t))"
proof -
  have "runs (page_send E a ''handoff'' (handoff_run E P decode a e)) (m, t) (sent E a (snd (m, t)) (hands_off E P a e t))"
    by (rule page_send_runs) (rule runs_mono [OF handoff_run_runs], simp)
  with assms show ?thesis by (auto simp: runs_def click_def sendToEnclave_def offered_def split: option.splits)
qed

lemma click_settles:
  assumes "offered P PU w m act"
  shows "runs (click E P decode PU a w act) (m, t) (\<lambda>r m' u. settles E a t (action_calls E P PU a w m t act) r m' u \<and>
    (act \<noteq> SendToEnclave \<longrightarrow> keeps_storage u))"
proof (cases "act = SendToEnclave")
  case False
  then show ?thesis using runs_mono [OF click_outcome [OF assms False]] by (simp add: outcome_def)
next
  case True
  obtain p e where p: "m_policy m = Some p" "m_entry m = Some e"
    using assms True by (auto simp: offered_def split: option.splits)
  show ?thesis
    using runs_mono [OF handoff_sent [OF p(2), of P PU w], where Q' = "\<lambda>r m' u. settles E a t (action_calls E P PU a w m t act) r m' u"]
      assms sent_settles [where S = "hands_off E P a e t"] p True
    by (simp add: action_calls_def hands_off_def Let_def)
qed

lemma handoff_keeps:
  assumes "vault_ok E t" "policy_key e = Inr (lower_case a)" "plain e" "sent E a t (hands_off E P a e t) r m' u"
  shows "keeps_vault E a e t (t @ u) \<and> (m_error m' = None \<longrightarrow> notes_handoff E a e t (t @ u))"
proof -
  obtain rr v q where u: "u = v @ q" "quiet q" and h: "hands_off E P a e t rr v"
    and e: "m_error m' = None \<longrightarrow> (\<exists>h. rr = Inr h)" using assms(4) by (auto simp: sent_def)
  have k: "keeps_storage q" using quiet_silent u(2) by blast
  have same: "getEntry E p (t @ u) = getEntry E p (t @ v)" "vault_ok E (t @ u) = vault_ok E (t @ v)" for p
    using getEntry_cong [OF k, of E p "t @ v"] vault_ok_cong [OF k, of E "t @ v"] u(1) by simp_all
  show ?thesis
    using h e assms(1-3) by (auto simp: hands_off_def Let_def keeps_vault_def notes_handoff_def same)
qed

section \<open>A concrete page\<close>

definition demo_summary :: policy_summary where
  "demo_summary = \<lparr> s_address = JStr ''0xAb'', s_name = None, s_status = JNum 0, s_balance = JBig 7, s_trigger = JStr ''0x03'',
     s_triggerKind = JStr ''timestamp'', s_deadline = None, s_commitment = JStr ''0x05'', s_hasPrivateHalf = True \<rparr>"

definition demo_monitor :: monitor where
  "demo_monitor = initial_monitor\<lparr> m_policy := Some demo_summary, m_amount := ''1.5'' \<rparr>"

definition monitor_process :: process_env where
  "monitor_process = (\<lambda>k. if k = ''NEXT_PUBLIC_POLICY_INSTRUCTION_SENDER'' then Some ''0x5E'' else None)"

lemma demo_amount: "typed_amount demo_parseUnits demo_monitor = Some 1500000"
proof -
  have "monitor_parseAmount demo_parseUnits ''1.5'' 6 = Some 1500000"
    by (simp add: monitor_parseAmount_def demo_read_amount)
  moreover have "page_decimals demo_monitor = Some 6" by code_simp
  ultimately show ?thesis by (simp add: typed_amount_def demo_monitor_def initial_monitor_def)
qed

lemma demo_deposit_offered: "offered monitor_process demo_parseUnits demo_wallet demo_monitor Deposit"
proof -
  have "page_decimals demo_monitor = Some 6" by code_simp
  with demo_amount show ?thesis
    by (simp add: offered_def usable_def demo_monitor_def initial_monitor_def demo_summary_def demo_wallet_def)
qed

section \<open>Properties\<close>

text \<open>C16: Whatever the chain, the wallet and the proxy do, an action that the Monitor offers ends:
  the page is not busy, no exception leaves the handler, the transactions asked for are
  those of that action in order and no other (a deposit asks for an approval, of exactly
  the amount typed, only when the allowance it read is smaller), and only a hand-off
  touches the storage. When no error is shown, all of them were asked for, the last one
  was awaited and the policy on screen was read after that.\<close>

theorem monitor_actions_settle:
  assumes "offered P PU w m act" "click E P decode PU a w act (m, t) = (r, (m', t'))"
  shows "\<exists>u. t' = t @ u \<and> r = Inr () \<and> m_busy m' = None \<and> prefix (written u) (action_calls E P PU a w m t act) \<and>
    (act \<noteq> SendToEnclave \<longrightarrow> keeps_storage u) \<and>
    (m_error m' = None \<longrightarrow> written u = action_calls E P PU a w m t act \<and>
      (\<exists>h x y p. m_lastTx m' = Some h \<and> u = x @ y \<and> Awaited h \<in> set x \<and>
        fst (readPolicy E a (t @ x)) = Inr p \<and> m_policy m' = Some p))"
  using click_settles [OF assms(1), of E decode a t] assms(2)
  by (auto simp: runs_def settles_def settled_page_def)

text \<open>C32: Retrying the hand-off never loses the private half: the entries of other policies are as
  before, that of this policy is as it was or the same with the hand-off noted, and the
  vault stays well-formed; when no error is shown the hand-off is noted.\<close>

theorem retry_keeps_private_half:
  assumes "vault_ok E t" "m_entry m = Some e" "policy_key e = Inr (lower_case a)" "plain e" "offered P PU w m SendToEnclave"
    and "click E P decode PU a w SendToEnclave (m, t) = (r, (m', t'))"
  shows "vault_ok E t' \<and> (\<forall>q. lower_case q \<noteq> lower_case a \<longrightarrow> getEntry E q t' = getEntry E q t) \<and>
    (getEntry E a t' = getEntry E a t \<or>
      (\<exists>h now. getEntry E a t' = Inr (Some (set_field e ''handoff'' (handoff_js h now))))) \<and>
    (m_error m' = None \<longrightarrow> (\<exists>h now. getEntry E a t' = Inr (Some (set_field e ''handoff'' (handoff_js h now)))))"
proof -
  obtain u where "t' = t @ u" "sent E a t (hands_off E P a e t) r m' u"
    using handoff_sent [OF assms(2,5), of E decode a t] assms(6) by (auto simp: runs_def)
  with handoff_keeps [OF assms(1,3,4)] show ?thesis by (simp add: keeps_vault_def notes_handoff_def)
qed

lemma monitor_actions_settle_witness:
  "\<exists>r m' t'. click demo_browser monitor_process (\<lambda>abi l. Inl (new_error [])) demo_parseUnits ''0xAb'' demo_wallet Deposit (demo_monitor, []) = (r, (m', t')) \<and>
     r = Inr () \<and> m_busy m' = None \<and>
     prefix (written t') [approve_call monitor_process ''0xAb'' 1500000, deposit_call ''0xAb'' 1500000]"
proof -
  let ?c = "click demo_browser monitor_process (\<lambda>abi l. Inl (new_error [])) demo_parseUnits ''0xAb'' demo_wallet Deposit (demo_monitor, [])"
  have calls: "action_calls demo_browser monitor_process demo_parseUnits ''0xAb'' demo_wallet demo_monitor [] Deposit =
      [approve_call monitor_process ''0xAb'' 1500000, deposit_call ''0xAb'' 1500000]"
    using demo_amount
    by (simp add: action_calls_def deposit_asks_def demo_monitor_def initial_monitor_def demo_summary_def demo_browser_def js_text_def)
  obtain r m' t' where run: "?c = (r, (m', t'))" by (rule prod_cases3)
  from monitor_actions_settle [OF demo_deposit_offered run] run calls show ?thesis by auto
qed

lemma retry_keeps_private_half_witness:
  "\<exists>t r m' t'. getEntry demo_browser ''0xAB'' t = Inr (Some (entry_js (demo_entry\<lparr> ve_ciphertext := Some ''0xaa'' \<rparr>))) \<and>
     click demo_browser monitor_process (\<lambda>abi l. Inl (new_error [])) demo_parseUnits ''0xAB'' demo_wallet SendToEnclave
       (demo_monitor\<lparr> m_entry := Some (entry_js (demo_entry\<lparr> ve_ciphertext := Some ''0xaa'' \<rparr>)) \<rparr>, t) = (r, (m', t')) \<and>
     vault_ok demo_browser t'"
proof -
  let ?e = "demo_entry\<lparr> ve_ciphertext := Some ''0xaa'' \<rparr>" and ?dec = "\<lambda>abi l. Inl (new_error [])"
  let ?m = "demo_monitor\<lparr> m_entry := Some (entry_js ?e) \<rparr>"
  obtain t where save: "saveEntry demo_browser ?e [] = (Inr (), t)" by (simp add: saveEntry_def vault_write_def setItem_def)
  have low: "lower_case ''0xAB'' = lower_case ''0xAb''" by code_simp
  have pol: "ve_policy ?e = ''0xAb''" by (simp add: demo_entry_def)
  have key: "policy_key (entry_js ?e) = Inr (lower_case ''0xAB'')" unfolding entry_key pol low ..
  have ok: "vault_ok demo_browser t" by (rule save_read(2) [OF demo_browser_read(2) save])
  have got: "getEntry demo_browser ''0xAB'' t = Inr (Some (entry_js ?e))"
    using save_get [OF demo_browser_read(2) save, of "''0xAB''"] pol low by simp
  have "page_decimals ?m = Some 6" by code_simp
  moreover have "enclaveHandoffConfigured monitor_process" by code_simp
  moreover have "\<not> truthy (prop_of (entry_js ?e) ''handoff'')" "truthy (prop_of (entry_js ?e) ''ciphertext'')" by code_simp+
  ultimately have off: "offered monitor_process demo_parseUnits demo_wallet ?m SendToEnclave"
    by (simp add: offered_def demo_monitor_def initial_monitor_def demo_wallet_def)
  obtain r m' t' where run: "click demo_browser monitor_process ?dec demo_parseUnits ''0xAB'' demo_wallet SendToEnclave (?m, t) = (r, (m', t'))"
    by (rule prod_cases3)
  have "m_entry ?m = Some (entry_js ?e)" by simp
  from retry_keeps_private_half [OF ok this key plain_entry_js off run] got run show ?thesis by blast
qed

end
