(* ===== verification/Triggers.thy ===== *)
theory Triggers
  imports Assets
begin

text \<open>
  The triggers a policy is armed by (packages/contracts/src/triggers). A mapping of
  Solidity is a total function whose default is the zero struct; \<open>uint64\<close> is \<open>64 word\<close>
  with the checks of Solidity 0.8 written out (an overflow is \<open>Panic\<close>); \<open>bytes32\<close> is
  the list of its 32 bytes. An operation takes the sender and \<open>block.timestamp\<close> and
  returns the error it reverts with or the new state, so a revert changes nothing.
  Flare's verifier (IFdcVerification) is the parameter \<open>verify\<close>.
\<close>

section \<open>Solidity\<close>

type_synonym addr = "160 word"

definition checked_add :: "'e \<Rightarrow> 'a::len word \<Rightarrow> 'a word \<Rightarrow> 'e + 'a word" where
  "checked_add e a b = (if unat a + unat b < 2 ^ LENGTH('a) then Inr (a + b) else Inl e)"

definition checked_sub :: "'e \<Rightarrow> 'a::len word \<Rightarrow> 'a word \<Rightarrow> 'e + 'a word" where
  "checked_sub e a b = (if b \<le> a then Inr (a - b) else Inl e)"

definition checked_mul :: "'e \<Rightarrow> 'a::len word \<Rightarrow> 'a word \<Rightarrow> 'e + 'a word" where
  "checked_mul e a b = (if unat a * unat b < 2 ^ LENGTH('a) then Inr (a * b) else Inl e)"

lemma checked_add_Inr: "checked_add e a b = Inr c \<longleftrightarrow> unat a + unat b < 2 ^ LENGTH('a) \<and> c = a + b"
  for a b :: "'a::len word"
  by (auto simp: checked_add_def)

lemma checked_add_unat: "checked_add e a b = Inr c \<Longrightarrow> unat c = unat a + unat b"
  by (simp add: checked_add_Inr unat_add_lem)

lemma checked_sub_unat: "checked_sub e a b = Inr c \<Longrightarrow> unat c = unat a - unat b"
  by (auto simp: checked_sub_def unat_sub split: if_splits)

lemma checked_mul_unat: "checked_mul e a b = Inr c \<Longrightarrow> unat c = unat a * unat b"
  by (simp add: checked_mul_def unat_mult_lem split: if_splits)

text \<open>\<open>uint64(block.timestamp)\<close>.\<close>

definition uint64 :: "256 word \<Rightarrow> 64 word" where
  "uint64 w = ucast w"

lemma uint64_unat: "unat w < 2 ^ 64 \<Longrightarrow> unat (uint64 w) = unat w"
  by (simp add: uint64_def unsigned_ucast_eq take_bit_nat_eq_self)

lemma up_unat: "unat (ucast (d :: 64 word) :: 256 word) = unat d"
proof -
  have "unat d < 2 ^ 64" using unsigned_less [of d, where 'a = nat] by simp
  then have "unat d < 2 ^ 256" by simp
  then show ?thesis by (simp add: unsigned_ucast_eq take_bit_nat_eq_self)
qed

datatype trigger_error =
    AlreadyConfigured
  | NotConfigured
  | NotPolicyOwner
  | DemoModeDisabled
  | IntervalTooShort
  | TimestampInPast
  | ProofNotVerified
  | WrongAttestationType bytes
  | WrongSourceId bytes
  | WrongPaymentReference bytes
  | WrongDestination bytes
  | AmountTooLow "256 word" "256 word"
  | SourceAddressFilterNotAllowed
  | DeadlineNotReached "64 word"
  | DeadlineNotOnBoundary "64 word"
  | WindowDoesNotCoverInterval "64 word" "64 word"
  | Undecodable
  | Bubbled
  | Panic

section \<open>What the triggers share\<close>

text \<open>
  Every trigger keeps a configuration for each policy that is written once. \<open>fixed\<close> is
  the part of it no operation may change again; while there is none the trigger answers
  no question about the policy.
\<close>

locale write_once =
  fixes fixed :: "'st \<Rightarrow> addr \<Rightarrow> 'c option"
    and trigger_step :: "'st \<Rightarrow> 'st \<Rightarrow> bool"
    and answer :: "'st \<Rightarrow> addr \<Rightarrow> 256 word \<Rightarrow> bytes \<Rightarrow> trigger_error + bool"
  assumes step_keeps: "trigger_step s s' \<Longrightarrow> fixed s p = Some c \<Longrightarrow> fixed s' p = Some c"
    and unconfigured: "fixed s p = None \<Longrightarrow> answer s p now pf = Inl NotConfigured"
begin

lemma steps_keep: "trigger_step\<^sup>*\<^sup>* s s' \<Longrightarrow> fixed s p = Some c \<Longrightarrow> fixed s' p = Some c"
  by (induction rule: rtranclp_induct) (auto intro: step_keeps)

lemma answers_configured: "answer s p now pf = Inr b \<Longrightarrow> \<exists>c. fixed s p = Some c"
  using unconfigured [of s p now pf] by (cases "fixed s p") auto

text \<open>Once a trigger has answered about a policy, the configuration it answered from stays.\<close>

lemma answered_from:
  assumes "answer s p now pf = Inr b" "trigger_step\<^sup>*\<^sup>* s s'"
  shows "fixed s' p = fixed s p"
  using answers_configured [OF assms(1)] steps_keep [OF assms(2)] by force

end

section \<open>TimestampTrigger\<close>

type_synonym timestamps = "addr \<Rightarrow> 64 word"

definition ts_configure :: "addr \<Rightarrow> 64 word \<Rightarrow> 256 word \<Rightarrow> timestamps \<Rightarrow> trigger_error + timestamps" where
  "ts_configure policy date now executeAfter =
     (if executeAfter policy \<noteq> 0 then Inl AlreadyConfigured
      else if (ucast date :: 256 word) \<le> now then Inl TimestampInPast
      else Inr (executeAfter(policy := date)))"

definition ts_check :: "timestamps \<Rightarrow> addr \<Rightarrow> 256 word \<Rightarrow> bytes \<Rightarrow> trigger_error + bool" where
  "ts_check executeAfter policy now pf =
     (let target = executeAfter policy in
      if target = 0 then Inl NotConfigured else Inr ((ucast target :: 256 word) < now))"

definition ts_kind :: string where
  "ts_kind = ''timestamp''"

inductive ts_step :: "timestamps \<Rightarrow> timestamps \<Rightarrow> bool" where
  ts_configured: "ts_configure policy d now s = Inr s' \<Longrightarrow> ts_step s s'"

definition ts_fixed :: "timestamps \<Rightarrow> addr \<Rightarrow> 64 word option" where
  "ts_fixed s p = (if s p = 0 then None else Some (s p))"

inductive_simps ts_step_iff: "ts_step s s'"

interpretation tst: write_once ts_fixed ts_step ts_check
  by unfold_locales (auto simp: ts_step_iff ts_configure_def ts_fixed_def ts_check_def split: if_splits)

section \<open>ManualHeartbeatTrigger\<close>

record hb_config =
  hb_owner :: addr
  hb_interval :: "64 word"
  hb_deadline :: "64 word"
  hb_demoMode :: bool

type_synonym heartbeats = "addr \<Rightarrow> hb_config"

definition no_heartbeats :: heartbeats where
  "no_heartbeats p = \<lparr> hb_owner = 0, hb_interval = 0, hb_deadline = 0, hb_demoMode = False \<rparr>"

definition hb_configure :: "addr \<Rightarrow> addr \<Rightarrow> 64 word \<Rightarrow> bool \<Rightarrow> 256 word \<Rightarrow> heartbeats \<Rightarrow> trigger_error + heartbeats" where
  "hb_configure policy owner interval demoMode now configs =
     (if hb_owner (configs policy) \<noteq> 0 then Inl AlreadyConfigured
      else if interval = 0 then Inl IntervalTooShort
      else and_then (checked_add Panic (uint64 now) interval) (\<lambda>deadline.
        Inr (configs(policy := \<lparr> hb_owner = owner, hb_interval = interval, hb_deadline = deadline,
                                 hb_demoMode = demoMode \<rparr>))))"

definition hb_heartbeat :: "addr \<Rightarrow> addr \<Rightarrow> 256 word \<Rightarrow> heartbeats \<Rightarrow> trigger_error + heartbeats" where
  "hb_heartbeat sender policy now configs =
     (let c = configs policy in
      if hb_owner c = 0 then Inl NotConfigured
      else if sender \<noteq> hb_owner c then Inl NotPolicyOwner
      else and_then (checked_add Panic (uint64 now) (hb_interval c)) (\<lambda>deadline.
        Inr (configs(policy := c\<lparr> hb_deadline := deadline \<rparr>))))"

definition hb_simulateInactivity :: "addr \<Rightarrow> addr \<Rightarrow> 256 word \<Rightarrow> heartbeats \<Rightarrow> trigger_error + heartbeats" where
  "hb_simulateInactivity sender policy now configs =
     (let c = configs policy in
      if hb_owner c = 0 then Inl NotConfigured
      else if sender \<noteq> hb_owner c then Inl NotPolicyOwner
      else if \<not> hb_demoMode c then Inl DemoModeDisabled
      else and_then (checked_sub Panic (uint64 now) 1) (\<lambda>deadline.
        Inr (configs(policy := c\<lparr> hb_deadline := deadline \<rparr>))))"

definition hb_check :: "heartbeats \<Rightarrow> addr \<Rightarrow> 256 word \<Rightarrow> bytes \<Rightarrow> trigger_error + bool" where
  "hb_check configs policy now pf =
     (let c = configs policy in
      if hb_owner c = 0 then Inl NotConfigured else Inr ((ucast (hb_deadline c) :: 256 word) < now))"

definition hb_kind :: string where
  "hb_kind = ''manual-heartbeat''"

definition deadlineOf :: "heartbeats \<Rightarrow> addr \<Rightarrow> 64 word" where
  "deadlineOf configs policy = hb_deadline (configs policy)"

text \<open>A call of the trigger, by its sender at its time.\<close>

datatype hb_call =
    Configure addr addr "64 word" bool
  | Heartbeat addr addr
  | SimulateInactivity addr addr

fun hb_apply :: "256 word \<Rightarrow> hb_call \<Rightarrow> heartbeats \<Rightarrow> trigger_error + heartbeats" where
  "hb_apply now (Configure policy owner interval demo) = hb_configure policy owner interval demo now"
| "hb_apply now (Heartbeat sender policy) = hb_heartbeat sender policy now"
| "hb_apply now (SimulateInactivity sender policy) = hb_simulateInactivity sender policy now"

text \<open>A transaction that reverts leaves the state as it was.\<close>

definition hb_transact :: "256 word \<times> hb_call \<Rightarrow> heartbeats \<Rightarrow> heartbeats" where
  "hb_transact tc s = (case hb_apply (fst tc) (snd tc) s of Inl _ \<Rightarrow> s | Inr s' \<Rightarrow> s')"

definition hb_run :: "(256 word \<times> hb_call) list \<Rightarrow> heartbeats \<Rightarrow> heartbeats" where
  "hb_run h s = fold hb_transact h s"

inductive hb_step :: "heartbeats \<Rightarrow> heartbeats \<Rightarrow> bool" where
  hb_called: "hb_apply now c s = Inr s' \<Longrightarrow> hb_step s s'"

definition hb_fixed :: "heartbeats \<Rightarrow> addr \<Rightarrow> (addr \<times> 64 word \<times> bool) option" where
  "hb_fixed s p = (if hb_owner (s p) = 0 then None else Some (hb_owner (s p), hb_interval (s p), hb_demoMode (s p)))"

inductive_simps hb_step_iff: "hb_step s s'"

lemma hb_apply_keeps: "hb_apply now c s = Inr s' \<Longrightarrow> hb_fixed s p = Some x \<Longrightarrow> hb_fixed s' p = Some x"
  by (cases c) (auto simp: hb_configure_def hb_heartbeat_def hb_simulateInactivity_def hb_fixed_def Let_def
      and_then_Inr_iff split: if_splits)

interpretation hbt: write_once hb_fixed hb_step hb_check
  by unfold_locales (auto simp: hb_step_iff hb_apply_keeps, simp add: hb_fixed_def hb_check_def split: if_splits)

text \<open>
  What the deadline is meant to say: the last sign the owner has given. A heartbeat says
  that the owner was there; in demo mode the owner can also give the sign that ends the
  wait at once. Calls by others, calls about other policies and calls that revert (a
  deadline that does not fit 64 bits, no demo mode) are no sign.
\<close>

datatype sign = Seen nat | Pulled nat

fun last_sign :: "addr \<Rightarrow> addr \<Rightarrow> nat \<Rightarrow> bool \<Rightarrow> sign \<Rightarrow> (256 word \<times> hb_call) list \<Rightarrow> sign" where
  "last_sign owner policy interval demo g [] = g"
| "last_sign owner policy interval demo g ((now, Heartbeat sender p) # h) =
     last_sign owner policy interval demo
       (if sender = owner \<and> p = policy \<and> unat now + interval < 2 ^ 64 then Seen (unat now) else g) h"
| "last_sign owner policy interval demo g ((now, SimulateInactivity sender p) # h) =
     last_sign owner policy interval demo
       (if sender = owner \<and> p = policy \<and> demo \<and> now \<noteq> 0 then Pulled (unat now) else g) h"
| "last_sign owner policy interval demo g ((now, Configure q ow i d) # h) = last_sign owner policy interval demo g h"

text \<open>The deadline a sign sets, and whether it has passed.\<close>

fun sign_deadline :: "nat \<Rightarrow> sign \<Rightarrow> nat" where
  "sign_deadline interval (Seen t) = t + interval"
| "sign_deadline interval (Pulled t) = t - 1"

definition watched :: "heartbeats \<Rightarrow> addr \<Rightarrow> addr \<Rightarrow> 64 word \<Rightarrow> bool \<Rightarrow> sign \<Rightarrow> bool" where
  "watched s policy owner interval demo g \<longleftrightarrow> owner \<noteq> 0 \<and> hb_owner (s policy) = owner \<and>
     hb_interval (s policy) = interval \<and> hb_demoMode (s policy) = demo \<and>
     unat (hb_deadline (s policy)) = sign_deadline (unat interval) g"

text \<open>The times of blocks that fit the 64 bits the trigger keeps of them.\<close>

definition calm_times :: "256 word list \<Rightarrow> bool" where
  "calm_times ts \<longleftrightarrow> list_all (\<lambda>t. unat t < 2 ^ 64) ts"

lemma checked_deadline:
  fixes iv :: "64 word"
  assumes "unat now < 2 ^ 64"
  shows "checked_add Panic (uint64 now) iv =
    (if unat now + unat iv < 2 ^ 64 then Inr (uint64 now + iv) else Inl Panic)"
    and "unat now + unat iv < 2 ^ 64 \<Longrightarrow> unat (uint64 now + iv) = unat now + unat iv"
proof -
  have u: "unat (uint64 now) = unat now" using assms by (rule uint64_unat)
  show *: "checked_add Panic (uint64 now) iv =
      (if unat now + unat iv < 2 ^ 64 then Inr (uint64 now + iv) else Inl Panic)"
    by (simp add: checked_add_def u)
  show "unat now + unat iv < 2 ^ 64 \<Longrightarrow> unat (uint64 now + iv) = unat now + unat iv"
    using checked_add_unat [of Panic "uint64 now" iv "uint64 now + iv"] by (simp add: * u)
qed

lemma checked_pull:
  assumes "unat now < 2 ^ 64"
  shows "checked_sub Panic (uint64 now) 1 = (if now \<noteq> 0 then Inr (uint64 now - 1) else Inl Panic)"
    and "now \<noteq> 0 \<Longrightarrow> unat (uint64 now - 1) = unat now - 1"
proof -
  have u: "unat (uint64 now) = unat now" using assms by (rule uint64_unat)
  have z: "1 \<le> uint64 now \<longleftrightarrow> now \<noteq> 0"
    by (simp add: word_le_nat_alt u) (simp add: unat_eq_0 Suc_le_eq unat_gt_0)
  show *: "checked_sub Panic (uint64 now) 1 = (if now \<noteq> 0 then Inr (uint64 now - 1) else Inl Panic)"
    by (simp add: checked_sub_def z)
  show "now \<noteq> 0 \<Longrightarrow> unat (uint64 now - 1) = unat now - 1"
    using checked_sub_unat [of Panic "uint64 now" 1 "uint64 now - 1"] by (simp add: * u)
qed

lemma watched_transact:
  assumes "watched s p ow iv d g" "unat now < 2 ^ 64"
  shows "watched (hb_transact (now, c) s) p ow iv d (last_sign ow p (unat iv) d g [(now, c)])"
proof (cases c)
  case (Configure q o' i d')
  then show ?thesis using assms(1)
    by (auto simp: hb_transact_def hb_configure_def watched_def and_then_Inr_iff split: sum.split if_splits)
next
  case (Heartbeat sender q)
  with assms show ?thesis
    by (auto simp: hb_transact_def hb_heartbeat_def watched_def Let_def checked_deadline and_then_Inr_iff
        split: sum.split if_splits)
next
  case (SimulateInactivity sender q)
  with assms show ?thesis
    by (auto simp: hb_transact_def hb_simulateInactivity_def watched_def Let_def checked_pull and_then_Inr_iff
        split: sum.split if_splits)
qed

lemma last_sign_Cons: "last_sign ow p iv d g (x # h) = last_sign ow p iv d (last_sign ow p iv d g [x]) h"
  by (cases x; cases "snd x") auto

lemma watched_run:
  assumes "watched s p ow iv d g" "calm_times (map fst h)"
  shows "watched (hb_run h s) p ow iv d (last_sign ow p (unat iv) d g h)"
  using assms
proof (induction h arbitrary: s g)
  case (Cons x h)
  obtain now c where x: "x = (now, c)" by (cases x)
  from Cons.prems have "watched (hb_transact x s) p ow iv d (last_sign ow p (unat iv) d g [x])" "calm_times (map fst h)"
    using watched_transact by (simp_all add: x calm_times_def)
  from Cons.IH [OF this] show ?case by (simp add: hb_run_def last_sign_Cons [of ow p "unat iv" d g x h])
qed (simp add: hb_run_def)

lemma watched_check:
  "watched s p ow iv d g \<Longrightarrow> hb_check s p now pf = Inr (sign_deadline (unat iv) g < unat now)"
  by (auto simp: watched_def hb_check_def Let_def word_less_nat_alt up_unat)

lemma configure_watched:
  assumes "hb_configure p ow iv d now s = Inr s'" "ow \<noteq> 0" "unat now < 2 ^ 64"
  shows "watched s' p ow iv d (Seen (unat now))"
  using assms(1,2) by (auto simp: hb_configure_def watched_def checked_deadline [OF assms(3)] split: if_splits)

text \<open>The last sign is the configuration's or one of the calls.\<close>

lemma last_sign_given:
  "last_sign ow p iv d g h = g \<or>
   (\<exists>now. (now, Heartbeat ow p) \<in> set h \<and> last_sign ow p iv d g h = Seen (unat now)) \<or>
   (\<exists>now. d \<and> now \<noteq> 0 \<and> (now, SimulateInactivity ow p) \<in> set h \<and> last_sign ow p iv d g h = Pulled (unat now))"
proof (induction h arbitrary: g)
  case (Cons x h)
  show ?case
    using Cons.IH [of "last_sign ow p iv d g [x]"]
    by (cases x; cases "snd x") (auto simp: last_sign_Cons [of ow p iv d g x h] split: if_splits)
qed simp

text \<open>
  A trigger answers whether the deadline of the owner's last sign has passed, whatever
  calls were made by whom.
\<close>

lemma silence_answered:
  assumes "hb_configure policy owner interval demo t0 s = Inr s'" "owner \<noteq> 0"
    and "calm_times (t0 # map fst h)"
  shows "hb_check (hb_run h s') policy now pf =
    Inr (sign_deadline (unat interval) (last_sign owner policy (unat interval) demo (Seen (unat t0)) h) < unat now)"
proof -
  have "watched s' policy owner interval demo (Seen (unat t0))"
    using configure_watched [OF assms(1,2)] assms(3) by (simp add: calm_times_def)
  then have "watched (hb_run h s') policy owner interval demo (last_sign owner policy (unat interval) demo (Seen (unat t0)) h)"
    using assms(3) by (intro watched_run) (simp_all add: calm_times_def)
  then show ?thesis by (rule watched_check)
qed

end
