(* ===== verification/PolicyContract.thy ===== *)
theory PolicyContract
  imports Triggers
begin

text \<open>
  The contract a policy is deployed as (packages/contracts/src/ConfidentialPolicy.sol),
  its factory and the gate that says which machines are attested. The storage of one
  policy is the record \<open>policy_storage\<close>; \<open>others\<close> is the storage of every other contract.
  An operation is a function of the state that reverts with an error, leaving nothing
  behind, or returns the new state.

  What the policy calls is the record \<open>callees\<close>: the token, the trigger, the
  conditions, the TEE manager, and OpenZeppelin's EIP-712 and ECDSA. A call that may
  change state is given the whole state, the policy's own storage included, so that a
  callee may call the policy back.
\<close>

section \<open>State\<close>

datatype status = Active | Triggered | Executed | Cancelled

datatype revert_reason =
    NotOwner
  | WrongStatus status status
  | TriggerNotMet
  | ConditionNotMet nat
  | SignerNotAttested addr
  | CommitmentMismatch
  | NothingToDistribute
  | SharesDoNotSumToTotal "256 word"
  | InvalidInitialization
  | InvalidSignature
  | CalleeReverted
  | Arithmetic

datatype policy_event =
    Deposited addr "256 word"
  | Withdrawn addr "256 word"
  | Armed "256 word"
  | PolicyExecuted addr "256 word"
  | CancelledEvent

record sol_share =
  sh_recipient :: addr
  sh_shareBps :: "16 word"

record policy_storage =
  initialized :: bool
  p_owner :: addr
  p_asset :: addr
  p_commitment :: bytes
  p_attestorGate :: addr
  p_trigger :: addr
  p_conditions :: "addr list"
  p_status :: status
  p_triggeredAt :: "256 word"

record 'w evm =
  storage :: policy_storage
  others :: 'w
  emitted :: "policy_event list"

record 'w callees =
  this :: addr
  hash :: "bytes \<Rightarrow> bytes"
  balanceOf :: "addr \<Rightarrow> addr \<Rightarrow> 'w \<Rightarrow> 256 word"
  safeTransfer :: "addr \<Rightarrow> addr \<Rightarrow> 256 word \<Rightarrow> 'w evm \<Rightarrow> 'w evm option"
  safeTransferFrom :: "addr \<Rightarrow> addr \<Rightarrow> addr \<Rightarrow> 256 word \<Rightarrow> 'w evm \<Rightarrow> 'w evm option"
  checkTrigger :: "addr \<Rightarrow> 256 word \<Rightarrow> bytes \<Rightarrow> 'w evm \<Rightarrow> (bool \<times> 'w evm) option"
  isSatisfied :: "addr \<Rightarrow> 'w evm \<Rightarrow> bool option"
  teeManagerOf :: "addr \<Rightarrow> addr"
  getTeeMachineStatus :: "addr \<Rightarrow> addr \<Rightarrow> 'w \<Rightarrow> 8 word option"
  hashTypedDataV4 :: "bytes \<Rightarrow> bytes"
  toEthSignedMessageHash :: "bytes \<Rightarrow> bytes"
  recover :: "bytes \<Rightarrow> bytes \<Rightarrow> addr option"

section \<open>TeeAttestorGate\<close>

definition STATUS_PRODUCTION :: "8 word" where
  "STATUS_PRODUCTION = 2"

definition isAttested :: "'w callees \<Rightarrow> addr \<Rightarrow> addr \<Rightarrow> 'w \<Rightarrow> bool" where
  "isAttested C gate teeId w =
     (case getTeeMachineStatus C (teeManagerOf C gate) teeId w of
        Some st \<Rightarrow> st = STATUS_PRODUCTION | None \<Rightarrow> False)"

section \<open>ConfidentialPolicy\<close>

definition emit :: "policy_event \<Rightarrow> 'w evm \<Rightarrow> 'w evm" where
  "emit e s = s\<lparr> emitted := emitted s @ [e] \<rparr>"

definition set_status :: "status \<Rightarrow> 'w evm \<Rightarrow> 'w evm" where
  "set_status st s = s\<lparr> storage := (storage s)\<lparr> p_status := st \<rparr> \<rparr>"

definition callee :: "'a option \<Rightarrow> revert_reason + 'a" where
  "callee r = of_option CalleeReverted r"

definition onlyOwner :: "addr \<Rightarrow> 'w evm \<Rightarrow> revert_reason + unit" where
  "onlyOwner sender s = (if sender \<noteq> p_owner (storage s) then Inl NotOwner else Inr ())"

definition inStatus :: "status \<Rightarrow> 'w evm \<Rightarrow> revert_reason + unit" where
  "inStatus expected s =
     (if p_status (storage s) \<noteq> expected then Inl (WrongStatus expected (p_status (storage s))) else Inr ())"

definition initialize ::
  "addr \<Rightarrow> addr \<Rightarrow> bytes \<Rightarrow> addr \<Rightarrow> addr \<Rightarrow> addr list \<Rightarrow> policy_storage \<Rightarrow> revert_reason + policy_storage" where
  "initialize owner' asset' commitment' attestorGate' trigger' conditions' p =
     (if initialized p then Inl InvalidInitialization
      else Inr (p\<lparr> initialized := True, p_owner := owner', p_asset := asset', p_commitment := commitment',
                   p_attestorGate := attestorGate', p_trigger := trigger',
                   p_conditions := p_conditions p @ conditions', p_status := Active \<rparr>))"

definition pc_deposit :: "'w callees \<Rightarrow> addr \<Rightarrow> 256 word \<Rightarrow> 'w evm \<Rightarrow> revert_reason + 'w evm" where
  "pc_deposit C sender amt s =
     and_then (inStatus Active s) (\<lambda>_.
     and_then (callee (safeTransferFrom C (p_asset (storage s)) sender (this C) amt s)) (\<lambda>s1.
     Inr (emit (Deposited sender amt) s1)))"

definition pc_withdraw :: "'w callees \<Rightarrow> addr \<Rightarrow> 256 word \<Rightarrow> 'w evm \<Rightarrow> revert_reason + 'w evm" where
  "pc_withdraw C sender amt s =
     and_then (onlyOwner sender s) (\<lambda>_.
     and_then (inStatus Active s) (\<lambda>_.
     and_then (callee (safeTransfer C (p_asset (storage s)) (p_owner (storage s)) amt s)) (\<lambda>s1.
     Inr (emit (Withdrawn (p_owner (storage s1)) amt) s1))))"

definition pc_cancel :: "'w callees \<Rightarrow> addr \<Rightarrow> 'w evm \<Rightarrow> revert_reason + 'w evm" where
  "pc_cancel C sender s =
     and_then (onlyOwner sender s) (\<lambda>_.
     and_then (inStatus Active s) (\<lambda>_.
     let s1 = set_status Cancelled s; remaining = balanceOf C (p_asset (storage s1)) (this C) (others s1) in
     and_then (if 0 < remaining
               then callee (safeTransfer C (p_asset (storage s1)) (p_owner (storage s1)) remaining s1)
               else Inr s1) (\<lambda>s2.
     Inr (emit CancelledEvent s2))))"

fun conditions_hold :: "'w callees \<Rightarrow> nat \<Rightarrow> addr list \<Rightarrow> 'w evm \<Rightarrow> revert_reason + unit" where
  "conditions_hold C i [] s = Inr ()"
| "conditions_hold C i (c # cs) s =
     and_then (callee (isSatisfied C c s)) (\<lambda>ok.
     if \<not> ok then Inl (ConditionNotMet i) else conditions_hold C (Suc i) cs s)"

definition pc_arm :: "'w callees \<Rightarrow> 256 word \<Rightarrow> bytes \<Rightarrow> 'w evm \<Rightarrow> revert_reason + 'w evm" where
  "pc_arm C now pf s =
     and_then (inStatus Active s) (\<lambda>_.
     and_then (callee (checkTrigger C (p_trigger (storage s)) now pf s)) (\<lambda>(met, s1).
     if \<not> met then Inl TriggerNotMet
     else
     and_then (conditions_hold C 0 (p_conditions (storage s1)) s1) (\<lambda>_.
     Inr (emit (Armed now) (s1\<lparr> storage := (storage s1)\<lparr> p_status := Triggered, p_triggeredAt := now \<rparr> \<rparr>)))))"

definition share_val :: "sol_share \<Rightarrow> abi_val" where
  "share_val s = VTuple [VAddress (sh_recipient s), VUint (ucast (sh_shareBps s))]"

definition SHARE_TYPEHASH :: "(bytes \<Rightarrow> bytes) \<Rightarrow> bytes" where
  "SHARE_TYPEHASH h = h (utf8_bytes ''Share(address recipient,uint16 shareBps)'')"

definition EXECUTION_TYPEHASH :: "(bytes \<Rightarrow> bytes) \<Rightarrow> bytes" where
  "EXECUTION_TYPEHASH h = h (utf8_bytes ''Execution(bytes32 commitment,bytes32 sharesHash,uint256 triggeredAt)'')"

definition TOTAL_BPS :: "256 word" where
  "TOTAL_BPS = 10000"

definition hashShares :: "(bytes \<Rightarrow> bytes) \<Rightarrow> sol_share list \<Rightarrow> bytes" where
  "hashShares h shs = h (concat (map (\<lambda>s. h (abi_encode
     [VBytes32 (SHARE_TYPEHASH h), VAddress (sh_recipient s), VUint (ucast (sh_shareBps s))])) shs))"

fun sum_bps :: "256 word \<Rightarrow> sol_share list \<Rightarrow> revert_reason + 256 word" where
  "sum_bps tot [] = Inr tot"
| "sum_bps tot (s # ss) = and_then (checked_add Arithmetic tot (ucast (sh_shareBps s))) (\<lambda>t. sum_bps t ss)"

fun pay_shares ::
  "'w callees \<Rightarrow> 256 word \<Rightarrow> nat \<Rightarrow> nat \<Rightarrow> 256 word \<Rightarrow> sol_share list \<Rightarrow> 'w evm \<Rightarrow> revert_reason + 'w evm" where
  "pay_shares C available n i allocated [] s = Inr s"
| "pay_shares C available n i allocated (sh # shs) s =
     and_then (if i = n - 1 then checked_sub Arithmetic available allocated
               else and_then (checked_mul Arithmetic available (ucast (sh_shareBps sh))) (\<lambda>m. Inr (m div TOTAL_BPS)))
       (\<lambda>amt.
     and_then (checked_add Arithmetic allocated amt) (\<lambda>allocated'.
     and_then (callee (safeTransfer C (p_asset (storage s)) (sh_recipient sh) amt s)) (\<lambda>s1.
     pay_shares C available n (Suc i) allocated' shs s1)))"

definition execution_digest :: "'w callees \<Rightarrow> policy_storage \<Rightarrow> sol_share list \<Rightarrow> bytes" where
  "execution_digest C p shs =
     hashTypedDataV4 C (hash C (abi_encode
       [VBytes32 (EXECUTION_TYPEHASH (hash C)), VBytes32 (p_commitment p), VBytes32 (hashShares (hash C) shs),
        VUint (p_triggeredAt p)]))"

definition pc_execute :: "'w callees \<Rightarrow> sol_share list \<Rightarrow> bytes \<Rightarrow> bytes \<Rightarrow> 'w evm \<Rightarrow> revert_reason + 'w evm" where
  "pc_execute C shs slt sig s =
     and_then (inStatus Triggered s) (\<lambda>_.
     if hash C (abi_encode [VArray (map share_val shs), VBytes32 slt]) \<noteq> p_commitment (storage s) then Inl CommitmentMismatch
     else
     and_then (of_option InvalidSignature
        (recover C (toEthSignedMessageHash C (execution_digest C (storage s) shs)) sig)) (\<lambda>signer.
     if \<not> isAttested C (p_attestorGate (storage s)) signer (others s) then Inl (SignerNotAttested signer)
     else
     and_then (sum_bps 0 shs) (\<lambda>totalBps.
     if totalBps \<noteq> TOTAL_BPS then Inl (SharesDoNotSumToTotal totalBps)
     else
     let available = balanceOf C (p_asset (storage s)) (this C) (others s) in
     if available = 0 then Inl NothingToDistribute
     else
     and_then (pay_shares C available (length shs) 0 0 shs (set_status Executed s)) (\<lambda>s1.
     Inr (emit (PolicyExecuted signer available) s1)))))"

definition conditionCount :: "policy_storage \<Rightarrow> nat" where
  "conditionCount p = length (p_conditions p)"

definition pc_balance :: "'w callees \<Rightarrow> 'w evm \<Rightarrow> 256 word" where
  "pc_balance C s = balanceOf C (p_asset (storage s)) (this C) (others s)"

section \<open>PolicyFactory\<close>

record policy_deployed =
  pd_policy :: addr
  pd_owner :: addr
  pd_asset :: addr
  pd_commitment :: bytes
  pd_trigger :: addr

definition blank_storage :: policy_storage where
  "blank_storage = \<lparr> initialized = False, p_owner = 0, p_asset = 0, p_commitment = replicate 32 0, p_attestorGate = 0,
     p_trigger = 0, p_conditions = [], p_status = Active, p_triggeredAt = 0 \<rparr>"

text \<open>\<open>clone\<close> is the address OpenZeppelin's \<open>Clones.clone\<close> created, with blank storage.\<close>

definition factory_deploy ::
  "addr \<Rightarrow> addr \<Rightarrow> addr \<Rightarrow> bytes \<Rightarrow> addr \<Rightarrow> addr \<Rightarrow> addr list \<Rightarrow> revert_reason + policy_storage \<times> policy_deployed" where
  "factory_deploy clone sender asset' cm gate trg conds =
     and_then (initialize sender asset' cm gate trg conds blank_storage) (\<lambda>p.
     Inr (p, \<lparr> pd_policy = clone, pd_owner = sender, pd_asset = asset', pd_commitment = cm, pd_trigger = trg \<rparr>))"

section \<open>Calls\<close>

datatype policy_call =
    Initialize addr addr bytes addr addr "addr list"
  | Deposit addr "256 word"
  | Withdraw addr "256 word"
  | Cancel addr
  | Arm "256 word" bytes
  | Execute "sol_share list" bytes bytes

fun call_policy :: "'w callees \<Rightarrow> policy_call \<Rightarrow> 'w evm \<Rightarrow> revert_reason + 'w evm" where
  "call_policy C (Initialize ow a cm g t cs) s =
     and_then (initialize ow a cm g t cs (storage s)) (\<lambda>p. Inr (s\<lparr> storage := p \<rparr>))"
| "call_policy C (Deposit sender amt) s = pc_deposit C sender amt s"
| "call_policy C (Withdraw sender amt) s = pc_withdraw C sender amt s"
| "call_policy C (Cancel sender) s = pc_cancel C sender s"
| "call_policy C (Arm now pf) s = pc_arm C now pf s"
| "call_policy C (Execute shs slt sig) s = pc_execute C shs slt sig s"

definition transact_policy :: "'w callees \<Rightarrow> policy_call \<Rightarrow> 'w evm \<Rightarrow> 'w evm" where
  "transact_policy C c s = (case call_policy C c s of Inl _ \<Rightarrow> s | Inr s' \<Rightarrow> s')"

definition run_policy :: "'w callees \<Rightarrow> policy_call list \<Rightarrow> 'w evm \<Rightarrow> 'w evm" where
  "run_policy C cs s = fold (transact_policy C) cs s"

section \<open>Re-entrance\<close>

text \<open>
  A token that calls the policy back: when it is asked to move funds it first makes the
  calls its \<open>hook\<close> lists, each of which may ask it to move funds again, down to the
  depth of calls the chain allows, where every call fails.
\<close>

primrec reentrant :: "'w callees \<Rightarrow> ('w \<Rightarrow> policy_call list) \<Rightarrow> nat \<Rightarrow> 'w callees" where
  "reentrant C hook 0 = C\<lparr> safeTransfer := \<lambda>tok dest amt s. None, safeTransferFrom := \<lambda>tok src dest amt s. None \<rparr>"
| "reentrant C hook (Suc depth) =
     C\<lparr> safeTransfer := \<lambda>tok dest amt s.
           safeTransfer C tok dest amt (run_policy (reentrant C hook depth) (hook (others s)) s),
        safeTransferFrom := \<lambda>tok src dest amt s.
           safeTransferFrom C tok src dest amt (run_policy (reentrant C hook depth) (hook (others s)) s) \<rparr>"

text \<open>What the policy itself is promised: its storage is written by its own code only.\<close>

definition own_storage :: "'w callees \<Rightarrow> bool" where
  "own_storage C \<longleftrightarrow>
     (\<forall>tok dest amt s s'. safeTransfer C tok dest amt s = Some s' \<longrightarrow> storage s' = storage s \<and> emitted s' = emitted s) \<and>
     (\<forall>tok src dest amt s s'. safeTransferFrom C tok src dest amt s = Some s' \<longrightarrow>
        storage s' = storage s \<and> emitted s' = emitted s) \<and>
     (\<forall>trg now pf s b s'. checkTrigger C trg now pf s = Some (b, s') \<longrightarrow> storage s' = storage s \<and> emitted s' = emitted s)"

section \<open>Lifecycle\<close>

fun advances :: "status \<Rightarrow> status \<Rightarrow> bool" where
  "advances Active st = True"
| "advances Triggered st = (st = Triggered \<or> st = Executed)"
| "advances Executed st = (st = Executed)"
| "advances Cancelled st = (st = Cancelled)"

lemma advances_refl [simp]: "advances st st"
  by (cases st) auto

lemma advances_trans: "advances a b \<Longrightarrow> advances b c \<Longrightarrow> advances a c"
  by (cases a; cases b) auto

lemma advances_antisym: "advances a b \<Longrightarrow> advances b a \<Longrightarrow> a = b"
  by (cases a; cases b) auto

text \<open>The statuses are ordered by what may follow what: Active is the least, and Executed and
  Cancelled are the two ends.\<close>

instantiation status :: order
begin

definition less_eq_status :: "status \<Rightarrow> status \<Rightarrow> bool" where
  "less_eq_status a b \<longleftrightarrow> advances a b"

definition less_status :: "status \<Rightarrow> status \<Rightarrow> bool" where
  "less_status a b \<longleftrightarrow> advances a b \<and> a \<noteq> b"

instance
  by standard (auto simp: less_eq_status_def less_status_def intro: advances_trans advances_antisym)

end

lemma le_status_iff [simp]: "a \<le> b \<longleftrightarrow> advances a b" for a b :: status
  by (simp add: less_eq_status_def)

lemma le_Active: "a \<le> Active \<Longrightarrow> a = Active"
  by (cases a) auto

definition terms :: "policy_storage \<Rightarrow> addr \<times> addr \<times> bytes \<times> addr \<times> addr \<times> addr list" where
  "terms p = (p_owner p, p_asset p, p_commitment p, p_attestorGate p, p_trigger p, p_conditions p)"

definition later :: "policy_storage \<Rightarrow> policy_storage \<Rightarrow> bool" where
  "later p q \<longleftrightarrow> (initialized p \<longrightarrow> initialized q \<and> terms q = terms p \<and> p_status p \<le> p_status q \<and>
     (p_status p \<noteq> Active \<longrightarrow> p_triggeredAt q = p_triggeredAt p))"

fun is_execution :: "policy_event \<Rightarrow> bool" where
  "is_execution (PolicyExecuted signer amt) = True"
| "is_execution e = False"

definition executions :: "'w evm \<Rightarrow> nat" where
  "executions s = length (filter is_execution (emitted s))"

definition executed :: "'w evm \<Rightarrow> bool" where
  "executed s \<longleftrightarrow> p_status (storage s) = Executed"

text \<open>How a state may change: forward, and with at most the one execution that ends it.\<close>

definition evolves :: "'w evm \<Rightarrow> 'w evm \<Rightarrow> bool" where
  "evolves s s' \<longleftrightarrow> (initialized (storage s) \<longrightarrow>
     later (storage s) (storage s') \<and>
     executions s' \<le> executions s + (if \<not> executed s \<and> executed s' then 1 else 0))"

lemma later_refl [simp]: "later p p"
  by (simp add: later_def)

lemma later_trans: "later p q \<Longrightarrow> later q r \<Longrightarrow> later p r"
  unfolding later_def using order_trans le_Active by metis

lemma evolves_refl [simp]: "evolves s s"
  by (simp add: evolves_def)

lemma evolves_trans: "evolves s t \<Longrightarrow> evolves t u \<Longrightarrow> evolves s u"
  using later_trans [of "storage s" "storage t" "storage u"]
  by (auto simp: evolves_def later_def executed_def split: if_splits)

text \<open>The promise to a policy whose callees may call it back.\<close>

definition only_calls_back :: "'w callees \<Rightarrow> bool" where
  "only_calls_back C \<longleftrightarrow>
     (\<forall>tok dest amt s s'. safeTransfer C tok dest amt s = Some s' \<longrightarrow> evolves s s') \<and>
     (\<forall>tok src dest amt s s'. safeTransferFrom C tok src dest amt s = Some s' \<longrightarrow> evolves s s') \<and>
     (\<forall>trg now pf s b s'. checkTrigger C trg now pf s = Some (b, s') \<longrightarrow> storage s' = storage s \<and> emitted s' = emitted s)"

lemma evolves_emit: "evolves s t \<Longrightarrow> \<not> is_execution e \<Longrightarrow> evolves s (emit e t)"
  by (simp add: evolves_def emit_def executions_def executed_def)

lemma pay_shares_evolves:
  "only_calls_back C \<Longrightarrow> pay_shares C av n i al shs s = Inr s' \<Longrightarrow> evolves s s'"
proof (induction shs arbitrary: i al s)
  case (Cons sh shs)
  then obtain amt al' s1 where "safeTransfer C (p_asset (storage s)) (sh_recipient sh) amt s = Some s1"
    "pay_shares C av n (Suc i) al' shs s1 = Inr s'"
    by (auto simp: and_then_Inr_iff callee_def)
  with Cons show ?case by (metis evolves_trans only_calls_back_def)
qed simp

lemma execute_evolves:
  assumes "only_calls_back C" "pc_execute C shs slt sig s = Inr s'"
  shows "evolves s s'"
proof -
  obtain av sg s1 where t: "p_status (storage s) = Triggered"
    "pay_shares C av (length shs) 0 0 shs (set_status Executed s) = Inr s1" "s' = emit (PolicyExecuted sg av) s1"
    using assms(2) by (auto simp: pc_execute_def and_then_Inr_iff inStatus_def Let_def split: if_splits)
  have "evolves (set_status Executed s) s1" using pay_shares_evolves [OF assms(1) t(2)] .
  with t(1,3) show ?thesis
    by (auto simp: evolves_def later_def terms_def set_status_def emit_def executions_def executed_def)
qed

lemma pc_arm_Inr:
  "pc_arm C now pf s = Inr s' \<longleftrightarrow> (\<exists>s1. p_status (storage s) = Active \<and>
     checkTrigger C (p_trigger (storage s)) now pf s = Some (True, s1) \<and>
     conditions_hold C 0 (p_conditions (storage s1)) s1 = Inr () \<and>
     s' = emit (Armed now) (s1\<lparr> storage := (storage s1)\<lparr> p_status := Triggered, p_triggeredAt := now \<rparr> \<rparr>))"
  by (auto simp: pc_arm_def and_then_Inr_iff inStatus_def callee_def)

lemma call_evolves:
  assumes "only_calls_back C" "call_policy C c s = Inr s'"
  shows "evolves s s'"
proof (cases c)
  case (Execute shs slt sig)
  then show ?thesis using assms execute_evolves by fastforce
next
  case (Deposit sender amt)
  then show ?thesis using assms
    by (auto simp: pc_deposit_def and_then_Inr_iff callee_def only_calls_back_def intro!: evolves_emit)
next
  case (Withdraw sender amt)
  then show ?thesis using assms
    by (auto simp: pc_withdraw_def and_then_Inr_iff callee_def only_calls_back_def intro!: evolves_emit)
next
  case (Cancel sender)
  have "evolves s (set_status Cancelled s)" if "p_status (storage s) = Active"
    using that by (simp add: evolves_def later_def terms_def set_status_def executions_def executed_def)
  with Cancel assms show ?thesis
    by (auto simp: pc_cancel_def and_then_Inr_iff inStatus_def callee_def only_calls_back_def Let_def
        intro!: evolves_emit intro: evolves_trans split: if_splits)
next
  case (Arm now pf)
  then obtain s1 where s1: "p_status (storage s) = Active" "checkTrigger C (p_trigger (storage s)) now pf s = Some (True, s1)"
    "s' = emit (Armed now) (s1\<lparr> storage := (storage s1)\<lparr> p_status := Triggered, p_triggeredAt := now \<rparr> \<rparr>)"
    using assms(2) unfolding Arm call_policy.simps pc_arm_Inr by blast
  have "storage s1 = storage s" "emitted s1 = emitted s" using assms(1) s1(2) unfolding only_calls_back_def by blast+
  with s1(1,3) show ?thesis by (simp add: evolves_def later_def terms_def emit_def executions_def executed_def)
next
  case (Initialize ow a cm g t cs)
  then show ?thesis using assms by (auto simp: initialize_def evolves_def and_then_Inr_iff split: if_splits)
qed

lemma run_evolves: "only_calls_back C \<Longrightarrow> evolves s (run_policy C cs s)"
proof (induction cs arbitrary: s)
  case (Cons c cs)
  have "evolves s (transact_policy C c s)"
    using call_evolves [OF Cons.prems] by (auto simp: transact_policy_def split: sum.split)
  with Cons show ?case by (simp add: run_policy_def) (metis evolves_trans)
qed (simp add: run_policy_def)

text \<open>Whatever the hook and the depth, a token of this kind only calls back.\<close>

lemma reentrant_calls_back:
  assumes "own_storage C"
  shows "only_calls_back (reentrant C hook depth)"
proof (induction depth)
  case 0
  then show ?case using assms by (auto simp: only_calls_back_def own_storage_def)
next
  case (Suc depth)
  have settle: "evolves s s'"
    if "storage s' = storage (run_policy (reentrant C hook depth) cs s)"
      "emitted s' = emitted (run_policy (reentrant C hook depth) cs s)" for s s' and cs
    using run_evolves [OF Suc, of s cs] that by (simp add: evolves_def executions_def executed_def)
  show ?case
    unfolding only_calls_back_def
  proof (intro conjI allI impI)
    fix tok dest amt and s s' :: "'a evm"
    assume "safeTransfer (reentrant C hook (Suc depth)) tok dest amt s = Some s'"
    then show "evolves s s'" using assms by (simp add: own_storage_def, blast intro: settle)
  next
    fix tok src dest amt and s s' :: "'a evm"
    assume "safeTransferFrom (reentrant C hook (Suc depth)) tok src dest amt s = Some s'"
    then show "evolves s s'" using assms by (simp add: own_storage_def, blast intro: settle)
  qed (use assms in \<open>auto simp: own_storage_def\<close>)
qed

text \<open>A policy that is over answers every call with an error.\<close>

lemma finished_call:
  assumes "initialized (storage s)" "p_status (storage s) = Executed \<or> p_status (storage s) = Cancelled"
  shows "\<exists>e. call_policy C c s = Inl e"
  using assms by (cases c) (auto simp: initialize_def pc_deposit_def pc_withdraw_def pc_cancel_def pc_arm_def
      pc_execute_def inStatus_def onlyOwner_def and_then_Inl_iff)

lemma finished_run:
  assumes "initialized (storage s)" "p_status (storage s) = Executed \<or> p_status (storage s) = Cancelled"
  shows "run_policy C cs s = s"
proof (induction cs)
  case (Cons c cs)
  obtain e where "call_policy C c s = Inl e" using finished_call [OF assms] by blast
  with Cons show ?case by (simp add: run_policy_def transact_policy_def)
qed (simp add: run_policy_def)

section \<open>An instance\<close>

type_synonym balances = "addr \<Rightarrow> 256 word"

definition moved :: "addr \<Rightarrow> addr \<Rightarrow> 256 word \<Rightarrow> balances \<Rightarrow> balances" where
  "moved src dest amt f = (let g = f(src := f src - amt) in g(dest := g dest + amt))"

definition demo_typed_hash :: "bytes \<Rightarrow> bytes" where
  "demo_typed_hash sh = demo_hash ([0x19, 0x01] @ demo_hash (abi_encode
     [VBytes32 (demo_hash (utf8_bytes ''EIP712Domain(string name,string version,uint256 chainId,address verifyingContract)'')),
      VBytes32 (demo_hash (utf8_bytes ''FlareStudioPolicy'')), VBytes32 (demo_hash (utf8_bytes ''1'')), VUint 114,
      VAddress 9]) @ sh)"

definition demo_callees :: "balances callees" where
  "demo_callees = \<lparr> this = 9, hash = demo_hash, balanceOf = (\<lambda>tok x w. w x),
     safeTransfer = (\<lambda>tok dest amt s. if amt \<le> others s 9 \<and> dest \<noteq> 0
       then Some (s\<lparr> others := moved 9 dest amt (others s) \<rparr>) else None),
     safeTransferFrom = (\<lambda>tok src dest amt s. if amt \<le> others s src \<and> dest \<noteq> 0
       then Some (s\<lparr> others := moved src dest amt (others s) \<rparr>) else None),
     checkTrigger = (\<lambda>trg now pf s. Some (True, s)), isSatisfied = (\<lambda>c s. Some True),
     teeManagerOf = id, getTeeMachineStatus = (\<lambda>m t w. Some 2), hashTypedDataV4 = demo_typed_hash, toEthSignedMessageHash = id,
     recover = (\<lambda>d sig. Some 3) \<rparr>"

definition demo_evm :: "bytes \<Rightarrow> status \<Rightarrow> balances evm" where
  "demo_evm cm st = \<lparr> storage = \<lparr> initialized = True, p_owner = 5, p_asset = 4, p_commitment = cm, p_attestorGate = 6,
       p_trigger = 7, p_conditions = [], p_status = st, p_triggeredAt = 1200 \<rparr>,
     others = (\<lambda>x. 0)(9 := 1000), emitted = [] \<rparr>"

lemma demo_callees_own: "own_storage demo_callees"
  by (auto simp: own_storage_def demo_callees_def split: if_splits)

section \<open>A trigger that calls back\<close>

text \<open>
  \<open>arm\<close> asks the trigger before it writes its status, and ITrigger allows the trigger to
  change state. The triggers of the repository do not, but one that calls back is able
  to undo the end of a policy: here it cancels the policy, and the policy is armed all
  the same.
\<close>

definition rearming :: "balances callees" where
  "rearming = demo_callees\<lparr> checkTrigger := \<lambda>trg now pf s. Some (True, transact_policy demo_callees (Cancel 5) s) \<rparr>"

lemma cancelled_policy_armed:
  "\<exists>s1 s'. checkTrigger rearming 7 2000 [] (demo_evm cm Active) = Some (True, s1) \<and> p_status (storage s1) = Cancelled \<and>
     pc_arm rearming 2000 [] (demo_evm cm Active) = Inr s' \<and> p_status (storage s') = Triggered"
proof -
  let ?s1 = "transact_policy demo_callees (Cancel 5) (demo_evm cm Active)"
  have "p_status (storage ?s1) = Cancelled" "p_conditions (storage ?s1) = []"
    by (simp_all add: transact_policy_def pc_cancel_def onlyOwner_def inStatus_def demo_evm_def demo_callees_def
        set_status_def callee_def emit_def Let_def)
  then show ?thesis
    by (simp add: pc_arm_Inr rearming_def) (simp add: demo_evm_def emit_def)
qed

section \<open>Triggers of the repository\<close>

text \<open>A trigger's \<open>check\<close> that only reads, on the trigger's state among the others.\<close>

definition view_trigger ::
  "('w \<Rightarrow> addr \<Rightarrow> 256 word \<Rightarrow> bytes \<Rightarrow> trigger_error + bool) \<Rightarrow> 'w callees \<Rightarrow> 'w callees" where
  "view_trigger answer C = C\<lparr> checkTrigger := \<lambda>trg now pf s.
     (case answer (others s) (this C) now pf of Inl _ \<Rightarrow> None | Inr b \<Rightarrow> Some (b, s)) \<rparr>"

lemma view_trigger_own: "own_storage C \<Longrightarrow> own_storage (view_trigger answer C)"
  by (auto simp: own_storage_def view_trigger_def split: sum.splits)

lemma view_arm_iff:
  "(\<exists>s'. pc_arm (view_trigger answer C) now pf s = Inr s') \<longleftrightarrow>
     p_status (storage s) = Active \<and> answer (others s) (this C) now pf = Inr True \<and>
     conditions_hold (view_trigger answer C) 0 (p_conditions (storage s)) s = Inr ()"
  unfolding pc_arm_Inr by (auto simp: view_trigger_def split: sum.splits)

text \<open>C8: An active policy with a heartbeat trigger and no conditions can be armed exactly when the last sign
  of its owner says so, whoever called the trigger in the meantime. A sign is the configuration, a heartbeat
  of the owner or, where the trigger was configured in demo mode, a simulated inactivity of the owner. After a
  configuration or a heartbeat more than the interval must have passed; after a simulated inactivity the
  policy can be armed from that very block on. Without demo mode the owner's silence for more than the
  interval is thus the only way to arm it. Block times fit the 64 bits the trigger keeps of them; a
  heartbeat whose deadline does not fit reverts and is no sign.\<close>

theorem armed_exactly_on_silence:
  assumes "hb_configure (this C) owner interval demo t0 st = Inr st'" "owner \<noteq> 0"
    and "calm_times (t0 # map fst h)"
    and "beats (others s) = hb_run h st'" "p_conditions (storage s) = []"
  shows "let g = last_sign owner (this C) (unat interval) demo (Seen (unat t0)) h in
    ((\<exists>s'. pc_arm (view_trigger (\<lambda>w. hb_check (beats w)) C) now pf s = Inr s') \<longleftrightarrow>
      p_status (storage s) = Active \<and>
      (case g of Seen t \<Rightarrow> t + unat interval < unat now | Pulled t \<Rightarrow> t \<le> unat now)) \<and>
    (case g of
       Seen t \<Rightarrow> t = unat t0 \<or> (\<exists>b. (b, Heartbeat owner (this C)) \<in> set h \<and> t = unat b)
     | Pulled t \<Rightarrow> demo \<and> (\<exists>b. (b, SimulateInactivity owner (this C)) \<in> set h \<and> t = unat b))"
proof -
  let ?g = "last_sign owner (this C) (unat interval) demo (Seen (unat t0)) h"
  have "(\<exists>s'. pc_arm (view_trigger (\<lambda>w. hb_check (beats w)) C) now pf s = Inr s') \<longleftrightarrow>
      p_status (storage s) = Active \<and> sign_deadline (unat interval) ?g < unat now"
    using silence_answered [OF assms(1-3), of now pf] by (simp add: view_arm_iff assms(4,5))
  then show ?thesis
    using last_sign_given [of owner "this C" "unat interval" demo "Seen (unat t0)" h]
    by (cases ?g) (auto simp: Let_def unat_eq_0)
qed

theorem armed_exactly_on_silence_witness:
  "\<exists>st st'. hb_configure 9 5 100 False 1000 no_heartbeats = Inr st \<and>
     \<not> (\<exists>s'. pc_arm (view_trigger (\<lambda>w. hb_check (hb_run [(1050, Heartbeat 5 9)] st)) demo_callees) 1150 [] (demo_evm [] Active) = Inr s') \<and>
     (\<exists>s'. pc_arm (view_trigger (\<lambda>w. hb_check (hb_run [(1050, Heartbeat 5 9)] st)) demo_callees) 1151 [] (demo_evm [] Active) = Inr s') \<and>
     hb_configure 9 5 100 True 1000 no_heartbeats = Inr st' \<and>
     (\<exists>s'. pc_arm (view_trigger (\<lambda>w. hb_check (hb_run [(1050, SimulateInactivity 5 9)] st')) demo_callees) 1050 [] (demo_evm [] Active) = Inr s')"
proof -
  obtain st where st: "hb_configure (this demo_callees) 5 100 False 1000 no_heartbeats = Inr st"
    by (simp add: hb_configure_def no_heartbeats_def checked_add_def uint64_def)
  obtain st' where st': "hb_configure (this demo_callees) 5 100 True 1000 no_heartbeats = Inr st'"
    by (simp add: hb_configure_def no_heartbeats_def checked_add_def uint64_def)
  have *: "p_conditions (storage (demo_evm [] Active)) = []" "p_status (storage (demo_evm [] Active)) = Active"
    "this demo_callees = 9"
    by (simp_all add: demo_evm_def demo_callees_def)
  have quiet: "(\<exists>s'. pc_arm (view_trigger (\<lambda>w. hb_check (hb_run [(1050, Heartbeat 5 9)] st)) demo_callees) now []
      (demo_evm [] Active) = Inr s') \<longleftrightarrow> 1150 < unat now" for now
    using armed_exactly_on_silence [OF st, of "[(1050, Heartbeat 5 9)]" "\<lambda>w. hb_run [(1050, Heartbeat 5 9)] st" "demo_evm [] Active"] *
    by (simp add: calm_times_def)
  have "\<exists>s'. pc_arm (view_trigger (\<lambda>w. hb_check (hb_run [(1050, SimulateInactivity 5 9)] st')) demo_callees) 1050 []
      (demo_evm [] Active) = Inr s'"
    using armed_exactly_on_silence [OF st', of "[(1050, SimulateInactivity 5 9)]" "\<lambda>w. hb_run [(1050, SimulateInactivity 5 9)] st'" "demo_evm [] Active"] *
    by (simp add: calm_times_def)
  then show ?thesis using st st' *(3) quiet [of 1150] quiet [of 1151] by simp
qed

section \<open>Properties\<close>

text \<open>C4: However often its token calls it back, and whatever is called in whatever order, a deployed
  policy keeps its owner, asset, commitment, gate, trigger and conditions, its status only moves
  forward, the time it was armed at stays once it is armed, it pays out at most once, and nothing
  changes it after it has paid out or was cancelled.\<close>

theorem policy_pays_once:
  assumes "own_storage C" "factory_deploy clone sender asset' cm gate trg conds = Inr (p, ev)"
    and "storage s = p" "emitted s = []"
  shows "let s' = run_policy (reentrant C hook depth) cs s; s'' = run_policy (reentrant C hook depth) later_cs s' in
    terms (storage s'') = (sender, asset', cm, gate, trg, conds) \<and>
    later (storage s') (storage s'') \<and> executions s'' \<le> 1 \<and>
    (p_status (storage s') = Executed \<or> p_status (storage s') = Cancelled \<longrightarrow> s'' = s')"
proof -
  note ev = run_evolves [OF reentrant_calls_back [OF assms(1), of hook depth]]
  define s' s'' where "s' = run_policy (reentrant C hook depth) cs s" and "s'' = run_policy (reentrant C hook depth) later_cs s'"
  have e: "evolves s s'" "evolves s' s''" using ev by (simp_all add: s'_def s''_def)
  have p: "initialized p" "terms p = (sender, asset', cm, gate, trg, conds)"
    using assms(2) by (auto simp: factory_deploy_def initialize_def blank_storage_def terms_def)
  have l: "later (storage s) (storage s')" "later (storage s') (storage s'')" "later (storage s) (storage s'')"
    "initialized (storage s')"
    using e evolves_trans [OF e] p(1) assms(3) by (auto simp: evolves_def later_def)
  have "executions s'' \<le> 1"
    using evolves_trans [OF e] p(1) assms(3,4) by (auto simp: evolves_def executions_def split: if_splits)
  moreover have "terms (storage s'') = (sender, asset', cm, gate, trg, conds)"
    using l(3) p assms(3) by (simp add: later_def)
  moreover have "s'' = s'" if "p_status (storage s') = Executed \<or> p_status (storage s') = Cancelled"
    using finished_run [OF l(4) that] by (simp add: s''_def)
  ultimately show ?thesis using l(2) by (simp add: s'_def s''_def Let_def)
qed

theorem policy_pays_once_witness:
  "\<exists>p ev. factory_deploy 9 5 4 (replicate 32 0) 6 7 [] = Inr (p, ev) \<and>
     executions (run_policy (reentrant demo_callees (\<lambda>w. [Cancel 5, Arm 1 []]) 3) [Deposit 5 10]
       (run_policy (reentrant demo_callees (\<lambda>w. [Cancel 5, Arm 1 []]) 3) [Withdraw 5 1, Arm 2 []]
         \<lparr> storage = p, others = (\<lambda>x. 0)(9 := 1000), emitted = [] \<rparr>)) \<le> 1"
proof -
  obtain p ev where p: "factory_deploy 9 5 4 (replicate 32 0) 6 7 [] = Inr (p, ev)"
    by (simp add: factory_deploy_def initialize_def blank_storage_def)
  let ?s = "\<lparr> storage = p, others = (\<lambda>x. 0)(9 := 1000), emitted = [] \<rparr> :: balances evm"
  have "storage ?s = p" "emitted ?s = []" by simp_all
  from policy_pays_once [OF demo_callees_own p this] p show ?thesis by (auto simp: Let_def)
qed

end
