(* ===== verification/Payouts.thy ===== *)
theory Payouts
  imports Compile PolicyContract
begin

text \<open>
  What the policy contract pays: the moves of its loop, that they are the amounts the
  TypeScript compiler computes, when the loop reaches its end, and when it cannot.
\<close>

section \<open>What is paid\<close>

text \<open>
  An ERC-20 token, as documented: a transfer of at most the balance to an address that is
  not zero moves exactly the amount, any other fails, and nothing else changes.
\<close>

definition paid_out :: "addr \<Rightarrow> (addr \<times> 256 word) list \<Rightarrow> balances \<Rightarrow> balances" where
  "paid_out src ps f = fold (\<lambda>(dest, amt). moved src dest amt) ps f"

definition held :: "'w callees \<Rightarrow> addr \<Rightarrow> 'w evm \<Rightarrow> balances" where
  "held C tok s x = balanceOf C tok x (others s)"

definition erc20_documented :: "'w callees \<Rightarrow> addr \<Rightarrow> bool" where
  "erc20_documented C tok \<longleftrightarrow>
     (\<forall>dest amt s. if amt \<le> held C tok s (this C) \<and> dest \<noteq> 0
        then \<exists>s'. safeTransfer C tok dest amt s = Some s' \<and> storage s' = storage s \<and> emitted s' = emitted s \<and>
                  held C tok s' = moved (this C) dest amt (held C tok s)
        else safeTransfer C tok dest amt s = None)"

lemma transfer_Some:
  assumes "erc20_documented C tok" "safeTransfer C tok dest amt s = Some s'"
  shows "storage s' = storage s \<and> emitted s' = emitted s \<and> held C tok s' = moved (this C) dest amt (held C tok s)"
  using assms unfolding erc20_documented_def by (metis option.distinct(1) option.inject)

text \<open>The amounts of the loop, as the compiler computes them.\<close>

definition sol_amounts :: "256 word \<Rightarrow> int \<Rightarrow> sol_share list \<Rightarrow> 256 word list" where
  "sol_amounts av al shs = map of_int (loop_amounts (uint av) al (map (\<lambda>s. uint (sh_shareBps s)) shs))"

lemma uint_checked_add: "checked_add e a b = Inr c \<Longrightarrow> uint c = uint a + uint b"
  by (drule checked_add_unat, drule arg_cong [where f = int], simp)

lemma uint_checked_mul: "checked_mul e a b = Inr c \<Longrightarrow> uint c = uint a * uint b"
  by (drule checked_mul_unat, drule arg_cong [where f = int], simp)

lemma uint_checked_sub: "checked_sub e a b = Inr c \<Longrightarrow> uint c = uint a - uint b"
proof -
  assume r: "checked_sub e a b = Inr c"
  then have "unat b \<le> unat a" by (simp add: checked_sub_def word_le_nat_alt split: if_splits)
  with checked_sub_unat [OF r] have "int (unat c) = int (unat a) - int (unat b)" by simp
  then show ?thesis by simp
qed

lemma up16: "uint (ucast (b :: 16 word) :: 256 word) = uint b"
  by (simp add: unsigned_ucast_eq take_bit_int_eq_self_iff) (use uint_bounded [of b] in simp)

lemma big_div_pos: "0 \<le> a \<Longrightarrow> 0 < b \<Longrightarrow> big_div a b = a div b"
  by (simp add: big_div_def)

lemma floor_amount:
  assumes "checked_mul Arithmetic av (ucast (b :: 16 word)) = Inr m"
  shows "m div TOTAL_BPS = of_int (big_div (uint av * uint b) 10000) \<and>
    uint (m div TOTAL_BPS) = big_div (uint av * uint b) 10000"
proof -
  have "uint m = uint av * uint b" using uint_checked_mul [OF assms] by (simp add: up16)
  then have "uint (m div TOTAL_BPS) = big_div (uint av * uint b) 10000"
    by (simp add: TOTAL_BPS_def uint_div big_div_pos)
  then show ?thesis by (metis word_of_int_uint)
qed

lemma pay_shares_moves:
  assumes "erc20_documented C tok"
  shows "p_asset (storage s) = tok \<Longrightarrow> i + length shs = n \<Longrightarrow> pay_shares C av n i al shs s = Inr s' \<Longrightarrow>
    storage s' = storage s \<and> emitted s' = emitted s \<and>
    held C tok s' = paid_out (this C) (zip (map sh_recipient shs) (sol_amounts av (uint al) shs)) (held C tok s)"
proof (induction shs arbitrary: i al s)
  case Nil
  then show ?case by (simp add: paid_out_def)
next
  case (Cons sh shs)
  let ?m = "if i = n - 1 then checked_sub Arithmetic av al
      else and_then (checked_mul Arithmetic av (ucast (sh_shareBps sh))) (\<lambda>m. Inr (m div TOTAL_BPS))"
  obtain amt al' s1 where r: "?m = Inr amt" "checked_add Arithmetic al amt = Inr al'"
    "safeTransfer C tok (sh_recipient sh) amt s = Some s1" "pay_shares C av n (Suc i) al' shs s1 = Inr s'"
    using Cons.prems(1,3) unfolding pay_shares.simps and_then_Inr_iff callee_def of_option_Inr_iff by blast
  have s1: "storage s1 = storage s" "emitted s1 = emitted s" "held C tok s1 = moved (this C) (sh_recipient sh) amt (held C tok s)"
    using transfer_Some [OF assms r(3)] by blast+
  have IH: "storage s' = storage s1" "emitted s' = emitted s1"
    "held C tok s' = paid_out (this C) (zip (map sh_recipient shs) (sol_amounts av (uint al') shs)) (held C tok s1)"
    using Cons.IH [OF _ _ r(4)] Cons.prems(1,2) s1(1) by simp_all
  have "sol_amounts av (uint al) (sh # shs) = amt # sol_amounts av (uint al') shs"
  proof (cases "shs = []")
    case True
    then have "i = n - 1" using Cons.prems(2) by simp
    then have "checked_sub Arithmetic av al = Inr amt" using r(1) by simp
    then have "amt = of_int (uint av - uint al)" using uint_checked_sub by (metis word_of_int_uint)
    with True show ?thesis by (simp add: sol_amounts_def loop_amounts_def)
  next
    case False
    then have "i \<noteq> n - 1" using Cons.prems(2) by (cases shs) auto
    then obtain m where "checked_mul Arithmetic av (ucast (sh_shareBps sh)) = Inr m" "amt = m div TOTAL_BPS"
      using r(1) by (auto simp: and_then_Inr_iff)
    then have "amt = of_int (big_div (uint av * uint (sh_shareBps sh)) 10000)"
      "uint al' = uint al + big_div (uint av * uint (sh_shareBps sh)) 10000"
      using floor_amount uint_checked_add [OF r(2)] by metis+
    with False show ?thesis by (simp add: sol_amounts_def loop_amounts_Cons)
  qed
  with IH s1 show ?case by (simp add: paid_out_def)
qed

lemma pc_execute_Inr:
  assumes "pc_execute C shs slt sig s = Inr s'"
  shows "\<exists>signer s1. p_status (storage s) = Triggered \<and>
    hash C (abi_encode [VArray (map share_val shs), VBytes32 slt]) = p_commitment (storage s) \<and>
    recover C (toEthSignedMessageHash C (execution_digest C (storage s) shs)) sig = Some signer \<and>
    isAttested C (p_attestorGate (storage s)) signer (others s) \<and> sum_bps 0 shs = Inr TOTAL_BPS \<and> pc_balance C s \<noteq> 0 \<and>
    pay_shares C (pc_balance C s) (length shs) 0 0 shs (set_status Executed s) = Inr s1 \<and>
    s' = emit (PolicyExecuted signer (pc_balance C s)) s1"
  using assms by (auto simp: pc_execute_def and_then_Inr_iff inStatus_def pc_balance_def Let_def split: if_splits)

lemma execute_moves:
  assumes "erc20_documented C (p_asset (storage s))" "pc_execute C shs slt sig s = Inr s'"
  shows "storage s' = (storage s)\<lparr> p_status := Executed \<rparr> \<and>
    held C (p_asset (storage s)) s' =
      paid_out (this C) (zip (map sh_recipient shs) (sol_amounts (pc_balance C s) 0 shs)) (held C (p_asset (storage s)) s)"
proof -
  obtain signer s1 where e: "pay_shares C (pc_balance C s) (length shs) 0 0 shs (set_status Executed s) = Inr s1"
    "s' = emit (PolicyExecuted signer (pc_balance C s)) s1"
    using pc_execute_Inr [OF assms(2)] by blast
  have h: "held C tok (set_status st s) = held C tok s" "held C tok (emit ev s1) = held C tok s1" for tok st ev
    by (simp_all add: held_def set_status_def emit_def fun_eq_iff)
  have "p_asset (storage (set_status Executed s)) = p_asset (storage s)" by (simp add: set_status_def)
  from pay_shares_moves [OF assms(1) this _ e(1)] show ?thesis
    by (simp add: e(2) h) (simp add: set_status_def emit_def)
qed

section \<open>The compiler's split\<close>

definition share_pair :: "sol_share \<Rightarrow> addr \<times> 256 word" where
  "share_pair s = (sh_recipient s, ucast (sh_shareBps s))"

definition share_preimage :: "sol_share list \<Rightarrow> bytes \<Rightarrow> bytes" where
  "share_preimage shs slt = abi_encode [VArray (map share_val shs), VBytes32 slt]"

lemma share_preimage_eq: "share_preimage shs slt = commitment_preimage (map share_pair shs) slt"
proof -
  have "map share_val shs = map dist_val (map share_pair shs)"
    by (simp add: share_val_def dist_val_def share_pair_def)
  then show ?thesis by (simp only: share_preimage_def commitment_preimage_def)
qed

lemma chain_shares_rel:
  "chain_shares rs = Some cs \<longleftrightarrow> list_all2 (\<lambda>r c. chain_distribution \<lparr> recipient = address r, amount = shareBps r \<rparr> = Some c) rs cs"
  by (simp add: chain_shares_def traverse_Some_iff list_all2_map1)

text \<open>Revealed shares that are the committed ones are the compiled ones.\<close>

lemma revealed_shares:
  assumes "wf_shares rs" "chain_shares rs = Some (map share_pair shs)"
  shows "map (\<lambda>s. uint (sh_shareBps s)) shs = map shareBps rs \<and>
    list_all2 (\<lambda>r s. address_value (address r) = Some (sh_recipient s)) rs shs"
proof -
  have "list_all2 (\<lambda>r s. chain_distribution \<lparr> recipient = address r, amount = shareBps r \<rparr> = Some (share_pair s)) rs shs"
    using assms(2) by (simp add: chain_shares_rel list_all2_map2)
  then have "list_all2 (\<lambda>r s. address_value (address r) = Some (sh_recipient s) \<and> shareBps r = uint (sh_shareBps s)) rs shs"
  proof (rule list_all2_mono)
    fix r s
    assume "chain_distribution \<lparr> recipient = address r, amount = shareBps r \<rparr> = Some (share_pair s)"
    then have a: "address_value (address r) = Some (sh_recipient s)" "0 \<le> shareBps r" "shareBps r < 2 ^ 256"
      "(of_int (shareBps r) :: 256 word) = ucast (sh_shareBps s)"
      by (auto simp: chain_distribution_def share_pair_def split: option.splits if_splits)
    have "uint (of_int (shareBps r) :: 256 word) = shareBps r" using a(2,3) by (simp add: uint_word_of_int)
    then have "shareBps r = uint (ucast (sh_shareBps s) :: 256 word)" by (simp only: a(4))
    then show "address_value (address r) = Some (sh_recipient s) \<and> shareBps r = uint (sh_shareBps s)"
      using a(1) by (simp add: up16)
  qed
  then show ?thesis by (auto simp: list_all2_conv_all_nth list_eq_iff_nth_eq)
qed

text \<open>The compiler's amounts fit the chain's, one by one.\<close>

lemma resolved_on_chain:
  assumes "wf_shares rs" "chain_shares rs = Some (map share_pair shs)" "recipients config = rs"
  shows "traverse chain_distribution (resolveDistributions config (uint av)) =
    Some (zip (map sh_recipient shs) (sol_amounts av 0 shs))"
proof -
  let ?ds = "resolveDistributions config (uint av)" and ?bs = "map shareBps rs"
  note r = revealed_shares [OF assms(1,2)]
  note w = wf_shares_split [OF assms(1), of "uint av"]
  have am: "map amount ?ds = ts_split ?bs (uint av)" by (simp add: resolve_amounts assms(3))
  have ad: "map recipient ?ds = map address rs" by (simp add: resolveDistributions_def resolve_from_recipients assms(3))
  have len: "length ?ds = length rs" "length shs = length rs"
    using ad r by (metis length_map, metis list_all2_lengthD)
  have sol: "sol_amounts av 0 shs = map of_int (ts_split ?bs (uint av))"
    using r by (simp add: sol_amounts_def ts_split_eq)
  have nn: "\<forall>a \<in> set (ts_split ?bs (uint av)). 0 \<le> a"
    using ts_splitter.split_nonneg w by (auto simp: in_set_conv_nth ts_splitter.split_length)
  have tot: "sum_list (ts_split ?bs (uint av)) = uint av" using ts_splitter.split_total w by simp
  have bound: "0 \<le> ts_split ?bs (uint av) ! i \<and> ts_split ?bs (uint av) ! i < 2 ^ 256" if "i < length rs" for i
  proof -
    have m: "ts_split ?bs (uint av) ! i \<in> set (ts_split ?bs (uint av))"
      using that by (simp add: ts_splitter.split_length)
    then have "ts_split ?bs (uint av) ! i \<le> uint av" using member_le_sum_list nn tot by metis
    with m nn uint_bounded [of av] show ?thesis by simp
  qed
  have "chain_distribution (?ds ! i) = Some (sh_recipient (shs ! i), of_int (ts_split ?bs (uint av) ! i))" if i: "i < length rs" for i
  proof -
    have "recipient (?ds ! i) = address (rs ! i)" "amount (?ds ! i) = ts_split ?bs (uint av) ! i"
      using ad am i len by (metis nth_map)+
    moreover have "address_value (address (rs ! i)) = Some (sh_recipient (shs ! i))"
      using r i by (simp add: list_all2_conv_all_nth)
    ultimately show ?thesis using bound [OF i] by (simp add: chain_distribution_def)
  qed
  then show ?thesis
    by (simp add: traverse_Some_iff list_all2_conv_all_nth len sol ts_splitter.split_length)
qed

section \<open>When it succeeds\<close>

definition production :: "'w callees \<Rightarrow> 'w evm \<Rightarrow> sol_share list \<Rightarrow> bytes \<Rightarrow> bool" where
  "production C s shs sig \<longleftrightarrow>
     (case recover C (toEthSignedMessageHash C (execution_digest C (storage s) shs)) sig of None \<Rightarrow> False
      | Some signer \<Rightarrow> isAttested C (p_attestorGate (storage s)) signer (others s))"

lemma sum_bps_total:
  assumes "list_all (\<lambda>s. uint (sh_shareBps s) \<le> 10000) shs" "uint tot + sum_list (map (\<lambda>s. uint (sh_shareBps s)) shs) < 2 ^ 256"
  shows "sum_bps tot shs = Inr (of_int (uint tot + sum_list (map (\<lambda>s. uint (sh_shareBps s)) shs)))"
  using assms
proof (induction shs arbitrary: tot)
  case (Cons s shs)
  have nn: "0 \<le> sum_list (map (\<lambda>s. uint (sh_shareBps s)) shs)" by (rule sum_list_nonneg) auto
  let ?t = "tot + ucast (sh_shareBps s)"
  have "int (unat tot + unat (ucast (sh_shareBps s) :: 256 word)) < 2 ^ 256" using Cons.prems(2) nn by (simp add: up16)
  then have ok: "checked_add Arithmetic tot (ucast (sh_shareBps s)) = Inr ?t"
    unfolding checked_add_def by (simp del: of_nat_add)
  then have "uint ?t = uint tot + uint (sh_shareBps s)" using uint_checked_add by (fastforce simp: up16)
  with Cons ok show ?case by (simp add: add.assoc)
qed simp

lemma moved_source: "dest \<noteq> src \<Longrightarrow> moved src dest amt f src = f src - amt"
  by (simp add: moved_def Let_def)

lemma moved_ge:
  assumes "amt \<le> f src"
  shows "uint (f src) - uint amt \<le> uint (moved src dest amt f src)"
proof (cases "dest = src")
  case False
  have "uint (f src - amt) = uint (f src) - uint amt" using assms by (simp add: uint_sub_lem [THEN iffD1] word_le_def)
  with False show ?thesis by (simp add: moved_source)
qed (simp add: moved_def Let_def)

lemma checked_add_ok: "uint a + uint b < 2 ^ LENGTH('a) \<Longrightarrow> checked_add e a b = Inr (a + b)"
  for a b :: "'a::len word"
  by (metis (mono_tags) checked_add_def of_nat_add of_nat_less_iff of_nat_numeral of_nat_power of_nat_unat)

lemma checked_mul_ok: "uint a * uint b < 2 ^ LENGTH('a) \<Longrightarrow> checked_mul e a b = Inr (a * b)"
  for a b :: "'a::len word"
  by (metis (mono_tags) checked_mul_def of_nat_mult of_nat_less_iff of_nat_numeral of_nat_power of_nat_unat)

lemma share_amount:
  assumes "k = (if last_one then uint av - uint al else big_div (uint av * uint (b :: 16 word)) 10000)"
    and "uint (of_int k :: 256 word) = k" "uint al + k \<le> uint av"
  shows "(last_one \<longrightarrow> checked_sub Arithmetic av al = Inr (of_int k)) \<and>
    (\<not> last_one \<and> uint av * uint b < 2 ^ 256 \<longrightarrow>
       (\<exists>m. checked_mul Arithmetic av (ucast b) = Inr m \<and> m div TOTAL_BPS = of_int k))"
proof (intro conjI impI)
  assume "last_one"
  then have "al \<le> av" "k = uint av - uint al" using assms by (simp_all add: word_le_def)
      (metis diff_ge_0_iff_ge uint_ge_0)
  moreover from this have "av - al = of_int k" by (simp add: uint_sub_lem [THEN iffD1] word_le_def)
  ultimately show "checked_sub Arithmetic av al = Inr (of_int k)" by (simp add: checked_sub_def)
next
  assume "\<not> last_one \<and> uint av * uint b < 2 ^ 256"
  then have "checked_mul Arithmetic av (ucast b) = Inr (av * ucast b)" "k = big_div (uint av * uint b) 10000"
    using assms(1) by (simp_all add: checked_mul_ok up16)
  then show "\<exists>m. checked_mul Arithmetic av (ucast b) = Inr m \<and> m div TOTAL_BPS = of_int k"
    using floor_amount by blast
qed

text \<open>The loop pays to its end when no share is too much and no recipient is zero.\<close>

lemma pay_shares_succeeds:
  assumes "erc20_documented C tok"
  shows "p_asset (storage s) = tok \<Longrightarrow> i + length shs = n \<Longrightarrow> list_all (\<lambda>sh. sh_recipient sh \<noteq> 0) shs \<Longrightarrow>
    list_all (\<lambda>sh. uint av * uint (sh_shareBps sh) < 2 ^ 256) shs \<Longrightarrow>
    list_all (\<lambda>a. 0 \<le> a) (loop_amounts (uint av) (uint al) (map (\<lambda>s. uint (sh_shareBps s)) shs)) \<Longrightarrow>
    uint al + sum_list (loop_amounts (uint av) (uint al) (map (\<lambda>s. uint (sh_shareBps s)) shs)) \<le> uint av \<Longrightarrow>
    uint av - uint al \<le> uint (held C tok s (this C)) \<Longrightarrow>
    \<exists>s'. pay_shares C av n i al shs s = Inr s'"
proof (induction shs arbitrary: i al s)
  case (Cons sh shs)
  let ?bs = "map (\<lambda>s. uint (sh_shareBps s)) shs"
  define k where "k = (if shs = [] then uint av - uint al else big_div (uint av * uint (sh_shareBps sh)) 10000)"
  have la: "loop_amounts (uint av) (uint al) (map (\<lambda>s. uint (sh_shareBps s)) (sh # shs)) =
      k # loop_amounts (uint av) (uint al + k) ?bs"
    by (cases shs) (simp_all add: loop_amounts_Cons k_def, simp add: loop_amounts_def)
  have k: "0 \<le> k" "0 \<le> sum_list (loop_amounts (uint av) (uint al + k) ?bs)" "uint al + k \<le> uint av"
    using Cons.prems(5,6) unfolding la by (auto simp: list_all_iff intro: sum_list_nonneg)
      (smt (verit) sum_list_nonneg)
  let ?amt = "of_int k :: 256 word" and ?al' = "al + (of_int k :: 256 word)"
  have "k \<le> uint av" using k(3) uint_ge_0 [of al] by linarith
  then have "k < 2 ^ 256" using uint_bounded [of av, simplified] by simp
  with k(1) have ka: "uint ?amt = k" by (simp add: uint_word_of_int)
  have m: "(if i = n - 1 then checked_sub Arithmetic av al
      else and_then (checked_mul Arithmetic av (ucast (sh_shareBps sh))) (\<lambda>m. Inr (m div TOTAL_BPS))) = Inr ?amt"
    using share_amount [OF k_def ka k(3)] Cons.prems(2,4) by (cases shs) (auto simp: and_then_Inr_iff)
  have al: "checked_add Arithmetic al ?amt = Inr ?al'"
    using k(3) ka uint_bounded [of av] by (intro checked_add_ok) simp
  have al': "uint ?al' = uint al + k" using uint_checked_add [OF al] ka by simp
  have enough: "?amt \<le> held C tok s (this C)" using Cons.prems(7) k ka by (simp add: word_le_def)
  moreover have "sh_recipient sh \<noteq> 0" using Cons.prems(3) by simp
  ultimately obtain s1 where s1: "safeTransfer C tok (sh_recipient sh) ?amt s = Some s1" "storage s1 = storage s"
    "held C tok s1 = moved (this C) (sh_recipient sh) ?amt (held C tok s)"
    using assms unfolding erc20_documented_def by metis
  have "uint (held C tok s (this C)) - k \<le> uint (held C tok s1 (this C))"
    using moved_ge [of ?amt "held C tok s" "this C" "sh_recipient sh"] enough s1(3) ka by simp
  then have "\<exists>s'. pay_shares C av n (Suc i) ?al' shs s1 = Inr s'"
    using Cons.prems Cons.IH [of s1 "Suc i" ?al'] s1(2) la al' by simp
  with m al s1(1) Cons.prems(1) show ?case by (simp add: callee_def)
qed simp

text \<open>A policy that is deployed with the commitment of a compiled one.\<close>

definition deployed_from :: "viem \<Rightarrow> compiled_policy \<Rightarrow> 'w callees \<Rightarrow> 'w evm \<Rightarrow> bool" where
  "deployed_from V c C s \<longleftrightarrow> hash C = keccak256 V \<and> erc20_documented C (p_asset (storage s)) \<and>
     commitment (publicArgs c) = ''0x'' @ bytes_hex (p_commitment (storage s))"

text \<open>No second preimage of the commitment is used.\<close>

definition no_collision :: "viem \<Rightarrow> compiled_policy \<Rightarrow> bytes \<Rightarrow> sol_share list \<Rightarrow> bytes \<Rightarrow> bool" where
  "no_collision V c sb shs slt \<longleftrightarrow> (case chain_shares (recipients (privateConfig c)) of None \<Rightarrow> True
     | Some cs \<Rightarrow> keccak256 V (share_preimage shs slt) = keccak256 V (commitment_preimage cs sb) \<longrightarrow>
         share_preimage shs slt = commitment_preimage cs sb)"

lemma compiled_commitment:
  assumes "zod_documented zod" "viem_documented V" "finite_js input"
    and "compile zod V input slt = Inr c" "hex_value slt = Some sb" "length sb = 32" "deployed_from V c C s"
  shows "\<exists>cs. wf_shares (recipients (privateConfig c)) \<and> chain_shares (recipients (privateConfig c)) = Some cs \<and>
    p_commitment (storage s) = hash C (commitment_preimage cs sb)"
proof -
  obtain rs later cs where c: "wf_ir (ir c)" "ir_actions (ir c) = SplitTransfer rs # later" "recipients (privateConfig c) = rs"
    "chain_shares rs = Some cs" "commitment (publicArgs c) = ''0x'' @ bytes_hex (keccak256 V (commitment_preimage cs sb))"
    using compiled_facts [OF assms(1-6)] by blast
  then have "wf_shares rs" by (simp add: wf_ir_def)
  with c assms(7) show ?thesis by (simp add: deployed_from_def bytes_hex_inj)
qed

lemma revealed_is_compiled:
  assumes "hash C (share_preimage shs slt') = p_commitment (storage s)" "length slt' = 32" "length sb = 32"
    and "chain_shares (recipients (privateConfig c)) = Some cs" "p_commitment (storage s) = hash C (commitment_preimage cs sb)"
    and "no_collision V c sb shs slt'" "hash C = keccak256 V"
  shows "cs = map share_pair shs \<and> slt' = sb"
proof -
  have "commitment_preimage (map share_pair shs) slt' = commitment_preimage cs sb"
    using assms(1,4-7) by (simp add: no_collision_def share_preimage_eq)
  from commitment_preimage_inj [OF assms(2,3) this] show ?thesis by simp
qed

lemma execute_succeeds:
  assumes "erc20_documented C (p_asset (storage s))" "p_status (storage s) = Triggered"
    and "hash C (share_preimage shs slt) = p_commitment (storage s)" "production C s shs sig"
    and "wf_shares rs" "chain_shares rs = Some (map share_pair shs)" "list_all (\<lambda>sh. sh_recipient sh \<noteq> 0) shs"
    and "pc_balance C s \<noteq> 0" "uint (pc_balance C s) * 10000 < 2 ^ 256"
  shows "\<exists>s'. pc_execute C shs slt sig s = Inr s'"
proof -
  let ?av = "pc_balance C s" and ?bs = "map (\<lambda>s. uint (sh_shareBps s)) shs"
  have bs: "?bs = map shareBps rs" using revealed_shares [OF assms(5,6)] by blast
  note w = wf_shares_split [OF assms(5), of "uint ?av"]
  have each: "list_all (\<lambda>b. b \<le> 10000) ?bs"
    unfolding bs using assms(5) by (auto simp: wf_shares_def wf_share_def list_all_iff)
  have "sum_bps 0 shs = Inr TOTAL_BPS"
    using sum_bps_total [of shs 0] each w by (simp add: TOTAL_BPS_def list_all_iff comp_def flip: bs)
  moreover obtain signer where "recover C (toEthSignedMessageHash C (execution_digest C (storage s) shs)) sig = Some signer"
    "isAttested C (p_attestorGate (storage s)) signer (others s)"
    using assms(4) by (auto simp: production_def split: option.splits)
  moreover have "\<exists>s1. pay_shares C ?av (length shs) 0 0 shs (set_status Executed s) = Inr s1"
  proof (rule pay_shares_succeeds [OF assms(1)])
    have la: "loop_amounts (uint ?av) (uint (0 :: 256 word)) ?bs = ts_split (map shareBps rs) (uint ?av)"
      by (simp add: ts_split_eq bs)
    show "list_all (\<lambda>a. 0 \<le> a) (loop_amounts (uint ?av) (uint (0 :: 256 word)) ?bs)"
      unfolding la using ts_splitter.split_nonneg w by (simp add: list_all_length ts_splitter.split_length)
    show "uint (0 :: 256 word) + sum_list (loop_amounts (uint ?av) (uint (0 :: 256 word)) ?bs) \<le> uint ?av"
      unfolding la using ts_splitter.split_total w by simp
    have "uint ?av * uint (sh_shareBps sh) \<le> uint ?av * 10000" if "sh \<in> set shs" for sh
      using each that by (intro mult_left_mono) (auto simp: list_all_iff)
    then show "list_all (\<lambda>sh. uint ?av * uint (sh_shareBps sh) < 2 ^ 256) shs"
      using assms(9) by (fastforce simp: list_all_iff)
    show "uint ?av - uint (0 :: 256 word) \<le> uint (held C (p_asset (storage s)) (set_status Executed s) (this C))"
      by (simp add: pc_balance_def held_def set_status_def)
  qed (use assms(7) in \<open>simp_all add: set_status_def\<close>)
  ultimately show ?thesis using assms(2,3,8)
    by (auto simp: pc_execute_def inStatus_def share_preimage_def pc_balance_def Let_def)
qed

text \<open>A share of the zero address stops the loop.\<close>

lemma zero_recipient_stops:
  assumes "erc20_documented C tok"
  shows "p_asset (storage s) = tok \<Longrightarrow> sh \<in> set shs \<Longrightarrow> sh_recipient sh = 0 \<Longrightarrow>
    \<exists>e. pay_shares C av n i al shs s = Inl e"
proof (induction shs arbitrary: i al s)
  case (Cons x shs)
  show ?case
  proof (rule ccontr)
    assume "\<nexists>e. pay_shares C av n i al (x # shs) s = Inl e"
    then obtain s' where "pay_shares C av n i al (x # shs) s = Inr s'"
      by (cases "pay_shares C av n i al (x # shs) s") auto
    then obtain amt al' s1 where r: "safeTransfer C tok (sh_recipient x) amt s = Some s1" "pay_shares C av n (Suc i) al' shs s1 = Inr s'"
      using Cons.prems(1) unfolding pay_shares.simps and_then_Inr_iff callee_def of_option_Inr_iff by blast
    then have "sh_recipient x \<noteq> 0" "storage s1 = storage s"
      using assms unfolding erc20_documented_def by (metis option.distinct(1), metis assms transfer_Some)
    moreover have "sh \<in> set shs" using calculation(1) Cons.prems(2,3) by auto
    ultimately show False using Cons.IH [of s1 "Suc i" al'] Cons.prems(1,3) r(2) by simp
  qed
qed simp

lemma sol_shares_exist:
  assumes "wf_shares rs" "chain_shares rs = Some cs"
  shows "\<exists>shs. cs = map share_pair shs"
proof -
  have "\<exists>sh. c = share_pair sh" if "c \<in> set cs" for c
  proof -
    obtain r where r: "r \<in> set rs" "chain_distribution \<lparr> recipient = address r, amount = shareBps r \<rparr> = Some c"
      using assms(2) \<open>c \<in> set cs\<close> by (auto simp: chain_shares_rel list_all2_conv_all_nth in_set_conv_nth) metis
    then obtain w where w: "c = (w, of_int (shareBps r))" by (auto simp: chain_distribution_def split: option.splits if_splits)
    have b: "0 \<le> shareBps r" "shareBps r < 2 ^ 16"
      using assms(1) r(1) by (auto simp: wf_shares_def wf_share_def list_all_iff)
    then have "uint (ucast (of_int (shareBps r) :: 16 word) :: 256 word) = uint (of_int (shareBps r) :: 256 word)"
      by (simp add: up16 uint_word_of_int)
    then have "ucast (of_int (shareBps r) :: 16 word) = (of_int (shareBps r) :: 256 word)" by (simp only: word_uint_eq_iff)
    with w show ?thesis
      by (intro exI [of _ "\<lparr> sh_recipient = w, sh_shareBps = of_int (shareBps r) \<rparr>"]) (simp add: share_pair_def)
  qed
  then show ?thesis by (metis ex_map_conv)
qed

section \<open>An instance\<close>

lemma demo_held: "held demo_callees tok s = others s"
  by (simp add: fun_eq_iff held_def demo_callees_def)

lemma demo_callees_erc20: "erc20_documented demo_callees tok"
  unfolding erc20_documented_def demo_held by (auto simp: demo_callees_def)

lemma demo_production: "production demo_callees s shs sig"
  by (simp add: production_def demo_callees_def isAttested_def STATUS_PRODUCTION_def)

lemma demo_balance: "pc_balance demo_callees (demo_evm cm st) = 1000"
  by (simp add: pc_balance_def demo_callees_def demo_evm_def)

text \<open>The demonstration policy, compiled, deployed, armed and ready to pay.\<close>

lemma demo_armed:
  assumes "wf_ir i" "finite_js (ir_js i)" "ir_asset i \<in> set (map fst ASSETS)" "ir_actions i = [SplitTransfer rs]"
    and "\<forall>r \<in> set rs. is_address (keccak256 demo_viem) (address r)"
  shows "\<exists>c sb shs cm. compile demo_zod demo_viem (ir_js i) demo_salt = Inr c \<and> hex_value demo_salt = Some sb \<and> length sb = 32 \<and>
     deployed_from demo_viem c demo_callees (demo_evm cm Triggered) \<and> chain_shares rs = Some (map share_pair shs) \<and>
     no_collision demo_viem c sb shs sb \<and> recipients (privateConfig c) = rs"
proof -
  obtain sb where sb: "hex_value demo_salt = Some sb" "length sb = 32" using demo_salt_bytes by blast
  have adr: "\<forall>a \<in> set (ir_actions i). case a of SplitTransfer rs \<Rightarrow> \<forall>r \<in> set rs. is_address (keccak256 demo_viem) (address r)"
    using assms(4,5) by simp
  obtain c where c: "compile demo_zod demo_viem (ir_js i) demo_salt = Inr c" "compile_ir demo_viem i demo_salt = Inr c"
    using compile_total [OF demo_zod_documented demo_viem_documented assms(1-3) sb adr] by blast
  have rs: "recipients (privateConfig c) = rs"
    using compile_ir_Inr [OF c(2)] assms(4) by (auto simp: config_of_def)
  then obtain cs where f: "chain_shares rs = Some cs"
    "commitment (publicArgs c) = ''0x'' @ bytes_hex (keccak256 demo_viem (commitment_preimage cs sb))"
    using compiled_facts [OF demo_zod_documented demo_viem_documented assms(2) c(1) sb] by blast
  have "wf_shares rs" using assms(1,4) by (simp add: wf_ir_def)
  then obtain shs where shs: "cs = map share_pair shs" using sol_shares_exist f(1) by blast
  have "hash demo_callees = keccak256 demo_viem" by (simp add: demo_callees_def demo_viem_def viem_with_def)
  then have "deployed_from demo_viem c demo_callees (demo_evm (keccak256 demo_viem (commitment_preimage cs sb)) Triggered)"
    using f(2) by (simp add: deployed_from_def demo_callees_erc20) (simp add: demo_evm_def)
  moreover have "no_collision demo_viem c sb shs sb" using f(1) by (simp add: no_collision_def rs shs share_preimage_eq)
  ultimately show ?thesis using c(1) sb f(1) shs rs by blast
qed

section \<open>Properties\<close>

text \<open>C2: Whoever calls a policy deployed with the commitment of a compiled one, and with whatever shares,
  salt and signature, if it pays it pays the compiled recipients exactly the amounts the compiler
  computes for its balance, in order, on the word of a machine in production, and the salt revealed is
  the one it was compiled with.\<close>

theorem execute_pays_what_was_compiled:
  assumes "zod_documented zod" "viem_documented V" "finite_js input"
    and "compile zod V input slt = Inr c" "hex_value slt = Some sb" "length sb = 32"
    and "deployed_from V c C s" "length slt' = 32" "no_collision V c sb shs slt'"
    and "pc_execute C shs slt' sig s = Inr s'"
  shows "\<exists>ps. traverse chain_distribution (resolveDistributions (privateConfig c) (uint (pc_balance C s))) = Some ps \<and>
    held C (p_asset (storage s)) s' = paid_out (this C) ps (held C (p_asset (storage s)) s) \<and>
    production C s shs sig \<and> slt' = sb"
proof -
  obtain cs where cs: "wf_shares (recipients (privateConfig c))" "chain_shares (recipients (privateConfig c)) = Some cs"
    "p_commitment (storage s) = hash C (commitment_preimage cs sb)"
    using compiled_commitment [OF assms(1-7)] by blast
  have e: "hash C (share_preimage shs slt') = p_commitment (storage s)" "production C s shs sig"
    using pc_execute_Inr [OF assms(10)] by (auto simp: share_preimage_def production_def)
  have sh: "cs = map share_pair shs" "slt' = sb"
    using revealed_is_compiled [OF e(1) assms(8,6) cs(2,3) assms(9)] assms(7) by (auto simp: deployed_from_def)
  have "held C (p_asset (storage s)) s' =
      paid_out (this C) (zip (map sh_recipient shs) (sol_amounts (pc_balance C s) 0 shs)) (held C (p_asset (storage s)) s)"
    using execute_moves [OF _ assms(10)] assms(7) by (simp add: deployed_from_def)
  with resolved_on_chain [OF cs(1) cs(2) [unfolded sh(1)] refl, of "pc_balance C s"] e(2) sh(2) show ?thesis by simp
qed

text \<open>C5: An armed policy pays when it is asked with what it was compiled from: the compiled shares and salt
  and a signature of a machine in production execute it, whatever its balance below a ten-thousandth of 2 ^ 256,
  provided it is not zero and no recipient is the zero address.\<close>

theorem armed_policy_pays:
  assumes "zod_documented zod" "viem_documented V" "finite_js input"
    and "compile zod V input slt = Inr c" "hex_value slt = Some sb" "length sb = 32"
    and "deployed_from V c C s" "p_status (storage s) = Triggered" "production C s shs sig"
    and "chain_shares (recipients (privateConfig c)) = Some (map share_pair shs)"
    and "list_all (\<lambda>r. address_value (address r) \<noteq> Some 0) (recipients (privateConfig c))"
    and "pc_balance C s \<noteq> 0" "uint (pc_balance C s) * 10000 < 2 ^ 256"
  shows "\<exists>s'. pc_execute C shs sb sig s = Inr s' \<and> p_status (storage s') = Executed"
proof -
  obtain cs where cs: "wf_shares (recipients (privateConfig c))" "chain_shares (recipients (privateConfig c)) = Some cs"
    "p_commitment (storage s) = hash C (commitment_preimage cs sb)"
    using compiled_commitment [OF assms(1-7)] by blast
  have d: "erc20_documented C (p_asset (storage s))" using assms(7) by (simp add: deployed_from_def)
  have pre: "hash C (share_preimage shs sb) = p_commitment (storage s)"
    using cs(2,3) assms(10) by (simp add: share_preimage_eq)
  have "list_all (\<lambda>sh. sh_recipient sh \<noteq> 0) shs"
    using revealed_shares [OF cs(1) assms(10)] assms(11) by (auto simp: list_all_length list_all2_conv_all_nth)
  from execute_succeeds [OF d assms(8) pre assms(9) cs(1) assms(10) this assms(12,13)]
  obtain s' where s': "pc_execute C shs sb sig s = Inr s'" by blast
  with execute_moves [OF d s'] show ?thesis by simp
qed

text \<open>C9: A policy that names the zero address compiles, but once it is armed its funds can never move again:
  every call of it, by anyone and with anything, changes nothing.\<close>

theorem zero_recipient_locks:
  assumes "zod_documented zod" "viem_documented V" "finite_js input"
    and "compile zod V input slt = Inr c" "hex_value slt = Some sb" "length sb = 32"
    and "deployed_from V c C s" "initialized (storage s)" "p_status (storage s) = Triggered"
    and "r \<in> set (recipients (privateConfig c))" "address_value (address r) = Some 0"
    and "list_all (\<lambda>x. case x of Execute shs slt' sig \<Rightarrow> length slt' = 32 \<and> no_collision V c sb shs slt' | _ \<Rightarrow> True) calls"
  shows "run_policy C calls s = s"
proof -
  obtain cs where cs: "wf_shares (recipients (privateConfig c))" "chain_shares (recipients (privateConfig c)) = Some cs"
    "p_commitment (storage s) = hash C (commitment_preimage cs sb)"
    using compiled_commitment [OF assms(1-7)] by blast
  have d: "erc20_documented C (p_asset (storage s))" "hash C = keccak256 V" using assms(7) by (simp_all add: deployed_from_def)
  have never: "pc_execute C shs slt' sig s \<noteq> Inr s'"
    if "length slt' = 32" "no_collision V c sb shs slt'" for shs slt' sig s'
  proof
    assume "pc_execute C shs slt' sig s = Inr s'"
    from pc_execute_Inr [OF this] obtain s1 where e: "hash C (share_preimage shs slt') = p_commitment (storage s)"
      "pay_shares C (pc_balance C s) (length shs) 0 0 shs (set_status Executed s) = Inr s1"
      by (auto simp: share_preimage_def)
    have "cs = map share_pair shs" using revealed_is_compiled [OF e(1) that(1) assms(6) cs(2,3) that(2) d(2)] by blast
    with revealed_shares [OF cs(1)] cs(2) obtain sh where "sh \<in> set shs" "sh_recipient sh = 0"
      using assms(10,11) by (auto simp: list_all2_conv_all_nth in_set_conv_nth) (metis option.inject)
    with zero_recipient_stops [OF d(1), of "set_status Executed s" sh shs "pc_balance C s" "length shs" 0 0] e(2) show False
      by (auto simp: set_status_def)
  qed
  have "transact_policy C x s = s" if "x \<in> set calls" for x
    by (cases x) (use that assms(8,9,12) never in \<open>auto simp: transact_policy_def initialize_def pc_deposit_def
        pc_withdraw_def pc_cancel_def pc_arm_def inStatus_def onlyOwner_def list_all_iff split: sum.split\<close>)
  then show ?thesis by (induction calls) (simp_all add: run_policy_def)
qed

lemma demo_rs: "\<forall>r \<in> set [demo_share CHR ''1'' 6000, demo_share CHR ''2'' 4000]. is_address (keccak256 demo_viem) (address r)"
  using demo_facts by (simp add: is_address_def)

lemma zero_address:
  assumes "address_value a = Some 0" "hex_bytes (drop 2 a) = Some bs" "length bs = 20"
  shows "be_nat bs = 0"
proof -
  have "be_nat bs < 2 ^ 160" using be_nat_less [of bs] assms(3) by simp
  moreover have "(of_nat (be_nat bs) :: 160 word) = 0" using assms(1,2) by (auto simp: address_value_def split: if_splits)
  ultimately show ?thesis by (auto simp: word_of_nat_eq_0_iff dest: dvd_imp_le)
qed

lemma demo_nonzero: "list_all (\<lambda>r. address_value (address r) \<noteq> Some 0) [demo_share CHR ''1'' 6000, demo_share CHR ''2'' 4000]"
proof -
  have hex: "hex_bytes (drop 2 (address (demo_share CHR ''1'' 6000))) = Some (17 # replicate 19 17)"
    "hex_bytes (drop 2 (address (demo_share CHR ''2'' 4000))) = Some (34 # replicate 19 34)"
    by code_simp+
  have nz: "be_nat (b # bs) \<noteq> 0" if "b \<noteq> 0" for b bs
  proof -
    have "be_bytes (length (b # bs)) (be_nat (b # bs)) = b # bs" by (rule be_bytes_be_nat)
    moreover have "set (be_bytes k 0) \<subseteq> {0}" for k by (induction k) auto
    ultimately show ?thesis using that by (metis list.set_intros(1) singletonD subsetD)
  qed
  have "address_value (address (demo_share CHR ''1'' 6000)) \<noteq> Some 0"
    using zero_address [OF _ hex(1)] nz [of 17] by auto
  moreover have "address_value (address (demo_share CHR ''2'' 4000)) \<noteq> Some 0"
    using zero_address [OF _ hex(2)] nz [of 34] by auto
  ultimately show ?thesis by simp
qed

lemma demo_actions: "ir_actions demo_ir = [SplitTransfer [demo_share CHR ''1'' 6000, demo_share CHR ''2'' 4000]]"
    "ir_asset demo_ir \<in> set (map fst ASSETS)"
  by (simp_all add: demo_ir_def ASSETS_def)

theorem armed_policy_pays_witness:
  "\<exists>s s' shs sb. pc_execute demo_callees shs sb [] s = Inr s' \<and> p_status (storage s') = Executed \<and> p_status (storage s) = Triggered"
proof -
  obtain c sb shs cm where c: "compile demo_zod demo_viem (ir_js demo_ir) demo_salt = Inr c" "hex_value demo_salt = Some sb"
    "length sb = 32" "deployed_from demo_viem c demo_callees (demo_evm cm Triggered)"
    "recipients (privateConfig c) = [demo_share CHR ''1'' 6000, demo_share CHR ''2'' 4000]"
    "chain_shares (recipients (privateConfig c)) = Some (map share_pair shs)"
    using demo_armed [OF demo_facts(1,2) demo_actions(2,1) demo_rs] by auto
  have st: "p_status (storage (demo_evm cm Triggered)) = Triggered" by (simp add: demo_evm_def)
  from armed_policy_pays [OF demo_zod_documented demo_viem_documented demo_facts(2) c(1-4) st demo_production c(6)
      demo_nonzero [folded c(5)], of "[]"] st
  show ?thesis by (auto simp: demo_balance)
qed

theorem execute_pays_what_was_compiled_witness:
  "\<exists>(c :: compiled_policy) (s :: balances evm) s' shs sb ps. pc_execute demo_callees shs sb [] s = Inr s' \<and>
     traverse chain_distribution (resolveDistributions (privateConfig c) 1000) = Some ps \<and>
     held demo_callees 4 s' = paid_out 9 ps (held demo_callees 4 s)"
proof -
  obtain c sb shs cm where c: "compile demo_zod demo_viem (ir_js demo_ir) demo_salt = Inr c" "hex_value demo_salt = Some sb"
    "length sb = 32" "deployed_from demo_viem c demo_callees (demo_evm cm Triggered)" "no_collision demo_viem c sb shs sb"
    "recipients (privateConfig c) = [demo_share CHR ''1'' 6000, demo_share CHR ''2'' 4000]"
    "chain_shares (recipients (privateConfig c)) = Some (map share_pair shs)"
    using demo_armed [OF demo_facts(1,2) demo_actions(2,1) demo_rs] by auto
  let ?s = "demo_evm cm Triggered"
  obtain cs where cs: "wf_shares (recipients (privateConfig c))" "p_commitment (storage ?s) = hash demo_callees (share_preimage shs sb)"
    using compiled_commitment [OF demo_zod_documented demo_viem_documented demo_facts(2) c(1-4)] c(7)
    by (auto simp: share_preimage_eq)
  have nz: "list_all (\<lambda>sh. sh_recipient sh \<noteq> 0) shs"
    using revealed_shares [OF cs(1) c(7)] demo_nonzero [folded c(6)] by (auto simp: list_all_length list_all2_conv_all_nth)
  have "p_status (storage ?s) = Triggered" "p_asset (storage ?s) = 4" by (simp_all add: demo_evm_def)
  moreover obtain s' where s': "pc_execute demo_callees shs sb [] ?s = Inr s'"
    using execute_succeeds [OF demo_callees_erc20 calculation(1) cs(2) [symmetric] demo_production cs(1) c(7) nz]
    by (auto simp: demo_balance)
  moreover have "this demo_callees = 9" by (simp add: demo_callees_def)
  ultimately obtain ps where "traverse chain_distribution (resolveDistributions (privateConfig c) 1000) = Some ps"
    "held demo_callees 4 s' = paid_out 9 ps (held demo_callees 4 ?s)"
    using execute_pays_what_was_compiled [OF demo_zod_documented demo_viem_documented demo_facts(2) c(1-4) c(3) c(5) s']
    by (auto simp: demo_balance)
  with s' show ?thesis by blast
qed

definition zero_ir :: policy_ir where
  "zero_ir = demo_ir\<lparr> ir_actions := [SplitTransfer [demo_share CHR ''0'' 4000, demo_share CHR ''2'' 6000]] \<rparr>"

lemma zero_facts: "wf_ir zero_ir" "finite_js (ir_js zero_ir)"
  "re_address (address (demo_share CHR ''0'' 4000))" "re_address (address (demo_share CHR ''2'' 6000))"
  "lower_case (address (demo_share CHR ''0'' 4000)) = address (demo_share CHR ''0'' 4000)"
  "lower_case (address (demo_share CHR ''2'' 6000)) = address (demo_share CHR ''2'' 6000)"
  "address_value (address (demo_share CHR ''0'' 4000)) = Some 0"
  by code_simp+

theorem zero_recipient_locks_witness:
  "\<exists>c shs sb cm. compile demo_zod demo_viem (ir_js zero_ir) demo_salt = Inr c \<and>
     run_policy demo_callees [Withdraw 5 10, Cancel 5, Execute shs sb [], Arm 2000 []] (demo_evm cm Triggered) = demo_evm cm Triggered"
proof -
  have z: "ir_actions zero_ir = [SplitTransfer [demo_share CHR ''0'' 4000, demo_share CHR ''2'' 6000]]"
    "ir_asset zero_ir \<in> set (map fst ASSETS)"
    by (simp_all add: zero_ir_def demo_ir_def ASSETS_def)
  have "\<forall>r \<in> set [demo_share CHR ''0'' 4000, demo_share CHR ''2'' 6000]. is_address (keccak256 demo_viem) (address r)"
    using zero_facts by (simp add: is_address_def)
  from demo_armed [OF zero_facts(1,2) z(2,1) this] obtain c sb shs cm where
    c: "compile demo_zod demo_viem (ir_js zero_ir) demo_salt = Inr c" "hex_value demo_salt = Some sb"
    "length sb = 32" "deployed_from demo_viem c demo_callees (demo_evm cm Triggered)" "no_collision demo_viem c sb shs sb"
    "demo_share CHR ''0'' 4000 \<in> set (recipients (privateConfig c))"
    by auto
  have "initialized (storage (demo_evm cm Triggered))" "p_status (storage (demo_evm cm Triggered)) = Triggered"
    by (simp_all add: demo_evm_def)
  from zero_recipient_locks [OF demo_zod_documented demo_viem_documented zero_facts(2) c(1-4) this c(6) zero_facts(7),
      of "[Withdraw 5 10, Cancel 5, Execute shs sb [], Arm 2000 []]"] c(1,3,5)
  show ?thesis by auto
qed

end
