(* ===== verification/Enclave.thy ===== *)
theory Enclave
  imports Payouts Ecies Base64 Stores "HOL-Library.AList"
begin

text \<open>
  The machine that holds the private half of a policy
  (apps/extension/go/internal/extension: extension.go, policy.go, node.go, utils.go, with
  the message types of pkg/types). Its handlers are functions of its state and the
  action. What is not under src/ is the record \<open>go_libs\<close>: the decoding of instructions and
  messages, JSON decoding of the payload, the local node that decrypts and signs, and
  Keccak; \<open>Inl\<close> is the text of an error.
\<close>

section \<open>State and messages\<close>

record private_cfg =
  cfg_shares :: "sol_share list"
  cfg_salt :: bytes

record fixed_data =
  df_OPType :: bytes
  df_OPCommand :: bytes
  df_OriginalMessage :: bytes

record go_action =
  ga_ID :: bytes
  ga_SubmissionTag :: string
  ga_Message :: bytes

record go_result =
  gr_ID :: bytes
  gr_SubmissionTag :: string
  gr_Version :: string
  gr_OPType :: bytes
  gr_OPCommand :: bytes
  gr_Data :: bytes
  gr_Status :: nat
  gr_Log :: string

datatype go_reply = Refused nat string | Answered go_result

record machine =
  en_policies :: "(addr \<times> private_cfg) list"
  en_evaluationCount :: int
  en_lastPolicy :: string

record go_libs =
  go_keccak :: "bytes \<Rightarrow> bytes"
  toHash :: "string \<Rightarrow> bytes"
  parseFixed :: "bytes \<Rightarrow> string + fixed_data"
  decodeStore :: "bytes \<Rightarrow> string + addr \<times> bytes"
  decodeEvaluate :: "bytes \<Rightarrow> string + addr \<times> int option"
  unmarshalConfig :: "bytes \<Rightarrow> string + private_cfg"
  nodeDecrypt :: "bytes \<Rightarrow> string + bytes"
  nodeSign :: "bytes \<Rightarrow> string + bytes"
  ChainID :: int

definition new_machine :: machine where
  "new_machine = \<lparr> en_policies = [], en_evaluationCount = 0, en_lastPolicy = [] \<rparr>"

definition Version :: string where
  "Version = ''0.1.0''"

section \<open>policy.go\<close>

text \<open>\<open>LeftPadBytes(v.Bytes(), 32)\<close>: the bytes of the absolute value, at least 32 of them.\<close>

fun byte_count :: "nat \<Rightarrow> nat" where
  "byte_count n = (if n = 0 then 0 else Suc (byte_count (n div 256)))"

declare byte_count.simps [simp del]

definition padUint :: "int \<Rightarrow> bytes" where
  "padUint v = be_bytes (max 32 (byte_count (nat \<bar>v\<bar>))) (nat \<bar>v\<bar>)"

definition padAddress :: "addr \<Rightarrow> bytes" where
  "padAddress a = replicate 12 0 @ address_bytes a"

definition go_computeCommitment :: "(bytes \<Rightarrow> bytes) \<Rightarrow> sol_share list \<Rightarrow> bytes \<Rightarrow> bytes" where
  "go_computeCommitment h shs slt =
     h (padUint 0x40 @ slt @ padUint (int (length shs)) @
        concat (map (\<lambda>s. padAddress (sh_recipient s) @ padUint (uint (sh_shareBps s))) shs))"

definition shareTypehash :: "(bytes \<Rightarrow> bytes) \<Rightarrow> bytes" where
  "shareTypehash h = h (utf8_bytes ''Share(address recipient,uint16 shareBps)'')"

definition executionTypehash :: "(bytes \<Rightarrow> bytes) \<Rightarrow> bytes" where
  "executionTypehash h = h (utf8_bytes ''Execution(bytes32 commitment,bytes32 sharesHash,uint256 triggeredAt)'')"

definition eip712DomainTypehash :: "(bytes \<Rightarrow> bytes) \<Rightarrow> bytes" where
  "eip712DomainTypehash h =
     h (utf8_bytes ''EIP712Domain(string name,string version,uint256 chainId,address verifyingContract)'')"

definition go_hashShares :: "(bytes \<Rightarrow> bytes) \<Rightarrow> sol_share list \<Rightarrow> bytes" where
  "go_hashShares h shs = h (concat (map (\<lambda>s. h (shareTypehash h @ padAddress (sh_recipient s) @
     padUint (uint (sh_shareBps s)))) shs))"

definition EIP712DomainName :: string where
  "EIP712DomainName = ''FlareStudioPolicy''"

definition EIP712DomainVersion :: string where
  "EIP712DomainVersion = ''1''"

definition domainSeparator :: "(bytes \<Rightarrow> bytes) \<Rightarrow> addr \<Rightarrow> int \<Rightarrow> bytes" where
  "domainSeparator h policy chainID =
     h (eip712DomainTypehash h @ h (utf8_bytes EIP712DomainName) @ h (utf8_bytes EIP712DomainVersion) @
        padUint chainID @ padAddress policy)"

definition eip712Preimage :: "(bytes \<Rightarrow> bytes) \<Rightarrow> addr \<Rightarrow> int \<Rightarrow> bytes \<Rightarrow> sol_share list \<Rightarrow> int \<Rightarrow> bytes" where
  "eip712Preimage h policy chainID cm shs triggeredAt =
     (let structHash = h (executionTypehash h @ cm @ go_hashShares h shs @ padUint triggeredAt) in
      [0x19, 0x01] @ domainSeparator h policy chainID @ structHash)"

section \<open>node.go\<close>

definition normalizeV :: "bytes \<Rightarrow> bytes" where
  "normalizeV sig =
     (let out' = take 65 (sig @ replicate 65 0) in
      if out' ! 64 < 27 then out'[64 := out' ! 64 + 27] else out')"

definition signViaNode :: "go_libs \<Rightarrow> bytes \<Rightarrow> string + bytes" where
  "signViaNode L msg =
     and_then (nodeSign L msg) (\<lambda>sig.
     if length sig \<noteq> 65 then Inl (''expected a 65-byte signature, got '' @ nat_str (length sig))
     else Inr (normalizeV sig))"

section \<open>Handlers\<close>

definition buildResult :: "go_action \<Rightarrow> fixed_data \<Rightarrow> string + bytes \<Rightarrow> go_result" where
  "buildResult a df outcome =
     \<lparr> gr_ID = ga_ID a, gr_SubmissionTag = ga_SubmissionTag a, gr_Version = Version, gr_OPType = df_OPType df,
       gr_OPCommand = df_OPCommand df,
       gr_Data = (case outcome of Inl _ \<Rightarrow> [] | Inr d \<Rightarrow> d),
       gr_Status = (case outcome of Inl _ \<Rightarrow> 0 | Inr _ \<Rightarrow> 1),
       gr_Log = (case outcome of Inl e \<Rightarrow> ''error: '' @ e | Inr _ \<Rightarrow> ''ok'') \<rparr>"

definition addressHex :: "(bytes \<Rightarrow> bytes) \<Rightarrow> addr \<Rightarrow> string" where
  "addressHex h a = checksum_address h (''0x'' @ bytes_hex (address_bytes a))"

text \<open>The sum is kept in a \<open>uint32\<close>; the error about a zero recipient prints it.\<close>

fun share_sum :: "32 word \<Rightarrow> sol_share list \<Rightarrow> string + 32 word" where
  "share_sum tot [] = Inr tot"
| "share_sum tot (s # ss) =
     (if sh_recipient s = 0 then Inl (''share '' @ nat_str (unat tot) @ '' has a zero recipient'')
      else share_sum (tot + ucast (sh_shareBps s)) ss)"

definition validateShares :: "sol_share list \<Rightarrow> string + unit" where
  "validateShares shs =
     (if shs = [] then Inl ''policy has no shares''
      else and_then (share_sum 0 shs) (\<lambda>tot.
        if tot \<noteq> 10000 then Inl (''shares sum to '' @ nat_str (unat tot) @ '' bps, expected 10000'') else Inr ()))"

definition wrap_error :: "string \<Rightarrow> string + 'a \<Rightarrow> string + 'a" where
  "wrap_error context r = (case r of Inl e \<Rightarrow> Inl (context @ '': '' @ e) | Inr x \<Rightarrow> Inr x)"

definition jsonBytes :: "jsv \<Rightarrow> bytes" where
  "jsonBytes v = utf8_bytes (case json_text v of None \<Rightarrow> [] | Some t \<Rightarrow> t)"

definition jsonAddress :: "addr \<Rightarrow> jsv" where
  "jsonAddress a = JStr (''0x'' @ bytes_hex (address_bytes a))"

definition jsonShare :: "sol_share \<Rightarrow> jsv" where
  "jsonShare s = JObj [(''recipient'', jsonAddress (sh_recipient s)), (''shareBps'', JNum (of_int (uint (sh_shareBps s))))]"

text \<open>What the machine holds is a keyed store.\<close>

definition hold :: "addr \<times> private_cfg \<Rightarrow> machine \<Rightarrow> machine" where
  "hold pc e = e\<lparr> en_policies := AList.update (fst pc) (snd pc) (en_policies e) \<rparr>"

definition holds :: "addr \<Rightarrow> machine \<Rightarrow> private_cfg option" where
  "holds policy e = map_of (en_policies e) policy"

interpretation machine_store: keyed_store hold holds fst snd "\<lambda>_. True"
  by unfold_locales (auto simp: hold_def holds_def update_conv')

definition store_policy :: "go_libs \<Rightarrow> bytes \<Rightarrow> string + addr \<times> private_cfg" where
  "store_policy L msg =
     and_then (wrap_error ''decoding request'' (decodeStore L msg)) (\<lambda>(policy, ciphertext).
     if policy = 0 then Inl ''policy address must not be zero''
     else if ciphertext = [] then Inl ''ciphertext must not be empty''
     else
     and_then (wrap_error ''decrypting policy'' (nodeDecrypt L ciphertext)) (\<lambda>plain.
     and_then (wrap_error ''parsing decrypted policy'' (unmarshalConfig L plain)) (\<lambda>cfg.
     and_then (validateShares (cfg_shares cfg)) (\<lambda>_. Inr (policy, cfg)))))"

definition processStore :: "go_libs \<Rightarrow> go_action \<Rightarrow> fixed_data \<Rightarrow> machine \<Rightarrow> go_result \<times> machine" where
  "processStore L a df e =
     (case store_policy L (df_OriginalMessage df) of
        Inl err \<Rightarrow> (buildResult a df (Inl err), e)
      | Inr (policy, cfg) \<Rightarrow>
          (buildResult a df (Inr (jsonBytes (JObj [(''policy'', jsonAddress policy), (''stored'', JBool True),
             (''shareCount'', JNum (of_nat (length (cfg_shares cfg))))]))),
           (hold (policy, cfg) e)\<lparr> en_lastPolicy := addressHex (go_keccak L) policy \<rparr>))"

definition evaluate_policy :: "go_libs \<Rightarrow> bytes \<Rightarrow> machine \<Rightarrow> string + addr \<times> private_cfg \<times> bytes" where
  "evaluate_policy L msg e =
     and_then (wrap_error ''decoding request'' (decodeEvaluate L msg)) (\<lambda>(policy, armedAt).
     if ChainID L = 0 then Inl ''CHAIN_ID is unset; refusing to sign''
     else case armedAt of
       None \<Rightarrow> Inl ''triggeredAt must be set; the policy is not armed''
     | Some triggeredAt \<Rightarrow>
         if triggeredAt = 0 then Inl ''triggeredAt must be set; the policy is not armed''
         else case holds policy e of
           None \<Rightarrow> Inl (''no stored policy for '' @ addressHex (go_keccak L) policy @ ''; send STORE first'')
         | Some cfg \<Rightarrow>
             let h = go_keccak L; cm = go_computeCommitment h (cfg_shares cfg) (cfg_salt cfg) in
             and_then (wrap_error ''signing distribution''
                 (signViaNode L (eip712Preimage h policy (ChainID L) cm (cfg_shares cfg) triggeredAt))) (\<lambda>sig.
             Inr (policy, cfg, sig)))"

definition evaluation_js :: "addr \<Rightarrow> private_cfg \<Rightarrow> bytes \<Rightarrow> jsv" where
  "evaluation_js policy cfg sig = JObj [(''policy'', jsonAddress policy), (''shares'', JArr (map jsonShare (cfg_shares cfg))),
     (''salt'', JStr (''0x'' @ bytes_hex (cfg_salt cfg))), (''signature'', JStr (b64_encode sig))]"

definition processEvaluate :: "go_libs \<Rightarrow> go_action \<Rightarrow> fixed_data \<Rightarrow> machine \<Rightarrow> go_result \<times> machine" where
  "processEvaluate L a df e =
     (case evaluate_policy L (df_OriginalMessage df) e of
        Inl err \<Rightarrow> (buildResult a df (Inl err), e)
      | Inr (policy, cfg, sig) \<Rightarrow>
          (buildResult a df (Inr (jsonBytes (evaluation_js policy cfg sig))),
           e\<lparr> en_evaluationCount := en_evaluationCount e + 1, en_lastPolicy := addressHex (go_keccak L) policy \<rparr>))"

definition hashHex :: "bytes \<Rightarrow> string" where
  "hashHex h = ''0x'' @ bytes_hex h"

definition processPolicy :: "go_libs \<Rightarrow> go_action \<Rightarrow> fixed_data \<Rightarrow> machine \<Rightarrow> go_reply \<times> machine" where
  "processPolicy L a df e =
     (if df_OPCommand df = toHash L ''STORE'' then map_prod Answered id (processStore L a df e)
      else if df_OPCommand df = toHash L ''EVALUATE'' then map_prod Answered id (processEvaluate L a df e)
      else (Refused 501 (''unsupported op command: received '' @ hashHex (df_OPCommand df) @ '', expected one of ['' @
              hashHex (toHash L ''STORE'') @ '' (STORE), '' @ hashHex (toHash L ''EVALUATE'') @ '' (EVALUATE)]''), e))"

definition processAction :: "go_libs \<Rightarrow> go_action \<Rightarrow> machine \<Rightarrow> go_reply \<times> machine" where
  "processAction L a e =
     (case parseFixed L (ga_Message a) of
        Inl err \<Rightarrow> (Refused 400 (''decoding fixed data: '' @ err), e)
      | Inr df \<Rightarrow>
          if df_OPType df = toHash L ''POLICY'' then processPolicy L a df e
          else (Refused 501 (''unsupported op type: received '' @ hashHex (df_OPType df) @ '', expected '' @
                 hashHex (toHash L ''POLICY'') @ '' (POLICY)''), e))"

definition run_machine :: "go_libs \<Rightarrow> go_action list \<Rightarrow> machine \<Rightarrow> machine" where
  "run_machine L as e = fold (\<lambda>a e. snd (processAction L a e)) as e"

text \<open>What \<open>GET /state\<close> reports.\<close>

definition machine_state :: "machine \<Rightarrow> nat \<times> int \<times> string" where
  "machine_state e = (length (en_policies e), en_evaluationCount e, en_lastPolicy e)"

text \<open>
  A later STORE for a policy replaces what the machine held for it, whoever sent it and
  whatever the policy's commitment.
\<close>

lemma holds_lastPolicy [simp]: "holds policy (e\<lparr> en_lastPolicy := x \<rparr>) = holds policy e"
  "holds policy (e\<lparr> en_evaluationCount := n \<rparr>) = holds policy e"
  by (simp_all add: holds_def)

lemma store_replaces:
  "store_policy L (df_OriginalMessage df) = Inr (policy, cfg) \<Longrightarrow>
   holds policy (snd (processStore L a df e)) = Some cfg"
  by (simp add: processStore_def machine_store.get_put)

text \<open>A share of the zero address is refused, and the error shows the sum of the shares before it.\<close>

lemma zero_share_refused:
  "list_all (\<lambda>s. sh_recipient s \<noteq> 0) before \<Longrightarrow> sh_recipient z = 0 \<Longrightarrow>
   validateShares (before @ z # later_ones) =
     Inl (''share '' @ nat_str (unat (foldl (\<lambda>t s. t + ucast (sh_shareBps s)) (0 :: 32 word) before)) @ '' has a zero recipient'')"
proof -
  assume z: "list_all (\<lambda>s. sh_recipient s \<noteq> 0) before" "sh_recipient z = 0"
  have "share_sum tot (before @ z # later_ones) =
      Inl (''share '' @ nat_str (unat (foldl (\<lambda>t s. t + ucast (sh_shareBps s)) tot before)) @ '' has a zero recipient'')" for tot
    using z by (induction before arbitrary: tot) auto
  then show ?thesis by (simp add: validateShares_def)
qed

section \<open>The same commitment and digest in three languages\<close>

lemma byte_count_le: "n < 256 ^ k \<Longrightarrow> byte_count n \<le> k"
proof (induction k arbitrary: n)
  case (Suc k)
  then have "n div 256 < 256 ^ k" by (simp add: less_mult_imp_div_less mult.commute)
  with Suc.IH show ?case by (subst byte_count.simps) simp
qed (simp add: byte_count.simps)

lemma padUint_small: "0 \<le> v \<Longrightarrow> v < 2 ^ 256 \<Longrightarrow> padUint v = be_bytes 32 (nat v)"
proof -
  assume v: "0 \<le> v" "v < 2 ^ 256"
  then have "nat v < 256 ^ 32" by (simp add: nat_less_iff)
  then have "byte_count (nat v) \<le> 32" by (rule byte_count_le)
  with v show ?thesis by (simp add: padUint_def max_def del: be_bytes.simps)
qed

lemma padUint_word: "padUint (uint (w :: 256 word)) = u256_bytes w"
  using uint_bounded [of w] by (simp add: padUint_small u256_bytes_def del: be_bytes.simps)

lemma padUint_bps: "padUint (uint (b :: 16 word)) = u256_bytes (ucast b)"
  using padUint_word [of "ucast b"] by (simp only: up16)

lemma go_commitment_agrees:
  assumes "length slt = 32" "length shs < 2 ^ 256"
  shows "go_computeCommitment h shs slt = h (share_preimage shs slt)"
proof -
  have "padUint (int (length shs)) = be_bytes 32 (length shs)" using assms(2) by (simp add: padUint_small)
  moreover have "padUint 64 = be_bytes 32 64" by (simp add: padUint_small)
  moreover have "map (\<lambda>s. padAddress (sh_recipient s) @ padUint (uint (sh_shareBps s))) shs = map dist_bytes (map share_pair shs)"
    by (simp add: padAddress_def padUint_bps dist_bytes_def share_pair_def)
  ultimately show ?thesis
    by (simp only: go_computeCommitment_def share_preimage_eq commitment_preimage_eq [OF assms(1)] length_map)
qed

lemma go_hashShares_agrees: "go_hashShares h shs = hashShares h shs"
  by (simp add: go_hashShares_def hashShares_def shareTypehash_def SHARE_TYPEHASH_def padAddress_def padUint_bps
      abi_encode_def abi_seq_def)

text \<open>EIP-712 and EIP-191 as OpenZeppelin documents them, and the node's signature.\<close>

definition eip712_documented :: "'w callees \<Rightarrow> 256 word \<Rightarrow> bool" where
  "eip712_documented C chain \<longleftrightarrow> (\<forall>sh. hashTypedDataV4 C sh = hash C ([0x19, 0x01] @
     hash C (abi_encode [VBytes32 (hash C (utf8_bytes ''EIP712Domain(string name,string version,uint256 chainId,address verifyingContract)'')),
       VBytes32 (hash C (utf8_bytes ''FlareStudioPolicy'')), VBytes32 (hash C (utf8_bytes ''1'')), VUint chain, VAddress (this C)]) @ sh))"

definition node_documented :: "go_libs \<Rightarrow> 'w callees \<Rightarrow> addr \<Rightarrow> bool" where
  "node_documented L C signer \<longleftrightarrow> (\<forall>m. \<exists>sig. nodeSign L m = Inr sig \<and> length sig = 65 \<and>
     recover C (toEthSignedMessageHash C (hash C m)) (normalizeV sig) = Some signer)"

lemma digest_agrees:
  assumes "eip712_documented C chain" "p_commitment p = cm"
  shows "hash C (eip712Preimage (hash C) (this C) (uint chain) cm shs (uint (p_triggeredAt p))) = execution_digest C p shs"
proof -
  have "domainSeparator (hash C) (this C) (uint chain) =
    hash C (abi_encode [VBytes32 (hash C (utf8_bytes ''EIP712Domain(string name,string version,uint256 chainId,address verifyingContract)'')),
       VBytes32 (hash C (utf8_bytes ''FlareStudioPolicy'')), VBytes32 (hash C (utf8_bytes ''1'')), VUint chain, VAddress (this C)])"
    by (simp add: domainSeparator_def eip712DomainTypehash_def EIP712DomainName_def EIP712DomainVersion_def padUint_word
        padAddress_def abi_encode_def abi_seq_def)
  moreover have "executionTypehash (hash C) @ cm @ go_hashShares (hash C) shs @ padUint (uint (p_triggeredAt p)) =
    abi_encode [VBytes32 (EXECUTION_TYPEHASH (hash C)), VBytes32 (p_commitment p), VBytes32 (hashShares (hash C) shs),
      VUint (p_triggeredAt p)]"
    by (simp add: executionTypehash_def EXECUTION_TYPEHASH_def go_hashShares_agrees padUint_word assms(2) abi_encode_def abi_seq_def)
  ultimately show ?thesis
    using assms(1) by (simp add: eip712Preimage_def execution_digest_def eip712_documented_def Let_def)
qed

section \<open>What the machine holds\<close>

text \<open>An action that hands the machine a configuration for the policy.\<close>

definition stores_for :: "go_libs \<Rightarrow> addr \<Rightarrow> go_action \<Rightarrow> bool" where
  "stores_for L policy a \<longleftrightarrow> (case parseFixed L (ga_Message a) of Inl _ \<Rightarrow> False
     | Inr df \<Rightarrow> (case store_policy L (df_OriginalMessage df) of Inl _ \<Rightarrow> False | Inr (p, cfg) \<Rightarrow> p = policy))"

lemma action_keeps:
  "\<not> stores_for L policy a \<Longrightarrow> holds policy (snd (processAction L a e)) = holds policy e"
  by (auto simp: processAction_def processPolicy_def processStore_def processEvaluate_def stores_for_def machine_store.get_put
      split: sum.splits prod.splits)

lemma run_keeps:
  "list_all (\<lambda>a. \<not> stores_for L policy a) as \<Longrightarrow> holds policy (run_machine L as e) = holds policy e"
proof (induction as arbitrary: e)
  case (Cons a as)
  then show ?case using action_keeps [of L policy a e] by (simp add: run_machine_def)
qed (simp add: run_machine_def)

text \<open>The machine takes the shares of a well-formed policy unless one of them is the zero address's.\<close>

lemma share_sum_Inr:
  "list_all (\<lambda>s. sh_recipient s \<noteq> 0) shs \<Longrightarrow> share_sum tot shs = Inr (tot + of_int (sum_list (map (\<lambda>s. uint (sh_shareBps s)) shs)))"
proof (induction shs arbitrary: tot)
  case (Cons s shs)
  have "(ucast (sh_shareBps s) :: 32 word) = of_int (uint (sh_shareBps s))"
    by simp
  with Cons show ?case by (simp add: add.assoc)
qed simp

lemma wf_shares_length: "wf_shares rs \<Longrightarrow> length rs \<le> 10000"
proof -
  assume wf: "wf_shares rs"
  then have "list_all (\<lambda>r. 1 \<le> shareBps r) rs" by (auto simp: wf_shares_def wf_share_def list_all_iff)
  then have "int (length rs) \<le> sum_list (map shareBps rs)" by (induction rs) auto
  with wf show ?thesis by (simp add: wf_shares_def share_total_sum)
qed

lemma compiled_validates:
  assumes "wf_shares rs" "chain_shares rs = Some (map share_pair shs)" "list_all (\<lambda>s. sh_recipient s \<noteq> 0) shs"
  shows "validateShares shs = Inr ()"
proof -
  have bs: "map (\<lambda>s. uint (sh_shareBps s)) shs = map shareBps rs" using revealed_shares [OF assms(1,2)] by blast
  with wf_shares_split [OF assms(1), of 0] have "sum_list (map (\<lambda>s. uint (sh_shareBps s)) shs) = 10000" "shs \<noteq> []" by auto
  with share_sum_Inr [OF assms(3), of 0] show ?thesis by (simp add: validateShares_def)
qed

text \<open>What is sealed for the machine, and what reading it gives.\<close>

definition unmarshal_documented :: "go_libs \<Rightarrow> bool" where
  "unmarshal_documented L \<longleftrightarrow> (\<forall>e shs sb t. hex_value (salt e) = Some sb \<and> length sb = 32 \<and>
     list_all2 (\<lambda>(a, b) s. address_value a = Some (sh_recipient s) \<and> b = uint (sh_shareBps s)) (shares e) shs \<and>
     canonicalize (enclave_js e) = Some t \<longrightarrow> unmarshalConfig L (utf8_bytes t) = Inr \<lparr> cfg_shares = shs, cfg_salt = sb \<rparr>)"

definition machine_documented :: "go_libs \<Rightarrow> viem \<Rightarrow> noble \<Rightarrow> bytes \<Rightarrow> bool" where
  "machine_documented L V N key \<longleftrightarrow> go_keccak L = keccak256 V \<and> unmarshal_documented L \<and>
     (\<forall>ct m. eciesDecrypt N (Raw key) (Raw ct) = Inr m \<longrightarrow> nodeDecrypt L ct = Inr m)"

lemma compiled_payload:
  assumes "zod_documented zod" "finite_js input" "compile zod V input slt = Inr c"
  shows "canonicalize (enclave_js (enclaveConfig c)) = Some (plaintext c) \<and> salt (enclaveConfig c) = slt \<and>
    shares (enclaveConfig c) = map (\<lambda>r. (address r, shareBps r)) (recipients (privateConfig c))"
proof -
  obtain i where "compile_ir V i slt = Inr c" using compile_Inr [OF assms] by blast
  from compile_ir_Inr [OF this] show ?thesis by (auto simp: enclave_of_def config_of_def)
qed

lemma compiled_reads:
  assumes "zod_documented zod" "finite_js input" "compile zod V input slt = Inr c" "hex_value slt = Some sb" "length sb = 32"
    and "wf_shares (recipients (privateConfig c))" "chain_shares (recipients (privateConfig c)) = Some (map share_pair shs)"
    and "unmarshal_documented L"
  shows "unmarshalConfig L (utf8_bytes (plaintext c)) = Inr \<lparr> cfg_shares = shs, cfg_salt = sb \<rparr>"
proof -
  note p = compiled_payload [OF assms(1-3)]
  note r = revealed_shares [OF assms(6,7)]
  have "list_all2 (\<lambda>r s. shareBps r = uint (sh_shareBps s)) (recipients (privateConfig c)) shs"
    using r [THEN conjunct1, symmetric] by (simp add: list_all2_map1 list_all2_map2 flip: list.rel_eq)
  with r have "list_all2 (\<lambda>r s. address_value (address r) = Some (sh_recipient s) \<and> shareBps r = uint (sh_shareBps s))
      (recipients (privateConfig c)) shs"
    by (simp add: list_all2_conv_all_nth)
  then have "list_all2 (\<lambda>(a, b) s. address_value a = Some (sh_recipient s) \<and> b = uint (sh_shareBps s))
      (shares (enclaveConfig c)) shs"
    using p by (simp add: list_all2_map1)
  moreover have "hex_value (salt (enclaveConfig c)) = Some sb" "canonicalize (enclave_js (enclaveConfig c)) = Some (plaintext c)"
    using p assms(4) by simp_all
  ultimately show ?thesis using assms(5,8) unfolding unmarshal_documented_def by blast
qed

text \<open>A sealed configuration is stored, and stays until another is.\<close>

lemma sealed_is_stored:
  assumes "machine_documented L V N key" "noble_documented N" "valid_private N eph" "valid_private N key" "length iv = IV_LEN"
    and "normalizeTeePublicKey N pub = Inr (getPublicKey N key)" "eciesEncrypt N eph iv pub (utf8_bytes text) = Inr (toHex ct)"
    and "decodeStore L msg = Inr (policy, ct)" "policy \<noteq> 0" "unmarshalConfig L (utf8_bytes text) = Inr cfg"
    and "validateShares (cfg_shares cfg) = Inr ()"
  shows "store_policy L msg = Inr (policy, cfg)"
proof -
  obtain data where d: "eciesEncrypt N eph iv pub (utf8_bytes text) = Inr (toHex data)" "eciesDecrypt N (Raw key) (Raw data) = Inr (utf8_bytes text)"
    using decrypt_encrypted [OF assms(2-6), of "utf8_bytes text"] by blast
  then have ct: "ct = data" using assms(7) by (simp add: toHex_eq bytes_hex_inj)
  have "ct \<noteq> []" using d(2) by (auto simp: ct eciesDecrypt_def)
  moreover have "nodeDecrypt L ct = Inr (utf8_bytes text)" using assms(1) d(2) by (simp add: machine_documented_def ct)
  ultimately show ?thesis using assms(8-11) by (simp add: store_policy_def wrap_error_def)
qed

lemma stored_is_evaluated:
  assumes "node_documented L C signer" "decodeEvaluate L msg = Inr (policy, Some armed)" "ChainID L \<noteq> 0" "armed \<noteq> 0"
    and "holds policy e = Some cfg"
  shows "\<exists>sig. evaluate_policy L msg e = Inr (policy, cfg, sig) \<and>
    recover C (toEthSignedMessageHash C (hash C (eip712Preimage (go_keccak L) policy (ChainID L)
      (go_computeCommitment (go_keccak L) (cfg_shares cfg) (cfg_salt cfg)) (cfg_shares cfg) armed))) sig = Some signer"
proof -
  let ?m = "eip712Preimage (go_keccak L) policy (ChainID L)
      (go_computeCommitment (go_keccak L) (cfg_shares cfg) (cfg_salt cfg)) (cfg_shares cfg) armed"
  obtain sig where "nodeSign L ?m = Inr sig" "length sig = 65"
    "recover C (toEthSignedMessageHash C (hash C ?m)) (normalizeV sig) = Some signer"
    using assms(1) unfolding node_documented_def by blast
  with assms(2-5) show ?thesis
    by (intro exI [of _ "normalizeV sig"]) (simp add: evaluate_policy_def wrap_error_def signViaNode_def Let_def)
qed

text \<open>C22: Nothing of the private half leaves the machine when it is stored: two configurations with the same
  number of shares, sent for the same policy, leave the machine with the same reply and the same
  public state.\<close>

theorem store_reply_blind:
  assumes "store_policy L (df_OriginalMessage df) = Inr (policy, cfg)" "store_policy L (df_OriginalMessage df') = Inr (policy, cfg')"
    and "length (cfg_shares cfg) = length (cfg_shares cfg')" "df_OPType df = df_OPType df'" "df_OPCommand df = df_OPCommand df'"
  shows "fst (processStore L a df e) = fst (processStore L a df' e) \<and>
    machine_state (snd (processStore L a df e)) = machine_state (snd (processStore L a df' e))"
proof -
  have "length (AList.update p x xs) = length (AList.update p y xs)" for p and x y :: private_cfg and xs
    by (induction xs) auto
  with assms show ?thesis by (simp add: processStore_def buildResult_def machine_state_def hold_def)
qed

section \<open>From the author to the recipients\<close>

definition ready_to_pay :: "viem \<Rightarrow> compiled_policy \<Rightarrow> 'w callees \<Rightarrow> 'w evm \<Rightarrow> bool" where
  "ready_to_pay V c C s \<longleftrightarrow> deployed_from V c C s \<and> this C \<noteq> 0 \<and> p_status (storage s) = Triggered \<and>
     p_triggeredAt (storage s) \<noteq> 0 \<and> pc_balance C s \<noteq> 0 \<and> uint (pc_balance C s) * 10000 < 2 ^ 256 \<and>
     list_all (\<lambda>r. address_value (address r) \<noteq> Some 0) (recipients (privateConfig c))"

text \<open>The stored configuration of a compiled policy, and the contract's view of it.\<close>

lemma machine_answers:
  assumes "zod_documented zod" "viem_documented V" "finite_js input"
    and "compile zod V input slt = Inr c" "hex_value slt = Some sb" "length sb = 32" "ready_to_pay V c C s"
    and "machine_documented L V N key" "node_documented L C signer" "eip712_documented C chain"
    and "ChainID L = uint chain" "chain \<noteq> 0" "isAttested C (p_attestorGate (storage s)) signer (others s)"
    and "decodeEvaluate L msg = Inr (this C, Some (uint (p_triggeredAt (storage s))))"
    and "holds (this C) e = Some \<lparr> cfg_shares = shs, cfg_salt = sb \<rparr>"
    and "chain_shares (recipients (privateConfig c)) = Some (map share_pair shs)"
  shows "\<exists>sig s'. evaluate_policy L msg e = Inr (this C, \<lparr> cfg_shares = shs, cfg_salt = sb \<rparr>, sig) \<and>
    pc_execute C shs sb sig s = Inr s'"
proof -
  let ?cfg = "\<lparr> cfg_shares = shs, cfg_salt = sb \<rparr>" and ?p = "storage s"
  have d: "deployed_from V c C s" "p_status ?p = Triggered" "uint (p_triggeredAt ?p) \<noteq> 0" "uint chain \<noteq> 0"
    using assms(7,12) by (auto simp: ready_to_pay_def uint_0_iff)
  have h: "hash C = keccak256 V" "go_keccak L = hash C" "erc20_documented C (p_asset ?p)"
    using d(1) assms(8) by (simp_all add: deployed_from_def machine_documented_def)
  obtain cs where cs: "wf_shares (recipients (privateConfig c))" "p_commitment ?p = hash C (share_preimage shs sb)"
    using compiled_commitment [OF assms(1-6) d(1)] assms(16) by (auto simp: share_preimage_eq)
  have "length shs \<le> 10000" using wf_shares_length [OF cs(1)] revealed_shares [OF cs(1) assms(16)] by (metis length_map)
  then have cm: "go_computeCommitment (hash C) shs sb = p_commitment ?p"
    using go_commitment_agrees [OF assms(6), of shs "hash C"] cs(2) by simp
  have "ChainID L \<noteq> 0" using d(4) assms(11) by simp
  from stored_is_evaluated [OF assms(9,14) this d(3) assms(15)] obtain sig where
    sig: "evaluate_policy L msg e = Inr (this C, ?cfg, sig)"
      "recover C (toEthSignedMessageHash C (execution_digest C ?p shs)) sig = Some signer"
    using digest_agrees [OF assms(10) refl, of ?p shs] by (auto simp: h(2) assms(11) cm)
  then have "production C s shs sig" using assms(13) by (simp add: production_def)
  moreover have "list_all (\<lambda>sh. sh_recipient sh \<noteq> 0) shs"
    using revealed_shares [OF cs(1) assms(16)] assms(7) by (auto simp: ready_to_pay_def list_all_length list_all2_conv_all_nth)
  ultimately obtain s' where "pc_execute C shs sb sig s = Inr s'"
    using execute_succeeds [OF h(3) d(2) cs(2) [symmetric] _ cs(1) assms(16)] assms(7) by (auto simp: ready_to_pay_def)
  with sig(1) show ?thesis by blast
qed

text \<open>A signature that leaves the machine has 65 bytes.\<close>

lemma signViaNode_length: "signViaNode L m = Inr sg \<Longrightarrow> length sg = 65"
  by (auto simp: signViaNode_def normalizeV_def Let_def and_then_Inr_iff split: if_splits)

lemma wrap_error_Inr [simp]: "wrap_error c r = Inr x \<longleftrightarrow> r = Inr x"
  by (cases r) (simp_all add: wrap_error_def)

lemma evaluated_signature:
  assumes "evaluate_policy L msg e = Inr (p, cfg, sg)"
  shows "length sg = 65"
proof -
  obtain policy armedAt where "decodeEvaluate L msg = Inr (policy, armedAt)"
    using assms by (cases "decodeEvaluate L msg") (auto simp: evaluate_policy_def and_then_Inr_iff)
  then show ?thesis
    using assms by (cases armedAt; cases "holds policy e")
      (auto simp: evaluate_policy_def Let_def and_then_Inr_iff dest: signViaNode_length split: if_split_asm)
qed

text \<open>A policy reaches its recipients: what the browser sealed for the machine is stored when it is handed
  over, survives every other action, and once the policy is armed the machine's answer to an
  evaluation is a configuration and a signature the contract executes, paying the compiled recipients
  exactly the amounts the compiler computes for the balance.\<close>

lemma sealed_is_paid:
  assumes "zod_documented zod" "viem_documented V" "finite_js input"
    and "compile zod V input slt = Inr c" "hex_value slt = Some sb" "length sb = 32" "ready_to_pay V c C s"
    and "noble_documented N" "valid_private N eph" "valid_private N key" "length iv = IV_LEN"
    and "normalizeTeePublicKey N pub = Inr (getPublicKey N key)"
    and "eciesEncrypt N eph iv pub (utf8_bytes (plaintext c)) = Inr (toHex ct)"
    and "machine_documented L V N key" "node_documented L C signer" "eip712_documented C chain"
    and "ChainID L = uint chain" "chain \<noteq> 0" "isAttested C (p_attestorGate (storage s)) signer (others s)"
    and "decodeStore L (df_OriginalMessage df1) = Inr (this C, ct)"
    and "decodeEvaluate L (df_OriginalMessage df2) = Inr (this C, Some (uint (p_triggeredAt (storage s))))"
    and "list_all (\<lambda>a. \<not> stores_for L (this C) a) as"
  shows "\<exists>cfg sig s' ps. length sig = 65 \<and> length (cfg_salt cfg) = 32 \<and> (let e1 = snd (processStore L a1 df1 e); e2 = run_machine L as e1 in
    fst (processEvaluate L a2 df2 e2) = buildResult a2 df2 (Inr (jsonBytes (evaluation_js (this C) cfg sig))) \<and>
    pc_execute C (cfg_shares cfg) (cfg_salt cfg) sig s = Inr s' \<and>
    traverse chain_distribution (resolveDistributions (privateConfig c) (uint (pc_balance C s))) = Some ps \<and>
    held C (p_asset (storage s)) s' = paid_out (this C) ps (held C (p_asset (storage s)) s))"
proof -
  have d: "deployed_from V c C s" "this C \<noteq> 0" using assms(7) by (simp_all add: ready_to_pay_def)
  obtain cs where cs: "wf_shares (recipients (privateConfig c))" "chain_shares (recipients (privateConfig c)) = Some cs"
    using compiled_commitment [OF assms(1-6) d(1)] by blast
  obtain shs where shs: "chain_shares (recipients (privateConfig c)) = Some (map share_pair shs)"
    using sol_shares_exist [OF cs] cs(2) by blast
  let ?cfg = "\<lparr> cfg_shares = shs, cfg_salt = sb \<rparr>"
  have nz: "list_all (\<lambda>sh. sh_recipient sh \<noteq> 0) shs"
    using revealed_shares [OF cs(1) shs] assms(7) by (auto simp: ready_to_pay_def list_all_length list_all2_conv_all_nth)
  have read: "unmarshalConfig L (utf8_bytes (plaintext c)) = Inr ?cfg"
    using compiled_reads [OF assms(1,3-6) cs(1) shs] assms(14) by (simp add: machine_documented_def)
  have valid: "validateShares (cfg_shares ?cfg) = Inr ()" using compiled_validates [OF cs(1) shs nz] by simp
  define e1 e2 where "e1 = snd (processStore L a1 df1 e)" and "e2 = run_machine L as e1"
  have "store_policy L (df_OriginalMessage df1) = Inr (this C, ?cfg)"
    by (rule sealed_is_stored [OF assms(14,8-13,20) d(2) read valid])
  then have "holds (this C) e1 = Some ?cfg" by (simp add: e1_def store_replaces)
  then have e2: "holds (this C) e2 = Some ?cfg" using run_keeps [OF assms(22)] by (simp add: e2_def)
  from machine_answers [OF assms(1-7) assms(14-19) assms(21) e2 shs] obtain sig s' where
    sig: "evaluate_policy L (df_OriginalMessage df2) e2 = Inr (this C, ?cfg, sig)" "pc_execute C shs sb sig s = Inr s'" by blast
  have "held C (p_asset (storage s)) s' =
      paid_out (this C) (zip (map sh_recipient shs) (sol_amounts (pc_balance C s) 0 shs)) (held C (p_asset (storage s)) s)"
    using execute_moves [OF _ sig(2)] d(1) by (simp add: deployed_from_def)
  moreover have "fst (processEvaluate L a2 df2 e2) = buildResult a2 df2 (Inr (jsonBytes (evaluation_js (this C) ?cfg sig)))"
    by (simp add: processEvaluate_def sig(1))
  moreover have "length sig = 65" by (rule evaluated_signature [OF sig(1)])
  ultimately show ?thesis using resolved_on_chain [OF cs(1) shs refl, of "pc_balance C s"] sig(2) assms(6)
    unfolding Let_def e1_def [symmetric] e2_def [symmetric]
    by (intro exI [of _ ?cfg] exI [of _ sig] exI [of _ s']) auto
qed

section \<open>An instance\<close>

definition demo_read_share :: "jsv \<Rightarrow> sol_share option" where
  "demo_read_share v = (case v of
     JObj [(r, JStr a), (b, JNum q)] \<Rightarrow>
       map_option (\<lambda>w. \<lparr> sh_recipient = w, sh_shareBps = of_int \<lfloor>q\<rfloor> \<rparr>) (address_value a)
   | _ \<Rightarrow> None)"

definition demo_unmarshal :: "bytes \<Rightarrow> string + private_cfg" where
  "demo_unmarshal b = (case json_parse (map byte_char b) of
     Some (JObj [(k, JStr slt), (l, JArr vs)]) \<Rightarrow>
       (case (hex_value slt, traverse demo_read_share vs) of
          (Some sb, Some shs) \<Rightarrow> Inr \<lparr> cfg_shares = shs, cfg_salt = sb \<rparr> | _ \<Rightarrow> Inl ''not a configuration'')
   | _ \<Rightarrow> Inl ''not a configuration'')"

definition demo_libs :: go_libs where
  "demo_libs = \<lparr> go_keccak = demo_hash, toHash = (\<lambda>s. utf8_bytes s @ replicate (32 - length s) 0),
     parseFixed = (\<lambda>b. Inr \<lparr> df_OPType = take 32 b, df_OPCommand = take 32 (drop 32 b), df_OriginalMessage = drop 64 b \<rparr>),
     decodeStore = (\<lambda>m. Inr (ucast (hd m), tl m)), decodeEvaluate = (\<lambda>m. Inr (ucast (hd m), Some (int (be_nat (tl m))))),
     unmarshalConfig = demo_unmarshal,
     nodeDecrypt = (\<lambda>ct. case eciesDecrypt demo_noble (Raw (replicate 32 2)) (Raw ct) of
        Inl e \<Rightarrow> Inl ''cannot decrypt'' | Inr m \<Rightarrow> Inr m),
     nodeSign = (\<lambda>m. Inr (replicate 65 0)), ChainID = 114 \<rparr>"

lemma demo_reads_shares:
  "list_all2 (\<lambda>(a, b) s. address_value a = Some (sh_recipient s) \<and> b = uint (sh_shareBps s)) es shs \<Longrightarrow>
   traverse demo_read_share (map (\<lambda>(a, b). JObj [(''recipient'', JStr a), (''shareBps'', JNum (of_int b))]) es) = Some shs"
proof -
  have r: "demo_read_share (JObj [(''recipient'', JStr a), (''shareBps'', JNum (of_int (uint (sh_shareBps s))))]) = Some s"
    if "address_value a = Some (sh_recipient s)" for a s
    unfolding demo_read_share_def using that by (simp only: floor_of_int jsv.case list.case prod.case char.case) simp
  show "list_all2 (\<lambda>(a, b) s. address_value a = Some (sh_recipient s) \<and> b = uint (sh_shareBps s)) es shs \<Longrightarrow> ?thesis"
    unfolding traverse_Some_iff list_all2_map1 by (erule list_all2_mono) (auto simp only: r split: prod.splits)
qed

lemma demo_unmarshals: "unmarshal_documented demo_libs"
proof -
  have "demo_unmarshal (utf8_bytes t) = Inr \<lparr> cfg_shares = shs, cfg_salt = sb \<rparr>"
    if "hex_value (salt e) = Some sb" "canonicalize (enclave_js e) = Some t"
      "list_all2 (\<lambda>(a, b) s. address_value a = Some (sh_recipient s) \<and> b = uint (sh_shareBps s)) (shares e) shs"
    for e :: enclave_config and t sb shs
    using canonicalize_parse [OF plain_enclave that(2)] that(1) demo_reads_shares [OF that(3)]
    by (simp add: demo_unmarshal_def enclave_sorted)
  then show ?thesis by (auto simp: unmarshal_documented_def demo_libs_def)
qed

lemma demo_libs_documented:
  "machine_documented demo_libs demo_viem demo_noble (replicate 32 2)" "node_documented demo_libs demo_callees 3"
  "eip712_documented demo_callees 114"
proof -
  show "machine_documented demo_libs demo_viem demo_noble (replicate 32 2)"
    using demo_unmarshals by (simp add: machine_documented_def) (simp add: demo_libs_def demo_viem_def viem_with_def)
  show "node_documented demo_libs demo_callees 3"
    by (simp add: node_documented_def demo_libs_def demo_callees_def)
  show "eip712_documented demo_callees 114"
    by (simp add: eip712_documented_def demo_callees_def demo_typed_hash_def)
qed

definition demo_action :: go_action where
  "demo_action = \<lparr> ga_ID = [1], ga_SubmissionTag = ''submit'', ga_Message = [] \<rparr>"

theorem store_reply_blind_witness:
  "let L = demo_libs\<lparr> nodeDecrypt := Inr, unmarshalConfig := \<lambda>m. Inr \<lparr> cfg_shares =
         [\<lparr> sh_recipient = ucast (hd m), sh_shareBps = 10000 \<rparr>], cfg_salt = m \<rparr> \<rparr> in
   fst (processStore L demo_action \<lparr> df_OPType = [], df_OPCommand = [], df_OriginalMessage = [9, 1] \<rparr> new_machine) =
   fst (processStore L demo_action \<lparr> df_OPType = [], df_OPCommand = [], df_OriginalMessage = [9, 2] \<rparr> new_machine)"
proof -
  let ?L = "demo_libs\<lparr> nodeDecrypt := Inr, unmarshalConfig := \<lambda>m. Inr \<lparr> cfg_shares =
         [\<lparr> sh_recipient = ucast (hd m), sh_shareBps = 10000 \<rparr>], cfg_salt = m \<rparr> \<rparr>"
  let ?df = "\<lambda>b. \<lparr> df_OPType = [], df_OPCommand = [], df_OriginalMessage = [9, b] \<rparr>"
  have s: "store_policy ?L (df_OriginalMessage (?df b)) = Inr (9, \<lparr> cfg_shares = [\<lparr> sh_recipient = ucast b, sh_shareBps = 10000 \<rparr>],
      cfg_salt = [b] \<rparr>)" if "(ucast b :: addr) \<noteq> 0" for b
    using that by (simp add: store_policy_def demo_libs_def wrap_error_def validateShares_def)
  show ?thesis unfolding Let_def
    using store_reply_blind [OF s [of 1] s [of 2], of demo_action new_machine] by simp
qed

end
