(* ===== verification/Relay.thy ===== *)
theory Relay
  imports Enclave Orchestrator
begin

text \<open>
  The way of the machine's answer to the contract. The proxy relays the result of an action as
  JSON (its bytes as hex or as base64); the orchestrator decodes it, normalises the
  signature and calls execute (apps/orchestrator/src/policy.ts); the contract receives
  what those arguments are as ABI values. The last theorem runs the whole way from the
  author's browser to the recipients' balances.
\<close>

section \<open>What the proxy relays\<close>

definition relayed :: "go_result \<Rightarrow> jsv \<Rightarrow> bool" where
  "relayed g response \<longleftrightarrow> (\<exists>kvs d. prop_of response ''result'' = JObj kvs \<and>
     get_prop kvs ''status'' = JNum (of_nat (gr_Status g)) \<and> get_prop kvs ''log'' = JStr (gr_Log g) \<and>
     get_prop kvs ''data'' = JStr d \<and> (d = ''0x'' @ bytes_hex (gr_Data g) \<or> d = b64_encode (gr_Data g)))"

section \<open>What the contract receives\<close>

text \<open>The arguments of \<open>execute((address,uint16)[],bytes32,bytes)\<close> as values of their ABI types.\<close>

definition share_value :: "jsv \<Rightarrow> sol_share option" where
  "share_value v =
     (case (prop_of v ''recipient'', prop_of v ''shareBps'') of
        (JStr a, JNum b) \<Rightarrow>
          (if is_int b \<and> 0 \<le> b \<and> b < 65536 then
             map_option (\<lambda>w. \<lparr> sh_recipient = w, sh_shareBps = of_int \<lfloor>b\<rfloor> \<rparr>) (address_value a)
           else None)
      | _ \<Rightarrow> None)"

definition execute_values :: "jsv list \<Rightarrow> (sol_share list \<times> bytes \<times> bytes) option" where
  "execute_values args =
     (case args of
        [JArr ss, JStr a, JStr b] \<Rightarrow>
          (case (traverse share_value ss, hex_value a, hex_value b) of
             (Some shs, Some sb, Some sg) \<Rightarrow> if length sb = 32 then Some (shs, sb, sg) else None
           | _ \<Rightarrow> None)
      | _ \<Rightarrow> None)"

section \<open>Lemmas\<close>

lemma address_value_hex [simp]: "address_value (CHR ''0'' # CHR ''x'' # bytes_hex (address_bytes a)) = Some a"
proof -
  have "re_address (CHR ''0'' # CHR ''x'' # bytes_hex (address_bytes a))"
    by (simp add: re_address_def starts_with_iff bytes_hex_is_hex)
  moreover have "unat a < 2 ^ LENGTH(160)" by (rule unsigned_less)
  then have "unat a < 256 ^ 20" by simp
  then have "be_nat (address_bytes a) = unat a" by (simp add: address_bytes_def be_nat_be_bytes del: be_bytes.simps)
  ultimately show ?thesis by (simp add: address_value_def)
qed

lemma hex_value_hex [simp]: "hex_value (CHR ''0'' # CHR ''x'' # bytes_hex b) = Some b"
  by (simp add: hex_value_def starts_with_iff)

lemma share_value_of_json: "share_value (execute_share (jsonShare s)) = Some s"
proof (cases s)
  case (fields a b)
  have "uint b < 65536" "0 \<le> uint b" using uint_bounded [of b] by simp_all
  then have "(of_int (uint b) :: rat) < 65536" "(0 :: rat) \<le> of_int (uint b)" by (simp_all del: of_int_uint)
  moreover have "(of_int (uint b) :: 16 word) = b" by simp
  ultimately show ?thesis using fields
    by (simp add: share_value_def execute_share_def jsonShare_def jsonAddress_def del: of_int_uint)
qed

text \<open>The evaluation is printed as ASCII and read back.\<close>

lemma b64_char_ascii [simp]: "of_char (b64_char i) < (128 :: nat)"
  by (auto simp: b64_char_def)

lemma b64_ascii [simp]: "ascii (b64_encode b)"
  by (induction b rule: b64_encode.induct) simp_all

lemma evaluation_text:
  obtains kvs t where "evaluation_js p cfg sg = JObj kvs" "json_text (JObj kvs) = Some t" "ascii t"
    "jsonBytes (evaluation_js p cfg sg) = utf8_bytes t" "plain (JObj kvs)"
proof -
  let ?v = "evaluation_js p cfg sg"
  have pl: "plain ?v"
    by (simp add: evaluation_js_def jsonAddress_def jsonShare_def list_all_iff del: of_int_uint)
  obtain t where t: "json_text ?v = Some t" using plain_json_text [OF pl] by blast
  have hexes: "ascii (bytes_hex b)" for b by (rule list_all_hex_ascii [OF bytes_hex_is_hex])
  have "ascii_jsv ?v"
    by (simp add: evaluation_js_def jsonAddress_def jsonShare_def list_all_iff hexes)
  from ascii_json_text [OF this pl t] t pl that show thesis
    by (simp add: evaluation_js_def jsonBytes_def)
qed


text \<open>What the orchestrator hands to the contract is what the machine answered.\<close>

lemma answer_reaches_contract:
  assumes "relayed (buildResult a df (Inr (jsonBytes (evaluation_js p cfg sg)))) response"
    and "length (cfg_salt cfg) = 32" "length sg = 65"
  shows "\<exists>evaluation args. and_then (decodeActionData response) with_signature = Inr evaluation \<and>
    execute_args evaluation = Inr args \<and> execute_values args = Some (cfg_shares cfg, cfg_salt cfg, sg)"
proof -
  obtain kvs t where t: "evaluation_js p cfg sg = JObj kvs" "json_text (JObj kvs) = Some t" "ascii t"
    "jsonBytes (evaluation_js p cfg sg) = utf8_bytes t" "plain (JObj kvs)" by (rule evaluation_text)
  obtain res d where r: "prop_of response ''result'' = JObj res" "get_prop res ''status'' = JNum 1" "get_prop res ''data'' = JStr d"
    "d = ''0x'' @ bytes_hex (utf8_bytes t) \<or> d = b64_encode (utf8_bytes t)"
    using assms(1) t(4) by (auto simp: relayed_def buildResult_def)
  have dec: "decodeActionData response = Inr (JObj kvs)"
    using decoded [OF r(1,3) t(5,2,3) r(4)] r(2) by simp
  have props: "get_prop kvs ''signature'' = JStr (b64_encode sg)" "get_prop kvs ''salt'' = JStr (''0x'' @ bytes_hex (cfg_salt cfg))"
    "get_prop kvs ''shares'' = JArr (map jsonShare (cfg_shares cfg))" using t(1) by (auto simp: evaluation_js_def)
  have "sg \<noteq> []" "length sg mod 3 \<noteq> 0 \<and> b64_encode sg = b64_encode sg \<or> b64_encode sg = ''0x'' @ bytes_hex sg"
    using assms(3) by auto
  from normalised [OF props(1) this] obtain kvs' where
    k: "with_signature (JObj kvs) = Inr (JObj kvs')" "get_prop kvs' = (get_prop kvs)(''signature'' := JStr (''0x'' @ bytes_hex sg))"
    by blast
  have "traverse share_value (map execute_share (map jsonShare (cfg_shares cfg))) = Some (cfg_shares cfg)"
    using traverse_map [of "cfg_shares cfg" share_value "\<lambda>s. execute_share (jsonShare s)" "\<lambda>s. s"]
    by (simp add: share_value_of_json o_def)
  with k(2) props assms(2) have "execute_args (JObj kvs') = Inr [JArr (map execute_share (map jsonShare (cfg_shares cfg))),
      JStr (''0x'' @ bytes_hex (cfg_salt cfg)), JStr (''0x'' @ bytes_hex sg)] \<and>
    execute_values [JArr (map execute_share (map jsonShare (cfg_shares cfg))),
      JStr (''0x'' @ bytes_hex (cfg_salt cfg)), JStr (''0x'' @ bytes_hex sg)] = Some (cfg_shares cfg, cfg_salt cfg, sg)"
    by (simp add: execute_args_def execute_values_def)
  with dec k(1) show ?thesis by (intro exI [of _ "JObj kvs'"]) simp
qed

lemma execute_writes:
  assumes "executePolicy E account policy evaluation t = (Inr tx, t')" "execute_args evaluation = Inr args"
  shows "Written \<lparr> call_to = policy, call_fn = ''execute'', call_args = args, call_value = 0 \<rparr> \<in> set t'"
  using assms by (auto simp: executePolicy_def act_bind_Inr act_prims Let_def split: option.splits if_splits)

section \<open>From the author to the recipients\<close>

text \<open>C1: A policy reaches its recipients: what the browser sealed for the machine is stored when it is handed
  over, survives every other action, and once the policy is armed the machine's answer to an
  evaluation, relayed by the proxy and decoded by the orchestrator, becomes the arguments of an execute
  that the contract accepts, paying the compiled recipients exactly the amounts the compiler
  computes for the balance; and whenever the orchestrator's execution returns, this call is the one it made.\<close>

theorem sealed_policy_pays:
  assumes "zod_documented zod" "viem_documented V" "finite_js input"
    and "compile zod V input slt = Inr c" "hex_value slt = Some sb" "length sb = 32" "ready_to_pay V c C s"
    and "noble_documented N" "valid_private N eph" "valid_private N key" "length iv = IV_LEN"
    and "normalizeTeePublicKey N pub = Inr (getPublicKey N key)"
    and "eciesEncrypt N eph iv pub (utf8_bytes (plaintext c)) = Inr (toHex ct)"
    and "machine_documented L V N key" "node_documented L C signer" "eip712_documented C chain"
    and "ChainID L = uint chain" "chain \<noteq> 0" "isAttested C (p_attestorGate (storage s)) signer (others s)"
    and "decodeStore L (df_OriginalMessage df1) = Inr (this C, ct)"
    and "decodeEvaluate L (df_OriginalMessage df2) = Inr (this C, Some (uint (p_triggeredAt (storage s))))"
    and "list_all (\<lambda>a. \<not> stores_for L (this C) a) as"
    and "relayed (fst (processEvaluate L a2 df2 (run_machine L as (snd (processStore L a1 df1 e))))) response"
  shows "\<exists>evaluation args shs salt' sg s' ps.
    and_then (decodeActionData response) with_signature = Inr evaluation \<and>
    execute_args evaluation = Inr args \<and> execute_values args = Some (shs, salt', sg) \<and>
    pc_execute C shs salt' sg s = Inr s' \<and>
    traverse chain_distribution (resolveDistributions (privateConfig c) (uint (pc_balance C s))) = Some ps \<and>
    held C (p_asset (storage s)) s' = paid_out (this C) ps (held C (p_asset (storage s)) s) \<and>
    (\<forall>E account policy t tx t'. executePolicy E account policy evaluation t = (Inr tx, t') \<longrightarrow>
       Written \<lparr> call_to = policy, call_fn = ''execute'', call_args = args, call_value = 0 \<rparr> \<in> set t')"
proof -
  from sealed_is_paid [OF assms(1-22), of a1 e a2] obtain cfg sg s' ps where
    m: "length sg = 65" "length (cfg_salt cfg) = 32"
      "fst (processEvaluate L a2 df2 (run_machine L as (snd (processStore L a1 df1 e)))) =
        buildResult a2 df2 (Inr (jsonBytes (evaluation_js (this C) cfg sg)))"
      "pc_execute C (cfg_shares cfg) (cfg_salt cfg) sg s = Inr s'"
      "traverse chain_distribution (resolveDistributions (privateConfig c) (uint (pc_balance C s))) = Some ps"
      "held C (p_asset (storage s)) s' = paid_out (this C) ps (held C (p_asset (storage s)) s)"
    by (auto simp: Let_def)
  from answer_reaches_contract [OF assms(23) [unfolded m(3)] m(2,1)] obtain evaluation args where
    a: "and_then (decodeActionData response) with_signature = Inr evaluation" "execute_args evaluation = Inr args"
      "execute_values args = Some (cfg_shares cfg, cfg_salt cfg, sg)" by blast
  have "Written \<lparr> call_to = policy, call_fn = ''execute'', call_args = args, call_value = 0 \<rparr> \<in> set t'"
    if "executePolicy E account policy evaluation t = (Inr tx, t')" for E account policy t tx t'
    using execute_writes [OF that a(2)] .
  with a m(4-6) show ?thesis by blast
qed

section \<open>An instance\<close>

definition relay_js :: "go_result \<Rightarrow> jsv" where
  "relay_js g = JObj [(''result'', JObj [(''status'', JNum (of_nat (gr_Status g))), (''log'', JStr (gr_Log g)),
     (''data'', JStr (''0x'' @ bytes_hex (gr_Data g)))])]"

theorem sealed_policy_pays_witness:
  "\<exists>ct s (c :: compiled_policy). \<exists>evaluation args shs salt' sg s' ps.
    let e1 = snd (processStore demo_libs demo_action \<lparr> df_OPType = [], df_OPCommand = [], df_OriginalMessage = 9 # ct \<rparr> new_machine);
        g = fst (processEvaluate demo_libs demo_action
          \<lparr> df_OPType = [], df_OPCommand = [], df_OriginalMessage = 9 # be_bytes 32 1200 \<rparr> e1) in
    and_then (decodeActionData (relay_js g)) with_signature = Inr evaluation \<and> execute_args evaluation = Inr args \<and>
    execute_values args = Some (shs, salt', sg) \<and> pc_execute demo_callees shs salt' sg s = Inr s' \<and>
    traverse chain_distribution (resolveDistributions (privateConfig c) 1000) = Some ps \<and>
    held demo_callees 4 s' = paid_out 9 ps (held demo_callees 4 s)"
proof -
  obtain c sb shs cm where c: "compile demo_zod demo_viem (ir_js demo_ir) demo_salt = Inr c" "hex_value demo_salt = Some sb"
    "length sb = 32" "deployed_from demo_viem c demo_callees (demo_evm cm Triggered)"
    "recipients (privateConfig c) = [demo_share CHR ''1'' 6000, demo_share CHR ''2'' 4000]"
    using demo_armed [OF demo_facts(1,2) demo_actions(2,1) demo_rs] by auto
  let ?s = "demo_evm cm Triggered"
  have th: "this demo_callees = 9" "p_triggeredAt (storage ?s) = 1200" "p_asset (storage ?s) = 4" "p_status (storage ?s) = Triggered"
    by (simp_all add: demo_callees_def demo_evm_def)
  have ready: "ready_to_pay demo_viem c demo_callees ?s"
    using c(4) demo_nonzero [folded c(5)] th by (simp add: ready_to_pay_def demo_balance)
  have n: "valid_private demo_noble (replicate 32 1)" "valid_private demo_noble (replicate 32 2)" "length (replicate 16 (9 :: 8 word)) = IV_LEN"
    "normalizeTeePublicKey demo_noble (HexStr (toHex (4 # replicate 64 2))) = Inr (getPublicKey demo_noble (replicate 32 2))"
    by (simp_all add: normalizeTeePublicKey_def demo_noble_def flip: replicate_add)
  obtain ct where ct: "eciesEncrypt demo_noble (replicate 32 1) (replicate 16 9) (HexStr (toHex (4 # replicate 64 2)))
      (utf8_bytes (plaintext c)) = Inr (toHex ct)"
    using decrypt_encrypted [OF demo_noble_documented n] by blast
  have at: "isAttested demo_callees (p_attestorGate (storage ?s)) 3 (others ?s)"
    by (simp add: isAttested_def demo_callees_def STATUS_PRODUCTION_def)
  have msg: "decodeStore demo_libs (9 # ct) = Inr (this demo_callees, ct)" "ChainID demo_libs = uint (114 :: 256 word)"
    "decodeEvaluate demo_libs (9 # be_bytes 32 1200) = Inr (this demo_callees, Some (uint (p_triggeredAt (storage ?s))))"
    by (simp_all add: demo_libs_def th be_nat_be_bytes del: be_bytes.simps)
  let ?df1 = "\<lparr> df_OPType = [], df_OPCommand = [], df_OriginalMessage = 9 # ct \<rparr>"
    and ?df2 = "\<lparr> df_OPType = [], df_OPCommand = [], df_OriginalMessage = 9 # be_bytes 32 1200 \<rparr>"
  define g where "g = fst (processEvaluate demo_libs demo_action ?df2 (snd (processStore demo_libs demo_action ?df1 new_machine)))"
  have rel: "relayed g (relay_js g)" by (auto simp: relayed_def relay_js_def)
  from sealed_policy_pays [OF demo_zod_documented demo_viem_documented demo_facts(2) c(1-3) ready demo_noble_documented n ct
        demo_libs_documented(1,2,3) msg(2) _ at, of ?df1 ?df2 "[]" demo_action demo_action new_machine "relay_js g"] msg(1,3) rel
  obtain evaluation args shs' salt' sg s' ps where
    r: "and_then (decodeActionData (relay_js g)) with_signature = Inr evaluation" "execute_args evaluation = Inr args"
      "execute_values args = Some (shs', salt', sg)" "pc_execute demo_callees shs' salt' sg ?s = Inr s'"
      "traverse chain_distribution (resolveDistributions (privateConfig c) 1000) = Some ps"
      "held demo_callees 4 s' = paid_out 9 ps (held demo_callees 4 ?s)"
    by (auto simp: g_def run_machine_def th demo_balance)
  show ?thesis
    unfolding Let_def by (rule exI [of _ ct], rule exI [of _ ?s], rule exI [of _ c]) (use r in \<open>force simp: g_def\<close>)
qed

end
