(* ===== verification/FdcTrigger.thy ===== *)
theory FdcTrigger
  imports Triggers Codecs
begin

text \<open>
  FdcNonexistenceTrigger (packages/contracts/src/triggers/FdcNonexistenceTrigger.sol)
  and the attestation it reads (interfaces/IReferencedPaymentNonexistence.sol): the
  decoding of the proof's calldata, the checks in their order, and the deadlines of a
  schedule, with the arithmetic of \<open>uint64\<close> checked as Solidity checks it.
\<close>

section \<open>The attestation\<close>

record nx_request =
  minimalBlockNumber :: "64 word"
  deadlineBlockNumber :: "64 word"
  deadlineTimestamp :: "64 word"
  destinationAddressHash :: bytes
  nx_amount :: "256 word"
  standardPaymentReference :: bytes
  checkSourceAddresses :: bool
  sourceAddressesRoot :: bytes

record nx_body =
  minimalBlockTimestamp :: "64 word"
  firstOverflowBlockNumber :: "64 word"
  firstOverflowBlockTimestamp :: "64 word"

record nx_response =
  attestationType :: bytes
  nx_sourceId :: bytes
  votingRound :: "64 word"
  lowestUsedTimestamp :: "64 word"
  requestBody :: nx_request
  responseBody :: nx_body

record nx_proof =
  merkleProof :: "bytes list"
  nx_data :: nx_response

text \<open>Reading calldata: a word at an offset, and the values it must hold.\<close>

definition slot :: "bytes \<Rightarrow> nat \<Rightarrow> bytes option" where
  "slot bs off = (if off + 32 \<le> length bs then Some (take 32 (drop off bs)) else None)"

definition u256_at :: "bytes \<Rightarrow> nat \<Rightarrow> 256 word option" where
  "u256_at bs off = map_option (\<lambda>b. of_nat (be_nat b)) (slot bs off)"

definition u64_at :: "bytes \<Rightarrow> nat \<Rightarrow> 64 word option" where
  "u64_at bs off = (case slot bs off of None \<Rightarrow> None
     | Some b \<Rightarrow> if be_nat b < 2 ^ 64 then Some (of_nat (be_nat b)) else None)"

definition bool_at :: "bytes \<Rightarrow> nat \<Rightarrow> bool option" where
  "bool_at bs off = (case slot bs off of None \<Rightarrow> None
     | Some b \<Rightarrow> if be_nat b = 0 then Some False else if be_nat b = 1 then Some True else None)"

definition decode_request :: "bytes \<Rightarrow> nat \<Rightarrow> nx_request option" where
  "decode_request bs o' =
     (case (u64_at bs o', u64_at bs (o' + 32), u64_at bs (o' + 64), slot bs (o' + 96), u256_at bs (o' + 128),
            slot bs (o' + 160), bool_at bs (o' + 192), slot bs (o' + 224)) of
        (Some mb, Some db, Some dt, Some dest, Some am, Some ref, Some cs, Some rt) \<Rightarrow>
          Some \<lparr> minimalBlockNumber = mb, deadlineBlockNumber = db, deadlineTimestamp = dt,
                 destinationAddressHash = dest, nx_amount = am, standardPaymentReference = ref,
                 checkSourceAddresses = cs, sourceAddressesRoot = rt \<rparr>
      | _ \<Rightarrow> None)"

definition decode_body :: "bytes \<Rightarrow> nat \<Rightarrow> nx_body option" where
  "decode_body bs o' =
     (case (u64_at bs o', u64_at bs (o' + 32), u64_at bs (o' + 64)) of
        (Some mt, Some fb, Some ft) \<Rightarrow>
          Some \<lparr> minimalBlockTimestamp = mt, firstOverflowBlockNumber = fb, firstOverflowBlockTimestamp = ft \<rparr>
      | _ \<Rightarrow> None)"

definition decode_response :: "bytes \<Rightarrow> nat \<Rightarrow> nx_response option" where
  "decode_response bs o' =
     (case (slot bs o', slot bs (o' + 32), u64_at bs (o' + 64), u64_at bs (o' + 96),
            decode_request bs (o' + 128), decode_body bs (o' + 384)) of
        (Some ty, Some src, Some vr, Some lt, Some req, Some body) \<Rightarrow>
          Some \<lparr> attestationType = ty, nx_sourceId = src, votingRound = vr, lowestUsedTimestamp = lt,
                 requestBody = req, responseBody = body \<rparr>
      | _ \<Rightarrow> None)"

definition decode_hashes :: "bytes \<Rightarrow> nat \<Rightarrow> bytes list option" where
  "decode_hashes bs o' =
     (case u64_at bs o' of None \<Rightarrow> None
      | Some n \<Rightarrow> traverse (\<lambda>i. slot bs (o' + 32 + 32 * i)) [0..<unat n])"

text \<open>\<open>abi.decode(proof, (Proof))\<close>: the offset of the struct, then its offset of the hashes and its data.\<close>

definition decode_proof :: "bytes \<Rightarrow> nx_proof option" where
  "decode_proof bs =
     (case u64_at bs 0 of None \<Rightarrow> None
      | Some base \<Rightarrow>
          (case (u64_at bs (unat base), decode_response bs (unat base + 32)) of
             (Some m, Some d) \<Rightarrow>
               map_option (\<lambda>hs. \<lparr> merkleProof = hs, nx_data = d \<rparr>) (decode_hashes bs (unat base + unat m))
           | _ \<Rightarrow> None))"

section \<open>FdcNonexistenceTrigger\<close>

definition ATTESTATION_TYPE :: bytes where
  "ATTESTATION_TYPE = be_bytes 32 0x5265666572656e6365645061796d656e744e6f6e6578697374656e6365000000"

record fdc_config =
  fc_owner :: addr
  fc_sourceId :: bytes
  fc_destinationAddressHash :: bytes
  fc_paymentReference :: bytes
  fc_minimumAmount :: "256 word"
  fc_interval :: "64 word"
  fc_start :: "64 word"

type_synonym fdc_configs = "addr \<Rightarrow> fdc_config"

definition no_fdc :: fdc_configs where
  "no_fdc p = \<lparr> fc_owner = 0, fc_sourceId = replicate 32 0, fc_destinationAddressHash = replicate 32 0,
     fc_paymentReference = replicate 32 0, fc_minimumAmount = 0, fc_interval = 0, fc_start = 0 \<rparr>"

definition fdc_configure :: "addr \<Rightarrow> fdc_config \<Rightarrow> fdc_configs \<Rightarrow> trigger_error + fdc_configs" where
  "fdc_configure policy config configs =
     (if fc_owner (configs policy) \<noteq> 0 then Inl AlreadyConfigured
      else if fc_interval config = 0 then Inl IntervalTooShort
      else Inr (configs(policy := config)))"

text \<open>The checks after Flare has vouched for the proof.\<close>

definition fdc_checks :: "fdc_config \<Rightarrow> 256 word \<Rightarrow> nx_response \<Rightarrow> trigger_error + bool" where
  "fdc_checks cfg now d =
     (let req = requestBody d; deadline = deadlineTimestamp req in
      if attestationType d \<noteq> ATTESTATION_TYPE then Inl (WrongAttestationType (attestationType d))
      else if nx_sourceId d \<noteq> fc_sourceId cfg then Inl (WrongSourceId (nx_sourceId d))
      else if standardPaymentReference req \<noteq> fc_paymentReference cfg
        then Inl (WrongPaymentReference (standardPaymentReference req))
      else if destinationAddressHash req \<noteq> fc_destinationAddressHash cfg
        then Inl (WrongDestination (destinationAddressHash req))
      else if nx_amount req < fc_minimumAmount cfg then Inl (AmountTooLow (nx_amount req) (fc_minimumAmount cfg))
      else if checkSourceAddresses req then Inl SourceAddressFilterNotAllowed
      else if now < (ucast deadline :: 256 word) then Inl (DeadlineNotReached deadline)
      else if deadline \<le> fc_start cfg \<or> (deadline - fc_start cfg) mod fc_interval cfg \<noteq> 0
        then Inl (DeadlineNotOnBoundary deadline)
      else and_then (checked_sub Panic deadline (fc_interval cfg)) (\<lambda>windowStart.
        if windowStart < minimalBlockTimestamp (responseBody d)
        then Inl (WindowDoesNotCoverInterval (minimalBlockTimestamp (responseBody d)) windowStart)
        else Inr True))"

definition fdc_check :: "(nx_proof \<Rightarrow> bool option) \<Rightarrow> fdc_configs \<Rightarrow> addr \<Rightarrow> 256 word \<Rightarrow> bytes \<Rightarrow> trigger_error + bool" where
  "fdc_check verify configs policy now pf =
     (let cfg = configs policy in
      if fc_owner cfg = 0 then Inl NotConfigured
      else case decode_proof pf of
        None \<Rightarrow> Inl Undecodable
      | Some p \<Rightarrow>
          (case verify p of
             None \<Rightarrow> Inl Bubbled
           | Some ok \<Rightarrow> if \<not> ok then Inl ProofNotVerified else fdc_checks cfg now (nx_data p)))"

definition fdc_kind :: string where
  "fdc_kind = ''fdc-nonexistence''"

definition currentDeadline :: "fdc_configs \<Rightarrow> addr \<Rightarrow> 256 word \<Rightarrow> trigger_error + 64 word" where
  "currentDeadline configs policy now =
     (let cfg = configs policy in
      if fc_owner cfg = 0 then Inl NotConfigured
      else if now \<le> (ucast (fc_start cfg) :: 256 word) then checked_add Panic (fc_start cfg) (fc_interval cfg)
      else and_then (checked_sub Panic (uint64 now) (fc_start cfg)) (\<lambda>elapsed.
           and_then (checked_add Panic (elapsed div fc_interval cfg) 1) (\<lambda>n.
           and_then (checked_mul Panic n (fc_interval cfg)) (\<lambda>ahead.
           checked_add Panic (fc_start cfg) ahead))))"

text \<open>\<open>keccak256(abi.encodePacked(tag, policy))\<close>.\<close>

definition contract_reference :: "viem \<Rightarrow> addr \<Rightarrow> bytes" where
  "contract_reference V policy = keccak256 V (utf8_bytes ''flare-studio.policy-reference.v1'' @ address_bytes policy)"

inductive fdc_step :: "fdc_configs \<Rightarrow> fdc_configs \<Rightarrow> bool" where
  fdc_configured: "fdc_configure policy config s = Inr s' \<Longrightarrow> fdc_step s s'"

definition fdc_fixed :: "fdc_configs \<Rightarrow> addr \<Rightarrow> fdc_config option" where
  "fdc_fixed s p = (if fc_owner (s p) = 0 then None else Some (s p))"

inductive_simps fdc_step_iff: "fdc_step s s'"

interpretation fdct: write_once fdc_fixed fdc_step "fdc_check verify"
  by unfold_locales (auto simp: fdc_step_iff fdc_configure_def fdc_fixed_def fdc_check_def split: if_splits)

section \<open>The calldata of a proof\<close>

definition request_vals :: "nx_request \<Rightarrow> abi_val list" where
  "request_vals r = [VUint (ucast (minimalBlockNumber r)), VUint (ucast (deadlineBlockNumber r)),
     VUint (ucast (deadlineTimestamp r)), VBytes32 (destinationAddressHash r), VUint (nx_amount r),
     VBytes32 (standardPaymentReference r), VBool (checkSourceAddresses r), VBytes32 (sourceAddressesRoot r)]"

definition body_vals :: "nx_body \<Rightarrow> abi_val list" where
  "body_vals b = [VUint (ucast (minimalBlockTimestamp b)), VUint (ucast (firstOverflowBlockNumber b)),
     VUint (ucast (firstOverflowBlockTimestamp b))]"

definition response_val :: "nx_response \<Rightarrow> abi_val" where
  "response_val d = VTuple [VBytes32 (attestationType d), VBytes32 (nx_sourceId d), VUint (ucast (votingRound d)),
     VUint (ucast (lowestUsedTimestamp d)), VTuple (request_vals (requestBody d)), VTuple (body_vals (responseBody d))]"

definition proof_val :: "nx_proof \<Rightarrow> abi_val" where
  "proof_val p = VTuple [VArray (map VBytes32 (merkleProof p)), response_val (nx_data p)]"

definition wf_proof :: "nx_proof \<Rightarrow> bool" where
  "wf_proof p \<longleftrightarrow> length (merkleProof p) < 2 ^ 64 \<and> list_all (\<lambda>h. length h = 32) (merkleProof p) \<and>
     (let d = nx_data p; r = requestBody d in
      length (attestationType d) = 32 \<and> length (nx_sourceId d) = 32 \<and> length (destinationAddressHash r) = 32 \<and>
      length (standardPaymentReference r) = 32 \<and> length (sourceAddressesRoot r) = 32)"

definition response_words :: "nx_response \<Rightarrow> bytes list" where
  "response_words d = map abi_enc ([VBytes32 (attestationType d), VBytes32 (nx_sourceId d), VUint (ucast (votingRound d)),
     VUint (ucast (lowestUsedTimestamp d))] @ request_vals (requestBody d) @ body_vals (responseBody d))"

definition proof_words :: "nx_proof \<Rightarrow> bytes list" where
  "proof_words p = [be_bytes 32 32, be_bytes 32 512] @ response_words (nx_data p) @
     [be_bytes 32 (length (merkleProof p))] @ merkleProof p"

lemma slot_at:
  assumes "\<forall>w \<in> set ws. length w = 32" "off mod 32 = 0" "off div 32 < length ws"
  shows "slot (concat ws) off = Some (ws ! (off div 32))"
proof -
  have len: "length (concat vs) = 32 * length vs" if "\<forall>w \<in> set vs. length w = 32" for vs :: "bytes list"
    using that by (induction vs) auto
  let ?i = "off div 32"
  have off: "off = 32 * ?i" using assms(2) by auto
  have split: "ws = take ?i ws @ ws ! ?i # drop (Suc ?i) ws" using assms(3) by (rule id_take_nth_drop)
  have w: "length (ws ! ?i) = 32" using assms(1,3) by simp
  have pre: "length (concat (take ?i ws)) = off"
    using len [of "take ?i ws"] assms(1,3) off by (auto dest: in_set_takeD)
  have "concat ws = concat (take ?i ws) @ ws ! ?i @ concat (drop (Suc ?i) ws)"
    by (subst split) simp
  then have "drop off (concat ws) = ws ! ?i @ concat (drop (Suc ?i) ws)"
    using pre by simp
  moreover have "off + 32 \<le> length (concat ws)" using len [OF assms(1)] off assms(3) by linarith
  ultimately show ?thesis using w by (simp add: slot_def)
qed

lemma plain_heads [simp]: "abi_heads off (map (Pair False) hs) = concat hs"
  by (induction hs) auto

lemma response_enc: "abi_enc (response_val d) = concat (response_words d)" "\<not> abi_dynamic (response_val d)"
  by (simp_all add: response_val_def response_words_def request_vals_def body_vals_def abi_seq_def)

lemma response_words_length: "wf_proof p \<Longrightarrow> \<forall>w \<in> set (response_words (nx_data p)). length w = 32"
  by (auto simp: wf_proof_def Let_def response_words_def request_vals_def body_vals_def)

lemma proof_enc:
  assumes "wf_proof p"
  shows "abi_encode [proof_val p] = concat (proof_words p)"
proof -
  have len: "length (abi_enc (response_val (nx_data p))) = 480"
    using response_words_length [OF assms]
    by (simp add: response_enc response_words_def request_vals_def body_vals_def)
  then show ?thesis
    by (simp add: abi_encode_def proof_val_def abi_seq_def heads_length_def response_enc proof_words_def comp_def filter_map
        del: be_bytes.simps)
qed

text \<open>A word of the calldata reads back as the value it encodes.\<close>

lemma u64_word:
  assumes "slot bs off = Some (u256_bytes (ucast (w :: 64 word)))"
  shows "u64_at bs off = Some w"
proof -
  have "unat w < 2 ^ 64" using unsigned_less [of w, where 'a = nat] by simp
  moreover from this have "be_nat (u256_bytes (ucast w)) = unat w"
    by (simp add: u256_bytes_def up_unat be_nat_be_bytes del: be_bytes.simps)
  ultimately show ?thesis using assms by (simp add: u64_at_def)
qed

lemma u64_count:
  assumes "slot bs off = Some (be_bytes 32 n)" "n < 2 ^ 64"
  shows "u64_at bs off = Some (of_nat n)"
proof -
  have "be_nat (be_bytes 32 n) = n" using assms(2) by (intro be_nat_be_bytes) simp
  with assms show ?thesis by (simp add: u64_at_def del: be_bytes.simps)
qed

lemma u256_word: "slot bs off = Some (u256_bytes w) \<Longrightarrow> u256_at bs off = Some w"
proof -
  have "unat w < 2 ^ 256" using unsigned_less [of w, where 'a = nat] by simp
  then have "be_nat (u256_bytes w) = unat w" by (simp add: u256_bytes_def be_nat_be_bytes del: be_bytes.simps)
  then show "slot bs off = Some (u256_bytes w) \<Longrightarrow> u256_at bs off = Some w" by (simp add: u256_at_def)
qed

lemma bool_word: "slot bs off = Some (u256_bytes (if b then 1 else 0)) \<Longrightarrow> bool_at bs off = Some b"
proof -
  have "be_nat (u256_bytes (if b then 1 else 0)) = (if b then 1 else 0)"
    by (simp add: u256_bytes_def be_nat_be_bytes del: be_bytes.simps)
  then show "slot bs off = Some (u256_bytes (if b then 1 else 0)) \<Longrightarrow> bool_at bs off = Some b"
    by (simp add: bool_at_def)
qed

lemma decode_response_words:
  assumes "\<And>i. i < 15 \<Longrightarrow> slot bs (o' + 32 * i) = Some (response_words d ! i)"
  shows "decode_response bs o' = Some d"
proof -
  note w = assms [of 0] assms [of 1] assms [of 2] assms [of 3] assms [of 4] assms [of 5] assms [of 6] assms [of 7]
    assms [of 8] assms [of 9] assms [of 10] assms [of 11] assms [of 12] assms [of 13] assms [of 14]
  note w' = w [unfolded response_words_def request_vals_def body_vals_def, simplified]
  have "decode_request bs (o' + 128) = Some (requestBody d)"
    using w'(5-12) by (simp add: decode_request_def u64_word u256_word bool_word add.commute [of o' "numeral _"])
  moreover have "decode_body bs (o' + 384) = Some (responseBody d)"
    using w'(13-15) by (simp add: decode_body_def u64_word add.commute [of o' "numeral _"])
  ultimately show ?thesis using w'(1-4) by (simp add: decode_response_def u64_word)
qed

lemma proof_words_length:
  assumes "wf_proof p"
  shows "\<forall>w \<in> set (proof_words p). length w = 32"
proof
  fix w assume "w \<in> set (proof_words p)"
  then consider "w = be_bytes 32 32" | "w = be_bytes 32 512" | "w \<in> set (response_words (nx_data p))" |
      "w = be_bytes 32 (length (merkleProof p))" | "w \<in> set (merkleProof p)"
    unfolding proof_words_def set_append list.set by blast
  then show "length w = 32"
  proof cases
    case 3
    then show ?thesis using response_words_length [OF assms] by blast
  next
    case 5
    then show ?thesis using assms unfolding wf_proof_def list_all_iff by blast
  qed (simp_all only: length_be_bytes)
qed

lemma response_words_15: "length (response_words d) = 15"
  by (simp add: response_words_def request_vals_def body_vals_def)

lemma proof_slot:
  assumes "wf_proof p" "i < 18 + length (merkleProof p)"
  shows "slot (abi_encode [proof_val p]) (32 * i) = Some (proof_words p ! i)"
  unfolding proof_enc [OF assms(1)]
  using slot_at [OF proof_words_length [OF assms(1)], of "32 * i"] assms(2)
  by (simp add: proof_words_def response_words_15)

text \<open>A proof reads back from its ABI encoding, whatever the number of its hashes.\<close>

lemma decode_encoded:
  assumes "wf_proof p"
  shows "decode_proof (abi_encode [proof_val p]) = Some p"
proof -
  let ?bs = "abi_encode [proof_val p]" and ?n = "length (merkleProof p)"
  note w = proof_slot [OF assms]
  have n: "?n < 2 ^ 64" using assms by (simp add: wf_proof_def)
  have nth: "proof_words p ! 0 = be_bytes 32 32" "proof_words p ! 1 = be_bytes 32 512" "proof_words p ! 17 = be_bytes 32 ?n"
    "i < 15 \<Longrightarrow> proof_words p ! (2 + i) = response_words (nx_data p) ! i"
    "j < ?n \<Longrightarrow> proof_words p ! (18 + j) = merkleProof p ! j" for i j
    by (simp_all add: proof_words_def nth_append response_words_15 del: be_bytes.simps)
  have base: "u64_at ?bs 0 = Some 32" "u64_at ?bs 32 = Some 512"
    using w [of 0] w [of 1] by (simp_all add: nth nth(2) [simplified] u64_count del: be_bytes.simps)
  have d: "decode_response ?bs 64 = Some (nx_data p)"
  proof (rule decode_response_words)
    show "slot ?bs (64 + 32 * i) = Some (response_words (nx_data p) ! i)" if "i < 15" for i
      using w [of "2 + i"] nth(4) [OF that] that by (simp add: distrib_left)
  qed
  have "u64_at ?bs 544 = Some (of_nat ?n)"
    using w [of 17] n by (simp add: nth u64_count del: be_bytes.simps)
  moreover have "traverse (\<lambda>i. slot ?bs (544 + 32 + 32 * i)) [0..<?n] = Some (map (\<lambda>i. merkleProof p ! i) [0..<?n])"
    using w [of "18 + _"] nth(5) by (intro traverse_map [where g = id, simplified]) (simp add: distrib_left)
  moreover have "unat (of_nat ?n :: 64 word) = ?n" using n by (simp add: unat_of_nat)
  ultimately have "decode_hashes ?bs 544 = Some (merkleProof p)"
    by (simp add: decode_hashes_def map_nth)
  with base d show ?thesis by (simp add: decode_proof_def)
qed

interpretation proof_codec: codec "\<lambda>p. abi_encode [proof_val p]" decode_proof wf_proof
  by unfold_locales (rule decode_encoded)

section \<open>What a proof must say\<close>

text \<open>
  The \<open>n\<close>-th deadline is \<open>n\<close> intervals after the start. A response entitles a policy to
  fire when it attests, for the policy's own reference, destination and source, that
  no payment of an amount the policy asks for came from anyone in the interval before a
  deadline that has passed.
\<close>

definition deadline_of :: "fdc_config \<Rightarrow> nat \<Rightarrow> nat" where
  "deadline_of cfg n = unat (fc_start cfg) + n * unat (fc_interval cfg)"

definition entitles :: "fdc_config \<Rightarrow> 256 word \<Rightarrow> nx_response \<Rightarrow> bool" where
  "entitles cfg now d \<longleftrightarrow>
     attestationType d = ATTESTATION_TYPE \<and> nx_sourceId d = fc_sourceId cfg \<and>
     standardPaymentReference (requestBody d) = fc_paymentReference cfg \<and>
     destinationAddressHash (requestBody d) = fc_destinationAddressHash cfg \<and>
     fc_minimumAmount cfg \<le> nx_amount (requestBody d) \<and> \<not> checkSourceAddresses (requestBody d) \<and>
     (\<exists>n. unat (deadlineTimestamp (requestBody d)) = deadline_of cfg (Suc n) \<and>
        deadline_of cfg (Suc n) \<le> unat now \<and>
        unat (minimalBlockTimestamp (responseBody d)) \<le> deadline_of cfg n)"

lemma boundary_iff:
  fixes d st iv :: "64 word"
  assumes "iv \<noteq> 0"
  shows "\<not> (d \<le> st \<or> (d - st) mod iv \<noteq> 0) \<longleftrightarrow> (\<exists>n. unat d = unat st + Suc n * unat iv)"
proof -
  have pos: "0 < unat iv" using assms by (simp add: unat_gt_0)
  show ?thesis
  proof
    assume b: "\<not> (d \<le> st \<or> (d - st) mod iv \<noteq> 0)"
    then have less: "unat st < unat d" by (simp add: word_less_nat_alt not_le)
    then have "unat (d - st) = unat d - unat st" using b by (simp add: unat_sub word_le_nat_alt)
    moreover have "unat (d - st) mod unat iv = 0" using b by (simp flip: unat_mod)
    ultimately obtain k where k: "unat d - unat st = unat iv * k" by (auto simp: mod_eq_0_iff_dvd)
    with less have "k \<noteq> 0" by (intro notI) simp
    with k less show "\<exists>n. unat d = unat st + Suc n * unat iv"
      by (intro exI [of _ "k - 1"]) (simp add: mult.commute)
  next
    assume "\<exists>n. unat d = unat st + Suc n * unat iv"
    then obtain n where n: "unat d = unat st + Suc n * unat iv" by blast
    then have less: "st < d" using pos by (simp add: word_less_nat_alt)
    then have "unat (d - st) = Suc n * unat iv" using n by (simp add: unat_sub)
    then have "unat ((d - st) mod iv) = 0" by (simp add: unat_mod)
    with less show "\<not> (d \<le> st \<or> (d - st) mod iv \<noteq> 0)" by (simp add: unat_eq_0 not_le)
  qed
qed

lemma fdc_checks_iff:
  assumes "fc_interval cfg \<noteq> 0"
  shows "fdc_checks cfg now d = Inr b \<longleftrightarrow> b \<and> entitles cfg now d"
proof -
  let ?dl = "deadlineTimestamp (requestBody d)" and ?iv = "fc_interval cfg" and ?st = "fc_start cfg"
  let ?mb = "minimalBlockTimestamp (responseBody d)"
  have past: "now < (ucast ?dl :: 256 word) \<longleftrightarrow> unat now < unat ?dl" by (simp add: word_less_nat_alt up_unat)
  have window: "(\<exists>w. checked_sub Panic ?dl ?iv = Inr w \<and> ?mb \<le> w) \<longleftrightarrow> unat ?mb \<le> unat ?st + n * unat ?iv"
    if "unat ?dl = unat ?st + Suc n * unat ?iv" for n
  proof -
    have le: "?iv \<le> ?dl" using that by (simp add: word_le_nat_alt)
    then have "unat (?dl - ?iv) = unat ?st + n * unat ?iv" using that by (simp add: unat_sub)
    with le show ?thesis by (simp add: checked_sub_def word_le_nat_alt)
  qed
  have late: "(\<not> (?dl \<le> ?st \<or> (?dl - ?st) mod ?iv \<noteq> 0) \<and> \<not> unat now < unat ?dl \<and>
      (\<exists>w. checked_sub Panic ?dl ?iv = Inr w \<and> ?mb \<le> w)) \<longleftrightarrow>
    (\<exists>n. unat ?dl = deadline_of cfg (Suc n) \<and> deadline_of cfg (Suc n) \<le> unat now \<and> unat ?mb \<le> deadline_of cfg n)"
    unfolding boundary_iff [OF assms] deadline_of_def using window by (metis not_less)
  show ?thesis
    unfolding entitles_def fdc_checks_def Let_def past late [symmetric]
    by (auto simp: and_then_Inr_iff not_less split: if_splits)
qed

text \<open>What the trigger answers is the only entitlement there is.\<close>

lemma fdc_check_iff:
  assumes "fdc_fixed s policy = Some cfg" "fc_interval cfg \<noteq> 0"
  shows "fdc_check verify s policy now pf = Inr b \<longleftrightarrow>
    b \<and> (\<exists>p. decode_proof pf = Some p \<and> verify p = Some True \<and> entitles cfg now (nx_data p))"
proof -
  have c: "s policy = cfg" "fc_owner cfg \<noteq> 0" using assms(1) by (auto simp: fdc_fixed_def split: if_splits)
  show ?thesis
    using c(2) fdc_checks_iff [OF assms(2)]
    by (auto simp: fdc_check_def c(1) split: option.splits if_splits)
qed

section \<open>Deadlines\<close>

lemma currentDeadline_next:
  assumes "currentDeadline s policy now = Inr d" "unat now < 2 ^ 64" "fc_interval (s policy) \<noteq> 0"
  shows "\<exists>n. unat d = deadline_of (s policy) (Suc n) \<and> unat now < unat d \<and> (deadline_of (s policy) n \<le> unat now \<or> n = 0)"
proof -
  let ?st = "fc_start (s policy)" and ?iv = "fc_interval (s policy)"
  have pos: "0 < unat ?iv" using assms(3) by (simp add: unat_gt_0)
  show ?thesis
  proof (cases "unat now \<le> unat ?st")
    case True
    then have "now \<le> (ucast ?st :: 256 word)" by (simp add: word_le_nat_alt up_unat)
    then have "unat d = unat ?st + unat ?iv"
      using assms(1) checked_add_unat by (auto simp: currentDeadline_def Let_def split: if_splits)
    with True pos show ?thesis by (intro exI [of _ 0]) (simp add: deadline_of_def)
  next
    case False
    then have nle: "\<not> now \<le> (ucast ?st :: 256 word)" by (simp add: word_le_nat_alt up_unat)
    obtain el n ah where e: "checked_sub Panic (uint64 now) ?st = Inr el" "checked_add Panic (el div ?iv) 1 = Inr n"
      "checked_mul Panic n ?iv = Inr ah" "checked_add Panic ?st ah = Inr d"
      using assms(1) nle by (auto simp: currentDeadline_def Let_def and_then_Inr_iff split: if_splits)
    define k where "k = (unat now - unat ?st) div unat ?iv"
    have "unat n = k + 1"
      using checked_add_unat [OF e(2)] checked_sub_unat [OF e(1)] uint64_unat [OF assms(2)] by (simp add: unat_div k_def)
    then have d: "unat d = unat ?st + Suc k * unat ?iv"
      using checked_mul_unat [OF e(3)] checked_add_unat [OF e(4)] by simp
    have "unat now - unat ?st < Suc k * unat ?iv" "k * unat ?iv \<le> unat now - unat ?st"
      using dividend_less_div_times [OF pos, of "unat now - unat ?st"] by (simp_all add: k_def add.commute)
    with d False show ?thesis by (intro exI [of _ k]) (simp add: deadline_of_def, linarith)
  qed
qed

section \<open>Properties\<close>

definition demo_fdc :: fdc_config where
  "demo_fdc = \<lparr> fc_owner = 5, fc_sourceId = replicate 32 1, fc_destinationAddressHash = replicate 32 2,
     fc_paymentReference = replicate 32 3, fc_minimumAmount = 100000, fc_interval = 100, fc_start = 1000 \<rparr>"

definition demo_absence :: nx_proof where
  "demo_absence = \<lparr> merkleProof = [replicate 32 9], nx_data = \<lparr> attestationType = ATTESTATION_TYPE,
     nx_sourceId = replicate 32 1, votingRound = 1, lowestUsedTimestamp = 1100,
     requestBody = \<lparr> minimalBlockNumber = 1, deadlineBlockNumber = 100, deadlineTimestamp = 1200,
       destinationAddressHash = replicate 32 2, nx_amount = 100000, standardPaymentReference = replicate 32 3,
       checkSourceAddresses = False, sourceAddressesRoot = replicate 32 0 \<rparr>,
     responseBody = \<lparr> minimalBlockTimestamp = 1100, firstOverflowBlockNumber = 101, firstOverflowBlockTimestamp = 1201 \<rparr> \<rparr> \<rparr>"

lemma demo_absence_wf: "wf_proof demo_absence"
  by (simp add: wf_proof_def demo_absence_def ATTESTATION_TYPE_def Let_def del: be_bytes.simps)

lemma demo_absence_entitles: "entitles demo_fdc 1200 (nx_data demo_absence)"
  by (auto simp: entitles_def demo_fdc_def demo_absence_def deadline_of_def intro!: exI [of _ 1])

text \<open>C7: A payment trigger fires for a policy only on a proof Flare has verified that no payment of the
  policy's own reference, destination and minimum came, from anyone, over a whole interval that ended
  at a deadline already passed; it fires on every such proof; and no later call changes which.\<close>

theorem absence_is_the_only_way:
  assumes "fdc_configure policy cfg s = Inr s1" "fc_owner cfg \<noteq> 0" "fdc_step\<^sup>*\<^sup>* s1 s2"
  shows "fdc_check verify s2 policy now pf = Inr b \<longleftrightarrow>
    b \<and> (\<exists>p. decode_proof pf = Some p \<and> verify p = Some True \<and> entitles cfg now (nx_data p))"
proof -
  have "fdc_fixed s1 policy = Some cfg" "fc_interval cfg \<noteq> 0"
    using assms(1,2) by (auto simp: fdc_configure_def fdc_fixed_def split: if_splits)
  then show ?thesis using fdct.steps_keep [OF assms(3)] fdc_check_iff by blast
qed

theorem absence_is_the_only_way_witness:
  "\<exists>s. fdc_configure 7 demo_fdc no_fdc = Inr s \<and>
     fdc_check (\<lambda>p. Some True) s 7 1200 (abi_encode [proof_val demo_absence]) = Inr True \<and>
     fdc_check (\<lambda>p. Some True) s 7 1200 (abi_encode [proof_val demo_absence]) \<noteq> Inr False"
proof -
  obtain s where s: "fdc_configure 7 demo_fdc no_fdc = Inr s"
    by (simp add: fdc_configure_def no_fdc_def demo_fdc_def)
  have "fc_owner demo_fdc \<noteq> 0" by (simp add: demo_fdc_def)
  note iff = absence_is_the_only_way [OF s this rtranclp.rtrancl_refl, of "\<lambda>p. Some True" 1200 "abi_encode [proof_val demo_absence]"]
  show ?thesis
    using s iff [of True] iff [of False] demo_absence_entitles decode_encoded [OF demo_absence_wf] by auto
qed

section \<open>References\<close>

text \<open>The reference the browser shows is the one the contract computes.\<close>

lemma reference_agrees:
  assumes "viem_documented V" "is_address (keccak256 V) a" "address_value a = Some w"
  shows "policyReference V a = Inr (''0x'' @ bytes_hex (contract_reference V w))"
  using policyReference_Inr [OF assms] by (simp add: contract_reference_def POLICY_REFERENCE_TAG_def)

text \<open>
  \<open>configure\<close> does not ask for that reference: policies set up with the same
  configuration are fired by the same proof.
\<close>

lemma shared_configuration_shares_proofs:
  "s policy = s policy' \<Longrightarrow> fdc_check verify s policy now pf = fdc_check verify s policy' now pf"
  by (simp add: fdc_check_def)

end
