(* ===== verification/Vectors.thy ===== *)
theory Vectors
  imports Enclave FdcTrigger
begin

text \<open>
  The generators of the fixtures that the other languages' tests read
  (packages/policy/scripts: generate-vectors.ts, generate-ecies-vectors.ts,
  generate-policy-reference-vectors.ts), and what those tests rely on: that the commitment, the
  payment reference and a sealed payload are the same in the contracts and in the Go
  machine. The indentation of the files is left out.
\<close>

section \<open>The generators\<close>

definition repeated :: "nat \<Rightarrow> string \<Rightarrow> string" where
  "repeated n s = concat (replicate n s)"

record commitment_case =
  case_name :: string
  case_distributions :: "(string \<times> string) list"
  case_salt :: string

definition same_hex :: "string \<Rightarrow> nat \<Rightarrow> string" where
  "same_hex s n = ''0x'' @ repeated n s"

definition commitment_cases :: "commitment_case list" where
  "commitment_cases =
     [\<lparr> case_name = ''single-recipient'', case_distributions = [(same_hex ''11'' 20, ''10000'')], case_salt = same_hex ''11'' 32 \<rparr>,
      \<lparr> case_name = ''two-recipients-uneven'',
         case_distributions = [(same_hex ''11'' 20, ''6000''), (same_hex ''22'' 20, ''4000'')], case_salt = same_hex ''ab'' 32 \<rparr>,
      \<lparr> case_name = ''many-recipients'',
         case_distributions = [(same_hex ''11'' 20, ''2500''), (same_hex ''22'' 20, ''2500''),
           (same_hex ''33'' 20, ''2500''), (same_hex ''44'' 20, ''2500'')], case_salt = same_hex ''cd'' 32 \<rparr>,
      \<lparr> case_name = ''zero-salt'', case_distributions = [(same_hex ''11'' 20, ''10000'')], case_salt = same_hex ''00'' 32 \<rparr>,
      \<lparr> case_name = ''max-address-and-share'', case_distributions = [(same_hex ''ff'' 20, ''10000'')], case_salt = same_hex ''ff'' 32 \<rparr>]"

text \<open>\<open>BigInt(d.amount)\<close>, whose texts are all digits.\<close>

definition case_distribution :: "string \<times> string \<Rightarrow> distribution" where
  "case_distribution d = \<lparr> recipient = fst d, amount = int (dec_val (snd d)) \<rparr>"

definition commitment_vector :: "viem \<Rightarrow> commitment_case \<Rightarrow> js_error + commitment_case \<times> string" where
  "commitment_vector V c =
     and_then (computeCommitment V (map case_distribution (case_distributions c)) (case_salt c)) (\<lambda>x. Inr (c, x))"

fun all_or_error :: "('a \<Rightarrow> 'e + 'b) \<Rightarrow> 'a list \<Rightarrow> 'e + 'b list" where
  "all_or_error f [] = Inr []"
| "all_or_error f (x # xs) = and_then (f x) (\<lambda>y. and_then (all_or_error f xs) (\<lambda>ys. Inr (y # ys)))"

definition commitment_vectors :: "viem \<Rightarrow> js_error + (commitment_case \<times> string) list" where
  "commitment_vectors V = all_or_error (commitment_vector V) commitment_cases"

text \<open>The payloads that are sealed, with the key of each.\<close>

definition test_key :: "string \<Rightarrow> string" where
  "test_key k = (if k = ''primary'' then ''0xfad9c8855b740a0b7ed4c221dbad0f33a83a49cad6b3fe8d5817ac83d38b6a19''
     else ''0x4c0883a69102937d6231471b5dbb6204fe5129617082792ae468d01a3f362318'')"

definition payload_js :: "string \<Rightarrow> (string \<times> int) list \<Rightarrow> jsv" where
  "payload_js s shs = JObj [(''salt'', JStr s), (''shares'', JArr (map (\<lambda>(r, b).
     JObj [(''recipient'', JStr r), (''shareBps'', JNum (of_int b))]) shs))]"

definition payload_text_of :: "string \<Rightarrow> (string \<times> int) list \<Rightarrow> string" where
  "payload_text_of s shs = (case json_text (payload_js s shs) of None \<Rightarrow> [] | Some t \<Rightarrow> t)"

text \<open>\<open>String(i + 1).padStart(2, '0')\<close>.\<close>

definition two_digits :: "nat \<Rightarrow> string" where
  "two_digits n = pad_start 2 CHR ''0'' (nat_str n)"

definition long_shares :: "(string \<times> int) list" where
  "long_shares = map (\<lambda>i. (same_hex (two_digits (i + 1)) 20, if i = 19 then 10000 - 19 * 500 else 500)) [0..<20]"

definition PAYLOADS :: "(string \<times> string \<times> string) list" where
  "PAYLOADS =
     [(''single-share'', ''primary'', payload_text_of (same_hex ''11'' 32) [(same_hex ''11'' 20, 10000)]),
      (''two-shares'', ''primary'', payload_text_of (same_hex ''ab'' 32) [(same_hex ''11'' 20, 6000), (same_hex ''22'' 20, 4000)]),
      (''other-key'', ''secondary'', payload_text_of (same_hex ''00'' 32) [(same_hex ''33'' 20, 10000)]),
      (''long-payload'', ''primary'', payload_text_of (same_hex ''cd'' 32) long_shares)]"

record ecies_vector =
  vec_name :: string
  vec_privateKey :: string
  vec_plaintext :: string
  vec_ciphertext :: string

text \<open>Each call of \<open>eciesEncrypt\<close> draws an ephemeral key and an IV.\<close>

definition ecies_vector_of :: "noble \<Rightarrow> (bytes \<times> bytes) \<times> string \<times> string \<times> string \<Rightarrow> js_error + ecies_vector" where
  "ecies_vector_of N x =
     (case x of ((eph, iv), name, key, msg) \<Rightarrow>
        let privateKey = test_key key;
            publicKey = getPublicKey N (toBytes (HexStr (drop 2 privateKey)))
        in and_then (eciesEncrypt N eph iv (Raw publicKey) (utf8_bytes msg)) (\<lambda>c.
           Inr \<lparr> vec_name = name, vec_privateKey = privateKey, vec_plaintext = msg, vec_ciphertext = c \<rparr>))"

definition ecies_vectors :: "noble \<Rightarrow> (bytes \<times> bytes) list \<Rightarrow> js_error + ecies_vector list" where
  "ecies_vectors N draws = all_or_error (ecies_vector_of N) (zip draws PAYLOADS)"

definition POLICIES :: "string list" where
  "POLICIES = [same_hex ''00'' 20, ''0x0000000000000000000000000000000000000001'', ''0x3c9d71Cd1D500C22eD34dcE94687Cb1ef585b815'',
     ''0x121B80EBe51Ea8A8f352fA5Cfe70c080c9E2F854'', same_hex ''ff'' 20]"

definition reference_vectors :: "viem \<Rightarrow> js_error + string \<times> (string \<times> string) list" where
  "reference_vectors V =
     and_then (all_or_error (\<lambda>p. and_then (policyReference V p) (\<lambda>r. Inr (p, r))) POLICIES) (\<lambda>cs. Inr (POLICY_REFERENCE_TAG, cs))"

section \<open>The same commitment in three languages\<close>

text \<open>C14: The commitment that TypeScript computes is the one that the Go machine computes and that
  the contract compares with: for every list of distributions the chain can hold and every
  salt of 32 bytes.\<close>

theorem commitments_agree:
  assumes "viem_documented V" "\<forall>d \<in> set ds. is_address (keccak256 V) (recipient d)"
    and "traverse chain_distribution ds = Some (map share_pair shs)" "hex_value slt = Some sb" "length sb = 32"
    and "length shs < 2 ^ 256"
  shows "computeCommitment V ds slt = Inr (''0x'' @ bytes_hex (go_computeCommitment (keccak256 V) shs sb)) \<and>
    go_computeCommitment (keccak256 V) shs sb = keccak256 V (abi_encode [VArray (map share_val shs), VBytes32 sb])"
  using computeCommitment_Inr [OF assms(1-5)] go_commitment_agrees [OF assms(5,6), of "keccak256 V"]
  by (simp add: share_preimage_eq [symmetric] share_preimage_def)

text \<open>Every sealed vector opens with the private key beside it.\<close>

lemma raw_key: "noble_documented N \<Longrightarrow> valid_private N k \<Longrightarrow>
    normalizeTeePublicKey N (Raw (getPublicKey N k)) = Inr (getPublicKey N k)"
  by (simp add: normalizeTeePublicKey_def noble_documented_def)

definition good_draw :: "noble \<Rightarrow> bytes \<times> bytes \<Rightarrow> bool" where
  "good_draw N d = (valid_private N (fst d) \<and> length (snd d) = IV_LEN)"

definition test_key_bytes :: "string \<Rightarrow> bytes" where
  "test_key_bytes k = toBytes (HexStr (test_key k))"

lemma ecies_vector_opens:
  assumes "noble_documented N" "good_draw N d" "valid_private N (test_key_bytes key)"
  shows "\<exists>v. ecies_vector_of N (d, name, key, msg) = Inr v \<and>
    eciesDecrypt N (HexStr (vec_privateKey v)) (HexStr (vec_ciphertext v)) = Inr (utf8_bytes (vec_plaintext v))"
proof -
  have k: "toBytes (HexStr (drop 2 (test_key key))) = test_key_bytes key"
    by (simp add: test_key_bytes_def test_key_def toBytes_def starts_with_iff)
  obtain data where "eciesEncrypt N (fst d) (snd d) (Raw (getPublicKey N (test_key_bytes key))) (utf8_bytes msg) = Inr (toHex data)"
    "eciesDecrypt N (Raw (test_key_bytes key)) (Raw data) = Inr (utf8_bytes msg)"
    using decrypt_encrypted [OF assms(1) _ assms(3) _ raw_key [OF assms(1,3)]] assms(2) unfolding good_draw_def by blast
  moreover have "eciesDecrypt N (HexStr (test_key key)) (HexStr (toHex data)) = eciesDecrypt N (Raw (test_key_bytes key)) (Raw data)"
    by (simp add: eciesDecrypt_def test_key_bytes_def)
  ultimately show ?thesis by (cases d) (simp add: ecies_vector_of_def k Let_def)
qed

lemma all_or_error_all: "(\<And>x. x \<in> set xs \<Longrightarrow> \<exists>y. f x = Inr y \<and> P x y) \<Longrightarrow>
    \<exists>ys. all_or_error f xs = Inr ys \<and> list_all2 P xs ys"
proof (induction xs)
  case (Cons x xs)
  obtain y where "f x = Inr y" "P x y" using Cons.prems [of x] by auto
  moreover obtain ys where "all_or_error f xs = Inr ys" "list_all2 P xs ys" using Cons.IH Cons.prems by auto
  ultimately show ?case by simp
qed simp

text \<open>What the browser's code sealed opens in every implementation of the machine's: whatever is drawn,
  each of the four vectors written for the Go tests decrypts, with the private key written beside
  it, to the plaintext written beside it.\<close>

theorem ecies_vectors_open:
  assumes "noble_documented N" "length draws = 4" "list_all (good_draw N) draws"
    and "valid_private N (test_key_bytes ''primary'')" "valid_private N (test_key_bytes ''secondary'')"
  shows "\<exists>vs. ecies_vectors N draws = Inr vs \<and> length vs = 4 \<and>
    list_all (\<lambda>v. eciesDecrypt N (HexStr (vec_privateKey v)) (HexStr (vec_ciphertext v)) = Inr (utf8_bytes (vec_plaintext v))) vs"
proof -
  let ?P = "\<lambda>x v. eciesDecrypt N (HexStr (vec_privateKey v)) (HexStr (vec_ciphertext v)) = Inr (utf8_bytes (vec_plaintext v))"
  have "\<exists>v. ecies_vector_of N x = Inr v \<and> ?P x v" if "x \<in> set (zip draws PAYLOADS)" for x
  proof -
    obtain d name key msg where x: "x = (d, name, key, msg)" by (cases x)
    from that have d: "d \<in> set draws" "(name, key, msg) \<in> set PAYLOADS"
      unfolding x by (rule set_zip_leftD, rule set_zip_rightD)
    then have "key = ''primary'' \<or> key = ''secondary''" by (auto simp: PAYLOADS_def)
    with x d assms show ?thesis using ecies_vector_opens [OF assms(1), of d key name msg] by (auto simp: list_all_iff)
  qed
  then obtain vs where "all_or_error (ecies_vector_of N) (zip draws PAYLOADS) = Inr vs" "list_all2 ?P (zip draws PAYLOADS) vs"
    using all_or_error_all [of "zip draws PAYLOADS" "ecies_vector_of N" ?P] by blast
  moreover have "length PAYLOADS = 4" by (simp add: PAYLOADS_def)
  ultimately show ?thesis
    using assms(2) by (auto simp: ecies_vectors_def list_all2_conv_all_nth list_all_length)
qed

lemma ecies_vectors_open_witness:
  "\<exists>vs. ecies_vectors demo_noble (replicate 4 (replicate 32 1, replicate 16 9)) = Inr vs \<and> length vs = 4 \<and>
    list_all (\<lambda>v. eciesDecrypt demo_noble (HexStr (vec_privateKey v)) (HexStr (vec_ciphertext v)) =
      Inr (utf8_bytes (vec_plaintext v))) vs"
proof (rule ecies_vectors_open [OF demo_noble_documented])
  have "length (test_key_bytes ''primary'') = 32" "length (test_key_bytes ''secondary'') = 32" by code_simp+
  then show "valid_private demo_noble (test_key_bytes ''primary'')" "valid_private demo_noble (test_key_bytes ''secondary'')"
    by (simp_all add: demo_noble_def)
qed (simp_all add: good_draw_def demo_noble_def list_all_length)

text \<open>The commitment vectors are what the Go machine computes for the shares they list.\<close>

definition case_share :: "string \<times> string \<Rightarrow> sol_share" where
  "case_share d = \<lparr> sh_recipient = (case address_value (fst d) of None \<Rightarrow> 0 | Some w \<Rightarrow> w), sh_shareBps = of_nat (dec_val (snd d)) \<rparr>"

definition case_ok :: "commitment_case \<Rightarrow> bool" where
  "case_ok c \<longleftrightarrow> list_all (\<lambda>d. re_address (fst d) \<and> lower_case (fst d) = fst d \<and> dec_val (snd d) < 65536) (case_distributions c) \<and>
     length (case_salt c) = 66 \<and> starts_with ''0x'' (case_salt c) \<and> list_all is_hex (drop 2 (case_salt c))"

lemma case_ok_salt: "case_ok c \<Longrightarrow> \<exists>sb. hex_value (case_salt c) = Some sb \<and> length sb = 32"
proof -
  assume ok: "case_ok c"
  then obtain sb where "hex_bytes (drop 2 (case_salt c)) = Some sb"
    using hex_bytes_Some_iff [of "drop 2 (case_salt c)"] by (auto simp: case_ok_def)
  with ok length_hex_bytes [OF this] show ?thesis by (auto simp: hex_value_def case_ok_def)
qed

lemma repeated_all: "list_all P s \<Longrightarrow> list_all P (repeated n s)"
  by (induction n) (simp_all add: repeated_def)

definition two_hex :: "string \<Rightarrow> bool" where
  "two_hex s \<longleftrightarrow> list_all is_hex s \<and> length s = 2 \<and> lower_case s = s"

lemma same_hex_ok:
  assumes "two_hex s"
  shows "re_address (same_hex s 20)" "lower_case (same_hex s n) = same_hex s n" "length (same_hex s 32) = 66"
    "starts_with ''0x'' (same_hex s n)" "list_all is_hex (drop 2 (same_hex s n))"
proof -
  have s: "list_all is_hex s" "length s = 2" "lower_case s = s" using assms by (simp_all add: two_hex_def)
  have len: "length (repeated k s) = 2 * k" for k by (induction k) (simp_all add: repeated_def s(2))
  have low: "lower_case (repeated k s) = repeated k s" for k
    using s(3) by (induction k) (simp_all add: repeated_def)
  have zx: "lower_case ''0x'' = ''0x''" by code_simp
  show "lower_case (same_hex s n) = same_hex s n"
    using low [of n] zx by (simp add: same_hex_def)
  show "re_address (same_hex s 20)" "length (same_hex s 32) = 66"
    "starts_with ''0x'' (same_hex s n)" "list_all is_hex (drop 2 (same_hex s n))"
    using repeated_all [OF s(1)] len by (simp_all add: same_hex_def re_address_def starts_with_iff)
qed

lemma test_digits:
  "two_hex ''11''" "two_hex ''22''" "two_hex ''33''" "two_hex ''44''" "two_hex ''ab''" "two_hex ''cd''" "two_hex ''00''" "two_hex ''ff''"
  by code_simp+

lemma test_amounts: "dec_val ''10000'' < 65536" "dec_val ''6000'' < 65536" "dec_val ''4000'' < 65536" "dec_val ''2500'' < 65536"
  by (simp_all add: dec_val_def dec_step_def digit_val_def)

lemma cases_ok: "list_all case_ok commitment_cases"
  by (simp add: commitment_cases_def case_ok_def same_hex_ok test_digits test_amounts)

lemma case_share_pair:
  "re_address (fst d) \<Longrightarrow> dec_val (snd d) < 65536 \<Longrightarrow> chain_distribution (case_distribution d) = Some (share_pair (case_share d))"
  using re_address_value [of "fst d"]
  by (auto simp: chain_distribution_def case_distribution_def share_pair_def case_share_def unsigned_of_nat take_bit_nat_eq_self
      word_unat_eq_iff unsigned_ucast_eq)

lemma commitment_vectors_agree:
  assumes "viem_documented V"
  shows "\<exists>vs. commitment_vectors V = Inr vs \<and> list_all2 (\<lambda>c v. fst v = c \<and>
    (\<exists>sb. hex_value (case_salt c) = Some sb \<and>
       snd v = ''0x'' @ bytes_hex (go_computeCommitment (keccak256 V) (map case_share (case_distributions c)) sb))) commitment_cases vs"
  unfolding commitment_vectors_def
proof (rule all_or_error_all)
  fix c assume "c \<in> set commitment_cases"
  with cases_ok have ok: "case_ok c" "length (case_distributions c) < 2 ^ 256" by (auto simp: list_all_iff commitment_cases_def)
  then obtain sb where sb: "hex_value (case_salt c) = Some sb" "length sb = 32" using case_ok_salt by blast
  have a: "\<forall>d \<in> set (map case_distribution (case_distributions c)). is_address (keccak256 V) (recipient d)"
    using ok(1) by (auto simp: case_ok_def list_all_iff is_address_def case_distribution_def)
  have t: "traverse chain_distribution (map case_distribution (case_distributions c)) =
      Some (map share_pair (map case_share (case_distributions c)))"
    using ok(1) traverse_map [of "case_distributions c" chain_distribution case_distribution "\<lambda>d. share_pair (case_share d)"]
    by (auto simp: case_ok_def list_all_iff case_share_pair o_def)
  from computeCommitment_Inr [OF assms a t sb] go_commitment_agrees [OF sb(2), of "map case_share (case_distributions c)"] ok(2) sb(1)
  show "\<exists>y. commitment_vector V c = Inr y \<and> fst y = c \<and> (\<exists>sb. hex_value (case_salt c) = Some sb \<and>
      snd y = ''0x'' @ bytes_hex (go_computeCommitment (keccak256 V) (map case_share (case_distributions c)) sb))"
    by (simp add: commitment_vector_def share_preimage_eq)
qed

text \<open>The references are those of the contract, for addresses that viem accepts.\<close>

lemma reference_vectors_agree:
  assumes "viem_documented V" "reference_vectors V = Inr (tag, cs)" "(p, r) \<in> set cs" "is_address (keccak256 V) p" "address_value p = Some w"
  shows "r = ''0x'' @ bytes_hex (contract_reference V w)"
proof -
  have "all_or_error (\<lambda>p. and_then (policyReference V p) (\<lambda>r. Inr (p, r))) ps = Inr qs \<Longrightarrow> (p, r) \<in> set qs \<Longrightarrow>
      policyReference V p = Inr r" for ps qs
    by (induction ps arbitrary: qs) (auto simp: and_then_Inr_iff)
  with assms(2,3) have "policyReference V p = Inr r" by (auto simp: reference_vectors_def and_then_Inr_iff)
  with reference_agrees [OF assms(1,4,5)] show ?thesis by simp
qed

lemma commitments_agree_witness:
  "\<exists>sb. hex_value (case_salt (commitment_cases ! 1)) = Some sb \<and>
     computeCommitment demo_viem (map case_distribution [(same_hex ''11'' 20, ''6000''), (same_hex ''22'' 20, ''4000'')]) (same_hex ''ab'' 32) =
     Inr (''0x'' @ bytes_hex (go_computeCommitment (keccak256 demo_viem)
       [case_share (same_hex ''11'' 20, ''6000''), case_share (same_hex ''22'' 20, ''4000'')] sb))"
proof -
  have ok: "case_ok (commitment_cases ! 1)" by (simp add: cases_ok list_all_iff [THEN iffD1, OF cases_ok] commitment_cases_def)
  obtain sb where sb: "hex_value (same_hex ''ab'' 32) = Some sb" "length sb = 32"
    using case_ok_salt [OF ok] by (auto simp: commitment_cases_def)
  let ?ds = "[(same_hex ''11'' 20, ''6000''), (same_hex ''22'' 20, ''4000'')]"
  have "\<forall>d \<in> set (map case_distribution ?ds). is_address (keccak256 demo_viem) (recipient d)"
    by (simp add: case_distribution_def is_address_def same_hex_ok test_digits)
  moreover have "traverse chain_distribution (map case_distribution ?ds) = Some (map share_pair (map case_share ?ds))"
    by (simp add: case_share_pair same_hex_ok test_digits test_amounts)
  ultimately have "computeCommitment demo_viem (map case_distribution ?ds) (same_hex ''ab'' 32) =
      Inr (''0x'' @ bytes_hex (go_computeCommitment (keccak256 demo_viem) (map case_share ?ds) sb))"
    using commitments_agree [OF demo_viem_documented _ _ sb] by simp
  with sb(1) show ?thesis by (simp add: commitment_cases_def)
qed

end
