(* ===== verification/DialogChecks.thy ===== *)
theory DialogChecks
  imports DeployDialog
begin

text \<open>
  The two checks of the deploy dialog as they interleave (apps/web/components/deploy-dialog.tsx):
  each is an effect on the wallet's account and chain, whose answer arrives when it does, and
  is dropped when the effect has been cleaned up since, by another account or chain or by
  closing the dialog. The machine's steps are what can happen next; a history keeps which read
  was answered with what. What is shown: once the last read is answered, the balance is that of the
  connected account, and an enabled Deploy asks for no more of it; until then the balance of the
  account before is the one that counts.
\<close>

section \<open>The machine\<close>

text \<open>The effects run together, so a run's number tells its read and its probe; \<open>x_live\<close> is the run
  that has not been cancelled.\<close>

record dialog_checks =
  x_dialog :: deploy_dialog
  x_wallet :: wallet_state
  x_open :: bool
  x_runs :: nat
  x_live :: "nat option"
  x_balances :: "(nat \<times> jsv) list"
  x_probes :: "nat list"

definition checkable :: "wallet_state \<Rightarrow> bool" where
  "checkable w = (truthy (w_account w) \<and> onCoston2 w)"

definition same_deps :: "wallet_state \<Rightarrow> wallet_state \<Rightarrow> bool" where
  "same_deps w w' = (w_account w = w_account w' \<and> onCoston2 w = onCoston2 w')"

definition run_effects :: "wallet_state \<Rightarrow> dialog_checks \<Rightarrow> dialog_checks" where
  "run_effects w s =
     (let n = Suc (x_runs s); s' = s\<lparr> x_wallet := w, x_runs := n, x_live := None \<rparr> in
      if checkable w
      then s'\<lparr> x_live := Some n, x_balances := x_balances s @ [(n, w_account w)], x_probes := x_probes s @ [n] \<rparr>
      else s')"

definition opened :: "wallet_state \<Rightarrow> dialog_checks" where
  "opened w = run_effects w
     \<lparr> x_dialog = initial_dialog, x_wallet = w, x_open = True, x_runs = 0, x_live = None, x_balances = [], x_probes = [] \<rparr>"

definition held_of :: "thrown + jsv \<Rightarrow> int option" where
  "held_of r = (case r of Inr (JBig b) \<Rightarrow> Some b | _ \<Rightarrow> None)"

datatype dialog_event =
    Wallet_is wallet_state
  | Types string
  | Balance_answers nat "thrown + jsv"
  | Probe_answers nat "thrown + bool \<times> string option"
  | Closes

fun check_step :: "dialog_event \<Rightarrow> dialog_checks \<Rightarrow> dialog_checks option" where
  "check_step (Wallet_is w) s =
     (if \<not> x_open s then None
      else if same_deps (x_wallet s) w then Some (s\<lparr> x_wallet := w \<rparr>)
      else Some (run_effects w s))"
| "check_step (Types a) s = (if x_open s then Some (s\<lparr> x_dialog := (x_dialog s)\<lparr> g_amount := a \<rparr> \<rparr>) else None)"
| "check_step (Balance_answers i r) s =
     (if i < length (x_balances s) then
        (let n = fst (x_balances s ! i); s' = s\<lparr> x_balances := without i (x_balances s) \<rparr> in
         Some (if x_live s = Some n then s'\<lparr> x_dialog := (x_dialog s)\<lparr> g_held := held_of r \<rparr> \<rparr> else s'))
      else None)"
| "check_step (Probe_answers i r) s =
     (if i < length (x_probes s) then
        (let n = x_probes s ! i; s' = s\<lparr> x_probes := without i (x_probes s) \<rparr> in
         Some (case r of
             Inr a \<Rightarrow> if x_live s = Some n then s'\<lparr> x_dialog := (x_dialog s)\<lparr> g_enclave := Some a \<rparr> \<rparr> else s'
           | Inl _ \<Rightarrow> s'))
      else None)"
| "check_step Closes s = (if x_open s then Some (s\<lparr> x_open := False, x_live := None \<rparr>) else None)"

text \<open>The reads answered so far: the run, the account and the answer.\<close>

type_synonym answers = "(nat \<times> jsv \<times> (thrown + jsv)) list"

fun answer_of :: "dialog_event \<Rightarrow> dialog_checks \<Rightarrow> answers" where
  "answer_of (Balance_answers i r) s = [(fst (x_balances s ! i), snd (x_balances s ! i), r)]"
| "answer_of _ s = []"

inductive checks_run :: "answers \<Rightarrow> dialog_checks \<Rightarrow> bool" where
  opens: "checks_run [] (opened w)"
| goes_on: "checks_run as s \<Longrightarrow> check_step e s = Some s' \<Longrightarrow> checks_run (as @ answer_of e s) s'"

section \<open>Lemmas\<close>

text \<open>What the machine does with one read alone is what \<open>read_held\<close> does.\<close>

lemma read_held_alone:
  assumes "checkable w"
    and "readContract (br_env B) (fxrp (ADDRESSES (br_process B))) ''balanceOf'' [w_account w] t = (r, t')"
  shows "\<exists>s'. check_step (Balance_answers 0 r) (opened w) = Some s' \<and>
    read_held B w (initial_dialog, t) = (Inr (), (x_dialog s', t'))"
  using assms
  by (auto simp: opened_def run_effects_def read_held_def checkable_def held_of_def without_def initial_dialog_def
      split: sum.split jsv.split)

lemma probe_alone:
  assumes "checkable w" "probeEnclaveKey B t = (r, t')"
  shows "\<exists>s'. check_step (Probe_answers 0 r) (opened w) = Some s' \<and>
    probe_enclave B w (initial_dialog, t) = (Inr (), (x_dialog s', t'))"
  using assms
  by (auto simp: opened_def run_effects_def probe_enclave_def checkable_def without_def split: sum.split)

text \<open>The last run is the live one while the dialog is open and connected; every waiting read of it
  is for the account on screen, and when none waits its answer is on screen.\<close>

definition live_ok :: "dialog_checks \<Rightarrow> bool" where
  "live_ok s \<longleftrightarrow> x_live s = (if x_open s \<and> checkable (x_wallet s) then Some (x_runs s) else None)"

definition waiting_ok :: "dialog_checks \<Rightarrow> bool" where
  "waiting_ok s \<longleftrightarrow> (\<forall>n a. (n, a) \<in> set (x_balances s) \<longrightarrow> n \<le> x_runs s \<and> (x_live s = Some n \<longrightarrow> a = w_account (x_wallet s)))"

definition settled_ok :: "answers \<Rightarrow> dialog_checks \<Rightarrow> bool" where
  "settled_ok as s \<longleftrightarrow> (x_live s \<noteq> None \<longrightarrow> x_runs s \<notin> fst ` set (x_balances s) \<longrightarrow>
     (\<exists>r. (x_runs s, w_account (x_wallet s), r) \<in> set as \<and> g_held (x_dialog s) = held_of r))"

definition checks_ok :: "answers \<Rightarrow> dialog_checks \<Rightarrow> bool" where
  "checks_ok as s \<longleftrightarrow> live_ok s \<and> waiting_ok s \<and> settled_ok as s"

lemma waitingD: "waiting_ok s \<Longrightarrow> (n, a) \<in> set (x_balances s) \<Longrightarrow> n \<le> x_runs s"
  by (auto simp: waiting_ok_def)

lemma effects_ok: "waiting_ok s \<Longrightarrow> x_open s \<Longrightarrow> checks_ok as (run_effects w s)"
proof -
  assume s: "waiting_ok s" "x_open s"
  have "\<And>n a. (n, a) \<in> set (x_balances s) \<Longrightarrow> n \<le> Suc (x_runs s) \<and> n \<noteq> Suc (x_runs s)"
    using waitingD [OF s(1)] by fastforce
  then have "waiting_ok (run_effects w s)" by (auto simp: waiting_ok_def run_effects_def Let_def)
  moreover have "live_ok (run_effects w s)" "settled_ok as (run_effects w s)"
    using s(2) by (simp_all add: live_ok_def settled_ok_def run_effects_def Let_def)
  ultimately show ?thesis by (simp add: checks_ok_def)
qed

lemma fewer_waiting:
  assumes "waiting_ok s"
  shows "waiting_ok (s\<lparr> x_balances := without i (x_balances s), x_dialog := g \<rparr>)"
  using assms set_without [of i "x_balances s"] by (auto simp: waiting_ok_def)

lemma still_waiting:
  assumes "x_runs s \<in> fst ` set (x_balances s)" "fst (x_balances s ! i) \<noteq> x_runs s"
  shows "x_runs s \<in> fst ` set (without i (x_balances s))"
proof -
  obtain b where "(x_runs s, b) \<in> set (x_balances s)" using assms(1) by auto
  then have "(x_runs s, b) \<in> set (without i (x_balances s))" using assms(2) by (intro in_without) (auto dest: sym)
  then show ?thesis by force
qed

lemma balance_ok:
  assumes "checks_ok as s" "check_step (Balance_answers i r) s = Some s'"
  shows "checks_ok (as @ answer_of (Balance_answers i r) s) s'"
proof -
  let ?g = "if x_live s = Some (fst (x_balances s ! i)) then (x_dialog s)\<lparr> g_held := held_of r \<rparr> else x_dialog s"
  have i: "i < length (x_balances s)" using assms(2) by (simp split: if_splits)
  obtain n a where na: "x_balances s ! i = (n, a)" by (rule prod.exhaust)
  then have mem: "(n, a) \<in> set (x_balances s)" using nth_mem [OF i] by simp
  have ok: "live_ok s" "waiting_ok s" "settled_ok as s" using assms(1) by (simp_all add: checks_ok_def)
  have s': "s' = s\<lparr> x_balances := without i (x_balances s), x_dialog := ?g \<rparr>"
    using assms(2) i by (auto simp: Let_def split: if_splits)
  have "settled_ok (as @ [(n, a, r)]) s'"
  proof (cases "x_live s = Some n")
    case True
    with ok(1,2) mem have "n = x_runs s" "a = w_account (x_wallet s)" by (auto simp: live_ok_def waiting_ok_def split: if_splits)
    with True na show ?thesis by (auto simp: s' settled_ok_def)
  next
    case False
    then have "x_live s \<noteq> None \<Longrightarrow> n \<noteq> x_runs s" using ok(1) by (auto simp: live_ok_def split: if_splits)
    with False na ok(3) still_waiting [of s i] show ?thesis unfolding s' settled_ok_def by auto
  qed
  moreover have "live_ok s'" using ok(1) by (simp add: s' live_ok_def)
  ultimately show ?thesis using fewer_waiting [OF ok(2)] by (simp add: checks_ok_def s' na)
qed

lemma checks_ok_frame:
  assumes "checks_ok as s" "x_live s' = x_live s" "x_open s' = x_open s" "x_runs s' = x_runs s" "x_balances s' = x_balances s"
    "same_deps (x_wallet s) (x_wallet s')" "g_held (x_dialog s') = g_held (x_dialog s)"
  shows "checks_ok as s'"
proof -
  have "w_account (x_wallet s') = w_account (x_wallet s)" "checkable (x_wallet s') = checkable (x_wallet s)"
    using assms(6) by (simp_all add: same_deps_def checkable_def)
  note same = this assms(2-5,7)
  show ?thesis using assms(1) unfolding checks_ok_def live_ok_def waiting_ok_def settled_ok_def same .
qed

lemma checks_run_ok: "checks_run as s \<Longrightarrow> checks_ok as s"
proof (induction rule: checks_run.induct)
  case (opens w)
  show ?case unfolding opened_def by (rule effects_ok) (simp_all add: waiting_ok_def)
next
  case (goes_on as s e s')
  show ?case
  proof (cases e)
    case (Wallet_is w)
    then have "x_open s" "s' = (if same_deps (x_wallet s) w then s\<lparr> x_wallet := w \<rparr> else run_effects w s)"
      using goes_on.hyps(2) by (simp_all split: if_splits)
    with Wallet_is effects_ok [of s as w] goes_on.IH checks_ok_frame [OF goes_on.IH, of s'] show ?thesis
      by (cases "same_deps (x_wallet s) w") (simp_all add: checks_ok_def)
  next
    case (Types a)
    with goes_on.hyps(2) checks_ok_frame [OF goes_on.IH, of s'] show ?thesis
      by (auto simp: same_deps_def split: if_splits)
  next
    case (Balance_answers i r)
    with goes_on balance_ok show ?thesis by blast
  next
    case (Probe_answers i r)
    with goes_on.hyps(2) checks_ok_frame [OF goes_on.IH, of s'] show ?thesis
      by (auto simp: same_deps_def Let_def split: if_splits sum.splits)
  next
    case Closes
    then have "s' = s\<lparr> x_open := False, x_live := None \<rparr>" using goes_on.hyps(2) by (simp split: if_splits)
    moreover have "waiting_ok s" using goes_on.IH by (simp add: checks_ok_def)
    ultimately show ?thesis using Closes
      by (auto simp: checks_ok_def live_ok_def waiting_ok_def settled_ok_def)
  qed
qed

lemma parsed_same: "g_amount g = g_amount g' \<Longrightarrow> parsed_amount PU compiled g = parsed_amount PU compiled g'"
  by (simp add: parsed_amount_def split: option.split)

text \<open>A run in which the first read is answered and then an amount is typed.\<close>

lemma typed_run:
  assumes "checkable w"
  shows "\<exists>s. checks_run [(1, w_account w, Inr (JBig b))] s \<and> x_wallet s = w \<and> x_open s \<and> x_runs s = 1 \<and> x_balances s = [] \<and>
    x_dialog s = initial_dialog\<lparr> g_amount := a, g_held := Some b \<rparr>"
proof -
  let ?s1 = "(opened w)\<lparr> x_balances := [], x_dialog := initial_dialog\<lparr> g_held := Some b \<rparr> \<rparr>"
  let ?s2 = "?s1\<lparr> x_dialog := initial_dialog\<lparr> g_amount := a, g_held := Some b \<rparr> \<rparr>"
  have o: "x_balances (opened w) = [(1, w_account w)]" "x_live (opened w) = Some 1" "x_dialog (opened w) = initial_dialog"
    "x_open (opened w)" "x_wallet (opened w) = w" "x_runs (opened w) = 1"
    using assms by (simp_all add: opened_def run_effects_def)
  have "check_step (Balance_answers 0 (Inr (JBig b))) (opened w) = Some ?s1" by (simp add: o without_def held_of_def)
  from goes_on [OF opens this] have run: "checks_run [(1, w_account w, Inr (JBig b))] ?s1" by (simp add: o)
  have "check_step (Types a) ?s1 = Some ?s2" by (simp add: o)
  from goes_on [OF run this] have "checks_run [(1, w_account w, Inr (JBig b))] ?s2" by simp
  then show ?thesis by (intro exI [of _ ?s2]) (simp add: o)
qed

section \<open>Properties\<close>

text \<open>C34: However wallet changes, typing and answers interleave: once the read for the account on
  screen is answered, the balance of an open, connected dialog is that answer's and no earlier
  account's, and an enabled Deploy then deposits at most what that account holds. An answer
  to a check that has been cleaned up changes nothing on screen.\<close>

theorem settled_balance_is_own:
  assumes "checks_run as s" "x_open s" "checkable (x_wallet s)"
  shows "(x_runs s \<notin> fst ` set (x_balances s) \<longrightarrow>
      (\<exists>r. (x_runs s, w_account (x_wallet s), r) \<in> set as \<and> g_held (x_dialog s) = held_of r \<and>
        (deploy_enabled P PU compiled (x_wallet s) (x_dialog s) \<longrightarrow>
          (\<exists>v. parsed_amount PU compiled (x_dialog s) = Some v \<and> 0 \<le> v \<and> (\<forall>b. r = Inr (JBig b) \<longrightarrow> v \<le> b))))) \<and>
    (\<forall>i r s'. check_step (Balance_answers i r) s = Some s' \<and> fst (x_balances s ! i) \<noteq> x_runs s \<longrightarrow> x_dialog s' = x_dialog s) \<and>
    (\<forall>i r s'. check_step (Probe_answers i r) s = Some s' \<and> x_probes s ! i \<noteq> x_runs s \<longrightarrow> x_dialog s' = x_dialog s)"
proof (intro conjI impI allI)
  have ok: "checks_ok as s" by (rule checks_run_ok [OF assms(1)])
  then have live: "x_live s = Some (x_runs s)" using assms(2,3) by (simp add: checks_ok_def live_ok_def)
  show "x_dialog s' = x_dialog s" if "check_step (Balance_answers i r) s = Some s' \<and> fst (x_balances s ! i) \<noteq> x_runs s" for i r s'
    using that live by (auto simp: Let_def split: if_splits)
  show "x_dialog s' = x_dialog s" if "check_step (Probe_answers i r) s = Some s' \<and> x_probes s ! i \<noteq> x_runs s" for i r s'
    using that live by (auto simp: Let_def split: if_splits sum.splits)
  assume "x_runs s \<notin> fst ` set (x_balances s)"
  then obtain r where r: "(x_runs s, w_account (x_wallet s), r) \<in> set as" "g_held (x_dialog s) = held_of r"
    using ok live by (auto simp: checks_ok_def settled_ok_def)
  moreover have "\<exists>v. parsed_amount PU compiled (x_dialog s) = Some v \<and> 0 \<le> v \<and> (\<forall>b. r = Inr (JBig b) \<longrightarrow> v \<le> b)"
    if "deploy_enabled P PU compiled (x_wallet s) (x_dialog s)"
    using enabled_amount [OF that] r(2) by (auto simp: held_of_def)
  ultimately show "\<exists>r. (x_runs s, w_account (x_wallet s), r) \<in> set as \<and> g_held (x_dialog s) = held_of r \<and>
      (deploy_enabled P PU compiled (x_wallet s) (x_dialog s) \<longrightarrow>
        (\<exists>v. parsed_amount PU compiled (x_dialog s) = Some v \<and> 0 \<le> v \<and> (\<forall>b. r = Inr (JBig b) \<longrightarrow> v \<le> b)))"
    by blast
qed

lemma settled_balance_is_own_witness:
  "\<exists>s. checks_run [(1, JStr ''0xme'', Inr (JBig 2000000))] s \<and> g_held (x_dialog s) = Some 2000000 \<and>
     deploy_enabled dialog_process demo_parseUnits demo_compiled demo_wallet (x_dialog s) \<and>
     parsed_amount demo_parseUnits demo_compiled (x_dialog s) = Some 1500000"
proof -
  have w: "checkable demo_wallet" by (simp add: checkable_def demo_wallet_def onCoston2_def coston2_id_def)
  have a: "w_account demo_wallet = JStr ''0xme''" by (simp add: demo_wallet_def)
  obtain s where s: "checks_run [(1, JStr ''0xme'', Inr (JBig 2000000))] s" "x_wallet s = demo_wallet" "x_open s"
    "x_balances s = []" "x_dialog s = initial_dialog\<lparr> g_amount := ''1.5'', g_held := Some 2000000 \<rparr>"
    using typed_run [OF w, of 2000000 "''1.5''"] by (auto simp: a)
  note own = settled_balance_is_own [OF s(1) s(3), of dialog_process demo_parseUnits demo_compiled]
  have "g_held (x_dialog s) = Some 2000000" using own w s by (auto simp: held_of_def)
  moreover have "parsed_amount demo_parseUnits demo_compiled (x_dialog s) = Some 1500000"
    using demo_parsed parsed_same [of "x_dialog s" "initial_dialog\<lparr> g_amount := ''1.5'' \<rparr>" demo_parseUnits demo_compiled]
    by (simp add: s(5))
  moreover from this have "deploy_enabled dialog_process demo_parseUnits demo_compiled demo_wallet (x_dialog s)"
    using demo_deploy_enabled
    by (simp add: deploy_enabled_def dialog_web_def s(5) amount_invalid_def over_balance_def initial_dialog_def)
  ultimately show ?thesis using s(1) by blast
qed

text \<open>C35: A wallet that changes to another account keeps the balance of the one before on screen until
  its own is read: with an amount typed that the former account could pay, Deploy is enabled
  for the new account whatever that holds; when its own, smaller balance arrives, Deploy is disabled.\<close>

theorem former_balance_counts:
  assumes "checkable w" "checkable w'" "w_account w' \<noteq> w_account w" "contractsConfigured P"
    and "dialog_decimals compiled = Some d" "dialog_parseAmount PU a d = Some v" "v \<le> b"
  shows "\<exists>s. checks_run [(1, w_account w, Inr (JBig b))] s \<and> x_open s \<and> x_wallet s = w' \<and>
    g_held (x_dialog s) = Some b \<and> parsed_amount PU compiled (x_dialog s) = Some v \<and>
    deploy_enabled P PU compiled w' (x_dialog s) \<and>
    (\<forall>b'. b' < v \<longrightarrow> (\<exists>s'. check_step (Balance_answers 0 (Inr (JBig b'))) s = Some s' \<and>
       \<not> deploy_enabled P PU compiled w' (x_dialog s')))"
proof -
  obtain s where s: "checks_run [(1, w_account w, Inr (JBig b))] s" "x_wallet s = w" "x_open s" "x_runs s = 1"
    "x_balances s = []" "x_dialog s = initial_dialog\<lparr> g_amount := a, g_held := Some b \<rparr>"
    using typed_run [OF assms(1), of b a] by blast
  let ?s = "run_effects w' s"
  have "check_step (Wallet_is w') s = Some ?s" using s(2,3) assms(3) by (simp add: same_deps_def)
  from goes_on [OF s(1) this] have run: "checks_run [(1, w_account w, Inr (JBig b))] ?s" by simp
  have e: "x_open ?s" "x_wallet ?s = w'" "x_dialog ?s = x_dialog s" "x_live ?s = Some 2" "x_balances ?s = [(2, w_account w')]"
    using assms(2) s by (simp_all add: run_effects_def Let_def)
  have p: "parsed_amount PU compiled (initial_dialog\<lparr> g_amount := a, g_held := h \<rparr>) = Some v" for h
    using assms(5,6) by (simp add: parsed_amount_def)
  have "deploy_enabled P PU compiled w' (x_dialog s)"
    using assms(2,4,5,7) p [of "Some b"]
    by (simp add: deploy_enabled_def s(6) amount_invalid_def over_balance_def checkable_def initial_dialog_def)
  moreover have "\<not> deploy_enabled P PU compiled w' ((x_dialog s)\<lparr> g_held := Some b' \<rparr>)" if "b' < v" for b'
    using p [of "Some b'"] that by (simp add: s(6) deploy_enabled_def over_balance_def)
  ultimately show ?thesis
    using run e p [of "Some b"] s(6) by (intro exI [of _ ?s]) (simp add: held_of_def Let_def)
qed

lemma former_balance_counts_witness:
  "\<exists>s. checks_run [(1, JStr ''0xme'', Inr (JBig 2000000))] s \<and> w_account (x_wallet s) = JStr ''0xother'' \<and>
     deploy_enabled dialog_process demo_parseUnits demo_compiled (x_wallet s) (x_dialog s)"
proof -
  let ?w' = "demo_wallet\<lparr> w_account := JStr ''0xother'' \<rparr>"
  have w: "checkable demo_wallet" "checkable ?w'" "w_account ?w' \<noteq> w_account demo_wallet" "w_account demo_wallet = JStr ''0xme''"
    by (simp_all add: checkable_def demo_wallet_def onCoston2_def coston2_id_def)
  have c: "contractsConfigured dialog_process" "dialog_decimals demo_compiled = Some 6" by code_simp+
  then have "dialog_parseAmount demo_parseUnits ''1.5'' 6 = Some 1500000"
    using demo_parsed by (simp add: parsed_amount_def initial_dialog_def)
  from former_balance_counts [OF w(1-3) c this, of 2000000] show ?thesis by (auto simp: w(4))
qed

end
