(* ===== verification/Dates.thy ===== *)
theory Dates
  imports JsString
begin

text \<open>
  What the program uses of JavaScript's \<open>Date\<close>: the calendar date of a time in UTC
  (\<open>toISOString().slice(0, 10)\<close>) and the time of the midnight that a date input names
  (\<open>new Date(`${date}T00:00:00Z`)\<close>), with the day, month and year as ECMAScript defines them.
\<close>

section \<open>Years\<close>

text \<open>\<open>DayFromYear\<close>: days from 1 January 1970 to the first day of a year.\<close>

definition day_from_year :: "int \<Rightarrow> int" where
  "day_from_year y = 365 * (y - 1970) + (y - 1969) div 4 - (y - 1901) div 100 + (y - 1601) div 400"

definition leap :: "int \<Rightarrow> bool" where
  "leap y = (y mod 4 = 0 \<and> (y mod 100 \<noteq> 0 \<or> y mod 400 = 0))"

lemma div_step:
  fixes x n :: int
  assumes "0 < n"
  shows "(x + 1) div n = x div n + (if (x + 1) mod n = 0 then 1 else 0)"
proof (cases "x mod n = n - 1")
  case True
  have "x + 1 = n * (x div n + 1)"
    using True mult_div_mod_eq [of n x] unfolding distrib_left by linarith
  with assms show ?thesis by simp
next
  case False
  with assms have r: "x mod n + 1 < n" "0 \<le> x mod n" using pos_mod_bound [of n x] pos_mod_sign [of n x] by linarith+
  have e: "x + 1 = n * (x div n) + (x mod n + 1)" using mult_div_mod_eq [of n x] by simp
  have "(x + 1) div n = x div n" by (rule int_div_pos_eq [OF e]) (use r in simp_all)
  moreover have "(x + 1) mod n = x mod n + 1" by (rule int_mod_pos_eq [OF e]) (use r in simp_all)
  ultimately show ?thesis using r by simp
qed

lemma next_year: "day_from_year (y + 1) = day_from_year y + (if leap y then 366 else 365)"
proof -
  have m: "(y - 1968) mod 4 = 0 \<longleftrightarrow> y mod 4 = 0" "(y - 1900) mod 100 = 0 \<longleftrightarrow> y mod 100 = 0" "(y - 1600) mod 400 = 0 \<longleftrightarrow> y mod 400 = 0"
    unfolding mod_eq_0_iff_dvd by (rule dvd_diff_left_iff; simp)+
  have i: "y mod 100 = 0 \<longrightarrow> y mod 4 = 0" "y mod 400 = 0 \<longrightarrow> y mod 100 = 0"
    unfolding mod_eq_0_iff_dvd using dvd_trans [of 4 100 y] dvd_trans [of 100 400 y] by auto
  show ?thesis
  proof -
    have e: "y - 1969 + 1 = y - 1968" "y - 1901 + 1 = y - 1900" "y - 1601 + 1 = y - 1600" "y + 1 - 1970 = y - 1970 + 1"
      "y + 1 - 1969 = y - 1968" "y + 1 - 1901 = y - 1900" "y + 1 - 1601 = y - 1600" by simp_all
    note s = div_step [of 4 "y - 1969", unfolded e m] div_step [of 100 "y - 1901", unfolded e m] div_step [of 400 "y - 1601", unfolded e m]
    define p q r where pqr: "p = (y mod 4 = 0)" "q = (y mod 100 = 0)" "r = (y mod 400 = 0)"
    show ?thesis
      unfolding day_from_year_def e leap_def s [OF zero_less_numeral] distrib_left pqr [symmetric]
      using i [folded pqr] by (cases p; cases q; cases r) simp_all
  qed
qed

lemma year_grows: "day_from_year y + 365 \<le> day_from_year (y + 1)"
  by (simp add: next_year)

text \<open>\<open>YearFromTime\<close>: the last year whose first day is not after the day. The search
  starts at a year that is not too late.\<close>

function year_search :: "int \<Rightarrow> int \<Rightarrow> int" where
  "year_search y d = (if day_from_year (y + 1) \<le> d then year_search (y + 1) d else y)"
  by pat_completeness auto
termination
  by (relation "measure (\<lambda>(y, d). nat (d - day_from_year y))") (auto simp: next_year split: if_splits)

declare year_search.simps [simp del]

definition first_guess :: "int \<Rightarrow> int" where
  "first_guess d = 1970 + (if 0 \<le> d then d div 366 else d div 365 - 7)"

definition year_from_day :: "int \<Rightarrow> int" where
  "year_from_day d = year_search (first_guess d) d"

lemma div_bounds: "0 < n \<Longrightarrow> n * (x div n) \<le> x \<and> x < n * (x div n) + n" for x n :: int
  using pos_mod_bound [of n x] pos_mod_sign [of n x] mult_div_mod_eq [of n x] by linarith

lemma day_from_1970: "day_from_year (1970 + k) = 365 * k + ((k + 1) div 4 - (k + 69) div 100 + (k + 369) div 400)"
  by (simp add: day_from_year_def add.commute)

lemma first_guess_early: "day_from_year (first_guess d) \<le> d"
proof (cases "0 \<le> d")
  case True
  define k where "k = d div 366"
  have k: "0 \<le> k" "366 * k \<le> d" using True div_bounds [of 366 d] by (auto simp: k_def pos_imp_zdiv_nonneg_iff)
  have "(k + 1) div 4 - (k + 69) div 100 + (k + 369) div 400 \<le> k"
  proof (cases "k < 2")
    case True
    with k have "k = 0 \<or> k = 1" by auto
    then show ?thesis by auto
  next
    case False
    with div_bounds [of 4 "k + 1", OF zero_less_numeral] div_bounds [of 100 "k + 69", OF zero_less_numeral]
    div_bounds [of 400 "k + 369", OF zero_less_numeral] show ?thesis by linarith
  qed
  with k have "day_from_year (1970 + k) \<le> d" unfolding day_from_1970 by linarith
  with True show ?thesis by (simp add: first_guess_def k_def)
next
  case False
  define k where "k = d div 365 - 7"
  have k: "k < -7" "365 * k + 2555 \<le> d"
    using False div_bounds [of 365 d] by (auto simp: k_def pos_imp_zdiv_neg_iff right_diff_distrib)
  define a b c where abc: "a = (k + 1) div 4" "b = (k + 69) div 100" "c = (k + 369) div 400"
  have f: "4 * a \<le> k + 1" "k + 69 < 100 * b + 100" "400 * c \<le> k + 369"
    using div_bounds [of 4 "k + 1", OF zero_less_numeral] div_bounds [of 100 "k + 69", OF zero_less_numeral]
      div_bounds [of 400 "k + 369", OF zero_less_numeral] unfolding abc by blast+
  with k have "day_from_year (1970 + k) \<le> d" unfolding day_from_1970 abc [symmetric] by linarith
  with False show ?thesis by (simp add: first_guess_def k_def)
qed

lemma year_search_ok: "day_from_year y \<le> d \<Longrightarrow>
    day_from_year (year_search y d) \<le> d \<and> d < day_from_year (year_search y d + 1)"
proof (induction y d rule: year_search.induct)
  case (1 y d)
  then show ?case by (subst (1 2) year_search.simps) auto
qed

lemma year_from_day: "day_from_year (year_from_day d) \<le> d" "d < day_from_year (year_from_day d + 1)"
  using year_search_ok [OF first_guess_early] by (simp_all add: year_from_day_def)

lemma day_from_year_mono: "y < z \<Longrightarrow> day_from_year y < day_from_year z"
proof (induction z rule: int_gr_induct [where k = y])
  case base
  show ?case using year_grows [of y] by linarith
next
  case (step i)
  with year_grows [of i] show ?case by linarith
qed

lemma year_unique: "day_from_year y \<le> d \<Longrightarrow> d < day_from_year (y + 1) \<Longrightarrow> year_from_day d = y"
  using year_from_day [of d] day_from_year_mono [of "year_from_day d + 1" y] day_from_year_mono [of "y + 1" "year_from_day d"]
  by (metis dual_order.strict_trans2 linorder_cases not_less_iff_gr_or_eq zless_add1_eq)

section \<open>Months and days\<close>

definition month_lengths :: "int \<Rightarrow> int list" where
  "month_lengths y = [31, if leap y then 29 else 28, 31, 30, 31, 30, 31, 31, 30, 31, 30, 31]"

text \<open>The month, from zero, and the day in it, from zero.\<close>

fun month_day :: "int list \<Rightarrow> int \<Rightarrow> nat \<times> int" where
  "month_day [] d = (0, d)"
| "month_day (l # ls) d = (if d < l then (0, d) else (case month_day ls (d - l) of (m, e) \<Rightarrow> (Suc m, e)))"

lemma month_day_ok:
  "0 \<le> d \<Longrightarrow> d < sum_list ls \<Longrightarrow> month_day ls d = (m, e) \<Longrightarrow>
   m < length ls \<and> 0 \<le> e \<and> e < ls ! m \<and> d = sum_list (take m ls) + e"
proof (induction ls arbitrary: d m)
  case (Cons l ls)
  show ?case
  proof (cases "d < l")
    case False
    obtain m' where m': "month_day ls (d - l) = (m', e)" "m = Suc m'"
      using Cons.prems(3) False by (auto split: prod.splits)
    with Cons.IH [of "d - l" m'] Cons.prems(1,2) False show ?thesis by auto
  qed (use Cons.prems in auto)
qed simp

lemma sum_months: "sum_list (month_lengths y) = (if leap y then 366 else 365)"
  by (simp add: month_lengths_def)

definition date_of_day :: "int \<Rightarrow> int \<times> nat \<times> int" where
  "date_of_day d = (let y = year_from_day d; (m, e) = month_day (month_lengths y) (d - day_from_year y) in (y, Suc m, e + 1))"

definition valid_date :: "int \<Rightarrow> nat \<Rightarrow> int \<Rightarrow> bool" where
  "valid_date y m dd = (1 \<le> m \<and> m \<le> 12 \<and> 1 \<le> dd \<and> dd \<le> month_lengths y ! (m - 1))"

definition day_of_date :: "int \<Rightarrow> nat \<Rightarrow> int \<Rightarrow> int" where
  "day_of_date y m dd = day_from_year y + sum_list (take (m - 1) (month_lengths y)) + (dd - 1)"

lemma date_of_day:
  assumes "date_of_day d = (y, m, dd)"
  shows "valid_date y m dd \<and> day_of_date y m dd = d \<and> y = year_from_day d"
proof -
  obtain k e where k: "month_day (month_lengths y) (d - day_from_year y) = (k, e)" "y = year_from_day d" "m = Suc k" "dd = e + 1"
    using assms by (auto simp: date_of_day_def Let_def split: prod.splits)
  have "0 \<le> d - day_from_year y" "d - day_from_year y < sum_list (month_lengths y)"
    using year_from_day [of d] by (auto simp: sum_months k(2) next_year split: if_splits)
  from month_day_ok [OF this k(1)] k show ?thesis by (auto simp: valid_date_def day_of_date_def month_lengths_def)
qed

lemma month_lengths_31: "m < 12 \<Longrightarrow> month_lengths y ! m \<le> 31"
  by (auto simp: month_lengths_def less_Suc_eq numeral_eq_Suc)

section \<open>Texts\<close>

definition two_digit_str :: "nat \<Rightarrow> string" where
  "two_digit_str n = pad_start 2 CHR ''0'' (nat_str n)"

definition iso_year :: "int \<Rightarrow> string" where
  "iso_year y =
     (if 0 \<le> y \<and> y \<le> 9999 then pad_start 4 CHR ''0'' (nat_str (nat y))
      else (if y < 0 then CHR ''-'' else CHR ''+'') # pad_start 6 CHR ''0'' (nat_str (nat \<bar>y\<bar>)))"

text \<open>\<open>toISOString().slice(0, 10)\<close> of a time on a day.\<close>

definition iso_date :: "int \<Rightarrow> string" where
  "iso_date d = (case date_of_day d of (y, m, dd) \<Rightarrow> take 10 (iso_year y @ ''-'' @ two_digit_str m @ ''-'' @ two_digit_str (nat dd)))"

text \<open>\<open>new Date(n * 1000)\<close>: an invalid time, on which \<open>toISOString\<close> throws, when \<open>n\<close> is not a
  number or beyond 100000000 days of 1970.\<close>

definition time_value :: "rat option \<Rightarrow> int option" where
  "time_value n =
     (case n of None \<Rightarrow> None
      | Some r \<Rightarrow> (let ms = (if 0 \<le> r then \<lfloor>r * 1000\<rfloor> else \<lceil>r * 1000\<rceil>) in if \<bar>ms\<bar> \<le> 8640000000000000 then Some ms else None))"

definition date_shown :: "rat option \<Rightarrow> string option" where
  "date_shown n = map_option (\<lambda>ms. iso_date (ms div 86400000)) (time_value n)"

text \<open>What a date input holds is a valid date or empty; the seconds of its midnight, or \<open>NaN\<close>.\<close>

definition date_entered :: "string \<Rightarrow> int option" where
  "date_entered s =
     (if length s = 10 \<and> s ! 4 = CHR ''-'' \<and> s ! 7 = CHR ''-'' \<and> list_all is_digit (take 4 s) \<and>
         list_all is_digit (take 2 (drop 5 s)) \<and> list_all is_digit (drop 8 s) then
        (let y = int (dec_val (take 4 s)); m = dec_val (take 2 (drop 5 s)); dd = int (dec_val (drop 8 s)) in
         if valid_date y m dd then Some (86400 * day_of_date y m dd) else None)
      else None)"

section \<open>Reading back what is shown\<close>

lemma two_digit_length: "n < 100 \<Longrightarrow> length (two_digit_str n) = 2"
  using padded_length [of n 1] by (simp add: two_digit_str_def numeral_2_eq_2)

lemma iso_year_length: "0 \<le> y \<Longrightarrow> y \<le> 9999 \<Longrightarrow> length (iso_year y) = 4"
  using padded_length [of "nat y" 3] by (simp add: iso_year_def)

lemma iso_parts:
  assumes "date_of_day d = (y, m, dd)" "0 \<le> y" "y \<le> 9999"
  shows "iso_date d = iso_year y @ ''-'' @ two_digit_str m @ ''-'' @ two_digit_str (nat dd)"
    "length (iso_year y) = 4" "length (two_digit_str m) = 2" "length (two_digit_str (nat dd)) = 2"
proof -
  have "valid_date y m dd" using date_of_day [OF assms(1)] by blast
  then have v: "1 \<le> m" "m \<le> 12" "1 \<le> dd" "dd \<le> month_lengths y ! (m - 1)"
    unfolding valid_date_def by blast+
  from v(1,2) have "month_lengths y ! (m - 1) \<le> 31" by (intro month_lengths_31) linarith
  with v have "nat dd < 100" "m < 100" by linarith+
  then show l: "length (iso_year y) = 4" "length (two_digit_str m) = 2" "length (two_digit_str (nat dd)) = 2"
    using iso_year_length [OF assms(2,3)] two_digit_length by simp_all
  then show "iso_date d = iso_year y @ ''-'' @ two_digit_str m @ ''-'' @ two_digit_str (nat dd)"
    by (simp add: iso_date_def assms(1))
qed

lemma entered_shown:
  assumes "0 \<le> year_from_day d" "year_from_day d \<le> 9999"
  shows "date_entered (iso_date d) = Some (86400 * d)"
proof -
  obtain y m dd where d: "date_of_day d = (y, m, dd)" by (cases "date_of_day d")
  from date_of_day [OF d] have v: "valid_date y m dd" "day_of_date y m dd = d" and y: "0 \<le> y" "y \<le> 9999"
    using assms by auto
  note parts = iso_parts [OF d y]
  let ?s = "iso_year y @ ''-'' @ two_digit_str m @ ''-'' @ two_digit_str (nat dd)"
  have at: "?s ! 4 = CHR ''-''" "?s ! 7 = CHR ''-''" "take 4 ?s = iso_year y" "take 2 (drop 5 ?s) = two_digit_str m"
    "drop 8 ?s = two_digit_str (nat dd)" "length ?s = 10"
    using parts(2-4) by (simp_all add: nth_append)
  have vals: "dec_val (iso_year y) = nat y" "dec_val (two_digit_str m) = m" "dec_val (two_digit_str (nat dd)) = nat dd"
    "list_all is_digit (iso_year y)" "list_all is_digit (two_digit_str m)" "list_all is_digit (two_digit_str (nat dd))"
    using y by (simp_all add: iso_year_def two_digit_str_def)
  have "0 \<le> dd" using v(1) by (simp add: valid_date_def)
  with v y vals show ?thesis
    unfolding parts(1) date_entered_def at by (simp add: Let_def)
qed

lemma time_of_seconds: "time_value (Some (of_int t)) = (if \<bar>t\<bar> \<le> 8640000000000 then Some (t * 1000) else None)"
proof -
  have e: "(of_int t * 1000 :: rat) = of_int (t * 1000)" by simp
  have b: "\<bar>t * 1000\<bar> \<le> 8640000000000000 \<longleftrightarrow> \<bar>t\<bar> \<le> 8640000000000" by (simp add: abs_mult)
  show ?thesis unfolding time_value_def option.case Let_def e floor_of_int ceiling_of_int if_cancel b by (rule refl)
qed

lemma year_range:
  assumes "day_from_year a \<le> d" "d < day_from_year b"
  shows "a \<le> year_from_day d" "year_from_day d \<le> b - 1"
proof -
  note y = year_from_day [of d]
  show "a \<le> year_from_day d"
  proof (rule ccontr)
    assume "\<not> ?thesis"
    then have "year_from_day d + 1 < a \<or> year_from_day d + 1 = a" by linarith
    with y(2) assms(1) day_from_year_mono [of "year_from_day d + 1" a] show False by auto
  qed
  show "year_from_day d \<le> b - 1"
  proof (rule ccontr)
    assume "\<not> ?thesis"
    then have "b < year_from_day d \<or> b = year_from_day d" by linarith
    with y(1) assms(2) day_from_year_mono [of b "year_from_day d"] show False by auto
  qed
qed

text \<open>C39: A date field shows a time as the day it is on, and passes that day on unchanged: for every
  time of the years 0 to 9999 the text shown, taken as the field's value, is the midnight of the same
  day, which is shown as the same text.\<close>

theorem date_round_trip:
  assumes "day_from_year 0 \<le> t div 86400" "t div 86400 < day_from_year 10000"
  shows "\<exists>s. date_shown (Some (of_int t)) = Some s \<and> date_entered s = Some (86400 * (t div 86400)) \<and>
    date_shown (Some (of_int (86400 * (t div 86400)))) = Some s"
proof -
  let ?d = "t div 86400"
  have n: "day_from_year 0 = -719528" "day_from_year 10000 = 2932897" by (simp_all add: day_from_year_def)
  have b: "86400 * ?d \<le> t" "t < 86400 * ?d + 86400" using div_bounds [of 86400 t] by simp_all
  with assms n have t: "\<bar>t\<bar> \<le> 8640000000000" "\<bar>86400 * ?d\<bar> \<le> 8640000000000" by linarith+
  have y: "0 \<le> year_from_day ?d" "year_from_day ?d \<le> 9999" using year_range [OF assms] by simp_all
  have days: "t * 1000 div 86400000 = ?d" "86400 * ?d * 1000 div 86400000 = ?d"
    using div_mult_mult2 [of 1000 t 86400] by simp_all
  show ?thesis
    unfolding date_shown_def time_of_seconds using t entered_shown [OF y] days by simp
qed

lemma date_round_trip_witness:
  "\<exists>s. date_shown (Some (of_int 1700000000)) = Some s \<and> date_entered s = Some 1699920000"
proof -
  have n: "day_from_year 0 = -719528" "day_from_year 10000 = 2932897" by (simp_all add: day_from_year_def)
  show ?thesis using date_round_trip [of 1700000000] by (auto simp: n)
qed

end
