(* ===== verification/TriggerFields.thy ===== *)
theory TriggerFields
  imports Display Dates Deploy
begin

text \<open>
  The trigger editor (apps/web/components/trigger-editor.tsx) as a component: what each of its
  fields shows of the draft's trigger, what each passes on of what the user enters, and the
  editor that renders the fields of whatever kind the trigger has. viem's \<open>formatUnits\<close> and
  \<open>parseUnits\<close> are parameters; they also get the decimals of an asset that has none
  (\<open>None\<close>, that is \<open>undefined\<close>). What holds of a trigger edited this way: the editor always
  renders it, its amounts and dates read back as they are shown, and the schema accepts it but
  for an amount or a date that is not positive.
\<close>

section \<open>Amounts\<close>

text \<open>A trigger holds no arrays, whose text \<open>js_text\<close> does not have.\<close>

definition safeFormat :: "(int \<Rightarrow> 'd \<Rightarrow> string) \<Rightarrow> jsv \<Rightarrow> 'd \<Rightarrow> string" where
  "safeFormat formatUnits v d =
     (case BigInt (js_text (nullish_or v (JStr ''0''))) of None \<Rightarrow> [] | Some i \<Rightarrow> formatUnits i d)"

section \<open>Fields\<close>

text \<open>\<open>Number(value ?? 0)\<close>; the only infinity a trigger gets is what a too long duration overflows to.\<close>

definition field_number :: "jsv \<Rightarrow> jsnum" where
  "field_number v =
     (let w = nullish_or v (JNum 0) in
      if w = JNonFinite True then PosInf else (case js_number w of Some r \<Rightarrow> Fin r | None \<Rightarrow> NaN))"

definition finite_num :: "jsnum \<Rightarrow> rat option" where
  "finite_num n = (case n of Fin r \<Rightarrow> Some r | _ \<Rightarrow> None)"

datatype field_control =
    DurationControl jsnum duration_unit
  | DateControl string
  | TextControl string "string option"
  | AmountControl string string
  | ToggleControl bool string

record field_view =
  fv_key :: string
  fv_label :: string
  fv_control :: field_control
  fv_help :: "string option"

text \<open>What the asset's lookup gives for \<open>decimals\<close> and \<open>symbol\<close>.\<close>

definition field_decimals :: "asset_lookup \<Rightarrow> int option" where
  "field_decimals l = (case l of Asset a \<Rightarrow> Some (decimals a) | Inherited _ \<Rightarrow> None)"

definition field_symbol :: "asset_lookup \<Rightarrow> string" where
  "field_symbol l = (case asset_symbol l of JStr s \<Rightarrow> s | _ \<Rightarrow> [])"

definition Field :: "(int \<Rightarrow> int option \<Rightarrow> string) \<Rightarrow> asset_lookup \<Rightarrow> jsv \<Rightarrow> trigger_field \<Rightarrow> js_error + field_view" where
  "Field formatUnits asset trigger' f =
     (let v = prop_of trigger' (f_key f);
          shown = (\<lambda>c. \<lparr> fv_key = f_key f, fv_label = f_label f, fv_control = c,
            fv_help = (case f_help f of Some h \<Rightarrow> if h = [] then None else Some h | None \<Rightarrow> None) \<rparr>)
      in case f_input f of
           Duration \<Rightarrow> (case splitDuration (field_number v) of (n, u) \<Rightarrow> Inr (shown (DurationControl n u)))
         | Date \<Rightarrow> (case date_shown (finite_num (field_number v)) of
               None \<Rightarrow> Inl (RangeErr ''Invalid time value'') | Some s \<Rightarrow> Inr (shown (DateControl s)))
         | TextField \<Rightarrow> Inr (shown (TextControl (js_text (nullish_or v (JStr []))) (f_placeholder f)))
         | Amount \<Rightarrow> Inr (shown (AmountControl (safeFormat formatUnits v (field_decimals asset)) (field_symbol asset)))
         | Toggle \<Rightarrow> Inr (shown (ToggleControl (truthy v) (if truthy v then ''On'' else ''Off''))))"

text \<open>What a user does to a field, and what the field then passes on, if anything. The number of
  \<open>AmountOfTime\<close> is \<open>Number(e.target.value)\<close>, \<open>None\<close> when it is not finite.\<close>

datatype field_event =
    AmountOfTime "rat option"
  | UnitOfTime duration_unit
  | DatePicked string
  | TextTyped string
  | AmountTyped string
  | Toggled bool

definition duration_change :: "jsnum \<Rightarrow> field_event \<Rightarrow> jsv option" where
  "duration_change seconds ev =
     (case ev of
        AmountOfTime n \<Rightarrow> map_option num_js (duration_amount seconds n)
      | UnitOfTime u \<Rightarrow> Some (num_js (duration_unit_change seconds u))
      | _ \<Rightarrow> None)"

definition field_change ::
  "(string \<Rightarrow> int option \<Rightarrow> 'e + int) \<Rightarrow> asset_lookup \<Rightarrow> field_input \<Rightarrow> jsv \<Rightarrow> field_event \<Rightarrow> jsv option" where
  "field_change parseUnits asset input v ev =
     (case (input, ev) of
        (Duration, _) \<Rightarrow> duration_change (field_number v) ev
      | (Date, DatePicked s) \<Rightarrow> map_option (\<lambda>t. JNum (of_int t)) (date_entered s)
      | (TextField, TextTyped s) \<Rightarrow> Some (JStr s)
      | (Amount, AmountTyped s) \<Rightarrow> map_option JStr (safeParse parseUnits s (field_decimals asset))
      | (Toggle, Toggled b) \<Rightarrow> Some (JBool b)
      | _ \<Rightarrow> None)"

section \<open>The editor\<close>

text \<open>\<open>triggerSpec(trigger?.kind)\<close>: only a text is a kind.\<close>

definition spec_of :: "jsv \<Rightarrow> trigger_kind_spec option" where
  "spec_of trigger' = (case prop_of trigger' ''kind'' of JStr k \<Rightarrow> triggerSpec k | _ \<Rightarrow> None)"

record trigger_view =
  tv_kind :: jsv
  tv_options :: "(string \<times> string \<times> bool) list"
  tv_summary :: "string option"
  tv_fields :: "field_view list"

text \<open>The first error a list of results has, or all the values.\<close>

fun all_results :: "('e + 'a) list \<Rightarrow> 'e + 'a list" where
  "all_results [] = Inr []"
| "all_results (r # rs) = and_then r (\<lambda>x. and_then (all_results rs) (\<lambda>xs. Inr (x # xs)))"

definition trigger_options :: "(string \<times> string \<times> bool) list" where
  "trigger_options =
     map (\<lambda>t. (k_kind t,
         k_label t @ (case k_unavailable t of Some u \<Rightarrow> if u = [] then [] else '' '' @ mdash @ '' '' @ u | None \<Rightarrow> []),
         (case k_unavailable t of Some u \<Rightarrow> u \<noteq> [] | None \<Rightarrow> False)))
       TRIGGER_KINDS"

definition TriggerEditor :: "(int \<Rightarrow> int option \<Rightarrow> string) \<Rightarrow> jsv \<Rightarrow> string \<Rightarrow> js_error + trigger_view" where
  "TriggerEditor formatUnits trigger' symbol' =
     and_then (getAsset symbol') (\<lambda>asset.
     and_then (all_results (map (Field formatUnits asset trigger') (case spec_of trigger' of None \<Rightarrow> [] | Some spec \<Rightarrow> k_fields spec)))
       (\<lambda>fields.
     Inr \<lparr> tv_kind = nullish_or (prop_of trigger' ''kind'') (JStr []), tv_options = trigger_options,
           tv_summary = map_option k_summary (spec_of trigger'), tv_fields = fields \<rparr>))"

text \<open>What a user does in the editor at a time \<open>now\<close>, and the trigger that \<open>onChange\<close> gets, or the old one.\<close>

datatype trigger_edit = ChooseKind string | EditField string field_event

definition edit_trigger ::
  "(string \<Rightarrow> int option \<Rightarrow> 'e + int) \<Rightarrow> string \<Rightarrow> int \<times> trigger_edit \<Rightarrow> jsv \<Rightarrow> js_error + jsv" where
  "edit_trigger parseUnits symbol' e trigger' =
     (case e of
        (now, ChooseKind kind) \<Rightarrow> switchTriggerKind now trigger' kind symbol'
      | (now, EditField key ev) \<Rightarrow>
          and_then (getAsset symbol') (\<lambda>asset.
          case spec_of trigger' of
            None \<Rightarrow> Inr trigger'
          | Some spec \<Rightarrow>
              (case find (\<lambda>f. f_key f = key) (k_fields spec) of
                 None \<Rightarrow> Inr trigger'
               | Some f \<Rightarrow>
                   (case field_change parseUnits asset (f_input f) (prop_of trigger' key) ev of
                      None \<Rightarrow> Inr trigger'
                    | Some v \<Rightarrow> Inr (set_field trigger' key v)))))"

fun edit_all ::
  "(string \<Rightarrow> int option \<Rightarrow> 'e + int) \<Rightarrow> string \<Rightarrow> (int \<times> trigger_edit) list \<Rightarrow> jsv \<Rightarrow> js_error + jsv" where
  "edit_all parseUnits symbol [] trigger' = Inr trigger'"
| "edit_all parseUnits symbol (e # es) trigger' =
     and_then (edit_trigger parseUnits symbol e trigger') (edit_all parseUnits symbol es)"

section \<open>What an amount field shows and reads\<close>

text \<open>viem's \<open>formatUnits\<close>, as documented: the whole part, and the fraction without its last zeros.\<close>

definition trimmed_fraction :: "int \<Rightarrow> nat \<Rightarrow> string" where
  "trimmed_fraction v d = rev (dropWhile (\<lambda>c. c = CHR ''0'') (rev (fraction_str v d)))"

definition formatUnits_documented :: "(int \<Rightarrow> int option \<Rightarrow> string) \<Rightarrow> bool" where
  "formatUnits_documented FU \<longleftrightarrow>
     (\<forall>v d. 0 \<le> v \<longrightarrow> FU v (Some (int d)) =
        nat_str (nat (v div 10 ^ d)) @ (if trimmed_fraction v d = [] then [] else ''.'' @ trimmed_fraction v d))"

abbreviation parseUnits_some :: "(string \<Rightarrow> int option \<Rightarrow> 'e + int) \<Rightarrow> bool" where
  "parseUnits_some PU \<equiv> parseUnits_documented (\<lambda>s d. PU s (Some d))"

lemma trimmed_zeros: "fraction_str v d = trimmed_fraction v d @ replicate (length (fraction_str v d) - length (trimmed_fraction v d)) CHR ''0''"
proof -
  let ?r = "rev (fraction_str v d)" and ?z = "\<lambda>c. c = CHR ''0''"
  have z: "takeWhile ?z ?r = replicate (length (takeWhile ?z ?r)) CHR ''0''"
    by (rule replicate_eqI [symmetric, THEN sym]) (auto dest: set_takeWhileD)
  have l: "length (takeWhile ?z ?r) = length (fraction_str v d) - length (trimmed_fraction v d)"
    using arg_cong [OF takeWhile_dropWhile_id [of ?z ?r], of length] unfolding trimmed_fraction_def length_append length_rev by linarith
  have "fraction_str v d = rev (takeWhile ?z ?r @ dropWhile ?z ?r)" by simp
  also have "\<dots> = trimmed_fraction v d @ rev (takeWhile ?z ?r)" by (simp only: rev_append trimmed_fraction_def)
  also have "rev (takeWhile ?z ?r) = takeWhile ?z ?r" by (subst (1 2) z) simp
  finally show ?thesis using z l by simp
qed

lemma safeParse_plain:
  assumes "parseUnits_some PU" "ds \<noteq> []" "list_all is_digit ds" "list_all is_digit fs" "length fs \<le> d"
  shows "safeParse PU (ds @ ''.'' @ fs) (Some (int d)) = Some (int_str (int (dec_val (ds @ fs) * 10 ^ (d - length fs))))"
    "safeParse PU ds (Some (int d)) = Some (int_str (int (dec_val ds * 10 ^ d)))"
proof -
  have ws: "trim (ds @ ''.'' @ fs) = ds @ ''.'' @ fs" "trim ds = ds"
    using assms(3,4) dot_facts(2) by (auto simp: list_all_iff digit_not_js_ws intro!: trim_plain)
  note doc = assms(1) [unfolded parseUnits_documented_def, rule_format, of ds fs d]
  show "safeParse PU (ds @ ''.'' @ fs) (Some (int d)) = Some (int_str (int (dec_val (ds @ fs) * 10 ^ (d - length fs))))"
    "safeParse PU ds (Some (int d)) = Some (int_str (int (dec_val ds * 10 ^ d)))"
    using doc assms(2-) re_decimal_parts [OF assms(3,4)] unfolding safeParse_def ws Let_def by simp_all
qed

text \<open>Whatever amount a draft holds, the amount field shows a text that it reads back as the
  same amount: focusing the field and leaving its text as it is changes nothing.\<close>

theorem amount_field_round_trip:
  assumes "formatUnits_documented FU" "parseUnits_some PU" "0 \<le> v"
  shows "safeParse PU (safeFormat FU (JStr (int_str v)) (Some (int d))) (Some (int d)) = Some (int_str v)"
proof -
  let ?w = "nat_str (nat (v div 10 ^ d))" and ?f = "trimmed_fraction v d" and ?g = "fraction_str v d"
  have shown: "safeFormat FU (JStr (int_str v)) (Some (int d)) = ?w @ (if ?f = [] then [] else ''.'' @ ?f)"
    using assms(1,3) by (simp add: safeFormat_def js_text_def formatUnits_documented_def)
  have val: "nat (v div 10 ^ d) * 10 ^ d + nat (v mod 10 ^ d) = nat v"
    using assms(3) div_mult_mod_eq [of "nat v" "10 ^ d"] by (simp only: nat_div_distrib nat_mod_distrib nat_power_eq zero_le_power zero_le_numeral nat_numeral)
  have g: "dec_val ?g = nat (v mod 10 ^ d)" "0 < d \<Longrightarrow> length ?g = d" "list_all is_digit ?g"
    using assms(3) by (simp_all add: fraction_value fraction_length fraction_digits)
  define z where "z = length ?g - length ?f"
  have gz: "?g = ?f @ replicate z CHR ''0''" unfolding z_def by (rule trimmed_zeros)
  have f: "list_all is_digit ?f" using g(3) by (subst (asm) gz) simp
  have dv: "dec_val ?f * 10 ^ z = nat (v mod 10 ^ d)" using g(1) by (subst (asm) gz) (simp add: dec_val_append)
  show ?thesis
  proof (cases "?f = []")
    case True
    then have "nat (v mod 10 ^ d) = 0" using dv by (simp add: dec_val_def)
    with val assms(3) True shown safeParse_plain(2) [OF assms(2), of ?w "[]" d] show ?thesis by simp
  next
    case False
    have d: "0 < d"
    proof (rule ccontr)
      assume "\<not> 0 < d"
      then have "?g = ''0''" by (simp add: fraction_str_def pad_start_def)
      then have "?f = []" by (simp add: trimmed_fraction_def)
      with False show False ..
    qed
    with g(2) gz have len: "length ?f + z = d" by (metis length_append length_replicate)
    then have z: "d - length ?f = z" by simp
    have "dec_val (?w @ ?f) * 10 ^ (d - length ?f) = nat v"
      using val dv len unfolding z by (auto simp: dec_val_append distrib_right mult.assoc simp flip: power_add)
    with safeParse_plain(1) [OF assms(2) _ _ f, of ?w d] len False shown assms(3) show ?thesis by simp
  qed
qed

text \<open>A character typed at the end of the field: the new text is read, and what is passed on is
  shown again.\<close>

definition type_char ::
  "(int \<Rightarrow> int option \<Rightarrow> string) \<Rightarrow> (string \<Rightarrow> int option \<Rightarrow> 'e + int) \<Rightarrow> asset_lookup \<Rightarrow> jsv \<Rightarrow> char \<Rightarrow> jsv" where
  "type_char FU PU asset v c =
     (case field_change PU asset Amount v (AmountTyped (safeFormat FU v (field_decimals asset) @ [c])) of
        None \<Rightarrow> v | Some w \<Rightarrow> w)"

lemma whole_shown:
  assumes "formatUnits_documented FU"
  shows "safeFormat FU (JStr (int_str (int (n * 10 ^ d)))) (Some (int d)) = nat_str n"
proof -
  have w: "nat (int (n * 10 ^ d) div 10 ^ d) = n" "nat (\<bar>int (n * 10 ^ d)\<bar> mod 10 ^ d) = 0" by simp_all
  have "fraction_str (int (n * 10 ^ d)) d = replicate (max d 1) CHR ''0''"
    unfolding fraction_str_def w(2) by (cases d) (simp_all add: pad_start_def replicate_append_same)
  then have "trimmed_fraction (int (n * 10 ^ d)) d = []"
    by (simp add: trimmed_fraction_def)
  with assms w(1) show ?thesis
    by (simp add: safeFormat_def js_text_def formatUnits_documented_def)
qed

text \<open>A digit is appended; a space or a point leaves the text, hence the amount, as it was; any
  other character is refused.\<close>

lemma type_char_whole:
  assumes "formatUnits_documented FU" "parseUnits_some PU" "field_decimals asset = Some (int d)"
  shows "type_char FU PU asset (JStr (int_str (int (n * 10 ^ d)))) c =
    JStr (int_str (int ((case digit_val c of None \<Rightarrow> n | Some k \<Rightarrow> 10 * n + k) * 10 ^ d)))"
proof -
  let ?s = "nat_str n"
  have t: "type_char FU PU asset (JStr (int_str (int (n * 10 ^ d)))) c =
      (case safeParse PU (?s @ [c]) (Some (int d)) of None \<Rightarrow> JStr (int_str (int (n * 10 ^ d))) | Some w \<Rightarrow> JStr w)"
    unfolding type_char_def assms(3) whole_shown [OF assms(1)] field_change_def by (simp add: assms(3) split: option.split)
  consider "is_digit c" | "c = CHR ''.''" | "js_ws c" "\<not> is_digit c" | "\<not> is_digit c" "c \<noteq> CHR ''.''" "\<not> js_ws c" by blast
  then show ?thesis
  proof cases
    case 1
    then obtain k where k: "digit_val c = Some k" by (auto simp: is_digit_def)
    have "dec_val [c] = k" by (simp add: dec_val_def dec_step_def k)
    then have "dec_val (?s @ [c]) = 10 * n + k" by (simp add: dec_val_append)
    with 1 k safeParse_plain(2) [OF assms(2), of "?s @ [c]" "[]" d] show ?thesis unfolding t by simp
  next
    case 2
    with safeParse_plain(1) [OF assms(2), of ?s "[]" d] dot_facts(1) show ?thesis unfolding t by (simp add: is_digit_def)
  next
    case 3
    have "\<not> js_ws (hd ?s)" using nat_str_digits [of n] by (cases ?s) (use nat_str_nonempty [of n] in \<open>auto simp: digit_not_js_ws\<close>)
    then have "dropWhile js_ws (?s @ x) = ?s @ x" for x using nat_str_nonempty [of n] by (cases ?s) simp_all
    from this [of "[c]"] this [of "[]"] 3(1) have "trim (?s @ [c]) = trim ?s" by (simp add: trim_def)
    then have "safeParse PU (?s @ [c]) (Some (int d)) = safeParse PU ?s (Some (int d))" by (simp add: safeParse_def)
    with 3 safeParse_plain(2) [OF assms(2), of ?s "[]" d] show ?thesis unfolding t by (simp add: is_digit_def)
  next
    case 4
    have "list_all (\<lambda>c. \<not> js_ws c) (?s @ [c])" using 4 nat_str_digits [of n] by (auto simp: list_all_iff digit_not_js_ws)
    then have "trim (?s @ [c]) = ?s @ [c]" by (rule trim_plain)
    moreover have "\<not> re_decimal (?s @ [c])" using re_decimal_chars [of "?s @ [c]" c] 4 by auto
    ultimately have "safeParse PU (?s @ [c]) (Some (int d)) = None" by (simp add: safeParse_def)
    with 4 show ?thesis unfolding t by (simp add: is_digit_def)
  qed
qed

text \<open>C38: Typing into the amount field never gives a fraction: what the field holds after a whole
  amount and any characters typed at its end is the whole amount that the digits among them make,
  the decimal point being dropped as soon as it is typed (so that the keys of a decimal such as
  1.5 give 15).\<close>

theorem typed_amount_is_whole:
  assumes "formatUnits_documented FU" "parseUnits_some PU" "field_decimals asset = Some (int d)"
  shows "foldl (type_char FU PU asset) (JStr (int_str (int (n * 10 ^ d)))) cs =
    JStr (int_str (int (foldl (\<lambda>m c. case digit_val c of None \<Rightarrow> m | Some k \<Rightarrow> 10 * m + k) n cs * 10 ^ d)))"
proof (induction cs arbitrary: n)
  case (Cons c cs)
  show ?case unfolding foldl_Cons type_char_whole [OF assms] by (rule Cons.IH)
qed simp

definition demo_formatUnits :: "int \<Rightarrow> int option \<Rightarrow> string" where
  "demo_formatUnits v d =
     (case d of
        None \<Rightarrow> int_str v
      | Some k \<Rightarrow> (if v < 0 then ''-'' else []) @ nat_str (nat (\<bar>v\<bar> div 10 ^ nat k)) @
          (if trimmed_fraction \<bar>v\<bar> (nat k) = [] then [] else ''.'' @ trimmed_fraction \<bar>v\<bar> (nat k)))"

lemma demo_formatUnits_documented: "formatUnits_documented demo_formatUnits"
  by (simp add: formatUnits_documented_def demo_formatUnits_def)

definition demo_parse :: "string \<Rightarrow> int option \<Rightarrow> unit + int" where
  "demo_parse s d = (case d of None \<Rightarrow> Inl () | Some k \<Rightarrow> demo_parseUnits s k)"

lemma demo_parse_documented: "parseUnits_some demo_parse"
  using demo_parseUnits_documented by (simp add: demo_parse_def)

lemma typed_amount_is_whole_witness:
  "(case getAsset ''FXRP'' of
      Inl _ \<Rightarrow> False
    | Inr asset \<Rightarrow> foldl (type_char demo_formatUnits demo_parse asset) (JStr (int_str 0)) ''1.5'' = JStr (int_str 15000000))"
proof -
  obtain a where a: "getAsset ''FXRP'' = Inr (Asset a)" "decimals a = int 6" by (simp add: getAsset_def asset_index_def ASSETS_def)
  then have d: "field_decimals (Asset a) = Some (int 6)" by (simp add: field_decimals_def)
  have v: "digit_val CHR ''1'' = Some 1" "digit_val CHR ''5'' = Some 5" "digit_val CHR ''.'' = None" by code_simp+
  show ?thesis
    using typed_amount_is_whole [OF demo_formatUnits_documented demo_parse_documented d, of 0 "''1.5''"] a by (simp add: v)
qed

lemma amount_field_round_trip_witness:
  "safeParse demo_parse (safeFormat demo_formatUnits (JStr (int_str 1500000)) (Some (int 6))) (Some (int 6)) = Some (int_str 1500000)"
  by (rule amount_field_round_trip [OF demo_formatUnits_documented demo_parse_documented]) simp

section \<open>Edited triggers\<close>

text \<open>A draft's trigger as the editor leaves it: one of the three kinds, whose interval is some value \<open>iv\<close>.
  What the interval may be is a predicate \<open>I\<close>, of which there are two below.\<close>

datatype edited = Heart jsv bool | Proof jsv string string string | Stamp int

fun edited_js :: "edited \<Rightarrow> jsv" where
  "edited_js (Heart iv d) = JObj [(''kind'', JStr ''manualHeartbeat''), (''intervalSeconds'', iv), (''demoMode'', JBool d)]"
| "edited_js (Proof iv s dest m) = JObj [(''kind'', JStr ''chainProofOfLife''), (''intervalSeconds'', iv), (''sourceId'', JStr s),
     (''destinationAddress'', JStr dest), (''minimumAmount'', JStr m)]"
| "edited_js (Stamp t) = JObj [(''kind'', JStr ''timestamp''), (''executeAfter'', JNum (of_int t))]"

fun editable :: "(jsv \<Rightarrow> bool) \<Rightarrow> supported_asset \<Rightarrow> edited \<Rightarrow> bool" where
  "editable I a (Heart iv d) = I iv"
| "editable I a (Proof iv s dest m) = (I iv \<and> s = fdcSourceId a \<and> (\<exists>v. m = int_str v))"
| "editable I a (Stamp t) = (\<bar>t\<bar> \<le> 8640000000000)"

fun kind_spec :: "edited \<Rightarrow> trigger_kind_spec" where
  "kind_spec (Heart iv d) = heartbeat_spec"
| "kind_spec (Proof iv s dest m) = proof_of_life_spec"
| "kind_spec (Stamp t) = timestamp_spec"

lemma kinds [simp]: "k_kind heartbeat_spec = ''manualHeartbeat''" "k_kind proof_of_life_spec = ''chainProofOfLife''"
    "k_kind timestamp_spec = ''timestamp''"
  by (simp_all add: heartbeat_spec_def proof_of_life_spec_def timestamp_spec_def)

lemma triggerSpec_kind [simp]: "triggerSpec ''manualHeartbeat'' = Some heartbeat_spec"
    "triggerSpec ''chainProofOfLife'' = Some proof_of_life_spec" "triggerSpec ''timestamp'' = Some timestamp_spec"
  by (simp_all add: triggerSpec_def TRIGGER_KINDS_def)

lemma spec_of_trigger [simp]: "spec_of (edited_js t) = Some (kind_spec t)"
  by (cases t) (simp_all add: spec_of_def)

text \<open>A date a user can pick is in the range of dates.\<close>

lemma date_entered_bound:
  assumes "date_entered s = Some t"
  shows "\<bar>t\<bar> \<le> 8640000000000"
proof -
  obtain y m dd where e: "valid_date (int y) m dd" "t = 86400 * day_of_date (int y) m dd" "y < 10000"
    using assms dec_val_less [of "take 4 s"] by (auto simp: date_entered_def Let_def split: if_splits)
  have n: "day_from_year 0 = -719528" "day_from_year 10000 = 2932897" by (simp_all add: day_from_year_def)
  have y: "day_from_year 0 \<le> day_from_year (int y)" "day_from_year (int y) < day_from_year 10000"
    using day_from_year_mono [of 0 "int y"] day_from_year_mono [of "int y" 10000] e(3) by (cases "y = 0"; auto)+
  have pos: "\<forall>x \<in> set (month_lengths (int y)). 0 \<le> x" by (simp add: month_lengths_def)
  have "sum_list (take (m - 1) (month_lengths (int y))) + sum_list (drop (m - 1) (month_lengths (int y))) = sum_list (month_lengths (int y))"
    by (metis append_take_drop_id sum_list_append)
  moreover have "0 \<le> sum_list (take (m - 1) (month_lengths (int y)))" "0 \<le> sum_list (drop (m - 1) (month_lengths (int y)))"
    using pos by (auto intro!: sum_list_nonneg dest: in_set_takeD in_set_dropD)
  moreover have "sum_list (month_lengths (int y)) \<le> 366" by (simp add: sum_months)
  moreover have "1 \<le> dd" "dd \<le> 31"
    using e(1) month_lengths_31 [of "m - 1" "int y"] unfolding valid_date_def by linarith+
  ultimately have "-719528 \<le> day_of_date (int y) m dd" "day_of_date (int y) m dd \<le> 2933300"
    using y n unfolding day_of_date_def by linarith+
  then show ?thesis using e(2) by linarith
qed

lemma field_number_int [simp]: "field_number (JNum r) = Fin r" "field_number (JNonFinite True) = PosInf"
  by (simp_all add: field_number_def nullish_or_def js_number_def)

text \<open>The values of the fields: what each kind of field may hold, and keeps holding.\<close>

definition field_value :: "(jsv \<Rightarrow> bool) \<Rightarrow> field_input \<Rightarrow> jsv \<Rightarrow> bool" where
  "field_value I input v \<longleftrightarrow>
     (case input of
        Duration \<Rightarrow> I v
      | Date \<Rightarrow> (\<exists>t. v = JNum (of_int t) \<and> \<bar>t\<bar> \<le> 8640000000000)
      | TextField \<Rightarrow> (\<exists>s. v = JStr s)
      | Amount \<Rightarrow> (\<exists>i. v = JStr (int_str i))
      | Toggle \<Rightarrow> (\<exists>b. v = JBool b))"

lemma safeParse_int: "safeParse PU s d = Some x \<Longrightarrow> \<exists>i. x = int_str i"
proof -
  have "int_str 0 = ''0''" by (simp add: int_str_def)
  then show "safeParse PU s d = Some x \<Longrightarrow> \<exists>i. x = int_str i"
    unfolding safeParse_def Let_def by (auto split: if_splits sum.splits intro: exI [of _ "0 :: int"])
qed

lemma kind_fields:
  "f \<in> set (k_fields heartbeat_spec) \<longleftrightarrow> f = k_fields heartbeat_spec ! 0 \<or> f = k_fields heartbeat_spec ! 1"
  "f \<in> set (k_fields proof_of_life_spec) \<longleftrightarrow>
    f = k_fields proof_of_life_spec ! 0 \<or> f = k_fields proof_of_life_spec ! 1 \<or> f = k_fields proof_of_life_spec ! Suc (Suc 0)"
  "f \<in> set (k_fields timestamp_spec) \<longleftrightarrow> f = k_fields timestamp_spec ! 0"
  by (simp_all only: heartbeat_spec_def proof_of_life_spec_def timestamp_spec_def trigger_kind_spec.select_convs
      list.set insert_iff empty_iff nth_Cons_0 nth_Cons_Suc One_nat_def HOL.simp_thms)

lemma field_keys [simp]:
  "f_key (k_fields heartbeat_spec ! 0) = ''intervalSeconds''" "f_input (k_fields heartbeat_spec ! 0) = Duration"
  "f_key (k_fields heartbeat_spec ! Suc 0) = ''demoMode''" "f_input (k_fields heartbeat_spec ! Suc 0) = Toggle"
  "f_key (k_fields proof_of_life_spec ! 0) = ''intervalSeconds''" "f_input (k_fields proof_of_life_spec ! 0) = Duration"
  "f_key (k_fields proof_of_life_spec ! Suc 0) = ''destinationAddress''" "f_input (k_fields proof_of_life_spec ! Suc 0) = TextField"
  "f_key (k_fields proof_of_life_spec ! Suc (Suc 0)) = ''minimumAmount''" "f_input (k_fields proof_of_life_spec ! Suc (Suc 0)) = Amount"
  "f_key (k_fields timestamp_spec ! 0) = ''executeAfter''" "f_input (k_fields timestamp_spec ! 0) = Date"
  by (simp_all only: heartbeat_spec_def proof_of_life_spec_def timestamp_spec_def trigger_kind_spec.select_convs
      nth_Cons_0 nth_Cons_Suc field_def trigger_field.select_convs)

text \<open>Switching kinds: an interval rides along, everything else starts from the defaults.\<close>

definition carry_one :: "jsv \<Rightarrow> (string \<times> jsv) list \<Rightarrow> string \<Rightarrow> (string \<times> jsv) list" where
  "carry_one current next k = (if prop_of current k \<notin> {JUndef, JStr []} then put_prop next k (prop_of current k) else next)"

lemma kind_list:
  "map f_key (k_fields heartbeat_spec) = [''intervalSeconds'', ''demoMode'']"
  "map f_key (k_fields proof_of_life_spec) = [''intervalSeconds'', ''destinationAddress'', ''minimumAmount'']"
  "map f_key (k_fields timestamp_spec) = [''executeAfter'']"
  by (simp_all only: heartbeat_spec_def proof_of_life_spec_def timestamp_spec_def trigger_kind_spec.select_convs
      list.map field_def trigger_field.select_convs)

lemma carry_keys: "''kind'' \<notin> set (map f_key fs) \<Longrightarrow> carry_fields current fs next = foldl (carry_one current) next (map f_key fs)"
  by (induction fs arbitrary: "next") (auto simp: carried_def carry_one_def Let_def)

lemma carry_kind:
  "carry_fields current (k_fields heartbeat_spec) next = foldl (carry_one current) next [''intervalSeconds'', ''demoMode'']"
  "carry_fields current (k_fields proof_of_life_spec) next =
    foldl (carry_one current) next [''intervalSeconds'', ''destinationAddress'', ''minimumAmount'']"
  "carry_fields current (k_fields timestamp_spec) next = foldl (carry_one current) next [''executeAfter'']"
  by (subst carry_keys; simp add: kind_list)+

lemma kind_defaults:
  "k_defaults heartbeat_spec now (Asset a) = Inr [(''kind'', JStr ''manualHeartbeat''), (''intervalSeconds'', JNum (of_int YEAR)), (''demoMode'', JBool False)]"
  "k_defaults proof_of_life_spec now (Asset a) = Inr [(''kind'', JStr ''chainProofOfLife''), (''intervalSeconds'', JNum (of_int YEAR)),
     (''sourceId'', JStr (fdcSourceId a)), (''destinationAddress'', JStr []), (''minimumAmount'', JStr (int_str (minimumHeartbeat a)))]"
  "k_defaults timestamp_spec now (Asset a) = Inr [(''kind'', JStr ''timestamp''), (''executeAfter'', JNum (of_int (now div 1000 + YEAR)))]"
  by (simp_all add: heartbeat_spec_def proof_of_life_spec_def timestamp_spec_def)

definition sane_clock :: "int \<Rightarrow> bool" where
  "sane_clock now = (0 \<le> now \<and> now \<le> 8000000000000000)"

lemma clock_range [simp]: "sane_clock now \<Longrightarrow> \<bar>now div 1000 + YEAR\<bar> \<le> 8640000000000"
  unfolding sane_clock_def YEAR_def by linarith

lemma int_str_nonempty [simp]: "int_str i \<noteq> []"
  by (simp add: int_str_def)

text \<open>What a duration field is relied on for: the defaults have an interval as \<open>I\<close> wants it, and an event that
  \<open>ok\<close> allows keeps it so. Then every trigger the editor makes is editable.\<close>

definition edits_ok :: "(field_event \<Rightarrow> bool) \<Rightarrow> (int \<times> trigger_edit) list \<Rightarrow> bool" where
  "edits_ok ok es \<longleftrightarrow> list_all (\<lambda>(now, e). sane_clock now \<and> (case e of EditField key ev \<Rightarrow> ok ev | ChooseKind k \<Rightarrow> True)) es"

locale kept_interval =
  fixes I :: "jsv \<Rightarrow> bool" and ok :: "field_event \<Rightarrow> bool"
  assumes default_kept: "I (JNum (of_int YEAR))"
    and change_kept: "I v \<Longrightarrow> ok ev \<Longrightarrow> duration_change (field_number v) ev = Some w \<Longrightarrow> I w"
    and no_text: "\<not> I JUndef" "\<not> I (JStr [])"
begin

lemma field_change_value:
  "field_value I input v \<Longrightarrow> ok ev \<Longrightarrow> field_change PU asset input v ev = Some w \<Longrightarrow> field_value I input w"
  by (cases input; cases ev)
    (auto simp: field_value_def field_change_def dest: change_kept date_entered_bound safeParse_int)

lemma trigger_field_value:
  "editable I a t \<Longrightarrow> f \<in> set (k_fields (kind_spec t)) \<Longrightarrow> field_value I (f_input f) (prop_of (edited_js t) (f_key f))"
  by (cases t) (auto simp: kind_fields field_value_def)

lemma is_editable:
  "I iv \<Longrightarrow> \<exists>t. JObj [(''kind'', JStr ''manualHeartbeat''), (''intervalSeconds'', iv), (''demoMode'', JBool d)] =
    edited_js t \<and> editable I a t"
  "I iv \<Longrightarrow> \<exists>t. JObj [(''kind'', JStr ''chainProofOfLife''), (''intervalSeconds'', iv), (''sourceId'', JStr (fdcSourceId a)),
      (''destinationAddress'', JStr dest), (''minimumAmount'', JStr (int_str v))] = edited_js t \<and> editable I a t"
  "\<bar>e\<bar> \<le> 8640000000000 \<Longrightarrow> \<exists>t. JObj [(''kind'', JStr ''timestamp''), (''executeAfter'', JNum (of_int e))] = edited_js t \<and> editable I a t"
  by (rule exI [of _ "Heart iv d"], simp)
    (rule exI [of _ "Proof iv (fdcSourceId a) dest (int_str v)"], simp, blast, rule exI [of _ "Stamp e"], simp)

lemma set_field_editable:
  assumes "editable I a t" "f \<in> set (k_fields (kind_spec t))" "field_value I (f_input f) w"
  shows "\<exists>t'. set_field (edited_js t) (f_key f) w = edited_js t' \<and> editable I a t'"
proof (cases t)
  case (Heart i d)
  from assms(2) have "f = k_fields heartbeat_spec ! 0 \<or> f = k_fields heartbeat_spec ! Suc 0"
    unfolding Heart kind_spec.simps kind_fields by simp
  then show ?thesis
    using assms(1,3) by (elim disjE) (force simp: Heart field_value_def set_field_def intro!: is_editable)+
next
  case (Proof i s dest m)
  with assms(1) obtain v where t: "I i" "s = fdcSourceId a" "m = int_str v" by auto
  from assms(2) have "f = k_fields proof_of_life_spec ! 0 \<or> f = k_fields proof_of_life_spec ! Suc 0 \<or> f = k_fields proof_of_life_spec ! Suc (Suc 0)"
    unfolding Proof kind_spec.simps kind_fields by simp
  then show ?thesis
    using t assms(3) by (elim disjE) (force simp: Proof field_value_def set_field_def intro!: is_editable)+
next
  case (Stamp e)
  from assms(2) have "f = k_fields timestamp_spec ! 0" unfolding Stamp kind_spec.simps kind_fields by simp
  with assms(1,3) show ?thesis by (force simp: Stamp field_value_def set_field_def intro!: is_editable)
qed

lemma edit_field_editable:
  assumes "getAsset s = Inr (Asset a)" "editable I a t" "ok ev"
  shows "\<exists>t'. edit_trigger PU s (now, EditField key ev) (edited_js t) = Inr (edited_js t') \<and> editable I a t'"
proof (cases "find (\<lambda>f. f_key f = key) (k_fields (kind_spec t))")
  case None
  then show ?thesis using assms by (auto simp: edit_trigger_def)
next
  case (Some f)
  then have f: "f \<in> set (k_fields (kind_spec t))" "f_key f = key" by (auto simp: find_Some_iff)
  show ?thesis
  proof (cases "field_change PU (Asset a) (f_input f) (prop_of (edited_js t) key) ev")
    case None
    with Some assms show ?thesis by (auto simp: edit_trigger_def)
  next
    case (Some w)
    with field_change_value [OF trigger_field_value [OF assms(2) f(1)] assms(3)] f(2) have "field_value I (f_input f) w" by blast
    from set_field_editable [OF assms(2) f(1) this] show ?thesis
      using Some \<open>find _ _ = Some f\<close> assms f(2) by (auto simp: edit_trigger_def)
  qed
qed

lemma switched:
  assumes "getAsset s = Inr (Asset a)" "editable I a t" "sane_clock now" "triggerSpec kind = Some spec"
  shows "\<exists>t'. switchTriggerKind now (edited_js t) kind s = Inr (edited_js t') \<and> editable I a t'"
proof -
  from triggerSpec_cases [OF assms(4)] consider "spec = heartbeat_spec" | "spec = proof_of_life_spec" | "spec = timestamp_spec" by auto
  then show ?thesis
  proof cases
    case 1
    show ?thesis using assms(1,2) unfolding switchTriggerKind_def assms(4) 1 option.case carry_kind
      by (cases t) (force simp: kind_defaults carry_one_def no_text intro!: is_editable default_kept)+
  next
    case 2
    show ?thesis using assms(1,2) unfolding switchTriggerKind_def assms(4) 2 option.case carry_kind
      by (cases t) (force simp: kind_defaults carry_one_def no_text intro!: is_editable default_kept)+
  next
    case 3
    obtain e where e: "k_defaults timestamp_spec now (Asset a) = Inr [(''kind'', JStr ''timestamp''), (''executeAfter'', JNum (of_int e))]"
      "\<bar>e\<bar> \<le> 8640000000000"
      using kind_defaults(3) clock_range [OF assms(3)] by blast
    show ?thesis using assms(1,2) e unfolding switchTriggerKind_def assms(4) 3 option.case carry_kind
      by (cases t) (force simp: carry_one_def intro!: is_editable)+
  qed
qed

lemma edit_editable:
  assumes "getAsset s = Inr (Asset a)" "editable I a t" "edits_ok ok [e]"
  shows "\<exists>t'. edit_trigger PU s e (edited_js t) = Inr (edited_js t') \<and> editable I a t'"
proof (cases e)
  case (Pair now ed)
  show ?thesis
  proof (cases ed)
    case (ChooseKind kind)
    with Pair assms switched [OF assms(1,2), of now kind] show ?thesis
      by (cases "triggerSpec kind") (auto simp: edit_trigger_def switchTriggerKind_def edits_ok_def)
  next
    case (EditField key ev)
    with Pair edit_field_editable [OF assms(1,2), of ev] assms(3) show ?thesis by (simp add: edits_ok_def)
  qed
qed

lemma edits_editable:
  assumes "getAsset s = Inr (Asset a)"
  shows "editable I a t \<Longrightarrow> edits_ok ok es \<Longrightarrow>
    \<exists>t'. edit_all PU s es (edited_js t) = Inr (edited_js t') \<and> editable I a t'"
proof (induction es arbitrary: t)
  case (Cons e es)
  then obtain t1 where "edit_trigger PU s e (edited_js t) = Inr (edited_js t1)" "editable I a t1"
    using edit_editable [OF assms, of t e] by (auto simp: edits_ok_def)
  with Cons.IH [of t1] Cons.prems(2) show ?case by (simp add: edits_ok_def)
qed auto

end

section \<open>Durations the editor makes\<close>

text \<open>Any amount: a number of seconds that is whole days while a double holds it exactly, or too long to
  be a number.\<close>

definition whole_days :: "int \<Rightarrow> bool" where
  "whole_days i = (86400 \<le> i \<and> (i < 2 ^ 53 \<longrightarrow> i mod 86400 = 0))"

definition any_interval :: "jsv \<Rightarrow> bool" where
  "any_interval iv \<longleftrightarrow> iv = JNonFinite True \<or> (\<exists>i. iv = JNum (of_int i) \<and> whole_days i)"

lemma seconds_of_days:
  assumes "1 \<le> d"
  shows "any_interval (num_js (num_times (Fin (of_int d)) 86400))"
proof -
  have t: "num_times (Fin (of_int d)) 86400 = to_double (of_int (d * 86400))" by (simp add: num_times_def)
  from assms to_double_int [of "d * 86400"] consider "to_double (of_int (d * 86400)) = PosInf"
    | m where "to_double (of_int (d * 86400)) = Fin (of_int m)" "if d * 86400 < 2 ^ 53 then m = d * 86400 else 2 ^ 53 \<le> m" by force
  then show ?thesis
  proof cases
    case 2
    then have "whole_days m" using assms by (auto simp: whole_days_def split: if_splits)
    then show ?thesis unfolding t 2(1) any_interval_def num_js_def by auto
  qed (unfold t any_interval_def num_js_def, simp)
qed

lemma at_least_1: "v \<noteq> NaN \<Longrightarrow> round_at_least_1 v = PosInf \<or> (\<exists>d. round_at_least_1 v = Fin (of_int d) \<and> 1 \<le> d)"
  by (cases v) (auto simp: round_at_least_1_def intro: exI [of _ 1])

lemma not_NaN [simp]: "to_double r \<noteq> NaN" "v \<noteq> NaN \<Longrightarrow> num_times v n \<noteq> NaN" "v \<noteq> NaN \<Longrightarrow> num_over v n \<noteq> NaN"
  by (auto simp: to_double_def num_times_def num_over_def Let_def split: jsnum.split)

lemma join_any: "v \<noteq> NaN \<Longrightarrow> any_interval (num_js (joinDuration v u))"
proof -
  assume v: "v \<noteq> NaN"
  define days where "days = (case u of Years \<Rightarrow> num_times v 365 | Months \<Rightarrow> num_times v 30 | Days \<Rightarrow> v)"
  have "days \<noteq> NaN" using v by (cases u) (simp_all add: days_def)
  moreover have "any_interval (num_js (num_times PosInf 86400))" by (simp add: num_times_def num_js_def any_interval_def)
  ultimately show ?thesis
    using at_least_1 [of days] seconds_of_days unfolding joinDuration_def days_def [symmetric] Let_def by auto
qed

lemma split_any: "v \<noteq> NaN \<Longrightarrow> fst (splitDuration v) \<noteq> NaN"
  using at_least_1 [of "num_over v 86400"] by (auto simp: splitDuration_def Let_def split: if_splits)

interpretation any: kept_interval any_interval "\<lambda>_. True"
proof unfold_locales
  show "any_interval (JNum (of_int YEAR))" by (auto simp: any_interval_def whole_days_def YEAR_def intro: exI [of _ YEAR])
  show "any_interval w" if "any_interval v" "duration_change (field_number v) ev = Some w" for v ev w
  proof -
    have "field_number v \<noteq> NaN" using that(1) by (auto simp: any_interval_def)
    with that(2) join_any split_any show ?thesis
      by (auto simp: duration_change_def duration_amount_def duration_unit_change_def split: field_event.splits option.splits if_splits)
  qed
qed (simp_all add: any_interval_def)

text \<open>Amounts of at most a hundred thousand: the interval is always exact, hence a whole number of days.\<close>

definition modest_event :: "field_event \<Rightarrow> bool" where
  "modest_event ev = (case ev of AmountOfTime (Some v) \<Rightarrow> v \<le> 100000 | _ \<Rightarrow> True)"

definition modest_interval :: "jsv \<Rightarrow> bool" where
  "modest_interval iv \<longleftrightarrow>
     (\<exists>d. iv = JNum (of_int (d * 86400)) \<and> 1 \<le> d \<and> d \<le> 27010000000 \<and> fst (coarsest d) \<le> 74000000)"

lemma coarsest_times: "1 \<le> n \<Longrightarrow> fst (coarsest (n * unit_days u)) \<le> n"
proof (cases u)
  case Months
  assume "1 \<le> n"
  then have "n * 30 div 365 \<le> n" by linarith
  with Months show ?thesis by (simp add: coarsest_def)
qed (use coarsest_bound [of n] in \<open>simp_all add: coarsest_def\<close>)

lemma modest_amount:
  assumes "1 \<le> v" "v \<le> 100000"
  shows "modest_interval (num_js (joinDuration (Fin v) u))"
proof -
  define days where "days = (case u of Years \<Rightarrow> num_times (Fin v) 365 | Months \<Rightarrow> num_times (Fin v) 30 | Days \<Rightarrow> Fin v)"
  have "\<exists>x. num_times (Fin v) n = Fin x \<and> x \<le> 73000000" if "1 \<le> n" "n \<le> 365" for n
  proof -
    have "1 * 1 \<le> v * of_nat n" using assms that by (intro mult_mono) simp_all
    moreover have "v * of_nat n \<le> 100000 * 365" using assms that by (intro mult_mono) simp_all
    ultimately show ?thesis using to_double_twice [of "v * of_nat n"] by (fastforce simp: num_times_def)
  qed
  from this [of 365] this [of 30] assms obtain x where x: "days = Fin x" "x \<le> 73000000"
    unfolding days_def by (cases u) auto
  define d where "d = max 1 (js_round x)"
  have "js_round x \<le> 73000001" unfolding js_round_def using x(2) by (simp add: floor_le_iff)
  then have d: "1 \<le> d" "d \<le> 73000001" by (simp_all add: d_def)
  have "joinDuration (Fin v) u = num_times (Fin (of_int d)) 86400"
    unfolding joinDuration_def days_def [symmetric] Let_def x(1) by (simp add: round_at_least_1_def d_def)
  also have "\<dots> = Fin (of_int (d * 86400))" using to_double_exact [of "d * 86400"] d by (simp add: num_times_def)
  finally show ?thesis
    using d coarsest_bound [OF d(1)] unfolding modest_interval_def by (intro exI [of _ d]) (simp add: num_js_def)
qed

lemma modest_unit:
  assumes "modest_interval v"
  shows "modest_interval (num_js (duration_unit_change (field_number v) u))"
proof -
  obtain d where v: "v = JNum (of_int (d * 86400))" "1 \<le> d" "d \<le> 27010000000" "fst (coarsest d) \<le> 74000000"
    using assms unfolding modest_interval_def by blast
  define n where "n = fst (coarsest d)"
  have n: "1 \<le> n" "n \<le> 74000000" using coarsest_bound [OF v(2)] v(4) by (simp_all add: n_def)
  have u: "n * unit_days u \<le> 27010000000" "1 \<le> n * unit_days u" using n by (cases u; simp)+
  have "duration_unit_change (field_number v) u = joinDuration (Fin (of_int n)) u"
    using split_days [of d] v(2,3) unfolding duration_unit_change_def v(1) field_number_int n_def by simp
  also have "\<dots> = Fin (of_int (n * unit_days u * 86400))" using n u by (intro join_days) simp_all
  finally show ?thesis
    using u n coarsest_times [OF n(1), of u] unfolding modest_interval_def by (intro exI [of _ "n * unit_days u"]) (simp add: num_js_def)
qed

interpretation modest: kept_interval modest_interval modest_event
proof unfold_locales
  show "modest_interval (JNum (of_int YEAR))"
    unfolding modest_interval_def by (intro exI [of _ 365]) (simp add: YEAR_def coarsest_def)
  show "modest_interval w" if "modest_interval v" "modest_event ev" "duration_change (field_number v) ev = Some w" for v ev w
    using that modest_amount modest_unit
    by (auto simp: duration_change_def duration_amount_def modest_event_def split: field_event.splits option.splits if_splits)
qed (auto simp: modest_interval_def)

section \<open>The editor on edited triggers\<close>

lemma template_trigger_kind:
  "T \<in> set (TEMPLATES now) \<Longrightarrow>
   prop_of (seeded T rs) ''trigger'' = trigger_js (ManualHeartbeat YEAR True) \<or>
   prop_of (seeded T rs) ''trigger'' = trigger_js (TimestampTrigger (now div 1000 + YEAR))"
  by (auto simp: TEMPLATES_def seeded_def xrp_inheritance_definition_def xrpInheritance_def or_default_def YEAR_def
      scheduled_distribution_definition_def scheduledDistribution_def)

lemma template_trigger:
  assumes "T \<in> set (TEMPLATES now)" "sane_clock now" "I (JNum (of_int YEAR))"
  shows "\<exists>t. prop_of (seeded T rs) ''trigger'' = edited_js t \<and> editable I a t"
proof -
  have "editable I a (Heart (JNum (of_int YEAR)) True)" using assms(3) by simp
  moreover have "editable I a (Stamp (now div 1000 + YEAR))" using clock_range [OF assms(2)] by (simp only: editable.simps)
  moreover have "trigger_js (ManualHeartbeat YEAR True) = edited_js (Heart (JNum (of_int YEAR)) True)"
    "trigger_js (TimestampTrigger (now div 1000 + YEAR)) = edited_js (Stamp (now div 1000 + YEAR))" by simp_all
  ultimately show ?thesis using template_trigger_kind [OF assms(1), of rs] by metis
qed

lemma all_results_ok: "list_all (\<lambda>x. \<exists>y. f x = Inr y \<and> g y = h x) xs \<Longrightarrow> \<exists>ys. all_results (map f xs) = Inr ys \<and> map g ys = map h xs"
  by (induction xs) force+

lemma field_shown:
  assumes "editable any_interval a t" "f \<in> set (k_fields (kind_spec t))"
  shows "\<exists>y. Field FU asset (edited_js t) f = Inr y \<and> fv_key y = f_key f"
proof -
  have "\<exists>s. date_shown (finite_num (field_number v)) = Some s" if "field_value any_interval Date v" for v
    using that by (auto simp: field_value_def date_shown_def time_of_seconds finite_num_def)
  then have "\<exists>s. date_shown (finite_num (field_number (prop_of (edited_js t) (f_key f)))) = Some s" if "f_input f = Date"
    using that any.trigger_field_value [OF assms] by metis
  then show ?thesis
    by (cases "f_input f") (auto simp: Field_def Let_def split: prod.split)
qed

lemma editor_renders:
  assumes "getAsset s = Inr (Asset a)" "editable any_interval a t"
  shows "\<exists>view. TriggerEditor FU (edited_js t) s = Inr view \<and> tv_kind view = JStr (k_kind (kind_spec t)) \<and>
    map fv_key (tv_fields view) = map f_key (k_fields (kind_spec t))"
proof -
  have "list_all (\<lambda>f. \<exists>y. Field FU (Asset a) (edited_js t) f = Inr y \<and> fv_key y = f_key f) (k_fields (kind_spec t))"
    using field_shown [OF assms(2)] by (simp add: list_all_iff)
  from all_results_ok [OF this] obtain ys where ys: "all_results (map (Field FU (Asset a) (edited_js t)) (k_fields (kind_spec t))) = Inr ys"
    "map fv_key ys = map f_key (k_fields (kind_spec t))" by blast
  have "nullish_or (prop_of (edited_js t) ''kind'') (JStr []) = JStr (k_kind (kind_spec t))" by (cases t) simp_all
  with ys assms(1) show ?thesis by (simp add: TriggerEditor_def)
qed

text \<open>The typed trigger an edited one is, unless its interval is endless; and what the schema still refuses.\<close>

fun well_edited :: "supported_asset \<Rightarrow> trigger \<Rightarrow> bool" where
  "well_edited a (ManualHeartbeat i d) = whole_days i"
| "well_edited a (ChainProofOfLife i s dest m) = (whole_days i \<and> s = fdcSourceId a \<and> (\<exists>v. m = int_str v))"
| "well_edited a (TimestampTrigger t) = (\<bar>t\<bar> \<le> 8640000000000)"

fun interval_of :: "trigger \<Rightarrow> int option" where
  "interval_of (ManualHeartbeat i d) = Some i"
| "interval_of (ChainProofOfLife i s dest m) = Some i"
| "interval_of (TimestampTrigger t) = None"

definition endless :: "jsv \<Rightarrow> bool" where
  "endless v \<longleftrightarrow> (\<exists>kvs. v = JObj kvs \<and> get_prop kvs ''intervalSeconds'' = JNonFinite True)"

text \<open>The edits whose amounts of time are at most a hundred thousand (days, months or years).\<close>

definition modest_edits :: "(int \<times> trigger_edit) list \<Rightarrow> bool" where
  "modest_edits es \<longleftrightarrow> list_all (\<lambda>e. case snd e of EditField key ev \<Rightarrow> modest_event ev | ChooseKind k \<Rightarrow> True) es"

lemma edits_ok_sane:
  "list_all (\<lambda>e. sane_clock (fst e)) es \<Longrightarrow> edits_ok (\<lambda>_. True) es"
  "list_all (\<lambda>e. sane_clock (fst e)) es \<Longrightarrow> modest_edits es \<Longrightarrow> edits_ok modest_event es"
  by (auto simp: edits_ok_def modest_edits_def list_all_iff split: trigger_edit.split)

lemma endless_refused:
  "z_spec triggerSchema (JObj [(''kind'', JStr ''manualHeartbeat''), (''intervalSeconds'', JNonFinite True), (''demoMode'', JBool d)]) = None"
  "z_spec triggerSchema (JObj [(''kind'', JStr ''chainProofOfLife''), (''intervalSeconds'', JNonFinite True), (''sourceId'', JStr s),
     (''destinationAddress'', JStr dest), (''minimumAmount'', JStr m)]) = None"
  by (simp_all add: triggerSchema_def manualHeartbeatTrigger_def chainProofOfLifeTrigger_def timestampTrigger_def z_spec.simps)

lemma editable_typed:
  assumes "editable any_interval a e"
  shows "(\<exists>t. edited_js e = trigger_js t \<and> well_edited a t) \<or> endless (edited_js e) \<and> z_spec triggerSchema (edited_js e) = None"
proof (cases e)
  case (Heart iv d)
  with assms consider "iv = JNonFinite True" | i where "iv = JNum (of_int i)" "whole_days i" by (auto simp: any_interval_def)
  then show ?thesis
    by cases (auto simp: Heart endless_def endless_refused intro!: exI [of _ "ManualHeartbeat i d" for i])
next
  case (Proof iv s dest m)
  with assms consider "iv = JNonFinite True" | i where "iv = JNum (of_int i)" "whole_days i" by (auto simp: any_interval_def)
  then show ?thesis
    using assms by cases (auto simp: Proof endless_def endless_refused intro!: exI [of _ "ChainProofOfLife i s dest m" for i])
next
  case (Stamp t)
  with assms show ?thesis by (auto intro!: exI [of _ "TimestampTrigger t"])
qed

lemma editable_modest:
  assumes "editable modest_interval a e"
  shows "\<exists>t. edited_js e = trigger_js t \<and> (\<forall>i. interval_of t = Some i \<longrightarrow> i < 2 ^ 53)"
proof (cases e)
  case (Heart iv d)
  with assms obtain k where "iv = JNum (of_int (k * 86400))" "k \<le> 27010000000" by (auto simp: modest_interval_def)
  then show ?thesis by (intro exI [of _ "ManualHeartbeat (k * 86400) d"]) (simp add: Heart)
next
  case (Proof iv s dest m)
  with assms obtain k where "iv = JNum (of_int (k * 86400))" "k \<le> 27010000000" by (auto simp: modest_interval_def)
  then show ?thesis by (intro exI [of _ "ChainProofOfLife (k * 86400) s dest m"]) (simp add: Proof)
next
  case (Stamp t)
  then show ?thesis by (intro exI [of _ "TimestampTrigger t"]) simp
qed

fun positive :: "trigger \<Rightarrow> bool" where
  "positive (ManualHeartbeat i d) = True"
| "positive (ChainProofOfLife i s dest m) = (\<exists>v. m = int_str v \<and> 0 < v)"
| "positive (TimestampTrigger t) = (0 < t)"

lemma re_amount_int: "re_amount (int_str v) \<longleftrightarrow> 0 < v"
proof -
  have "\<not> is_digit CHR ''-''" by code_simp
  then have "v < 0 \<Longrightarrow> \<not> re_amount (int_str v)" by (simp add: int_str_def re_amount_def)
  moreover have "\<not> re_amount (int_str 0)" by (simp add: int_str_def re_amount_def)
  moreover have "0 < v \<Longrightarrow> re_amount (int_str v)" by (simp add: int_str_def re_amount_nat_str)
  ultimately show ?thesis by (cases v "0 :: int" rule: linorder_cases) auto
qed

lemma wf_positive: "well_edited a t \<Longrightarrow> wf_trigger t \<longleftrightarrow> positive t"
proof (cases t)
  case (ChainProofOfLife i s dest m)
  assume "well_edited a t"
  with ChainProofOfLife obtain v where v: "m = int_str v" "0 < i" by (auto simp: whole_days_def)
  have "wf_trigger t \<longleftrightarrow> re_amount m" using v(2) by (simp add: ChainProofOfLife)
  also have "\<dots> \<longleftrightarrow> positive t" unfolding ChainProofOfLife positive.simps v(1) using re_amount_int by metis
  finally show ?thesis .
qed (simp_all add: whole_days_def)

lemma accepted_iff:
  assumes "well_edited a t"
  shows "z_spec triggerSchema (trigger_js t) = Some (trigger_js t) \<longleftrightarrow> positive t"
proof -
  have "wf_trigger t" if s: "z_spec triggerSchema (trigger_js t) = Some (trigger_js t)"
  proof -
    obtain t' where "trigger_of (trigger_js t) = Some t'" "wf_trigger t'" using trigger_sound [OF s] by blast
    moreover have "trigger_of (trigger_js t) = Some t" by (cases t) (simp_all add: trigger_of_def js_readers)
    ultimately show ?thesis by simp
  qed
  with wf_positive [OF assms] trigger_js_spec [of t] show ?thesis by blast
qed

text \<open>What a sequence of edits on a template's trigger leaves.\<close>

lemma edits_leave:
  assumes "T \<in> set (TEMPLATES now)" "sane_clock now" "list_all (\<lambda>e. sane_clock (fst e)) es" "getAsset ''FXRP'' = Inr (Asset a)"
  shows "\<exists>e. edit_all PU ''FXRP'' es (prop_of (seeded T rs) ''trigger'') = Inr (edited_js e) \<and> editable any_interval a e"
    "modest_edits es \<Longrightarrow>
      \<exists>e. edit_all PU ''FXRP'' es (prop_of (seeded T rs) ''trigger'') = Inr (edited_js e) \<and> editable modest_interval a e"
proof -
  obtain e0 where "prop_of (seeded T rs) ''trigger'' = edited_js e0" "editable any_interval a e0"
    using template_trigger [OF assms(1,2), where I = any_interval, OF any.default_kept] by blast
  with any.edits_editable [OF assms(4) _ edits_ok_sane(1) [OF assms(3)]]
  show "\<exists>e. edit_all PU ''FXRP'' es (prop_of (seeded T rs) ''trigger'') = Inr (edited_js e) \<and> editable any_interval a e" by metis
next
  assume m: "modest_edits es"
  obtain e0 where "prop_of (seeded T rs) ''trigger'' = edited_js e0" "editable modest_interval a e0"
    using template_trigger [OF assms(1,2), where I = modest_interval, OF modest.default_kept] by blast
  with modest.edits_editable [OF assms(4) _ edits_ok_sane(2) [OF assms(3) m]]
  show "\<exists>e. edit_all PU ''FXRP'' es (prop_of (seeded T rs) ''trigger'') = Inr (edited_js e) \<and> editable modest_interval a e" by metis
qed

text \<open>C29: However the trigger of a draft is edited, the editor can render it, showing exactly the fields
  of the kind it has: from either template and after any sequence of choices of a kind and of
  entries in its fields. What it passes on is one of the schema's triggers, which the schema
  accepts as it is unless its amount or its date is not positive, and whose interval is at least
  a day, and a whole number of days while it is below 2^53 seconds; or its interval has overflowed to
  infinity, and the schema refuses it. The latter never happens, and the interval is below
  2^53, when no amount of time above a hundred thousand is entered.\<close>

theorem edited_trigger_is_typed:
  assumes "T \<in> set (TEMPLATES now)" "sane_clock now" "list_all (\<lambda>e. sane_clock (fst e)) es"
  shows "\<exists>v a. edit_all PU ''FXRP'' es (prop_of (seeded T rs) ''trigger'') = Inr v \<and> getAsset ''FXRP'' = Inr (Asset a) \<and>
    (\<exists>spec view. spec_of v = Some spec \<and> TriggerEditor FU v ''FXRP'' = Inr view \<and> tv_kind view = JStr (k_kind spec) \<and>
      map fv_key (tv_fields view) = map f_key (k_fields spec)) \<and>
    ((\<exists>t. v = trigger_js t \<and> well_edited a t \<and> (z_spec triggerSchema v = Some v \<longleftrightarrow> positive t)) \<or>
      endless v \<and> z_spec triggerSchema v = None) \<and>
    (modest_edits es \<longrightarrow> (\<exists>t. v = trigger_js t \<and> (\<forall>i. interval_of t = Some i \<longrightarrow> i < 2 ^ 53)))"
proof -
  obtain a where a: "getAsset ''FXRP'' = Inr (Asset a)" by (simp add: getAsset_def asset_index_def ASSETS_def)
  obtain e where e: "edit_all PU ''FXRP'' es (prop_of (seeded T rs) ''trigger'') = Inr (edited_js e)" "editable any_interval a e"
    using edits_leave(1) [OF assms a] by blast
  have m: "modest_edits es \<Longrightarrow> \<exists>t. edited_js e = trigger_js t \<and> (\<forall>i. interval_of t = Some i \<longrightarrow> i < 2 ^ 53)"
    using edits_leave(2) [OF assms a, of PU rs] e(1) editable_modest by (metis sum.inject(2))
  have "(\<exists>t. edited_js e = trigger_js t \<and> well_edited a t \<and> (z_spec triggerSchema (edited_js e) = Some (edited_js e) \<longleftrightarrow> positive t)) \<or>
      endless (edited_js e) \<and> z_spec triggerSchema (edited_js e) = None"
    using editable_typed [OF e(2)] accepted_iff by metis
  with a e(1) m editor_renders [OF a e(2), of FU] show ?thesis
    by (intro exI [of _ "edited_js e"] exI [of _ a]) auto
qed

lemma edited_trigger_is_typed_witness:
  "\<exists>t. edit_all demo_parse ''FXRP'' [(0, ChooseKind ''chainProofOfLife''), (0, EditField ''intervalSeconds'' (UnitOfTime Months))]
      (prop_of (seeded xrp_inheritance_definition initial_recipients) ''trigger'') = Inr (trigger_js t) \<and>
    (\<exists>view. TriggerEditor demo_formatUnits (trigger_js t) ''FXRP'' = Inr view)"
proof -
  let ?es = "[(0, ChooseKind ''chainProofOfLife''), (0, EditField ''intervalSeconds'' (UnitOfTime Months))] :: (int \<times> trigger_edit) list"
  have T: "xrp_inheritance_definition \<in> set (TEMPLATES 0)" "sane_clock 0" "list_all (\<lambda>e. sane_clock (fst e)) ?es" "modest_edits ?es"
    by (simp_all add: TEMPLATES_def sane_clock_def modest_edits_def modest_event_def)
  from edited_trigger_is_typed [OF T(1-3), of demo_parse initial_recipients demo_formatUnits] T(4) show ?thesis by metis
qed

section \<open>The edited draft\<close>

lemma draft_ir:
  assumes "T \<in> set (TEMPLATES now)" "b_trigger b = trigger_js t"
  shows "\<exists>n. draft T b = ir_js (built_ir n t (b_recipients b)) \<and> n \<noteq> [] \<and> 1 \<le> js_length n \<and> js_length n \<le> 120"
proof -
  obtain n t0 where n: "seeded T (b_recipients b) = ir_js (built_ir n t0 (b_recipients b))" "n = ''XRP Inheritance'' \<or> n = ''Scheduled Distribution''"
    using assms(1) by (auto simp: TEMPLATES_def seeded_def xrp_inheritance_definition_def scheduled_distribution_definition_def
        xrpInheritance_ir scheduledDistribution_ir or_default_def)
  have "nullish_or (trigger_js t) d = trigger_js t" for d by (cases t) (simp_all add: nullish_or_def)
  then have "draft T b = ir_js (built_ir n t (b_recipients b))"
    by (simp add: draft_def n(1) assms(2) set_field_def ir_js_def built_ir_def)
  moreover have "n \<noteq> []" "1 \<le> js_length n" "js_length n \<le> 120" using n(2) by auto
  ultimately show ?thesis by blast
qed

lemma edited_compiles:
  assumes "zod_documented zod" "viem_documented V" "T \<in> set (TEMPLATES now)" "wf_shares (b_recipients b)"
    and "\<forall>r \<in> set (b_recipients b). is_address (keccak256 V) (address r)" "hex_value slt = Some s" "length s = 32"
    and "b_trigger b = trigger_js t" "wf_trigger t"
  shows "\<exists>c n. compile zod V (draft T b) slt = Inr c \<and> pub_trigger (publicArgs c) = t \<and> recipients (privateConfig c) = b_recipients b \<and>
    ir c = built_ir n t (b_recipients b)"
proof -
  obtain n where n: "draft T b = ir_js (built_ir n t (b_recipients b))" "n \<noteq> []" "1 \<le> js_length n" "js_length n \<le> 120"
    using draft_ir [OF assms(3,8)] by blast
  from compile_total [OF assms(1,2) wf_built [OF assms(4,9) n(2-)] finite_built _ assms(6,7)]
  obtain c where c: "compile zod V (draft T b) slt = Inr c" "compile_ir V (built_ir n t (b_recipients b)) slt = Inr c"
    using assms(5) by (auto simp: n(1) built_ir_def ASSETS_def)
  from compile_ir_Inr [OF c(2)] c(1) show ?thesis by (auto simp: built_ir_def config_of_def)
qed

lemma trigger_spec_same:
  assumes "z_spec triggerSchema (trigger_js t) = Some x"
  shows "x = trigger_js t"
proof -
  consider "z_spec manualHeartbeatTrigger (trigger_js t) = Some x" | "z_spec chainProofOfLifeTrigger (trigger_js t) = Some x"
    | "z_spec timestampTrigger (trigger_js t) = Some x"
    using z_spec_union [OF assms [unfolded triggerSchema_def]] by auto
  then show ?thesis
    by cases (cases t; auto simp: manualHeartbeatTrigger_def chainProofOfLifeTrigger_def timestampTrigger_def amountSchema_def
        z_iffs list_all2_Cons1 present_def)+
qed

text \<open>A draft whose trigger the schema refuses does not compile.\<close>

lemma unaccepted_refused:
  assumes "zod_documented zod" "T \<in> set (TEMPLATES now)" "b_trigger b = JObj kvs" "z_spec triggerSchema (b_trigger b) = None"
  shows "compile zod V (draft T b) slt \<noteq> Inr c"
proof
  assume c: "compile zod V (draft T b) slt = Inr c"
  obtain t where "draft_of (draft T b) (b_recipients b) (nullish_or (b_trigger b) t)" using draft_shape [OF assms(2)] by blast
  then have d: "draft_of (draft T b) (b_recipients b) (b_trigger b)" by (simp add: assms(3) nullish_or_def)
  then obtain ks where k: "draft T b = JObj ks" "get_prop ks ''trigger'' = b_trigger b" by (auto simp: draft_of_def)
  obtain data where "zod policyIrSchema (draft T b) = Inr data" using c by (auto simp: compile_def split: sum.splits)
  from zod_Inr_domain [OF assms(1) draft_domain [OF d] this] obtain w where "z_spec policyObject (draft T b) = Some w"
    by (auto simp: policyIrSchema_def z_spec.simps split: option.splits)
  then obtain x where "z_spec triggerSchema (b_trigger b) = Some x"
    by (auto simp: k policyObject_def z_spec_object list_all2_Cons1)
  with assms(4) show False by simp
qed

lemma unpositive_unaccepted:
  assumes "\<not> wf_trigger t"
  shows "z_spec triggerSchema (trigger_js t) = None"
proof (rule ccontr)
  assume "z_spec triggerSchema (trigger_js t) \<noteq> None"
  then obtain x where x: "z_spec triggerSchema (trigger_js t) = Some x" by blast
  moreover have "trigger_of (trigger_js t) = Some t" by (cases t) (simp_all add: trigger_of_def js_readers)
  ultimately show False using trigger_spec_same [OF x] trigger_sound [OF x] assms by auto
qed

lemma edited_object: "\<exists>kvs. edited_js e = JObj kvs"
  by (cases e) simp_all

text \<open>C28: A draft whose trigger was edited compiles to exactly that trigger and the recipients of the
  page: from either template, with valid shares and after any sequence of edits, compiling
  succeeds just when the trigger's interval has not overflowed to infinity and its amount or
  date is positive, and what goes on chain is the trigger that was on screen, whichever kind and
  values the user left it with. Without an amount of time above a hundred thousand no interval overflows.\<close>

theorem edited_draft_compiles:
  assumes "zod_documented zod" "viem_documented V" "T \<in> set (TEMPLATES now)" "sane_clock now" "list_all (\<lambda>e. sane_clock (fst e)) es"
    and "edit_all PU ''FXRP'' es (prop_of (seeded T rs) ''trigger'') = Inr (b_trigger b)"
    and "wf_shares (b_recipients b)" "\<forall>r \<in> set (b_recipients b). is_address (keccak256 V) (address r)"
    and "hex_value slt = Some s" "length s = 32"
  shows "((\<exists>t. b_trigger b = trigger_js t \<and>
      (if positive t
       then \<exists>c. compile zod V (draft T b) slt = Inr c \<and> pub_trigger (publicArgs c) = t \<and> recipients (privateConfig c) = b_recipients b
       else \<forall>c. compile zod V (draft T b) slt \<noteq> Inr c)) \<or>
     endless (b_trigger b) \<and> (\<forall>c. compile zod V (draft T b) slt \<noteq> Inr c)) \<and>
    (modest_edits es \<longrightarrow> (\<exists>t. b_trigger b = trigger_js t))"
proof -
  obtain a where a: "getAsset ''FXRP'' = Inr (Asset a)" by (simp add: getAsset_def asset_index_def ASSETS_def)
  obtain e where e: "b_trigger b = edited_js e" "editable any_interval a e"
    using edits_leave(1) [OF assms(3-5) a, of PU rs] assms(6) by auto
  have m: "modest_edits es \<Longrightarrow> \<exists>t. b_trigger b = trigger_js t"
    using edits_leave(2) [OF assms(3-5) a, of PU rs] assms(6) editable_modest by (metis sum.inject(2))
  obtain kvs where o: "b_trigger b = JObj kvs" using edited_object [of e] e(1) by auto
  note refused = unaccepted_refused [OF assms(1,3) o]
  from editable_typed [OF e(2)] show ?thesis
  proof
    assume "\<exists>t. edited_js e = trigger_js t \<and> well_edited a t"
    then obtain t where t: "b_trigger b = trigger_js t" "well_edited a t" using e(1) by auto
    have "if positive t
        then \<exists>c. compile zod V (draft T b) slt = Inr c \<and> pub_trigger (publicArgs c) = t \<and> recipients (privateConfig c) = b_recipients b
        else \<forall>c. compile zod V (draft T b) slt \<noteq> Inr c"
    proof (cases "positive t")
      case True
      with edited_compiles [OF assms(1-3,7-10) t(1)] wf_positive [OF t(2)] show ?thesis by auto
    next
      case False
      with refused unpositive_unaccepted [of t] wf_positive [OF t(2)] t(1) show ?thesis by simp
    qed
    with t(1) m show ?thesis by blast
  qed (use e(1) refused m in auto)
qed

text \<open>C10: Choosing the payment trigger and reviewing at once compiles a policy nobody can keep alive:
  on either template its proof-of-life payments go to the empty address, which neither the
  editor, nor the schema, nor the deployment refuses; the trigger is configured with the hash
  of the empty text.\<close>

theorem unaddressed_payment_deploys:
  assumes "zod_documented zod" "viem_documented V" "T \<in> set (TEMPLATES now)"
    and "edit_trigger PU ''FXRP'' (now', ChooseKind ''chainProofOfLife'') (prop_of (seeded T rs) ''trigger'') = Inr (b_trigger b)"
    and "wf_shares (b_recipients b)" "\<forall>r \<in> set (b_recipients b). is_address (keccak256 V) (address r)"
    and "hex_value slt = Some s" "length s = 32" "is_address (keccak256 V) policy" "address_value policy = Some w"
  shows "\<exists>c abi f kvs. compile zod V (draft T b) slt = Inr c \<and>
    pub_trigger (publicArgs c) = ChainProofOfLife YEAR ''testXRP'' [] ''100000'' \<and>
    configureRequest V start (pub_trigger (publicArgs c)) owner policy = Inr (abi, f, [JStr policy, JObj kvs]) \<and>
    get_prop kvs ''destinationAddressHash'' = JStr (''0x'' @ bytes_hex (keccak256 V []))"
proof -
  let ?t = "ChainProofOfLife YEAR ''testXRP'' [] ''100000''"
  obtain a where a: "getAsset ''FXRP'' = Inr (Asset a)" "fdcSourceId a = ''testXRP''" "minimumHeartbeat a = 100000"
    by (simp add: getAsset_def asset_index_def ASSETS_def)
  have "digit 0 = CHR ''0''" "digit (Suc 0) = CHR ''1''" by code_simp+
  then have n: "int_str 100000 = ''100000''" by (simp add: int_str_def nat_str.simps)
  have am: "re_amount ''100000''" using re_amount_int [of 100000] unfolding n by simp
  have t: "b_trigger b = trigger_js ?t"
    using assms(3,4) template_trigger_kind [OF assms(3), of rs]
    by (auto simp: edit_trigger_def switchTriggerKind_def a carry_kind carry_one_def kind_defaults n)
  have big: "big_of_string ''100000'' = Inr 100000"
    using BigInt_int_str [of 100000] unfolding n by (simp add: big_of_string_def)
  have src: "\<exists>x. stringToBytes32 ''testXRP'' = Inr x" by (simp add: stringToBytes32_def utf8_bytes_def Let_def)
  have "wf_trigger ?t" using am by (simp add: YEAR_def)
  from edited_compiles [OF assms(1-3,5-8) t this] obtain c where c: "compile zod V (draft T b) slt = Inr c" "pub_trigger (publicArgs c) = ?t"
    by blast
  have "\<exists>abi f kvs. configureRequest V start ?t owner policy = Inr (abi, f, [JStr policy, JObj kvs]) \<and>
      get_prop kvs ''destinationAddressHash'' = JStr (''0x'' @ bytes_hex (keccak256 V []))"
    using policyReference_Inr [OF assms(2,9,10)] src big
    by (auto simp: configureRequest_def utf8_bytes_def)
  with c show ?thesis by auto
qed

definition demo_builder :: "jsv \<Rightarrow> builder" where
  "demo_builder tr = initial_builder\<lparr> b_recipients := [demo_share CHR ''1'' 10000], b_trigger := tr \<rparr>"

lemma demo_builder_facts: "wf_shares (b_recipients (demo_builder tr))" "b_trigger (demo_builder tr) = tr"
    "\<forall>r \<in> set (b_recipients (demo_builder tr)). is_address (keccak256 demo_viem) (address r)"
proof -
  let ?s = "demo_share CHR ''1'' 10000"
  have w: "wf_shares [?s]" "lower_case (address ?s) = address ?s" "re_address (address ?s)" by code_simp+
  then show "wf_shares (b_recipients (demo_builder tr))" "b_trigger (demo_builder tr) = tr"
    "\<forall>r \<in> set (b_recipients (demo_builder tr)). is_address (keccak256 demo_viem) (address r)"
    by (simp_all add: demo_builder_def is_address_def)
qed

lemma edited_draft_compiles_witness:
  "\<exists>c. compile demo_zod demo_viem (draft xrp_inheritance_definition (demo_builder (trigger_js (ManualHeartbeat YEAR False)))) demo_salt = Inr c \<and>
    pub_trigger (publicArgs c) = ManualHeartbeat YEAR False"
proof -
  have T: "xrp_inheritance_definition \<in> set (TEMPLATES 0)" "sane_clock 0" by (simp_all add: TEMPLATES_def sane_clock_def)
  obtain s where s: "hex_value demo_salt = Some s" "length s = 32" using demo_salt_bytes by blast
  let ?es = "[(0, EditField ''demoMode'' (Toggled False))]" and ?b = "demo_builder (trigger_js (ManualHeartbeat YEAR False))"
  have es: "list_all (\<lambda>e. sane_clock (fst e)) ?es" by (simp add: sane_clock_def)
  have "find (\<lambda>f. f_key f = ''demoMode'') (k_fields heartbeat_spec) = Some (k_fields heartbeat_spec ! 1)"
    by (simp add: heartbeat_spec_def field_def)
  moreover have "prop_of (seeded xrp_inheritance_definition initial_recipients) ''trigger'' = trigger_js (ManualHeartbeat YEAR True)"
    by (simp add: seeded_def xrp_inheritance_definition_def xrpInheritance_def or_default_def YEAR_def)
  moreover have "spec_of (trigger_js (ManualHeartbeat YEAR True)) = Some heartbeat_spec" by (simp add: spec_of_def)
  ultimately have run: "edit_all demo_parse ''FXRP'' ?es (prop_of (seeded xrp_inheritance_definition initial_recipients) ''trigger'') = Inr (b_trigger ?b)"
    by (simp add: edit_trigger_def demo_builder_facts getAsset_def asset_index_def ASSETS_def field_change_def set_field_def)
  have "\<not> endless (trigger_js (ManualHeartbeat YEAR False))" by (simp add: endless_def)
  then have "\<exists>t. trigger_js (ManualHeartbeat YEAR False) = trigger_js t \<and>
      (if positive t then \<exists>c. compile demo_zod demo_viem (draft xrp_inheritance_definition ?b) demo_salt = Inr c \<and> pub_trigger (publicArgs c) = t
       else \<forall>c. compile demo_zod demo_viem (draft xrp_inheritance_definition ?b) demo_salt \<noteq> Inr c)"
    using edited_draft_compiles [OF demo_zod_documented demo_viem_documented T es run demo_builder_facts(1,3) s]
    unfolding demo_builder_facts(2) by (fastforce split: if_splits)
  then obtain t where t: "trigger_js (ManualHeartbeat YEAR False) = trigger_js t"
    "positive t \<longrightarrow> (\<exists>c. compile demo_zod demo_viem (draft xrp_inheritance_definition ?b) demo_salt = Inr c \<and> pub_trigger (publicArgs c) = t)"
    by (auto split: if_splits)
  from t(1) have "t = ManualHeartbeat YEAR False" by (cases t) simp_all
  with t(2) show ?thesis by simp
qed

lemma unaddressed_payment_deploys_witness:
  "\<exists>c b abi f kvs. compile demo_zod demo_viem (draft xrp_inheritance_definition b) demo_salt = Inr c \<and>
    pub_trigger (publicArgs c) = ChainProofOfLife YEAR ''testXRP'' [] ''100000'' \<and>
    configureRequest demo_viem 0 (pub_trigger (publicArgs c)) [] (address (demo_share CHR ''1'' 10000)) =
      Inr (abi, f, [JStr (address (demo_share CHR ''1'' 10000)), JObj kvs])"
proof -
  have T: "xrp_inheritance_definition \<in> set (TEMPLATES 0)" by (simp add: TEMPLATES_def)
  obtain s where s: "hex_value demo_salt = Some s" "length s = 32" using demo_salt_bytes by blast
  obtain w where w: "address_value (address (demo_share CHR ''1'' 10000)) = Some w"
    "is_address (keccak256 demo_viem) (address (demo_share CHR ''1'' 10000))"
    using demo_builder_facts(3) by (auto simp: demo_builder_def is_address_def re_address_value)
  obtain tr where "edit_trigger demo_parse ''FXRP'' (0, ChooseKind ''chainProofOfLife'')
      (prop_of (seeded xrp_inheritance_definition initial_recipients) ''trigger'') = Inr tr"
    using template_trigger_kind [OF T, of initial_recipients]
    by (auto simp: edit_trigger_def switchTriggerKind_def getAsset_def asset_index_def ASSETS_def kind_defaults)
  from unaddressed_payment_deploys [OF demo_zod_documented demo_viem_documented T, where b = "demo_builder tr", unfolded demo_builder_facts(2),
      OF this demo_builder_facts(1,3) s w(2,1)] show ?thesis by blast
qed

end
