(* ===== verification/Forms.thy ===== *)
theory Forms
  imports TriggerFields
begin

text \<open>
  What the builder's page renders: the identity of each primitive
  (apps/web/components/primitive-meta.tsx), the step strip and the form
  (components/policy-form.tsx), the recipients editor (components/recipients-editor.tsx) and
  the review (components/review-drawer.tsx). A component is what it shows and where its controls
  lead; a rendering that throws is an error. What is shown: the form renders on every draft the
  builder can hold, its heading, strip and buttons agree, and walking on with Next visits every step
  and ends at the review.
\<close>

section \<open>Primitives and the step strip\<close>

record primitive_meta =
  pm_label :: string
  pm_colour :: string
  pm_icon :: string

definition PRIMITIVE :: "(string \<times> primitive_meta) list" where
  "PRIMITIVE =
     [(''asset'', \<lparr> pm_label = ''Asset'', pm_colour = ''#1e5fa8'', pm_icon = ''CoinIcon'' \<rparr>),
      (''trigger'', \<lparr> pm_label = ''Trigger'', pm_colour = ''#96601a'', pm_icon = ''BoltIcon'' \<rparr>),
      (''condition'', \<lparr> pm_label = ''Condition'', pm_colour = ''#0f7b4a'', pm_icon = ''FilterIcon'' \<rparr>),
      (''confidential'', \<lparr> pm_label = ''Confidential inputs'', pm_colour = ''#6134c4'', pm_icon = ''LockIcon'' \<rparr>),
      (''action'', \<lparr> pm_label = ''Action'', pm_colour = ''#e62058'', pm_icon = ''ArrowIcon'' \<rparr>)]"

text \<open>Reading a member of \<open>PRIMITIVE[type]\<close>.\<close>

definition primitive_meta_of :: "string \<Rightarrow> js_error + primitive_meta" where
  "primitive_meta_of t =
     (case map_of PRIMITIVE t of
        None \<Rightarrow> Inl (TypeErr ''Cannot read properties of undefined (reading 'colour')'')
      | Some m \<Rightarrow> Inr m)"

record strip_button =
  sb_step :: string
  sb_label :: string
  sb_current :: bool
  sb_colour :: string
  sb_icon :: string
  sb_arrow :: bool

definition strip_button :: "(jsv \<Rightarrow> string) \<Rightarrow> jsv \<Rightarrow> string \<Rightarrow> nat \<times> diagram_node \<Rightarrow> js_error + strip_button" where
  "strip_button fmt pol activeId e =
     (case e of (i, node) \<Rightarrow>
        and_then (inspectorFor fmt (Some (n_id node)) pol) (\<lambda>panel.
        and_then (primitive_meta_of (n_type node)) (\<lambda>meta.
        let active = (n_id node = activeId) in
        Inr \<lparr> sb_step = n_id node, sb_label = p_label panel, sb_current = active,
              sb_colour = (if active then ''var(--accent)'' else pm_colour meta), sb_icon = pm_icon meta, sb_arrow = (0 < i) \<rparr>)))"

definition StepStrip :: "(jsv \<Rightarrow> string) \<Rightarrow> diagram_node list \<Rightarrow> jsv \<Rightarrow> string \<Rightarrow> js_error + strip_button list" where
  "StepStrip fmt steps pol activeId = all_results (map (strip_button fmt pol activeId) (List.enumerate 0 steps))"

section \<open>The recipients editor\<close>

record recipient_row =
  rr_name :: string
  rr_percent :: rat
  rr_remove :: string
  rr_address :: string
  rr_invalid :: bool

record recipients_view =
  rv_rows :: "recipient_row list"
  rv_total :: string
  rv_balanced :: bool
  rv_split :: bool
  rv_warning :: "string option"

definition recipient_row_of :: "share \<Rightarrow> recipient_row" where
  "recipient_row_of r =
     \<lparr> rr_name = (case label r of None \<Rightarrow> [] | Some l \<Rightarrow> l), rr_percent = of_int (shareBps r) / 100,
       rr_remove = ''Remove '' @ (case label r of None \<Rightarrow> ''recipient'' | Some l \<Rightarrow> if l = [] then ''recipient'' else l),
       rr_address = address r, rr_invalid = invalid_address r \<rparr>"

definition RecipientsEditor :: "share list \<Rightarrow> recipients_view" where
  "RecipientsEditor rs =
     \<lparr> rv_rows = map recipient_row_of rs, rv_total = share_text (total_bps rs), rv_balanced = balanced rs,
       rv_split = offers_even_split rs,
       rv_warning = (if \<not> balanced rs \<and> rs \<noteq> [] then Some ''Shares must total 100% before this policy can be deployed.'' else None) \<rparr>"

section \<open>The form\<close>

datatype form_body =
    TriggerBody trigger_view
  | RecipientsBody recipients_view
  | RowsBody "(string \<times> jsv) list"

datatype form_next = NextStep string | ReviewAndDeploy

record form_view =
  fo_strip :: "strip_button list"
  fo_title :: string
  fo_icon :: string
  fo_count :: string
  fo_help :: "string option"
  fo_body :: form_body
  fo_back :: "string option"
  fo_next :: form_next

definition form_body_of :: "(int \<Rightarrow> int option \<Rightarrow> string) \<Rightarrow> inspector_panel \<Rightarrow> jsv \<Rightarrow> share list \<Rightarrow> js_error + form_body" where
  "form_body_of formatUnits panel pol rs =
     (if p_editor panel = Some ''trigger'' then
        and_then (TriggerEditor formatUnits (prop_of pol ''trigger'') (js_text (prop_of pol ''asset''))) (\<lambda>v. Inr (TriggerBody v))
      else if p_editor panel = Some ''recipients'' then Inr (RecipientsBody (RecipientsEditor rs))
      else Inr (RowsBody (p_rows panel)))"

definition form_next_of :: "diagram_node list \<Rightarrow> string \<Rightarrow> form_next" where
  "form_next_of steps step = (case next_step steps step of None \<Rightarrow> ReviewAndDeploy | Some i \<Rightarrow> NextStep i)"

definition PolicyForm ::
  "(int \<Rightarrow> int option \<Rightarrow> string) \<Rightarrow> (jsv \<Rightarrow> string) \<Rightarrow> diagram_node list \<Rightarrow> jsv \<Rightarrow> string \<Rightarrow> share list \<Rightarrow> js_error + form_view option" where
  "PolicyForm formatUnits fmt steps pol step rs =
     (case current_step steps step of
        None \<Rightarrow> Inr None
      | Some current \<Rightarrow>
          and_then (inspectorFor fmt (Some (n_id current)) pol) (\<lambda>panel.
          and_then (primitive_meta_of (n_type current)) (\<lambda>meta.
          and_then (StepStrip fmt steps pol (n_id current)) (\<lambda>strip.
          and_then (form_body_of formatUnits panel pol rs) (\<lambda>body.
          Inr (Some \<lparr> fo_strip = strip, fo_title = p_title panel, fo_icon = pm_icon meta,
                fo_count = ''Step '' @ nat_str (step_index steps step + 1) @ '' of '' @ nat_str (length steps),
                fo_help = (if p_help panel = [] then None else Some (p_help panel)), fo_body = body,
                fo_back = back_step steps step, fo_next = form_next_of steps step \<rparr>))))))"

text \<open>What the builder's page renders of its state: the diagram's nodes through the form.\<close>

definition builder_form :: "(int \<Rightarrow> int option \<Rightarrow> string) \<Rightarrow> (jsv \<Rightarrow> string) \<Rightarrow> template \<Rightarrow> builder \<Rightarrow> js_error + form_view option" where
  "builder_form formatUnits fmt T b =
     and_then (graphFromIr fmt (draft T b)) (\<lambda>(steps, _).
     PolicyForm formatUnits fmt steps (draft T b) (b_step b) (b_recipients b))"

section \<open>The review\<close>

definition review_governs :: "compiled_policy \<Rightarrow> js_error + string" where
  "review_governs c =
     and_then (getAsset (ir_asset (ir c))) (\<lambda>asset. Inr (''This policy governs your '' @ js_text (asset_name asset) @ ''.''))"

definition asset_field :: "(supported_asset \<Rightarrow> string) \<Rightarrow> asset_lookup \<Rightarrow> string" where
  "asset_field f l = (case l of Asset a \<Rightarrow> f a | Inherited _ \<Rightarrow> ''undefined'')"

text \<open>\<open>Internals\<close>: the rows under the hood. \<open>plaintext.length\<close> counts UTF-16 units.\<close>

definition review_internals :: "compiled_policy \<Rightarrow> string \<Rightarrow> js_error + (string \<times> string) list" where
  "review_internals c slt =
     and_then (getAsset (ir_asset (ir c))) (\<lambda>asset.
     Inr ([(''Asset'', asset_field a_symbol asset @ '' (FAsset, '' @ asset_decimals asset @ '' decimals)''),
           (''Resolved via'', ''FlareContractRegistry '' @ [CHR 0xE2, CHR 0x86, CHR 0x92] @ '' '' @ asset_field assetManagerKey asset @
             '' '' @ [CHR 0xE2, CHR 0x86, CHR 0x92] @ '' fAsset()''),
           (''Trigger'', Deploy.trigger_kind (ir_trigger (ir c)))] @
          (if Deploy.trigger_kind (ir_trigger (ir c)) \<noteq> ''timestamp'' then [(''FDC source'', asset_field fdcSourceId asset)] else []) @
          [(''Price feed'', asset_field ftsoFeedId asset), (''Commitment'', commitment (publicArgs c)), (''Salt'', slt),
           (''Encrypted payload'', nat_str (js_length (plaintext c)) @ '' bytes'')]))"

record review_view =
  rw_error :: "string option"
  rw_summary :: "(string list \<times> (string \<times> string \<times> string) list) option"
  rw_internals :: "(string \<times> string) list option"
  rw_deployable :: bool

text \<open>The drawer on a draft, with the internals open or not.\<close>

definition ReviewDrawer ::
  "(jsv \<Rightarrow> compile_error + compiled_policy) \<Rightarrow> (compile_error \<Rightarrow> string) \<Rightarrow> (int \<Rightarrow> string) \<Rightarrow> string \<Rightarrow> bool \<Rightarrow> jsv \<Rightarrow> js_error + review_view" where
  "ReviewDrawer cmp msg fmt slt showInternals pol =
     (case cmp pol of
        Inl e \<Rightarrow> Inr \<lparr> rw_error = (if msg e = [] then None else Some (msg e)), rw_summary = None, rw_internals = None, rw_deployable = False \<rparr>
      | Inr c \<Rightarrow>
          and_then (review_governs c) (\<lambda>governs.
          and_then (if showInternals then and_then (review_internals c slt) (\<lambda>r. Inr (Some r)) else Inr None) (\<lambda>internals.
          Inr \<lparr> rw_error = None,
                rw_summary = Some ([governs, review_when fmt (ir_trigger (ir c)), ''Your balance will then be distributed:''], review_rows c),
                rw_internals = internals, rw_deployable = True \<rparr>)))"

section \<open>Lemmas\<close>

text \<open>The table has an entry for every type of node, with the name the inspector gives its panel.\<close>

lemma primitive_known:
  "t \<in> {''asset'', ''trigger'', ''condition'', ''confidential'', ''action''} \<Longrightarrow>
   \<exists>m. primitive_meta_of t = Inr m \<and> pm_label m = label_for t"
  by (auto simp: primitive_meta_of_def PRIMITIVE_def label_for_def)

lemma graph_types:
  assumes "graphFromIr fmt pol = Inr (ns, es)" "n \<in> set ns"
  shows "n_type n \<in> {''asset'', ''trigger'', ''condition'', ''confidential'', ''action''}"
proof -
  from assms(1) obtain cs as count asset cns ces up ans aes where
      chain: "condition_chain 0 ''trigger'' cs = (cns, ces, up)" and row: "action_row 0 up as = (ans, aes)"
    and ns: "ns = [\<lparr> n_id = ''asset'', n_type = ''asset'', n_data = [(''symbol'', asset_symbol asset), (''name'', asset_name asset)] \<rparr>,
        \<lparr> n_id = ''trigger'', n_type = ''trigger'', n_data = described (describeTrigger fmt (prop_of pol ''trigger'')) \<rparr>] @ cns @
      (if 0 < count then [\<lparr> n_id = ''confidential'', n_type = ''confidential'', n_data = [(''count'', JNum (of_nat count))] \<rparr>] else []) @ ans"
    by (rule graphFromIr_parts)
  then show ?thesis
    using condition_chain_shape [OF chain] action_row_shape [OF row] assms(2) by (auto split: if_splits)
qed

definition panelled :: "(jsv \<Rightarrow> string) \<Rightarrow> jsv \<Rightarrow> diagram_node list \<Rightarrow> bool" where
  "panelled fmt pol ns \<longleftrightarrow>
     (\<forall>n \<in> set ns. (\<exists>p. inspectorFor fmt (Some (n_id n)) pol = Inr p \<and> p_label p = label_for (n_type n)) \<and>
        (\<exists>m. primitive_meta_of (n_type n) = Inr m \<and> pm_label m = label_for (n_type n)))"

lemma draft_panelled:
  assumes "draft_of pol rs t" "graphFromIr fmt pol = Inr (ns, es)"
  shows "panelled fmt pol ns"
proof -
  have c: "\<And>cs. array_or_empty (prop_of pol ''conditions'') = Inr cs \<Longrightarrow> list_all is_object cs"
    "\<And>as. array_or_empty (prop_of pol ''actions'') = Inr as \<Longrightarrow> list_all is_object as"
    using assms(1) by (auto simp: draft_of_def array_or_empty_def is_object_def)
  show ?thesis
    unfolding panelled_def
    using every_node_has_its_panel [OF assms(2) _ c] primitive_known graph_types [OF assms(2)] by blast
qed

lemma strip_shown:
  assumes "panelled fmt pol ns"
  shows "\<exists>strip. StepStrip fmt ns pol act = Inr strip \<and> map sb_step strip = map n_id ns \<and>
    map sb_current strip = map (\<lambda>n. n_id n = act) ns \<and> map sb_label strip = map (\<lambda>n. label_for (n_type n)) ns"
proof -
  have "list_all (\<lambda>e. \<exists>y. strip_button fmt pol act e = Inr y \<and> (sb_step y, sb_current y, sb_label y) =
      (n_id (snd e), n_id (snd e) = act, label_for (n_type (snd e)))) (List.enumerate 0 ns)"
  proof (unfold list_all_iff, rule ballI)
    fix e assume "e \<in> set (List.enumerate 0 ns)"
    then have "snd e \<in> set ns" by (metis in_set_enumerate_eq add.right_neutral diff_zero nth_mem)
    with assms obtain p m where "inspectorFor fmt (Some (n_id (snd e))) pol = Inr p" "p_label p = label_for (n_type (snd e))"
      "primitive_meta_of (n_type (snd e)) = Inr m" unfolding panelled_def by blast
    then show "\<exists>y. strip_button fmt pol act e = Inr y \<and> (sb_step y, sb_current y, sb_label y) =
        (n_id (snd e), n_id (snd e) = act, label_for (n_type (snd e)))"
      by (cases e) (simp add: strip_button_def Let_def)
  qed
  from all_results_ok [OF this] obtain ys where ys: "StepStrip fmt ns pol act = Inr ys"
    "map (\<lambda>y. (sb_step y, sb_current y, sb_label y)) ys = map (\<lambda>e. (n_id (snd e), n_id (snd e) = act, label_for (n_type (snd e)))) (List.enumerate 0 ns)"
    unfolding StepStrip_def by blast
  have snd: "map (f \<circ> snd) (List.enumerate 0 ns) = map f ns" for f :: "diagram_node \<Rightarrow> 'a"
    by (metis map_map map_snd_enumerate)
  note e = ys(2) [THEN arg_cong [where f = "map fst"]] ys(2) [THEN arg_cong [where f = "map (fst \<circ> snd)"]]
    ys(2) [THEN arg_cong [where f = "map (snd \<circ> snd)"]]
  show ?thesis
    using ys(1) e snd [of n_id] snd [of "\<lambda>n. n_id n = act"] snd [of "\<lambda>n. label_for (n_type n)"] by (auto simp: comp_def)
qed

text \<open>The current step is one of the steps, by its position.\<close>

lemma position:
  assumes "ns \<noteq> []" "distinct (map n_id ns)"
  shows "\<exists>k < length ns. step_index ns step = k \<and> current_step ns step = Some (ns ! k) \<and> (\<forall>i < length ns. n_id (ns ! i) = n_id (ns ! k) \<longleftrightarrow> i = k)"
proof -
  have "step_index ns step < length ns"
    using assms(1) index_of_nth [of step "map n_id ns"] by (auto simp: step_index_def split: option.split)
  then show ?thesis
    using assms by (auto simp: current_step_def nth_eq_iff_index_eq [OF assms(2)] distinct_conv_nth)
qed

text \<open>A form over steps that have their panels, with an editor that renders.\<close>

definition coherent :: "diagram_node list \<Rightarrow> form_view \<Rightarrow> bool" where
  "coherent ns view \<longleftrightarrow> (\<exists>k < length ns.
     map sb_step (fo_strip view) = map n_id ns \<and> map sb_current (fo_strip view) = map (\<lambda>i. i = k) [0..<length ns] \<and>
     map sb_label (fo_strip view) = map (\<lambda>n. label_for (n_type n)) ns \<and>
     fo_count view = ''Step '' @ nat_str (k + 1) @ '' of '' @ nat_str (length ns) \<and>
     fo_back view = (if k = 0 then None else Some (n_id (ns ! (k - 1)))) \<and>
     fo_next view = (if Suc k = length ns then ReviewAndDeploy else NextStep (n_id (ns ! Suc k))))"

lemma form_shown:
  assumes "panelled fmt pol ns" "ns \<noteq> []" "distinct (map n_id ns)"
    and "\<And>p. inspectorFor fmt (Some (n_id (ns ! step_index ns step))) pol = Inr p \<Longrightarrow> \<exists>body. form_body_of FU p pol rs = Inr body"
  shows "\<exists>view. PolicyForm FU fmt ns pol step rs = Inr (Some view) \<and> coherent ns view"
proof -
  obtain k where k: "k < length ns" "step_index ns step = k" "current_step ns step = Some (ns ! k)"
    "\<forall>i < length ns. n_id (ns ! i) = n_id (ns ! k) \<longleftrightarrow> i = k"
    using position [OF assms(2,3), of step] by blast
  obtain p m where p: "inspectorFor fmt (Some (n_id (ns ! k))) pol = Inr p" "primitive_meta_of (n_type (ns ! k)) = Inr m"
    using assms(1) nth_mem [OF k(1)] unfolding panelled_def by blast
  obtain body where body: "form_body_of FU p pol rs = Inr body" using assms(4) p(1) k(2) by blast
  obtain bar where bar: "StepStrip fmt ns pol (n_id (ns ! k)) = Inr bar" "map sb_step bar = map n_id ns"
    "map sb_current bar = map (\<lambda>n. n_id n = n_id (ns ! k)) ns" "map sb_label bar = map (\<lambda>n. label_for (n_type n)) ns"
    using strip_shown [OF assms(1), of "n_id (ns ! k)"] by blast
  have cur: "map (\<lambda>n. n_id n = n_id (ns ! k)) ns = map (\<lambda>i. i = k) [0..<length ns]"
    using k(4) by (intro nth_equalityI) simp_all
  have "\<exists>view. PolicyForm FU fmt ns pol step rs = Inr (Some view) \<and> fo_strip view = bar \<and>
      fo_count view = ''Step '' @ nat_str (k + 1) @ '' of '' @ nat_str (length ns) \<and>
      fo_back view = back_step ns step \<and> fo_next view = form_next_of ns step"
    by (simp add: PolicyForm_def k(2,3) p bar(1) body)
  then obtain view where view: "PolicyForm FU fmt ns pol step rs = Inr (Some view)" "fo_strip view = bar"
    "fo_count view = ''Step '' @ nat_str (k + 1) @ '' of '' @ nat_str (length ns)"
    "fo_back view = back_step ns step" "fo_next view = form_next_of ns step" by blast
  have "coherent ns view"
    unfolding coherent_def view(2-) bar(2-) cur
    by (intro exI [of _ k]) (simp add: k(1,2) back_step_def form_next_of_def next_step_def is_last_def Let_def)
  with view(1) show ?thesis by blast
qed

text \<open>The trigger the page has: the template's, or an edited one.\<close>

definition held_trigger :: "(string \<Rightarrow> int option \<Rightarrow> 'e + int) \<Rightarrow> template \<Rightarrow> builder \<Rightarrow> bool" where
  "held_trigger PU T b \<longleftrightarrow> b_trigger b = JNull \<or>
     (\<exists>es. list_all (\<lambda>e. sane_clock (fst e)) es \<and>
        edit_all PU ''FXRP'' es (prop_of (seeded T (b_recipients b)) ''trigger'') = Inr (b_trigger b))"

lemma held_editable:
  assumes "T \<in> set (TEMPLATES now)" "sane_clock now" "getAsset ''FXRP'' = Inr (Asset a)" "held_trigger PU T b"
  shows "\<exists>e. prop_of (draft T b) ''trigger'' = edited_js e \<and> editable any_interval a e"
proof -
  obtain e0 where e0: "prop_of (seeded T (b_recipients b)) ''trigger'' = edited_js e0" "editable any_interval a e0"
    using template_trigger [OF assms(1,2), where I = any_interval, OF any.default_kept] by blast
  have obj: "\<exists>kvs. seeded T (b_recipients b) = JObj kvs"
    using assms(1) by (auto simp: TEMPLATES_def seeded_def xrp_inheritance_definition_def scheduled_distribution_definition_def
        xrpInheritance_def scheduledDistribution_def)
  have d: "prop_of (draft T b) ''trigger'' = nullish_or (b_trigger b) (prop_of (seeded T (b_recipients b)) ''trigger'')"
    using obj by (auto simp: draft_def set_field_def get_put_prop)
  have js: "nullish_or (edited_js e) x = edited_js e" for e x by (cases e) (simp_all add: nullish_or_def)
  have "\<exists>e. b_trigger b = edited_js e \<and> editable any_interval a e" if "b_trigger b \<noteq> JNull"
  proof -
    from assms(4) that obtain es where es: "list_all (\<lambda>e. sane_clock (fst e)) es"
      "edit_all PU ''FXRP'' es (prop_of (seeded T (b_recipients b)) ''trigger'') = Inr (b_trigger b)"
      unfolding held_trigger_def by blast
    from edits_leave(1) [OF assms(1,2) es(1) assms(3), of PU "b_recipients b"] es(2) show ?thesis by auto
  qed
  then show ?thesis
  proof (cases "b_trigger b = JNull")
    case True
    then have "prop_of (draft T b) ''trigger'' = edited_js e0" using d e0(1) by (simp add: nullish_or_def)
    with e0(2) show ?thesis by blast
  next
    case False
    then obtain e where "b_trigger b = edited_js e" "editable any_interval a e"
      using \<open>b_trigger b \<noteq> JNull \<Longrightarrow> _\<close> by blast
    with d js show ?thesis by metis
  qed
qed

text \<open>C37: The form always renders: on either template, for any recipients, any edits of the trigger
  and any step, nothing that the builder's page evaluates throws, the strip has exactly the steps of
  the draft in policy order, each named as its own panel is, exactly one of them is current,
  the count beside the heading is its position, Back leads to the step before it (nowhere on
  the first) and Next to the one after it, the last one leading to the review.\<close>

theorem form_always_renders:
  assumes "T \<in> set (TEMPLATES now)" "sane_clock now" "held_trigger PU T b"
  shows "\<exists>ns es view. graphFromIr fmt (draft T b) = Inr (ns, es) \<and>
    map n_id ns = [''asset'', ''trigger''] @ (if b_recipients b = [] then [] else [''confidential'']) @ [''action-0''] \<and>
    builder_form FU fmt T b = Inr (Some view) \<and> coherent ns view"
proof -
  obtain a where a: "getAsset ''FXRP'' = Inr (Asset a)" by (simp add: getAsset_def asset_index_def ASSETS_def)
  obtain t where d: "draft_of (draft T b) (b_recipients b) t" using draft_shape [OF assms(1)] by blast
  obtain ns es where g: "graphFromIr fmt (draft T b) = Inr (ns, es)"
    "map n_id ns = [''asset'', ''trigger''] @ (if b_recipients b = [] then [] else [''confidential'']) @ [''action-0'']"
    using draft_graph [OF d] by blast
  have ns: "ns \<noteq> []" "distinct (map n_id ns)" using g(2) by (cases ns; simp)+
  obtain tr where tr: "prop_of (draft T b) ''trigger'' = edited_js tr" "editable any_interval a tr"
    using held_editable [OF assms(1,2) a assms(3)] by blast
  have "prop_of (draft T b) ''asset'' = JStr ''FXRP''" using d by (auto simp: draft_of_def)
  with editor_renders [OF a tr(2), of FU] have "\<exists>body. form_body_of FU p (draft T b) (b_recipients b) = Inr body" for p
    by (auto simp: form_body_of_def tr(1) js_text_def)
  from form_shown [OF draft_panelled [OF d g(1)] ns this] g show ?thesis
    unfolding builder_form_def g(1) by auto
qed

lemma form_always_renders_witness:
  "\<exists>view. builder_form demo_formatUnits (\<lambda>v. []) xrp_inheritance_definition initial_builder = Inr (Some view) \<and>
     map sb_step (fo_strip view) = [''asset'', ''trigger'', ''confidential'', ''action-0'']"
proof -
  have T: "xrp_inheritance_definition \<in> set (TEMPLATES 0)" "sane_clock 0" "held_trigger demo_parse xrp_inheritance_definition initial_builder"
    by (simp_all add: TEMPLATES_def sane_clock_def held_trigger_def initial_builder_def)
  from form_always_renders [OF T, of "\<lambda>v. []" demo_formatUnits] show ?thesis
    by (auto simp: coherent_def initial_builder_def initial_recipients_def)
qed

text \<open>Pressing Next from the first step on goes through the steps one by one.\<close>

definition press_next :: "diagram_node list \<Rightarrow> string \<Rightarrow> string" where
  "press_next ns step = (case next_step ns step of None \<Rightarrow> step | Some i \<Rightarrow> i)"

lemma step_index_nth: "distinct (map n_id ns) \<Longrightarrow> k < length ns \<Longrightarrow> step_index ns (n_id (ns ! k)) = k"
proof -
  assume d: "distinct (map n_id ns)" "k < length ns"
  then have "index_of (n_id (ns ! k)) (map n_id ns) \<noteq> None" unfolding index_of_None by simp
  then obtain j where j: "index_of (n_id (ns ! k)) (map n_id ns) = Some j" by blast
  from index_of_nth [OF this] have "j < length ns" "n_id (ns ! j) = n_id (ns ! k)" by auto
  with d have "j = k" by (auto simp: distinct_conv_nth)
  with j show ?thesis by (simp add: step_index_def)
qed

lemma next_walks:
  assumes "distinct (map n_id ns)" "k < length ns"
  shows "(press_next ns ^^ k) (n_id (ns ! 0)) = n_id (ns ! k) \<and>
    (form_next_of ns ((press_next ns ^^ k) (n_id (ns ! 0))) = ReviewAndDeploy \<longleftrightarrow> Suc k = length ns)"
proof -
  have walk: "(press_next ns ^^ k) (n_id (ns ! 0)) = n_id (ns ! k)" using assms(2)
  proof (induction k)
    case (Suc k)
    then show ?case
      by (simp add: press_next_def next_step_def is_last_def step_index_nth [OF assms(1)] Let_def)
  qed simp
  with assms show ?thesis by (simp add: form_next_of_def next_step_def is_last_def step_index_nth Let_def)
qed

text \<open>A share's field reads back what it shows.\<close>

lemma percent_reads_back: "percent_bps (Some (rr_percent (recipient_row_of r))) = shareBps r"
  by (simp add: recipient_row_of_def percent_bps_def)

text \<open>The review states what a deployment would do: on a draft that compiles, it offers Deploy
  and shows no error, its sentences are about the trigger that goes on chain, it lists the recipients
  in order with their shares, and under the hood the commitment and the source chain shown are the
  ones of the compiled policy.\<close>

theorem review_states_what_deploys:
  assumes "zod_documented zod" "viem_documented V" "T \<in> set (TEMPLATES now)" "wf_shares (b_recipients b)"
    and "\<forall>r \<in> set (b_recipients b). is_address (keccak256 V) (address r)" "hex_value slt = Some s" "length s = 32"
    and "getAsset ''FXRP'' = Inr (Asset a)" "b_trigger b = trigger_js t" "well_edited a t" "positive t"
  shows "\<exists>c view rows inner. compile zod V (draft T b) slt = Inr c \<and>
    ReviewDrawer (\<lambda>p. compile zod V p slt) msg fmt slt True (draft T b) = Inr view \<and> rw_error view = None \<and> rw_deployable view \<and>
    rw_summary view = Some ([''This policy governs your XRP.'', review_when fmt (pub_trigger (publicArgs c)), ''Your balance will then be distributed:''], rows) \<and>
    map (\<lambda>(n, a, p). p) rows = map (\<lambda>r. share_text (shareBps r)) (b_recipients b) \<and>
    rw_internals view = Some inner \<and> map_of inner ''Commitment'' = Some (commitment (publicArgs c)) \<and>
    map_of inner ''FDC source'' = (case pub_trigger (publicArgs c) of ChainProofOfLife i src d m \<Rightarrow> Some src
      | ManualHeartbeat i d \<Rightarrow> Some (fdcSourceId a) | TimestampTrigger e \<Rightarrow> None)"
proof -
  have "wf_trigger t" using wf_positive [OF assms(10)] assms(11) by simp
  from edited_compiles [OF assms(1-7,9) this] obtain c n where c: "compile zod V (draft T b) slt = Inr c"
    "pub_trigger (publicArgs c) = t" "recipients (privateConfig c) = b_recipients b" "ir c = built_ir n t (b_recipients b)" by blast
  have a: "a_name a = ''XRP''" using assms(8) by (auto simp: getAsset_def asset_index_def ASSETS_def)
  have ir: "ir_asset (ir c) = ''FXRP''" "ir_trigger (ir c) = t" by (simp_all add: c(4) built_ir_def)
  have "review_governs c = Inr ''This policy governs your XRP.''"
    by (simp add: review_governs_def ir assms(8) asset_name_def js_text_def a)
  moreover obtain inner where inner: "review_internals c slt = Inr inner" "map_of inner ''Commitment'' = Some (commitment (publicArgs c))"
    "map_of inner ''FDC source'' = (if Deploy.trigger_kind t \<noteq> ''timestamp'' then Some (fdcSourceId a) else None)"
    by (simp add: review_internals_def ir assms(8) asset_field_def)
  moreover have "map (\<lambda>(n, a, p). p) (review_rows c) = map (\<lambda>r. share_text (shareBps r)) (b_recipients b)"
    by (simp add: review_rows_def c(3))
  ultimately have "\<exists>view. ReviewDrawer (\<lambda>p. compile zod V p slt) msg fmt slt True (draft T b) = Inr view \<and> rw_error view = None \<and> rw_deployable view \<and>
      rw_summary view = Some ([''This policy governs your XRP.'', review_when fmt t, ''Your balance will then be distributed:''], review_rows c) \<and>
      rw_internals view = Some inner"
    by (simp add: ReviewDrawer_def c(1) ir)
  moreover have "map_of inner ''FDC source'' = (case t of ChainProofOfLife i src d m \<Rightarrow> Some src
      | ManualHeartbeat i d \<Rightarrow> Some (fdcSourceId a) | TimestampTrigger e \<Rightarrow> None)"
    using inner(3) assms(10) by (cases t) simp_all
  moreover have "map (\<lambda>(n, a, p). p) (review_rows c) = map (\<lambda>r. share_text (shareBps r)) (b_recipients b)"
    by (simp add: review_rows_def c(3))
  ultimately show ?thesis using c(1,2) inner(2) by blast
qed

lemma review_states_what_deploys_witness:
  "\<exists>view. ReviewDrawer (\<lambda>p. compile demo_zod demo_viem p demo_salt) (\<lambda>e. []) (\<lambda>e. []) demo_salt True
      (draft xrp_inheritance_definition (demo_builder (trigger_js (ChainProofOfLife YEAR ''testXRP'' ''r'' (int_str 5))))) = Inr view \<and>
    rw_deployable view \<and> map_of (the (rw_internals view)) ''FDC source'' = Some ''testXRP''"
proof -
  have T: "xrp_inheritance_definition \<in> set (TEMPLATES 0)" by (simp add: TEMPLATES_def)
  obtain s where s: "hex_value demo_salt = Some s" "length s = 32" using demo_salt_bytes by blast
  obtain a where a: "getAsset ''FXRP'' = Inr (Asset a)" "fdcSourceId a = ''testXRP''" by (simp add: getAsset_def asset_index_def ASSETS_def)
  let ?t = "ChainProofOfLife YEAR ''testXRP'' ''r'' (int_str 5)"
  have t: "well_edited a ?t" "positive ?t" using a(2) by (auto simp: whole_days_def YEAR_def)
  let ?b = "demo_builder (trigger_js ?t)"
  from review_states_what_deploys [OF demo_zod_documented demo_viem_documented T demo_builder_facts(1,3) s a(1) demo_builder_facts(2) t,
      of "\<lambda>e. []" "\<lambda>e. []"]
  obtain c view inner where v: "ReviewDrawer (\<lambda>p. compile demo_zod demo_viem p demo_salt) (\<lambda>e. []) (\<lambda>e. []) demo_salt True (draft xrp_inheritance_definition ?b) = Inr view"
    "rw_deployable view" "rw_internals view = Some inner" "compile demo_zod demo_viem (draft xrp_inheritance_definition ?b) demo_salt = Inr c"
    "map_of inner ''FDC source'' = (case pub_trigger (publicArgs c) of ChainProofOfLife i src d m \<Rightarrow> Some src
      | ManualHeartbeat i d \<Rightarrow> Some (fdcSourceId a) | TimestampTrigger e \<Rightarrow> None)" by blast
  have "wf_trigger ?t" using wf_positive [OF t(1)] t(2) by simp
  from edited_compiles [OF demo_zod_documented demo_viem_documented T demo_builder_facts(1,3) s demo_builder_facts(2) this] v(4)
  have "pub_trigger (publicArgs c) = ?t" by auto
  with v show ?thesis by auto
qed

end
