(* ===== verification/Screens.thy ===== *)
theory Screens
  imports Forms Monitor
begin

text \<open>
  What the two screens about a deployed policy render of their state: the Monitor
  (apps/web/app/policies/[address]/page.tsx) and the deploy dialog
  (apps/web/components/deploy-dialog.tsx). A screen is what it says and which of its buttons can be
  pressed; a rendering that throws is an error. What is shown: a button can be pressed exactly
  when the model of the page's actions offers it, and the page of a policy that was just deployed
  renders, listing the recipients that were compiled.
\<close>

section \<open>Texts\<close>

abbreviation dots :: string where "dots \<equiv> [CHR 0xE2, CHR 0x80, CHR 0xA6]"

record text_button =
  tb_text :: string
  tb_enabled :: bool

text \<open>\<open>Share\<close> of any number of basis points: \<open>toFixed(2)\<close> when the percentage is not whole.\<close>

definition share_value :: "jsv \<Rightarrow> string" where
  "share_value v =
     (case v of
        JNum r \<Rightarrow>
          if is_int r then share_text \<lfloor>r\<rfloor>
          else (let n = nat (js_round \<bar>r\<bar>) in
            (if r < 0 then ''-'' else []) @ nat_str (n div 100) @ ''.'' @ pad_start 2 CHR ''0'' (nat_str (n mod 100)) @ ''%'')
      | _ \<Rightarrow> ''NaN%'')"

text \<open>An \<open>Address\<close> of a value, which has a \<open>length\<close> when it is a text, and its link.\<close>

definition address_chip :: "jsv \<Rightarrow> nat \<Rightarrow> js_error + string" where
  "address_chip v chars =
     (case v of
        JStr s \<Rightarrow> Inr (truncated s chars)
      | JUndef \<Rightarrow> Inl (TypeErr ''Cannot read properties of undefined (reading 'length')'')
      | JNull \<Rightarrow> Inl (TypeErr ''Cannot read properties of null (reading 'length')'')
      | _ \<Rightarrow> Inr (js_text v))"

section \<open>The cards of the Monitor\<close>

text \<open>\<open>Recipients\<close>: who receives what, from the browser's own copy.\<close>

definition recipient_line :: "jsv \<Rightarrow> js_error + string \<times> string \<times> string" where
  "recipient_line r =
     (case r of
        JUndef \<Rightarrow> Inl (TypeErr ''Cannot read properties of undefined (reading 'address')'')
      | JNull \<Rightarrow> Inl (TypeErr ''Cannot read properties of null (reading 'address')'')
      | _ \<Rightarrow> and_then (address_chip (prop_of r ''address'') 4) (\<lambda>a.
          Inr (if truthy (prop_of r ''label'') then js_text (prop_of r ''label'') else ''Recipient'', a, share_value (prop_of r ''shareBps''))))"

definition recipient_lines :: "jsv \<Rightarrow> js_error + (string \<times> string \<times> string) list" where
  "recipient_lines entry =
     (case member_of (prop_of entry ''privateConfig'') ''recipients'' of
        Some (JArr rs) \<Rightarrow> all_results (map recipient_line rs)
      | Some _ \<Rightarrow> Inl (TypeErr ''entry.privateConfig.recipients.map is not a function'')
      | None \<Rightarrow> Inl (TypeErr ''Cannot read properties of undefined (reading 'recipients')''))"

text \<open>\<open>EnclaveHandoff\<close>: stored already, or what is missing, with the button when something can be sent.\<close>

datatype enclave_card = Stored string | NotStored string "text_button option"

definition EnclaveHandoff :: "process_env \<Rightarrow> jsv \<Rightarrow> jsv \<Rightarrow> string option \<Rightarrow> js_error + enclave_card" where
  "EnclaveHandoff P entry account busy =
     (let configured = enclaveHandoffConfigured P; handoff = prop_of entry ''handoff''; sealed = truthy (prop_of entry ''ciphertext'') in
      if truthy handoff then and_then (address_chip (prop_of handoff ''txHash'') 8) (\<lambda>a. Inr (Stored a))
      else Inr (NotStored
        (if \<not> sealed then
           ''Nothing has been sealed for this policy, because no enclave key was available when it was created. '' @
           ''Until that is configured, the policy cannot be evaluated.''
         else if \<not> configured then
           ''This build has no instruction sender configured, so the sealed list cannot be submitted from here.''
         else ''The sealed recipient list has not reached the enclave. Until it does, this policy cannot be evaluated '' @ mdash @
           '' and this browser holds the only copy.'')
        (if sealed \<and> configured then
           Some \<lparr> tb_text = (if busy = Some ''handoff'' then ''Sending'' @ dots else ''Send to enclave''),
             tb_enabled = (\<not> (account = JNull \<or> busy \<noteq> None)) \<rparr>
         else None)))"

text \<open>\<open>Funding\<close>: the amount as typed and the three buttons.\<close>

record funding_card =
  fu_label :: string
  fu_amount :: string
  fu_deposit :: text_button
  fu_withdraw :: text_button
  fu_cancel :: text_button

definition Funding :: "'e parse_units \<Rightarrow> wallet_state \<Rightarrow> monitor \<Rightarrow> policy_summary \<Rightarrow> string \<Rightarrow> funding_card" where
  "Funding PU w m p symbol' =
     \<lparr> fu_label = ''Amount in '' @ symbol', fu_amount = m_amount m,
       fu_deposit = \<lparr> tb_text = (if m_busy m = Some ''deposit'' then ''Depositing'' @ dots else ''Deposit''), tb_enabled = usable PU w m \<rparr>,
       fu_withdraw = \<lparr> tb_text = (if m_busy m = Some ''withdraw'' then ''Withdrawing'' @ dots else ''Withdraw''),
         tb_enabled = (usable PU w m \<and> (case (typed_amount PU m, s_balance p) of (Some v, JBig b) \<Rightarrow> \<not> b < v | _ \<Rightarrow> False)) \<rparr>,
       fu_cancel = \<lparr> tb_text = (if m_busy m = Some ''cancel'' then ''Cancelling'' @ dots else ''Cancel policy''),
         tb_enabled = (\<not> (w_account w = JNull \<or> m_busy m \<noteq> None)) \<rparr> \<rparr>"

text \<open>\<open>UnderTheHood\<close>, opened; a ciphertext is a text.\<close>

definition UnderTheHood :: "process_env \<Rightarrow> policy_summary \<Rightarrow> jsv option \<Rightarrow> string option \<Rightarrow> (string \<times> string) list" where
  "UnderTheHood P p entry lastTx =
     [(''Policy contract'', js_text (s_address p)),
      (''Trigger'', js_text (s_triggerKind p) @ '' ('' @ js_text (s_trigger p) @ '')''),
      (''Commitment'', js_text (s_commitment p)),
      (''Attestor gate'', teeAttestorGate (ADDRESSES P)),
      (''Sealed payload'',
        (case entry of
           Some e \<Rightarrow> (case prop_of e ''ciphertext'' of
               JStr c \<Rightarrow> if c = [] then ''not sealed'' else num_str ((of_nat (js_length c) - 2) / 2) @ '' bytes''
             | _ \<Rightarrow> ''not sealed'')
         | None \<Rightarrow> ''not sealed'')),
      (''STORE instruction'',
        js_text (nullish_or (case entry of None \<Rightarrow> JUndef | Some e \<Rightarrow> prop_of (prop_of e ''handoff'') ''instructionId'') (JStr ''not sent''))),
      (''Private half'', if entry \<noteq> None then ''held in this browser'' else ''not in this browser'')] @
     (case lastTx of None \<Rightarrow> [] | Some h \<Rightarrow> [(truncated h 8, explorerTx h)])"

section \<open>The Monitor\<close>

record policy_cards =
  pc_held :: string
  pc_due :: "(string \<times> string) option"
  pc_check_in :: "text_button option"
  pc_met :: bool
  pc_recipients :: "(string \<times> string \<times> string) list option"
  pc_enclave :: "enclave_card option"
  pc_funding :: "funding_card option"
  pc_demo :: "text_button option"
  pc_hood :: "(string \<times> string) list"

record policy_page =
  py_title :: string
  py_badge :: "(string \<times> string) option"
  py_address :: "string \<times> string"
  py_error :: "string option"
  py_cards :: "policy_cards option"

text \<open>\<open>Amount\<close> of the balance, which the ABI types as a wide integer.\<close>

definition held_text :: "asset_lookup \<Rightarrow> jsv \<Rightarrow> string" where
  "held_text asset balance =
     (case (asset, balance) of (Asset a, JBig v) \<Rightarrow> amount_shown v (nat (decimals a)) 2 @ '' '' @ a_symbol a | _ \<Rightarrow> [])"

definition due_of :: "policy_summary \<Rightarrow> int \<Rightarrow> (string \<times> string) option" where
  "due_of p now =
     map_option (\<lambda>d. (if s_triggerKind p = JStr ''manual-heartbeat'' then ''Next check-in due'' else ''Distributes in'', d)) (countdown p now)"

definition page_asset :: "monitor \<Rightarrow> js_error + asset_lookup" where
  "page_asset m =
     getAsset (js_text (nullish_or (case m_entry m of None \<Rightarrow> JUndef | Some e \<Rightarrow> prop_of e ''assetSymbol'') (JStr ''FXRP'')))"

definition policy_cards_of ::
  "process_env \<Rightarrow> 'e parse_units \<Rightarrow> wallet_state \<Rightarrow> int \<Rightarrow> monitor \<Rightarrow> asset_lookup \<Rightarrow> policy_summary \<Rightarrow> js_error + policy_cards" where
  "policy_cards_of P PU w now m asset p =
     (let active = (s_status p = JNum 0);
          button = (\<lambda>lbl busy idle. \<lparr> tb_text = (if m_busy m = Some lbl then busy else idle), tb_enabled = connected w m \<rparr>) in
      and_then (case m_entry m of None \<Rightarrow> Inr None | Some e \<Rightarrow> and_then (recipient_lines e) (\<lambda>ls. Inr (Some ls))) (\<lambda>lines.
      and_then (case m_entry m of None \<Rightarrow> Inr None
          | Some e \<Rightarrow> and_then (EnclaveHandoff P e (w_account w) (m_busy m)) (\<lambda>c. Inr (Some c))) (\<lambda>enclave.
      Inr \<lparr> pc_held = held_text asset (s_balance p), pc_due = due_of p now,
            pc_check_in = (if active \<and> s_triggerKind p = JStr ''manual-heartbeat''
              then Some (button ''check-in'' (''Checking in'' @ dots) ''I'm still here'') else None),
            pc_met = (s_status p = JNum 1), pc_recipients = lines, pc_enclave = enclave,
            pc_funding = (if active then Some (Funding PU w m p (field_symbol asset)) else None),
            pc_demo = (if m_demo m \<and> active then Some (button ''simulate'' (''Working'' @ dots) ''Skip to the deadline'') else None),
            pc_hood = UnderTheHood P p (m_entry m) (m_lastTx m) \<rparr>)))"

definition PolicyPage ::
  "process_env \<Rightarrow> 'e parse_units \<Rightarrow> string \<Rightarrow> wallet_state \<Rightarrow> int \<Rightarrow> monitor \<Rightarrow> js_error + policy_page" where
  "PolicyPage P PU address' w now m =
     and_then (page_asset m) (\<lambda>asset.
     and_then (case m_policy m of None \<Rightarrow> Inr None | Some p \<Rightarrow> and_then (policy_cards_of P PU w now m asset p) (\<lambda>c. Inr (Some c))) (\<lambda>cards.
     Inr \<lparr> py_title = (case m_entry m of None \<Rightarrow> ''Policy'' | Some e \<Rightarrow> js_text (nullish_or (prop_of e ''name'') (JStr ''Policy''))),
           py_badge = map_option (\<lambda>p. StatusBadge (status_name (s_status p))) (m_policy m),
           py_address = (truncated address' 6, explorerAddress address'),
           py_error = (case m_error m of Some e \<Rightarrow> if e = [] then None else Some e | None \<Rightarrow> None),
           py_cards = cards \<rparr>))"

section \<open>Lemmas\<close>

text \<open>The buttons of a rendered page that can be pressed.\<close>

definition pressable :: "text_button option \<Rightarrow> bool" where
  "pressable b = (case b of None \<Rightarrow> False | Some t \<Rightarrow> tb_enabled t)"

lemma pressable_simps [simp]: "\<not> pressable None" "pressable (Some b) = tb_enabled b"
  by (simp_all add: pressable_def)

fun can_press :: "policy_cards \<Rightarrow> monitor_action \<Rightarrow> bool" where
  "can_press c CheckIn = pressable (pc_check_in c)"
| "can_press c Simulate = pressable (pc_demo c)"
| "can_press c SendToEnclave = pressable (case pc_enclave c of Some (NotStored t b) \<Rightarrow> b | _ \<Rightarrow> None)"
| "can_press c Deposit = pressable (map_option fu_deposit (pc_funding c))"
| "can_press c Withdraw = pressable (map_option fu_withdraw (pc_funding c))"
| "can_press c Cancel = pressable (map_option fu_cancel (pc_funding c))"

lemma page_decimals_asset: "page_decimals m \<noteq> None \<longleftrightarrow> (\<exists>a. page_asset m = Inr (Asset a))"
  by (auto simp: page_decimals_def page_asset_def split: sum.splits asset_lookup.splits)

lemma enclave_pressable:
  "EnclaveHandoff P e account busy = Inr c \<Longrightarrow>
   pressable (case Some c of Some (NotStored t b) \<Rightarrow> b | _ \<Rightarrow> None) \<longleftrightarrow>
     \<not> truthy (prop_of e ''handoff'') \<and> truthy (prop_of e ''ciphertext'') \<and> enclaveHandoffConfigured P \<and> \<not> (account = JNull \<or> busy \<noteq> None)"
  by (auto simp: EnclaveHandoff_def Let_def and_then_Inr_iff split: if_splits)

lemma cards_offer:
  assumes "policy_cards_of P PU w now m asset p = Inr c" "m_policy m = Some p" "page_decimals m \<noteq> None"
  shows "can_press c a \<longleftrightarrow> offered P PU w m a"
proof -
  obtain lines enclave where parts:
    "(case m_entry m of None \<Rightarrow> Inr None | Some e \<Rightarrow> and_then (EnclaveHandoff P e (w_account w) (m_busy m)) (\<lambda>c. Inr (Some c))) = Inr enclave"
    "pc_enclave c = enclave" "pc_check_in c = (if s_status p = JNum 0 \<and> s_triggerKind p = JStr ''manual-heartbeat''
      then Some \<lparr> tb_text = (if m_busy m = Some ''check-in'' then ''Checking in'' @ dots else ''I'm still here''), tb_enabled = connected w m \<rparr> else None)"
    "pc_funding c = (if s_status p = JNum 0 then Some (Funding PU w m p (field_symbol asset)) else None)"
    "pc_demo c = (if m_demo m \<and> s_status p = JNum 0
      then Some \<lparr> tb_text = (if m_busy m = Some ''simulate'' then ''Working'' @ dots else ''Skip to the deadline''), tb_enabled = connected w m \<rparr> else None)"
    using assms(1) by (auto simp: policy_cards_of_def Let_def and_then_Inr_iff)
  show ?thesis
  proof (cases a)
    case SendToEnclave
    show ?thesis
    proof (cases "m_entry m")
      case None
      with SendToEnclave parts(1,2) assms(2) show ?thesis by (simp add: offered_def)
    next
      case (Some e)
      with parts(1) obtain ec where "EnclaveHandoff P e (w_account w) (m_busy m) = Inr ec" "enclave = Some ec"
        by (auto simp: and_then_Inr_iff)
      with enclave_pressable [OF this(1)] SendToEnclave Some parts(2) assms(2,3) show ?thesis by (simp add: offered_def)
    qed
  qed (use parts(3-) assms(2,3) in \<open>auto simp: offered_def Funding_def\<close>)
qed

text \<open>What the Monitor's screen lets be pressed is what the page's actions offer: whenever the
  page of a policy renders, each of its six buttons is there and enabled exactly when the
  model of the actions offers it, so no state of the chain, the vault or the wallet shows a button
  whose handler would do nothing, or hides one that would act.\<close>

theorem screen_offers_the_actions:
  assumes "PolicyPage P PU address' w now m = Inr v" "page_decimals m \<noteq> None"
  shows "(\<exists>c. py_cards v = Some c \<and> can_press c a) \<longleftrightarrow> offered P PU w m a"
proof (cases "m_policy m")
  case None
  with assms have "py_cards v = None" by (auto simp: PolicyPage_def and_then_Inr_iff)
  with None show ?thesis by (simp add: offered_def)
next
  case (Some p)
  with assms(1) obtain asset c where c: "policy_cards_of P PU w now m asset p = Inr c" "py_cards v = Some c"
    by (auto simp: PolicyPage_def and_then_Inr_iff)
  with cards_offer [OF c(1) Some assms(2)] show ?thesis by simp
qed

text \<open>An entry the program wrote renders: its recipients as the review listed them, and its hand-off.\<close>

lemma entry_lines:
  assumes "ve_privateConfig e = privateConfig c"
  shows "recipient_lines (entry_js e) = Inr (review_rows c)"
proof -
  have line: "recipient_line (share_js r) = Inr (case label r of Some l \<Rightarrow> if l = [] then ''Recipient'' else l | None \<Rightarrow> ''Recipient'',
      truncated (address r) 4, share_text (shareBps r))" for r
    by (auto simp: recipient_line_def share_js_def address_chip_def share_value_def js_text_def split: option.split)
  have "prop_of (entry_js e) ''privateConfig'' = private_config_js (privateConfig c)" by (simp add: entry_js_def assms)
  then have l: "recipient_lines (entry_js e) = all_results (map (recipient_line \<circ> share_js) (recipients (privateConfig c)))"
    by (simp add: recipient_lines_def private_config_js_def member_of_def)
  have "list_all (\<lambda>r. \<exists>y. (recipient_line \<circ> share_js) r = Inr y \<and> id y =
      (case label r of Some l \<Rightarrow> if l = [] then ''Recipient'' else l | None \<Rightarrow> ''Recipient'', truncated (address r) 4, share_text (shareBps r)))
      (recipients (privateConfig c))"
    by (simp add: list_all_iff line)
  from all_results_ok [OF this] show ?thesis unfolding l review_rows_def by (simp add: comp_def)
qed

lemma entry_handoff:
  "prop_of (entry_js e) ''handoff'' = (case ve_handoff e of None \<Rightarrow> JUndef
     | Some (h, time) \<Rightarrow> JObj [(''instructionId'', JStr (h_instructionId h)), (''txHash'', JStr (h_txHash h)), (''at'', JNum (of_int time))])"
  by (auto simp: entry_js_def get_prop_def map_add_def split: option.split)

lemma entry_enclave:
  "\<exists>card. EnclaveHandoff P (entry_js e) account busy = Inr card \<and>
     ((\<exists>x. card = Stored x) \<longleftrightarrow> ve_handoff e \<noteq> None)"
  by (auto simp: EnclaveHandoff_def entry_handoff address_chip_def Let_def split: option.split)

text \<open>C36: The page of a policy that was just deployed renders and lists what was reviewed: with the entry
  the deployment left in the browser, whatever the chain says of the policy, the Monitor shows
  the rows of the review (every recipient of the compiled policy, in order, with its share), the
  policy's name, and the enclave as holding it exactly when the hand-off was recorded.\<close>

theorem deployed_page_lists_what_was_reviewed:
  assumes "vault_ok (br_env B) t" "deployPolicy B compiled slt templateId account dep t = (Inr entry, t')"
    and "getAsset (ir_asset (ir compiled)) = Inr asset" "getEntry (br_env B) (ve_policy entry) t' = Inr (m_entry m)" "m_policy m = Some p"
  shows "\<exists>v c e. PolicyPage P PU (ve_policy entry) w now m = Inr v \<and> py_cards v = Some c \<and> m_entry m = Some (entry_js e) \<and>
    py_title v = ir_name (ir compiled) \<and> pc_recipients c = Some (review_rows compiled) \<and>
    (\<exists>card. pc_enclave c = Some card \<and> ((\<exists>x. card = Stored x) \<longleftrightarrow> ve_handoff e \<noteq> None))"
proof -
  obtain u where "deploy_done B compiled slt templateId account dep (written u) entry t'"
    using deployPolicy_effect [OF assms(1,2)] by blast
  then obtain trg policy ct tx time e where
      e: "same_but_handoff (new_entry compiled slt templateId trg policy ct tx time) entry"
        "same_but_handoff (new_entry compiled slt templateId trg policy ct tx time) e" "getEntry (br_env B) policy t' = Inr (Some (entry_js e))"
    unfolding deploy_done_def by blast
  then have entry: "m_entry m = Some (entry_js e)" using assms(4) by (auto simp: same_but_handoff_def new_entry_def)
  from e(2) have ve: "ve_privateConfig e = privateConfig compiled" "ve_assetSymbol e = ir_asset (ir compiled)" "ve_name e = ir_name (ir compiled)"
    by (auto simp: same_but_handoff_def new_entry_def)
  have props: "prop_of (entry_js e) ''assetSymbol'' = JStr (ve_assetSymbol e)" "prop_of (entry_js e) ''name'' = JStr (ve_name e)"
    by (simp_all add: entry_js_def)
  have asset: "page_asset m = Inr asset" by (simp add: page_asset_def entry props ve(2) js_text_def assms(3))
  obtain card where card: "EnclaveHandoff P (entry_js e) (w_account w) (m_busy m) = Inr card" "(\<exists>x. card = Stored x) \<longleftrightarrow> ve_handoff e \<noteq> None"
    using entry_enclave by blast
  obtain c where "policy_cards_of P PU w now m asset p = Inr c" "pc_recipients c = Some (review_rows compiled)" "pc_enclave c = Some card"
    by (simp add: policy_cards_of_def entry entry_lines [OF ve(1)] card(1) Let_def)
  with card(2) entry show ?thesis
    by (simp add: PolicyPage_def asset assms(5) props ve(3) js_text_def) blast
qed

definition demo_summary :: policy_summary where
  "demo_summary =
     \<lparr> s_address = JStr ''0x77'', s_name = None, s_status = JNum 0, s_balance = JBig 5000000, s_trigger = JStr ''0xt'',
       s_triggerKind = JStr ''manual-heartbeat'', s_deadline = Some (JNum 100), s_commitment = JStr ''0xc'', s_hasPrivateHalf = True \<rparr>"

lemma screen_offers_the_actions_witness:
  "\<exists>v c. PolicyPage (\<lambda>_. None) demo_parseUnits ''0x77'' \<lparr> w_account = JStr ''0xme'', w_chainId = Some 114, w_connecting = False, w_error = None \<rparr>
       0 (initial_monitor\<lparr> m_policy := Some demo_summary \<rparr>) = Inr v \<and> py_cards v = Some c \<and> can_press c CheckIn"
proof -
  let ?m = "initial_monitor\<lparr> m_policy := Some demo_summary \<rparr>"
  let ?w = "\<lparr> w_account = JStr ''0xme'', w_chainId = Some 114, w_connecting = False, w_error = None \<rparr>"
  have d: "page_decimals ?m \<noteq> None"
    by (simp add: page_decimals_def initial_monitor_def js_text_def nullish_or_def getAsset_def asset_index_def ASSETS_def)
  then obtain v where v: "PolicyPage (\<lambda>_. None) demo_parseUnits ''0x77'' ?w 0 ?m = Inr v"
    unfolding page_decimals_asset by (auto simp: PolicyPage_def policy_cards_of_def initial_monitor_def Let_def)
  have "offered (\<lambda>_. None) demo_parseUnits ?w ?m CheckIn"
    using d by (simp add: offered_def initial_monitor_def demo_summary_def connected_def onCoston2_def coston2_id_def)
  with screen_offers_the_actions [OF v d] v show ?thesis by blast
qed

lemma deployed_page_lists_what_was_reviewed_witness:
  "\<exists>entry t' e v c. deployPolicy demo_web demo_compiled ''0x01'' ''xrp'' ''0xme'' 0 [] = (Inr entry, t') \<and>
     PolicyPage (\<lambda>_. None) demo_parseUnits (ve_policy entry) \<lparr> w_account = JNull, w_chainId = None, w_connecting = False, w_error = None \<rparr> 0
       (initial_monitor\<lparr> m_policy := Some demo_summary, m_entry := Some (entry_js e) \<rparr>) = Inr v \<and>
     py_cards v = Some c \<and> pc_recipients c = Some (review_rows demo_compiled)"
proof -
  obtain entry t' where run: "deployPolicy demo_web demo_compiled ''0x01'' ''xrp'' ''0xme'' 0 [] = (Inr entry, t')"
    using demo_deploys by blast
  obtain a where a: "getAsset (ir_asset (ir demo_compiled)) = Inr a" by (simp add: demo_compiled_def getAsset_def asset_index_def ASSETS_def)
  have ok: "vault_ok (br_env demo_web) []" by simp
  obtain u where "deploy_done demo_web demo_compiled ''0x01'' ''xrp'' ''0xme'' 0 (written u) entry t'"
    using deployPolicy_effect [OF ok run] by blast
  then obtain e where e: "getEntry (br_env demo_web) (ve_policy entry) t' = Inr (Some (entry_js e))"
    by (auto simp: deploy_done_def same_but_handoff_def new_entry_def)
  let ?m = "initial_monitor\<lparr> m_policy := Some demo_summary, m_entry := Some (entry_js e) \<rparr>"
  have m: "getEntry (br_env demo_web) (ve_policy entry) t' = Inr (m_entry ?m)" "m_policy ?m = Some demo_summary" using e by simp_all
  from deployed_page_lists_what_was_reviewed [OF ok run a m, where PU = demo_parseUnits] run show ?thesis by blast
qed

section \<open>The deploy dialog\<close>

text \<open>\<open>StepList\<close>: a mark, the label, and the note and the transaction if there are any.\<close>

record step_row =
  st_mark :: string
  st_label :: string
  st_faded :: bool
  st_note :: "string option"
  st_link :: "(string \<times> string) option"

definition text_or_none :: "string option \<Rightarrow> string option" where
  "text_or_none x = (case x of Some s \<Rightarrow> if s = [] then None else Some s | None \<Rightarrow> None)"

definition step_row_of :: "deploy_step \<Rightarrow> step_row" where
  "step_row_of s =
     \<lparr> st_mark = StepMarker (step_status s), st_label = step_label s, st_faded = (step_status s = ''pending''),
       st_note = text_or_none (step_note s),
       st_link = map_option (\<lambda>h. (truncated h 6, explorerTx h)) (text_or_none (step_tx s)) \<rparr>"

definition StepList :: "deploy_step list \<Rightarrow> step_row list" where
  "StepList steps = map step_row_of steps"

record amount_box =
  ab_text :: string
  ab_danger :: bool
  ab_max :: bool
  ab_line :: string

record deploy_pane =
  dp_unreachable :: "string option option"
  dp_amount :: "amount_box option"
  dp_steps :: "step_row list option"
  dp_failure :: "string option"
  dp_backup :: "string option"

datatype dialog_body = NotConfigured | ConnectFirst "string option" | DeployPane deploy_pane

datatype dialog_footer = OpenPolicy string | DeployButtons bool text_button

record dialog_view =
  dv_title :: string
  dv_lead :: string
  dv_body :: dialog_body
  dv_footer :: dialog_footer

definition deploy_pane_of ::
  "(int \<Rightarrow> int \<Rightarrow> string) \<Rightarrow> 'e parse_units \<Rightarrow> compiled_policy \<Rightarrow> string \<Rightarrow> deploy_dialog \<Rightarrow> deploy_pane" where
  "deploy_pane_of formatUnits PU compiled symbol' g =
     \<lparr> dp_unreachable = (case (g_steps g, g_enclave g) of (None, Some (False, reason)) \<Rightarrow> Some reason | _ \<Rightarrow> None),
       dp_amount = (if g_steps g = None then
           Some \<lparr> ab_text = g_amount g, ab_danger = (amount_invalid PU compiled g \<or> over_balance PU compiled g),
             ab_max = (g_held g \<noteq> None \<and> g_held g \<noteq> Some 0), ab_line = amount_line formatUnits PU compiled symbol' g \<rparr>
         else None),
       dp_steps = map_option StepList (g_steps g),
       dp_failure = text_or_none (g_failure g),
       dp_backup = map_option (\<lambda>e. truncated (ve_policy e) 6) (g_entry g) \<rparr>"

definition dialog_body_of ::
  "(int \<Rightarrow> int \<Rightarrow> string) \<Rightarrow> process_env \<Rightarrow> 'e parse_units \<Rightarrow> compiled_policy \<Rightarrow> string \<Rightarrow> wallet_state \<Rightarrow> deploy_dialog \<Rightarrow> dialog_body" where
  "dialog_body_of formatUnits P PU compiled symbol' w g =
     (if \<not> contractsConfigured P then NotConfigured
      else if \<not> truthy (w_account w) \<or> \<not> onCoston2 w then ConnectFirst (text_or_none (w_error w))
      else DeployPane (deploy_pane_of formatUnits PU compiled symbol' g))"

definition dialog_footer_of :: "process_env \<Rightarrow> 'e parse_units \<Rightarrow> compiled_policy \<Rightarrow> wallet_state \<Rightarrow> deploy_dialog \<Rightarrow> dialog_footer" where
  "dialog_footer_of P PU compiled w g =
     (case g_entry g of
        Some e \<Rightarrow> OpenPolicy (''/policies/'' @ ve_policy e)
      | None \<Rightarrow> DeployButtons (\<not> g_running g)
          \<lparr> tb_text = deploy_label g,
            tb_enabled = (\<not> (g_running g \<or> \<not> contractsConfigured P \<or> \<not> truthy (w_account w) \<or> \<not> onCoston2 w \<or>
               amount_invalid PU compiled g \<or> over_balance PU compiled g)) \<rparr>)"

definition DeployDialogView ::
  "(int \<Rightarrow> int \<Rightarrow> string) \<Rightarrow> process_env \<Rightarrow> 'e parse_units \<Rightarrow> compiled_policy \<Rightarrow> wallet_state \<Rightarrow> deploy_dialog \<Rightarrow> js_error + dialog_view" where
  "DeployDialogView formatUnits P PU compiled w g =
     and_then (getAsset (ir_asset (ir compiled))) (\<lambda>asset.
     Inr \<lparr> dv_title = (if g_entry g \<noteq> None then ''Your policy is live'' else ''Deploy your policy''),
           dv_lead = (if g_entry g \<noteq> None then ''It is now running on Coston2 and will act on its own.''
             else ''Each step is a transaction you approve in your wallet.''),
           dv_body = dialog_body_of formatUnits P PU compiled (field_symbol asset) w g,
           dv_footer = dialog_footer_of P PU compiled w g \<rparr>)"

text \<open>Deploy can be pressed only where the amount it will deposit, or the steps of a failed run, are on the screen.\<close>

lemma deploy_shows_amount:
  assumes "DeployDialogView FU P PU compiled w g = Inr v" "dv_footer v = DeployButtons c b" "tb_enabled b"
  shows "\<exists>pane. dv_body v = DeployPane pane \<and> (dp_amount pane = None \<longleftrightarrow> dp_steps pane \<noteq> None)"
  using assms by (auto simp: DeployDialogView_def and_then_Inr_iff dialog_footer_of_def dialog_body_of_def deploy_pane_of_def split: option.splits)

end
