(* ===== verification/Pages.thy ===== *)
theory Pages
  imports Screens
begin

text \<open>
  The pages of the app and the way between them: the rail (apps/web/components/rail.tsx), the
  gallery (app/studio/page.tsx), the redirect of the root (app/page.tsx) and the frame of the
  builder's page (app/studio/[templateId]/page.tsx). Which page a path leads to is Next's rule over
  the directory app/, a parameter with what that rule says of the five pages there are.
  What is shown: no link of the app is dead, and the salt the builder's page makes is one the
  compiler takes.
\<close>

section \<open>The rail\<close>

record rail_link =
  rl_href :: string
  rl_label :: string
  rl_current :: bool
  rl_colour :: string

definition RailLink :: "string \<Rightarrow> string \<Rightarrow> bool \<Rightarrow> rail_link" where
  "RailLink href lbl active =
     \<lparr> rl_href = href, rl_label = lbl, rl_current = active,
       rl_colour = (if active then ''var(--accent)'' else ''var(--text-tertiary)'') \<rparr>"

text \<open>The mark, which links home, and the two destinations.\<close>

definition Rail :: "string \<Rightarrow> (string \<times> string) \<times> rail_link list" where
  "Rail pathname =
     ((''/studio'', ''Flare Studio''),
      [RailLink ''/studio'' ''Templates'' (starts_with ''/studio'' pathname),
       RailLink ''/policies'' ''Policies'' (starts_with ''/policies'' pathname)])"

section \<open>The gallery\<close>

record template_card =
  tc_title :: string
  tc_badge :: "string \<times> string"
  tc_summary :: string
  tc_link :: "(string \<times> string) option"

definition TemplateCard :: "template \<Rightarrow> template_card" where
  "TemplateCard t =
     \<lparr> tc_title = title t, tc_badge = (if t_live t then (''success'', ''Live'') else (''neutral'', ''Soon'')),
       tc_summary = summary t,
       tc_link = (if \<not> t_live t then None else Some (''/studio/'' @ t_id t, ''Open '' @ title t)) \<rparr>"

definition Gallery :: "(string \<Rightarrow> string \<Rightarrow> int) \<Rightarrow> int \<Rightarrow> (string \<times> template_card list) list" where
  "Gallery collate now = map (\<lambda>(name, ts). (name, map TemplateCard ts)) (templatesBySection collate now)"

section \<open>The builder's page\<close>

text \<open>The template of the route, \<open>None\<close> for the 404, and the heading.\<close>

definition builder_template :: "int \<Rightarrow> string \<Rightarrow> template option" where
  "builder_template now i = find (\<lambda>t. t_id t = i) (TEMPLATES now)"

definition builder_heading :: "template \<Rightarrow> builder \<Rightarrow> string \<times> string list" where
  "builder_heading T b =
     (js_text (prop_of (draft T b) ''name''), [if b_deployed b then ''Deployed'' else ''Draft'', t_section T, title T])"

text \<open>The session's salt, from 32 random bytes.\<close>

definition session_salt :: "bytes \<Rightarrow> string" where
  "session_salt bs = ''0x'' @ concat (map (\<lambda>b. pad_start 2 CHR ''0'' (to_string16 (unat b))) bs)"

section \<open>Pages and links\<close>

datatype page = HomePage | GalleryPage | BuilderPage string | PoliciesPage | MonitorPage string

definition plain_segment :: "string \<Rightarrow> bool" where
  "plain_segment s = (s \<noteq> [] \<and> list_all (\<lambda>c. c = CHR ''-'' \<or> is_digit c \<or> to_lower c \<noteq> c \<or> to_upper c \<noteq> c) s)"

definition next_documented :: "(string \<Rightarrow> page option) \<Rightarrow> bool" where
  "next_documented route \<longleftrightarrow>
     route ''/'' = Some HomePage \<and> route ''/studio'' = Some GalleryPage \<and> route ''/policies'' = Some PoliciesPage \<and>
     (\<forall>s. plain_segment s \<longrightarrow> route (''/studio/'' @ s) = Some (BuilderPage s) \<and> route (''/policies/'' @ s) = Some (MonitorPage s))"

text \<open>The links a page may show; \<open>listed\<close> are the policies the list has rows for, \<open>made\<close> the
  one a dialog has deployed.\<close>

definition rail_hrefs :: "string list" where
  "rail_hrefs = fst (fst (Rail [])) # map rl_href (snd (Rail []))"

fun page_links :: "(string \<Rightarrow> string \<Rightarrow> int) \<Rightarrow> int \<Rightarrow> string list \<Rightarrow> string option \<Rightarrow> page \<Rightarrow> string list" where
  "page_links collate now listed made HomePage = [''/studio'']"
| "page_links collate now listed made GalleryPage =
     rail_hrefs @ concat (map (\<lambda>(name, cards). concat (map (\<lambda>c. case tc_link c of None \<Rightarrow> [] | Some (h, l) \<Rightarrow> [h]) cards)) (Gallery collate now))"
| "page_links collate now listed made (BuilderPage i) =
     rail_hrefs @ [''/studio''] @ (case made of None \<Rightarrow> [] | Some p \<Rightarrow> [''/policies/'' @ p])"
| "page_links collate now listed made PoliciesPage =
     rail_hrefs @ (if listed = [] then [''/studio''] else map (\<lambda>p. ''/policies/'' @ p) listed)"
| "page_links collate now listed made (MonitorPage a) = rail_hrefs"

text \<open>The pages a visitor gets to from the root.\<close>

inductive visits :: "(string \<Rightarrow> page option) \<Rightarrow> (string \<Rightarrow> string \<Rightarrow> int) \<Rightarrow> int \<Rightarrow> string list \<Rightarrow> string option \<Rightarrow> page \<Rightarrow> bool"
  for route collate now listed made where
  root: "route ''/'' = Some p \<Longrightarrow> visits route collate now listed made p"
| follow: "visits route collate now listed made p \<Longrightarrow> l \<in> set (page_links collate now listed made p) \<Longrightarrow> route l = Some q \<Longrightarrow>
    visits route collate now listed made q"

section \<open>Lemmas\<close>

lemma session_salt_hex: "session_salt bs = ''0x'' @ bytes_hex bs"
  by (simp add: session_salt_def bytes_hex_def byte_hex_def [abs_def])

lemma card_links:
  "concat (map (\<lambda>c. case tc_link c of None \<Rightarrow> [] | Some (h, l) \<Rightarrow> [h]) (map TemplateCard ts)) =
     map (\<lambda>t. ''/studio/'' @ t_id t) (filter t_live ts)"
  by (induction ts) (simp_all add: TemplateCard_def)

lemma section_links:
  "concat (map (\<lambda>(name, cards). concat (map (\<lambda>c. case tc_link c of None \<Rightarrow> [] | Some (h, l) \<Rightarrow> [h]) cards))
      (map (\<lambda>(name, ts). (name, map TemplateCard ts)) gs)) =
     map (\<lambda>t. ''/studio/'' @ t_id t) (filter t_live (concat (map snd gs)))"
proof (induction gs)
  case (Cons g gs)
  then show ?case by (cases g) (simp only: list.map concat.simps prod.case card_links filter_append map_append snd_conv)
qed simp

lemma gallery_links:
  "set (page_links collate now listed made GalleryPage) = set rail_hrefs \<union> {''/studio/'' @ t_id t |t. t \<in> set (TEMPLATES now) \<and> t_live t}"
proof -
  have "group_members (templatesBySection collate now) = mset (TEMPLATES now)"
    unfolding templatesBySection_def using sections_partition by blast
  moreover have "mset (concat (map snd gs)) = group_members gs" for gs by (induction gs) (simp_all add: group_members_def)
  ultimately have "set (concat (map snd (templatesBySection collate now))) = set (TEMPLATES now)"
    by (metis set_mset_mset)
  then show ?thesis
    unfolding page_links.simps Gallery_def section_links set_append set_map set_filter by blast
qed

lemma rail_links: "set rail_hrefs = {''/studio'', ''/policies''}"
  by (auto simp: rail_hrefs_def Rail_def RailLink_def)

lemma template_ids:
  "t_id xrp_inheritance_definition = ''xrp-inheritance''" "t_live xrp_inheritance_definition"
  "t_id (scheduled_distribution_definition now) = ''scheduled-distribution''" "t_live (scheduled_distribution_definition now)"
  by (simp_all add: xrp_inheritance_definition_def scheduled_distribution_definition_def)

lemma template_found:
  assumes "t \<in> set (TEMPLATES now)"
  shows "builder_template now (t_id t) = Some t" "plain_segment (t_id t)" "t_live t"
proof -
  have p: "plain_segment ''xrp-inheritance''" "plain_segment ''scheduled-distribution''" by code_simp+
  have "t = xrp_inheritance_definition \<or> t = scheduled_distribution_definition now" using assms by (simp add: TEMPLATES_def)
  then show "builder_template now (t_id t) = Some t" "plain_segment (t_id t)" "t_live t"
    by (elim disjE; simp add: TEMPLATES_def builder_template_def template_ids p)+
qed

text \<open>No link of the app is dead: from the root on, whatever the gallery's collation and the
  policies that are listed or deployed, every link of every page that can be got to leads to a
  page of the app, and a builder's page that is got to finds its template, live, instead
  of the 404.\<close>

theorem no_link_is_dead:
  assumes "next_documented route" "list_all plain_segment listed" "\<forall>p. made = Some p \<longrightarrow> plain_segment p"
    and "visits route collate now listed made p"
  shows "(\<forall>l \<in> set (page_links collate now listed made p). \<exists>q. route l = Some q) \<and>
    (\<forall>i. p = BuilderPage i \<longrightarrow> (\<exists>t. builder_template now i = Some t \<and> t_live t))"
  using assms(4)
proof (induction rule: visits.induct)
  case (root p)
  then show ?case using assms(1) by (auto simp: next_documented_def)
next
  case (follow p l q)
  have links: "(\<forall>l \<in> set (page_links collate now listed made x). \<exists>q. route l = Some q)" for x
    using assms(1-3) template_found(2)
    by (cases x) (auto simp: next_documented_def rail_links gallery_links list_all_iff split: option.split simp del: page_links.simps(2))
  have "\<exists>t. builder_template now i = Some t \<and> t_live t" if "q = BuilderPage i" for i
  proof -
    have "l \<notin> {''/studio'', ''/policies''}" "\<And>a. plain_segment a \<Longrightarrow> l \<noteq> ''/policies/'' @ a"
      using that follow.hyps(3) assms(1) by (auto simp: next_documented_def)
    then have "\<exists>t \<in> set (TEMPLATES now). l = ''/studio/'' @ t_id t"
      using follow.hyps(2) assms(2,3)
      by (cases p) (auto simp: rail_links gallery_links list_all_iff split: option.splits if_splits simp del: page_links.simps(2))
    then obtain t where t: "t \<in> set (TEMPLATES now)" "l = ''/studio/'' @ t_id t" by blast
    with follow.hyps(3) assms(1) template_found [OF t(1)] that show ?thesis by (auto simp: next_documented_def)
  qed
  with links show ?case by blast
qed

text \<open>The salt of the builder's page is one the compiler and the commitment take: 32 random bytes
  give a text that reads back as exactly those bytes, so that different bytes give different salts,
  and a valid draft with it compiles to a commitment over those bytes.\<close>

theorem session_salt_is_used:
  assumes "length bs = 32" "zod_documented zod" "viem_documented V" "T \<in> set (TEMPLATES now)" "wf_shares (b_recipients b)"
    and "\<forall>r \<in> set (b_recipients b). is_address (keccak256 V) (address r)" "b_trigger b = trigger_js t" "wf_trigger t"
  shows "hex_value (session_salt bs) = Some bs \<and> (session_salt bs = session_salt cs \<longleftrightarrow> bs = cs) \<and>
    (\<exists>c sh. compile zod V (draft T b) (session_salt bs) = Inr c \<and> chain_shares (b_recipients b) = Some sh \<and>
       commitment (publicArgs c) = ''0x'' @ bytes_hex (keccak256 V (commitment_preimage sh bs)))"
proof -
  have h: "hex_value (session_salt bs) = Some bs" by (simp add: session_salt_hex hex_value_def starts_with_def)
  obtain c n where c: "compile zod V (draft T b) (session_salt bs) = Inr c" "recipients (privateConfig c) = b_recipients b"
    using edited_compiles [OF assms(2-6) h assms(1,7,8)] by blast
  obtain m where m: "draft T b = ir_js (built_ir m t (b_recipients b))" using draft_ir [OF assms(4,7)] by blast
  have "finite_js (draft T b)" unfolding m by (rule finite_built)
  from compiled_facts [OF assms(2,3) this c(1) h assms(1)] c(2)
  have "\<exists>sh. chain_shares (b_recipients b) = Some sh \<and> commitment (publicArgs c) = ''0x'' @ bytes_hex (keccak256 V (commitment_preimage sh bs))"
    by auto
  with h c(1) show ?thesis by (auto simp: session_salt_hex bytes_hex_inj)
qed

text \<open>Next's rule on this app's paths.\<close>

definition demo_route :: "string \<Rightarrow> page option" where
  "demo_route url =
     (if url = ''/'' then Some HomePage
      else if url = ''/studio'' then Some GalleryPage
      else if url = ''/policies'' then Some PoliciesPage
      else if starts_with ''/studio/'' url \<and> plain_segment (drop 8 url) then Some (BuilderPage (drop 8 url))
      else if starts_with ''/policies/'' url \<and> plain_segment (drop 10 url) then Some (MonitorPage (drop 10 url))
      else None)"

lemma demo_route_documented: "next_documented demo_route"
  by (auto simp: next_documented_def demo_route_def starts_with_def)

lemma no_link_is_dead_witness:
  "\<exists>t. builder_template 0 ''xrp-inheritance'' = Some t \<and> t_live t"
proof -
  have v: "visits demo_route (\<lambda>a b. 0) 0 [] None HomePage"
    by (rule visits.root) (simp add: demo_route_def)
  have "visits demo_route (\<lambda>a b. 0) 0 [] None GalleryPage"
    by (rule visits.follow [OF v, of "''/studio''"]) (simp_all add: demo_route_def)
  moreover have "''/studio/'' @ ''xrp-inheritance'' \<in> set (page_links (\<lambda>a b. 0) 0 [] None GalleryPage)"
    unfolding gallery_links by (auto simp: TEMPLATES_def template_ids intro!: exI [of _ xrp_inheritance_definition])
  moreover have "demo_route (''/studio/'' @ ''xrp-inheritance'') = Some (BuilderPage ''xrp-inheritance'')"
  proof -
    have "plain_segment ''xrp-inheritance''" by code_simp
    with demo_route_documented show ?thesis unfolding next_documented_def by blast
  qed
  ultimately have "visits demo_route (\<lambda>a b. 0) 0 [] None (BuilderPage ''xrp-inheritance'')" by (rule visits.follow)
  from no_link_is_dead [OF demo_route_documented _ _ this] show ?thesis by simp
qed

lemma session_salt_is_used_witness:
  "\<exists>c. compile demo_zod demo_viem (draft xrp_inheritance_definition (demo_builder (trigger_js (ManualHeartbeat YEAR False))))
      (session_salt (replicate 32 7)) = Inr c"
proof -
  have T: "xrp_inheritance_definition \<in> set (TEMPLATES 0)" by (simp add: TEMPLATES_def)
  have "wf_trigger (ManualHeartbeat YEAR False)" by (simp add: YEAR_def)
  from session_salt_is_used [OF _ demo_zod_documented demo_viem_documented T demo_builder_facts(1,3,2) this, of "replicate 32 7" "[]"]
  show ?thesis by auto
qed

end
