(* ===== verification/Spec2Isabelle.thy ===== *)
theory Spec2Isabelle
  imports Server Templates TeeInfo Orchestrator Deploy Inspector EnclaveInfo Wallet NodeClient Demo Builder Policies Monitor Relay Vectors DialogChecks Pages
begin

text \<open>
  Flare Studio, verified.

  \<^bold>\<open>The program.\<close> An author describes in the browser who is to receive an asset, in what
  shares, and what has to happen first. The policy package compiles that description into a
  public half, which a contract is deployed with, and a private half, which is sealed for a
  machine in a trusted execution environment. The contract holds the funds and knows only a
  commitment to the private half. When the policy's trigger fires, anyone may arm it; the
  orchestrator then asks the machine to evaluate it, the machine reveals the shares and signs
  them, and the contract, which checks the commitment and the signature again, pays them out.
  The parts talk through requests on the chain, a proxy that carries instructions to the machine
  and answers back, and, in the browser, a vault in the local storage.

  \<^bold>\<open>How it is modelled.\<close> Every definition translates the code it is named after. A JavaScript
  string is its UTF-8 bytes, a finite number a rational (where its rounding matters, in durations, a double), a value of unknown shape a \<open>jsv\<close>; an
  exception, a revert and a returned error are the \<open>Inl\<close> of a sum. Integers of Solidity and Go have
  their width, with Solidity's overflow checks written out. The outside of the TypeScript code (the
  chain behind viem's clients, fetch, the clock, the browser's storage) is the record \<open>env\<close>, which
  answers each request from the trace of all events so far; a function with effects is a step from a
  trace (and its own state) to a result and a longer trace, so that the order of requests is part of
  what is proved. Packages that are not in the repository (zod, viem, the noble ciphers, OpenZeppelin,
  tokens, Flare's registries and verifier, the Go libraries) are arguments of the definitions that
  use them; what their documentation promises is a named predicate (\<open>zod_documented\<close>,
  \<open>viem_documented\<close>, \<open>noble_documented\<close>, \<open>parseUnits_documented\<close>, \<open>erc20_documented\<close>,
  \<open>eip712_documented\<close>, \<open>node_documented\<close>, \<open>machine_documented\<close>, \<open>formatUnits_documented\<close>,
  \<open>next_documented\<close>), and each of them is proved of an instance.

  \<^bold>\<open>Which theory models what.\<close>
  \<^item> Shared: \<open>Prelude\<close> (results, lists), \<open>JsString\<close>, \<open>JsValue\<close>, \<open>Json\<close> and \<open>Base64\<close> (the parts of
    JavaScript and of JSON the source uses), \<open>Doubles\<close> (the IEEE doubles durations are computed in), \<open>Dates\<close> (ECMAScript's calendar), \<open>BigInts\<close>, \<open>Abi\<close> (the contract ABI encoding), \<open>Codecs\<close>, \<open>Stores\<close> and
    \<open>Splitting\<close> (the interfaces of codecs, keyed stores and splits of a balance, each interpreted
    on the code that provides it).
  \<^item> packages/policy/src: \<open>Assets\<close> (assets.ts, chain-payments.ts), \<open>Schema\<close> (schema.ts),
    \<open>Commitment\<close> (commitment.ts), \<open>Compile\<close> (compile.ts), \<open>Ecies\<close> (ecies.ts), \<open>TeeInfo\<close> (tee-info.ts),
    \<open>Templates\<close> (templates/). packages/policy/scripts: \<open>Vectors\<close> (the generators of the fixtures the
    other languages are tested against, and that these languages' models agree on them).
  \<^item> packages/contracts/src: \<open>PolicyContract\<close> (ConfidentialPolicy.sol, PolicyFactory.sol,
    TeeAttestorGate.sol: storage, operations, lifecycle, re-entrance), \<open>Payouts\<close> (what \<open>execute\<close> pays),
    \<open>Triggers\<close> (ManualHeartbeatTrigger.sol, TimestampTrigger.sol and the interface
    \<open>write_once\<close> all triggers share), \<open>FdcTrigger\<close> (FdcNonexistenceTrigger.sol).
  \<^item> apps/extension/typescript: \<open>ExtEncoding\<close> (base/encoding.ts), \<open>Framework\<close> (base/types.ts),
    \<open>Handlers\<close> (app/), \<open>Server\<close> (base/server.ts, with the queue that runs one handler at a time),
    \<open>NodeClient\<close> (base/node.ts). apps/extension/go: \<open>Enclave\<close> (internal/extension).
  \<^item> apps/orchestrator: \<open>ChainEnv\<close> (the outside world), \<open>AbiTables\<close> (src/abi.ts and the
    browser's lib/abi.ts), \<open>Orchestrator\<close> (src/instructions.ts, src/policy.ts), \<open>Scripts\<close>
    (scripts/handoff-check.ts), \<open>Demo\<close> (scripts/demo.ts).
  \<^item> apps/web/lib: \<open>WebChain\<close> (chain.ts), \<open>Vault\<close> (vault.ts), \<open>StorePolicy\<close> (store-policy.ts),
    \<open>Deploy\<close> (deploy.ts), \<open>WebTriggers\<close> (triggers.ts), \<open>Canvas\<close> (canvas.ts), \<open>Inspector\<close>
    (inspector.ts), \<open>Policies\<close> (policies.ts), \<open>EnclaveInfo\<close> (the route app/api/enclave/info),
    \<open>Wallet\<close> (wallet.ts and the wallet button: the flows, and the hook as a machine in which they
    interleave with the wallet's events).
  \<^item> apps/web, pages and components, as the state they keep and what their effects and handlers do
    to it: \<open>Builder\<close> (the builder's page and its editors), \<open>DeployDialog\<close>, \<open>DialogChecks\<close> (how
    its two checks interleave with the wallet's changes), \<open>Monitor\<close> (the page of one policy); and as what they show of that state and which controls they offer: \<open>Display\<close> (what numbers,
    addresses and states look like, the list page), \<open>TriggerFields\<close> (trigger-editor.tsx, with the
    handlers of its fields), \<open>Forms\<close> (the form, the recipients editor, the review), \<open>Screens\<close> (the
    Monitor and the deploy dialog), \<open>Pages\<close> (the rail, the gallery, the links among the pages).
    Markup is left out.
  \<^item> Across the parts: \<open>Relay\<close> (from the author's browser through the machine, the proxy and the
    orchestrator to the contract's payment), and this theory (the browser, the orchestrator and the
    machine).

  \<^bold>\<open>What the theorems show.\<close>
  \<^item> End to end: what the browser sealed is opened, stored and signed by the machine, and what the
    contract then pays is exactly what the compiler computes (\<open>sealed_policy_pays\<close>); the entry a
    deployment keeps opens with the machine's key to what the factory was asked to commit to
    (\<open>deployed_policy_opens\<close>); the demo ends with every recipient richer by its share.
  \<^item> The contract: whatever is called, and however often a token calls back, a policy keeps its
    terms, moves only forward and pays once; it pays the committed split and nothing else; armed, it
    does pay when asked with the right shares and signature; a heartbeat policy can be armed exactly
    when its owner has been silent for longer than the interval or, in demo mode, has simulated that
    silence, and a payment trigger fires exactly on a verified
    absence over a whole interval.
  \<^item> The compiler: it accepts every well-formed policy, its output is well formed, the commitment
    binds, the public half says nothing of the private one, and no base unit is lost or created.
  \<^item> The browser: requests of a deployment and their order, what a failure leaves in the
    vault, what the pages offer and what their buttons do, and that what is shown is what is sent; what
    the trigger editor leaves behind is typed and compiles (or is an interval that overflowed, and is
    refused), the form renders whatever
    the draft holds, the review states the terms that deploy, the page of a new policy lists
    the recipients reviewed, the wallet hook ends on the account the wallet last announced unless its
    silent reconnection overwrites it (\<open>reconnect_shows_stale_account\<close> is that race), the deploy
    dialog on that account's balance, and no link is dead.
  \<^item> The orchestrator and the extension: polling ends, an unarmed policy is not evaluated, the
    machine's answer is what is submitted, handlers run one at a time in the order of arrival and
    change the state only when they succeed.

  \<^bold>\<open>Bounds and fuel.\<close> \<open>json_parse\<close> recurses on a fuel of the length of its text, which every call
  shortens, so it is never short of it (\<open>json_parse_text\<close> is the round trip). The polling loop is a
  \<open>partial_function (option)\<close>; that it returns is proved for every clock that advances by at least the
  interval a poll sleeps (\<open>pollActionResult_ends\<close>). The depth of calls among contracts is an argument, and what is
  proved of re-entrance holds at every depth. \<open>execute\<close> is proved to succeed for balances below
  \<open>2 ^ 256 / 10000\<close>, where \<open>available * shareBps\<close> cannot overflow.

  \<^bold>\<open>Not modelled.\<close> Markup, styles, icons and the frame around the pages (no state of their own);
  rounding of doubles outside the durations (elsewhere the numbers of the source are integers far
  below \<open>2 ^ 53\<close>, or percentages whose product with 100 is rounded to an integer at once), and the
  exponents JavaScript writes integers from \<open>10 ^ 21\<close> on with; strings with unpaired
  surrogates; React's scheduling (a handler runs to its end before the next event, except where a
  stale result is what the code guards against); the locking of the Go machine (its handlers run one
  after another); gas; tests, deployment scripts, docker and proxy files; the
  sibling extension in Python; InstructionSender.sol, whose only work is in Flare's registries.
  Code that is only re-exported or generated is left out.
\<close>

section \<open>The two hand-offs\<close>

text \<open>The browser's hand-off and the orchestrator's, on the same log.\<close>

lemma same_instruction_tables: "teeInstructionsSentAbi = orch_teeInstructionsSentAbi"
  by (simp add: teeInstructionsSentAbi_def orch_teeInstructionsSentAbi_def)

lemma same_instruction_id:
  "web_extractInstructionId decode logs =
     (case extractInstructionId decode logs of Inl _ \<Rightarrow> Inl no_store_instruction | Inr i \<Rightarrow> Inr i)"
  by (induction logs) (auto simp: same_instruction_tables log_arg_def hex_arg_def split: sum.split prod.split)

lemma same_store_call: "store_call P policy ct = instruction_call (policyInstructionSender (ADDRESSES P)) ''sendStorePolicy'' [JStr policy, JStr ct]"
  by (simp add: store_call_def instruction_call_def INSTRUCTION_FEE_def orch_INSTRUCTION_FEE_def)

section \<open>A deployed policy and its enclave\<close>

text \<open>The keys the route serves are those of the machine with the private key \<open>key\<close>.\<close>

definition enclave_serves :: "browser \<Rightarrow> bytes \<Rightarrow> bool" where
  "enclave_serves B key \<longleftrightarrow>
     (\<forall>k. served_key B k \<longrightarrow> normalizeTeePublicKey (br_noble B) (HexStr k) = Inr (getPublicKey (br_noble B) key))"

lemma sealed_opens:
  assumes "noble_documented (br_noble B)" "valid_private (br_noble B) (br_ephemeral B)" "valid_private (br_noble B) key"
    and "length (br_iv B) = IV_LEN" "enclave_serves B key" "sealed_by B text ct"
  shows "eciesDecrypt (br_noble B) (Raw key) (HexStr ct) = Inr (utf8_bytes text)"
proof -
  obtain k where k: "served_key B k" "eciesEncrypt (br_noble B) (br_ephemeral B) (br_iv B) (HexStr k) (utf8_bytes text) = Inr ct"
    using assms(6) by (auto simp: sealed_by_def)
  with assms(5) have "normalizeTeePublicKey (br_noble B) (HexStr k) = Inr (getPublicKey (br_noble B) key)"
    by (simp add: enclave_serves_def)
  from decrypt_encrypted [OF assms(1-4) this, of "utf8_bytes text"] k(2) show ?thesis by (auto simp: eciesDecrypt_def)
qed

text \<open>The ciphertext in the entry is what sealing gave.\<close>

lemma entry_ciphertext:
  assumes "vault_ok (br_env B) t" "deployPolicy B compiled slt templateId account dep t = (Inr entry, t')"
    and "\<And>s. \<exists>s'. seal_section B (plaintext compiled) s = (Inr ct, s')"
  shows "ve_ciphertext entry = ct"
proof -
  let ?s = "(initial_steps (ir_asset (ir compiled)), t)"
  obtain s1 where s1: "seal_section B (plaintext compiled) ?s = (Inr ct, s1)" using assms(3) by blast
  obtain trg policy tx s2 s3 st4 where run: "deploy_section B (commitment (publicArgs compiled)) trg s1 = (Inr (policy, tx), s2)"
    "configure_section B (ir_trigger (ir compiled)) trg account policy s2 = (Inr (), s3)"
    "finish_section B compiled slt templateId trg policy tx ct dep s3 = (Inr entry, st4)"
    using assms(2) s1
    by (auto simp: deployPolicy_def deploy_flow_def walletClient_def act_bind_Inr act_return_def act_throw_def act_lift_def split: prod.splits if_splits)
  obtain u1 where u1: "snd s1 = t @ u1" "keeps_storage u1" by (rule emits_elim [OF seal_emits s1]) auto
  obtain u2 where u2: "snd s2 = snd s1 @ u2" "keeps_storage u2" by (rule emits_elim [OF deploy_emits run(1)]) auto
  obtain u3 where u3: "snd s3 = snd s2 @ u3" "keeps_storage u3" by (rule emits_elim [OF configure_emits run(2)]) auto
  have "vault_ok (br_env B) (snd s3)" using assms(1) u1 u2 u3 by (simp add: vault_ok_cong)
  from finish_effect [OF this run(3)] obtain now where "same_but_handoff (new_entry compiled slt templateId trg policy ct tx now) entry"
    by blast
  then show ?thesis by (auto simp: same_but_handoff_def new_entry_def)
qed

section \<open>A concrete deployment\<close>

text \<open>A browser whose route serves a machine's document, on the chain of the vault's examples.\<close>

definition sealing_env :: env where
  "sealing_env = demo_browser\<lparr> env_fetch := (\<lambda>t url. Inr \<lparr> http_ok = True, http_status = 200, http_type = ''application/json'',
     http_body = the (json_text demo_machine) \<rparr>) \<rparr>"

definition sealing_process :: process_env where
  "sealing_process k =
     (if k = ''NEXT_PUBLIC_EXT_PROXY_URL'' then Some ''http://proxy''
      else if k \<in> {''NEXT_PUBLIC_POLICY_FACTORY'', ''NEXT_PUBLIC_MANUAL_HEARTBEAT_TRIGGER''} then Some ''0xfa''
      else None)"

definition sealing_web :: browser where
  "sealing_web = demo_web\<lparr> br_env := sealing_env, br_process := sealing_process, br_ephemeral := replicate 32 1, br_iv := replicate 16 9 \<rparr>"

lemma sealing_web_simps [simp]:
  "br_env sealing_web = sealing_env" "br_process sealing_web = sealing_process" "br_noble sealing_web = demo_noble"
  "br_viem sealing_web = demo_viem" "br_decode sealing_web = demo_web_decode" "br_ephemeral sealing_web = replicate 32 1"
  "br_iv sealing_web = replicate 16 9"
  by (simp_all add: sealing_web_def demo_web_def)

lemma sealing_env_simps [simp]:
  "env_wallet sealing_env" "env_set_item sealing_env t k v = Inr ()" "vault_ok sealing_env []"
  "env_fetch sealing_env t url = Inr \<lparr> http_ok = True, http_status = 200, http_type = ''application/json'', http_body = the (json_text demo_machine) \<rparr>"
  by (simp_all add: sealing_env_def demo_browser_def vault_ok_def vault_read_def stored_value_def)

lemma sealing_serves: "enclave_serves sealing_web (replicate 32 2)"
  using demo_machine_key by (auto simp: enclave_serves_def served_key_def demo_machine_parsed)

lemma sealing_seals: "\<exists>ct. \<forall>s. \<exists>s'. seal_section sealing_web text s = (Inr (Some ct), s')"
proof -
  obtain k where k: "teePublicKeyFromInfo demo_machine = Inr k"
    "normalizeTeePublicKey demo_noble (HexStr k) = Inr (getPublicKey demo_noble (replicate 32 2))"
    using demo_machine_key by blast
  obtain ct where "eciesEncrypt demo_noble (replicate 32 1) (replicate 16 9) (HexStr k) (utf8_bytes text) = Inr ct"
    using decrypt_encrypted [OF demo_noble_documented _ _ _ k(2), of "replicate 32 1" "replicate 16 9" "utf8_bytes text"]
    by (auto simp: demo_noble_valid)
  moreover have "sealing_process ''NEXT_PUBLIC_EXT_PROXY_URL'' = Some ''http://proxy''" by (simp add: sealing_process_def)
  ultimately have "\<exists>s'. seal_section sealing_web text s = (Inr (Some ct), s')" for s
    by (simp add: seal_section_def act_bind_def act_catch_def update_snd on_trace_def fetchTeePublicKey_def fetch_def
        act_lift_def parse_body_def demo_machine_parsed k(1) act_return_def)
  then show ?thesis by blast
qed

lemma sealing_deploys:
  assumes "ir_trigger (ir c) = ManualHeartbeat i d"
  shows "\<exists>entry t'. deployPolicy sealing_web c slt tid account dep [] = (Inr entry, t')"
proof -
  have nz: "\<not> re_zero_hex ''0xfa''" by code_simp
  then have trg: "triggerAddress (br_process sealing_web) (ir_trigger (ir c)) = Inr ''0xfa''"
    by (simp add: assms requireDeployed_def ADDRESSES_def envAddress_def sealing_process_def)
  have low: "lower_case ''0xFA'' = lower_case ''0xfa''" by code_simp
  have "chain_accepts sealing_web dep (\<lambda>t c. ''0x'' @ call_fn c) (\<lambda>t c. case env_receipt demo_browser [] [] of Inr rc \<Rightarrow> rc)
      (\<lambda>t c. ''0x0000000000000000000000000000000000000077'')"
    using low by (simp add: chain_accepts_def sealing_env_def demo_browser_def demo_web_decode_def ADDRESSES_def envAddress_def
        sealing_process_def log_arg_def)
  from deploy_returns [OF _ trg this, of account "[]" slt tid] show ?thesis
    by (simp add: assms configureRequest_def)
qed

section \<open>Properties\<close>

text \<open>C3: A policy deployed from the browser can be evaluated: what the deployment kept as its
  ciphertext opens, with the key of the machine that the route serves, to JSON that holds
  the salt and the recipients of the policy's own action, in order, and the factory was
  asked to commit to exactly those: the hash of their encoding with that salt.\<close>

theorem deployed_policy_opens:
  assumes "zod_documented zod" "viem_documented (br_viem B)" "noble_documented (br_noble B)"
    and "valid_private (br_noble B) (br_ephemeral B)" "valid_private (br_noble B) key" "length (br_iv B) = IV_LEN"
    and "finite_js input" "hex_value slt = Some s" "length s = 32"
    and "compile zod (br_viem B) input slt = Inr compiled" "enclave_serves B key" "vault_ok (br_env B) t"
    and "deployPolicy B compiled slt templateId account dep t = (Inr entry, t @ u)" "ve_ciphertext entry = Some ct"
  shows "\<exists>rs later cs trg text. ir_actions (ir compiled) = SplitTransfer rs # later \<and>
    eciesDecrypt (br_noble B) (Raw key) (HexStr ct) = Inr (utf8_bytes text) \<and>
    json_parse text = Some (sortKeys (enclave_js \<lparr> salt = slt, shares = map (\<lambda>r. (address r, shareBps r)) rs \<rparr>)) \<and>
    chain_shares rs = Some cs \<and>
    deploy_call (br_process B) (''0x'' @ bytes_hex (keccak256 (br_viem B) (commitment_preimage cs s))) trg \<in> set (written u)"
proof -
  obtain v where "t @ u = t @ v" "deploy_done B compiled slt templateId account dep (written v) entry (t @ u)"
    using deployPolicy_effect [OF assms(12,13)] by blast
  then obtain trg policy c ct' hs tx now where d:
    "written u = [deploy_call (br_process B) (commitment (publicArgs compiled)) trg, c] @ hs @ funding_calls B policy dep"
    "\<forall>x. ct' = Some x \<longrightarrow> sealed_by B (plaintext compiled) x"
    "same_but_handoff (new_entry compiled slt templateId trg policy ct' tx now) entry"
    unfolding deploy_done_def by auto
  from d(3) assms(14) have "ct' = Some ct" by (auto simp: same_but_handoff_def new_entry_def)
  with d(2) have opened: "eciesDecrypt (br_noble B) (Raw key) (HexStr ct) = Inr (utf8_bytes (plaintext compiled))"
    using sealed_opens [OF assms(3-6,11)] by blast
  from compiled_facts [OF assms(1,2,7,10,8,9)] obtain rs later cs where
    f: "ir_actions (ir compiled) = SplitTransfer rs # later" "shares (enclaveConfig compiled) = map (\<lambda>r. (address r, shareBps r)) rs"
    "salt (enclaveConfig compiled) = slt" "json_parse (plaintext compiled) = Some (sortKeys (enclave_js (enclaveConfig compiled)))"
    "chain_shares rs = Some cs"
    "commitment (publicArgs compiled) = ''0x'' @ bytes_hex (keccak256 (br_viem B) (commitment_preimage cs s))"
    by blast
  have "enclaveConfig compiled = \<lparr> salt = slt, shares = map (\<lambda>r. (address r, shareBps r)) rs \<rparr>"
    using f(2,3) by (cases "enclaveConfig compiled") simp
  with f opened d(1) show ?thesis
    by (intro exI [of _ rs] exI [of _ later] exI [of _ cs] exI [of _ trg] exI [of _ "plaintext compiled"]) simp
qed

lemma deployed_policy_opens_witness:
  "\<exists>compiled entry u ct rs later cs trg text.
     compile demo_zod demo_viem check_input (salt_text demo_script) = Inr compiled \<and>
     deployPolicy sealing_web compiled (salt_text demo_script) ''xrp'' ''0xme'' 0 [] = (Inr entry, u) \<and>
     ve_ciphertext entry = Some ct \<and>
     ir_actions (ir compiled) = SplitTransfer rs # later \<and>
     eciesDecrypt demo_noble (Raw (replicate 32 2)) (HexStr ct) = Inr (utf8_bytes text) \<and>
     deploy_call sealing_process (''0x'' @ bytes_hex (keccak256 demo_viem (commitment_preimage cs (replicate 32 5)))) trg \<in> set (written u)"
proof -
  obtain c where c: "compile demo_zod demo_viem check_input (salt_text demo_script) = Inr c" "ir c = check_ir"
    using check_compiles [OF demo_zod_documented demo_viem_documented salt_text_value, of demo_script] by (auto simp: demo_script_def)
  have "ir_trigger (ir c) = ManualHeartbeat 3600 True" by (simp add: c(2) check_ir_def)
  then obtain entry u where run: "deployPolicy sealing_web c (salt_text demo_script) ''xrp'' ''0xme'' 0 [] = (Inr entry, [] @ u)"
    using sealing_deploys by fastforce
  obtain ct where seals: "\<And>s. \<exists>s'. seal_section sealing_web (plaintext c) s = (Inr (Some ct), s')"
    using sealing_seals [of "plaintext c"] by blast
  have ct: "ve_ciphertext entry = Some ct" by (rule entry_ciphertext [OF _ run seals]) simp
  have salt: "hex_value (salt_text demo_script) = Some (replicate 32 5)" using salt_text_value [of demo_script] by (simp add: demo_script_def)
  have f: "finite_js check_input" using check_facts check_input_ir by simp
  from deployed_policy_opens [of demo_zod sealing_web "replicate 32 2", OF demo_zod_documented _ _ _ _ _ f salt _ _ sealing_serves _ run ct]
  show ?thesis using c(1) run ct demo_viem_documented demo_noble_documented by (auto simp: demo_noble_valid)
qed

text \<open>C31: The browser and the orchestrator hand a policy off in the same way: with an instruction
  sender configured and a wallet, whatever the chain answers, both make the same
  requests in the same order and both fail or both end with the same instruction id
  and transaction.\<close>

theorem handoffs_agree:
  assumes "enclaveHandoffConfigured P" "env_wallet E"
  shows "snd (storePolicyOnChain E P decode policy ct t) =
      snd (sendStorePolicy E decode (Some account) (policyInstructionSender (ADDRESSES P)) policy ct t) \<and>
    (case (fst (storePolicyOnChain E P decode policy ct t),
        fst (sendStorePolicy E decode (Some account) (policyInstructionSender (ADDRESSES P)) policy ct t)) of
       (Inr h, Inr r) \<Rightarrow> h_instructionId h = instructionId r \<and> h_txHash h = txHash r
     | (Inl _, Inl _) \<Rightarrow> True
     | _ \<Rightarrow> False)"
  using assms
  by (auto simp: storePolicyOnChain_def sendStorePolicy_def send_instruction_def walletClient_def act_bind_def act_prims
      same_store_call same_instruction_id Let_def split: sum.split)

lemma handoffs_agree_witness:
  "\<exists>h r. fst (storePolicyOnChain demo_script_env monitor_process demo_script_decode ''0x99'' ''0xaa'' []) = Inr h \<and>
     fst (sendStorePolicy demo_script_env demo_script_decode (Some ''0xme'')
       (policyInstructionSender (ADDRESSES monitor_process)) ''0x99'' ''0xaa'' []) = Inr r \<and>
     h_instructionId h = instructionId r"
proof -
  have "enclaveHandoffConfigured monitor_process" by code_simp
  moreover have "env_wallet demo_script_env" by (simp add: demo_script_env_def demo_env_def)
  moreover have "\<exists>r. fst (sendStorePolicy demo_script_env demo_script_decode (Some ''0xme'')
       (policyInstructionSender (ADDRESSES monitor_process)) ''0x99'' ''0xaa'' []) = Inr r"
    by (simp add: sendStorePolicy_def send_instruction_def act_bind_def act_prims demo_script_env_def demo_env_def demo_script_decode_def Let_def)
  ultimately show ?thesis
    using handoffs_agree [of monitor_process demo_script_env demo_script_decode "''0x99''" "''0xaa''" "[]" "''0xme''"]
    by (auto split: sum.splits)
qed

end
